(* ===== verification/Prelude.thy ===== *)
theory Prelude
  imports Main "HOL-Library.Word" "HOL-Library.Signed_Division"
begin

text \<open>
  Shared vocabulary of the development: the machine types of the C++ code (\<open>std::uint32_t\<close>,
  \<open>std::int64_t\<close>, \<open>std::uint64_t\<close>, \<open>char\<close>, \<open>std::string\<close>), decimal printing as done by
  \<open>std::format("{}", n)\<close>, the \<open>std::string_view\<close> operations the sources use, and generic
  lemmas about lists, words and options that the component theories share.
\<close>

section \<open>Machine types\<close>

type_synonym u32 = "32 word"
type_synonym u64 = "64 word"
type_synonym i64 = "64 word"

named_theorems frame_simps \<open>what an operation leaves unchanged in its state\<close>

text \<open>
  A C++ \<open>char\<close> is a byte; HOL's \<^typ>\<open>char\<close> is one too. The sources compare characters as
  signed numbers (\<open>c >= '0'\<close>), which \<open>schar\<close> reproduces.
\<close>

definition byte :: "char \<Rightarrow> nat" where
  "byte c = of_char c"

definition schar :: "char \<Rightarrow> int" where
  "schar c = (if byte c < 128 then int (byte c) else int (byte c) - 256)"

lemma byte_less: "byte c < 256"
  by (simp add: byte_def)

lemma byte_inject [simp]: "byte c = byte d \<longleftrightarrow> c = d"
  by (simp add: byte_def)

lemma byte_char_of [simp]: "byte (char_of n) = n mod 256" for n :: nat
  by (simp add: byte_def)

lemma char_of_byte [simp]: "char_of (byte c) = c"
  by (simp add: byte_def)

lemma schar_inject [simp]: "schar c = schar d \<longleftrightarrow> c = d"
  using byte_less [of c] byte_less [of d] by (auto simp: schar_def split: if_splits)

lemma schar_range: "- 128 \<le> schar c \<and> schar c < 128"
  using byte_less [of c] by (auto simp: schar_def)

abbreviation newline :: char where
  "newline \<equiv> CHR 0x0A"

abbreviation nul :: char where
  "nul \<equiv> CHR 0x00"

section \<open>Decimal printing\<close>

definition digit_char :: "nat \<Rightarrow> char" where
  "digit_char n = char_of (48 + n)"

fun dec :: "nat \<Rightarrow> string" where
  "dec n = (if n < 10 then [digit_char n] else dec (n div 10) @ [digit_char (n mod 10)])"

declare dec.simps [simp del]

lemma byte_digit_char: "n < 10 \<Longrightarrow> byte (digit_char n) = 48 + n"
  by (simp add: digit_char_def)

lemma dec_not_Nil [simp]: "dec n \<noteq> []"
  by (subst dec.simps) simp

lemma dec_digits: "c \<in> set (dec n) \<Longrightarrow> 48 \<le> byte c \<and> byte c < 58"
proof (induction n rule: dec.induct)
  case (1 n)
  then show ?case
    by (subst (asm) dec.simps) (auto simp: byte_digit_char split: if_splits)
qed

section \<open>Strings\<close>

text \<open>\<open>s.substr(b, n)\<close>, \<open>s.starts_with(t)\<close> and \<open>s.ends_with(t)\<close>.\<close>

definition substr :: "'a list \<Rightarrow> nat \<Rightarrow> nat \<Rightarrow> 'a list" where
  "substr s b n = take n (drop b s)"

definition starts_with :: "'a list \<Rightarrow> 'a list \<Rightarrow> bool" where
  "starts_with s t \<longleftrightarrow> take (length t) s = t"

definition ends_with :: "'a list \<Rightarrow> 'a list \<Rightarrow> bool" where
  "ends_with s t \<longleftrightarrow> starts_with (rev s) (rev t)"

text \<open>A text between single quotes, as the messages have it.\<close>

definition quoted_text :: "string \<Rightarrow> string" where
  "quoted_text t = [CHR 0x27] @ t @ [CHR 0x27]"

text \<open>\<open>s.find(c, b)\<close>: the first position of \<open>c\<close> at or after \<open>b\<close>.\<close>

definition find_from :: "char \<Rightarrow> string \<Rightarrow> nat \<Rightarrow> nat option" where
  "find_from c s b =
     (let k = length (takeWhile (\<lambda>x. x \<noteq> c) (drop b s))
      in if b + k < length s then Some (b + k) else None)"

lemma starts_with_iff: "starts_with s t \<longleftrightarrow> (\<exists>u. s = t @ u)"
  unfolding starts_with_def by (metis append_take_drop_id append_eq_conv_conj)

lemma starts_with_length: "starts_with s t \<Longrightarrow> length t \<le> length s"
  by (auto simp: starts_with_iff)

lemma ends_with_iff: "ends_with s t \<longleftrightarrow> (\<exists>u. s = u @ t)"
proof -
  have "ends_with s t \<longleftrightarrow> (\<exists>u. rev s = rev t @ u)"
    by (simp add: ends_with_def starts_with_iff)
  also have "\<dots> \<longleftrightarrow> (\<exists>u. s = u @ t)"
    by (metis rev_append rev_rev_ident)
  finally show ?thesis .
qed

lemma find_from_Some:
  assumes "find_from c s b = Some e"
  shows "b \<le> e" "e < length s" "s ! e = c" "\<And>i. b \<le> i \<Longrightarrow> i < e \<Longrightarrow> s ! i \<noteq> c"
proof -
  let ?k = "length (takeWhile (\<lambda>x. x \<noteq> c) (drop b s))"
  from assms have e: "e = b + ?k" and lt: "b + ?k < length s"
    by (auto simp: find_from_def Let_def split: if_splits)
  show "b \<le> e" "e < length s" using e lt by auto
  have "?k < length (drop b s)" using lt by simp
  from nth_length_takeWhile [OF this] have "drop b s ! ?k = c" by simp
  then show "s ! e = c" using e lt by simp
  fix i assume i: "b \<le> i" "i < e"
  then have k: "i - b < ?k" using e by simp
  then have "takeWhile (\<lambda>x. x \<noteq> c) (drop b s) ! (i - b) \<in> set (takeWhile (\<lambda>x. x \<noteq> c) (drop b s))"
    by (rule nth_mem)
  then have "takeWhile (\<lambda>x. x \<noteq> c) (drop b s) ! (i - b) \<noteq> c"
    by (rule set_takeWhileD [THEN conjunct2])
  with k show "s ! i \<noteq> c"
    using i lt by (simp add: takeWhile_nth)
qed

lemma find_from_None:
  assumes "find_from c s b = None" "b \<le> i" "i < length s"
  shows "s ! i \<noteq> c"
proof -
  let ?k = "length (takeWhile (\<lambda>x. x \<noteq> c) (drop b s))"
  have le: "?k \<le> length (drop b s)" by (rule length_takeWhile_le)
  from assms(1) have "\<not> b + ?k < length s"
    by (auto simp: find_from_def Let_def split: if_splits)
  then have "?k = length (drop b s)" using le assms by simp
  then have "takeWhile (\<lambda>x. x \<noteq> c) (drop b s) = drop b s"
    by (metis takeWhile_eq_take take_all order_refl)
  then have "\<forall>x \<in> set (drop b s). x \<noteq> c"
    by (simp add: takeWhile_eq_all_conv)
  moreover have "s ! i \<in> set (drop b s)"
    using assms(2,3) nth_mem [of "i - b" "drop b s"] by simp
  ultimately show ?thesis by blast
qed

section \<open>Lists and words\<close>

lemma take_Suc_nth: "k < length xs \<Longrightarrow> take (Suc k) xs = take k xs @ [xs ! k]"
  by (rule take_Suc_conv_app_nth)

lemma nth_eq_hd_drop: "k < length xs \<Longrightarrow> xs ! k = hd (drop k xs)"
  by (simp add: hd_drop_conv_nth)

lemma drop_eq_Cons: "k < length xs \<Longrightarrow> drop k xs = xs ! k # drop (Suc k) xs"
  by (simp add: Cons_nth_drop_Suc)

lemma length_substr [simp]: "length (substr s b n) = min n (length s - b)"
  by (simp add: substr_def)

lemma substr_split:
  "b \<le> e \<Longrightarrow> e \<le> length s \<Longrightarrow> take b s @ substr s b (e - b) @ drop e s = s"
  unfolding substr_def
  by (metis append_assoc append_take_drop_id drop_drop le_add_diff_inverse2 take_add le_add_diff_inverse)

lemma word_of_nat_32_eq:
  assumes "a < 2 ^ 32" "b < 2 ^ 32"
  shows "(word_of_nat a :: u32) = word_of_nat b \<longleftrightarrow> a = b"
  using assms by (simp add: word_of_nat_eq_iff take_bit_nat_eq_self)

lemma unat_of_nat_32: "n < 2 ^ 32 \<Longrightarrow> unat (word_of_nat n :: u32) = n"
  by (simp add: unat_of_nat take_bit_nat_eq_self)

lemma word_of_nat_Suc: "(word_of_nat (Suc n) :: 'a::len word) = word_of_nat n + 1"
  by simp

end
