(* ===== verification/Diagnostics.thy ===== *)
theory Diagnostics
  imports Prelude
begin

text \<open>
  The library \<open>jiaBasic\<close>: source locations with their defaulted \<open><=>\<close>, diagnostics, the
  \<open>Result\<close> type of every fallible phase, and \<open>render\<close>, which prints a diagnostic with the
  offending line and a caret. The locale \<open>diag_sink\<close> is the contract of the private
  \<open>error\<close> member that the lexer, the parser and the analyzer each have: it appends one
  diagnostic and never removes one.
\<close>

section \<open>Source locations\<close>

datatype source_location = SourceLocation (line: u32) (column: u32)

definition isValid :: "source_location \<Rightarrow> bool" where
  "isValid l \<longleftrightarrow> line l \<noteq> 0"

text \<open>The defaulted comparison: by line, then by column.\<close>

instantiation source_location :: linorder
begin

definition less_eq_source_location :: "source_location \<Rightarrow> source_location \<Rightarrow> bool" where
  "less_eq_source_location a b \<longleftrightarrow>
     line a < line b \<or> line a = line b \<and> column a \<le> column b"

definition less_source_location :: "source_location \<Rightarrow> source_location \<Rightarrow> bool" where
  "less_source_location a b \<longleftrightarrow>
     line a < line b \<or> line a = line b \<and> column a < column b"

instance
  by standard
    (auto simp: less_eq_source_location_def less_source_location_def intro: source_location.expand)

end

section \<open>Diagnostics and results\<close>

datatype severity = Error | Warning | Note

record diagnostic =
  diag_severity :: severity
  diag_loc :: source_location
  diag_message :: string

type_synonym 'a result = "diagnostic list + 'a"

definition makeError :: "source_location \<Rightarrow> string \<Rightarrow> diagnostic" where
  "makeError l msg = \<lparr>diag_severity = Error, diag_loc = l, diag_message = msg\<rparr>"

definition fail :: "source_location \<Rightarrow> string \<Rightarrow> 'a result" where
  "fail l msg = Inl [makeError l msg]"

text \<open>\<open>Result::and_then\<close>: the next phase runs only on a value.\<close>

definition and_then :: "'a result \<Rightarrow> ('a \<Rightarrow> 'b result) \<Rightarrow> 'b result" where
  "and_then r f = (case r of Inl ds \<Rightarrow> Inl ds | Inr a \<Rightarrow> f a)"

lemma and_then_simps [simp]:
  "and_then (Inl ds) f = Inl ds" "and_then (Inr a) f = f a"
  by (simp_all add: and_then_def)

lemma and_then_Inr: "and_then r f = Inr b \<longleftrightarrow> (\<exists>a. r = Inr a \<and> f a = Inr b)"
  by (cases r) auto

locale diag_sink =
  fixes diags_of :: "'s \<Rightarrow> diagnostic list"
    and report :: "source_location \<Rightarrow> string \<Rightarrow> 's \<Rightarrow> 's"
  assumes report_appends: "diags_of (report l msg s) = diags_of s @ [makeError l msg]"
begin

definition extends :: "'s \<Rightarrow> 's \<Rightarrow> bool" where
  "extends s s' \<longleftrightarrow> (\<exists>ds. diags_of s' = diags_of s @ ds)"

lemma extends_refl [simp]: "extends s s"
  by (simp add: extends_def)

lemma extends_trans [trans]: "extends s t \<Longrightarrow> extends t u \<Longrightarrow> extends s u"
  by (auto simp: extends_def)

lemma extends_same: "diags_of s' = diags_of s \<Longrightarrow> extends s s'"
  unfolding extends_def by (rule exI [of _ "[]"]) simp

lemma extends_report: "extends s t \<Longrightarrow> extends s (report l msg t)"
  by (auto simp: extends_def report_appends)

lemma report_grows: "extends s t \<Longrightarrow> diags_of (report l msg t) \<noteq> diags_of s"
  by (auto simp: extends_def report_appends)

lemma extends_clean: "extends s s' \<Longrightarrow> diags_of s' = [] \<Longrightarrow> diags_of s = []"
  by (auto simp: extends_def)

lemma extends_antisym:
  "extends s t \<Longrightarrow> extends t u \<Longrightarrow> diags_of u = diags_of s \<Longrightarrow> diags_of t = diags_of s"
  unfolding extends_def by (metis append_assoc append_is_Nil_conv append_self_conv)

lemma extends_length: "extends s s' \<Longrightarrow> length (diags_of s) \<le> length (diags_of s')"
  by (auto simp: extends_def)

end

section \<open>Rendering\<close>

fun severityName :: "severity \<Rightarrow> string" where
  "severityName Error = ''error''"
| "severityName Warning = ''warning''"
| "severityName Note = ''note''"

text \<open>The loop of \<open>lineText\<close>: skip \<open>n\<close> newlines starting the search at \<open>begin\<close>.\<close>

fun skipLines :: "string \<Rightarrow> nat \<Rightarrow> nat \<Rightarrow> nat option" where
  "skipLines source 0 b = Some b"
| "skipLines source (Suc n) b =
     (case find_from newline source b of None \<Rightarrow> None | Some e \<Rightarrow> skipLines source n (e + 1))"

definition lineText :: "string \<Rightarrow> u32 \<Rightarrow> string" where
  "lineText source ln =
     (case skipLines source (unat ln - 1) 0 of
        None \<Rightarrow> []
      | Some b \<Rightarrow>
          (case find_from newline source b of
             None \<Rightarrow> drop b source
           | Some e \<Rightarrow> substr source b (e - b)))"

text \<open>\<open>std::format("{:>5}", n)\<close>.\<close>

definition pad5 :: "string \<Rightarrow> string" where
  "pad5 s = replicate (5 - length s) CHR '' '' @ s"

definition caretPad :: "u32 \<Rightarrow> string \<Rightarrow> string" where
  "caretPad col text =
     map (\<lambda>c. if c = CHR 0x09 then CHR 0x09 else CHR '' '') (take (unat col - 1) text)"

definition render :: "diagnostic \<Rightarrow> string \<Rightarrow> string \<Rightarrow> string" where
  "render diag fileName source =
     (let l = diag_loc diag; sev = severityName (diag_severity diag) in
      if \<not> isValid l then fileName @ '': '' @ sev @ '': '' @ diag_message diag @ [newline]
      else
        let out = fileName @ '':'' @ dec (unat (line l)) @ '':'' @ dec (unat (column l)) @ '': ''
                    @ sev @ '': '' @ diag_message diag @ [newline];
            text = lineText source (line l)
        in if text = [] then out
           else let gutter = pad5 (dec (unat (line l))) in
             out @ gutter @ '' | '' @ text @ [newline]
               @ replicate (length gutter) CHR '' '' @ '' | '' @ caretPad (column l) text
               @ ''^'' @ [newline])"

section \<open>Positions in a text\<close>

text \<open>
  What a location should be: the position \<open>k\<close> of a text is on the line numbered by one more
  than the newlines before it, at the column counted in bytes from the last of them.
\<close>

definition lineNo :: "string \<Rightarrow> nat" where
  "lineNo pre = Suc (count_list pre newline)"

definition colNo :: "string \<Rightarrow> nat" where
  "colNo pre = Suc (length (takeWhile (\<lambda>c. c \<noteq> newline) (rev pre)))"

definition locOf :: "string \<Rightarrow> source_location" where
  "locOf pre = SourceLocation (word_of_nat (lineNo pre)) (word_of_nat (colNo pre))"

lemma lineNo_simps [simp]:
  "lineNo [] = 1" "lineNo (pre @ [c]) = (if c = newline then Suc (lineNo pre) else lineNo pre)"
  by (simp_all add: lineNo_def)

lemma colNo_simps [simp]:
  "colNo [] = 1" "colNo (pre @ [c]) = (if c = newline then 1 else Suc (colNo pre))"
  by (simp_all add: colNo_def)

lemma lineNo_ge: "1 \<le> lineNo pre"
  and colNo_ge: "1 \<le> colNo pre"
  by (simp_all add: lineNo_def colNo_def)

lemma lineNo_colNo_bound: "lineNo pre + colNo pre \<le> length pre + 2"
proof (induction pre rule: rev_induct)
  case (snoc c pre)
  then show ?case using colNo_ge [of pre] by simp
qed simp

lemma lineNo_le: "lineNo pre \<le> Suc (length pre)"
  and colNo_le: "colNo pre \<le> Suc (length pre)"
  using lineNo_colNo_bound [of pre] lineNo_ge [of pre] colNo_ge [of pre] by simp_all

text \<open>The start of the line that a prefix ends in.\<close>

definition lineStart :: "string \<Rightarrow> nat" where
  "lineStart pre = length pre - (colNo pre - 1)"

lemma colNo_pos: "colNo pre - 1 \<le> length pre"
  using colNo_le [of pre] by simp

lemma lineStart_colNo: "lineStart pre + (colNo pre - 1) = length pre"
  using colNo_pos [of pre] by (simp add: lineStart_def)

lemma lineStart_snoc:
  "lineStart (pre @ [c]) = (if c = newline then Suc (length pre) else lineStart pre)"
  using colNo_pos [of pre] by (auto simp: lineStart_def colNo_def)

lemma lineStart_no_newline:
  "lineStart pre \<le> i \<Longrightarrow> i < length pre \<Longrightarrow> pre ! i \<noteq> newline"
proof (induction pre rule: rev_induct)
  case (snoc c pre)
  then show ?case
    by (auto simp: lineStart_snoc nth_append split: if_splits)
qed simp

lemma lineStart_le: "lineStart pre \<le> length pre"
  by (simp add: lineStart_def)

lemma skipLines_Suc:
  "skipLines s (Suc n) b =
     (case skipLines s n b of None \<Rightarrow> None
      | Some b' \<Rightarrow> map_option Suc (find_from newline s b'))"
proof (induction n arbitrary: b)
  case 0
  show ?case by (simp split: option.split)
next
  case (Suc n)
  have "skipLines s (Suc (Suc n)) b =
      (case find_from newline s b of None \<Rightarrow> None | Some e \<Rightarrow> skipLines s (Suc n) (e + 1))"
    by (rule skipLines.simps(2))
  also have "\<dots> = (case skipLines s (Suc n) b of None \<Rightarrow> None
      | Some b' \<Rightarrow> map_option Suc (find_from newline s b'))"
  proof (cases "find_from newline s b")
    case None
    then show ?thesis by simp
  next
    case (Some e)
    then have "skipLines s (Suc n) b = skipLines s n (e + 1)" by simp
    then show ?thesis using Some Suc.IH [of "e + 1"] by (simp only: option.case)
  qed
  finally show ?case .
qed

lemma find_from_first:
  assumes "b \<le> k" "k < length s" "s ! k = c" "\<And>i. b \<le> i \<Longrightarrow> i < k \<Longrightarrow> s ! i \<noteq> c"
  shows "find_from c s b = Some k"
proof (cases "find_from c s b")
  case None
  from find_from_None [OF this assms(1,2)] assms(3) show ?thesis by simp
next
  case (Some e)
  note e = find_from_Some [OF Some]
  have "\<not> e < k" using assms(4) e(1,3) by blast
  moreover have "\<not> k < e" using e(4) [of k] assms(1,3) by auto
  ultimately show ?thesis using Some by simp
qed

lemma skipLines_lineStart:
  "k \<le> length s \<Longrightarrow> skipLines s (lineNo (take k s) - 1) 0 = Some (lineStart (take k s))"
proof (induction k)
  case 0
  then show ?case by (simp add: lineStart_def)
next
  case (Suc k)
  let ?p = "take k s"
  have take: "take (Suc k) s = ?p @ [s ! k]" and len: "length ?p = k"
    using Suc.prems by (simp_all add: take_Suc_conv_app_nth)
  have IH: "skipLines s (lineNo ?p - 1) 0 = Some (lineStart ?p)"
    using Suc by simp
  show ?case
  proof (cases "s ! k = newline")
    case False
    then show ?thesis using IH by (simp add: take lineStart_snoc)
  next
    case True
    have "find_from newline s (lineStart ?p) = Some k"
    proof (rule find_from_first)
      show "lineStart ?p \<le> k" using lineStart_le [of ?p] len by simp
      show "k < length s" "s ! k = newline" using Suc.prems True by simp_all
      fix i assume "lineStart ?p \<le> i" "i < k"
      then show "s ! i \<noteq> newline"
        using lineStart_no_newline [of ?p i] len by simp
    qed
    then have "skipLines s (Suc (lineNo ?p - 1)) 0 = Some (Suc k)"
      unfolding skipLines_Suc IH by simp
    moreover have "Suc (lineNo ?p - 1) = lineNo ?p" by (simp add: lineNo_def)
    ultimately show ?thesis using True len by (simp add: take lineStart_snoc)
  qed
qed

text \<open>
  The excerpt that \<open>render\<close> prints for a position is the line that holds it, and the caret's
  column is the position's: byte \<open>column - 1\<close> of the excerpt is the byte at the position.
\<close>

lemma lineText_nth:
  assumes "k < length s" "s ! k \<noteq> newline" "Suc (length s) < 2 ^ 32"
  defines "l \<equiv> locOf (take k s)"
  shows "unat (column l) - 1 < length (lineText s (line l))"
    and "lineText s (line l) ! (unat (column l) - 1) = s ! k"
    and "newline \<notin> set (lineText s (line l))"
proof -
  let ?p = "take k s" and ?b = "lineStart (take k s)"
  have len: "length ?p = k" using assms(1) by simp
  have ln: "unat (line l) = lineNo ?p" and cn: "unat (column l) = colNo ?p"
    using lineNo_le [of ?p] colNo_le [of ?p] len assms(1,3)
    by (simp_all add: l_def locOf_def unat_of_nat_32)
  have skip: "skipLines s (unat (line l) - 1) 0 = Some ?b"
    using skipLines_lineStart [of k s] assms(1) by (simp add: ln)
  have b: "?b + (colNo ?p - 1) = k" "?b \<le> k"
    using lineStart_colNo [of ?p] lineStart_le [of ?p] len by simp_all
  have nonl: "s ! i \<noteq> newline" if "?b \<le> i" "i \<le> k" for i
    using lineStart_no_newline [of ?p i] that assms(2) len by (cases "i = k") auto
  have excerpt: "lineText s (line l) = (case find_from newline s ?b of
      None \<Rightarrow> drop ?b s | Some e \<Rightarrow> substr s ?b (e - ?b))"
    unfolding lineText_def skip by simp
  show "unat (column l) - 1 < length (lineText s (line l))"
    and "lineText s (line l) ! (unat (column l) - 1) = s ! k"
    and "newline \<notin> set (lineText s (line l))"
  proof (atomize(full), cases "find_from newline s ?b")
    case None
    have "newline \<notin> set (drop ?b s)"
      using find_from_None [OF None] by (auto simp: in_set_conv_nth)
    then show "unat (column l) - 1 < length (lineText s (line l)) \<and>
      lineText s (line l) ! (unat (column l) - 1) = s ! k \<and> newline \<notin> set (lineText s (line l))"
      using b assms(1) unfolding excerpt None cn by simp
  next
    case (Some e)
    note e = find_from_Some [OF Some]
    have "k < e" using nonl [of e] e(1,3) by force
    moreover have "newline \<notin> set (substr s ?b (e - ?b))"
      using e(2,4) by (auto simp: in_set_conv_nth substr_def)
    ultimately show "unat (column l) - 1 < length (lineText s (line l)) \<and>
      lineText s (line l) ! (unat (column l) - 1) = s ! k \<and> newline \<notin> set (lineText s (line l))"
      using b e(2) unfolding excerpt Some cn by (simp add: substr_def)
  qed
qed

end
