(* ===== verification/Tokens.thy ===== *)
theory Tokens
  imports Diagnostics
begin

text \<open>
  The token table of \<open>TokenKinds.def\<close> and \<open>Token.h\<close>: one enumerator per table row, the
  spelling and the enumerator's name of each, and the two sub-tables (keywords, punctuators)
  that the lexer searches in order.
\<close>

datatype token_kind =
    TK_Eof | TK_Identifier | TK_IntLiteral | TK_FloatLiteral | TK_CharLiteral | TK_StringLiteral
  | TK_KwBreak | TK_KwChar | TK_KwConst | TK_KwContinue | TK_KwElse | TK_KwFloat | TK_KwIf
  | TK_KwInt | TK_KwReturn | TK_KwSizeof | TK_KwVoid | TK_KwWhile
  | TK_Ellipsis | TK_EqualEqual | TK_ExclaimEqual | TK_LessEqual | TK_GreaterEqual
  | TK_AmpAmp | TK_PipePipe | TK_Plus | TK_Minus | TK_Star | TK_Slash | TK_Percent
  | TK_Exclaim | TK_Equal | TK_Amp | TK_Less | TK_Greater | TK_Comma | TK_Semi
  | TK_LParen | TK_RParen | TK_LSquare | TK_RSquare | TK_LBrace | TK_RBrace

text \<open>The rows declared with \<open>KEYWORD\<close> and with \<open>PUNCT\<close>, in the order of the table.\<close>

definition keyword_table :: "(string \<times> token_kind) list" where
  "keyword_table =
    [(''break'', TK_KwBreak), (''char'', TK_KwChar), (''const'', TK_KwConst),
     (''continue'', TK_KwContinue), (''else'', TK_KwElse), (''float'', TK_KwFloat),
     (''if'', TK_KwIf), (''int'', TK_KwInt), (''return'', TK_KwReturn),
     (''sizeof'', TK_KwSizeof), (''void'', TK_KwVoid), (''while'', TK_KwWhile)]"

definition punctuators :: "(string \<times> token_kind) list" where
  "punctuators =
    [(''...'', TK_Ellipsis), (''=='', TK_EqualEqual), (''!='', TK_ExclaimEqual),
     (''<='', TK_LessEqual), (''>='', TK_GreaterEqual), (''&&'', TK_AmpAmp),
     (''||'', TK_PipePipe), (''+'', TK_Plus), (''-'', TK_Minus), (''*'', TK_Star),
     (''/'', TK_Slash), (''%'', TK_Percent), (''!'', TK_Exclaim), (''='', TK_Equal),
     (''&'', TK_Amp), (''<'', TK_Less), (''>'', TK_Greater), ('','', TK_Comma),
     ('';'', TK_Semi), (''('', TK_LParen), ('')'', TK_RParen), (''['', TK_LSquare),
     ('']'', TK_RSquare), (''{'', TK_LBrace), (''}'', TK_RBrace)]"

fun spelling :: "token_kind \<Rightarrow> string" where
  "spelling TK_Eof = ''end of file''"
| "spelling TK_Identifier = ''identifier''"
| "spelling TK_IntLiteral = ''integer literal''"
| "spelling TK_FloatLiteral = ''floating literal''"
| "spelling TK_CharLiteral = ''character literal''"
| "spelling TK_StringLiteral = ''string literal''"
| "spelling TK_KwBreak = ''break''"
| "spelling TK_KwChar = ''char''"
| "spelling TK_KwConst = ''const''"
| "spelling TK_KwContinue = ''continue''"
| "spelling TK_KwElse = ''else''"
| "spelling TK_KwFloat = ''float''"
| "spelling TK_KwIf = ''if''"
| "spelling TK_KwInt = ''int''"
| "spelling TK_KwReturn = ''return''"
| "spelling TK_KwSizeof = ''sizeof''"
| "spelling TK_KwVoid = ''void''"
| "spelling TK_KwWhile = ''while''"
| "spelling TK_Ellipsis = ''...''"
| "spelling TK_EqualEqual = ''==''"
| "spelling TK_ExclaimEqual = ''!=''"
| "spelling TK_LessEqual = ''<=''"
| "spelling TK_GreaterEqual = ''>=''"
| "spelling TK_AmpAmp = ''&&''"
| "spelling TK_PipePipe = ''||''"
| "spelling TK_Plus = ''+''"
| "spelling TK_Minus = ''-''"
| "spelling TK_Star = ''*''"
| "spelling TK_Slash = ''/''"
| "spelling TK_Percent = ''%''"
| "spelling TK_Exclaim = ''!''"
| "spelling TK_Equal = ''=''"
| "spelling TK_Amp = ''&''"
| "spelling TK_Less = ''<''"
| "spelling TK_Greater = ''>''"
| "spelling TK_Comma = '',''"
| "spelling TK_Semi = '';''"
| "spelling TK_LParen = ''(''"
| "spelling TK_RParen = '')''"
| "spelling TK_LSquare = ''[''"
| "spelling TK_RSquare = '']''"
| "spelling TK_LBrace = ''{''"
| "spelling TK_RBrace = ''}''"

text \<open>\<open>kindName\<close> stringizes the enumerator (\<open>#Name\<close>).\<close>

fun kindName :: "token_kind \<Rightarrow> string" where
  "kindName TK_Eof = ''Eof''"
| "kindName TK_Identifier = ''Identifier''"
| "kindName TK_IntLiteral = ''IntLiteral''"
| "kindName TK_FloatLiteral = ''FloatLiteral''"
| "kindName TK_CharLiteral = ''CharLiteral''"
| "kindName TK_StringLiteral = ''StringLiteral''"
| "kindName TK_KwBreak = ''KwBreak''"
| "kindName TK_KwChar = ''KwChar''"
| "kindName TK_KwConst = ''KwConst''"
| "kindName TK_KwContinue = ''KwContinue''"
| "kindName TK_KwElse = ''KwElse''"
| "kindName TK_KwFloat = ''KwFloat''"
| "kindName TK_KwIf = ''KwIf''"
| "kindName TK_KwInt = ''KwInt''"
| "kindName TK_KwReturn = ''KwReturn''"
| "kindName TK_KwSizeof = ''KwSizeof''"
| "kindName TK_KwVoid = ''KwVoid''"
| "kindName TK_KwWhile = ''KwWhile''"
| "kindName TK_Ellipsis = ''Ellipsis''"
| "kindName TK_EqualEqual = ''EqualEqual''"
| "kindName TK_ExclaimEqual = ''ExclaimEqual''"
| "kindName TK_LessEqual = ''LessEqual''"
| "kindName TK_GreaterEqual = ''GreaterEqual''"
| "kindName TK_AmpAmp = ''AmpAmp''"
| "kindName TK_PipePipe = ''PipePipe''"
| "kindName TK_Plus = ''Plus''"
| "kindName TK_Minus = ''Minus''"
| "kindName TK_Star = ''Star''"
| "kindName TK_Slash = ''Slash''"
| "kindName TK_Percent = ''Percent''"
| "kindName TK_Exclaim = ''Exclaim''"
| "kindName TK_Equal = ''Equal''"
| "kindName TK_Amp = ''Amp''"
| "kindName TK_Less = ''Less''"
| "kindName TK_Greater = ''Greater''"
| "kindName TK_Comma = ''Comma''"
| "kindName TK_Semi = ''Semi''"
| "kindName TK_LParen = ''LParen''"
| "kindName TK_RParen = ''RParen''"
| "kindName TK_LSquare = ''LSquare''"
| "kindName TK_RSquare = ''RSquare''"
| "kindName TK_LBrace = ''LBrace''"
| "kindName TK_RBrace = ''RBrace''"

section \<open>Tokens\<close>

record token =
  tok_kind :: token_kind
  tok_text :: string
  tok_loc :: source_location

definition mkToken :: "token_kind \<Rightarrow> string \<Rightarrow> source_location \<Rightarrow> token" where
  "mkToken k t l = \<lparr>tok_kind = k, tok_text = t, tok_loc = l\<rparr>"

lemma mkToken_simps [simp]:
  "tok_kind (mkToken k t l) = k" "tok_text (mkToken k t l) = t" "tok_loc (mkToken k t l) = l"
  by (simp_all add: mkToken_def)

section \<open>The table's ordering\<close>

text \<open>
  The comment in the table demands that a longer spelling comes before its prefixes, because
  the lexer takes the first match. It holds of the table as written.
\<close>

definition longest_first :: "(string \<times> token_kind) list \<Rightarrow> bool" where
  "longest_first tab \<longleftrightarrow>
     (\<forall>i j. i < j \<longrightarrow> j < length tab \<longrightarrow> \<not> (starts_with (fst (tab ! j)) (fst (tab ! i))))"

lemma longest_first_Nil [simp]: "longest_first []"
  by (simp add: longest_first_def)

lemma longest_first_Cons:
  "longest_first (p # tab) \<longleftrightarrow>
     list_all (\<lambda>q. \<not> starts_with (fst q) (fst p)) tab \<and> longest_first tab"
proof
  assume L: "longest_first (p # tab)"
  have "\<not> starts_with (fst (tab ! j)) (fst p)" if "j < length tab" for j
    using L [unfolded longest_first_def, rule_format, of 0 "Suc j"] that by simp
  moreover have "longest_first tab"
    unfolding longest_first_def
    using L [unfolded longest_first_def, rule_format, of "Suc i" "Suc j" for i j] by force
  ultimately show "list_all (\<lambda>q. \<not> starts_with (fst q) (fst p)) tab \<and> longest_first tab"
    by (simp add: list_all_length)
next
  assume R: "list_all (\<lambda>q. \<not> starts_with (fst q) (fst p)) tab \<and> longest_first tab"
  show "longest_first (p # tab)"
    unfolding longest_first_def
  proof (intro allI impI)
    fix i j assume ij: "i < j" "j < length (p # tab)"
    then obtain j' where "j = Suc j'" by (cases j) auto
    with R ij show "\<not> starts_with (fst ((p # tab) ! j)) (fst ((p # tab) ! i))"
      by (cases i) (auto simp: list_all_length longest_first_def)
  qed
qed

lemma punctuators_longest_first: "longest_first punctuators"
  by (simp add: punctuators_def longest_first_Cons starts_with_def)

text \<open>
  Hence the first entry of such a table that matches the front of a text is the longest one.
\<close>

lemma find_longest:
  assumes "longest_first tab" "find (\<lambda>p. starts_with s (fst p)) tab = Some p"
    and "q \<in> set tab" "starts_with s (fst q)"
  shows "length (fst q) \<le> length (fst p)"
proof (rule ccontr)
  assume less: "\<not> ?thesis"
  from assms(2) obtain i where i: "i < length tab" "starts_with s (fst (tab ! i))" "p = tab ! i"
    and first: "\<And>j. j < i \<Longrightarrow> \<not> starts_with s (fst (tab ! j))"
    by (auto simp: find_Some_iff)
  from assms(3) obtain j where j: "j < length tab" "q = tab ! j"
    by (auto simp: in_set_conv_nth)
  have "i < j" using first [of j] assms(4) j less i(3) by (metis linorder_neqE_nat order_refl)
  moreover have "starts_with (fst q) (fst p)"
    using assms(4) i less unfolding starts_with_def
    by (metis linorder_linear min.absorb1 take_take)
  ultimately show False using assms(1) i j unfolding longest_first_def by blast
qed

end
