(* ===== verification/Lexer.thy ===== *)
theory Lexer
  imports Tokens
begin

text \<open>
  \<open>lib/Lex/Lexer.cpp\<close>: the lexer's private state (a cursor into the source, the line and
  column counters, the diagnostics) and every member function on it, in the order of the
  source. Each \<open>while\<close> loop of the source that only advances is \<open>advanceWhile\<close> on its
  condition. The theory ends with the lexical grammar that \<open>lex\<close> is proved against.
\<close>

section \<open>Character classes\<close>

definition isIdentStart :: "char \<Rightarrow> bool" where
  "isIdentStart c \<longleftrightarrow>
     (schar CHR ''a'' \<le> schar c \<and> schar c \<le> schar CHR ''z'') \<or>
     (schar CHR ''A'' \<le> schar c \<and> schar c \<le> schar CHR ''Z'') \<or> c = CHR ''_''"

definition isDigit :: "char \<Rightarrow> bool" where
  "isDigit c \<longleftrightarrow> schar CHR ''0'' \<le> schar c \<and> schar c \<le> schar CHR ''9''"

definition isIdentBody :: "char \<Rightarrow> bool" where
  "isIdentBody c \<longleftrightarrow> isIdentStart c \<or> isDigit c"

definition isSpace :: "char \<Rightarrow> bool" where
  "isSpace c \<longleftrightarrow> c = CHR '' '' \<or> c = CHR 0x09 \<or> c = newline \<or> c = CHR 0x0D \<or> c = CHR 0x0B \<or> c = CHR 0x0C"

section \<open>The lexer's state\<close>

record lexer =
  lx_src :: string
  lx_pos :: nat
  lx_line :: u32
  lx_column :: u32
  lx_diags :: "diagnostic list"

definition mkLexer :: "string \<Rightarrow> lexer" where
  "mkLexer source = \<lparr>lx_src = source, lx_pos = 0, lx_line = 1, lx_column = 1, lx_diags = []\<rparr>"

definition atEnd :: "lexer \<Rightarrow> bool" where
  "atEnd s \<longleftrightarrow> length (lx_src s) \<le> lx_pos s"

definition peek :: "nat \<Rightarrow> lexer \<Rightarrow> char" where
  "peek ahead s =
     (if lx_pos s + ahead < length (lx_src s) then lx_src s ! (lx_pos s + ahead) else nul)"

definition here :: "lexer \<Rightarrow> source_location" where
  "here s = SourceLocation (lx_line s) (lx_column s)"

definition advance :: "lexer \<Rightarrow> lexer" where
  "advance s =
     (if lx_src s ! lx_pos s = newline
      then s\<lparr>lx_line := lx_line s + 1, lx_column := 1, lx_pos := Suc (lx_pos s)\<rparr>
      else s\<lparr>lx_column := lx_column s + 1, lx_pos := Suc (lx_pos s)\<rparr>)"

definition lx_error :: "source_location \<Rightarrow> string \<Rightarrow> lexer \<Rightarrow> lexer" where
  "lx_error l msg s = s\<lparr>lx_diags := lx_diags s @ [makeError l msg]\<rparr>"

lemma advance_simps [simp]:
  "lx_src (advance s) = lx_src s" "lx_pos (advance s) = Suc (lx_pos s)"
  "lx_diags (advance s) = lx_diags s"
  by (simp_all add: advance_def)

lemma lx_error_simps [simp]:
  "lx_src (lx_error l m s) = lx_src s" "lx_pos (lx_error l m s) = lx_pos s"
  "lx_line (lx_error l m s) = lx_line s" "lx_column (lx_error l m s) = lx_column s"
  "lx_diags (lx_error l m s) = lx_diags s @ [makeError l m]"
  "here (lx_error l m s) = here s" "atEnd (lx_error l m s) = atEnd s"
  "peek n (lx_error l m s) = peek n s"
  by (simp_all add: lx_error_def here_def atEnd_def peek_def)

interpretation lex_sink: diag_sink lx_diags lx_error
  by unfold_locales simp

text \<open>
  The steps a lexer can take: advance when not at the end, and report. Everything the members
  do to the state is a sequence of such steps; in particular \<open>src_[pos_]\<close> in \<open>advance\<close> is
  never read past the end.
\<close>

inductive moves :: "lexer \<Rightarrow> lexer \<Rightarrow> bool" where
  moves_refl [intro!]: "moves s s"
| moves_advance [intro]: "moves s t \<Longrightarrow> \<not> atEnd t \<Longrightarrow> moves s (advance t)"
| moves_error [intro]: "moves s t \<Longrightarrow> moves s (lx_error l m t)"

lemma moves_trans [trans]: "moves t u \<Longrightarrow> moves s t \<Longrightarrow> moves s u"
  by (induction rule: moves.induct) auto

lemma moves_src [frame_simps]: "moves s t \<Longrightarrow> lx_src t = lx_src s"
  by (induction rule: moves.induct) auto

lemma moves_pos: "moves s t \<Longrightarrow> lx_pos s \<le> lx_pos t"
  by (induction rule: moves.induct) auto

lemma moves_extends: "moves s t \<Longrightarrow> lex_sink.extends s t"
  by (induction rule: moves.induct) (auto simp: lex_sink.extends_def)

text \<open>The invariant: the cursor is inside the source and its counters are the position's.\<close>

definition lx_ok :: "lexer \<Rightarrow> bool" where
  "lx_ok s \<longleftrightarrow> lx_pos s \<le> length (lx_src s) \<and> here s = locOf (take (lx_pos s) (lx_src s))"

lemma lx_ok_init: "lx_ok (mkLexer source)"
  by (simp add: lx_ok_def mkLexer_def here_def locOf_def)

lemma lx_ok_advance: "lx_ok s \<Longrightarrow> \<not> atEnd s \<Longrightarrow> lx_ok (advance s)"
  by (auto simp: lx_ok_def atEnd_def here_def locOf_def advance_def take_Suc_conv_app_nth)

lemma lx_ok_error [simp]: "lx_ok (lx_error l m s) = lx_ok s"
  by (simp add: lx_ok_def)

lemma lx_ok_moves: "moves s t \<Longrightarrow> lx_ok s \<Longrightarrow> lx_ok t"
  by (induction rule: moves.induct) (auto intro: lx_ok_advance)

section \<open>Loops that advance\<close>

text \<open>
  \<open>while (!atEnd() && p()) advance();\<close>. Where the source leaves \<open>atEnd\<close> out (identifiers, numbers),
  \<open>p\<close> looks at \<open>peek\<close>, whose NUL at the end no such condition accepts.
\<close>

function advanceWhile :: "(lexer \<Rightarrow> bool) \<Rightarrow> lexer \<Rightarrow> lexer" where
  "advanceWhile p s = (if \<not> atEnd s \<and> p s then advanceWhile p (advance s) else s)"
  by pat_completeness auto
termination
  by (relation "measure (\<lambda>(p, s). length (lx_src s) - lx_pos s)") (auto simp: atEnd_def)

declare advanceWhile.simps [simp del]

lemma advanceWhile_moves: "moves s (advanceWhile p s)"
proof (induction p s rule: advanceWhile.induct)
  case (1 p s)
  show ?case
  proof (cases "\<not> atEnd s \<and> p s")
    case True
    then have "moves s (advance s)" by auto
    with 1 True show ?thesis by (subst advanceWhile.simps) (auto intro: moves_trans)
  next
    case False
    then show ?thesis by (subst advanceWhile.simps) auto
  qed
qed

lemma advanceWhile_diags [simp]: "lx_diags (advanceWhile p s) = lx_diags s"
  by (induction p s rule: advanceWhile.induct) (subst advanceWhile.simps, simp)

lemma advanceWhile_step:
  assumes "\<not> atEnd s" "p s"
  shows "lx_pos s < lx_pos (advanceWhile p s)"
proof -
  have "advanceWhile p s = advanceWhile p (advance s)"
    using assms by (subst advanceWhile.simps) simp
  then show ?thesis using advanceWhile_moves [of "advance s" p, THEN moves_pos] by simp
qed

section \<open>Trivia\<close>

definition lineCommentBody :: "lexer \<Rightarrow> bool" where
  "lineCommentBody s \<longleftrightarrow> peek 0 s \<noteq> newline"

definition blockCommentBody :: "lexer \<Rightarrow> bool" where
  "blockCommentBody s \<longleftrightarrow> \<not> (peek 0 s = CHR ''*'' \<and> peek 1 s = CHR ''/'')"

definition skipBlockBody :: "lexer \<Rightarrow> lexer" where
  "skipBlockBody s = advanceWhile blockCommentBody (advance (advance s))"

lemma skipBlockBody_simps:
  "lx_src (skipBlockBody s) = lx_src s" "Suc (Suc (lx_pos s)) \<le> lx_pos (skipBlockBody s)"
  using advanceWhile_moves [of "advance (advance s)" blockCommentBody]
  by (auto simp: skipBlockBody_def dest: moves_src moves_pos)

function skipTrivia :: "lexer \<Rightarrow> lexer" where
  "skipTrivia s =
     (if atEnd s then s
      else if isSpace (peek 0 s) then skipTrivia (advance s)
      else if peek 0 s = CHR ''/'' \<and> peek 1 s = CHR ''/'' then
        skipTrivia (advanceWhile lineCommentBody s)
      else if peek 0 s = CHR ''/'' \<and> peek 1 s = CHR ''*'' then
        (if atEnd (skipBlockBody s)
         then lx_error (here s) ''unterminated /* comment'' (skipBlockBody s)
         else skipTrivia (advance (advance (skipBlockBody s))))
      else s)"
  by pat_completeness auto
termination
proof (relation "measure (\<lambda>s. length (lx_src s) - lx_pos s)", goal_cases)
  case (3 s)
  then show ?case
    using advanceWhile_step [of s lineCommentBody]
      advanceWhile_moves [of s lineCommentBody, THEN moves_src]
    by (auto simp: atEnd_def lineCommentBody_def)
next
  case (4 s)
  then show ?case
    using skipBlockBody_simps [of s] by (auto simp: atEnd_def)
qed (auto simp: atEnd_def)

declare skipTrivia.simps [simp del]

section \<open>One token\<close>

definition makeTok :: "token_kind \<Rightarrow> nat \<Rightarrow> source_location \<Rightarrow> lexer \<Rightarrow> token" where
  "makeTok kind b l s = mkToken kind (substr (lx_src s) b (lx_pos s - b)) l"

text \<open>
  \<open>number\<close>: the loop keeps the flag \<open>isFloat\<close>. The second advance of an iteration takes the
  sign right after an exponent letter.
\<close>

definition isExp :: "bool \<Rightarrow> char \<Rightarrow> bool" where
  "isExp hex c \<longleftrightarrow> \<not> hex \<and> (c = CHR ''e'' \<or> c = CHR ''E'')"

definition isSign :: "char \<Rightarrow> bool" where
  "isSign c \<longleftrightarrow> c = CHR ''+'' \<or> c = CHR ''-''"

definition numberBody :: "char \<Rightarrow> bool" where
  "numberBody c \<longleftrightarrow> isIdentBody c \<or> c = CHR ''.''"

lemma nul_classes [simp]:
  "\<not> isIdentStart nul" "\<not> isDigit nul" "\<not> isIdentBody nul" "\<not> isSpace nul"
  "\<not> numberBody nul" "\<not> isSign nul" "\<not> isExp h nul"
  by (simp_all add: isIdentStart_def isDigit_def isIdentBody_def isSpace_def numberBody_def
      isSign_def isExp_def schar_def byte_def)

lemma peek_not_atEnd: "peek 0 s \<noteq> nul \<Longrightarrow> \<not> atEnd s"
  by (auto simp: peek_def atEnd_def)

lemma numberBody_not_atEnd: "numberBody (peek 0 s) \<Longrightarrow> \<not> atEnd s"
  using nul_classes(5) by (auto intro!: peek_not_atEnd)

definition numberStep :: "bool \<Rightarrow> lexer \<Rightarrow> lexer" where
  "numberStep hex s =
     (if isExp hex (peek 0 s) \<and> isSign (peek 0 (advance s)) then advance (advance s)
      else advance s)"

lemma numberStep_simps [simp]:
  "lx_src (numberStep h s) = lx_src s" "lx_diags (numberStep h s) = lx_diags s"
  "lx_pos s < lx_pos (numberStep h s)"
  by (simp_all add: numberStep_def)

lemma numberStep_moves: "\<not> atEnd s \<Longrightarrow> moves s (numberStep h s)"
  using peek_not_atEnd [of "advance s"] by (auto simp: numberStep_def isSign_def)

function numberLoop :: "bool \<Rightarrow> bool \<Rightarrow> lexer \<Rightarrow> bool \<times> lexer" where
  "numberLoop hex isFloat s =
     (if numberBody (peek 0 s) then
        numberLoop hex (isFloat \<or> peek 0 s = CHR ''.'' \<or> isExp hex (peek 0 s)) (numberStep hex s)
      else (isFloat, s))"
  by pat_completeness auto
termination
  by (relation "measure (\<lambda>(h, f, s). length (lx_src s) - lx_pos s)")
    (auto dest!: numberBody_not_atEnd simp: atEnd_def intro: diff_less_mono2)

declare numberLoop.simps [simp del]

definition number :: "nat \<Rightarrow> source_location \<Rightarrow> lexer \<Rightarrow> token \<times> lexer" where
  "number b l s =
     (let hex = (peek 0 s = CHR ''0'' \<and> (peek 1 s = CHR ''x'' \<or> peek 1 s = CHR ''X''));
          (isFloat, s1) = numberLoop hex False s
      in (makeTok (if isFloat then TK_FloatLiteral else TK_IntLiteral) b l s1, s1))"

definition quotedStep :: "lexer \<Rightarrow> lexer" where
  "quotedStep s =
     advance (if peek 0 s = CHR 0x5C \<and> lx_pos s + 1 < length (lx_src s) then advance s else s)"

lemma quotedStep_simps [simp]:
  "lx_src (quotedStep s) = lx_src s" "lx_diags (quotedStep s) = lx_diags s"
  "lx_pos s < lx_pos (quotedStep s)"
  by (simp_all add: quotedStep_def)

lemma quotedStep_moves: "\<not> atEnd s \<Longrightarrow> moves s (quotedStep s)"
  unfolding quotedStep_def by (auto simp: atEnd_def intro!: moves_advance)

function quotedLoop :: "char \<Rightarrow> lexer \<Rightarrow> lexer" where
  "quotedLoop quote s =
     (if \<not> atEnd s \<and> peek 0 s \<noteq> quote \<and> peek 0 s \<noteq> newline then
        quotedLoop quote (quotedStep s)
      else s)"
  by pat_completeness auto
termination
  by (relation "measure (\<lambda>(q, s). length (lx_src s) - lx_pos s)")
    (auto simp: atEnd_def intro: diff_less_mono2)

declare quotedLoop.simps [simp del]

definition quoted :: "char \<Rightarrow> nat \<Rightarrow> source_location \<Rightarrow> lexer \<Rightarrow> token option \<times> lexer" where
  "quoted quote b l s =
     (let s1 = quotedLoop quote (advance s) in
      if peek 0 s1 \<noteq> quote then
        (None, lx_error l (if quote = CHR 0x22 then ''missing terminating '' @ [CHR 0x27, CHR 0x22, CHR 0x27] @ '' character''
                           else ''missing terminating '' @ [CHR 0x27] @ '' character'') s1)
      else let s2 = advance s1 in
        (Some (makeTok (if quote = CHR 0x22 then TK_StringLiteral else TK_CharLiteral) b l s2), s2))"

definition nextToken :: "lexer \<Rightarrow> token option \<times> lexer" where
  "nextToken s =
     (let b = lx_pos s; l = here s; c = peek 0 s in
      if isIdentStart c then
        let s1 = advanceWhile (\<lambda>t. isIdentBody (peek 0 t)) s;
            word = substr (lx_src s) b (lx_pos s1 - b)
        in case map_of keyword_table word of
             Some kind \<Rightarrow> (Some (makeTok kind b l s1), s1)
           | None \<Rightarrow> (Some (makeTok TK_Identifier b l s1), s1)
      else if isDigit c \<or> c = CHR ''.'' \<and> isDigit (peek 1 s) then
        (case number b l s of (t, s1) \<Rightarrow> (Some t, s1))
      else if c = CHR 0x27 \<or> c = CHR 0x22 then quoted c b l s
      else case find (\<lambda>p. starts_with (drop (lx_pos s) (lx_src s)) (fst p)) punctuators of
             Some (text, kind) \<Rightarrow>
               let s1 = (advance ^^ length text) s in (Some (makeTok kind b l s1), s1)
           | None \<Rightarrow>
               (None, lx_error l (''unexpected character '' @ [CHR 0x27] @ [c] @ [CHR 0x27])
                        (advance s)))"

section \<open>The run loop\<close>

lemma numberLoop_moves: "moves s (snd (numberLoop h f s))"
proof (induction h f s rule: numberLoop.induct)
  case (1 h f s)
  show ?case
  proof (cases "numberBody (peek 0 s)")
    case True
    with numberBody_not_atEnd have "moves s (numberStep h s)" by (blast intro: numberStep_moves)
    with 1 True show ?thesis by (subst numberLoop.simps) (auto intro: moves_trans)
  qed (subst numberLoop.simps, auto)
qed

lemma quotedLoop_moves: "moves s (quotedLoop q s)"
proof (induction q s rule: quotedLoop.induct)
  case (1 q s)
  show ?case
  proof (cases "\<not> atEnd s \<and> peek 0 s \<noteq> q \<and> peek 0 s \<noteq> newline")
    case True
    then have "moves s (quotedStep s)" by (blast intro: quotedStep_moves)
    with 1 True show ?thesis by (subst quotedLoop.simps) (auto intro: moves_trans)
  qed (subst quotedLoop.simps, auto)
qed

lemma numberLoop_diags [simp]: "lx_diags (snd (numberLoop h f s)) = lx_diags s"
  by (induction h f s rule: numberLoop.induct) (subst numberLoop.simps, simp)

lemma quotedLoop_diags [simp]: "lx_diags (quotedLoop q s) = lx_diags s"
  by (induction q s rule: quotedLoop.induct) (subst quotedLoop.simps, simp)

lemma funpow_advance_simps [simp]:
  "lx_src ((advance ^^ n) s) = lx_src s" "lx_pos ((advance ^^ n) s) = lx_pos s + n"
  "lx_diags ((advance ^^ n) s) = lx_diags s"
  by (induction n) simp_all

lemma funpow_advance_moves: "lx_pos s + n \<le> length (lx_src s) \<Longrightarrow> moves s ((advance ^^ n) s)"
  by (induction n) (auto simp: atEnd_def)

lemma punctuators_not_Nil: "p \<in> set punctuators \<Longrightarrow> fst p \<noteq> []"
  by (auto simp: punctuators_def)

lemma skipBlockBody_moves:
  assumes "peek 0 s = CHR ''/''" "peek 1 s = CHR ''*''"
  shows "moves s (skipBlockBody s)"
proof -
  have "\<not> atEnd s" "\<not> atEnd (advance s)"
    using assms by (auto simp: peek_def atEnd_def split: if_splits)
  then have "moves s (advance (advance s))" by auto
  then show ?thesis
    unfolding skipBlockBody_def by (blast intro: moves_trans advanceWhile_moves)
qed

lemma advanceWhile_stop: "atEnd (advanceWhile p s) \<or> \<not> p (advanceWhile p s)"
  by (induction p s rule: advanceWhile.induct) (subst (1 2) advanceWhile.simps, simp)

lemma skipBlockBody_stop:
  "\<not> atEnd (skipBlockBody s) \<Longrightarrow>
     peek 0 (skipBlockBody s) = CHR ''*'' \<and> peek 1 (skipBlockBody s) = CHR ''/''"
  using advanceWhile_stop [of blockCommentBody "advance (advance s)"]
  by (auto simp: skipBlockBody_def blockCommentBody_def)

lemma skipBlock_moves:
  assumes "peek 0 s = CHR ''/''" "peek 1 s = CHR ''*''" "\<not> atEnd (skipBlockBody s)"
  shows "moves s (advance (advance (skipBlockBody s)))"
proof -
  have "\<not> atEnd (advance (skipBlockBody s))"
    using skipBlockBody_stop [OF assms(3)] by (auto simp: peek_def atEnd_def split: if_splits)
  then show ?thesis using skipBlockBody_moves assms by blast
qed

lemma skipTrivia_moves: "moves s (skipTrivia s)"
proof (induction s rule: skipTrivia.induct)
  case (1 s)
  show ?case
    using 1 advanceWhile_moves [of s lineCommentBody] skipBlockBody_moves [of s] skipBlock_moves [of s]
    by (subst skipTrivia.simps) (auto intro: moves_trans)
qed

lemma number_simps:
  "snd (number b l s) = snd (numberLoop (peek 0 s = CHR ''0'' \<and> (peek 1 s = CHR ''x'' \<or> peek 1 s = CHR ''X'')) False s)"
  by (simp add: number_def Let_def split: prod.split)

lemma number_moves: "moves s (snd (number b l s))"
  unfolding number_simps by (rule numberLoop_moves)

lemma quoted_moves:
  assumes "\<not> atEnd s" "q \<noteq> nul"
  shows "moves s (snd (quoted q b l s))"
proof -
  let ?t = "quotedLoop q (advance s)"
  have *: "moves s ?t"
    using assms quotedLoop_moves by (blast intro: moves_trans)
  have "\<not> atEnd ?t" if "peek 0 ?t = q"
    using that assms(2) peek_not_atEnd [of ?t] by simp
  with * show ?thesis by (auto simp: quoted_def Let_def)
qed

lemma find_punctuator:
  assumes "find (\<lambda>p. starts_with (drop (lx_pos s) (lx_src s)) (fst p)) punctuators = Some (w, k)"
  shows "(w, k) \<in> set punctuators" "starts_with (drop (lx_pos s) (lx_src s)) w" "w \<noteq> []"
    "\<not> atEnd s \<Longrightarrow> lx_pos s + length w \<le> length (lx_src s)"
proof -
  from assms obtain i where i: "i < length punctuators" "(w, k) = punctuators ! i"
    and "starts_with (drop (lx_pos s) (lx_src s)) (fst (punctuators ! i))"
    by (auto simp: find_Some_iff)
  then show st: "starts_with (drop (lx_pos s) (lx_src s)) w"
    by (metis fst_conv)
  from i show "(w, k) \<in> set punctuators" by simp
  then show "w \<noteq> []" using punctuators_not_Nil by fastforce
  show "\<not> atEnd s \<Longrightarrow> lx_pos s + length w \<le> length (lx_src s)"
    using starts_with_length [OF st] by (simp add: atEnd_def)
qed

lemma nextToken_moves:
  assumes "\<not> atEnd s"
  shows "moves s (snd (nextToken s))"
  using assms quoted_moves [OF assms] number_moves [of s]
    advanceWhile_moves [of s] find_punctuator [of s] funpow_advance_moves [of s]
  by (auto simp: nextToken_def Let_def split: option.splits prod.splits) (metis snd_conv)+

text \<open>Every call of \<open>next\<close> before the end of the source consumes at least one byte.\<close>

lemma nextToken_progress:
  assumes "\<not> atEnd s"
  shows "lx_pos s < lx_pos (snd (nextToken s))"
proof -
  have ident: "lx_pos s < lx_pos (advanceWhile (\<lambda>t. isIdentBody (peek 0 t)) s)"
    if "isIdentStart (peek 0 s)"
    using advanceWhile_step [of s "\<lambda>t. isIdentBody (peek 0 t)"] assms that
    by (simp add: isIdentBody_def)
  have num: "lx_pos s < lx_pos (snd (number b l s))" if "numberBody (peek 0 s)" for b l
    using that unfolding number_simps
    by (subst numberLoop.simps) (auto intro: less_le_trans [OF _ moves_pos [OF numberLoop_moves]])
  have quo: "lx_pos s < lx_pos (quotedLoop q (advance s))" for q
    using moves_pos [OF quotedLoop_moves, of "advance s" q] by simp
  show ?thesis
    using ident num quo find_punctuator(3) [of s]
    by (auto simp: nextToken_def Let_def quoted_def numberBody_def isIdentBody_def less_SucI
        split: option.splits prod.splits) (metis snd_conv)+
qed

lemma runLoop_decreases:
  assumes "\<not> atEnd (skipTrivia s)" "nextToken (skipTrivia s) = (r, s2)"
  shows "length (lx_src s2) - lx_pos s2 < length (lx_src s) - lx_pos s"
  using assms nextToken_progress [of "skipTrivia s"] nextToken_moves [of "skipTrivia s", THEN moves_src]
    skipTrivia_moves [of s, THEN moves_pos] skipTrivia_moves [of s, THEN moves_src]
  by (auto simp: atEnd_def)

function runLoop :: "token list \<Rightarrow> lexer \<Rightarrow> token list \<times> lexer" where
  "runLoop tokens s =
     (if atEnd (skipTrivia s) then
        (tokens @ [mkToken TK_Eof (substr (lx_src (skipTrivia s)) (lx_pos (skipTrivia s)) 0)
                     (here (skipTrivia s))], skipTrivia s)
      else case nextToken (skipTrivia s) of
             (Some t, s2) \<Rightarrow> runLoop (tokens @ [t]) s2
           | (None, s2) \<Rightarrow> runLoop tokens s2)"
  by pat_completeness auto
termination
  by (relation "measure (\<lambda>(t, s). length (lx_src s) - lx_pos s)") (auto dest: runLoop_decreases [OF _ sym])

declare runLoop.simps [simp del]

lemma runLoop_moves: "moves s (snd (runLoop ts s))"
proof (induction ts s rule: runLoop.induct)
  case (1 ts s)
  have skip: "moves s (skipTrivia s)" by (rule skipTrivia_moves)
  show ?case
  proof (cases "atEnd (skipTrivia s)")
    case True
    with skip show ?thesis by (subst runLoop.simps) simp
  next
    case False
    obtain r s2 where n: "nextToken (skipTrivia s) = (r, s2)" by fastforce
    with nextToken_moves [OF False] skip have "moves s s2" by (auto intro: moves_trans)
    with "1.IH" False n show ?thesis
      by (subst runLoop.simps) (auto split: option.split intro: moves_trans)
  qed
qed

definition lex :: "string \<Rightarrow> token list result" where
  "lex source =
     (case runLoop [] (mkLexer source) of
        (tokens, s) \<Rightarrow> if lx_diags s \<noteq> [] then Inl (lx_diags s) else Inr tokens)"

end
