(* ===== verification/LexSpec.thy ===== *)
theory LexSpec
  imports Lexer
begin

text \<open>
  The lexical grammar of Jia, stated without reference to the lexer: which texts are trivia,
  which texts are lexemes of which kind, how far a lexeme extends (longest match), and what it
  means for a token list to be the tokenization of a source. The lexer is then related to it
  through \<open>at\<close>, the abstraction of a cursor into "read" and "unread" text.
\<close>

section \<open>Trivia: white space and comments\<close>

definition isCommentStart :: "string \<Rightarrow> bool" where
  "isCommentStart t \<longleftrightarrow> starts_with t ''//'' \<or> starts_with t ''/*''"

definition startsTrivia :: "string \<Rightarrow> bool" where
  "startsTrivia t \<longleftrightarrow> (t \<noteq> [] \<and> isSpace (hd t)) \<or> isCommentStart t"

text \<open>The text \<open>b\<close> followed by a star and a slash is the shortest one that ends so.\<close>

definition closesFirst :: "string \<Rightarrow> bool" where
  "closesFirst b \<longleftrightarrow> (\<forall>i < length b. \<not> starts_with (drop i (b @ ''*/'')) ''*/'')"

text \<open>\<open>trivia g rest\<close>: the text \<open>g\<close>, standing before \<open>rest\<close>, is trivia.\<close>

inductive trivia :: "string \<Rightarrow> string \<Rightarrow> bool" where
  trivia_none: "trivia [] rest"
| trivia_space: "isSpace c \<Longrightarrow> trivia g rest \<Longrightarrow> trivia (c # g) rest"
| trivia_line: "newline \<notin> set b \<Longrightarrow> (g @ rest = [] \<or> hd (g @ rest) = newline) \<Longrightarrow> trivia g rest \<Longrightarrow>
    trivia (''//'' @ b @ g) rest"
| trivia_block: "closesFirst b \<Longrightarrow> trivia g rest \<Longrightarrow> trivia (''/*'' @ b @ ''*/'' @ g) rest"

section \<open>Lexemes\<close>

definition identWord :: "string \<Rightarrow> bool" where
  "identWord w \<longleftrightarrow> w \<noteq> [] \<and> isIdentStart (hd w) \<and> list_all isIdentBody w"

definition hexPrefix :: "string \<Rightarrow> bool" where
  "hexPrefix w \<longleftrightarrow> starts_with w ''0x'' \<or> starts_with w ''0X''"

text \<open>A preprocessing number: a sign is part of it only right after an exponent letter.\<close>

inductive ppBody :: "bool \<Rightarrow> string \<Rightarrow> bool" for hex where
  pp_nil: "ppBody hex []"
| pp_char: "numberBody c \<Longrightarrow> \<not> isExp hex c \<Longrightarrow> ppBody hex w \<Longrightarrow> ppBody hex (c # w)"
| pp_exp: "isExp hex c \<Longrightarrow> (w = [] \<or> \<not> isSign (hd w)) \<Longrightarrow> ppBody hex w \<Longrightarrow> ppBody hex (c # w)"
| pp_exp_sign: "isExp hex c \<Longrightarrow> isSign d \<Longrightarrow> ppBody hex w \<Longrightarrow> ppBody hex (c # d # w)"

definition numberStart :: "string \<Rightarrow> bool" where
  "numberStart w \<longleftrightarrow>
     (w \<noteq> [] \<and> isDigit (hd w)) \<or> (\<exists>d v. w = CHR ''.'' # d # v \<and> isDigit d)"

definition ppNumber :: "string \<Rightarrow> bool" where
  "ppNumber w \<longleftrightarrow> numberStart w \<and> ppBody (hexPrefix w) w"

definition floatText :: "string \<Rightarrow> bool" where
  "floatText w \<longleftrightarrow> list_ex (\<lambda>c. c = CHR ''.'' \<or> isExp (hexPrefix w) c) w"

text \<open>The inside of a quoted literal: a backslash takes the next byte with it.\<close>

inductive quotedBody :: "char \<Rightarrow> string \<Rightarrow> bool" for q where
  qb_nil: "quotedBody q []"
| qb_char: "c \<noteq> q \<Longrightarrow> c \<noteq> newline \<Longrightarrow> c \<noteq> CHR 0x5C \<Longrightarrow> quotedBody q b \<Longrightarrow> quotedBody q (c # b)"
| qb_escape: "quotedBody q b \<Longrightarrow> quotedBody q (CHR 0x5C # c # b)"

definition quotedWord :: "char \<Rightarrow> string \<Rightarrow> bool" where
  "quotedWord q w \<longleftrightarrow> (\<exists>b. w = q # b @ [q] \<and> quotedBody q b)"

definition lexeme :: "token_kind \<Rightarrow> string \<Rightarrow> bool" where
  "lexeme k w \<longleftrightarrow>
     (k = TK_Identifier \<and> identWord w \<and> map_of keyword_table w = None) \<or>
     map_of keyword_table w = Some k \<or>
     (k = TK_IntLiteral \<and> ppNumber w \<and> \<not> floatText w) \<or>
     (k = TK_FloatLiteral \<and> ppNumber w \<and> floatText w) \<or>
     (k = TK_CharLiteral \<and> quotedWord CHR 0x27 w) \<or>
     (k = TK_StringLiteral \<and> quotedWord CHR 0x22 w) \<or>
     (w, k) \<in> set punctuators"

text \<open>\<open>stops w rest\<close>: the lexeme \<open>w\<close> cannot be made longer by what follows it.\<close>

definition stops :: "string \<Rightarrow> string \<Rightarrow> bool" where
  "stops w rest \<longleftrightarrow>
     (identWord w \<longrightarrow> rest = [] \<or> \<not> isIdentBody (hd rest)) \<and>
     (numberStart w \<longrightarrow> rest = [] \<or>
        \<not> numberBody (hd rest) \<and> \<not> (isExp (hexPrefix w) (last w) \<and> isSign (hd rest))) \<and>
     (w \<in> fst ` set punctuators \<longrightarrow>
        (\<forall>v \<in> fst ` set punctuators. starts_with (w @ rest) v \<longrightarrow> length v \<le> length w) \<and>
        \<not> isCommentStart (w @ rest))"

section \<open>Tokenizations\<close>

text \<open>
  \<open>tokenizes pre rest ts\<close>: with \<open>pre\<close> already read, \<open>ts\<close> is the token list of \<open>rest\<close>. Every
  byte of the source is in a token or in the trivia before one, and each token's location is
  that of its first byte.
\<close>

inductive tokenizes :: "string \<Rightarrow> string \<Rightarrow> token list \<Rightarrow> bool" where
  tok_eof: "trivia g [] \<Longrightarrow> tokenizes pre g [mkToken TK_Eof [] (locOf (pre @ g))]"
| tok_cons: "trivia g (w @ rest) \<Longrightarrow> lexeme k w \<Longrightarrow> stops w rest \<Longrightarrow>
    tokenizes (pre @ g @ w) rest ts \<Longrightarrow>
    tokenizes pre (g @ w @ rest) (mkToken k w (locOf (pre @ g)) # ts)"

section \<open>The cursor as read and unread text\<close>

definition at :: "lexer \<Rightarrow> string \<Rightarrow> string \<Rightarrow> bool" where
  "at s pre rest \<longleftrightarrow> lx_src s = pre @ rest \<and> lx_pos s = length pre \<and> here s = locOf pre"

lemma at_init: "at (mkLexer source) [] source"
  using lx_ok_init [of source] by (simp add: at_def lx_ok_def mkLexer_def)

lemma at_ok: "at s pre rest \<Longrightarrow> lx_ok s"
  by (simp add: at_def lx_ok_def)

lemma ok_at: "lx_ok s \<Longrightarrow> at s (take (lx_pos s) (lx_src s)) (drop (lx_pos s) (lx_src s))"
  by (simp add: at_def lx_ok_def)

lemma at_atEnd [simp]: "at s pre rest \<Longrightarrow> atEnd s \<longleftrightarrow> rest = []"
  by (auto simp: at_def atEnd_def)

lemma at_peek0 [simp]: "at s pre rest \<Longrightarrow> peek 0 s = (case rest of [] \<Rightarrow> nul | c # r \<Rightarrow> c)"
  by (auto simp: at_def peek_def nth_append split: list.split)

lemma at_peek1: "at s pre rest \<Longrightarrow> peek 1 s = (case rest of c # d # r \<Rightarrow> d | _ \<Rightarrow> nul)"
  by (auto simp: at_def peek_def nth_append split: list.split)

lemma at_peekSuc [simp]: "at s pre rest \<Longrightarrow> peek (Suc 0) s = (case rest of c # d # r \<Rightarrow> d | _ \<Rightarrow> nul)"
  using at_peek1 by simp

lemma at_advance [intro]:
  assumes "at s pre (c # rest)"
  shows "at (advance s) (pre @ [c]) rest"
proof -
  have "\<not> atEnd s" using assms by simp
  from lx_ok_advance [OF at_ok [OF assms] this] show ?thesis
    using assms by (simp add: at_def lx_ok_def)
qed

lemma at_error [simp]: "at (lx_error l m s) pre rest = at s pre rest"
  by (simp add: at_def)

lemma at_here: "at s pre rest \<Longrightarrow> here s = locOf pre"
  by (simp add: at_def)

lemma at_substr:
  assumes "at s pre (w @ rest)" "at t (pre @ w) rest"
  shows "substr (lx_src s) (lx_pos s) (lx_pos t - lx_pos s) = w"
  using assms by (simp add: at_def substr_def)

lemma at_makeTok:
  assumes "at s pre (w @ rest)" "at t (pre @ w) rest"
  shows "makeTok k (lx_pos s) l t = mkToken k w l"
  using assms by (simp add: makeTok_def at_def substr_def)

lemma at_funpow:
  "at s pre (w @ rest) \<Longrightarrow> at ((advance ^^ length w) s) (pre @ w) rest"
proof (induction w arbitrary: s pre)
  case (Cons c w)
  then have "at (advance s) (pre @ [c]) (w @ rest)" by auto
  from Cons.IH [OF this] show ?case by (simp add: funpow_swap1)
qed simp

lemma at_drop: "at s pre rest \<Longrightarrow> drop (lx_pos s) (lx_src s) = rest"
  by (simp add: at_def)

section \<open>The loops on read and unread text\<close>

lemma at_advanceWhile_char:
  "at s pre rest \<Longrightarrow>
     at (advanceWhile (\<lambda>t. P (peek 0 t)) s) (pre @ takeWhile P rest) (dropWhile P rest)"
proof (induction rest arbitrary: s pre)
  case Nil
  then show ?case by (subst advanceWhile.simps) simp
next
  case (Cons c rest)
  show ?case
  proof (cases "P c")
    case True
    from Cons.prems have "at (advance s) (pre @ [c]) rest" by auto
    from Cons.IH [OF this] show ?thesis
      using Cons.prems True by (subst advanceWhile.simps) simp
  next
    case False
    with Cons.prems show ?thesis by (subst advanceWhile.simps) simp
  qed
qed

lemma at_lineComment:
  "at s pre rest \<Longrightarrow> at (advanceWhile lineCommentBody s)
     (pre @ takeWhile (\<lambda>c. c \<noteq> newline) rest) (dropWhile (\<lambda>c. c \<noteq> newline) rest)"
proof -
  have "lineCommentBody = (\<lambda>t. peek 0 t \<noteq> newline)"
    by (simp add: fun_eq_iff lineCommentBody_def)
  then show "at s pre rest \<Longrightarrow> ?thesis"
    using at_advanceWhile_char [of s pre rest "\<lambda>c. c \<noteq> newline"] by simp
qed

lemma starts_with_simps [simp]:
  "starts_with s []" "\<not> starts_with [] (c # t)"
  "starts_with (a # s) (c # t) \<longleftrightarrow> a = c \<and> starts_with s t"
  by (auto simp: starts_with_def)

lemma at_blockCommentBody: "at s pre rest \<Longrightarrow> blockCommentBody s \<longleftrightarrow> \<not> starts_with rest ''*/''"
  by (auto simp: blockCommentBody_def split: list.splits)

lemma closesFirst_Cons:
  "closesFirst (c # b) \<longleftrightarrow> \<not> starts_with (c # b @ ''*/'') ''*/'' \<and> closesFirst b"
  unfolding closesFirst_def by (auto simp: less_Suc_eq_0_disj)

lemma at_closed_comment:
  "closesFirst b \<Longrightarrow> at s pre (b @ ''*/'' @ g) \<Longrightarrow>
     at (advanceWhile blockCommentBody s) (pre @ b) (''*/'' @ g)"
proof (induction b arbitrary: s pre)
  case Nil
  then show ?case by (subst advanceWhile.simps) (simp add: at_blockCommentBody)
next
  case (Cons c b)
  from Cons.prems have "at (advance s) (pre @ [c]) (b @ ''*/'' @ g)" by auto
  from Cons.IH [OF _ this] Cons.prems(1)
  have IH: "at (advanceWhile blockCommentBody (advance s)) (pre @ c # b) (''*/'' @ g)"
    by (simp add: closesFirst_Cons)
  have "blockCommentBody s"
    using Cons.prems by (cases b) (auto simp: at_blockCommentBody closesFirst_Cons)
  with IH Cons.prems(2) show ?case by (subst advanceWhile.simps) simp
qed

lemma at_open_comment:
  "\<forall>i. \<not> starts_with (drop i rest) ''*/'' \<Longrightarrow> at s pre rest \<Longrightarrow>
     at (advanceWhile blockCommentBody s) (pre @ rest) []"
proof (induction rest arbitrary: s pre)
  case Nil
  then show ?case by (subst advanceWhile.simps) simp
next
  case (Cons c rest)
  from Cons.prems have a: "at (advance s) (pre @ [c]) rest" by auto
  have "\<forall>i. \<not> starts_with (drop i rest) ''*/''"
    using Cons.prems(1) by (metis drop_Suc_Cons)
  from Cons.IH [OF this a] have IH: "at (advanceWhile blockCommentBody (advance s)) (pre @ c # rest) []"
    by simp
  have "blockCommentBody s"
    using Cons.prems by (metis at_blockCommentBody drop0)
  with IH Cons.prems(2) show ?case by (subst advanceWhile.simps) simp
qed

lemma comment_cases:
  obtains b g where "rest = b @ ''*/'' @ g" "closesFirst b"
  | "\<forall>i. \<not> starts_with (drop i rest) ''*/''"
proof (induction rest arbitrary: thesis)
  case Nil
  then show ?case by simp
next
  case (Cons c rest)
  show ?case
  proof (cases "starts_with (c # rest) ''*/''")
    case True
    then obtain g where "c # rest = [] @ ''*/'' @ g" by (auto simp: starts_with_iff)
    then show ?thesis by (intro Cons.prems(1) [of "[]" g]) (auto simp: closesFirst_def)
  next
    case False
    show ?thesis
    proof (rule Cons.IH)
      fix b g assume *: "rest = b @ ''*/'' @ g" "closesFirst b"
      have "closesFirst (c # b)"
        using False * by (cases b) (auto simp: closesFirst_Cons)
      with * show ?thesis by (intro Cons.prems(1) [of "c # b" g]) auto
    next
      assume *: "\<forall>i. \<not> starts_with (drop i rest) ''*/''"
      have "\<not> starts_with (drop i (c # rest)) ''*/''" for i
        using False * by (cases i) auto
      then show ?thesis using Cons.prems(2) by blast
    qed
  qed
qed

section \<open>Trivia\<close>

lemma trivia_skip:
  "trivia g rest \<Longrightarrow> \<not> startsTrivia rest \<Longrightarrow> at s pre (g @ rest) \<Longrightarrow>
     at (skipTrivia s) (pre @ g) rest \<and> lx_diags (skipTrivia s) = lx_diags s"
proof (induction g rest arbitrary: s pre rule: trivia.induct)
  case (trivia_none rest)
  then show ?case
    by (subst (1 2) skipTrivia.simps) (auto simp: startsTrivia_def isCommentStart_def split: list.splits)
next
  case (trivia_space c g rest)
  from trivia_space.prems(2) have "at (advance s) (pre @ [c]) (g @ rest)" by auto
  from trivia_space.IH [OF trivia_space.prems(1) this] trivia_space.hyps(1) trivia_space.prems(2)
  show ?case by (subst (1 2) skipTrivia.simps) simp
next
  case (trivia_line b g rest)
  let ?P = "\<lambda>c. c \<noteq> newline"
  have take: "takeWhile ?P (b @ g @ rest) = b" "dropWhile ?P (b @ g @ rest) = g @ rest"
    using trivia_line.hyps(1,2) by (cases "g @ rest"; auto simp: takeWhile_append dropWhile_append)+
  have "at (advanceWhile lineCommentBody s) (pre @ ''//'' @ b) (g @ rest)"
    using at_lineComment [OF trivia_line.prems(2)] by (simp add: take)
  from trivia_line.IH [OF trivia_line.prems(1) this] trivia_line.prems(2)
  show ?case by (subst (1 2) skipTrivia.simps) (simp add: isSpace_def)
next
  case (trivia_block b g rest)
  from trivia_block.prems(2) have "at (advance (advance s)) (pre @ ''/*'') (b @ ''*/'' @ g @ rest)"
    by (auto dest!: at_advance)
  from at_closed_comment [OF trivia_block.hyps(1) this]
  have b: "at (skipBlockBody s) (pre @ ''/*'' @ b) (''*/'' @ g @ rest)"
    by (simp add: skipBlockBody_def)
  then have "at (advance (advance (skipBlockBody s))) (pre @ ''/*'' @ b @ ''*/'') (g @ rest)"
    by (auto dest!: at_advance)
  from trivia_block.IH [OF trivia_block.prems(1) this] trivia_block.prems(2) b
  show ?case
    by (subst (1 2) skipTrivia.simps) (simp add: isSpace_def skipBlockBody_def)
qed

text \<open>
  Conversely, what \<open>skipTrivia\<close> passes over without reporting is trivia, and it stops where
  none can start.
\<close>

lemma skipTrivia_trivia:
  "at s pre rest \<Longrightarrow> lx_diags (skipTrivia s) = lx_diags s \<Longrightarrow>
     \<exists>g r. rest = g @ r \<and> trivia g r \<and> \<not> startsTrivia r \<and> at (skipTrivia s) (pre @ g) r"
proof (induction "length rest" arbitrary: s pre rest rule: less_induct)
  case less
  note A = less.prems(1)
  show ?case
  proof (cases "startsTrivia rest")
    case False
    have "skipTrivia s = s"
      using False A by (subst skipTrivia.simps) (auto simp: startsTrivia_def isCommentStart_def split: list.splits)
    then show ?thesis using A False by (intro exI [of _ "[]"] exI [of _ rest]) (auto intro: trivia_none)
  next
    case True
    then obtain c r0 where rest: "rest = c # r0" by (cases rest) (auto simp: startsTrivia_def isCommentStart_def)
    consider (space) "isSpace c" | (line) r where "\<not> isSpace c" "rest = ''//'' @ r"
      | (block) r where "\<not> isSpace c" "rest = ''/*'' @ r"
      using True rest by (auto simp: startsTrivia_def isCommentStart_def starts_with_iff)
    then show ?thesis
    proof cases
      case space
      have eq: "skipTrivia s = skipTrivia (advance s)"
        using space A rest by (subst skipTrivia.simps) simp
      have a: "at (advance s) (pre @ [c]) r0" using A rest by auto
      obtain g r where "r0 = g @ r" "trivia g r" "\<not> startsTrivia r" "at (skipTrivia (advance s)) ((pre @ [c]) @ g) r"
        using less.hyps [OF _ a] less.prems(2) rest eq by auto
      then show ?thesis
        using space rest eq by (intro exI [of _ "c # g"] exI [of _ r]) (auto intro: trivia_space)
    next
      case line
      let ?P = "\<lambda>c. c \<noteq> newline" and ?s = "advanceWhile lineCommentBody s"
      have c: "c = CHR ''/''" using line rest by simp
      have eq: "skipTrivia s = skipTrivia ?s"
        using line A c rest by (subst skipTrivia.simps) simp
      let ?b = "takeWhile ?P r" and ?r = "dropWhile ?P r"
      have a: "at ?s (pre @ ''//'' @ ?b) ?r"
        using at_lineComment [OF A] line by simp
      have "length ?r < length rest" using line length_dropWhile_le [of ?P r] by simp
      from less.hyps [OF this a] less.prems(2) eq
      obtain g r' where g: "?r = g @ r'" "trivia g r'" "\<not> startsTrivia r'"
          "at (skipTrivia ?s) ((pre @ ''//'' @ ?b) @ g) r'"
        by auto
      have nl: "newline \<notin> set ?b" by (auto dest: set_takeWhileD)
      have "?r = [] \<or> hd ?r = newline" using hd_dropWhile [of ?P r] by blast
      then have hd: "g @ r' = [] \<or> hd (g @ r') = newline" using g(1) by simp
      have "trivia (''//'' @ ?b @ g) r'"
        using nl hd g(2) by (rule trivia_line)
      moreover have "rest = (''//'' @ ?b @ g) @ r'"
        using line g(1) by (metis append_assoc takeWhile_dropWhile_id)
      ultimately show ?thesis using g eq by (intro exI [of _ "''//'' @ ?b @ g"] exI [of _ r']) simp
    next
      case block
      have c: "c = CHR ''/''" using block rest by simp
      have a2: "at (advance (advance s)) (pre @ ''/*'') r"
        using A block by (auto dest!: at_advance)
      show ?thesis
      proof (cases rule: comment_cases [of r])
        case (1 b g)
        let ?s = "advance (advance (skipBlockBody s))"
        have b: "at (skipBlockBody s) (pre @ ''/*'' @ b) (''*/'' @ g)"
          using at_closed_comment [OF 1(2), of _ "pre @ ''/*''" g] a2 1(1) by (simp add: skipBlockBody_def)
        have eq: "skipTrivia s = skipTrivia ?s"
          using block A c rest b by (subst skipTrivia.simps) (simp add: isSpace_def)
        have a: "at ?s (pre @ ''/*'' @ b @ ''*/'') g"
          using b by (auto dest!: at_advance)
        have "length g < length rest" using block 1 by simp
        from less.hyps [OF this a] less.prems(2) eq
        obtain g' r' where g: "g = g' @ r'" "trivia g' r'" "\<not> startsTrivia r'"
            "at (skipTrivia ?s) ((pre @ ''/*'' @ b @ ''*/'') @ g') r'"
          by (auto simp: skipBlockBody_def)
        have "trivia (''/*'' @ b @ ''*/'' @ g') r'" using 1(2) g(2) by (rule trivia_block)
        then show ?thesis
          using block 1 g eq by (intro exI [of _ "''/*'' @ b @ ''*/'' @ g'"] exI [of _ r']) simp
      next
        case 2
        have b: "at (skipBlockBody s) ((pre @ ''/*'') @ r) []"
          using at_open_comment [OF 2 a2] by (simp add: skipBlockBody_def)
        have "lx_diags (skipTrivia s) = lx_diags s @ [makeError (here s) ''unterminated /* comment'']"
          using block A c rest b
          by (subst skipTrivia.simps) (simp add: isSpace_def skipBlockBody_def)
        then show ?thesis using less.prems(2) by simp
      qed
    qed
  qed
qed

section \<open>Numbers\<close>

lemma exp_numberBody: "isExp h c \<Longrightarrow> numberBody c"
  by (auto simp: isExp_def numberBody_def isIdentBody_def isIdentStart_def schar_def byte_def)

lemma sign_not_exp: "isSign c \<Longrightarrow> \<not> isExp h c" "isSign c \<Longrightarrow> c \<noteq> CHR ''.''"
  by (auto simp: isExp_def isSign_def)

definition numberStops :: "bool \<Rightarrow> string \<Rightarrow> string \<Rightarrow> bool" where
  "numberStops hex w rest \<longleftrightarrow> rest = [] \<or>
     \<not> numberBody (hd rest) \<and> \<not> (w \<noteq> [] \<and> isExp hex (last w) \<and> isSign (hd rest))"

lemma numberLoop_ppBody:
  "ppBody hex w \<Longrightarrow> numberStops hex w rest \<Longrightarrow> at s pre (w @ rest) \<Longrightarrow>
     at (snd (numberLoop hex f s)) (pre @ w) rest \<and>
     fst (numberLoop hex f s) = (f \<or> list_ex (\<lambda>c. c = CHR ''.'' \<or> isExp hex c) w)"
proof (induction w arbitrary: s pre f rule: ppBody.induct)
  case pp_nil
  then have "\<not> numberBody (peek 0 s)" by (auto simp: numberStops_def split: list.splits)
  with pp_nil show ?case by (subst (1 2) numberLoop.simps) simp
next
  case (pp_char c w)
  have st: "numberStops hex w rest" using pp_char.prems(1) by (auto simp: numberStops_def)
  have a: "at (numberStep hex s) (pre @ [c]) (w @ rest)"
    using pp_char.prems(2) pp_char.hyps(2) by (auto simp: numberStep_def)
  from pp_char.IH [OF st a] pp_char.prems(2) pp_char.hyps(1,2)
  show ?case by (subst (1 2) numberLoop.simps) simp
next
  case (pp_exp c w)
  have st: "numberStops hex w rest" using pp_exp.prems(1) by (auto simp: numberStops_def)
  have a1: "at (advance s) (pre @ [c]) (w @ rest)"
    using pp_exp.prems(2) by auto
  have "\<not> isSign (peek 0 (advance s))"
    using a1 pp_exp.hyps(1,2) pp_exp.prems(1)
    by (cases w) (auto simp: numberStops_def split: list.splits)
  then have a: "at (numberStep hex s) (pre @ [c]) (w @ rest)"
    using a1 by (simp add: numberStep_def)
  from pp_exp.IH [OF st a] pp_exp.prems(2) pp_exp.hyps(1) exp_numberBody [OF pp_exp.hyps(1)]
  show ?case by (subst (1 2) numberLoop.simps) simp
next
  case (pp_exp_sign c d w)
  have st: "numberStops hex w rest" using pp_exp_sign.prems(1) by (auto simp: numberStops_def)
  have a1: "at (advance s) (pre @ [c]) (d # w @ rest)"
    using pp_exp_sign.prems(2) by auto
  then have "at (advance (advance s)) (pre @ [c, d]) (w @ rest)"
    by (auto dest!: at_advance)
  then have a: "at (numberStep hex s) (pre @ [c, d]) (w @ rest)"
    using a1 pp_exp_sign.prems(2) pp_exp_sign.hyps by (simp add: numberStep_def)
  from pp_exp_sign.IH [OF st a] pp_exp_sign.prems(2) pp_exp_sign.hyps exp_numberBody [OF pp_exp_sign.hyps(1)]
    sign_not_exp [OF pp_exp_sign.hyps(2)]
  show ?case by (subst (1 2) numberLoop.simps) simp
qed

text \<open>Every text has a longest number body, which the loop therefore takes.\<close>

lemma ppBody_exists: "\<exists>w r. rest = w @ r \<and> ppBody hex w \<and> numberStops hex w r"
proof (induction "length rest" arbitrary: rest rule: less_induct)
  case less
  show ?case
  proof (cases rest)
    case Nil
    then show ?thesis by (auto intro: pp_nil simp: numberStops_def)
  next
    case (Cons c r0)
    show ?thesis
    proof (cases "numberBody c")
      case False
      then show ?thesis using Cons by (intro exI [of _ "[]"] exI [of _ rest]) (auto intro: pp_nil simp: numberStops_def)
    next
      case body: True
      show ?thesis
      proof (cases "isExp hex c \<and> r0 \<noteq> [] \<and> isSign (hd r0)")
        case True
        then obtain d r1 where r0: "r0 = d # r1" "isSign d" by (cases r0) auto
        with less.hyps [of r1] Cons obtain w r where w: "r1 = w @ r" "ppBody hex w" "numberStops hex w r"
          by auto
        then have "numberStops hex (c # d # w) r"
          using sign_not_exp(1) [OF r0(2)] by (auto simp: numberStops_def)
        with w r0 Cons True show ?thesis
          by (intro exI [of _ "c # d # w"] exI [of _ r]) (auto intro: pp_exp_sign)
      next
        case False
        from less.hyps [of r0] Cons obtain w r where w: "r0 = w @ r" "ppBody hex w" "numberStops hex w r"
          by auto
        have "ppBody hex (c # w)"
          using w False body by (cases "isExp hex c") (auto intro: pp_exp pp_char)
        moreover have "numberStops hex (c # w) r"
          using w False by (auto simp: numberStops_def)
        ultimately show ?thesis
          using w Cons by (intro exI [of _ "c # w"] exI [of _ r]) auto
      qed
    qed
  qed
qed

lemma numberBody_hex_chars: "numberBody CHR ''0''" "numberBody CHR ''x''" "numberBody CHR ''X''"
  by (simp_all add: numberBody_def isIdentBody_def isIdentStart_def isDigit_def schar_def byte_def)

lemma hexPrefix_munch:
  assumes "rest = [] \<or> \<not> numberBody (hd rest)"
  shows "hexPrefix (w @ rest) = hexPrefix w"
proof -
  consider "w = []" | c where "w = [c]" | c d v where "w = c # d # v"
    by (metis list.exhaust)
  then show ?thesis
  proof cases
    case 1
    with assms numberBody_hex_chars(1) show ?thesis by (cases rest) (auto simp: hexPrefix_def)
  next
    case 2
    with assms numberBody_hex_chars(2,3) show ?thesis by (cases rest) (auto simp: hexPrefix_def)
  next
    case 3
    then show ?thesis by (simp add: hexPrefix_def)
  qed
qed

lemma at_hexPrefix:
  "at s pre rest \<Longrightarrow>
     (peek 0 s = CHR ''0'' \<and> (peek 1 s = CHR ''x'' \<or> peek 1 s = CHR ''X'')) = hexPrefix rest"
  by (auto simp: hexPrefix_def split: list.splits)

section \<open>Quoted literals\<close>

lemma quotedBody_loop:
  "quotedBody q b \<Longrightarrow> q \<noteq> CHR 0x5C \<Longrightarrow> at s pre (b @ q # rest) \<Longrightarrow>
     at (quotedLoop q s) (pre @ b) (q # rest)"
proof (induction b arbitrary: s pre rule: quotedBody.induct)
  case qb_nil
  then show ?case by (subst quotedLoop.simps) simp
next
  case (qb_char c b)
  have "at (quotedStep s) (pre @ [c]) (b @ q # rest)"
    using qb_char.prems(2) qb_char.hyps by (auto simp: quotedStep_def)
  from qb_char.IH [OF qb_char.prems(1) this] qb_char.prems qb_char.hyps
  show ?case by (subst quotedLoop.simps) simp
next
  case (qb_escape b c)
  have "lx_pos s + 1 < length (lx_src s)" using qb_escape.prems(2) by (simp add: at_def)
  then have "at (quotedStep s) (pre @ [CHR 0x5C, c]) (b @ q # rest)"
    using qb_escape.prems(2) by (auto simp: quotedStep_def dest!: at_advance)
  from qb_escape.IH [OF qb_escape.prems(1) this] qb_escape.prems
  show ?case by (subst quotedLoop.simps) simp
qed

lemma quotedLoop_body:
  "q \<noteq> CHR 0x5C \<Longrightarrow> q \<noteq> nul \<Longrightarrow> at s pre rest \<Longrightarrow> peek 0 (quotedLoop q s) = q \<Longrightarrow>
     \<exists>b r. rest = b @ q # r \<and> quotedBody q b \<and> at (quotedLoop q s) (pre @ b) (q # r)"
proof (induction "length rest" arbitrary: s pre rest rule: less_induct)
  case less
  note A = less.prems(3)
  show ?case
  proof (cases "rest = [] \<or> hd rest = q \<or> hd rest = newline")
    case True
    have "quotedLoop q s = s"
      using True A by (subst quotedLoop.simps) (auto split: list.splits)
    then show ?thesis using A less.prems(2,4)
      by (intro exI [of _ "[]"] exI [of _ "tl rest"]) (auto intro: qb_nil split: list.splits)
  next
    case False
    then obtain c r0 where rest: "rest = c # r0" "c \<noteq> q" "c \<noteq> newline" by (cases rest) auto
    have eq: "quotedLoop q s = quotedLoop q (quotedStep s)"
      using False A rest by (subst quotedLoop.simps) simp
    show ?thesis
    proof (cases "c = CHR 0x5C \<and> r0 \<noteq> []")
      case True
      then obtain d r1 where r0: "r0 = d # r1" by (cases r0) auto
      have "lx_pos s + 1 < length (lx_src s)" using A rest r0 by (simp add: at_def)
      then have a: "at (quotedStep s) (pre @ [c, d]) r1"
        using A rest r0 True by (auto simp: quotedStep_def dest!: at_advance)
      from less.hyps [OF _ less.prems(1,2) a] less.prems(4) eq rest r0
      obtain b r where "r1 = b @ q # r" "quotedBody q b" "at (quotedLoop q s) ((pre @ [c, d]) @ b) (q # r)"
        by auto
      with rest r0 True show ?thesis
        by (intro exI [of _ "c # d # b"] exI [of _ r]) (auto intro: qb_escape)
    next
      case nb: False
      have "\<not> (c = CHR 0x5C \<and> lx_pos s + 1 < length (lx_src s))"
        using nb A rest by (auto simp: at_def)
      then have a: "at (quotedStep s) (pre @ [c]) r0"
        using A rest by (auto simp: quotedStep_def)
      from less.hyps [OF _ less.prems(1,2) a] less.prems(4) eq rest
      obtain b r where b: "r0 = b @ q # r" "quotedBody q b" "at (quotedLoop q s) ((pre @ [c]) @ b) (q # r)"
        by auto
      then have "quotedBody q (c # b)" using nb rest by (auto intro: qb_char)
      with b rest show ?thesis
        by (intro exI [of _ "c # b"] exI [of _ r]) auto
    qed
  qed
qed

section \<open>One token\<close>

lemma class_disjoint:
  "isIdentStart c \<Longrightarrow> \<not> isDigit c" "isIdentStart c \<Longrightarrow> c \<noteq> CHR ''.''"
  "isIdentStart c \<Longrightarrow> c \<noteq> CHR 0x27" "isIdentStart c \<Longrightarrow> c \<noteq> CHR 0x22"
  "isDigit c \<Longrightarrow> c \<noteq> CHR 0x27" "isDigit c \<Longrightarrow> c \<noteq> CHR 0x22" "isDigit c \<Longrightarrow> c \<noteq> CHR ''.''"
  by (auto simp: isIdentStart_def isDigit_def schar_def byte_def)

lemma punct_head:
  assumes "(w, k) \<in> set punctuators"
  shows "w \<noteq> []" "\<not> isIdentStart (hd w)" "\<not> isDigit (hd w)" "hd w \<noteq> CHR 0x27" "hd w \<noteq> CHR 0x22"
    "hd w = CHR ''.'' \<Longrightarrow> w = ''...''"
  using assms
  by (auto simp: punctuators_def isIdentStart_def isDigit_def schar_def byte_def)

lemma keyword_identWord: "map_of keyword_table w = Some k \<Longrightarrow> identWord w"
  by (auto simp: keyword_table_def identWord_def isIdentBody_def isIdentStart_def schar_def byte_def
      split: if_splits)

lemma distinct_punctuators: "distinct (map fst punctuators)"
  by (simp add: punctuators_def)

lemma punct_unique: "(w, k) \<in> set punctuators \<Longrightarrow> (w, k') \<in> set punctuators \<Longrightarrow> k = k'"
  using distinct_punctuators by (metis eq_key_imp_eq_value)

lemma starts_with_same_length:
  "starts_with s v \<Longrightarrow> starts_with s w \<Longrightarrow> length v = length w \<Longrightarrow> v = w"
  by (simp add: starts_with_def)

lemma starts_with_append [simp]: "starts_with (w @ rest) w"
  by (simp add: starts_with_def)

lemma find_punctuator_iff:
  "find (\<lambda>p. starts_with t (fst p)) punctuators = Some (w, k) \<longleftrightarrow>
     (w, k) \<in> set punctuators \<and> starts_with t w \<and>
     (\<forall>v \<in> fst ` set punctuators. starts_with t v \<longrightarrow> length v \<le> length w)"
  (is "?F = _ \<longleftrightarrow> ?R")
proof
  assume F: "?F = Some (w, k)"
  then have "(w, k) \<in> set punctuators" "starts_with t w"
    by (auto simp: find_Some_iff in_set_conv_nth) (metis fst_conv)+
  moreover have "length v \<le> length w" if "v \<in> fst ` set punctuators" "starts_with t v" for v
    using find_longest [OF punctuators_longest_first F] that by auto
  ultimately show ?R by blast
next
  assume R: ?R
  then have "\<exists>p \<in> set punctuators. starts_with t (fst p)"
    by (intro bexI [of _ "(w, k)"]) simp_all
  then have "?F \<noteq> None" unfolding find_None_iff by blast
  then obtain v k' where F: "?F = Some (v, k')" by auto
  then have v: "(v, k') \<in> set punctuators" "starts_with t v"
    by (auto simp: find_Some_iff in_set_conv_nth) (metis fst_conv)+
  have w: "(w, k) \<in> set punctuators" "starts_with t w" using R by blast+
  have "length w \<le> length v"
    using find_longest [OF punctuators_longest_first F w(1)] w(2) by simp
  moreover have "v \<in> fst ` set punctuators" using v(1) by force
  then have "length v \<le> length w" using R v(2) by blast
  ultimately have "v = w" using starts_with_same_length [OF v(2) w(2)] by simp
  with F v R punct_unique show "?F = Some (w, k)" by blast
qed

lemma takeWhile_munch:
  "list_all P w \<Longrightarrow> rest = [] \<or> \<not> P (hd rest) \<Longrightarrow> takeWhile P (w @ rest) = w \<and> dropWhile P (w @ rest) = rest"
  by (cases rest) (auto simp: takeWhile_append dropWhile_append list_all_iff)

lemma nextToken_ident:
  assumes "at s pre (w @ rest)" "identWord w" "rest = [] \<or> \<not> isIdentBody (hd rest)"
  defines "k \<equiv> (case map_of keyword_table w of Some k \<Rightarrow> k | None \<Rightarrow> TK_Identifier)"
  shows "\<exists>t. nextToken s = (Some (mkToken k w (locOf pre)), t) \<and> at t (pre @ w) rest \<and> lx_diags t = lx_diags s"
proof -
  let ?t = "advanceWhile (\<lambda>t. isIdentBody (peek 0 t)) s"
  have t: "at ?t (pre @ w) rest"
    using at_advanceWhile_char [OF assms(1), of isIdentBody] takeWhile_munch [of isIdentBody w rest] assms(2,3)
    by (auto simp: identWord_def)
  have c: "isIdentStart (peek 0 s)"
    using assms(1,2) by (cases w) (auto simp: identWord_def)
  have sub: "substr (lx_src s) (lx_pos s) (lx_pos ?t - lx_pos s) = w"
    by (rule at_substr [OF assms(1) t])
  show ?thesis
    using c t at_makeTok [OF assms(1) t] at_here [OF assms(1)]
    by (intro exI [of _ ?t]) (simp add: nextToken_def Let_def sub k_def split: option.split)
qed

lemma nextToken_number:
  assumes "at s pre (w @ rest)" "ppNumber w" "numberStops (hexPrefix w) w rest"
  defines "k \<equiv> (if floatText w then TK_FloatLiteral else TK_IntLiteral)"
  shows "\<exists>t. nextToken s = (Some (mkToken k w (locOf pre)), t) \<and> at t (pre @ w) rest \<and> lx_diags t = lx_diags s"
proof -
  have hex: "hexPrefix (w @ rest) = hexPrefix w"
    using assms(3) by (intro hexPrefix_munch) (auto simp: numberStops_def)
  let ?l = "numberLoop (hexPrefix w) False s"
  have l: "at (snd ?l) (pre @ w) rest" "fst ?l = floatText w"
    using numberLoop_ppBody [OF _ assms(3,1), of False] assms(2)
    by (auto simp: ppNumber_def floatText_def)
  have d: "isDigit (peek 0 s) \<or> peek 0 s = CHR ''.'' \<and> isDigit (peek 1 s)"
    using assms(1,2) by (auto simp: ppNumber_def numberStart_def neq_Nil_conv)
  then have c: "\<not> isIdentStart (peek 0 s)" "isDigit (peek 0 s) \<or> peek 0 s = CHR ''.'' \<and> isDigit (peek 1 s)"
    using class_disjoint(1,2) [of "peek 0 s"] by blast+
  have "number (lx_pos s) (here s) s = (mkToken k w (locOf pre), snd ?l)"
    using l at_makeTok [OF assms(1) l(1)] at_here [OF assms(1)] at_hexPrefix [OF assms(1)] hex
    by (auto simp: number_def Let_def k_def split: prod.split)
  with c l show ?thesis
    by (intro exI [of _ "snd ?l"]) (auto simp: nextToken_def Let_def)
qed

lemma nextToken_quoted:
  assumes "at s pre (w @ rest)" "quotedWord q w" "q = CHR 0x27 \<or> q = CHR 0x22"
  defines "k \<equiv> (if q = CHR 0x22 then TK_StringLiteral else TK_CharLiteral)"
  shows "\<exists>t. nextToken s = (Some (mkToken k w (locOf pre)), t) \<and> at t (pre @ w) rest \<and> lx_diags t = lx_diags s"
proof -
  obtain b where w: "w = q # b @ [q]" "quotedBody q b" using assms(2) by (auto simp: quotedWord_def)
  have a: "at (advance s) (pre @ [q]) (b @ q # rest)" using assms(1) w by auto
  have t1: "at (quotedLoop q (advance s)) ((pre @ [q]) @ b) (q # rest)"
    using quotedBody_loop [OF w(2) _ a] assms(3) by auto
  let ?t = "advance (quotedLoop q (advance s))"
  have t: "at ?t (pre @ w) rest" using t1 w by (auto dest!: at_advance)
  have c: "peek 0 s = q" using assms(1) w by simp
  have "quoted q (lx_pos s) (here s) s = (Some (mkToken k w (locOf pre)), ?t)"
    using t1 at_makeTok [OF assms(1) t] at_here [OF assms(1)]
    by (simp add: quoted_def Let_def k_def)
  moreover have "\<not> isIdentStart q" "\<not> isDigit q" "q \<noteq> CHR ''.''"
    using assms(3) by (auto simp: isIdentStart_def isDigit_def schar_def byte_def)
  ultimately show ?thesis
    using t c assms(3) by (intro exI [of _ ?t]) (simp add: nextToken_def Let_def)
qed

lemma nextToken_punct:
  assumes "at s pre (w @ rest)" "(w, k) \<in> set punctuators"
    and "\<forall>v \<in> fst ` set punctuators. starts_with (w @ rest) v \<longrightarrow> length v \<le> length w"
  shows "\<exists>t. nextToken s = (Some (mkToken k w (locOf pre)), t) \<and> at t (pre @ w) rest \<and> lx_diags t = lx_diags s"
proof -
  note h = punct_head [OF assms(2)]
  let ?t = "(advance ^^ length w) s"
  have t: "at ?t (pre @ w) rest" using at_funpow [OF assms(1)] .
  have f: "find (\<lambda>p. starts_with (w @ rest) (fst p)) punctuators = Some (w, k)"
    unfolding find_punctuator_iff using assms(2,3) starts_with_append [of w rest] by blast
  have c: "peek 0 s = hd w" "peek 0 s = CHR ''.'' \<Longrightarrow> \<not> isDigit (peek 1 s)"
    using assms(1) h(1,6) by (auto simp: neq_Nil_conv isDigit_def schar_def byte_def split: list.splits)
  show ?thesis
    using c h at_makeTok [OF assms(1) t] at_here [OF assms(1)] f t at_drop [OF assms(1)]
    by (intro exI [of _ ?t]) (auto simp: nextToken_def Let_def)
qed

end
