(* ===== verification/LexCorrect.thy ===== *)
theory LexCorrect
  imports LexSpec
begin

text \<open>
  The lexer against the lexical grammar: what one call of \<open>next\<close> returns is a longest lexeme,
  every longest lexeme is returned, and therefore \<open>lex\<close> succeeds exactly on the sources that
  have a tokenization and returns that tokenization.
\<close>

lemma startsTrivia_Cons:
  "\<not> startsTrivia (c # r) \<Longrightarrow> \<not> isSpace c"
  by (simp add: startsTrivia_def)

lemma lexeme_not_Nil: "lexeme k w \<Longrightarrow> w \<noteq> []"
  by (auto simp: lexeme_def ppNumber_def numberStart_def quotedWord_def dest: punct_head(1)
      keyword_identWord simp: identWord_def)

lemma stops_ident: "stops w rest \<Longrightarrow> identWord w \<Longrightarrow> rest = [] \<or> \<not> isIdentBody (hd rest)"
  by (simp add: stops_def)

lemma stops_number: "stops w rest \<Longrightarrow> numberStart w \<Longrightarrow> numberStops (hexPrefix w) w rest"
  by (auto simp: stops_def numberStops_def numberStart_def)

lemma stops_punct:
  "stops w rest \<Longrightarrow> (w, k) \<in> set punctuators \<Longrightarrow>
     \<forall>v \<in> fst ` set punctuators. starts_with (w @ rest) v \<longrightarrow> length v \<le> length w"
proof -
  assume st: "stops w rest" and "(w, k) \<in> set punctuators"
  then have "w \<in> fst ` set punctuators" by force
  with st show ?thesis unfolding stops_def by blast
qed

text \<open>Every longest lexeme at the cursor is the next token.\<close>

lemma nextToken_complete:
  assumes "at s pre (w @ rest)" "lexeme k w" "stops w rest"
  shows "\<exists>t. nextToken s = (Some (mkToken k w (locOf pre)), t) \<and> at t (pre @ w) rest \<and>
     lx_diags t = lx_diags s"
proof -
  note st = stops_ident [OF assms(3)] stops_number [OF assms(3)] stops_punct [OF assms(3)]
  consider "k = TK_Identifier" "identWord w" "map_of keyword_table w = None"
    | "map_of keyword_table w = Some k"
    | "k = TK_IntLiteral" "ppNumber w" "\<not> floatText w"
    | "k = TK_FloatLiteral" "ppNumber w" "floatText w"
    | "k = TK_CharLiteral" "quotedWord CHR 0x27 w"
    | "k = TK_StringLiteral" "quotedWord CHR 0x22 w"
    | "(w, k) \<in> set punctuators"
    using assms(2) unfolding lexeme_def by argo
  then show ?thesis
  proof cases
    case 1
    then show ?thesis using nextToken_ident [OF assms(1) 1(2) st(1)] by simp
  next
    case 2
    then show ?thesis
      using nextToken_ident [OF assms(1) keyword_identWord st(1)] keyword_identWord by simp
  next
    case 3
    then show ?thesis using nextToken_number [OF assms(1) 3(2) st(2)] by (simp add: ppNumber_def)
  next
    case 4
    then show ?thesis using nextToken_number [OF assms(1) 4(2) st(2)] by (simp add: ppNumber_def)
  next
    case 5
    then show ?thesis using nextToken_quoted [OF assms(1) 5(2)] by simp
  next
    case 6
    then show ?thesis using nextToken_quoted [OF assms(1) 6(2)] by simp
  next
    case 7
    then show ?thesis using nextToken_punct [OF assms(1) 7 st(3)] by blast
  qed
qed

lemma ident_classes:
  assumes "identWord w"
  shows "\<not> numberStart w" "w \<notin> fst ` set punctuators"
proof -
  from assms have "w \<noteq> []" "isIdentStart (hd w)" by (simp_all add: identWord_def)
  then show "\<not> numberStart w"
    using class_disjoint(1,2) [of "hd w"] by (auto simp: numberStart_def)
  show "w \<notin> fst ` set punctuators"
    using \<open>isIdentStart (hd w)\<close> punct_head(2) by fastforce
qed

lemma number_classes:
  assumes "numberStart w"
  shows "\<not> identWord w" "w \<notin> fst ` set punctuators"
proof -
  show "\<not> identWord w" using assms ident_classes(1) by blast
  have "\<not> (w, k) \<in> set punctuators" for k
    using assms punct_head(3,6) [of w k]
    by (auto simp: numberStart_def isDigit_def schar_def byte_def)
  then show "w \<notin> fst ` set punctuators" by auto
qed

lemma punct_classes:
  assumes "(w, k) \<in> set punctuators"
  shows "\<not> identWord w" "\<not> numberStart w"
proof -
  have "w \<in> fst ` set punctuators" using assms by force
  then show "\<not> identWord w" "\<not> numberStart w" using ident_classes(2) number_classes(2) by blast+
qed

lemma quote_classes:
  assumes "quotedWord q w" "q = CHR 0x27 \<or> q = CHR 0x22"
  shows "\<not> identWord w" "\<not> numberStart w" "w \<notin> fst ` set punctuators"
proof -
  have hd: "hd w = q" "w \<noteq> []" using assms by (auto simp: quotedWord_def)
  have q: "\<not> isIdentStart q" "\<not> isDigit q" "q \<noteq> CHR ''.''"
    using assms(2) by (auto simp: isIdentStart_def isDigit_def schar_def byte_def)
  show "\<not> identWord w" "\<not> numberStart w"
    using hd q by (auto simp: identWord_def numberStart_def)
  have "\<not> (w, k) \<in> set punctuators" for k
    using hd assms(2) punct_head(4,5) [of w k] by auto
  then show "w \<notin> fst ` set punctuators" by auto
qed

text \<open>A lexeme with what follows it never looks like trivia.\<close>

lemma startsTrivia_head:
  "w \<noteq> [] \<Longrightarrow> \<not> isSpace (hd w) \<and> hd w \<noteq> CHR ''/'' \<Longrightarrow> \<not> startsTrivia (w @ rest)"
  by (cases w) (auto simp: startsTrivia_def isCommentStart_def)

lemma space_classes:
  "isIdentStart c \<Longrightarrow> \<not> isSpace c \<and> c \<noteq> CHR ''/''" "isDigit c \<Longrightarrow> \<not> isSpace c \<and> c \<noteq> CHR ''/''"
  by (auto simp: isIdentStart_def isDigit_def isSpace_def schar_def byte_def)

lemma punct_not_space: "(w, k) \<in> set punctuators \<Longrightarrow> \<not> isSpace (hd w)"
  by (auto simp: punctuators_def isSpace_def)

lemma lexeme_not_trivia:
  assumes "lexeme k w" "stops w rest"
  shows "\<not> startsTrivia (w @ rest)"
proof -
  have ne: "w \<noteq> []" by (rule lexeme_not_Nil [OF assms(1)])
  consider "identWord w \<or> numberStart w \<or> quotedWord CHR 0x27 w \<or> quotedWord CHR 0x22 w"
    | "(w, k) \<in> set punctuators"
    using assms(1) keyword_identWord [of w k] unfolding lexeme_def ppNumber_def by argo
  then show ?thesis
  proof cases
    case 1
    then have "\<not> isSpace (hd w) \<and> hd w \<noteq> CHR ''/''"
      using space_classes [of "hd w"]
      by (auto simp: identWord_def numberStart_def quotedWord_def isSpace_def)
    then show ?thesis by (rule startsTrivia_head [OF ne])
  next
    case 2
    then have "w \<in> fst ` set punctuators" by force
    then have "\<not> isCommentStart (w @ rest)" using assms(2) by (simp add: stops_def)
    with ne punct_not_space [OF 2] show ?thesis by (simp add: startsTrivia_def)
  qed
qed

text \<open>
  Conversely, a call of \<open>next\<close> that reports nothing has found a longest lexeme.
\<close>

lemma nextToken_sound_number:
  assumes "rest \<noteq> []" "isDigit (hd rest) \<or> (\<exists>d v. rest = CHR ''.'' # d # v \<and> isDigit d)"
  shows "\<exists>w r. rest = w @ r \<and> ppNumber w \<and> stops w r"
proof -
  obtain w r where w: "rest = w @ r" "ppBody (hexPrefix rest) w" "numberStops (hexPrefix rest) w r"
    using ppBody_exists by blast
  have body: "numberBody c" if "isDigit c \<or> c = CHR ''.''" for c
    using that by (auto simp: numberBody_def isIdentBody_def)
  have r: "r = [] \<or> \<not> numberBody (hd r)" using w(3) by (auto simp: numberStops_def)
  have hex: "hexPrefix rest = hexPrefix w" using hexPrefix_munch [OF r, of w] w(1) by simp
  have "numberBody (hd rest)" using assms(2) by (auto intro: body)
  then have ne: "w \<noteq> []" using r w(1) assms(1) by auto
  have start: "numberStart w"
  proof (cases "isDigit (hd rest)")
    case True
    then show ?thesis using ne w(1) by (simp add: numberStart_def)
  next
    case False
    with assms obtain d v where d: "rest = CHR ''.'' # d # v" "isDigit d" by auto
    then have "numberBody d" by (auto intro: body)
    with d w(1) ne r obtain w' where "w = CHR ''.'' # d # w'"
      by (cases w; cases "tl w") auto
    with d show ?thesis by (simp add: numberStart_def)
  qed
  have "stops w r"
    using start ne number_classes [OF start] w(3) hex r
    by (auto simp: stops_def numberStops_def)
  moreover have "ppNumber w" using start w(2) hex by (simp add: ppNumber_def)
  ultimately show ?thesis using w(1) by blast
qed

lemma nextToken_sound_ident:
  assumes "rest \<noteq> []" "isIdentStart (hd rest)"
  shows "\<exists>w r. rest = w @ r \<and> identWord w \<and> stops w r"
proof -
  let ?w = "takeWhile isIdentBody rest" and ?r = "dropWhile isIdentBody rest"
  have "isIdentBody (hd rest)" using assms(2) by (simp add: isIdentBody_def)
  with assms have w: "identWord ?w"
    by (cases rest) (auto simp: identWord_def list_all_iff dest: set_takeWhileD)
  moreover have "?r = [] \<or> \<not> isIdentBody (hd ?r)"
    using hd_dropWhile by blast
  ultimately have "stops ?w ?r" using ident_classes [OF w] by (simp add: stops_def)
  with w show ?thesis by (intro exI [of _ ?w] exI [of _ ?r]) simp
qed

lemma nextToken_sound:
  assumes "at s pre rest" "rest \<noteq> []" "\<not> startsTrivia rest"
    and "lx_diags (snd (nextToken s)) = lx_diags s"
  shows "\<exists>k w r. rest = w @ r \<and> lexeme k w \<and> stops w r"
proof -
  let ?c = "hd rest"
  have c: "peek 0 s = ?c" using assms(1,2) by (cases rest) simp_all
  consider "isIdentStart ?c"
    | "\<not> isIdentStart ?c" "isDigit ?c \<or> (\<exists>d v. rest = CHR ''.'' # d # v \<and> isDigit d)"
    | "\<not> isIdentStart ?c" "\<not> (isDigit ?c \<or> (\<exists>d v. rest = CHR ''.'' # d # v \<and> isDigit d))"
      "?c = CHR 0x27 \<or> ?c = CHR 0x22"
    | "\<not> isIdentStart ?c" "\<not> (isDigit ?c \<or> (\<exists>d v. rest = CHR ''.'' # d # v \<and> isDigit d))"
      "\<not> (?c = CHR 0x27 \<or> ?c = CHR 0x22)"
    by blast
  then show ?thesis
  proof cases
    case 1
    then obtain w r where w: "rest = w @ r" "identWord w" "stops w r"
      using nextToken_sound_ident [OF assms(2)] by blast
    then have "\<exists>k. lexeme k w" by (cases "map_of keyword_table w") (auto simp: lexeme_def)
    with w show ?thesis by blast
  next
    case 2
    then obtain w r where w: "rest = w @ r" "ppNumber w" "stops w r"
      using nextToken_sound_number [OF assms(2)] by blast
    then have "\<exists>k. lexeme k w" by (cases "floatText w") (auto simp: lexeme_def)
    with w show ?thesis by blast
  next
    case 3
    have num: "\<not> (isDigit ?c \<or> ?c = CHR ''.'' \<and> isDigit (peek 1 s))" using 3 by auto
    have n: "nextToken s = quoted ?c (lx_pos s) (here s) s"
      using 3(1,3) c num unfolding nextToken_def Let_def by auto
    obtain r0 where rest: "rest = ?c # r0" using assms(2) by (cases rest) auto
    then have a: "at (advance s) (pre @ [?c]) r0" using assms(1) by (metis at_advance)
    have "peek 0 (quotedLoop ?c (advance s)) = ?c"
      using assms(4) by (auto simp: n quoted_def Let_def split: if_splits)
    then obtain b r where b: "r0 = b @ ?c # r" "quotedBody ?c b"
      using quotedLoop_body [OF _ _ a, of ?c] 3(3) by auto
    let ?w = "?c # b @ [?c]"
    have w: "quotedWord ?c ?w" using b by (auto simp: quotedWord_def)
    have "stops ?w r" using quote_classes [OF w 3(3)] by (simp add: stops_def)
    moreover have "rest = ?w @ r" using rest b by simp
    moreover have "\<exists>k. lexeme k ?w" using w 3(3) by (metis lexeme_def)
    ultimately show ?thesis by blast
  next
    case 4
    have num: "\<not> (isDigit ?c \<or> ?c = CHR ''.'' \<and> isDigit (peek 1 s))"
      using 4 assms(1,2) by (cases rest; cases "tl rest") auto
    obtain w k where f: "find (\<lambda>p. starts_with rest (fst p)) punctuators = Some (w, k)"
      using 4 c num assms(4) at_drop [OF assms(1)]
      by (cases "find (\<lambda>p. starts_with rest (fst p)) punctuators") (auto simp: nextToken_def Let_def)
    then have w: "(w, k) \<in> set punctuators" "starts_with rest w"
      and longest: "\<forall>v \<in> fst ` set punctuators. starts_with rest v \<longrightarrow> length v \<le> length w"
      unfolding find_punctuator_iff by blast+
    obtain r where r: "rest = w @ r" using w(2) by (auto simp: starts_with_iff)
    have "stops w r"
      using punct_classes [OF w(1)] longest assms(3) r by (simp add: stops_def startsTrivia_def)
    moreover have "lexeme k w" using w(1) by (simp add: lexeme_def)
    ultimately show ?thesis using r by blast
  qed
qed

section \<open>The whole run\<close>

lemma runLoop_complete:
  "tokenizes pre rest ts \<Longrightarrow> at s pre rest \<Longrightarrow>
     fst (runLoop acc s) = acc @ ts \<and> lx_diags (snd (runLoop acc s)) = lx_diags s"
proof (induction arbitrary: s acc rule: tokenizes.induct)
  case (tok_eof g pre)
  have "\<not> startsTrivia []" by (simp add: startsTrivia_def isCommentStart_def)
  with trivia_skip [OF tok_eof.hyps] tok_eof.prems
  have sk: "at (skipTrivia s) (pre @ g) []" "lx_diags (skipTrivia s) = lx_diags s" by auto
  then show ?case
    using at_here [OF sk(1)] by (subst (1 2) runLoop.simps) (simp add: substr_def)
next
  case (tok_cons g w rest k pre ts)
  note skip = trivia_skip [OF tok_cons.hyps(1) lexeme_not_trivia [OF tok_cons.hyps(2,3)] tok_cons.prems]
  then obtain t where t: "nextToken (skipTrivia s) = (Some (mkToken k w (locOf (pre @ g))), t)"
    "at t (pre @ g @ w) rest" "lx_diags t = lx_diags s"
    using nextToken_complete [OF _ tok_cons.hyps(2,3), of "skipTrivia s" "pre @ g"] by auto
  have "\<not> atEnd (skipTrivia s)" 
    using at_atEnd [OF skip [THEN conjunct1]] lexeme_not_Nil [OF tok_cons.hyps(2)] by simp
  then have "runLoop acc s = runLoop (acc @ [mkToken k w (locOf (pre @ g))]) t"
    using t(1) by (subst runLoop.simps) simp
  with tok_cons.IH [OF t(2)] t(3) show ?case by simp
qed

lemma runLoop_sound:
  "at s pre rest \<Longrightarrow> lx_diags (snd (runLoop acc s)) = lx_diags s \<Longrightarrow>
     \<exists>ts. fst (runLoop acc s) = acc @ ts \<and> tokenizes pre rest ts"
proof (induction acc s arbitrary: pre rest rule: runLoop.induct)
  case (1 acc s)
  let ?s1 = "skipTrivia s"
  have e1: "lex_sink.extends s ?s1" by (rule moves_extends [OF skipTrivia_moves])
  show ?case
  proof (cases "atEnd ?s1")
    case True
    have "lx_diags ?s1 = lx_diags s" using 1(4) True by (subst (asm) runLoop.simps) simp
    with skipTrivia_trivia [OF 1(3)] True obtain g where
      g: "rest = g" "trivia g []" "at ?s1 (pre @ g) []" by auto
    then have "tokenizes pre rest [mkToken TK_Eof [] (locOf (pre @ g))]" by (auto intro: tok_eof)
    then show ?thesis
      using True at_here [OF g(3)] by (subst runLoop.simps) (simp add: substr_def)
  next
    case False
    obtain r s2 where n: "nextToken ?s1 = (r, s2)" by fastforce
    have e2: "lex_sink.extends ?s1 s2"
      using moves_extends [OF nextToken_moves [OF False]] n by simp
    have run: "runLoop acc s = runLoop (case r of Some t \<Rightarrow> acc @ [t] | None \<Rightarrow> acc) s2"
      using False n by (subst runLoop.simps) (simp split: option.split)
    have e3: "lex_sink.extends s2 (snd (runLoop acc s))"
      unfolding run by (rule moves_extends [OF runLoop_moves])
    have d2: "lx_diags s2 = lx_diags s"
      by (rule lex_sink.extends_antisym [OF lex_sink.extends_trans [OF e1 e2] e3 1(4)])
    have d1: "lx_diags ?s1 = lx_diags s"
      by (rule lex_sink.extends_antisym [OF e1 e2 d2])
    from skipTrivia_trivia [OF 1(3) d1] obtain g r1 where
      g: "rest = g @ r1" "trivia g r1" "\<not> startsTrivia r1" "at ?s1 (pre @ g) r1" by blast
    have "r1 \<noteq> []" using g(4) False by simp
    from nextToken_sound [OF g(4) this g(3)] n d1 d2 obtain k w r2 where
      w: "r1 = w @ r2" "lexeme k w" "stops w r2" by auto
    from nextToken_complete [OF g(4) [unfolded w(1)] w(2,3)] n
    have t: "r = Some (mkToken k w (locOf (pre @ g)))" "at s2 (pre @ g @ w) r2" by auto
    have "\<exists>ts. fst (runLoop acc s) = (acc @ [mkToken k w (locOf (pre @ g))]) @ ts \<and>
        tokenizes (pre @ g @ w) r2 ts"
      using 1(2) [OF False n [symmetric] t(1) t(2)] 1(4) run t(1) d2 by simp
    with w g show ?thesis by (auto intro: tok_cons)
  qed
qed

lemma lex_tokenizes: "lex source = Inr toks \<longleftrightarrow> tokenizes [] source toks"
proof -
  let ?s = "mkLexer source"
  have d: "lx_diags ?s = []" by (simp add: mkLexer_def)
  have "lex source = Inr toks \<longleftrightarrow>
      lx_diags (snd (runLoop [] ?s)) = [] \<and> fst (runLoop [] ?s) = toks"
    by (auto simp: lex_def split: prod.split)
  also have "\<dots> \<longleftrightarrow> tokenizes [] source toks"
    using runLoop_sound [OF at_init, of "[]" source] runLoop_complete [OF _ at_init, of source toks "[]"] d
    by auto
  finally show ?thesis .
qed

section \<open>Locations\<close>

lemma locOf_less:
  assumes "w \<noteq> []" "Suc (length (pre @ w)) < 2 ^ 32"
  shows "locOf pre < locOf (pre @ w)"
proof -
  have *: "lineNo pre \<le> lineNo (pre @ w) \<and> (lineNo pre = lineNo (pre @ w) \<longrightarrow>
      colNo (pre @ w) = colNo pre + length w)"
    by (induction w rule: rev_induct) (auto simp flip: append_assoc)
  have b: "lineNo pre < 2 ^ 32" "colNo pre < 2 ^ 32" "lineNo (pre @ w) < 2 ^ 32" "colNo (pre @ w) < 2 ^ 32"
    using lineNo_le [of pre] colNo_le [of pre] lineNo_le [of "pre @ w"] colNo_le [of "pre @ w"] assms(2)
    by simp_all
  show ?thesis
    using * assms(1) b
    by (auto simp: locOf_def less_source_location_def word_less_nat_alt unat_of_nat_32 word_of_nat_32_eq)
qed

lemma tokenizes_from:
  "tokenizes pre rest ts \<Longrightarrow> Suc (length (pre @ rest)) < 2 ^ 32 \<Longrightarrow>
     (\<forall>t \<in> set ts. locOf pre \<le> tok_loc t) \<and> sorted_wrt (<) (map tok_loc ts)"
proof (induction rule: tokenizes.induct)
  case (tok_eof g pre)
  then show ?case using locOf_less [of g pre] by (cases "g = []") auto
next
  case (tok_cons g w rest k pre ts)
  have g: "locOf pre \<le> locOf (pre @ g)"
    using locOf_less [of g pre] tok_cons.prems by (cases "g = []") auto
  have w: "locOf (pre @ g) < locOf (pre @ g @ w)"
    using locOf_less [of w "pre @ g"] lexeme_not_Nil [OF tok_cons.hyps(2)] tok_cons.prems by simp
  have "(\<forall>t \<in> set ts. locOf (pre @ g @ w) \<le> tok_loc t) \<and> sorted_wrt (<) (map tok_loc ts)"
    using tok_cons.IH tok_cons.prems by simp
  with g w show ?case by (fastforce intro: less_imp_le order_trans less_le_trans)
qed

lemma lexeme_not_Eof: "lexeme k w \<Longrightarrow> k \<noteq> TK_Eof"
  by (auto simp: lexeme_def keyword_table_def punctuators_def split: if_splits)

lemma tokenizes_Eof:
  "tokenizes pre rest ts \<Longrightarrow>
     ts \<noteq> [] \<and> tok_kind (last ts) = TK_Eof \<and> (\<forall>t \<in> set (butlast ts). tok_kind t \<noteq> TK_Eof)"
  by (induction rule: tokenizes.induct) (auto dest: lexeme_not_Eof)

section \<open>Errors\<close>

text \<open>
  Why the lexer reports at a position: the unread text there opens a comment that never closes,
  opens a quoted literal that does not close on its line, or starts with a byte no token starts
  with.
\<close>

definition lexFault :: "string \<Rightarrow> string \<Rightarrow> bool" where
  "lexFault rest msg \<longleftrightarrow>
     (starts_with rest ''/*'' \<and> (\<forall>i. \<not> starts_with (drop i (drop 2 rest)) ''*/'') \<and>
        msg = ''unterminated /* comment'') \<or>
     (\<exists>q. (q = CHR 0x27 \<or> q = CHR 0x22) \<and> starts_with rest [q] \<and>
        (\<forall>w r. rest = w @ r \<longrightarrow> \<not> quotedWord q w) \<and>
        msg = (if q = CHR 0x22 then ''missing terminating '' @ [CHR 0x27, CHR 0x22, CHR 0x27] @ '' character''
               else ''missing terminating '' @ [CHR 0x27] @ '' character'')) \<or>
     (\<exists>c r. rest = c # r \<and> \<not> startsTrivia rest \<and> \<not> isIdentStart c \<and> \<not> numberStart rest \<and>
        c \<noteq> CHR 0x27 \<and> c \<noteq> CHR 0x22 \<and> (\<forall>v \<in> fst ` set punctuators. \<not> starts_with rest v) \<and>
        msg = ''unexpected character '' @ [CHR 0x27] @ [c] @ [CHR 0x27])"

definition faultAt :: "string \<Rightarrow> diagnostic \<Rightarrow> bool" where
  "faultAt source d \<longleftrightarrow>
     (\<exists>pre rest msg. source = pre @ rest \<and> lexFault rest msg \<and> d = makeError (locOf pre) msg)"

lemma faultAtI:
  "at s pre rest \<Longrightarrow> lexFault rest msg \<Longrightarrow> faultAt (lx_src s) (makeError (here s) msg)"
  unfolding faultAt_def at_def by (intro exI [of _ pre] exI [of _ rest] exI [of _ msg]) simp

lemma comment_fault:
  assumes "lx_ok s" "peek 0 s = CHR ''/''" "peek 1 s = CHR ''*''" "atEnd (skipBlockBody s)"
  shows "faultAt (lx_src s) (makeError (here s) ''unterminated /* comment'')"
proof -
  from ok_at [OF assms(1)] obtain pre rest where a: "at s pre rest" by blast
  obtain r where r: "rest = ''/*'' @ r"
    using at_peek0 [OF a] at_peek1 [OF a] assms(2,3) by (auto split: list.splits)
  from a r have a2: "at (advance (advance s)) (pre @ ''/*'') r" by (auto dest!: at_advance)
  have "\<forall>i. \<not> starts_with (drop i r) ''*/''"
  proof (rule comment_cases [of r])
    fix b g assume "r = b @ ''*/'' @ g" "closesFirst b"
    with at_closed_comment a2 have "at (skipBlockBody s) ((pre @ ''/*'') @ b) (''*/'' @ g)"
      unfolding skipBlockBody_def by blast
    from at_atEnd [OF this] assms(4) show ?thesis by simp
  qed
  then have "lexFault rest ''unterminated /* comment''" unfolding lexFault_def r by simp
  with a show ?thesis by (rule faultAtI)
qed

lemma slash_not_space [simp]: "\<not> isSpace CHR ''/''"
  by (simp add: isSpace_def)

lemma skipTrivia_faults:
  "lx_ok s \<Longrightarrow> \<forall>d \<in> set (lx_diags (skipTrivia s)). d \<in> set (lx_diags s) \<or> faultAt (lx_src s) d"
proof (induction s rule: skipTrivia.induct)
  case (1 s)
  show ?case
  proof (cases "\<not> atEnd s \<and> \<not> isSpace (peek 0 s) \<and> peek 0 s = CHR ''/'' \<and> peek 1 s = CHR ''*''")
    case True
    then have block: "skipTrivia s =
      (if atEnd (skipBlockBody s) then lx_error (here s) ''unterminated /* comment'' (skipBlockBody s)
       else skipTrivia (advance (advance (skipBlockBody s))))"
      by (subst skipTrivia.simps) (simp add: isSpace_def)
    have b: "lx_diags (skipBlockBody s) = lx_diags s" "lx_src (skipBlockBody s) = lx_src s"
      by (simp_all add: skipBlockBody_def skipBlockBody_simps(1) [unfolded skipBlockBody_def])
    show ?thesis
    proof (cases "atEnd (skipBlockBody s)")
      case stop: True
      then show ?thesis using True comment_fault [OF 1(4)] b by (simp add: block)
    next
      case False
      have "lx_ok (advance (advance (skipBlockBody s)))"
        using lx_ok_moves [OF skipBlock_moves 1(4)] True False by blast
      with 1(3) True False b show ?thesis by (simp add: block)
    qed
  next
    case False
    then show ?thesis
      using 1(1,2) lx_ok_advance [OF 1(4)] lx_ok_moves [OF advanceWhile_moves 1(4), of lineCommentBody]
        moves_src [OF advanceWhile_moves, of lineCommentBody s]
      by (subst skipTrivia.simps) auto
  qed
qed

lemma quoted_fault:
  assumes "at s pre (q # r)" "q = CHR 0x27 \<or> q = CHR 0x22" "peek 0 (quotedLoop q (advance s)) \<noteq> q"
  shows "q # r = w @ v \<longrightarrow> \<not> quotedWord q w"
proof (intro impI notI)
  assume "q # r = w @ v" "quotedWord q w"
  then obtain b where b: "r = b @ q # v" "quotedBody q b" by (auto simp: quotedWord_def)
  have "at (advance s) (pre @ [q]) (b @ q # v)" using assms(1) b by auto
  from quotedBody_loop [OF b(2) _ this] assms(2,3) show False by auto
qed

lemma nextToken_faults:
  assumes "at s pre rest" "rest \<noteq> []" "\<not> startsTrivia rest"
  shows "\<forall>d \<in> set (lx_diags (snd (nextToken s))). d \<in> set (lx_diags s) \<or> faultAt (lx_src s) d"
proof -
  obtain c r where rest: "rest = c # r" using assms(2) by (cases rest) auto
  have p: "peek 0 s = c" "peek 1 s = (case r of [] \<Rightarrow> nul | d # _ \<Rightarrow> d)"
    using assms(1) rest by (simp_all split: list.split)
  have num: "isDigit c \<or> c = CHR ''.'' \<and> isDigit (peek 1 s) \<longleftrightarrow> numberStart rest"
    using p rest by (auto simp: numberStart_def split: list.splits)
  show ?thesis
  proof (cases "isIdentStart c \<or> numberStart rest")
    case True
    then have "lx_diags (snd (nextToken s)) = lx_diags s"
      using num p by (auto simp: nextToken_def Let_def number_def split: option.split prod.splits)
        (metis numberLoop_diags snd_conv)+
    then show ?thesis by simp
  next
    case no: False
    then have n: "\<not> isIdentStart c" "\<not> (isDigit c \<or> c = CHR ''.'' \<and> isDigit (peek 1 s))"
      using num by blast+
    show ?thesis
    proof (cases "c = CHR 0x27 \<or> c = CHR 0x22")
      case True
      then have nt: "nextToken s = quoted c (lx_pos s) (here s) s"
        using n p(1) unfolding nextToken_def Let_def by auto
      show ?thesis
      proof (cases "peek 0 (quotedLoop c (advance s)) = c")
        case False
        let ?msg = "if c = CHR 0x22 then ''missing terminating '' @ [CHR 0x27, CHR 0x22, CHR 0x27] @ '' character''
               else ''missing terminating '' @ [CHR 0x27] @ '' character''"
        have "\<forall>w v. rest = w @ v \<longrightarrow> \<not> quotedWord c w"
          using quoted_fault [OF assms(1) [unfolded rest] True False] rest by simp
        then have "lexFault rest ?msg"
          using True rest unfolding lexFault_def by (intro disjI2 disjI1 exI [of _ c]) simp
        from faultAtI [OF assms(1) this] show ?thesis
          using False by (simp add: nt quoted_def Let_def)
      qed (simp add: nt quoted_def Let_def)
    next
      case False
      show ?thesis
      proof (cases "find (\<lambda>p. starts_with rest (fst p)) punctuators")
        case None
        then have "\<forall>v \<in> fst ` set punctuators. \<not> starts_with rest v"
          unfolding find_None_iff by blast
        then have "lexFault rest (''unexpected character '' @ [CHR 0x27] @ [c] @ [CHR 0x27])"
          using no False rest assms(3) unfolding lexFault_def by (intro disjI2 exI [of _ c] exI [of _ r]) simp
        from faultAtI [OF assms(1) this] show ?thesis
          using False n p(1) None at_drop [OF assms(1)]
          unfolding nextToken_def Let_def by auto
      next
        case (Some a)
        then have "lx_diags (snd (nextToken s)) = lx_diags s"
          using False n p(1) at_drop [OF assms(1)]
          unfolding nextToken_def Let_def by (auto split: prod.split)
        then show ?thesis by simp
      qed
    qed
  qed
qed

lemma skipTrivia_clean: "\<not> atEnd (skipTrivia s) \<Longrightarrow> lx_diags (skipTrivia s) = lx_diags s"
proof (induction s rule: skipTrivia.induct)
  case (1 s)
  have b: "lx_diags (skipBlockBody s) = lx_diags s" by (simp add: skipBlockBody_def)
  show ?case
    using 1 b unfolding skipTrivia.simps [of s] by (auto split: if_splits)
qed

lemma runLoop_faults:
  "lx_ok s \<Longrightarrow> \<forall>d \<in> set (lx_diags s). faultAt (lx_src s) d \<Longrightarrow>
     \<forall>d \<in> set (lx_diags (snd (runLoop acc s))). faultAt (lx_src s) d"
proof (induction acc s rule: runLoop.induct)
  case (1 acc s)
  let ?s1 = "skipTrivia s"
  have m1: "moves s ?s1" by (rule skipTrivia_moves)
  have f1: "\<forall>d \<in> set (lx_diags ?s1). faultAt (lx_src s) d"
    using skipTrivia_faults [OF 1(3)] 1(4) by blast
  show ?case
  proof (cases "atEnd ?s1")
    case True
    then show ?thesis using f1 by (subst runLoop.simps) simp
  next
    case False
    obtain r s2 where n: "nextToken ?s1 = (r, s2)" by fastforce
    from nextToken_moves [OF False] n have m2: "moves ?s1 s2" by simp
    from skipTrivia_trivia [OF ok_at [OF 1(3)] skipTrivia_clean [OF False]] obtain pre rest where
      a: "at ?s1 pre rest" "\<not> startsTrivia rest" by blast
    with False have "rest \<noteq> []" by simp
    with nextToken_faults [OF a(1) _ a(2)] n f1 moves_src [OF m1]
    have f2: "\<forall>d \<in> set (lx_diags s2). faultAt (lx_src s) d" by auto
    have ok2: "lx_ok s2" and src2: "lx_src s2 = lx_src s"
      using lx_ok_moves [OF m2 lx_ok_moves [OF m1 1(3)]] moves_src [OF m2] moves_src [OF m1] by simp_all
    have run: "runLoop acc s = runLoop (case r of Some t \<Rightarrow> acc @ [t] | None \<Rightarrow> acc) s2"
      using False n by (subst runLoop.simps) (simp split: option.split)
    show ?thesis
      using 1(1,2) [OF False n [symmetric] _ ok2] f2 src2 unfolding run by (cases r) auto
  qed
qed

section \<open>The properties of the lexer\<close>

text \<open>
  C4: The lexer implements the lexical grammar: \<open>lex\<close> succeeds with a token list exactly when
  that list is the source's tokenization (longest lexemes, classified by the token table, with
  comments and white space between them, closed by an end-of-file token).
\<close>

theorem lex_iff_tokenizes: "lex source = Inr toks \<longleftrightarrow> tokenizes [] source toks"
  by (rule lex_tokenizes)

text \<open>
  C13: The lexer's errors are sound: when \<open>lex\<close> fails it returns at least one diagnostic, and each
  of them points at a place of the source where a comment or a quoted literal is not closed or
  where no token starts, and says which.
\<close>

theorem lex_errors_justified:
  assumes "lex source = Inl ds"
  shows "ds \<noteq> [] \<and> (\<forall>d \<in> set ds. faultAt source d)"
proof -
  have "lx_src (mkLexer source) = source" "lx_diags (mkLexer source) = []"
    by (simp_all add: mkLexer_def)
  with runLoop_faults [OF lx_ok_init, of source "[]"] assms show ?thesis
    by (auto simp: lex_def split: prod.splits if_splits)
qed

lemma lex_errors_justified_witness:
  "faultAt ''@'' (makeError (SourceLocation 1 1) (''unexpected character '' @ [CHR 0x27, CHR ''@'', CHR 0x27]))"
proof -
  have "lex ''@'' = Inl [makeError (SourceLocation 1 1) (''unexpected character '' @ [CHR 0x27, CHR ''@'', CHR 0x27])]"
    by code_simp
  from lex_errors_justified [OF this] show ?thesis by simp
qed

text \<open>
  C15: Tokens come in source order: the locations of the tokens increase strictly, as long as
  the 32-bit line and column counters cannot wrap.
\<close>

theorem lex_locations_increase:
  assumes "lex source = Inr toks" "Suc (length source) < 2 ^ 32"
  shows "sorted_wrt (<) (map tok_loc toks)"
  using tokenizes_from [of "[]" source toks] assms lex_tokenizes by auto

lemma lex_locations_increase_witness:
  "sorted_wrt (<) [SourceLocation 1 1, SourceLocation 1 5, SourceLocation 1 6]"
proof -
  have "lex ''int a'' = Inr [mkToken TK_KwInt ''int'' (SourceLocation 1 1),
    mkToken TK_Identifier ''a'' (SourceLocation 1 5), mkToken TK_Eof [] (SourceLocation 1 6)]"
    by code_simp
  from lex_locations_increase [OF this] show ?thesis by (simp add: mkToken_def)
qed

text \<open>The token list ends with the one end-of-file token, so a parser can stop on it.\<close>

theorem lex_ends_with_Eof:
  assumes "lex source = Inr toks"
  shows "toks \<noteq> [] \<and> tok_kind (last toks) = TK_Eof \<and>
    (\<forall>t \<in> set (butlast toks). tok_kind t \<noteq> TK_Eof)"
  using tokenizes_Eof lex_tokenizes assms by blast

lemma lex_ends_with_Eof_witness:
  "tok_kind (last [mkToken TK_KwInt ''int'' (SourceLocation 1 1), mkToken TK_Identifier ''a'' (SourceLocation 1 5),
      mkToken TK_Eof [] (SourceLocation 1 6)]) = TK_Eof"
proof -
  have "lex ''int a'' = Inr [mkToken TK_KwInt ''int'' (SourceLocation 1 1),
    mkToken TK_Identifier ''a'' (SourceLocation 1 5), mkToken TK_Eof [] (SourceLocation 1 6)]"
    by code_simp
  from lex_ends_with_Eof [OF this] show ?thesis by simp
qed

text \<open>
  C20: The run of the lexer is made of steps that advance only before the end of the source, so
  no byte past it is read, and it leaves the line and column counters equal to the position's.
\<close>

theorem lexer_cursor_safe:
  "moves (mkLexer source) (snd (runLoop [] (mkLexer source))) \<and>
   lx_ok (snd (runLoop [] (mkLexer source)))"
  using runLoop_moves lx_ok_moves [OF runLoop_moves lx_ok_init] by blast

end
