(* ===== verification/Floats.thy ===== *)
theory Floats
  imports Complex_Main Prelude
begin

text \<open>
  IEEE 754 binary numbers, executable: the C++ types \<open>float\<close> and \<open>double\<close> and the operations
  the sources apply to them (conversions, arithmetic, comparisons, and the correctly rounded
  conversion from decimal that \<open>std::from_chars\<close> performs). A finite value is a sign, a
  significand and a power of two; results are rounded to nearest, ties to even.
\<close>

section \<open>Values and rounding\<close>

datatype fp = FNaN | FInf bool | FFin bool nat int

text \<open>A format: precision, smallest and largest exponent of the significand's last bit.\<close>

datatype format = Format (precision: nat) (emin: int) (emax: int)

definition binary64 :: format where "binary64 = Format 53 (-1074) 971"
definition binary32 :: format where "binary32 = Format 24 (-149) 104"

fun bitlen :: "nat \<Rightarrow> nat" where
  "bitlen n = (if n = 0 then 0 else Suc (bitlen (n div 2)))"

declare bitlen.simps [simp del]

text \<open>\<open>n / d\<close> over \<open>2 ^ e\<close> as a fraction of naturals.\<close>

definition scale :: "nat \<Rightarrow> nat \<Rightarrow> int \<Rightarrow> nat \<times> nat" where
  "scale n d e = (if 0 \<le> e then (n, d * 2 ^ nat e) else (n * 2 ^ nat (- e), d))"

text \<open>The exponent at which \<open>n / d\<close> has exactly \<open>p\<close> bits before the binary point.\<close>

definition exponent_for :: "nat \<Rightarrow> nat \<Rightarrow> nat \<Rightarrow> int" where
  "exponent_for p n d =
     (let e = int (bitlen n) - int (bitlen d) - int p; (N, D) = scale n d e
      in if D * 2 ^ p \<le> N then e + 1 else e)"

definition round_even :: "nat \<Rightarrow> nat \<Rightarrow> nat" where
  "round_even N D =
     (let q = N div D; r = N mod D
      in if D < 2 * r \<or> (2 * r = D \<and> odd q) then Suc q else q)"

definition round_fp :: "format \<Rightarrow> bool \<Rightarrow> nat \<Rightarrow> nat \<Rightarrow> fp" where
  "round_fp f s n d =
     (if n = 0 then FFin s 0 (emin f)
      else
        let e = max (emin f) (exponent_for (precision f) n d);
            (N, D) = scale n d e;
            q = round_even N D;
            (m, e') = (if q = 2 ^ precision f then (2 ^ (precision f - 1), e + 1) else (q, e))
        in if m = 0 then FFin s 0 (emin f) else if emax f < e' then FInf s else FFin s m e')"

text \<open>\<open>m * 2 ^ e\<close> in the format \<open>f\<close>.\<close>

definition round_pow :: "format \<Rightarrow> bool \<Rightarrow> nat \<Rightarrow> int \<Rightarrow> fp" where
  "round_pow f s m e =
     (if 0 \<le> e then round_fp f s (m * 2 ^ nat e) 1 else round_fp f s m (2 ^ nat (- e)))"

section \<open>Operations on double\<close>

fun fp_neg :: "fp \<Rightarrow> fp" where
  "fp_neg FNaN = FNaN"
| "fp_neg (FInf s) = FInf (\<not> s)"
| "fp_neg (FFin s m e) = FFin (\<not> s) m e"

definition signed :: "bool \<Rightarrow> nat \<Rightarrow> int" where
  "signed s m = (if s then - int m else int m)"

text \<open>Finite numbers at a common exponent.\<close>

definition align :: "nat \<Rightarrow> int \<Rightarrow> int \<Rightarrow> nat" where
  "align m e e0 = m * 2 ^ nat (e - e0)"

fun fp_add :: "fp \<Rightarrow> fp \<Rightarrow> fp" where
  "fp_add FNaN _ = FNaN"
| "fp_add _ FNaN = FNaN"
| "fp_add (FInf s) (FInf t) = (if s = t then FInf s else FNaN)"
| "fp_add (FInf s) _ = FInf s"
| "fp_add _ (FInf t) = FInf t"
| "fp_add (FFin s m e) (FFin t n g) =
     (let e0 = min e g; v = signed s (align m e e0) + signed t (align n g e0)
      in if v = 0 then FFin (s \<and> t) 0 (emin binary64)
         else round_pow binary64 (v < 0) (nat \<bar>v\<bar>) e0)"

definition fp_sub :: "fp \<Rightarrow> fp \<Rightarrow> fp" where
  "fp_sub a b = fp_add a (fp_neg b)"

fun fp_mul :: "fp \<Rightarrow> fp \<Rightarrow> fp" where
  "fp_mul FNaN _ = FNaN"
| "fp_mul _ FNaN = FNaN"
| "fp_mul (FInf s) (FInf t) = FInf (s \<noteq> t)"
| "fp_mul (FInf s) (FFin t n g) = (if n = 0 then FNaN else FInf (s \<noteq> t))"
| "fp_mul (FFin s m e) (FInf t) = (if m = 0 then FNaN else FInf (s \<noteq> t))"
| "fp_mul (FFin s m e) (FFin t n g) = round_pow binary64 (s \<noteq> t) (m * n) (e + g)"

fun fp_div :: "fp \<Rightarrow> fp \<Rightarrow> fp" where
  "fp_div FNaN _ = FNaN"
| "fp_div _ FNaN = FNaN"
| "fp_div (FInf s) (FInf t) = FNaN"
| "fp_div (FInf s) (FFin t n g) = FInf (s \<noteq> t)"
| "fp_div (FFin s m e) (FInf t) = FFin (s \<noteq> t) 0 (emin binary64)"
| "fp_div (FFin s m e) (FFin t n g) =
     (if n = 0 then (if m = 0 then FNaN else FInf (s \<noteq> t))
      else case scale m n (g - e) of (N, D) \<Rightarrow> round_fp binary64 (s \<noteq> t) N D)"

text \<open>Comparisons; every one of them with a NaN is false but \<open>!=\<close>.\<close>

fun fp_less :: "fp \<Rightarrow> fp \<Rightarrow> bool" where
  "fp_less FNaN _ = False"
| "fp_less _ FNaN = False"
| "fp_less (FInf s) (FInf t) = (s \<and> \<not> t)"
| "fp_less (FInf s) (FFin t n g) = s"
| "fp_less (FFin s m e) (FInf t) = (\<not> t)"
| "fp_less (FFin s m e) (FFin t n g) =
     (let e0 = min e g in signed s (align m e e0) < signed t (align n g e0))"

fun fp_eq :: "fp \<Rightarrow> fp \<Rightarrow> bool" where
  "fp_eq FNaN _ = False"
| "fp_eq _ FNaN = False"
| "fp_eq (FInf s) (FInf t) = (s = t)"
| "fp_eq (FInf s) (FFin t n g) = False"
| "fp_eq (FFin s m e) (FInf t) = False"
| "fp_eq (FFin s m e) (FFin t n g) =
     (let e0 = min e g in signed s (align m e e0) = signed t (align n g e0))"

definition fp_le :: "fp \<Rightarrow> fp \<Rightarrow> bool" where
  "fp_le a b \<longleftrightarrow> fp_less a b \<or> fp_eq a b"

section \<open>Conversions\<close>

definition fp_zero :: fp where
  "fp_zero = FFin False 0 (emin binary64)"

text \<open>\<open>static_cast<double>(std::int64_t)\<close>.\<close>

definition fp_of_int :: "int \<Rightarrow> fp" where
  "fp_of_int i = round_fp binary64 (i < 0) (nat \<bar>i\<bar>) 1"

text \<open>\<open>static_cast<float>(double)\<close>, widened back to \<open>double\<close> (which is exact).\<close>

fun to_single :: "fp \<Rightarrow> fp" where
  "to_single FNaN = FNaN"
| "to_single (FInf s) = FInf s"
| "to_single (FFin s m e) =
     (case round_pow binary32 s m e of
        FFin s' m' e' \<Rightarrow> round_pow binary64 s' m' e'
      | x \<Rightarrow> x)"

text \<open>The integer part of a finite number, towards zero.\<close>

fun fp_trunc :: "fp \<Rightarrow> int option" where
  "fp_trunc (FFin s m e) =
     Some (signed s (if 0 \<le> e then m * 2 ^ nat e else m div 2 ^ nat (- e)))"
| "fp_trunc _ = None"

text \<open>\<open>digits * 10 ^ x\<close>, correctly rounded.\<close>

definition fp_of_decimal :: "bool \<Rightarrow> nat \<Rightarrow> int \<Rightarrow> fp" where
  "fp_of_decimal s digits x =
     (if 0 \<le> x then round_fp binary64 s (digits * 10 ^ nat x) 1
      else round_fp binary64 s digits (10 ^ nat (- x)))"

section \<open>What rounding keeps\<close>

lemma bitlen_bounds:
  "0 < n \<Longrightarrow> 0 < bitlen n \<and> 2 ^ (bitlen n - 1) \<le> n \<and> n < 2 ^ bitlen n"
proof (induction n rule: bitlen.induct)
  case (1 n)
  show ?case
  proof (cases "n = 1")
    case True
    then show ?thesis by (simp add: bitlen.simps)
  next
    case False
    with 1 have IH: "0 < bitlen (n div 2)" "2 ^ (bitlen (n div 2) - 1) \<le> n div 2" "n div 2 < 2 ^ bitlen (n div 2)"
      by auto
    have b: "bitlen n = Suc (bitlen (n div 2))" using 1(2) by (subst bitlen.simps) simp
    obtain k where k: "bitlen (n div 2) = Suc k" using IH(1) by (cases "bitlen (n div 2)") auto
    show ?thesis using IH(2,3) unfolding b k by (simp, linarith)
  qed
qed

lemma two_powi_nat: "0 \<le> e \<Longrightarrow> (2::real) powi e = 2 ^ nat e"
  "e \<le> 0 \<Longrightarrow> (2::real) powi e = 1 / 2 ^ nat (- e)"
  by (auto simp: power_int_def field_simps)

lemma scale_real:
  assumes "0 < d" "scale n d e = (N, D)"
  shows "0 < D \<and> real N / real D = real n / real d / 2 powi e"
  using assms by (auto simp: scale_def two_powi_nat field_simps split: if_splits)

lemma exponent_for_bounds:
  assumes "0 < n" "0 < d" "0 < p"
  shows "2 ^ (p - 1) \<le> real n / real d / 2 powi exponent_for p n d \<and>
    real n / real d / 2 powi exponent_for p n d < 2 ^ p"
proof -
  define a b where ab: "a = bitlen n" "b = bitlen d"
  define e where e: "e = int a - int b - int p"
  obtain N D where ND: "scale n d e = (N, D)" by fastforce
  note sc = scale_real [OF assms(2) ND]
  let ?x = "real n / real d"
  have n: "2 ^ (a - 1) \<le> real n" "real n < 2 ^ a" "0 < a"
    using bitlen_bounds [OF assms(1)] unfolding ab by simp_all
  have d: "2 ^ (b - 1) \<le> real d" "real d < 2 ^ b" "0 < b"
    using bitlen_bounds [OF assms(2)] unfolding ab by simp_all
  have pw: "(2::real) powi e = 2 ^ a / 2 ^ b / 2 ^ p"
    by (simp add: e power_int_diff)
  let ?y = "real n / 2 ^ a * (2 ^ b / real d)"
  have x: "?x / 2 powi e = ?y * 2 ^ p"
    unfolding pw using assms by (simp add: field_simps)
  have na: "1 / 2 \<le> real n / 2 ^ a" "real n / 2 ^ a < 1"
    using n by (cases a; simp add: field_simps)+
  have db: "1 < 2 ^ b / real d" "2 ^ b / real d \<le> 2"
    using d assms(2) by (cases b; simp add: field_simps)+
  have "1 / 2 * 1 \<le> ?y"
    using na db by (intro mult_mono) auto
  moreover have "?y < 1 * 2"
    using na db by (intro mult_less_le_imp_less) auto
  ultimately have bnd: "1 / 2 * 2 ^ p \<le> ?x / 2 powi e" "?x / 2 powi e < 2 * 2 ^ p"
    unfolding x by (intro mult_right_mono mult_strict_right_mono; simp)+
  have half: "(2::real) ^ (p - 1) = 1 / 2 * 2 ^ p" using assms(3) by (cases p) simp_all
  have ge: "D * 2 ^ p \<le> N \<longleftrightarrow> 2 ^ p \<le> ?x / 2 powi e"
  proof -
    have "2 ^ p \<le> ?x / 2 powi e \<longleftrightarrow> 2 ^ p * real D \<le> real N"
      unfolding sc [THEN conjunct2, symmetric] using sc [THEN conjunct1] by (simp add: pos_le_divide_eq)
    also have "\<dots> \<longleftrightarrow> real (D * 2 ^ p) \<le> real N" by (simp add: mult.commute)
    finally show ?thesis by (simp only: of_nat_le_iff)
  qed
  show ?thesis
  proof (cases "D * 2 ^ p \<le> N")
    case True
    then have "exponent_for p n d = e + 1" using ND by (simp add: exponent_for_def e ab)
    moreover have "?x / 2 powi (e + 1) = ?x / 2 powi e / 2" by (simp add: power_int_add)
    moreover have "1 / 2 * 2 ^ p \<le> z / 2 \<and> z / 2 < 2 ^ p" if "2 ^ p \<le> z" "z < 2 * 2 ^ p" for z :: real
      using that by simp
    ultimately show ?thesis using bnd(2) True ge half by (simp only:)
  next
    case False
    then have "exponent_for p n d = e" using ND by (simp add: exponent_for_def e ab)
    then show ?thesis using bnd(1) False ge half by (simp only: not_le simp_thms)
  qed
qed

lemma exponent_for_ge: "int (bitlen n) - int (bitlen d) - int p \<le> exponent_for p n d"
  by (simp add: exponent_for_def Let_def split: prod.split)

lemma round_even_exact: "0 < D \<Longrightarrow> round_even (k * D) D = k"
  by (simp add: round_even_def)

lemma round_even_le: "N div D \<le> round_even N D"
  by (simp add: round_even_def Let_def)

text \<open>A nonzero number of normal size does not round to zero.\<close>

lemma round_fp_nonzero:
  assumes "0 < n" "0 < d" "1 < precision f" "emin f \<le> exponent_for (precision f) n d"
  shows "\<exists>m e. round_fp f s n d = FInf s \<or> round_fp f s n d = FFin s m e \<and> 0 < m"
proof -
  let ?p = "precision f" and ?e = "exponent_for (precision f) n d"
  obtain N D where ND: "scale n d ?e = (N, D)" by fastforce
  note sc = scale_real [OF assms(2) ND]
  have "1 \<le> real N / real D"
    using exponent_for_bounds [OF assms(1,2), of ?p] assms(3) sc
      one_le_power [of "2::real" "?p - 1"] by (simp del: one_le_power)
  then have "real D \<le> real N" using sc [THEN conjunct1] by (simp add: le_divide_eq)
  then have "D \<le> N" by simp
  then have "0 < N div D" using sc by (simp add: div_greater_zero_iff)
  then have "0 < round_even N D" using round_even_le [of N D] by simp
  then show ?thesis
    using assms(1,4) ND by (simp add: round_fp_def Let_def max_def)
qed

text \<open>
  A number of the format is its own rounding: if \<open>n / d\<close> is \<open>k * 2 ^ g\<close> with a significand and
  an exponent that fit, the result is exactly that number.
\<close>

fun fp_value :: "fp \<Rightarrow> real" where
  "fp_value (FFin s m e) = (if s then -1 else 1) * real m * 2 powi e"
| "fp_value _ = 0"

lemma round_fp_exact:
  assumes "0 < d" "0 < precision f" "real n / real d = real k * 2 powi g"
    and "k < 2 ^ precision f" "emin f \<le> g" "g \<le> emax f"
  shows "\<exists>m e. round_fp f s n d = FFin s m e \<and> real m * 2 powi e = real n / real d"
proof (cases "n = 0")
  case True
  then show ?thesis by (simp add: round_fp_def)
next
  case False
  let ?p = "precision f"
  define ex where "ex = exponent_for ?p n d"
  define e where "e = max (emin f) ex"
  have b: "2 ^ (?p - 1) \<le> real n / real d / 2 powi ex"
    using exponent_for_bounds [of n d ?p] False assms(1,2) by (simp add: ex_def)
  have "(2::real) powi ex * 2 ^ (?p - 1) \<le> real k * 2 powi g"
    using b unfolding assms(3) by (simp add: field_simps)
  also have "\<dots> < 2 ^ ?p * 2 powi g"
    using assms(4) by simp
  also have "\<dots> = 2 powi (g + 1) * 2 ^ (?p - 1)"
    using assms(2) by (cases ?p) (simp_all add: power_int_add)
  finally have "(2::real) powi ex < 2 powi (g + 1)" by simp
  then have "ex \<le> g" using power_int_increasing [of "g + 1" ex "2::real"] by (cases "ex \<le> g") simp_all
  then have eg: "e \<le> g" using assms(5) by (simp add: e_def)
  obtain N D where ND: "scale n d e = (N, D)" by fastforce
  note sc = scale_real [OF assms(1) ND]
  define q where "q = k * 2 ^ nat (g - e)"
  have "(2::real) powi g = 2 powi e * 2 ^ nat (g - e)"
    using eg two_powi_nat(1) [of "g - e"] power_int_add [of "2::real" e "g - e"] by simp
  then have qr: "real N / real D = real q"
    using sc unfolding assms(3) by (simp add: q_def)
  from qr have "real N = real (q * D)" using sc [THEN conjunct1] by (simp add: divide_eq_eq)
  then have N: "N = q * D" by (simp only: of_nat_eq_iff)
  have "real n / real d / 2 powi e \<le> real n / real d / 2 powi ex"
    by (intro divide_left_mono power_int_increasing) (simp_all add: e_def)
  also have "\<dots> < 2 ^ ?p"
    using exponent_for_bounds [of n d ?p] False assms(1,2) by (simp add: ex_def)
  finally have "real q < 2 ^ ?p" using sc qr by (simp only:)
  then have q: "q < 2 ^ ?p" by simp
  have "0 < real n / real d / 2 powi e" using False assms(1) by simp
  then have "0 < real q" using sc qr by (simp only:)
  then have "round_fp f s n d = FFin s q e"
    using False ND q round_even_exact [of D q] sc N eg assms(6)
    by (simp add: round_fp_def Let_def ex_def [symmetric] e_def [symmetric])
  moreover have "real q = real n / real d / 2 powi e" using sc qr by (simp only:)
  then have "real q * 2 powi e = real n / real d" by simp
  ultimately show ?thesis by blast
qed

section \<open>Integers\<close>

lemma signed_div_pow: "signed s m = k \<Longrightarrow> \<bar>k\<bar> = int m"
  by (auto simp: signed_def)

lemma fp_trunc_value:
  assumes "real m * 2 powi e = real k"
  shows "fp_trunc (FFin s m e) = Some (signed s k)"
proof (cases "0 \<le> e")
  case True
  then have "real (m * 2 ^ nat e) = real k" using assms by (simp add: two_powi_nat)
  then have "m * 2 ^ nat e = k" by (simp only: of_nat_eq_iff)
  then show ?thesis using True by simp
next
  case False
  then have "real m = real (k * 2 ^ nat (- e))" using assms by (simp add: two_powi_nat field_simps)
  then have "m = k * 2 ^ nat (- e)" by (simp only: of_nat_eq_iff)
  then show ?thesis using False by simp
qed

text \<open>Every integer of at most 53 bits is a \<open>double\<close>, and one of at most 24 bits a \<open>float\<close>.\<close>

lemma fp_of_int_exact:
  assumes "\<bar>i\<bar> < 2 ^ 53"
  shows "\<exists>m e. fp_of_int i = FFin (i < 0) m e \<and> real m * 2 powi e = real (nat \<bar>i\<bar>)"
proof -
  have "nat \<bar>i\<bar> < 2 ^ precision binary64" using assms by (simp add: binary64_def)
  then show ?thesis
    unfolding fp_of_int_def
    using round_fp_exact [of 1 binary64 "nat \<bar>i\<bar>" "nat \<bar>i\<bar>" 0 "i < 0"] by (simp add: binary64_def)
qed

lemma fp_of_int_nonzero:
  assumes "i \<noteq> 0"
  shows "\<exists>s m e. fp_of_int i = FInf s \<or> fp_of_int i = FFin s m e \<and> 0 < m"
proof -
  have "0 < nat \<bar>i\<bar>" using assms by simp
  moreover have "emin binary64 \<le> exponent_for (precision binary64) (nat \<bar>i\<bar>) 1"
  proof -
    have "bitlen 1 = 1" by (subst bitlen.simps) (simp add: bitlen.simps [of 0])
    then show ?thesis using exponent_for_ge [of "nat \<bar>i\<bar>" 1 53] by (simp add: binary64_def)
  qed
  ultimately show ?thesis
    unfolding fp_of_int_def using round_fp_nonzero [of "nat \<bar>i\<bar>" 1 binary64 "i < 0"]
    by (auto simp: binary64_def)
qed

lemma fp_of_int_zero [simp]: "fp_of_int 0 = fp_zero"
  by (simp add: fp_of_int_def round_fp_def fp_zero_def)

lemma round_pow_exact:
  assumes "real m * 2 powi e = real k * 2 powi g" "0 < precision f"
    and "k < 2 ^ precision f" "emin f \<le> g" "g \<le> emax f"
  shows "\<exists>m' e'. round_pow f s m e = FFin s m' e' \<and> real m' * 2 powi e' = real m * 2 powi e"
  using assms round_fp_exact [of 1 f "m * 2 ^ nat e" k g s] round_fp_exact [of "2 ^ nat (- e)" f m k g s]
  by (auto simp: round_pow_def two_powi_nat field_simps)

lemma to_single_int:
  assumes "real m * 2 powi e = real k" "k < 2 ^ 24"
  shows "\<exists>m' e'. to_single (FFin s m e) = FFin s m' e' \<and> real m' * 2 powi e' = real k"
proof -
  have "k < 2 ^ precision binary32" "k < 2 ^ precision binary64" using assms(2) by (simp_all add: binary32_def binary64_def)
  with assms(1) round_pow_exact [of m e k 0 binary32 s] obtain m1 e1 where
    r: "round_pow binary32 s m e = FFin s m1 e1" "real m1 * 2 powi e1 = real k"
    by (auto simp: binary32_def)
  with round_pow_exact [of m1 e1 k 0 binary64 s] \<open>k < 2 ^ precision binary64\<close> show ?thesis
    by (auto simp: binary64_def)
qed

section \<open>Comparison\<close>

lemma fp_value_align:
  assumes "e0 \<le> e"
  shows "fp_value (FFin s m e) = of_int (signed s (align m e e0)) * 2 powi e0"
proof -
  have "(2::real) powi e = 2 ^ nat (e - e0) * 2 powi e0"
    using assms two_powi_nat(1) [of "e - e0"] power_int_add [of "2::real" "e - e0" e0] by simp
  then show ?thesis by (simp add: signed_def align_def)
qed

lemma fp_less_value:
  "fp_less (FFin s m e) (FFin t n g) \<longleftrightarrow> fp_value (FFin s m e) < fp_value (FFin t n g)"
  using fp_value_align [of "min e g" e s m] fp_value_align [of "min e g" g t n]
  by (simp add: Let_def del: fp_value.simps)

end
