(* ===== verification/Literal.thy ===== *)
theory Literal
  imports Floats
begin

text \<open>
  \<open>lib/Lex/Literal.cpp\<close>: decoding the text of literal tokens. A \<open>std::string_view\<close> that a
  function shortens from the front is passed in and returned. \<open>std::expected<T, std::string>\<close>
  is a sum with the message on the left. The two overloads of \<open>std::from_chars\<close> that the file
  calls are modelled after the standard: the longest prefix that matches the pattern is
  converted, and the result says where it ended.
\<close>

section \<open>Characters and escape sequences\<close>

definition hexValue :: "char \<Rightarrow> int" where
  "hexValue c =
     (if schar CHR ''0'' \<le> schar c \<and> schar c \<le> schar CHR ''9'' then schar c - schar CHR ''0''
      else if schar CHR ''a'' \<le> schar c \<and> schar c \<le> schar CHR ''f'' then schar c - schar CHR ''a'' + 10
      else if schar CHR ''A'' \<le> schar c \<and> schar c \<le> schar CHR ''F'' then schar c - schar CHR ''A'' + 10
      else -1)"

text \<open>The loop of the \<open>x\<close> case: the value so far, an \<open>unsigned\<close>, and the digits taken.\<close>

fun hexLoop :: "u32 \<Rightarrow> nat \<Rightarrow> string \<Rightarrow> u32 \<times> nat \<times> string" where
  "hexLoop v digits [] = (v, digits, [])"
| "hexLoop v digits (c # body) =
     (if 0 \<le> hexValue c then hexLoop (v * 16 + word_of_int (hexValue c)) (Suc digits) body
      else (v, digits, c # body))"

text \<open>The loop of the octal case: at most \<open>n\<close> more digits.\<close>

definition isOctal :: "char \<Rightarrow> bool" where
  "isOctal c \<longleftrightarrow> schar CHR ''0'' \<le> schar c \<and> schar c \<le> schar CHR ''7''"

fun octalLoop :: "nat \<Rightarrow> u32 \<Rightarrow> string \<Rightarrow> u32 \<times> string" where
  "octalLoop (Suc n) v (c # body) =
     (if isOctal c then octalLoop n (v * 8 + word_of_int (schar c - schar CHR ''0'')) body
      else (v, c # body))"
| "octalLoop _ v body = (v, body)"

text \<open>The single-character escapes.\<close>

definition simpleEscape :: "char \<Rightarrow> char option" where
  "simpleEscape e =
     (if e = CHR ''n'' then Some CHR 0x0A
      else if e = CHR ''t'' then Some CHR 0x09
      else if e = CHR ''r'' then Some CHR 0x0D
      else if e = CHR ''a'' then Some CHR 0x07
      else if e = CHR ''b'' then Some CHR 0x08
      else if e = CHR ''f'' then Some CHR 0x0C
      else if e = CHR ''v'' then Some CHR 0x0B
      else if e = CHR 0x5C \<or> e = CHR 0x27 \<or> e = CHR 0x22 \<or> e = CHR ''?'' then Some e
      else None)"

text \<open>\<open>static_cast<char>(unsigned)\<close>.\<close>

definition char_of_u32 :: "u32 \<Rightarrow> char" where
  "char_of_u32 v = char_of (unat v)"

text \<open>
  \<open>decodeOne\<close> takes the front of a non-empty view (the callers check); it returns the decoded
  character or the message, and the rest of the view.
\<close>

fun decodeOne :: "string \<Rightarrow> (string + char) \<times> string" where
  "decodeOne (c # body) =
     (if c \<noteq> CHR 0x5C then (Inr c, body)
      else case body of
        [] \<Rightarrow> (Inl ''incomplete escape sequence'', [])
      | e # body \<Rightarrow>
         (case simpleEscape e of
            Some r \<Rightarrow> (Inr r, body)
          | None \<Rightarrow>
             (if e = CHR ''x'' then
                (case hexLoop 0 0 body of (v, digits, body) \<Rightarrow>
                  (if digits = 0 then (Inl ([CHR 0x5C] @ ''x used with no following hex digits''), body)
                   else if 0xFF < v then (Inl ''hex escape sequence out of range'', body)
                   else (Inr (char_of_u32 v), body)))
              else if isOctal e then
                (case octalLoop 2 (word_of_int (schar e - schar CHR ''0'')) body of (v, body) \<Rightarrow>
                  (if 0xFF < v then (Inl ''octal escape sequence out of range'', body)
                   else (Inr (char_of_u32 v), body)))
              else (Inl (''unknown escape sequence '' @ [CHR 0x27, CHR 0x5C, e, CHR 0x27]), body))))"

lemma hexLoop_length: "hexLoop v d body = (v', d', body') \<Longrightarrow> length body' \<le> length body"
  by (induction v d body rule: hexLoop.induct) (force split: if_splits)+

lemma octalLoop_length: "octalLoop n v body = (v', body') \<Longrightarrow> length body' \<le> length body"
  by (induction n v body rule: octalLoop.induct) (force split: if_splits)+

lemma decodeOne_length: "decodeOne (c # body) = (r, body') \<Longrightarrow> length body' \<le> length body"
  by (auto split: if_splits list.splits option.splits prod.splits
      dest: hexLoop_length octalLoop_length)

section \<open>Integer literals\<close>

text \<open>The digits \<open>from_chars\<close> reads in a base, of either case.\<close>

definition digit_in :: "nat \<Rightarrow> char \<Rightarrow> nat option" where
  "digit_in base c =
     (if 0 \<le> hexValue c \<and> hexValue c < int base then Some (nat (hexValue c)) else None)"

definition horner :: "nat \<Rightarrow> nat list \<Rightarrow> nat" where
  "horner base ds = foldl (\<lambda>v d. v * base + d) 0 ds"

datatype 'a from_chars = Invalid_argument | Out_of_range | Converted 'a string

text \<open>\<open>std::from_chars(first, last, std::uint64_t &, base)\<close>; a conversion keeps what it left unread.\<close>

definition from_chars_u64 :: "nat \<Rightarrow> string \<Rightarrow> u64 from_chars" where
  "from_chars_u64 base s =
     (let ds = takeWhile (\<lambda>c. digit_in base c \<noteq> None) s;
          v = horner base (map (\<lambda>c. the (digit_in base c)) ds)
      in if ds = [] then Invalid_argument
         else if 2 ^ 64 \<le> v then Out_of_range
         else Converted (word_of_nat v) (drop (length ds) s))"

definition intShape :: "string \<Rightarrow> nat \<times> string" where
  "intShape lit =
     (if 2 < length lit \<and> lit ! 0 = CHR ''0'' \<and> (lit ! 1 = CHR ''x'' \<or> lit ! 1 = CHR ''X'')
      then (16, drop 2 lit)
      else if 1 < length lit \<and> lit ! 0 = CHR ''0'' then (8, drop 1 lit)
      else (10, lit))"

definition parseIntLiteral :: "string \<Rightarrow> string + u64" where
  "parseIntLiteral lit =
     (case intShape lit of (base, digits) \<Rightarrow>
       (case from_chars_u64 base digits of
          Out_of_range \<Rightarrow> Inl ''integer literal is too large''
        | Invalid_argument \<Rightarrow> Inl (''invalid integer literal '' @ quoted_text lit)
        | Converted v rest \<Rightarrow>
            (if rest \<noteq> [] then Inl (''invalid integer literal '' @ quoted_text lit) else Inr v)))"

section \<open>Floating literals\<close>

definition isDec :: "char \<Rightarrow> bool" where
  "isDec c \<longleftrightarrow> digit_in 10 c \<noteq> None"

definition decVal :: "string \<Rightarrow> nat" where
  "decVal ds = horner 10 (map (\<lambda>c. the (digit_in 10 c)) ds)"

definition lower :: "char \<Rightarrow> char" where
  "lower c = (if schar CHR ''A'' \<le> schar c \<and> schar c \<le> schar CHR ''Z'' then char_of (byte c + 32) else c)"

text \<open>An exponent part, if one is complete: the letter, an optional sign, at least one digit.\<close>

definition exponentPart :: "string \<Rightarrow> int \<times> string" where
  "exponentPart s =
     (case s of
        [] \<Rightarrow> (0, [])
      | c # t \<Rightarrow>
         (let neg = (t \<noteq> [] \<and> hd t = CHR ''-'');
              u = (if t \<noteq> [] \<and> (hd t = CHR ''-'' \<or> hd t = CHR ''+'') then tl t else t);
              ds = takeWhile isDec u
          in if lower c = CHR ''e'' \<and> ds \<noteq> []
             then ((if neg then - int (decVal ds) else int (decVal ds)), drop (length ds) u)
             else (0, s)))"

text \<open>What is outside the range of \<open>double\<close>: an overflow, or a nonzero number that rounds to zero.\<close>

definition ranged :: "nat \<Rightarrow> fp \<Rightarrow> string \<Rightarrow> fp from_chars" where
  "ranged digits v rest =
     (case v of
        FInf s \<Rightarrow> Out_of_range
      | FFin s m e \<Rightarrow> (if m = 0 \<and> digits \<noteq> 0 then Out_of_range else Converted v rest)
      | FNaN \<Rightarrow> Converted v rest)"

definition from_chars_digits :: "bool \<Rightarrow> string \<Rightarrow> fp from_chars" where
  "from_chars_digits neg s =
     (let whole = takeWhile isDec s;
          t = drop (length whole) s;
          dot = (t \<noteq> [] \<and> hd t = CHR ''.'');
          fraction = (if dot then takeWhile isDec (tl t) else []);
          u = (if dot then drop (length fraction) (tl t) else t)
      in if whole = [] \<and> fraction = [] then Invalid_argument
         else case exponentPart u of (x, rest) \<Rightarrow>
           ranged (decVal (whole @ fraction))
             (fp_of_decimal neg (decVal (whole @ fraction)) (x - int (length fraction))) rest)"

text \<open>The spellings of infinities and NaNs, in any case.\<close>

definition from_chars_special :: "bool \<Rightarrow> string \<Rightarrow> fp from_chars" where
  "from_chars_special neg s =
     (let w = map lower s in
      if starts_with w ''infinity'' then Converted (FInf neg) (drop 8 s)
      else if starts_with w ''inf'' then Converted (FInf neg) (drop 3 s)
      else if starts_with w ''nan('' then
        (let body = takeWhile (\<lambda>c. isDec c \<or> (schar CHR ''a'' \<le> schar (lower c) \<and>
               schar (lower c) \<le> schar CHR ''z'') \<or> c = CHR ''_'') (drop 4 s);
             rest = drop (4 + length body) s
         in if rest \<noteq> [] \<and> hd rest = CHR '')'' then Converted FNaN (tl rest)
            else Converted FNaN (drop 3 s))
      else if starts_with w ''nan'' then Converted FNaN (drop 3 s)
      else Invalid_argument)"

text \<open>\<open>std::from_chars(first, last, double &, std::chars_format::general)\<close>.\<close>

definition from_chars_double :: "string \<Rightarrow> fp from_chars" where
  "from_chars_double s =
     (let neg = (s \<noteq> [] \<and> hd s = CHR ''-''); t = (if neg then tl s else s)
      in case from_chars_digits neg t of
           Invalid_argument \<Rightarrow> from_chars_special neg t
         | r \<Rightarrow> r)"

definition floatBody :: "string \<Rightarrow> string" where
  "floatBody lit = (if ends_with lit ''f'' \<or> ends_with lit ''F'' then butlast lit else lit)"

definition parseFloatLiteral :: "string \<Rightarrow> string + fp" where
  "parseFloatLiteral lit =
     (case from_chars_double (floatBody lit) of
        Out_of_range \<Rightarrow> Inl ''floating literal is out of range''
      | Invalid_argument \<Rightarrow> Inl (''invalid floating literal '' @ quoted_text lit)
      | Converted v rest \<Rightarrow>
          (if rest \<noteq> [] then Inl (''invalid floating literal '' @ quoted_text lit) else Inr v))"

section \<open>Quoted literals\<close>

definition quotedInside :: "string \<Rightarrow> string" where
  "quotedInside lit = substr lit 1 (length lit - 2)"

definition parseCharLiteral :: "string \<Rightarrow> string + char" where
  "parseCharLiteral lit =
     (let body = quotedInside lit in
      if body = [] then Inl ''empty character constant''
      else case decodeOne body of
        (Inr c, rest) \<Rightarrow> (if rest \<noteq> [] then Inl ''multi-character character constant'' else Inr c)
      | (Inl msg, rest) \<Rightarrow> Inl msg)"

function decodeAll :: "string \<Rightarrow> string \<Rightarrow> string + string" where
  "decodeAll out [] = Inr out"
| "decodeAll out (c # body) =
     (case decodeOne (c # body) of
        (Inl msg, rest) \<Rightarrow> Inl msg
      | (Inr x, rest) \<Rightarrow> decodeAll (out @ [x]) rest)"
  by pat_completeness auto
termination
  by (relation "measure (\<lambda>(out, body). length body)")
    (auto simp del: decodeOne.simps dest: decodeOne_length [OF sym])

definition parseStringLiteral :: "string \<Rightarrow> string + string" where
  "parseStringLiteral lit = decodeAll [] (quotedInside lit)"

end
