(* ===== verification/ASTDumper.thy ===== *)
theory ASTDumper
  imports Literal
begin

text \<open>
  \<open>quote\<close> of \<open>lib/AST/ASTDumper.cpp\<close>: how a decoded string literal is printed in a dump.
\<close>

definition quoteChar :: "char \<Rightarrow> string" where
  "quoteChar c =
     (if c = newline then [CHR 0x5C, CHR ''n'']
      else if c = CHR 0x09 then [CHR 0x5C, CHR ''t'']
      else if c = nul then [CHR 0x5C, CHR ''0'']
      else if c = CHR 0x22 then [CHR 0x5C, CHR 0x22]
      else if c = CHR 0x5C then [CHR 0x5C, CHR 0x5C]
      else [c])"

definition quote :: "string \<Rightarrow> string" where
  "quote bytes = [CHR 0x22] @ concat (map quoteChar bytes) @ [CHR 0x22]"

end
