(* ===== verification/LiteralSpec.thy ===== *)
theory LiteralSpec
  imports LexCorrect ASTDumper
begin

text \<open>
  What the literals mean, stated as grammars, and the decoding functions against it.
\<close>

section \<open>Digits\<close>

lemma hexValue_less: "hexValue c < 16"
  by (auto simp: hexValue_def schar_def byte_def)

lemma digit_in_16: "digit_in 16 c = (if 0 \<le> hexValue c then Some (nat (hexValue c)) else None)"
  using hexValue_less [of c] by (simp add: digit_in_def)

lemma digit_in_8: "digit_in 8 c = (if isOctal c then Some (nat (schar c - schar CHR ''0'')) else None)"
  by (auto simp: digit_in_def hexValue_def isOctal_def schar_def byte_def)

text \<open>The value of a digit string.\<close>

definition textValue :: "nat \<Rightarrow> string \<Rightarrow> nat" where
  "textValue base s = horner base (map (\<lambda>c. the (digit_in base c)) s)"

definition digits :: "nat \<Rightarrow> string \<Rightarrow> bool" where
  "digits base s \<longleftrightarrow> s \<noteq> [] \<and> list_all (\<lambda>c. digit_in base c \<noteq> None) s"

lemma textValue_foldl: "textValue base s = foldl (\<lambda>v c. v * base + the (digit_in base c)) 0 s"
  by (simp add: textValue_def horner_def foldl_map)

lemma textValue_snoc: "textValue base (s @ [c]) = textValue base s * base + the (digit_in base c)"
  by (simp add: textValue_foldl)

lemma textValue_Nil [simp]: "textValue base [] = 0"
  by (simp add: textValue_foldl)

lemma digit_in_less: "digit_in base c = Some d \<Longrightarrow> d < base"
  by (auto simp: digit_in_def split: if_splits)

lemma textValue_less:
  "list_all (\<lambda>c. digit_in base c \<noteq> None) s \<Longrightarrow> 0 < base \<Longrightarrow> textValue base s < base ^ length s"
proof (induction s rule: rev_induct)
  case (snoc c s)
  then obtain d where d: "digit_in base c = Some d" "textValue base s < base ^ length s" by auto
  have "Suc (textValue base s) * base \<le> base ^ length s * base"
    using d(2) by (intro mult_le_mono1) simp
  with digit_in_less [OF d(1)] d(1) show ?case by (simp add: textValue_snoc algebra_simps)
qed simp

section \<open>Escapes\<close>

text \<open>
  \<open>charText e rest c\<close>: the text \<open>e\<close>, standing before \<open>rest\<close>, stands for the byte \<open>c\<close>. An octal
  escape has at most three digits, a hexadecimal one as many as there are. The value of a
  hexadecimal escape is accumulated in 32 bits, so the bound is one on the value modulo \<open>2 ^ 32\<close>.
\<close>

inductive charText :: "string \<Rightarrow> string \<Rightarrow> char \<Rightarrow> bool" where
  ct_plain: "c \<noteq> CHR 0x5C \<Longrightarrow> charText [c] rest c"
| ct_simple: "simpleEscape e = Some c \<Longrightarrow> charText [CHR 0x5C, e] rest c"
| ct_octal: "digits 8 ds \<Longrightarrow> length ds \<le> 3 \<Longrightarrow>
    (length ds = 3 \<or> rest = [] \<or> digit_in 8 (hd rest) = None) \<Longrightarrow> textValue 8 ds \<le> 0xFF \<Longrightarrow>
    charText (CHR 0x5C # ds) rest (char_of (textValue 8 ds))"
| ct_hex: "digits 16 ds \<Longrightarrow> rest = [] \<or> digit_in 16 (hd rest) = None \<Longrightarrow>
    textValue 16 ds mod 2 ^ 32 \<le> 0xFF \<Longrightarrow>
    charText (CHR 0x5C # CHR ''x'' # ds) rest (char_of (textValue 16 ds))"

inductive stringText :: "string \<Rightarrow> string \<Rightarrow> bool" where
  st_nil: "stringText [] []"
| st_cons: "charText e rest c \<Longrightarrow> stringText rest out \<Longrightarrow> stringText (e @ rest) (c # out)"

lemma hexLoop_word:
  "hexLoop (word_of_nat n) d body =
     (let ds = takeWhile (\<lambda>c. digit_in 16 c \<noteq> None) body
      in (word_of_nat (foldl (\<lambda>v c. v * 16 + the (digit_in 16 c)) n ds), d + length ds,
          dropWhile (\<lambda>c. digit_in 16 c \<noteq> None) body))"
proof (induction body arbitrary: n d)
  case (Cons c body)
  show ?case
  proof (cases "0 \<le> hexValue c")
    case True
    then have d: "digit_in 16 c = Some (nat (hexValue c))" by (simp add: digit_in_16)
    have "(word_of_nat n :: u32) * 16 + word_of_int (hexValue c) = word_of_nat (n * 16 + nat (hexValue c))"
      using True by (simp add: of_nat_nat)
    then have st: "hexLoop (word_of_nat n) d (c # body) =
        hexLoop (word_of_nat (n * 16 + nat (hexValue c))) (Suc d) body"
      using True by (simp only: hexLoop.simps if_True)
    show ?thesis unfolding st Cons.IH by (simp add: d Let_def)
  qed (simp add: digit_in_16 [of c] Let_def)
qed (simp add: Let_def)

lemma octalLoop_word:
  "octalLoop k (word_of_nat n) body =
     (let ds = takeWhile (\<lambda>c. digit_in 8 c \<noteq> None) (take k body)
      in (word_of_nat (foldl (\<lambda>v c. v * 8 + the (digit_in 8 c)) n ds), drop (length ds) body))"
proof (induction k arbitrary: n body)
  case (Suc k)
  show ?case
  proof (cases body)
    case (Cons c b)
    show ?thesis
    proof (cases "isOctal c")
      case True
      let ?x = "schar c - schar CHR ''0''"
      from True have d: "digit_in 8 c = Some (nat ?x)" by (simp add: digit_in_8)
      have "(word_of_nat n :: u32) * 8 + word_of_int ?x = word_of_nat (n * 8 + nat ?x)"
        using True by (simp add: of_nat_nat isOctal_def)
      then have st: "octalLoop (Suc k) (word_of_nat n) (c # b) = octalLoop k (word_of_nat (n * 8 + nat ?x)) b"
        using True by (simp only: octalLoop.simps if_True)
      show ?thesis unfolding Cons st Suc.IH by (simp add: d Let_def)
    qed (simp add: Cons digit_in_8 [of c] Let_def)
  qed (simp add: Let_def)
qed (simp add: Let_def)

lemma char_of_word:
  "0xFF < (word_of_nat n :: u32) \<longleftrightarrow> 0xFF < n mod 2 ^ 32"
  "char_of_u32 (word_of_nat n) = char_of n"
proof -
  have u: "unat (word_of_nat n :: u32) = n mod 2 ^ 32"
    by (simp add: unat_of_nat take_bit_eq_mod)
  show "0xFF < (word_of_nat n :: u32) \<longleftrightarrow> 0xFF < n mod 2 ^ 32"
    unfolding word_less_nat_alt u by simp
  have "(256::nat) dvd 2 ^ 32" by (simp add: dvd_def)
  then have "n mod 2 ^ 32 mod 256 = n mod 256" by (rule mod_mod_cancel)
  then have "(char_of (n mod 2 ^ 32 mod 256) :: char) = char_of (n mod 256)" by (simp only:)
  then show "char_of_u32 (word_of_nat n) = char_of n"
    unfolding char_of_u32_def u by (simp only: char_of_mod_256)
qed

lemma simpleEscape_Some:
  assumes "simpleEscape e = Some c"
  shows "e \<noteq> CHR ''x'' \<and> digit_in 8 e = None"
proof -
  have "e \<in> set [CHR ''n'', CHR ''t'', CHR ''r'', CHR ''a'', CHR ''b'', CHR ''f'', CHR ''v'',
      CHR 0x5C, CHR 0x27, CHR 0x22, CHR ''?'']"
    using assms by (auto simp: simpleEscape_def split: if_splits)
  moreover have "list_all (\<lambda>e. e \<noteq> CHR ''x'' \<and> \<not> isOctal e) [CHR ''n'', CHR ''t'', CHR ''r'', CHR ''a'',
      CHR ''b'', CHR ''f'', CHR ''v'', CHR 0x5C, CHR 0x27, CHR 0x22, CHR ''?'']"
    by (simp add: isOctal_def schar_def byte_def)
  ultimately show ?thesis by (auto simp: digit_in_8)
qed

lemma decodeOne_simple:
  "simpleEscape e = Some c \<Longrightarrow> decodeOne (CHR 0x5C # e # body) = (Inr c, body)"
  by simp

lemma decodeOne_hex:
  "decodeOne (CHR 0x5C # CHR ''x'' # body) =
     (let ds = takeWhile (\<lambda>c. digit_in 16 c \<noteq> None) body;
          rest = dropWhile (\<lambda>c. digit_in 16 c \<noteq> None) body
      in if ds = [] then (Inl ([CHR 0x5C] @ ''x used with no following hex digits''), rest)
         else if 0xFF < textValue 16 ds mod 2 ^ 32 then (Inl ''hex escape sequence out of range'', rest)
         else (Inr (char_of (textValue 16 ds)), rest))"
proof -
  have "simpleEscape CHR ''x'' = None" by (simp add: simpleEscape_def)
  moreover note hexLoop_word [of 0 0 body] char_of_word
  ultimately show ?thesis by (simp add: Let_def textValue_foldl)
qed

lemma decodeOne_octal:
  assumes "digit_in 8 e \<noteq> None"
  shows "decodeOne (CHR 0x5C # e # body) =
     (let ds = e # takeWhile (\<lambda>c. digit_in 8 c \<noteq> None) (take 2 body); rest = drop (length ds - 1) body
      in if 0xFF < textValue 8 ds then (Inl ''octal escape sequence out of range'', rest)
         else (Inr (char_of (textValue 8 ds)), rest))"
proof -
  let ?ds = "takeWhile (\<lambda>c. digit_in 8 c \<noteq> None) (take 2 body)"
  have e: "isOctal e" using assms by (simp add: digit_in_8 split: if_splits)
  have e': "e \<noteq> CHR ''x''" "simpleEscape e = None"
    using e simpleEscape_Some [of e] assms
    by (auto simp: isOctal_def schar_def byte_def) (metis option.exhaust)
  have "list_all (\<lambda>c. digit_in 8 c \<noteq> None) (e # ?ds)"
    using assms by (auto simp: list_all_iff dest: set_takeWhileD)
  from textValue_less [OF this] have "textValue 8 (e # ?ds) < 8 ^ length (e # ?ds)" by simp
  also have "length (e # ?ds) \<le> 3"
    using length_takeWhile_le [of "\<lambda>c. digit_in 8 c \<noteq> None" "take 2 body"] by simp
  then have "(8::nat) ^ length (e # ?ds) \<le> 8 ^ 3" by (intro power_increasing) simp_all
  finally have small: "textValue 8 (e # ?ds) < 2 ^ 32" by simp
  have "(word_of_int (schar e - schar CHR ''0'') :: u32) = word_of_nat (the (digit_in 8 e))"
    using e by (simp add: digit_in_8 isOctal_def of_nat_nat)
  with e e' octalLoop_word [of 2 "the (digit_in 8 e)" body] char_of_word [of "textValue 8 (e # ?ds)"] small
  show ?thesis by (simp add: Let_def textValue_foldl)
qed

lemma takeWhile_take_split:
  "length (takeWhile P (take n xs)) = n \<or> drop (length (takeWhile P (take n xs))) xs = [] \<or>
     \<not> P (hd (drop (length (takeWhile P (take n xs))) xs))"
  "takeWhile P (take n xs) @ drop (length (takeWhile P (take n xs))) xs = xs"
  by (induction n arbitrary: xs) (case_tac [!] xs, auto)

lemma takeWhile_take_prefix:
  "list_all P ds \<Longrightarrow> length ds \<le> n \<Longrightarrow> length ds = n \<or> rest = [] \<or> \<not> P (hd rest) \<Longrightarrow>
     takeWhile P (take n (ds @ rest)) = ds"
proof (induction ds arbitrary: n)
  case Nil
  then show ?case by (cases n; cases rest) auto
next
  case (Cons d ds)
  then show ?case by (cases n) auto
qed

lemma charText_decodeOne: "charText e rest c \<Longrightarrow> e \<noteq> [] \<and> decodeOne (e @ rest) = (Inr c, rest)"
proof (induction rule: charText.induct)
  case (ct_octal ds rest)
  then obtain d ds' where ds: "ds = d # ds'" "digit_in 8 d \<noteq> None" "list_all (\<lambda>c. digit_in 8 c \<noteq> None) ds'"
    by (cases ds) (auto simp: digits_def)
  have "takeWhile (\<lambda>c. digit_in 8 c \<noteq> None) (take 2 (ds' @ rest)) = ds'"
    using ct_octal(2,3) ds by (intro takeWhile_take_prefix) auto
  with decodeOne_octal [OF ds(2), of "ds' @ rest"] ct_octal(4) ds(1) show ?case
    by (simp add: Let_def del: decodeOne.simps)
next
  case (ct_hex ds rest)
  have "takeWhile (\<lambda>c. digit_in 16 c \<noteq> None) (ds @ rest) = ds"
    "dropWhile (\<lambda>c. digit_in 16 c \<noteq> None) (ds @ rest) = rest"
    using takeWhile_munch [of "\<lambda>c. digit_in 16 c \<noteq> None" ds rest] ct_hex(1,2) by (auto simp: digits_def)
  with decodeOne_hex [of "ds @ rest"] ct_hex(1,3) show ?case
    by (simp add: Let_def digits_def del: decodeOne.simps)
qed (simp_all add: decodeOne_simple del: decodeOne.simps(1), simp)

lemma decodeOne_charText:
  assumes "decodeOne (c # body) = (Inr x, rest)"
  shows "\<exists>e. c # body = e @ rest \<and> charText e rest x"
proof (cases "c = CHR 0x5C")
  case False
  with assms show ?thesis by (intro exI [of _ "[c]"]) (auto intro: ct_plain)
next
  case True
  with assms obtain e b where b: "body = e # b" by (cases body) auto
  consider r where "simpleEscape e = Some r" | "simpleEscape e = None" "e = CHR ''x''"
    | "simpleEscape e = None" "e \<noteq> CHR ''x''" "digit_in 8 e \<noteq> None"
    | "simpleEscape e = None" "e \<noteq> CHR ''x''" "digit_in 8 e = None"
    by (cases "simpleEscape e") blast+
  then show ?thesis
  proof cases
    case 1
    with assms True b show ?thesis
      by (intro exI [of _ "[c, e]"]) (auto intro: ct_simple)
  next
    case 2
    let ?ds = "takeWhile (\<lambda>c. digit_in 16 c \<noteq> None) b" and ?r = "dropWhile (\<lambda>c. digit_in 16 c \<noteq> None) b"
    have ok: "?ds \<noteq> []" "textValue 16 ?ds mod 2 ^ 32 \<le> 0xFF" "rest = ?r" "x = char_of (textValue 16 ?ds)"
      using assms [unfolded True b 2 decodeOne_hex] by (simp_all add: Let_def split: if_splits)
    have "charText (CHR 0x5C # CHR ''x'' # ?ds) ?r (char_of (textValue 16 ?ds))"
    proof (rule ct_hex)
      show "digits 16 ?ds" using ok(1) by (auto simp: digits_def list_all_iff dest: set_takeWhileD)
      show "?r = [] \<or> digit_in 16 (hd ?r) = None" 
        using hd_dropWhile [of "\<lambda>c. digit_in 16 c \<noteq> None" b] by blast
    qed (rule ok(2))
    with ok True b 2 show ?thesis
      by (intro exI [of _ "CHR 0x5C # CHR ''x'' # ?ds"]) simp
  next
    case 3
    let ?P = "\<lambda>c. digit_in 8 c \<noteq> None"
    let ?ds = "takeWhile ?P (take 2 b)"
    let ?r = "drop (length ?ds) b"
    have ok: "textValue 8 (e # ?ds) \<le> 0xFF" "rest = ?r" "x = char_of (textValue 8 (e # ?ds))"
      using assms [unfolded True b decodeOne_octal [OF 3(3)]] by (simp_all add: Let_def split: if_splits)
    have "charText (CHR 0x5C # e # ?ds) ?r (char_of (textValue 8 (e # ?ds)))"
    proof (rule ct_octal)
      show "digits 8 (e # ?ds)" using 3(3) by (auto simp: digits_def list_all_iff dest: set_takeWhileD)
      show "length (e # ?ds) \<le> 3" using length_takeWhile_le [of ?P "take 2 b"] by simp
      show "length (e # ?ds) = 3 \<or> ?r = [] \<or> digit_in 8 (hd ?r) = None"
        using takeWhile_take_split(1) [of ?P 2 b] by auto
    qed (rule ok(1))
    with ok True b takeWhile_take_split(2) [of ?P 2 b] show ?thesis
      by (intro exI [of _ "CHR 0x5C # e # ?ds"]) simp
  next
    case 4
    then have "\<not> isOctal e" by (simp add: digit_in_8 split: if_splits)
    with assms True b 4 show ?thesis by simp
  qed
qed

lemma charText_not_Nil: "charText e rest c \<Longrightarrow> e \<noteq> []"
  using charText_decodeOne by blast

lemma decodeAll_stringText: "stringText body out \<Longrightarrow> decodeAll acc body = Inr (acc @ out)"
proof (induction arbitrary: acc rule: stringText.induct)
  case (st_cons e rest c out)
  from charText_decodeOne [OF st_cons.hyps(1)] obtain a e' where
    "e = a # e'" "decodeOne (a # e' @ rest) = (Inr c, rest)" by (cases e) auto
  with st_cons.IH [of "acc @ [c]"] show ?case by (simp del: decodeOne.simps)
qed simp

lemma stringText_decodeAll: "decodeAll acc body = Inr res \<Longrightarrow> \<exists>out. res = acc @ out \<and> stringText body out"
proof (induction acc body rule: decodeAll.induct)
  case (2 acc c body)
  from 2(2) obtain x rest where d: "decodeOne (c # body) = (Inr x, rest)"
    "decodeAll (acc @ [x]) rest = Inr res"
    by (auto simp del: decodeOne.simps split: sum.splits prod.splits)
  from decodeOne_charText [OF d(1)] obtain e where e: "c # body = e @ rest" "charText e rest x" by blast
  from 2(1) d obtain out where "res = (acc @ [x]) @ out" "stringText rest out"
    by (metis (no_types, lifting))
  with e show ?case by (intro exI [of _ "x # out"]) (simp add: st_cons)
qed (auto intro: st_nil)

lemma quotedInside_quoted [simp]: "quotedInside (a # body @ [b]) = body"
  by (simp add: quotedInside_def substr_def)

section \<open>Integer literals\<close>

text \<open>\<open>intText lit base s\<close>: \<open>lit\<close> is an integer literal, \<open>s\<close> its digits in base \<open>base\<close>.\<close>

inductive intText :: "string \<Rightarrow> nat \<Rightarrow> string \<Rightarrow> bool" where
  int_hex: "digits 16 s \<Longrightarrow> x = CHR ''x'' \<or> x = CHR ''X'' \<Longrightarrow> intText (CHR ''0'' # x # s) 16 s"
| int_octal: "digits 8 s \<Longrightarrow> intText (CHR ''0'' # s) 8 s"
| int_decimal: "digits 10 s \<Longrightarrow> hd s \<noteq> CHR ''0'' \<or> length s = 1 \<Longrightarrow> intText s 10 s"

lemma x_not_octal: "digit_in 8 CHR ''x'' = None" "digit_in 8 CHR ''X'' = None"
  by (simp_all add: digit_in_8 isOctal_def schar_def byte_def)

abbreviation digitRun :: "nat \<Rightarrow> string \<Rightarrow> string" where
  "digitRun base s \<equiv> takeWhile (\<lambda>c. digit_in base c \<noteq> None) s"

lemma from_chars_u64_run:
  "from_chars_u64 base s =
     (if digitRun base s = [] then Invalid_argument
      else if 2 ^ 64 \<le> textValue base (digitRun base s) then Out_of_range
      else Converted (word_of_nat (textValue base (digitRun base s))) (drop (length (digitRun base s)) s))"
  by (simp add: from_chars_u64_def Let_def textValue_def)

lemma digitRun_digits:
  assumes "digits base s"
  shows "digitRun base s = s"
  using assms by (simp add: digits_def list_all_iff takeWhile_eq_all_conv)

lemma digitRun_all:
  assumes "drop (length (digitRun base s)) s = []"
  shows "digitRun base s = s"
  using assms takeWhile_eq_take [of "\<lambda>c. digit_in base c \<noteq> None" s] by simp

lemma from_chars_u64_digits:
  "digits base s \<Longrightarrow> from_chars_u64 base s =
     (if 2 ^ 64 \<le> textValue base s then Out_of_range else Converted (word_of_nat (textValue base s)) [])"
  unfolding from_chars_u64_run by (simp only: digitRun_digits) (simp add: digits_def)

lemma from_chars_u64_all:
  assumes "from_chars_u64 base s = Converted v []"
  shows "digits base s \<and> textValue base s < 2 ^ 64 \<and> v = word_of_nat (textValue base s)"
proof -
  let ?r = "digitRun base s"
  from assms have r: "?r \<noteq> []" "\<not> 2 ^ 64 \<le> textValue base ?r" "v = word_of_nat (textValue base ?r)"
    and rest: "drop (length ?r) s = []"
    unfolding from_chars_u64_run by (simp_all only: split: if_splits) simp_all
  from digitRun_all [OF rest] have eq: "?r = s" .
  then have "\<forall>c \<in> set s. digit_in base c \<noteq> None"
    unfolding takeWhile_eq_all_conv .
  with r show ?thesis unfolding eq by (simp add: digits_def list_all_iff)
qed

lemma intText_shape:
  assumes "intText lit base s"
  shows "intShape lit = (base, s) \<and> digits base s"
  using assms
proof (induction rule: intText.induct)
  case (int_hex s x)
  then show ?case by (auto simp: intShape_def digits_def neq_Nil_conv)
next
  case (int_octal s)
  then show ?case using x_not_octal by (auto simp: intShape_def digits_def neq_Nil_conv)
next
  case (int_decimal s)
  then show ?case by (auto simp: intShape_def digits_def neq_Nil_conv)
qed

lemma shape_intText:
  assumes "intShape lit = (base, s)" "digits base s"
  shows "intText lit base s"
proof -
  consider x where "lit = CHR ''0'' # x # s" "x = CHR ''x'' \<or> x = CHR ''X''" "base = 16"
    | "lit = CHR ''0'' # s" "base = 8" | "lit = s" "base = 10" "hd s \<noteq> CHR ''0'' \<or> length s = 1"
    using assms
    by (cases lit; cases "tl lit") (auto simp: intShape_def digits_def split: if_splits)
  then show ?thesis using assms(2) by cases (auto intro: int_hex int_octal int_decimal)
qed

lemma parseIntLiteral_shape:
  "intShape lit = (base, s) \<Longrightarrow> parseIntLiteral lit =
     (case from_chars_u64 base s of
        Out_of_range \<Rightarrow> Inl ''integer literal is too large''
      | Invalid_argument \<Rightarrow> Inl (''invalid integer literal '' @ quoted_text lit)
      | Converted v rest \<Rightarrow>
          (if rest \<noteq> [] then Inl (''invalid integer literal '' @ quoted_text lit) else Inr v))"
  by (simp add: parseIntLiteral_def)

lemma parseIntLiteral_text:
  "intText lit base s \<Longrightarrow> parseIntLiteral lit =
     (if textValue base s < 2 ^ 64 then Inr (word_of_nat (textValue base s))
      else Inl ''integer literal is too large'')"
  using intText_shape [of lit base s] parseIntLiteral_shape [of lit base s] from_chars_u64_digits [of base s]
  by simp

lemma parseIntLiteral_value:
  assumes "parseIntLiteral lit = Inr v"
  shows "\<exists>base s. intText lit base s \<and> textValue base s < 2 ^ 64 \<and> v = word_of_nat (textValue base s)"
proof -
  obtain base s where sh: "intShape lit = (base, s)" by fastforce
  from assms have "from_chars_u64 base s = Converted v []"
    unfolding parseIntLiteral_shape [OF sh] by (simp split: from_chars.splits if_splits)
  from from_chars_u64_all [OF this] shape_intText [OF sh] show ?thesis by blast
qed

section \<open>Decimal text\<close>

lemma digit_char_value: "n < 10 \<Longrightarrow> digit_in 10 (digit_char n) = Some n"
  by (simp add: digit_in_def hexValue_def schar_def byte_digit_char) (simp add: byte_def)

lemma dec_value: "textValue 10 (dec n) = n \<and> digits 10 (dec n)"
proof (induction n rule: dec.induct)
  case (1 n)
  show ?case
  proof (cases "n < 10")
    case True
    then show ?thesis
      by (subst (1 2) dec.simps) (simp add: textValue_foldl digit_char_value digits_def)
  next
    case False
    with 1 show ?thesis
      by (subst (1 2) dec.simps) (simp add: textValue_snoc digit_char_value digits_def)
  qed
qed

lemma dec_leading: "hd (dec n) \<noteq> CHR ''0'' \<or> length (dec n) = 1"
proof (induction n rule: dec.induct)
  case (1 n)
  have zero: "digit_char m = CHR ''0'' \<longleftrightarrow> m = 0" if "m < 10" for m
    using that byte_digit_char [of m] byte_inject [of "digit_char m" "CHR ''0''"] by (simp add: byte_def)
  show ?case
  proof (cases "n < 10")
    case False
    then have "dec n = dec (n div 10) @ [digit_char (n mod 10)]" by (subst dec.simps) simp
    moreover have "hd (dec (n div 10)) \<noteq> CHR ''0''"
    proof (cases "n div 10 < 10")
      case True
      then show ?thesis using zero [of "n div 10"] False by (subst dec.simps) simp
    next
      case no: False
      then have "length (dec (n div 10)) \<noteq> 1"
        by (subst dec.simps) simp
      with 1 False show ?thesis by simp
    qed
    ultimately show ?thesis by simp
  qed (subst dec.simps, simp)
qed

lemma dec_intText: "intText (dec n) 10 (dec n)"
  using dec_value dec_leading by (auto intro: int_decimal)

section \<open>Printing strings\<close>

text \<open>
  \<open>quote\<close> prints NUL as \<open>\0\<close>, which a following octal digit would make longer; no other byte's
  text depends on what follows it.
\<close>

fun nulSafe :: "string \<Rightarrow> bool" where
  "nulSafe (c # d # bytes) \<longleftrightarrow> \<not> (c = nul \<and> isOctal d) \<and> nulSafe (d # bytes)"
| "nulSafe _ \<longleftrightarrow> True"

lemma quoteChar_hd: "quoteChar c \<noteq> []" "isOctal (hd (quoteChar c)) \<longleftrightarrow> isOctal c"
  by (auto simp: quoteChar_def isOctal_def schar_def byte_def)

lemma char_of_consts: "char_of (0::nat) = nul" "char_of (101::nat) = CHR ''e''"
  by code_simp+

lemma charText_nul:
  assumes "rest = [] \<or> \<not> isOctal (hd rest)"
  shows "charText [CHR 0x5C, CHR ''0''] rest nul"
proof -
  have d: "digit_in 8 CHR ''0'' = Some 0" by (simp add: digit_in_8 isOctal_def schar_def byte_def)
  then have "textValue 8 ''0'' = 0" by (simp add: textValue_foldl)
  moreover have "rest = [] \<or> digit_in 8 (hd rest) = None" using assms by (auto simp: digit_in_8)
  ultimately show ?thesis
    using ct_octal [of "''0''" rest] d by (simp add: digits_def char_of_consts)
qed

lemma quoteChar_charText:
  assumes "c = nul \<longrightarrow> rest = [] \<or> \<not> isOctal (hd rest)"
  shows "charText (quoteChar c) rest c"
proof (cases "c = nul")
  case True
  then show ?thesis using charText_nul assms by (simp add: quoteChar_def)
next
  case False
  then show ?thesis
    by (auto simp: quoteChar_def simpleEscape_def intro: ct_simple ct_plain)
qed

lemma quote_stringText: "nulSafe bytes \<Longrightarrow> stringText (concat (map quoteChar bytes)) bytes"
proof (induction bytes rule: nulSafe.induct)
  case (1 c d bytes)
  let ?rest = "concat (map quoteChar (d # bytes))"
  have "charText (quoteChar c) ?rest c"
    using 1 quoteChar_hd [of d] by (intro quoteChar_charText) auto
  with 1 show ?case using st_cons [of "quoteChar c" ?rest c "d # bytes"] by simp
next
  case "2_2"
  show ?case using st_cons [OF quoteChar_charText st_nil] by simp
qed (auto intro: st_nil)

text \<open>Where a NUL is followed by an octal digit, the quoted text decodes to a shorter string.\<close>

lemma octal_quoteChar: "isOctal c \<Longrightarrow> quoteChar c = [c]"
  by (auto simp: quoteChar_def isOctal_def schar_def byte_def)

lemma quoteChar_nul: "quoteChar nul = [CHR 0x5C, CHR ''0'']"
  by (simp add: quoteChar_def)

lemma stringText_front:
  assumes "charText e rest c" "stringText (e @ rest) out"
  obtains out' where "out = c # out'" "stringText rest out'"
proof -
  obtain a e' where e: "e = a # e'" using charText_not_Nil [OF assms(1)] by (cases e) auto
  have d: "decodeOne (e @ rest) = (Inr c, rest)" using charText_decodeOne [OF assms(1)] by simp
  have "decodeAll [] (e @ rest) = Inr out" using decodeAll_stringText [OF assms(2), of "[]"] by simp
  hence "decodeAll [c] rest = Inr out" using d e by (simp del: decodeOne.simps)
  thus thesis using stringText_decodeAll [of "[c]" rest out] that by auto
qed

lemma nul_octal_takes:
  assumes "isOctal d" "stringText (concat (map quoteChar (nul # d # bytes))) out"
  obtains c out' rest where "out = c # out'" "length rest \<le> length bytes" "stringText (concat (map quoteChar rest)) out'"
proof -
  let ?P = "\<lambda>c. digit_in 8 c \<noteq> None"
  let ?b = "d # concat (map quoteChar bytes)"
  have zero: "digit_in 8 CHR ''0'' \<noteq> None" by (simp add: digit_in_8 isOctal_def schar_def byte_def)
  have quoted: "concat (map quoteChar (nul # d # bytes)) = CHR 0x5C # CHR ''0'' # ?b"
    using octal_quoteChar [OF assms(1)] by (simp add: quoteChar_nul)
  define ds where "ds = takeWhile ?P (take 2 ?b)"
  obtain e where e: "charText e (drop (length ds) ?b) (char_of (textValue 8 (CHR ''0'' # ds)))" "e = CHR 0x5C # CHR ''0'' # ds"
  proof -
    have "decodeAll [] (CHR 0x5C # CHR ''0'' # ?b) = Inr out" using decodeAll_stringText [OF assms(2), of "[]"] unfolding quoted by simp
    hence "textValue 8 (CHR ''0'' # ds) \<le> 0xFF"
      unfolding decodeAll.simps decodeOne_octal [OF zero, of ?b] by (auto simp: Let_def ds_def split: if_splits)
    moreover have "digits 8 (CHR ''0'' # ds)" using zero by (auto simp: digits_def ds_def list_all_iff dest: set_takeWhileD)
    moreover have "length (CHR ''0'' # ds) \<le> 3" using length_takeWhile_le [of ?P "take 2 ?b"] by (simp add: ds_def)
    moreover have "length (CHR ''0'' # ds) = 3 \<or> drop (length ds) ?b = [] \<or> digit_in 8 (hd (drop (length ds) ?b)) = None"
      using takeWhile_take_split(1) [of ?P 2 ?b] by (auto simp: ds_def)
    ultimately show thesis using that ct_octal by blast
  qed
  have b: "?b = ds @ drop (length ds) ?b" using takeWhile_take_split(2) [of ?P 2 ?b] by (simp add: ds_def)
  have "e @ drop (length ds) ?b = concat (map quoteChar (nul # d # bytes))" unfolding quoted using b e(2) by simp
  hence "stringText (e @ drop (length ds) ?b) out" using assms(2) by (simp only:)
  then obtain out' where out: "out = char_of (textValue 8 (CHR ''0'' # ds)) # out'" "stringText (drop (length ds) ?b) out'"
    by (rule stringText_front [OF e(1)])
  have "\<exists>rest. length rest \<le> length bytes \<and> drop (length ds) ?b = concat (map quoteChar rest)"
  proof (cases "\<exists>x bs. bytes = x # bs \<and> isOctal x")
    case True
    then obtain x bs where x: "bytes = x # bs" "isOctal x" by blast
    hence "ds = [d, x]" using assms(1) octal_quoteChar by (simp add: ds_def digit_in_8)
    thus ?thesis using x octal_quoteChar by (intro exI [of _ bs]) simp
  next
    case False
    have "bytes = [] \<or> digit_in 8 (hd (concat (map quoteChar bytes))) = None"
      using False quoteChar_hd by (cases bytes) (auto simp: digit_in_8 hd_append)
    hence "ds = [d]" using assms(1) quoteChar_hd(1)
      by (cases "concat (map quoteChar bytes)") (auto simp: ds_def digit_in_8)
    thus ?thesis by (intro exI [of _ bytes]) simp
  qed
  thus thesis using that out by metis
qed

lemma quoted_shrinks:
  "stringText (concat (map quoteChar bytes)) out \<Longrightarrow> length out \<le> length bytes \<and> (length out = length bytes \<longrightarrow> nulSafe bytes)"
proof (induction bytes arbitrary: out rule: length_induct)
  case (1 bytes)
  show ?case
  proof (cases bytes)
    case Nil
    thus ?thesis using 1(2) by (auto elim: stringText.cases dest: charText_not_Nil)
  next
    case (Cons c bs)
    show ?thesis
    proof (cases "c = nul \<and> (\<exists>d bs'. bs = d # bs' \<and> isOctal d)")
      case True
      then obtain d bs' where d: "c = nul" "bs = d # bs'" "isOctal d" by blast
      hence "stringText (concat (map quoteChar (nul # d # bs'))) out" using 1(2) Cons by simp
      then obtain x out' rest where "out = x # out'" "length rest \<le> length bs'" "stringText (concat (map quoteChar rest)) out'"
        by (rule nul_octal_takes [OF d(3)])
      moreover have "length out' \<le> length rest" using 1(1) calculation Cons d by simp
      ultimately show ?thesis using Cons d by simp
    next
      case False
      have "c = nul \<longrightarrow> concat (map quoteChar bs) = [] \<or> \<not> isOctal (hd (concat (map quoteChar bs)))"
        using False quoteChar_hd by (cases bs) (auto simp: hd_append)
      hence "charText (quoteChar c) (concat (map quoteChar bs)) c" by (rule quoteChar_charText)
      moreover have "stringText (quoteChar c @ concat (map quoteChar bs)) out" using 1(2) Cons by simp
      ultimately obtain out' where o: "out = c # out'" "stringText (concat (map quoteChar bs)) out'" by (rule stringText_front)
      have "length out' \<le> length bs \<and> (length out' = length bs \<longrightarrow> nulSafe bs)" using 1(1) o(2) Cons by simp
      thus ?thesis using o(1) Cons False by (cases bs) auto
    qed
  qed
qed

lemma quote_quotedBody: "quotedBody CHR 0x22 (concat (map quoteChar bytes))"
  by (induction bytes) (auto simp: quoteChar_def intro: quotedBody.intros)

lemma quote_tokenizes:
  "tokenizes [] (quote bytes)
     [mkToken TK_StringLiteral (quote bytes) (SourceLocation 1 1), mkToken TK_Eof [] (locOf (quote bytes))]"
proof -
  have w: "quotedWord CHR 0x22 (quote bytes)"
    using quote_quotedBody by (auto simp: quotedWord_def quote_def)
  have "stops (quote bytes) []"
    using quote_classes [OF w] by (simp add: stops_def)
  moreover have "lexeme TK_StringLiteral (quote bytes)" using w by (simp add: lexeme_def)
  moreover have "tokenizes (quote bytes) [] [mkToken TK_Eof [] (locOf (quote bytes))]"
    using tok_eof [OF trivia_none, of "quote bytes"] by simp
  ultimately show ?thesis
    using tok_cons [where g = "[]" and w = "quote bytes" and rest = "[]" and k = TK_StringLiteral and pre = "[]"]
      trivia_none by (simp add: locOf_def)
qed

section \<open>Floating literals\<close>

lemma isDec_not: "\<not> isDec CHR ''.''" "\<not> isDec CHR ''e''" "\<not> isDec CHR ''E''" "\<not> isDec CHR ''f''" "\<not> isDec CHR ''F''" "\<not> isDec CHR ''-''" "\<not> isDec CHR ''+''"
  by (simp_all add: isDec_def digit_in_def hexValue_def schar_def byte_def)

lemma isDec_last: "list_all isDec ds \<Longrightarrow> ds \<noteq> [] \<Longrightarrow> last ds \<noteq> CHR ''f'' \<and> last ds \<noteq> CHR ''F''"
  using isDec_not(4,5) last_in_set [of ds] by (metis list_all_iff)

lemma isDec_takeWhile:
  "list_all isDec ds \<Longrightarrow> rest = [] \<or> \<not> isDec (hd rest) \<Longrightarrow>
     takeWhile isDec (ds @ rest) = ds \<and> drop (length ds) (ds @ rest) = rest"
  using takeWhile_munch [of isDec ds rest] by simp

text \<open>The text of an exponent: nothing, or a letter, an optional sign and digits.\<close>

inductive exponentText :: "string \<Rightarrow> int \<Rightarrow> bool" where
  exp_none: "exponentText [] 0"
| exp_some: "c = CHR ''e'' \<or> c = CHR ''E'' \<Longrightarrow> sign = [] \<or> sign = ''+'' \<or> sign = ''-'' \<Longrightarrow>
    ds \<noteq> [] \<Longrightarrow> list_all isDec ds \<Longrightarrow>
    exponentText (c # sign @ ds) (if sign = ''-'' then - int (decVal ds) else int (decVal ds))"

lemma exponentText_hd: "exponentText x e \<Longrightarrow> x = [] \<or> \<not> isDec (hd x) \<and> hd x \<noteq> CHR ''.''"
  using isDec_not by (auto simp: exponentText.simps)

lemma exponentPart_text: "exponentText x e \<Longrightarrow> exponentPart x = (e, [])"
proof (induction rule: exponentText.induct)
  case exp_none
  then show ?case by (simp add: exponentPart_def)
next
  case (exp_some c sign ds)
  have c: "lower c = CHR ''e''" using exp_some(1) by (auto simp: lower_def schar_def byte_def char_of_consts)
  have d: "isDec (hd ds)" using exp_some(3,4) by (cases ds) auto
  have hd: "hd ds \<noteq> CHR ''-'' \<and> hd ds \<noteq> CHR ''+''" using d isDec_not(6,7) by auto
  have t: "takeWhile isDec ds = ds" using isDec_takeWhile [OF exp_some(4), of "[]"] by simp
  from exp_some(2) show ?case
    using c hd t exp_some(3) by (elim disjE) (simp_all add: exponentPart_def Let_def del: takeWhile_eq_all_conv)
qed

lemma schar_consts:
  "schar CHR ''0'' = 48" "schar CHR ''9'' = 57" "schar CHR ''A'' = 65" "schar CHR ''F'' = 70" "schar CHR ''Z'' = 90"
  "schar CHR ''a'' = 97" "schar CHR ''f'' = 102"
  by (simp_all add: schar_def byte_def)

lemma schar_between: "0 < a \<Longrightarrow> b < 128 \<Longrightarrow> int a \<le> schar c \<and> schar c \<le> int b \<longleftrightarrow> a \<le> byte c \<and> byte c \<le> b"
  using byte_less [of c] by (simp add: schar_def)

lemma byte_lower: "byte (lower c) = (if 65 \<le> byte c \<and> byte c \<le> 90 then byte c + 32 else byte c)"
  using schar_between [of 65 90 c] by (simp add: lower_def schar_consts)

lemma lower_e: "lower c = CHR ''e'' \<longleftrightarrow> c = CHR ''e'' \<or> c = CHR ''E''"
proof -
  have "byte CHR ''e'' = 101" "byte CHR ''E'' = 69" by (simp_all add: byte_def)
  hence "byte (lower c) = byte CHR ''e'' \<longleftrightarrow> byte c = byte CHR ''e'' \<or> byte c = byte CHR ''E''" by (auto simp: byte_lower)
  thus ?thesis by (simp only: byte_inject)
qed

lemma isDec_schar: "isDec c \<longleftrightarrow> 48 \<le> schar c \<and> schar c \<le> 57"
  by (simp add: isDec_def digit_in_def hexValue_def schar_consts)

lemma isDigit_isDec: "isDigit c \<Longrightarrow> isDec c"
  by (simp add: isDigit_def isDec_schar schar_consts)

lemma special_start: "isDec (hd s) \<or> hd s = CHR ''.'' \<Longrightarrow> s \<noteq> [] \<Longrightarrow> from_chars_special neg s = Invalid_argument"
proof -
  assume h: "isDec (hd s) \<or> hd s = CHR ''.''" and "s \<noteq> []"
  then obtain c t where s: "s = c # t" by (cases s) auto
  have "byte CHR ''.'' = 46" by (simp add: byte_def)
  hence "byte c \<le> 57" using h s schar_between [of 48 57 c] by (auto simp: isDec_schar)
  hence "byte (lower c) \<le> 57" by (simp add: byte_lower)
  moreover have "byte CHR ''i'' = 105" "byte CHR ''n'' = 110" by (simp_all add: byte_def)
  ultimately have "lower c \<noteq> CHR ''i'' \<and> lower c \<noteq> CHR ''n''" by auto
  thus ?thesis using s by (simp add: from_chars_special_def starts_with_def Let_def)
qed

lemma exponentPart_exponentText: "exponentPart x = (e, []) \<Longrightarrow> exponentText x e"
proof -
  assume p: "exponentPart x = (e, [])"
  show ?thesis
  proof (cases x)
    case Nil
    thus ?thesis using p by (simp add: exponentPart_def exp_none)
  next
    case (Cons c t)
    define sign where "sign = (if t \<noteq> [] \<and> (hd t = CHR ''-'' \<or> hd t = CHR ''+'') then [hd t] else [])"
    define u where "u = (if t \<noteq> [] \<and> (hd t = CHR ''-'' \<or> hd t = CHR ''+'') then tl t else t)"
    have t: "t = sign @ u" by (cases t) (auto simp: sign_def u_def)
    have e: "lower c = CHR ''e''" "takeWhile isDec u \<noteq> []" "drop (length (takeWhile isDec u)) u = []"
      "e = (if t \<noteq> [] \<and> hd t = CHR ''-'' then - int (decVal (takeWhile isDec u)) else int (decVal (takeWhile isDec u)))"
      using p Cons by (auto simp: exponentPart_def Let_def u_def split: if_splits)
    have d: "takeWhile isDec u = u" using e(3) takeWhile_eq_take [of isDec u] by simp
    hence ds: "u \<noteq> []" "list_all isDec u" using e(2) by (auto simp: takeWhile_eq_all_conv list_all_iff)
    have "c = CHR ''e'' \<or> c = CHR ''E''" using lower_e e(1) by blast
    moreover have "sign = [] \<or> sign = ''+'' \<or> sign = ''-''" by (auto simp: sign_def)
    moreover have "e = (if sign = ''-'' then - int (decVal u) else int (decVal u))"
      using e(4) unfolding d by (auto simp: sign_def)
    ultimately show ?thesis using exp_some [OF _ _ ds, of c sign] Cons t by simp
  qed
qed

text \<open>
  \<open>decimalText body n e\<close>: the text of the number \<open>n * 10 ^ e\<close>, digits with a point somewhere and an
  exponent that may be missing, or digits without a point. A literal may end in \<open>f\<close> or \<open>F\<close>.
\<close>

inductive decimalText :: "string \<Rightarrow> nat \<Rightarrow> int \<Rightarrow> bool" where
  dt_point: "list_all isDec whole \<Longrightarrow> list_all isDec fraction \<Longrightarrow> whole \<noteq> [] \<or> fraction \<noteq> [] \<Longrightarrow> exponentText x e \<Longrightarrow>
    decimalText (whole @ ''.'' @ fraction @ x) (decVal (whole @ fraction)) (e - int (length fraction))"
| dt_whole: "list_all isDec whole \<Longrightarrow> whole \<noteq> [] \<Longrightarrow> exponentText x e \<Longrightarrow> decimalText (whole @ x) (decVal whole) e"

definition floatLiteral :: "string \<Rightarrow> nat \<Rightarrow> int \<Rightarrow> bool" where
  "floatLiteral lit n e \<longleftrightarrow> decimalText lit n e \<or> (\<exists>body. decimalText body n e \<and> (lit = body @ ''f'' \<or> lit = body @ ''F''))"

lemma decimalText_reads: "decimalText s n e \<Longrightarrow> from_chars_digits neg s = ranged n (fp_of_decimal neg n e) []"
proof (induction rule: decimalText.induct)
  case (dt_point whole fraction x e)
  have "takeWhile isDec (whole @ CHR ''.'' # fraction @ x) = whole"
    "drop (length whole) (whole @ CHR ''.'' # fraction @ x) = CHR ''.'' # fraction @ x"
    using isDec_takeWhile [OF dt_point(1), of "CHR ''.'' # fraction @ x"] isDec_not(1) by auto
  moreover have "takeWhile isDec (fraction @ x) = fraction" "drop (length fraction) (fraction @ x) = x"
    using isDec_takeWhile [OF dt_point(2), of x] exponentText_hd [OF dt_point(4)] by auto
  ultimately show ?case
    using dt_point(3) exponentPart_text [OF dt_point(4)] by (auto simp: from_chars_digits_def Let_def)
next
  case (dt_whole whole x e)
  have "takeWhile isDec (whole @ x) = whole" "drop (length whole) (whole @ x) = x" "\<not> (x \<noteq> [] \<and> hd x = CHR ''.'')"
    using isDec_takeWhile [OF dt_whole(1), of x] exponentText_hd [OF dt_whole(3)] by auto
  thus ?case using dt_whole(2) exponentPart_text [OF dt_whole(3)] by (auto simp: from_chars_digits_def Let_def)
qed

lemma ranged_Converted: "ranged n v rest = Converted w r \<Longrightarrow> w = v \<and> r = rest"
  by (auto simp: ranged_def split: fp.splits if_splits)

lemma reads_decimalText:
  assumes "from_chars_digits neg s = Converted v []"
  obtains n e where "decimalText s n e"
proof -
  define whole where "whole = takeWhile isDec s"
  define t where "t = drop (length whole) s"
  have s: "s = whole @ t" by (simp add: whole_def t_def flip: takeWhile_eq_take dropWhile_eq_drop)
  have w: "list_all isDec whole" by (auto simp: whole_def list_all_iff dest: set_takeWhileD)
  show thesis
  proof (cases "t \<noteq> [] \<and> hd t = CHR ''.''")
    case True
    define fraction where "fraction = takeWhile isDec (tl t)"
    define u where "u = drop (length fraction) (tl t)"
    have t: "t = ''.'' @ fraction @ u"
      using True by (cases t) (simp_all add: fraction_def u_def flip: takeWhile_eq_take dropWhile_eq_drop)
    have f: "list_all isDec fraction" by (auto simp: fraction_def list_all_iff dest: set_takeWhileD)
    obtain x r where e: "exponentPart u = (x, r)" by (cases "exponentPart u")
    have "(if whole = [] \<and> fraction = [] then Invalid_argument
        else ranged (decVal (whole @ fraction)) (fp_of_decimal neg (decVal (whole @ fraction)) (x - int (length fraction))) r) =
        Converted v []"
      using assms True e
      by (simp add: from_chars_digits_def Let_def whole_def [symmetric] t_def [symmetric] fraction_def [symmetric] u_def [symmetric]
          cong: if_cong del: drop_eq_Nil drop_eq_Nil2)
    hence x: "whole \<noteq> [] \<or> fraction \<noteq> []" "exponentPart u = (x, [])"
      using e by (auto split: if_splits dest: ranged_Converted)
    show thesis using that dt_point [OF w f x(1) exponentPart_exponentText [OF x(2)]] s t by simp
  next
    case False
    obtain x r where e: "exponentPart t = (x, r)" by (cases "exponentPart t")
    have "(if whole = [] then Invalid_argument else ranged (decVal whole) (fp_of_decimal neg (decVal whole) x) r) = Converted v []"
      using assms False e
      by (simp add: from_chars_digits_def Let_def whole_def [symmetric] t_def [symmetric] cong: if_cong del: drop_eq_Nil drop_eq_Nil2)
    hence x: "whole \<noteq> []" "exponentPart t = (x, [])" using e by (auto split: if_splits dest: ranged_Converted)
    show thesis using that dt_whole [OF w x(1) exponentPart_exponentText [OF x(2)]] s by simp
  qed
qed

lemma exponentText_last: "exponentText x e \<Longrightarrow> x \<noteq> [] \<Longrightarrow> last x \<noteq> CHR ''f'' \<and> last x \<noteq> CHR ''F''"
  by (induction rule: exponentText.induct) (auto dest: isDec_last)

lemma decimalText_last: "decimalText s n e \<Longrightarrow> s \<noteq> [] \<and> last s \<noteq> CHR ''f'' \<and> last s \<noteq> CHR ''F''"
proof (induction rule: decimalText.induct)
  case (dt_point whole fraction x e)
  show ?case
  proof (cases "x = []")
    case True
    thus ?thesis using isDec_last [OF dt_point(2)] by (cases "fraction = []") auto
  next
    case False
    thus ?thesis using exponentText_last [OF dt_point(4)] by simp
  qed
next
  case (dt_whole whole x e)
  thus ?case using exponentText_last [OF dt_whole(3)] isDec_last [OF dt_whole(1)] by (cases "x = []") auto
qed

text \<open>The suffix.\<close>

lemma floatBody_last:
  "w \<noteq> [] \<Longrightarrow> last w \<noteq> CHR ''f'' \<Longrightarrow> last w \<noteq> CHR ''F'' \<Longrightarrow> floatBody w = w"
  "floatBody (w @ ''f'') = w" "floatBody (w @ ''F'') = w"
proof -
  have ends: "ends_with (s @ [c]) [d] \<longleftrightarrow> c = d" for s :: string and c d by (simp add: ends_with_def)
  show "floatBody w = w" if "w \<noteq> []" "last w \<noteq> CHR ''f''" "last w \<noteq> CHR ''F''"
  proof -
    have "w = butlast w @ [last w]" using that(1) by simp
    hence "\<not> ends_with w ''f'' \<and> \<not> ends_with w ''F''" using that(2,3) ends by metis
    thus ?thesis by (simp add: floatBody_def)
  qed
  show "floatBody (w @ ''f'') = w" "floatBody (w @ ''F'') = w" by (simp_all add: floatBody_def ends)
qed

lemma floatLiteral_body: "floatLiteral lit n e \<longleftrightarrow> decimalText (floatBody lit) n e"
proof
  assume "floatLiteral lit n e"
  thus "decimalText (floatBody lit) n e"
    using decimalText_last floatBody_last by (auto simp: floatLiteral_def)
next
  assume d: "decimalText (floatBody lit) n e"
  show "floatLiteral lit n e"
  proof (cases "ends_with lit ''f'' \<or> ends_with lit ''F''")
    case True
    hence "lit \<noteq> [] \<and> (last lit = CHR ''f'' \<or> last lit = CHR ''F'')"
      by (cases lit rule: rev_cases) (auto simp: ends_with_def starts_with_def)
    then obtain b where "lit = b @ ''f'' \<or> lit = b @ ''F''" by (metis append_butlast_last_id)
    thus ?thesis using d floatBody_last(2,3) by (auto simp: floatLiteral_def)
  next
    case False
    thus ?thesis using d by (simp add: floatBody_def floatLiteral_def)
  qed
qed

text \<open>A value that is neither an overflow nor a nonzero number that vanished.\<close>

definition representable :: "nat \<Rightarrow> fp \<Rightarrow> bool" where
  "representable n v \<longleftrightarrow> (case v of FFin s m e \<Rightarrow> m \<noteq> 0 \<or> n = 0 | FInf s \<Rightarrow> False | FNaN \<Rightarrow> True)"

text \<open>A text that starts with a digit or a point and a digit is not read as an infinity or a NaN.\<close>

lemma parseFloat_digits:
  assumes "numberStart lit" "parseFloatLiteral lit = Inr v"
  shows "from_chars_digits False (floatBody lit) = Converted v []"
proof -
  let ?b = "floatBody lit"
  have c: "from_chars_double ?b = Converted v []"
    using assms(2) by (auto simp: parseFloatLiteral_def split: from_chars.splits if_splits)
  hence "?b \<noteq> []" by (auto simp: from_chars_double_def from_chars_digits_def from_chars_special_def starts_with_def)
  hence hd: "hd ?b = hd lit" by (cases lit rule: rev_cases) (auto simp: floatBody_def hd_append)
  have h: "isDec (hd lit) \<or> hd lit = CHR ''.''"
    using assms(1) isDigit_isDec by (auto simp: numberStart_def)
  hence "hd ?b \<noteq> CHR ''-''" using isDec_not hd by auto
  moreover have "from_chars_special False ?b = Invalid_argument"
    using h hd \<open>?b \<noteq> []\<close> special_start by auto
  ultimately show ?thesis using c by (auto simp: from_chars_double_def Let_def split: from_chars.splits)
qed

lemma decimalText_start: "decimalText s n e \<Longrightarrow> hd s \<noteq> CHR ''-''"
  by (induction rule: decimalText.induct) (auto simp: isDec_not neq_Nil_conv Cons_eq_append_conv hd_append)

section \<open>The properties of the literals\<close>

declare decodeOne.simps [simp del]

text \<open>
  C28: A quoted string literal decodes to \<open>out\<close> exactly when its inside is a text of \<open>out\<close>: plain
  bytes, single-character escapes, octal escapes of up to three digits, and hexadecimal escapes,
  each as long as it can be and not above 255 (hexadecimal values are taken modulo \<open>2 ^ 32\<close>).
\<close>

theorem string_literal_meaning:
  "parseStringLiteral (a # body @ [b]) = Inr out \<longleftrightarrow> stringText body out"
  unfolding parseStringLiteral_def quotedInside_quoted
  using decodeAll_stringText [of body out "[]"] stringText_decodeAll [of "[]" body out] by auto

text \<open>C33: A character literal decodes to \<open>c\<close> exactly when its inside is one text of \<open>c\<close>.\<close>

theorem char_literal_meaning:
  "parseCharLiteral (a # body @ [b]) = Inr c \<longleftrightarrow> charText body [] c"
proof
  assume "parseCharLiteral (a # body @ [b]) = Inr c"
  then have "body \<noteq> []" "decodeOne body = (Inr c, [])"
    unfolding parseCharLiteral_def quotedInside_quoted Let_def
    by (auto split: if_splits sum.splits prod.splits)
  then show "charText body [] c" using decodeOne_charText [of _ _ c "[]"] by (cases body) auto
next
  assume "charText body [] c"
  from charText_decodeOne [OF this] show "parseCharLiteral (a # body @ [b]) = Inr c"
    by (simp add: parseCharLiteral_def)
qed

text \<open>
  C29: An integer literal has the value \<open>v\<close> exactly when it is a decimal, octal or hexadecimal
  literal whose digits denote \<open>v\<close> in its base, below \<open>2 ^ 64\<close>.
\<close>

theorem int_literal_meaning:
  "parseIntLiteral lit = Inr v \<longleftrightarrow>
     (\<exists>base s. intText lit base s \<and> textValue base s < 2 ^ 64 \<and> v = word_of_nat (textValue base s))"
  using parseIntLiteral_text parseIntLiteral_value by auto

text \<open>
  C31: Reading back a printed number: the decimal text of \<open>n\<close> parses to \<open>n\<close> when it fits 64 bits
  and is reported as too large when it does not.
\<close>

theorem int_literal_roundtrip:
  "parseIntLiteral (dec n) =
     (if n < 2 ^ 64 then Inr (word_of_nat n) else Inl ''integer literal is too large'')"
  using parseIntLiteral_text [OF dec_intText, of n] dec_value [of n] by simp

text \<open>
  C30: A string as the dumper quotes it is one string literal token of the lexer, on one line, whatever
  its bytes are; and the token decodes to the string again exactly when no NUL in the string is followed
  by an octal digit, which the escape of the NUL would take.
\<close>

theorem quote_roundtrip:
  "lex (quote bytes) =
      Inr [mkToken TK_StringLiteral (quote bytes) (SourceLocation 1 1), mkToken TK_Eof [] (locOf (quote bytes))] \<and>
    (parseStringLiteral (quote bytes) = Inr bytes \<longleftrightarrow> nulSafe bytes)"
proof
  show "lex (quote bytes) = Inr [mkToken TK_StringLiteral (quote bytes) (SourceLocation 1 1),
      mkToken TK_Eof [] (locOf (quote bytes))]"
    using quote_tokenizes lex_tokenizes by blast
  have p: "parseStringLiteral (quote bytes) = decodeAll [] (concat (map quoteChar bytes))"
    by (simp add: parseStringLiteral_def quote_def)
  show "parseStringLiteral (quote bytes) = Inr bytes \<longleftrightarrow> nulSafe bytes"
  proof
    assume "nulSafe bytes"
    thus "parseStringLiteral (quote bytes) = Inr bytes"
      using decodeAll_stringText [OF quote_stringText, of bytes "[]"] p by simp
  next
    assume "parseStringLiteral (quote bytes) = Inr bytes"
    hence "stringText (concat (map quoteChar bytes)) bytes" using stringText_decodeAll [of "[]" _ bytes] p by simp
    thus "nulSafe bytes" using quoted_shrinks [of bytes bytes] by blast
  qed
qed

lemma quote_roundtrip_witness:
  "parseStringLiteral [CHR 0x22, CHR ''a'', CHR 0x5C, CHR ''n'', CHR 0x22] = Inr [CHR ''a'', newline] \<and>
   parseStringLiteral (quote [nul, CHR ''7'']) \<noteq> Inr [nul, CHR ''7'']"
  using quote_roundtrip [of "[CHR ''a'', newline]"] quote_roundtrip [of "[nul, CHR ''7'']"]
  by (simp add: quote_def quoteChar_def isOctal_def schar_def byte_def)

text \<open>
  A hexadecimal escape is range-checked only after its value was accumulated in an
  \<open>unsigned\<close>, so an escape whose value is 1 above \<open>2 ^ 32\<close> times a small number is accepted.
\<close>

theorem hex_escape_wraps:
  "textValue 16 ''100000041'' = 2 ^ 32 + 0x41 \<and>
   parseCharLiteral (CHR 0x27 # CHR 0x5C # ''x100000041'' @ [CHR 0x27]) = Inr CHR ''A''"
proof
  show "textValue 16 ''100000041'' = 2 ^ 32 + 0x41"
    by (simp add: textValue_foldl digit_in_16 hexValue_def schar_def byte_def)
  show "parseCharLiteral (CHR 0x27 # CHR 0x5C # ''x100000041'' @ [CHR 0x27]) = Inr CHR ''A''"
    by code_simp
qed

text \<open>
  C32: A floating literal is a decimal number, with a point, an exponent, both or neither, and
  maybe a suffix \<open>f\<close>. A text that starts as the lexer's numbers do is accepted with the value \<open>v\<close>
  exactly when it is such a literal and \<open>v\<close> is its correctly rounded value, which neither overflows
  nor vanishes; a literal whose value does is reported as out of range.
\<close>

theorem float_literal_meaning:
  assumes "numberStart lit"
  shows "(parseFloatLiteral lit = Inr v \<longleftrightarrow>
      (\<exists>n e. floatLiteral lit n e \<and> v = fp_of_decimal False n e \<and> representable n v)) \<and>
    (\<forall>n e. floatLiteral lit n e \<and> \<not> representable n (fp_of_decimal False n e) \<longrightarrow>
      parseFloatLiteral lit = Inl ''floating literal is out of range'')"
proof -
  let ?b = "floatBody lit"
  have read: "parseFloatLiteral lit = (if representable n (fp_of_decimal False n e)
      then Inr (fp_of_decimal False n e) else Inl ''floating literal is out of range'')" if f: "floatLiteral lit n e" for n e
  proof -
    have d: "decimalText ?b n e" using f floatLiteral_body by blast
    have "from_chars_double ?b = ranged n (fp_of_decimal False n e) []"
      using decimalText_reads [OF d, of False] decimalText_start [OF d]
      by (simp add: from_chars_double_def Let_def ranged_def split: fp.split)
    thus ?thesis by (auto simp: parseFloatLiteral_def ranged_def representable_def split: fp.split)
  qed
  have "\<exists>n e. floatLiteral lit n e" if "parseFloatLiteral lit = Inr v"
    using parseFloat_digits [OF assms that] floatLiteral_body reads_decimalText by metis
  moreover have "parseFloatLiteral lit = Inr v \<longleftrightarrow> v = fp_of_decimal False n e \<and> representable n v" if "floatLiteral lit n e" for n e
    using read [OF that] by auto
  ultimately show ?thesis using read by metis
qed

lemma float_literal_meaning_witness:
  "parseFloatLiteral ''2.5f'' = Inr (FFin False 5629499534213120 (-51)) \<and>
   parseFloatLiteral ''25e-1'' = Inr (FFin False 5629499534213120 (-51))"
proof -
  have d: "digit_in 10 CHR ''2'' = Some 2" "digit_in 10 CHR ''5'' = Some 5" "digit_in 10 CHR ''1'' = Some 1"
    by (simp_all add: digit_in_def hexValue_def schar_def byte_def)
  have n: "decVal ''25'' = 25" "decVal ''1'' = 1" using d by (simp_all add: decVal_def horner_def)
  have v: "fp_of_decimal False 25 (-1) = FFin False 5629499534213120 (-51)"
    by (simp add: fp_of_decimal_def round_fp_def exponent_for_def bitlen.simps scale_def binary64_def
        round_even_def)
  have "decimalText ''2.5'' 25 (-1)" using dt_point [of "''2''" "''5''" "[]" 0] d exp_none by (simp add: isDec_def n)
  hence a: "floatLiteral ''2.5f'' 25 (-1)" by (auto simp: floatLiteral_def)
  have "exponentText ''e-1'' (-1)" using exp_some [of "CHR ''e''" "''-''" "''1''"] d by (simp add: isDec_def n)
  hence b: "floatLiteral ''25e-1'' 25 (-1)" using dt_whole [of "''25''" "''e-1''" "-1"] d by (simp add: floatLiteral_def isDec_def n)
  have s: "numberStart ''2.5f''" "numberStart ''25e-1''" by (simp_all add: numberStart_def isDigit_def schar_def byte_def)
  let ?v = "FFin False 5629499534213120 (-51)"
  have "\<exists>n e. floatLiteral ''2.5f'' n e \<and> ?v = fp_of_decimal False n e \<and> representable n ?v"
    by (intro exI [of _ 25] exI [of _ "-1"]) (simp add: a v representable_def)
  moreover have "\<exists>n e. floatLiteral ''25e-1'' n e \<and> ?v = fp_of_decimal False n e \<and> representable n ?v"
    by (intro exI [of _ 25] exI [of _ "-1"]) (simp add: b v representable_def)
  ultimately show ?thesis
    using float_literal_meaning [OF s(1), of ?v] float_literal_meaning [OF s(2), of ?v] by blast
qed

end
