(* ===== verification/Types.thy ===== *)
theory Types
  imports Prelude
begin

text \<open>
  \<open>lib/AST/Type.cpp\<close> and \<open>Type.h\<close>. The compiler's phases see a type through a \<open>const Type *\<close>
  whose identity is its structure, so \<open>ty\<close> is the structure; that the two agree is the
  uniquing property of \<open>TypeContext\<close>, modelled in the second half of the theory with an
  explicit storage and the three maps.
\<close>

section \<open>Types\<close>

datatype ty =
    VoidTy | CharTy | IntTy | FloatTy
  | PointerTy (pointee: ty)
  | ArrayTy (element: ty) (array_length: u64)
  | FunctionTy (returnType: ty) (params: "ty list") (variadic: bool)

fun isVoid :: "ty \<Rightarrow> bool" where
  "isVoid VoidTy \<longleftrightarrow> True" | "isVoid _ \<longleftrightarrow> False"

fun isInteger :: "ty \<Rightarrow> bool" where
  "isInteger CharTy \<longleftrightarrow> True" | "isInteger IntTy \<longleftrightarrow> True" | "isInteger _ \<longleftrightarrow> False"

definition isArithmetic :: "ty \<Rightarrow> bool" where
  "isArithmetic t \<longleftrightarrow> isInteger t \<or> t = FloatTy"

fun isPointer :: "ty \<Rightarrow> bool" where
  "isPointer (PointerTy _) \<longleftrightarrow> True" | "isPointer _ \<longleftrightarrow> False"

definition isScalar :: "ty \<Rightarrow> bool" where
  "isScalar t \<longleftrightarrow> isArithmetic t \<or> isPointer t"

fun isArray :: "ty \<Rightarrow> bool" where
  "isArray (ArrayTy _ _) \<longleftrightarrow> True" | "isArray _ \<longleftrightarrow> False"

fun isFunction :: "ty \<Rightarrow> bool" where
  "isFunction (FunctionTy _ _ _) \<longleftrightarrow> True" | "isFunction _ \<longleftrightarrow> False"

lemma isPointer_iff: "isPointer t \<longleftrightarrow> (\<exists>p. t = PointerTy p)"
  and isArray_iff: "isArray t \<longleftrightarrow> (\<exists>e n. t = ArrayTy e n)"
  and isFunction_iff: "isFunction t \<longleftrightarrow> (\<exists>r ps v. t = FunctionTy r ps v)"
  and isVoid_iff: "isVoid t \<longleftrightarrow> t = VoidTy"
  and isInteger_iff: "isInteger t \<longleftrightarrow> t = CharTy \<or> t = IntTy"
  by (cases t; simp)+

text \<open>The size in bytes; the product is one of \<open>std::uint64_t\<close>.\<close>

fun type_size :: "ty \<Rightarrow> u64 option" where
  "type_size CharTy = Some 1"
| "type_size IntTy = Some 4"
| "type_size FloatTy = Some 4"
| "type_size (PointerTy _) = Some 8"
| "type_size (ArrayTy e n) =
     (case type_size e of
        None \<Rightarrow> None
      | Some s \<Rightarrow> (if n = 0 then None else Some (s * n)))"
| "type_size VoidTy = None"
| "type_size (FunctionTy _ _ _) = None"

section \<open>Spelling\<close>

definition joinDeclarator :: "string \<Rightarrow> string \<Rightarrow> string" where
  "joinDeclarator base inner =
     (if inner = [] then base
      else if hd inner = CHR ''['' \<or> hd inner = CHR ''('' then base @ inner
      else base @ '' '' @ inner)"

fun spell :: "ty \<Rightarrow> string \<Rightarrow> string" where
  "spell VoidTy inner = joinDeclarator ''void'' inner"
| "spell CharTy inner = joinDeclarator ''char'' inner"
| "spell IntTy inner = joinDeclarator ''int'' inner"
| "spell FloatTy inner = joinDeclarator ''float'' inner"
| "spell (PointerTy p) inner =
     (if isArray p \<or> isFunction p then spell p (''(*'' @ inner @ '')'') else spell p (''*'' @ inner))"
| "spell (ArrayTy e n) inner =
     spell e (if n = 0 then inner @ ''[]'' else inner @ ''['' @ dec (unat n) @ '']'')"
| "spell (FunctionTy r ps v) inner =
     (let ps_text = foldl (\<lambda>acc p. (if acc \<noteq> [] then acc @ '', '' else acc) @ spell p []) [] ps;
          ps_text = (if v then ps_text @ (if ps_text = [] then ''...'' else '', ...'') else ps_text)
      in spell r (inner @ ''('' @ ps_text @ '')''))"

definition str :: "ty \<Rightarrow> string" where
  "str t = spell t []"

section \<open>The size as a number\<close>

text \<open>The size of a type without the 64-bit wrap.\<close>

fun bytes_of :: "ty \<Rightarrow> nat option" where
  "bytes_of (ArrayTy e n) =
     (if n = 0 then None else map_option (\<lambda>b. b * unat n) (bytes_of e))"
| "bytes_of (PointerTy _) = Some 8"
| "bytes_of CharTy = Some 1"
| "bytes_of IntTy = Some 4"
| "bytes_of FloatTy = Some 4"
| "bytes_of _ = None"

lemma type_size_bytes: "type_size t = map_option word_of_nat (bytes_of t)"
  by (induction t) (auto split: option.split)

section \<open>The type context\<close>

datatype type_kind = K_Void | K_Char | K_Int | K_Float | K_Pointer | K_Array | K_Function

text \<open>
  One heap object of class \<open>Type\<close>. A \<open>const Type *\<close> is an index into the storage, in the order
  of \<open>own\<close>; \<open>None\<close> is the null pointer.
\<close>

record type_node =
  tn_kind :: type_kind
  tn_inner :: "nat option"
  tn_length :: u64
  tn_params :: "nat list"
  tn_variadic :: bool

definition mkType :: "type_kind \<Rightarrow> nat option \<Rightarrow> u64 \<Rightarrow> nat list \<Rightarrow> bool \<Rightarrow> type_node" where
  "mkType k inner len ps v =
     \<lparr>tn_kind = k, tn_inner = inner, tn_length = len, tn_params = ps, tn_variadic = v\<rparr>"

record type_context =
  tc_storage :: "type_node list"
  tc_pointers :: "nat \<rightharpoonup> nat"
  tc_arrays :: "nat \<times> u64 \<rightharpoonup> nat"
  tc_functions :: "nat \<times> nat list \<times> bool \<rightharpoonup> nat"
  tc_void :: nat
  tc_char :: nat
  tc_int :: nat
  tc_float :: nat

definition own :: "type_node \<Rightarrow> type_context \<Rightarrow> nat \<times> type_context" where
  "own n c = (length (tc_storage c), c\<lparr>tc_storage := tc_storage c @ [n]\<rparr>)"

definition newTypeContext :: type_context where
  "newTypeContext =
     (let c = \<lparr>tc_storage = [], tc_pointers = Map.empty, tc_arrays = Map.empty, tc_functions = Map.empty,
               tc_void = 0, tc_char = 0, tc_int = 0, tc_float = 0\<rparr>;
          (v, c) = own (mkType K_Void None 0 [] False) c;
          (ch, c) = own (mkType K_Char None 0 [] False) c;
          (i, c) = own (mkType K_Int None 0 [] False) c;
          (f, c) = own (mkType K_Float None 0 [] False) c
      in c\<lparr>tc_void := v, tc_char := ch, tc_int := i, tc_float := f\<rparr>)"

text \<open>\<open>try_emplace\<close>, and on an insertion \<open>own\<close> and the assignment through the iterator.\<close>

definition pointerTo :: "nat \<Rightarrow> type_context \<Rightarrow> nat \<times> type_context" where
  "pointerTo p c =
     (case tc_pointers c p of
        Some t \<Rightarrow> (t, c)
      | None \<Rightarrow>
         (let (t, c1) = own (mkType K_Pointer (Some p) 0 [] False) c
          in (t, c1\<lparr>tc_pointers := (tc_pointers c1)(p \<mapsto> t)\<rparr>)))"

definition arrayOf :: "nat \<Rightarrow> u64 \<Rightarrow> type_context \<Rightarrow> nat \<times> type_context" where
  "arrayOf e n c =
     (case tc_arrays c (e, n) of
        Some t \<Rightarrow> (t, c)
      | None \<Rightarrow>
         (let (t, c1) = own (mkType K_Array (Some e) n [] False) c
          in (t, c1\<lparr>tc_arrays := (tc_arrays c1)((e, n) \<mapsto> t)\<rparr>)))"

definition functionType :: "nat \<Rightarrow> nat list \<Rightarrow> bool \<Rightarrow> type_context \<Rightarrow> nat \<times> type_context" where
  "functionType r ps v c =
     (case tc_functions c (r, ps, v) of
        Some t \<Rightarrow> (t, c)
      | None \<Rightarrow>
         (let (t, c1) = own (mkType K_Function (Some r) 0 ps v) c
          in (t, c1\<lparr>tc_functions := (tc_functions c1)((r, ps, v) \<mapsto> t)\<rparr>)))"

section \<open>Interning\<close>

text \<open>
  The contract of the three maps: a lookup that finds returns the object it finds, one that does
  not appends the object of its key and remembers it. Its consequence, proved once, is that the
  map of a kind and the objects of that kind in the storage determine each other.
\<close>

locale interner =
  fixes nodes :: "'c \<Rightarrow> type_node list"
    and find :: "'c \<Rightarrow> 'k \<rightharpoonup> nat"
    and node :: "'k \<Rightarrow> type_node"
    and intern :: "'k \<Rightarrow> 'c \<Rightarrow> nat \<times> 'c"
  assumes node_inject: "node k = node k' \<Longrightarrow> k = k'"
    and intern_found: "find c k = Some t \<Longrightarrow> intern k c = (t, c)"
    and intern_fresh: "find c k = None \<Longrightarrow> fst (intern k c) = length (nodes c) \<and>
      nodes (snd (intern k c)) = nodes c @ [node k] \<and>
      find (snd (intern k c)) = (find c)(k \<mapsto> length (nodes c))"
begin

definition consistent :: "'c \<Rightarrow> bool" where
  "consistent c \<longleftrightarrow> (\<forall>k t. find c k = Some t \<longleftrightarrow> t < length (nodes c) \<and> nodes c ! t = node k)"

lemma consistent_unique:
  "consistent c \<Longrightarrow> i < length (nodes c) \<Longrightarrow> j < length (nodes c) \<Longrightarrow>
     nodes c ! i = node k \<Longrightarrow> nodes c ! j = node k \<Longrightarrow> i = j"
  unfolding consistent_def by (metis option.inject)

lemma intern_cases:
  assumes "consistent c"
  obtains "snd (intern k c) = c" "fst (intern k c) < length (nodes c)" "nodes c ! fst (intern k c) = node k"
  | "nodes (snd (intern k c)) = nodes c @ [node k]" "fst (intern k c) = length (nodes c)"
    "find (snd (intern k c)) = (find c)(k \<mapsto> length (nodes c))" "find c k = None"
proof (cases "find c k")
  case None
  with intern_fresh that(2) show thesis by blast
next
  case (Some t)
  with intern_found [OF Some] assms that(1) show thesis by (simp add: consistent_def)
qed

lemma intern_result:
  assumes "consistent c"
  shows "fst (intern k c) < length (nodes (snd (intern k c)))"
    and "nodes (snd (intern k c)) ! fst (intern k c) = node k"
    and "take (length (nodes c)) (nodes (snd (intern k c))) = nodes c"
  by (rule intern_cases [OF assms, of k]; simp)+

lemma intern_consistent:
  assumes "consistent c"
  shows "consistent (snd (intern k c))"
proof (rule intern_cases [OF assms, of k])
  assume new: "nodes (snd (intern k c)) = nodes c @ [node k]"
    "find (snd (intern k c)) = (find c)(k \<mapsto> length (nodes c))" "find c k = None"
  have old: "nodes c ! t \<noteq> node k" if "t < length (nodes c)" for t
    using assms new(3) that unfolding consistent_def by (metis option.distinct(1))
  show ?thesis
    unfolding consistent_def
  proof (intro allI)
    fix k' t
    show "find (snd (intern k c)) k' = Some t \<longleftrightarrow>
        t < length (nodes (snd (intern k c))) \<and> nodes (snd (intern k c)) ! t = node k'"
      using assms old node_inject [of k k'] unfolding new(1,2) consistent_def
      by (cases "t < length (nodes c)"; cases "k = k'") (auto simp: nth_append less_Suc_eq)
  qed
qed (use assms in simp)

text \<open>An object of another kind does not disturb the map.\<close>

lemma consistent_other:
  assumes "consistent c" "find c' = find c" "nodes c' = nodes c @ [n]" "n \<notin> range node"
  shows "consistent c'"
  using assms(1,4) unfolding consistent_def assms(2,3)
  by (auto simp: nth_append less_Suc_eq)

end

definition pointerNode :: "nat \<Rightarrow> type_node" where
  "pointerNode p = mkType K_Pointer (Some p) 0 [] False"

definition arrayNode :: "nat \<times> u64 \<Rightarrow> type_node" where
  "arrayNode k = mkType K_Array (Some (fst k)) (snd k) [] False"

definition functionNode :: "nat \<times> nat list \<times> bool \<Rightarrow> type_node" where
  "functionNode k = mkType K_Function (Some (fst k)) 0 (fst (snd k)) (snd (snd k))"

interpretation ptr_types: interner tc_storage tc_pointers pointerNode pointerTo
  by unfold_locales
    (auto simp: pointerTo_def pointerNode_def mkType_def own_def Let_def split: option.split)

interpretation arr_types: interner tc_storage tc_arrays arrayNode "\<lambda>k. arrayOf (fst k) (snd k)"
  by unfold_locales
    (auto simp: arrayOf_def arrayNode_def mkType_def own_def Let_def prod_eq_iff split: option.split)

interpretation func_types: interner tc_storage tc_functions functionNode
  "\<lambda>k. functionType (fst k) (fst (snd k)) (snd (snd k))"
  by unfold_locales
    (auto simp: functionType_def functionNode_def mkType_def own_def Let_def prod_eq_iff split: option.split)

section \<open>What an object denotes\<close>

function denote :: "type_node list \<Rightarrow> nat \<Rightarrow> ty" where
  "denote ns i =
     (let n = ns ! i in
      case tn_kind n of
        K_Void \<Rightarrow> VoidTy | K_Char \<Rightarrow> CharTy | K_Int \<Rightarrow> IntTy | K_Float \<Rightarrow> FloatTy
      | K_Pointer \<Rightarrow> (case tn_inner n of
            Some p \<Rightarrow> if p < i then PointerTy (denote ns p) else VoidTy | None \<Rightarrow> VoidTy)
      | K_Array \<Rightarrow> (case tn_inner n of
            Some p \<Rightarrow> if p < i then ArrayTy (denote ns p) (tn_length n) else VoidTy | None \<Rightarrow> VoidTy)
      | K_Function \<Rightarrow> (case tn_inner n of
            Some r \<Rightarrow> if r < i \<and> (\<forall>p \<in> set (tn_params n). p < i)
              then FunctionTy (denote ns r) (map (denote ns) (tn_params n)) (tn_variadic n) else VoidTy
          | None \<Rightarrow> VoidTy))"
  by pat_completeness auto
termination
  by (relation "measure snd") auto

declare denote.simps [simp del]

text \<open>The objects a context may hold, at a position after those they refer to.\<close>

definition nodeOk :: "nat \<Rightarrow> type_node \<Rightarrow> bool" where
  "nodeOk i n \<longleftrightarrow>
     (\<exists>p < i. n = pointerNode p) \<or> (\<exists>e len. e < i \<and> n = arrayNode (e, len)) \<or>
     (\<exists>r ps v. r < i \<and> (\<forall>p \<in> set ps. p < i) \<and> n = functionNode (r, ps, v))"

definition basicNodes :: "type_node list" where
  "basicNodes = [mkType K_Void None 0 [] False, mkType K_Char None 0 [] False,
                 mkType K_Int None 0 [] False, mkType K_Float None 0 [] False]"

definition context_ok :: "type_context \<Rightarrow> bool" where
  "context_ok c \<longleftrightarrow>
     ptr_types.consistent c \<and> arr_types.consistent c \<and> func_types.consistent c \<and>
     take 4 (tc_storage c) = basicNodes \<and>
     (\<forall>i. 4 \<le> i \<longrightarrow> i < length (tc_storage c) \<longrightarrow> nodeOk i (tc_storage c ! i)) \<and>
     tc_void c = 0 \<and> tc_char c = 1 \<and> tc_int c = 2 \<and> tc_float c = 3"

lemma family_disjoint:
  "pointerNode p \<notin> range arrayNode" "pointerNode p \<notin> range functionNode"
  "arrayNode a \<notin> range pointerNode" "arrayNode a \<notin> range functionNode"
  "functionNode f \<notin> range pointerNode" "functionNode f \<notin> range arrayNode"
  "b \<in> set basicNodes \<Longrightarrow> b \<notin> range pointerNode \<and> b \<notin> range arrayNode \<and> b \<notin> range functionNode"
  by (auto simp: pointerNode_def arrayNode_def functionNode_def mkType_def basicNodes_def)

lemma denote_nodes:
  "ns ! i = pointerNode p \<Longrightarrow> p < i \<Longrightarrow> denote ns i = PointerTy (denote ns p)"
  "ns ! i = arrayNode (p, len) \<Longrightarrow> p < i \<Longrightarrow> denote ns i = ArrayTy (denote ns p) len"
  "ns ! i = functionNode (p, ps, v) \<Longrightarrow> p < i \<Longrightarrow> \<forall>q \<in> set ps. q < i \<Longrightarrow>
     denote ns i = FunctionTy (denote ns p) (map (denote ns) ps) v"
  by (subst denote.simps; simp add: pointerNode_def arrayNode_def functionNode_def mkType_def)+

lemma denote_basic:
  assumes "take 4 ns = basicNodes"
  shows "denote ns 0 = VoidTy" "denote ns 1 = CharTy" "denote ns 2 = IntTy" "denote ns 3 = FloatTy"
proof -
  have n: "ns ! k = basicNodes ! k" if "k < 4" for k using assms that by (metis nth_take)
  show "denote ns 0 = VoidTy" "denote ns 1 = CharTy" "denote ns 2 = IntTy" "denote ns 3 = FloatTy"
    by (subst denote.simps; simp add: n basicNodes_def mkType_def)+
qed

lemma denote_prefix:
  "i < length ns \<Longrightarrow> take (length ns) ns' = ns \<Longrightarrow> denote ns' i = denote ns i"
proof (induction i rule: less_induct)
  case (less i)
  then have "ns' ! i = ns ! i" by (metis nth_take)
  with less show ?case
    by (subst (1 2) denote.simps) (auto simp: Let_def split: type_kind.split option.split)
qed

lemma context_ok_cases:
  assumes "context_ok c" "i < length (tc_storage c)"
  obtains "i < 4"
  | p where "4 \<le> i" "p < i" "tc_storage c ! i = pointerNode p"
      "denote (tc_storage c) i = PointerTy (denote (tc_storage c) p)"
  | e len where "4 \<le> i" "e < i" "tc_storage c ! i = arrayNode (e, len)"
      "denote (tc_storage c) i = ArrayTy (denote (tc_storage c) e) len"
  | r ps v where "4 \<le> i" "r < i" "\<forall>p \<in> set ps. p < i" "tc_storage c ! i = functionNode (r, ps, v)"
      "denote (tc_storage c) i = FunctionTy (denote (tc_storage c) r) (map (denote (tc_storage c)) ps) v"
proof (cases "i < 4")
  case False
  with assms have "nodeOk i (tc_storage c ! i)" by (simp add: context_ok_def)
  with False that(2-4) denote_nodes [of "tc_storage c" i] show thesis
    unfolding nodeOk_def by (metis not_less)
qed (rule that(1))

lemma basic_denotes:
  assumes "context_ok c" "i < 4"
  shows "denote (tc_storage c) i = [VoidTy, CharTy, IntTy, FloatTy] ! i"
proof -
  from assms(2) have "i \<in> {0, 1, 2, 3}" by auto
  then show ?thesis using denote_basic [of "tc_storage c"] assms(1) by (auto simp: context_ok_def)
qed

lemma four_cases: "(j::nat) < 4 \<Longrightarrow> j = 0 \<or> j = 1 \<or> j = 2 \<or> j = 3"
  by auto

lemma basic_node_kind:
  assumes "context_ok c" "i < 4"
  shows "tc_storage c ! i \<noteq> pointerNode p \<and> tc_storage c ! i \<noteq> arrayNode a \<and> tc_storage c ! i \<noteq> functionNode f"
proof -
  have "tc_storage c ! i = basicNodes ! i"
    using assms by (metis context_ok_def nth_take)
  moreover have "basicNodes ! i \<in> set basicNodes"
    using assms(2) by (intro nth_mem) (simp add: basicNodes_def)
  ultimately show ?thesis using family_disjoint(7) by (metis rangeI)
qed

lemma basic_not_built:
  assumes "context_ok c" "i < 4"
  shows "denote (tc_storage c) i \<noteq> PointerTy t" "denote (tc_storage c) i \<noteq> ArrayTy t len"
    "denote (tc_storage c) i \<noteq> FunctionTy t ts v"
  using basic_denotes [OF assms] four_cases [OF assms(2)] by auto

lemma map_inject_bounded:
  "map f xs = map f ys \<Longrightarrow> (\<And>x y. x \<in> set xs \<Longrightarrow> y \<in> set ys \<Longrightarrow> f x = f y \<Longrightarrow> x = y) \<Longrightarrow> xs = ys"
proof (induction xs arbitrary: ys)
  case (Cons x xs)
  then show ?case by (cases ys) auto
qed simp

lemma denote_inject:
  assumes ok: "context_ok c"
  shows "i < length (tc_storage c) \<Longrightarrow> j < length (tc_storage c) \<Longrightarrow>
    denote (tc_storage c) i = denote (tc_storage c) j \<Longrightarrow> i = j"
proof (induction i arbitrary: j rule: less_induct)
  case (less i)
  let ?d = "denote (tc_storage c)"
  note small = less.prems(1,2) less_trans
  note basic = basic_not_built [OF ok]
  from ok have cons: "ptr_types.consistent c" "arr_types.consistent c" "func_types.consistent c"
    by (simp_all add: context_ok_def)
  from ok less.prems(1) show ?case
  proof (cases rule: context_ok_cases)
    case i: 1
    from ok less.prems(2) have "j < 4"
      by (cases rule: context_ok_cases) (use less.prems(3) basic [OF i] in auto)
    with i less.prems(3) basic_denotes [OF ok] show ?thesis
      using four_cases [of i] four_cases [of j] by auto
  next
    case i: (2 p)
    from ok less.prems(2) obtain q where j: "q < j" "tc_storage c ! j = pointerNode q" "?d j = PointerTy (?d q)"
      by (cases rule: context_ok_cases) (use less.prems(3) i(4) basic [of j] basic [of j, symmetric] in auto)
    have "p = q"
      using less.IH [OF i(2), of q] i j less.prems by simp
    with i j show ?thesis using ptr_types.consistent_unique [OF cons(1) less.prems(1,2)] by simp
  next
    case i: (3 e len)
    from ok less.prems(2) obtain q len' where
      j: "q < j" "tc_storage c ! j = arrayNode (q, len')" "?d j = ArrayTy (?d q) len'"
      by (cases rule: context_ok_cases) (use less.prems(3) i(4) basic [of j] basic [of j, symmetric] in auto)
    have "e = q" "len = len'"
      using less.IH [OF i(2), of q] i j less.prems by simp_all
    with i j show ?thesis using arr_types.consistent_unique [OF cons(2) less.prems(1,2)] by simp
  next
    case i: (4 r ps v)
    from ok less.prems(2) obtain q qs v' where
      j: "q < j" "\<forall>x \<in> set qs. x < j" "tc_storage c ! j = functionNode (q, qs, v')"
        "?d j = FunctionTy (?d q) (map ?d qs) v'"
      by (cases rule: context_ok_cases) (use less.prems(3) i(5) basic [of j] basic [of j, symmetric] in auto)
    have "r = q" "v = v'"
      using less.IH [OF i(2), of q] i j less.prems by simp_all
    moreover have "ps = qs"
    proof (rule map_inject_bounded)
      show "map ?d ps = map ?d qs" using i j less.prems by simp
      fix x y assume xy: "x \<in> set ps" "y \<in> set qs" "?d x = ?d y"
      with i(3) j(2) have "x < i" "y < j" by auto
      then show "x = y" using less.IH [of x y] xy(3) less.prems by simp
    qed
    ultimately show ?thesis
      using i j func_types.consistent_unique [OF cons(3) less.prems(1,2)] by simp
  qed
qed

section \<open>The contexts that arise\<close>

lemma context_ok_new: "context_ok newTypeContext"
proof -
  have st: "tc_storage newTypeContext = basicNodes"
    by (simp add: newTypeContext_def own_def Let_def basicNodes_def)
  have maps: "tc_pointers newTypeContext = Map.empty" "tc_arrays newTypeContext = Map.empty"
    "tc_functions newTypeContext = Map.empty"
    by (simp_all add: newTypeContext_def own_def Let_def)
  have "basicNodes ! t \<in> set basicNodes" if "t < length basicNodes" for t using that by simp
  then have none: "\<not> (t < length basicNodes \<and> basicNodes ! t = pointerNode p)"
    "\<not> (t < length basicNodes \<and> basicNodes ! t = arrayNode a)"
    "\<not> (t < length basicNodes \<and> basicNodes ! t = functionNode f)" for t p a f
    using family_disjoint(7) [of "basicNodes ! t"] by (metis rangeI)+
  have len: "length basicNodes = 4" by (simp add: basicNodes_def)
  show ?thesis
    unfolding context_ok_def ptr_types.consistent_def arr_types.consistent_def func_types.consistent_def st maps
    using none len by (simp add: newTypeContext_def own_def Let_def)
qed

text \<open>What an interning operation does to a context that is in order.\<close>

definition grows :: "type_context \<Rightarrow> type_context \<Rightarrow> bool" where
  "grows c c' \<longleftrightarrow> take (length (tc_storage c)) (tc_storage c') = tc_storage c"

lemma grows_length: "grows c c' \<Longrightarrow> length (tc_storage c) \<le> length (tc_storage c')"
  unfolding grows_def by (metis length_take min.cobounded1)

lemma grows_denote:
  "grows c c' \<Longrightarrow> i < length (tc_storage c) \<Longrightarrow> denote (tc_storage c') i = denote (tc_storage c) i"
  unfolding grows_def by (rule denote_prefix)

lemma context_ok_append:
  assumes "context_ok c" "c' = c \<or>
      tc_storage c' = tc_storage c @ [n] \<and> nodeOk (length (tc_storage c)) n"
    and "ptr_types.consistent c'" "arr_types.consistent c'" "func_types.consistent c'"
    and "(tc_void c', tc_char c', tc_int c', tc_float c') = (tc_void c, tc_char c, tc_int c, tc_float c)"
  shows "context_ok c' \<and> grows c c'"
proof -
  have "length (tc_storage c) \<ge> 4"
    using assms(1) by (auto simp: context_ok_def basicNodes_def dest!: arg_cong [where f = length])
  with assms show ?thesis by (auto simp: context_ok_def grows_def nth_append less_Suc_eq)
qed

lemma denote_built:
  assumes "context_ok c" "t < length (tc_storage c)"
  shows "tc_storage c ! t = pointerNode p \<Longrightarrow>
      denote (tc_storage c) t = PointerTy (denote (tc_storage c) p)"
    and "tc_storage c ! t = arrayNode (e, len) \<Longrightarrow>
      denote (tc_storage c) t = ArrayTy (denote (tc_storage c) e) len"
    and "tc_storage c ! t = functionNode (r, ps, v) \<Longrightarrow>
      denote (tc_storage c) t = FunctionTy (denote (tc_storage c) r) (map (denote (tc_storage c)) ps) v"
  by (use assms in \<open>cases rule: context_ok_cases\<close>;
      use basic_node_kind [OF assms(1)] in
        \<open>force simp: pointerNode_def arrayNode_def functionNode_def mkType_def\<close>)+

text \<open>
  Each operation returns an object of the type asked for, in a context still in order, and
  leaves every type handed out before as it was.
\<close>

definition interned :: "type_context \<Rightarrow> nat \<times> type_context \<Rightarrow> ty \<Rightarrow> bool" where
  "interned c r t \<longleftrightarrow>
     context_ok (snd r) \<and> grows c (snd r) \<and> fst r < length (tc_storage (snd r)) \<and>
     denote (tc_storage (snd r)) (fst r) = t"

lemma consistent_all:
  assumes "context_ok c"
  shows "ptr_types.consistent c" "arr_types.consistent c" "func_types.consistent c"
  using assms by (simp_all add: context_ok_def)

lemma pointerTo_interned:
  assumes "context_ok c" "p < length (tc_storage c)"
  shows "interned c (pointerTo p c) (PointerTy (denote (tc_storage c) p))"
proof -
  let ?c = "snd (pointerTo p c)"
  note cons = consistent_all [OF assms(1)]
  note res = ptr_types.intern_result [OF cons(1), of p]
  have st: "?c = c \<or> tc_storage ?c = tc_storage c @ [pointerNode p] \<and> nodeOk (length (tc_storage c)) (pointerNode p)"
    using assms(2) by (rule_tac ptr_types.intern_cases [OF cons(1), of p]) (auto simp: nodeOk_def)
  have keep: "tc_arrays ?c = tc_arrays c" "tc_functions ?c = tc_functions c"
    "(tc_void ?c, tc_char ?c, tc_int ?c, tc_float ?c) = (tc_void c, tc_char c, tc_int c, tc_float c)"
    by (auto simp: pointerTo_def own_def Let_def split: option.split)
  have "arr_types.consistent ?c" "func_types.consistent ?c"
    using st arr_types.consistent_other [OF cons(2) keep(1)] func_types.consistent_other [OF cons(3) keep(2)]
      family_disjoint(1,2) [of p] cons by auto
  then have ok: "context_ok ?c \<and> grows c ?c"
    using context_ok_append [OF assms(1) _ ptr_types.intern_consistent [OF cons(1)] _ _ keep(3)] st by blast
  then show ?thesis
    using res(1) denote_built(1) [OF _ res(1) res(2)] assms(2) by (simp add: interned_def grows_denote)
qed

lemma arrayOf_interned:
  assumes "context_ok c" "e < length (tc_storage c)"
  shows "interned c (arrayOf e len c) (ArrayTy (denote (tc_storage c) e) len)"
proof -
  let ?c = "snd (arrayOf e len c)"
  note cons = consistent_all [OF assms(1)]
  note res = arr_types.intern_result [OF cons(2), of "(e, len)", simplified]
  have st: "?c = c \<or> tc_storage ?c = tc_storage c @ [arrayNode (e, len)] \<and>
      nodeOk (length (tc_storage c)) (arrayNode (e, len))"
    using assms(2) by (rule_tac arr_types.intern_cases [OF cons(2), of "(e, len)"]) (auto simp: nodeOk_def)
  have keep: "tc_pointers ?c = tc_pointers c" "tc_functions ?c = tc_functions c"
    "(tc_void ?c, tc_char ?c, tc_int ?c, tc_float ?c) = (tc_void c, tc_char c, tc_int c, tc_float c)"
    by (auto simp: arrayOf_def own_def Let_def split: option.split)
  have "ptr_types.consistent ?c" "func_types.consistent ?c"
    using st ptr_types.consistent_other [OF cons(1) keep(1)] func_types.consistent_other [OF cons(3) keep(2)]
      family_disjoint(3,4) [of "(e, len)"] cons by auto
  then have ok: "context_ok ?c \<and> grows c ?c"
    using context_ok_append [OF assms(1) _ _ arr_types.intern_consistent [OF cons(2), of "(e, len)", simplified] _ keep(3)]
      st by blast
  then show ?thesis
    using res(1) denote_built(2) [OF _ res(1) res(2)] assms(2) by (simp add: interned_def grows_denote)
qed

lemma functionType_interned:
  assumes "context_ok c" "r < length (tc_storage c)" "\<forall>p \<in> set ps. p < length (tc_storage c)"
  shows "interned c (functionType r ps v c)
    (FunctionTy (denote (tc_storage c) r) (map (denote (tc_storage c)) ps) v)"
proof -
  let ?c = "snd (functionType r ps v c)"
  note cons = consistent_all [OF assms(1)]
  note res = func_types.intern_result [OF cons(3), of "(r, ps, v)", simplified]
  have "nodeOk (length (tc_storage c)) (functionNode (r, ps, v))"
    using assms(2,3) unfolding nodeOk_def by blast
  then have st: "?c = c \<or> tc_storage ?c = tc_storage c @ [functionNode (r, ps, v)] \<and>
      nodeOk (length (tc_storage c)) (functionNode (r, ps, v))"
    by (rule_tac func_types.intern_cases [OF cons(3), of "(r, ps, v)"]) auto
  have keep: "tc_pointers ?c = tc_pointers c" "tc_arrays ?c = tc_arrays c"
    "(tc_void ?c, tc_char ?c, tc_int ?c, tc_float ?c) = (tc_void c, tc_char c, tc_int c, tc_float c)"
    by (auto simp: functionType_def own_def Let_def split: option.split)
  have "ptr_types.consistent ?c" "arr_types.consistent ?c"
    using st ptr_types.consistent_other [OF cons(1) keep(1)] arr_types.consistent_other [OF cons(2) keep(2)]
      family_disjoint(5,6) [of "(r, ps, v)"] cons by auto
  then have ok: "context_ok ?c \<and> grows c ?c"
    using context_ok_append [OF assms(1) _ _ _ func_types.intern_consistent [OF cons(3), of "(r, ps, v)", simplified] keep(3)]
      st by blast
  have "map (denote (tc_storage ?c)) ps = map (denote (tc_storage c)) ps"
    using assms(3) ok by (auto simp: grows_denote)
  then show ?thesis
    using ok res(1) denote_built(3) [OF _ res(1) res(2)] assms(2) by (simp add: interned_def grows_denote)
qed

text \<open>A context as a client of \<open>TypeContext\<close> can bring it about.\<close>

inductive context_reachable :: "type_context \<Rightarrow> bool" where
  reach_new: "context_reachable newTypeContext"
| reach_pointer: "context_reachable c \<Longrightarrow> p < length (tc_storage c) \<Longrightarrow>
    context_reachable (snd (pointerTo p c))"
| reach_array: "context_reachable c \<Longrightarrow> e < length (tc_storage c) \<Longrightarrow>
    context_reachable (snd (arrayOf e len c))"
| reach_function: "context_reachable c \<Longrightarrow> r < length (tc_storage c) \<Longrightarrow>
    \<forall>p \<in> set ps. p < length (tc_storage c) \<Longrightarrow> context_reachable (snd (functionType r ps v c))"

lemma reachable_ok: "context_reachable c \<Longrightarrow> context_ok c"
  by (induction rule: context_reachable.induct)
    (use context_ok_new pointerTo_interned arrayOf_interned functionType_interned in \<open>auto simp: interned_def\<close>)

section \<open>The properties of types\<close>

text \<open>
  C21: Types are uniqued: in every context that a sequence of \<open>TypeContext\<close> calls produces, two
  type objects are the same object exactly when they have the same structure.
\<close>

theorem types_uniqued:
  assumes "context_reachable c" "i < length (tc_storage c)" "j < length (tc_storage c)"
  shows "denote (tc_storage c) i = denote (tc_storage c) j \<longleftrightarrow> i = j"
  using denote_inject [OF reachable_ok] assms by blast

lemma types_uniqued_witness:
  "denote (tc_storage (snd (pointerTo 2 newTypeContext))) 4 \<noteq> denote (tc_storage (snd (pointerTo 2 newTypeContext))) 1"
proof -
  have len: "length (tc_storage newTypeContext) = 4"
    by (simp add: newTypeContext_def own_def Let_def)
  then have "length (tc_storage (snd (pointerTo 2 newTypeContext))) = 5"
    by (simp add: pointerTo_def newTypeContext_def own_def Let_def)
  with len show ?thesis
    using types_uniqued [OF reach_pointer [OF reach_new], of 2 4 1] by simp
qed

text \<open>
  C27: Each constructor of \<open>TypeContext\<close> returns the type it is asked for and leaves every type
  object handed out before unchanged.
\<close>

theorem type_constructors:
  assumes "context_reachable c" "p < length (tc_storage c)" "\<forall>q \<in> set ps. q < length (tc_storage c)"
  shows "interned c (pointerTo p c) (PointerTy (denote (tc_storage c) p)) \<and>
    interned c (arrayOf p len c) (ArrayTy (denote (tc_storage c) p) len) \<and>
    interned c (functionType p ps v c)
      (FunctionTy (denote (tc_storage c) p) (map (denote (tc_storage c)) ps) v)"
  using pointerTo_interned arrayOf_interned functionType_interned reachable_ok assms by blast

lemma type_constructors_witness:
  "interned newTypeContext (functionType 2 [1, 3] True newTypeContext)
     (FunctionTy IntTy [CharTy, FloatTy] True)"
proof -
  have st: "tc_storage newTypeContext = basicNodes"
    by (simp add: newTypeContext_def own_def Let_def basicNodes_def)
  have "take 4 basicNodes = basicNodes" by (simp add: basicNodes_def)
  from denote_basic [OF this] st show ?thesis
    using type_constructors [OF reach_new, of 2 "[1, 3]" 0 True] by (simp add: basicNodes_def)
qed

text \<open>
  C37: \<open>Type::size\<close> is the number of bytes of the type modulo \<open>2 ^ 64\<close>, and there is none
  exactly for \<open>void\<close>, functions and arrays with an incomplete dimension.
\<close>

theorem type_size_correct: "type_size t = map_option word_of_nat (bytes_of t)"
  by (rule type_size_bytes)

text \<open>
  The wrap is reachable: a two-dimensional array of more bytes than the address space gets
  the size 0.
\<close>

theorem type_size_wraps:
  "bytes_of (ArrayTy (ArrayTy IntTy 0x100000000) 0x40000000) = Some (2 ^ 64) \<and>
   type_size (ArrayTy (ArrayTy IntTy 0x100000000) 0x40000000) = Some 0"
  by simp

end
