(* ===== verification/AST.thy ===== *)
theory AST
  imports Diagnostics Types Floats
begin

text \<open>
  \<open>include/jia/AST/AST.h\<close>: the tree. A \<open>std::variant\<close> is a datatype with the alternatives'
  names, a \<open>Box\<close> is the value it owns, a null \<open>const Type *\<close> is \<open>None\<close>.
\<close>

type_synonym symbol_id = u32

datatype unary_op = UO_Plus | UO_Minus | UO_Not | UO_Deref | UO_AddrOf

datatype binary_op =
    BO_Mul | BO_Div | BO_Rem | BO_Add | BO_Sub | BO_Lt | BO_Gt | BO_Le | BO_Ge | BO_Eq | BO_Ne
  | BO_LogAnd | BO_LogOr

datatype cast_kind =
    CK_Unresolved | CK_NoOp | CK_IntegralCast | CK_IntToFloat | CK_FloatToInt | CK_ArrayToPointer
  | CK_NullToPointer | CK_PointerCast | CK_PointerToInt | CK_IntToPointer | CK_ToVoid

datatype value_category = RValue | LValue

datatype expr = Expr (node: expr_node) (expr_loc: source_location) (expr_type: "ty option")
    (category: value_category)
and expr_node =
    IntLiteral i64
  | FloatLiteral fp
  | StringLiteral string
  | DeclRef string symbol_id
  | Unary unary_op expr
  | Binary binary_op expr expr
  | Assign expr expr
  | Call expr "expr list"
  | Index expr expr
  | Cast cast_kind bool expr
  | SizeOfType ty
  | SizeOfExpr expr

definition isLValue :: "expr \<Rightarrow> bool" where
  "isLValue e \<longleftrightarrow> category e = LValue"

definition set_type :: "ty option \<Rightarrow> expr \<Rightarrow> expr" where
  "set_type t e = Expr (node e) (expr_loc e) t (category e)"

lemma set_type_simps [simp]:
  "node (set_type t e) = node e" "expr_loc (set_type t e) = expr_loc e"
  "expr_type (set_type t e) = t" "category (set_type t e) = category e"
  by (simp_all add: set_type_def)

datatype initializer = InitExpr expr source_location | InitList "initializer list" source_location

primrec init_loc :: "initializer \<Rightarrow> source_location" where
  "init_loc (InitExpr e l) = l" | "init_loc (InitList is l) = l"

record var_decl =
  vd_name :: string
  vd_type :: ty
  vd_isConst :: bool
  vd_init :: "initializer option"
  vd_loc :: source_location
  vd_symbol :: symbol_id

datatype stmt = Stmt (stmt_node: stmt_node) (stmt_loc: source_location)
and stmt_node =
    NullStmt
  | ExprStmt expr
  | DeclStmt "var_decl list"
  | CompoundStmt "stmt list"
  | IfStmt expr stmt "stmt option"
  | WhileStmt expr stmt
  | BreakStmt
  | ContinueStmt
  | ReturnStmt "expr option"

record param_decl =
  pd_name :: string
  pd_type :: ty
  pd_isConst :: bool
  pd_loc :: source_location
  pd_symbol :: symbol_id

record function_decl =
  fd_name :: string
  fd_type :: ty
  fd_params :: "param_decl list"
  fd_body :: "stmt list option"
  fd_loc :: source_location
  fd_symbol :: symbol_id

datatype top_level_decl = TopVar var_decl | TopFunction function_decl

text \<open>The declarations of a translation unit; its \<open>TypeContext\<close> is implicit in \<open>ty\<close>.\<close>

record translation_unit =
  tu_decls :: "top_level_decl list"

end
