(* ===== verification/ConstEval.thy ===== *)
theory ConstEval
  imports AST
begin

text \<open>
  \<open>lib/AST/ConstEval.cpp\<close>: constant folding. The conversion of a \<open>double\<close> outside the range of
  \<open>std::int64_t\<close> is undefined in C++; what a compiled program yields there is the parameter
  \<open>ub\<close> of the definitions, and the theorems hold for every such function or say what they need
  of it.
\<close>

datatype const_value = IntC i64 | DoubleC fp

fun asDouble :: "const_value \<Rightarrow> fp" where
  "asDouble (IntC i) = fp_of_int (sint i)"
| "asDouble (DoubleC d) = d"

text \<open>\<open>d != 0\<close> for a \<open>double\<close>.\<close>

definition nonzero :: "fp \<Rightarrow> bool" where
  "nonzero d \<longleftrightarrow> \<not> fp_eq d fp_zero"

text \<open>\<open>static_cast<std::int64_t>(d)\<close>.\<close>

definition double_to_i64 :: "(fp \<Rightarrow> i64) \<Rightarrow> fp \<Rightarrow> i64" where
  "double_to_i64 ub d =
     (case fp_trunc d of
        Some i \<Rightarrow> if - (2 ^ 63) \<le> i \<and> i < 2 ^ 63 then word_of_int i else ub d
      | None \<Rightarrow> ub d)"

text \<open>The constant \<open>9.3e18\<close>, a \<open>double\<close> above \<open>2 ^ 63\<close>.\<close>

definition guardBound :: fp where
  "guardBound = fp_of_decimal False 93 17"

text \<open>\<open>static_cast<std::int8_t>\<close> and \<open>static_cast<std::int32_t>\<close>, widened again.\<close>

definition wrap8 :: "i64 \<Rightarrow> i64" where
  "wrap8 i = signed_take_bit 7 i"

definition wrap32 :: "i64 \<Rightarrow> i64" where
  "wrap32 i = signed_take_bit 31 i"

fun fitTo :: "(fp \<Rightarrow> i64) \<Rightarrow> const_value \<Rightarrow> ty option \<Rightarrow> const_value option" where
  "fitTo ub v None = Some v"
| "fitTo ub v (Some t) =
     (if t = CharTy \<or> t = IntTy then
        (case (case v of
             IntC i \<Rightarrow> Some i
           | DoubleC d \<Rightarrow>
               if \<not> (fp_less (fp_neg guardBound) d \<and> fp_less d guardBound) then None
               else Some (double_to_i64 ub d)) of
           None \<Rightarrow> None
         | Some i \<Rightarrow> Some (IntC (if t = CharTy then wrap8 i else wrap32 i)))
      else if t = FloatTy then Some (DoubleC (to_single (asDouble v)))
      else None)"

definition bool_c :: "bool \<Rightarrow> const_value" where
  "bool_c b = IntC (if b then 1 else 0)"

text \<open>\<open>std::numeric_limits<std::int64_t>::min()\<close>.\<close>

definition i64_min :: i64 where
  "i64_min = word_of_int (- (2 ^ 63))"

fun foldInt :: "binary_op \<Rightarrow> i64 \<Rightarrow> i64 \<Rightarrow> const_value option" where
  "foldInt BO_Add a b = Some (IntC (a + b))"
| "foldInt BO_Sub a b = Some (IntC (a - b))"
| "foldInt BO_Mul a b = Some (IntC (a * b))"
| "foldInt BO_Div a b =
     (if b = 0 \<or> (a = i64_min \<and> b = -1) then None else Some (IntC (word_of_int (sint a sdiv sint b))))"
| "foldInt BO_Rem a b =
     (if b = 0 \<or> (a = i64_min \<and> b = -1) then None else Some (IntC (word_of_int (sint a smod sint b))))"
| "foldInt BO_Lt a b = Some (bool_c (a <s b))"
| "foldInt BO_Gt a b = Some (bool_c (b <s a))"
| "foldInt BO_Le a b = Some (bool_c (a \<le>s b))"
| "foldInt BO_Ge a b = Some (bool_c (b \<le>s a))"
| "foldInt BO_Eq a b = Some (bool_c (a = b))"
| "foldInt BO_Ne a b = Some (bool_c (a \<noteq> b))"
| "foldInt _ a b = None"

fun foldDouble :: "binary_op \<Rightarrow> fp \<Rightarrow> fp \<Rightarrow> const_value option" where
  "foldDouble BO_Add a b = Some (DoubleC (fp_add a b))"
| "foldDouble BO_Sub a b = Some (DoubleC (fp_sub a b))"
| "foldDouble BO_Mul a b = Some (DoubleC (fp_mul a b))"
| "foldDouble BO_Div a b = Some (DoubleC (fp_div a b))"
| "foldDouble BO_Lt a b = Some (bool_c (fp_less a b))"
| "foldDouble BO_Gt a b = Some (bool_c (fp_less b a))"
| "foldDouble BO_Le a b = Some (bool_c (fp_le a b))"
| "foldDouble BO_Ge a b = Some (bool_c (fp_le b a))"
| "foldDouble BO_Eq a b = Some (bool_c (fp_eq a b))"
| "foldDouble BO_Ne a b = Some (bool_c (\<not> fp_eq a b))"
| "foldDouble _ a b = None"

definition foldBinary :: "binary_op \<Rightarrow> const_value \<Rightarrow> const_value \<Rightarrow> const_value option" where
  "foldBinary op l r =
     (if op = BO_LogAnd then Some (bool_c (nonzero (asDouble l) \<and> nonzero (asDouble r)))
      else if op = BO_LogOr then Some (bool_c (nonzero (asDouble l) \<or> nonzero (asDouble r)))
      else case (l, r) of
        (IntC a, IntC b) \<Rightarrow> foldInt op a b
      | _ \<Rightarrow> foldDouble op (asDouble l) (asDouble r))"

fun foldUnary :: "unary_op \<Rightarrow> const_value \<Rightarrow> const_value option" where
  "foldUnary UO_Plus v = Some v"
| "foldUnary UO_Minus (IntC i) = Some (IntC (0 - i))"
| "foldUnary UO_Minus (DoubleC d) = Some (DoubleC (fp_neg d))"
| "foldUnary UO_Not v = Some (bool_c (\<not> nonzero (asDouble v)))"
| "foldUnary _ v = None"

definition arithmeticKind :: "cast_kind \<Rightarrow> bool" where
  "arithmeticKind k \<longleftrightarrow> k = CK_Unresolved \<or> k = CK_NoOp \<or> k = CK_IntegralCast \<or> k = CK_IntToFloat \<or>
     k = CK_FloatToInt"

primrec evaluateConstant :: "(fp \<Rightarrow> i64) \<Rightarrow> expr \<Rightarrow> const_value option"
and constFold :: "(fp \<Rightarrow> i64) \<Rightarrow> expr_node \<Rightarrow> const_value option" where
  "evaluateConstant ub (Expr n l t c) =
     (case constFold ub n of None \<Rightarrow> None | Some v \<Rightarrow> fitTo ub v t)"
| "constFold ub (IntLiteral v) = Some (IntC v)"
| "constFold ub (FloatLiteral v) = Some (DoubleC v)"
| "constFold ub (StringLiteral b) = None"
| "constFold ub (DeclRef n s) = None"
| "constFold ub (Unary op x) =
     (case evaluateConstant ub x of None \<Rightarrow> None | Some v \<Rightarrow> foldUnary op v)"
| "constFold ub (Binary op a b) =
     (case evaluateConstant ub a of
        None \<Rightarrow> None
      | Some l \<Rightarrow> (case evaluateConstant ub b of None \<Rightarrow> None | Some r \<Rightarrow> foldBinary op l r))"
| "constFold ub (Assign a b) = None"
| "constFold ub (Call f args) = None"
| "constFold ub (Index a b) = None"
| "constFold ub (Cast k imp x) = (if arithmeticKind k then evaluateConstant ub x else None)"
| "constFold ub (SizeOfType t) =
     (case type_size t of Some s \<Rightarrow> Some (IntC s) | None \<Rightarrow> None)"
| "constFold ub (SizeOfExpr x) = None"

definition evaluateInteger :: "(fp \<Rightarrow> i64) \<Rightarrow> expr \<Rightarrow> i64 option" where
  "evaluateInteger ub e =
     (case evaluateConstant ub e of Some (IntC i) \<Rightarrow> Some i | _ \<Rightarrow> None)"

section \<open>Values fit their types\<close>

text \<open>What an expression of a type may evaluate to.\<close>

fun fits :: "ty \<Rightarrow> const_value \<Rightarrow> bool" where
  "fits CharTy (IntC i) \<longleftrightarrow> - (2 ^ 7) \<le> sint i \<and> sint i < 2 ^ 7"
| "fits IntTy (IntC i) \<longleftrightarrow> - (2 ^ 31) \<le> sint i \<and> sint i < 2 ^ 31"
| "fits FloatTy (DoubleC d) \<longleftrightarrow> d \<in> range to_single"
| "fits _ _ \<longleftrightarrow> False"

lemma signed_take_bit_of_int:
  "n < 64 \<Longrightarrow> signed_take_bit n (word_of_int k :: i64) = word_of_int (signed_take_bit n k)"
  by transfer (simp add: signed_take_bit_take_bit)

lemma sint_signed_take_bit:
  assumes "n < 64"
  shows "sint (signed_take_bit n (w :: i64)) = signed_take_bit n (sint w)"
proof -
  have "signed_take_bit n w = word_of_int (signed_take_bit n (sint w))"
    using signed_take_bit_of_int [OF assms, of "sint w"] by simp
  moreover have "min 63 n = n" using assms by simp
  ultimately show ?thesis by (simp add: sint_sbintrunc')
qed

lemma wrap_range:
  "- (2 ^ 7) \<le> sint (wrap8 i) \<and> sint (wrap8 i) < 2 ^ 7"
  "- (2 ^ 31) \<le> sint (wrap32 i) \<and> sint (wrap32 i) < 2 ^ 31"
  unfolding wrap8_def wrap32_def
  using signed_take_bit_int_greater_eq_minus_exp [of 7 "sint i"] signed_take_bit_int_less_exp [of 7 "sint i"]
    signed_take_bit_int_greater_eq_minus_exp [of 31 "sint i"] signed_take_bit_int_less_exp [of 31 "sint i"]
  by (simp_all add: sint_signed_take_bit)

lemma fitTo_fits: "fitTo ub v (Some t) = Some r \<Longrightarrow> fits t r"
  using wrap_range by (cases t) (auto split: const_value.splits if_splits)

section \<open>32-bit arithmetic as reference\<close>

lemma nonzero_int: "nonzero (fp_of_int i) \<longleftrightarrow> i \<noteq> 0"
proof (cases "i = 0")
  case True
  then show ?thesis by (simp add: nonzero_def fp_zero_def)
next
  case False
  then obtain s m e where "fp_of_int i = FInf s \<or> fp_of_int i = FFin s m e \<and> 0 < m"
    using fp_of_int_nonzero by blast
  then show ?thesis using False
    by (auto simp: nonzero_def fp_zero_def Let_def signed_def align_def split: if_splits)
qed

text \<open>The \<open>int\<close> and \<open>char\<close> constant expressions that the analyzer produces.\<close>

fun intExpr :: "expr \<Rightarrow> bool" where
  "intExpr (Expr (IntLiteral v) l t c) \<longleftrightarrow> t = Some IntTy"
| "intExpr (Expr (Unary op x) l t c) \<longleftrightarrow>
     t = Some IntTy \<and> op \<noteq> UO_Deref \<and> op \<noteq> UO_AddrOf \<and> intExpr x"
| "intExpr (Expr (Binary op a b) l t c) \<longleftrightarrow> t = Some IntTy \<and> intExpr a \<and> intExpr b"
| "intExpr (Expr (Cast k imp x) l t c) \<longleftrightarrow>
     (t = Some IntTy \<or> t = Some CharTy) \<and> arithmeticKind k \<and> intExpr x"
| "intExpr _ \<longleftrightarrow> False"

definition bool32 :: "bool \<Rightarrow> 32 word" where
  "bool32 b = (if b then 1 else 0)"

text \<open>The same expressions computed in 32-bit registers, as the generated code does.\<close>

fun op32 :: "binary_op \<Rightarrow> 32 word \<Rightarrow> 32 word \<Rightarrow> 32 word option" where
  "op32 BO_Add a b = Some (a + b)"
| "op32 BO_Sub a b = Some (a - b)"
| "op32 BO_Mul a b = Some (a * b)"
| "op32 BO_Div a b = (if b = 0 then None else Some (word_of_int (sint a sdiv sint b)))"
| "op32 BO_Rem a b = (if b = 0 then None else Some (word_of_int (sint a smod sint b)))"
| "op32 BO_Lt a b = Some (bool32 (sint a < sint b))"
| "op32 BO_Gt a b = Some (bool32 (sint a > sint b))"
| "op32 BO_Le a b = Some (bool32 (sint a \<le> sint b))"
| "op32 BO_Ge a b = Some (bool32 (sint a \<ge> sint b))"
| "op32 BO_Eq a b = Some (bool32 (a = b))"
| "op32 BO_Ne a b = Some (bool32 (a \<noteq> b))"
| "op32 BO_LogAnd a b = Some (bool32 (a \<noteq> 0 \<and> b \<noteq> 0))"
| "op32 BO_LogOr a b = Some (bool32 (a \<noteq> 0 \<or> b \<noteq> 0))"

fun eval32 :: "expr \<Rightarrow> 32 word option" where
  "eval32 (Expr (IntLiteral v) l t c) = Some (word_of_int (sint v))"
| "eval32 (Expr (Unary op x) l t c) =
     map_option (\<lambda>w. if op = UO_Minus then - w else if op = UO_Not then bool32 (w = 0) else w) (eval32 x)"
| "eval32 (Expr (Binary op a b) l t c) =
     Option.bind (eval32 a) (\<lambda>x. Option.bind (eval32 b) (\<lambda>y. op32 op x y))"
| "eval32 (Expr (Cast k imp x) l t c) =
     map_option (\<lambda>w. if t = Some CharTy then signed_take_bit 7 w else w) (eval32 x)"
| "eval32 _ = None"

definition widen :: "32 word \<Rightarrow> i64" where
  "widen w = word_of_int (sint w)"

lemma sint_widen [simp]: "sint (widen w) = sint w"
proof -
  have "signed_take_bit 63 (sint w) = sint w"
    using sint_greater_eq [of w] sint_less [of w] by (simp add: signed_take_bit_int_eq_self_iff)
  then show ?thesis unfolding widen_def sint_sbintrunc' by simp
qed

lemma wrap32_int: "wrap32 (word_of_int k) = widen (word_of_int k)"
  by (simp add: wrap32_def widen_def signed_take_bit_of_int sint_sbintrunc')

lemma wrap32_sint: "wrap32 v = widen (word_of_int (sint v))"
  using wrap32_int [of "sint v"] by simp

lemma widen_inject [simp]: "widen v = widen w \<longleftrightarrow> v = w"
proof
  assume "widen v = widen w"
  then have "sint (widen v) = sint (widen w)" by simp
  then show "v = w" by (intro signed_word_eqI [where 'a = int]) simp
qed simp

lemma widen_eq_0 [simp]: "widen w = 0 \<longleftrightarrow> w = 0"
  using widen_inject [of w 0] by (simp add: widen_def)

lemma wrap32_bool: "wrap32 (if b then 1 else 0) = widen (bool32 b)"
  using wrap32_int [of 0] wrap32_int [of 1] by (simp add: bool32_def)

lemma sint_eq_0 [simp]: "sint (w :: 32 word) = 0 \<longleftrightarrow> w = 0"
  by (rule signed_eq_0_iff)

lemma wrap32_consts [simp]: "wrap32 0 = widen (bool32 False)" "wrap32 1 = widen (bool32 True)"
  using wrap32_bool [of False] wrap32_bool [of True] by simp_all

lemma nonzero_zero [simp]: "\<not> nonzero fp_zero"
  using nonzero_int [of 0] by simp

lemma widen_div_guard: "\<not> (widen a = i64_min \<and> widen b = -1)"
proof
  assume "widen a = i64_min \<and> widen b = -1"
  then have "sint (widen a) = sint i64_min" by simp
  then show False using sint_greater_eq [of a] by (simp add: i64_min_def)
qed

text \<open>One operation: folding widened operands and narrowing is the 32-bit operation.\<close>

lemma foldBinary_32:
  "Option.bind (foldBinary op (IntC (widen a)) (IntC (widen b))) (\<lambda>v. fitTo ub v (Some IntTy)) =
     map_option (\<lambda>w. IntC (widen w)) (op32 op a b)"
proof -
  have arith: "wrap32 (widen a + widen b) = widen (a + b)" "wrap32 (widen a - widen b) = widen (a - b)"
    "wrap32 (widen a * widen b) = widen (a * b)"
    using wrap32_int [of "sint a + sint b"] wrap32_int [of "sint a - sint b"] wrap32_int [of "sint a * sint b"]
    by (simp_all add: widen_def)
  show ?thesis
    using widen_div_guard [of a b] arith
    by (cases op; cases "b = 0") (simp_all add: foldBinary_def bool_c_def wrap32_bool wrap32_int nonzero_int
        word_sless_alt word_sle_eq less_le_not_le del: of_int_sint)
qed

lemma foldUnary_32:
  assumes "op \<noteq> UO_Deref" "op \<noteq> UO_AddrOf"
  shows "Option.bind (foldUnary op (IntC (widen a))) (\<lambda>v. fitTo ub v (Some IntTy)) =
     Some (IntC (widen (if op = UO_Minus then - a else if op = UO_Not then bool32 (a = 0) else a)))"
proof -
  have "wrap32 (- widen a) = widen (- a)" "wrap32 (widen a) = widen a"
    using wrap32_int [of "- sint a"] wrap32_int [of "sint a"] by (simp_all add: widen_def)
  then show ?thesis
    using assms by (cases op) (simp_all add: bool_c_def wrap32_bool nonzero_int)
qed

lemma wrap8_widen: "wrap8 (widen w) = widen (signed_take_bit 7 w)"
proof -
  have "signed_take_bit 7 (word_of_int k :: 32 word) = word_of_int (signed_take_bit 7 k)" for k
    by transfer (simp add: signed_take_bit_take_bit)
  from this [of "sint w"] have w: "signed_take_bit 7 w = word_of_int (signed_take_bit 7 (sint w))" by simp
  have "min 31 7 = (7::nat)" by simp
  then have s: "sint (signed_take_bit 7 w) = signed_take_bit 7 (sint w)"
    unfolding w by (simp add: sint_sbintrunc')
  show ?thesis
    unfolding widen_def s wrap8_def by (rule signed_take_bit_of_int) simp
qed

lemma evaluate_unary:
  "evaluateConstant ub (Expr (Unary op x) l t c) =
     Option.bind (evaluateConstant ub x) (\<lambda>v. Option.bind (foldUnary op v) (\<lambda>r. fitTo ub r t))"
  by (simp split: option.split)

lemma evaluate_binary:
  "evaluateConstant ub (Expr (Binary op a b) l t c) =
     Option.bind (evaluateConstant ub a) (\<lambda>v. Option.bind (evaluateConstant ub b)
       (\<lambda>w. Option.bind (foldBinary op v w) (\<lambda>r. fitTo ub r t)))"
  by (simp split: option.split)

lemma eval32_correct:
  "intExpr e \<Longrightarrow> evaluateConstant ub e = map_option (\<lambda>w. IntC (widen w)) (eval32 e)"
proof (induction e rule: intExpr.induct)
  case (1 v l t c)
  then show ?case by (simp add: wrap32_sint)
next
  case (2 op x l t c)
  then show ?case
    using foldUnary_32 [of op _ ub]
    by (cases "eval32 x") (simp_all add: evaluate_unary del: evaluateConstant.simps fitTo.simps)
next
  case (3 op a b l t c)
  then show ?case
    using foldBinary_32 [of op _ _ ub]
    by (cases "eval32 a"; cases "eval32 b")
      (simp_all add: evaluate_binary del: evaluateConstant.simps fitTo.simps)
next
  case (4 k imp x l t c)
  have "wrap32 (widen w) = widen w" for w using wrap32_int [of "sint w"] by (simp add: widen_def)
  with 4 show ?case by (cases "eval32 x") (auto simp: wrap8_widen)
qed simp_all

section \<open>What can be folded\<close>

text \<open>Built from literals, arithmetic, comparisons and arithmetic casts only.\<close>

fun literalBuilt :: "expr \<Rightarrow> bool" where
  "literalBuilt (Expr (IntLiteral v) l t c) \<longleftrightarrow> True"
| "literalBuilt (Expr (FloatLiteral v) l t c) \<longleftrightarrow> True"
| "literalBuilt (Expr (SizeOfType ty) l t c) \<longleftrightarrow> True"
| "literalBuilt (Expr (Unary op x) l t c) \<longleftrightarrow> op \<in> {UO_Plus, UO_Minus, UO_Not} \<and> literalBuilt x"
| "literalBuilt (Expr (Binary op a b) l t c) \<longleftrightarrow> literalBuilt a \<and> literalBuilt b"
| "literalBuilt (Expr (Cast k imp x) l t c) \<longleftrightarrow> arithmeticKind k \<and> literalBuilt x"
| "literalBuilt _ \<longleftrightarrow> False"

lemma foldUnary_op: "foldUnary op v = Some r \<Longrightarrow> op \<in> {UO_Plus, UO_Minus, UO_Not}"
  by (cases op) auto

lemma evaluate_literalBuilt: "evaluateConstant ub e = Some v \<Longrightarrow> literalBuilt e"
proof (induction e arbitrary: v rule: literalBuilt.induct)
  case (4 op x l t c)
  then show ?case by (auto simp: evaluate_unary bind_eq_Some_conv simp del: evaluateConstant.simps
      dest!: foldUnary_op)
next
  case (5 op a b l t c)
  then show ?case by (auto simp: evaluate_binary bind_eq_Some_conv simp del: evaluateConstant.simps)
qed (auto split: if_splits option.splits)

text \<open>Some numbers.\<close>

lemmas fp_compute = fp_of_int_def fp_of_decimal_def round_pow_def round_fp_def exponent_for_def scale_def
  round_even_def binary64_def binary32_def bitlen.simps Let_def fp_zero_def

lemma guard_bound: "guardBound = FFin False 4541015625000000 11"
  by (simp add: guardBound_def fp_compute)

lemma single_two_63: "to_single (FFin False 4503599627370496 11) = FFin False 4503599627370496 11"
  by (simp add: fp_compute)

section \<open>The properties of constant folding\<close>

text \<open>
  C26: On the \<open>int\<close> and \<open>char\<close> expressions that the analyzer produces, folding in 64 bits and
  narrowing at every node gives what 32-bit wrapping arithmetic gives, and no value exactly when
  that divides by zero.
\<close>

theorem folding_is_32_bit:
  assumes "intExpr e"
  shows "evaluateConstant ub e = map_option (\<lambda>w. IntC (widen w)) (eval32 e)"
  using assms by (rule eval32_correct)

lemma folding_is_32_bit_witness:
  "evaluateConstant (\<lambda>_. 0)
     (Expr (Binary BO_Mul (Expr (IntLiteral 65536) (SourceLocation 1 1) (Some IntTy) RValue)
             (Expr (IntLiteral 65537) (SourceLocation 1 9) (Some IntTy) RValue)) (SourceLocation 1 7)
             (Some IntTy) RValue) =
   Some (IntC 65536)"
  using folding_is_32_bit [of "Expr (Binary BO_Mul
     (Expr (IntLiteral 65536) (SourceLocation 1 1) (Some IntTy) RValue)
             (Expr (IntLiteral 65537) (SourceLocation 1 9) (Some IntTy) RValue)) (SourceLocation 1 7)
             (Some IntTy) RValue" "\<lambda>_. 0"]
  by (simp add: widen_def)

text \<open>C34: A folded constant is a value of the expression's type: an 8-bit or 32-bit integer or a \<open>float\<close>.\<close>

theorem folded_value_fits:
  assumes "evaluateConstant ub e = Some v" "expr_type e = Some t"
  shows "fits t v"
  using assms fitTo_fits by (cases e) (auto split: option.splits)

lemma folded_value_fits_witness: "fits CharTy (IntC 44)"
  using folded_value_fits [of "\<lambda>_. 0" "Expr (Cast CK_Unresolved False
      (Expr (IntLiteral 300) (SourceLocation 1 1) None RValue)) (SourceLocation 1 1) (Some CharTy) RValue"
      "IntC 44" CharTy]
  by (simp add: arithmeticKind_def wrap8_def)

text \<open>C35: Only expressions built from literals, arithmetic, comparisons and arithmetic casts fold.\<close>

theorem folds_only_literals:
  assumes "evaluateConstant ub e \<noteq> None"
  shows "literalBuilt e"
  using assms evaluate_literalBuilt by auto

lemma folds_only_literals_witness:
  "literalBuilt (Expr (Unary UO_Not (Expr (IntLiteral 0) (SourceLocation 1 2) None RValue))
     (SourceLocation 1 1) None RValue)"
  by (rule folds_only_literals [of "\<lambda>_. 0"]) simp

text \<open>
  The guard before the conversion of a \<open>double\<close> to \<open>std::int64_t\<close> lets numbers through that
  do not fit: at \<open>2 ^ 63\<close> the folded constant is whatever the undefined conversion yields.
\<close>

theorem fold_undefined_conversion:
  "evaluateConstant ub (Expr (Cast CK_FloatToInt imp
       (Expr (FloatLiteral (FFin False 4503599627370496 11)) l (Some FloatTy) RValue)) l (Some IntTy) RValue) =
     Some (IntC (wrap32 (ub (FFin False 4503599627370496 11)))) \<and>
   fp_trunc (FFin False 4503599627370496 11) = Some (2 ^ 63)"
  by (simp add: arithmeticKind_def single_two_63 guard_bound double_to_i64_def signed_def align_def Let_def
      del: to_single.simps)

text \<open>
  An \<open>int\<close> constant of at most 24 bits converted to \<open>float\<close> and back is itself.
\<close>

theorem int_float_int:
  assumes "\<bar>i\<bar> < 2 ^ 24"
  shows "evaluateConstant ub (Expr (Cast CK_FloatToInt b
      (Expr (Cast CK_IntToFloat b' (Expr (IntLiteral (word_of_int i)) l (Some IntTy) RValue))
        l (Some FloatTy) RValue)) l (Some IntTy) RValue) = Some (IntC (word_of_int i))"
proof -
  have si: "signed_take_bit 31 i = i" "signed_take_bit 63 i = i"
    using assms by (auto simp: signed_take_bit_int_eq_self_iff abs_less_iff)
  have w: "wrap32 (word_of_int i) = word_of_int i"
    by (simp add: wrap32_def signed_take_bit_of_int si)
  have s: "sint (word_of_int i :: i64) = i"
    by (simp add: sint_sbintrunc' si)
  obtain m e where f: "fp_of_int i = FFin (i < 0) m e" "real m * 2 powi e = real (nat \<bar>i\<bar>)"
    using fp_of_int_exact [of i] assms by auto
  obtain m' e' where g: "to_single (FFin (i < 0) m e) = FFin (i < 0) m' e'" "real m' * 2 powi e' = real (nat \<bar>i\<bar>)"
    using to_single_int [OF f(2), of "i < 0"] assms nat_less_iff [of "\<bar>i\<bar>" "2 ^ 24"] by auto
  have t: "fp_trunc (FFin (i < 0) m' e') = Some i"
    using fp_trunc_value [OF g(2), of "i < 0"] by (simp add: signed_def)
  have v: "fp_value (FFin (i < 0) m' e') = real_of_int i"
    using g(2) by simp
  have guard: "fp_less (fp_neg guardBound) (FFin (i < 0) m' e') \<and> fp_less (FFin (i < 0) m' e') guardBound"
    using assms unfolding guard_bound fp_neg.simps fp_less_value v by (simp add: abs_less_iff)
  show ?thesis
    using assms guard t by (simp add: arithmeticKind_def w s f g double_to_i64_def abs_less_iff
        del: fp_less.simps fp_trunc.simps to_single.simps)
qed

lemma int_float_int_witness:
  "evaluateConstant (\<lambda>_. 0) (Expr (Cast CK_FloatToInt True
      (Expr (Cast CK_IntToFloat True (Expr (IntLiteral (word_of_int (-7))) (SourceLocation 1 1) (Some IntTy) RValue))
        (SourceLocation 1 1) (Some FloatTy) RValue)) (SourceLocation 1 1) (Some IntTy) RValue) =
   Some (IntC (word_of_int (-7)))"
  by (rule int_float_int) simp

end
