(* ===== verification/Sema.thy ===== *)
theory Sema
  imports ConstEval
begin

text \<open>
  \<open>lib/Sema/Sema.cpp\<close>: the analyzer. Its members change the tree in place; here each takes the
  part of the tree it visits and the analyzer's state, and returns both. \<open>check\<close> holds all the
  recursion over expressions; what each \<open>checkX\<close> member does after its operands were checked
  is a definition of its own (\<open>unaryRule\<close>, \<open>binaryRule\<close> and so on). The scopes are kept
  innermost first: \<open>scopes_.back()\<close> is the head, \<open>scopes_.front()\<close> the last element.
\<close>

section \<open>State\<close>

record symbol =
  sym_id :: symbol_id
  sym_type :: ty
  sym_isConst :: bool
  sym_isFunction :: bool
  sym_isDefined :: bool

definition mkSymbol :: "symbol_id \<Rightarrow> ty \<Rightarrow> bool \<Rightarrow> bool \<Rightarrow> bool \<Rightarrow> symbol" where
  "mkSymbol i t c f d =
     \<lparr>sym_id = i, sym_type = t, sym_isConst = c, sym_isFunction = f, sym_isDefined = d\<rparr>"

lemma mkSymbol_simps [simp]:
  "sym_id (mkSymbol i t c f d) = i" "sym_type (mkSymbol i t c f d) = t"
  "sym_isConst (mkSymbol i t c f d) = c" "sym_isFunction (mkSymbol i t c f d) = f"
  "sym_isDefined (mkSymbol i t c f d) = d"
  by (simp_all add: mkSymbol_def)

type_synonym scope = "string \<rightharpoonup> symbol"

record analyzer =
  an_scopes :: "scope list"
  an_globals :: "symbol_id set"
  an_diags :: "diagnostic list"
  an_nextId :: u32
  an_returnType :: "ty option"
  an_loopDepth :: int

definition newAnalyzer :: analyzer where
  "newAnalyzer = \<lparr>an_scopes = [Map.empty], an_globals = {}, an_diags = [], an_nextId = 1,
     an_returnType = None, an_loopDepth = 0\<rparr>"

definition an_error :: "source_location \<Rightarrow> string \<Rightarrow> analyzer \<Rightarrow> analyzer" where
  "an_error l msg s = s\<lparr>an_diags := an_diags s @ [makeError l msg]\<rparr>"

interpretation sema_sink: diag_sink an_diags an_error
  by unfold_locales (simp add: an_error_def)

text \<open>\<open>fail\<close>: report at the expression and mark it.\<close>

definition failExpr :: "expr \<Rightarrow> string \<Rightarrow> analyzer \<Rightarrow> expr \<times> analyzer" where
  "failExpr e msg s = (set_type None e, an_error (expr_loc e) msg s)"

fun lookup :: "scope list \<Rightarrow> string \<Rightarrow> symbol option" where
  "lookup [] name = None"
| "lookup (sc # scs) name = (case sc name of Some entry \<Rightarrow> Some entry | None \<Rightarrow> lookup scs name)"

text \<open>\<open>scopes_.back().contains\<close>, \<open>scopes_.back().emplace\<close>.\<close>

fun declaredHere :: "scope list \<Rightarrow> string \<Rightarrow> bool" where
  "declaredHere (sc # scs) name \<longleftrightarrow> sc name \<noteq> None"
| "declaredHere [] name \<longleftrightarrow> False"

fun emplaceHere :: "string \<Rightarrow> symbol \<Rightarrow> scope list \<Rightarrow> scope list" where
  "emplaceHere name entry (sc # scs) = (if sc name = None then sc(name \<mapsto> entry) # scs else sc # scs)"
| "emplaceHere name entry [] = []"

definition enterScope :: "scope list \<Rightarrow> scope list" where
  "enterScope scs = Map.empty # scs"

definition newId :: "analyzer \<Rightarrow> symbol_id \<times> analyzer" where
  "newId s = (an_nextId s, s\<lparr>an_nextId := an_nextId s + 1\<rparr>)"

section \<open>Conversions\<close>

definition arithmeticCast :: "ty \<Rightarrow> ty \<Rightarrow> cast_kind" where
  "arithmeticCast from to =
     (if from = to then CK_NoOp
      else if from = FloatTy then CK_FloatToInt
      else if to = FloatTy then CK_IntToFloat
      else CK_IntegralCast)"

definition wrap :: "expr \<Rightarrow> cast_kind \<Rightarrow> ty \<Rightarrow> expr" where
  "wrap e kind to = Expr (Cast kind True e) (expr_loc e) (Some to) RValue"

definition isNullConstant :: "(fp \<Rightarrow> i64) \<Rightarrow> expr \<Rightarrow> bool" where
  "isNullConstant ub e =
     (case expr_type e of
        None \<Rightarrow> False
      | Some t \<Rightarrow> isInteger t \<and> evaluateInteger ub e = Some 0)"

text \<open>The second half of \<open>checkValue\<close>, after \<open>check\<close>.\<close>

definition decay :: "expr \<times> analyzer \<Rightarrow> expr \<times> analyzer" where
  "decay p =
     (case p of (e, s) \<Rightarrow>
       (case expr_type e of
          None \<Rightarrow> (e, s)
        | Some t \<Rightarrow>
            if isArray t then (wrap e CK_ArrayToPointer (PointerTy (element t)), s)
            else if isFunction t then
              failExpr e ''functions cannot be used as values (function pointers are not supported yet)'' s
            else (e, s)))"

definition toArithmetic :: "expr \<Rightarrow> ty \<Rightarrow> expr" where
  "toArithmetic e to =
     (if expr_type e \<noteq> Some to then wrap e (arithmeticCast (the (expr_type e)) to) to else e)"

definition promote :: "expr \<Rightarrow> expr" where
  "promote e = (if expr_type e = Some CharTy then toArithmetic e IntTy else e)"

definition commonType :: "expr \<Rightarrow> expr \<Rightarrow> ty" where
  "commonType a b =
     (if expr_type a = Some FloatTy \<or> expr_type b = Some FloatTy then FloatTy else IntTy)"

definition usualArithmetic :: "expr \<Rightarrow> expr \<Rightarrow> ty \<times> expr \<times> expr" where
  "usualArithmetic a b =
     (let common = commonType a b in (common, toArithmetic a common, toArithmetic b common))"

definition convert ::
    "(fp \<Rightarrow> i64) \<Rightarrow> expr \<Rightarrow> ty \<Rightarrow> string \<Rightarrow> analyzer \<Rightarrow> bool \<times> expr \<times> analyzer" where
  "convert ub e to situation s =
     (let from = the (expr_type e) in
      if from = to then (True, e, s)
      else if isArithmetic from \<and> isArithmetic to then (True, toArithmetic e to, s)
      else if isPointer to \<and> isPointer from \<and> (isVoid (pointee from) \<or> isVoid (pointee to)) then
        (True, wrap e CK_PointerCast to, s)
      else if isPointer to \<and> isNullConstant ub e then (True, wrap e CK_NullToPointer to, s)
      else case failExpr e (''incompatible types when '' @ situation @ '' '' @ quoted_text (str to) @
                   '' from '' @ quoted_text (str from)) s of
             (e', s') \<Rightarrow> (False, e', s'))"

section \<open>Expressions\<close>

definition checkDeclRef :: "string \<Rightarrow> symbol_id \<Rightarrow> source_location \<Rightarrow> ty option \<Rightarrow> value_category \<Rightarrow>
    analyzer \<Rightarrow> expr \<times> analyzer" where
  "checkDeclRef name i l t c s =
     (case lookup (an_scopes s) name of
        None \<Rightarrow> failExpr (Expr (DeclRef name i) l t c)
                  (''use of undeclared identifier '' @ quoted_text name) s
      | Some entry \<Rightarrow> (Expr (DeclRef name (sym_id entry)) l (Some (sym_type entry))
                       (if sym_isFunction entry then RValue else LValue), s))"

definition sizeOfRule :: "expr \<Rightarrow> ty \<Rightarrow> analyzer \<Rightarrow> expr \<times> analyzer" where
  "sizeOfRule e type s =
     (case type_size type of
        None \<Rightarrow> failExpr e (''invalid application of '' @ quoted_text ''sizeof'' @ '' to type '' @
                   quoted_text (str type)) s
      | Some n \<Rightarrow> (Expr (IntLiteral n) (expr_loc e) (Some IntTy) RValue, s))"

definition addrOfRule :: "expr \<Rightarrow> expr \<Rightarrow> analyzer \<Rightarrow> expr \<times> analyzer" where
  "addrOfRule e operand s =
     (case expr_type operand of
        None \<Rightarrow> (set_type None e, s)
      | Some t \<Rightarrow>
          if \<not> isLValue operand then
            failExpr e (''cannot take the address of an rvalue of type '' @ quoted_text (str t)) s
          else (set_type (Some (PointerTy t)) e, s))"

definition unaryRule :: "unary_op \<Rightarrow> expr \<Rightarrow> source_location \<Rightarrow> ty option \<Rightarrow> value_category \<Rightarrow>
    analyzer \<Rightarrow> expr \<times> analyzer" where
  "unaryRule op x l t c s =
     (let e = Expr (Unary op x) l t c in
      case expr_type x of
        None \<Rightarrow> (set_type None e, s)
      | Some tx \<Rightarrow>
         (case op of
            UO_Not \<Rightarrow>
              if \<not> isScalar tx then
                failExpr e (''invalid argument type '' @ quoted_text (str tx) @ '' to unary expression'') s
              else (set_type (Some IntTy) e, s)
          | UO_Deref \<Rightarrow>
              if \<not> isPointer tx then
                failExpr e (''indirection requires pointer operand ('' @ quoted_text (str tx) @ '' invalid)'') s
              else if isVoid (pointee tx) then
                failExpr e (''cannot dereference a '' @ quoted_text ''void *'' @ '' pointer'') s
              else (Expr (Unary op x) l (Some (pointee tx)) LValue, s)
          | UO_AddrOf \<Rightarrow> (e, s)
          | _ \<Rightarrow>
              if \<not> isArithmetic tx then
                failExpr e (''invalid argument type '' @ quoted_text (str tx) @ '' to unary expression'') s
              else (Expr (Unary op (promote x)) l (expr_type (promote x)) c, s)))"

definition invalidOperands :: "expr \<Rightarrow> ty \<Rightarrow> ty \<Rightarrow> analyzer \<Rightarrow> expr \<times> analyzer" where
  "invalidOperands e lt rt s =
     failExpr e (''invalid operands to binary expression ('' @ quoted_text (str lt) @ '' and '' @
       quoted_text (str rt) @ '')'') s"

definition incompletePointee :: "expr \<Rightarrow> ty \<Rightarrow> analyzer \<Rightarrow> expr \<times> analyzer" where
  "incompletePointee e ptr s =
     failExpr e (''arithmetic on a pointer to incomplete type '' @ quoted_text (str (pointee ptr))) s"

text \<open>\<open>e.type = usualArithmetic(l, r)\<close>.\<close>

definition arithmeticBinary :: "binary_op \<Rightarrow> expr \<Rightarrow> expr \<Rightarrow> source_location \<Rightarrow> value_category \<Rightarrow> expr" where
  "arithmeticBinary op a b l c =
     (case usualArithmetic a b of (common, a', b') \<Rightarrow> Expr (Binary op a' b') l (Some common) c)"

definition addRule :: "expr \<Rightarrow> expr \<Rightarrow> ty \<Rightarrow> ty \<Rightarrow> source_location \<Rightarrow> ty option \<Rightarrow> value_category \<Rightarrow>
    analyzer \<Rightarrow> expr \<times> analyzer" where
  "addRule a b lt rt l t c s =
     (if isArithmetic lt \<and> isArithmetic rt then (arithmeticBinary BO_Add a b l c, s)
      else
        let (x, y) = (if isInteger lt \<and> isPointer rt then (b, a) else (a, b));
            xt = the (expr_type x);
            yt = the (expr_type y)
        in if isPointer xt \<and> isInteger yt then
             (if type_size (pointee xt) = None then incompletePointee (Expr (Binary BO_Add x y) l t c) xt s
              else (Expr (Binary BO_Add x (promote y)) l (Some xt) c, s))
           else invalidOperands (Expr (Binary BO_Add x y) l t c) lt rt s)"

definition subRule :: "expr \<Rightarrow> expr \<Rightarrow> ty \<Rightarrow> ty \<Rightarrow> source_location \<Rightarrow> ty option \<Rightarrow> value_category \<Rightarrow>
    analyzer \<Rightarrow> expr \<times> analyzer" where
  "subRule a b lt rt l t c s =
     (let e = Expr (Binary BO_Sub a b) l t c in
      if isArithmetic lt \<and> isArithmetic rt then (arithmeticBinary BO_Sub a b l c, s)
      else if isPointer lt \<and> isInteger rt then
        (if type_size (pointee lt) = None then incompletePointee e lt s
         else (Expr (Binary BO_Sub a (promote b)) l (Some lt) c, s))
      else if isPointer lt \<and> lt = rt then
        (if type_size (pointee lt) = None then incompletePointee e lt s
         else (set_type (Some IntTy) e, s))
      else invalidOperands e lt rt s)"

definition comparisonRule :: "(fp \<Rightarrow> i64) \<Rightarrow> binary_op \<Rightarrow> expr \<Rightarrow> expr \<Rightarrow> ty \<Rightarrow> ty \<Rightarrow> source_location \<Rightarrow>
    value_category \<Rightarrow> analyzer \<Rightarrow> expr \<times> analyzer" where
  "comparisonRule ub op a b lt rt l c s =
     (let e = Expr (Binary op a b) l (Some IntTy) c in
      if isArithmetic lt \<and> isArithmetic rt then
        (case usualArithmetic a b of (common, a', b') \<Rightarrow> (Expr (Binary op a' b') l (Some IntTy) c, s))
      else if isPointer lt \<and> isPointer rt then
        (if lt \<noteq> rt \<and> \<not> isVoid (pointee lt) \<and> \<not> isVoid (pointee rt) then
           failExpr e (''comparison of distinct pointer types ('' @ quoted_text (str lt) @ '' and '' @
             quoted_text (str rt) @ '')'') s
         else if lt \<noteq> rt then (Expr (Binary op a (wrap b CK_PointerCast lt)) l (Some IntTy) c, s)
         else (e, s))
      else if isPointer lt \<and> isNullConstant ub b then
        (Expr (Binary op a (wrap b CK_NullToPointer lt)) l (Some IntTy) c, s)
      else if isPointer rt \<and> isNullConstant ub a then
        (Expr (Binary op (wrap a CK_NullToPointer rt) b) l (Some IntTy) c, s)
      else invalidOperands e lt rt s)"

definition binaryRule :: "(fp \<Rightarrow> i64) \<Rightarrow> binary_op \<Rightarrow> expr \<Rightarrow> expr \<Rightarrow> source_location \<Rightarrow> ty option \<Rightarrow>
    value_category \<Rightarrow> analyzer \<Rightarrow> expr \<times> analyzer" where
  "binaryRule ub op a b l t c s =
     (let e = Expr (Binary op a b) l t c in
      case (expr_type a, expr_type b) of
        (Some lt, Some rt) \<Rightarrow>
          if op = BO_LogAnd \<or> op = BO_LogOr then
            (if \<not> isScalar lt \<or> \<not> isScalar rt then invalidOperands e lt rt s
             else (set_type (Some IntTy) e, s))
          else if op = BO_Mul \<or> op = BO_Div then
            (if \<not> isArithmetic lt \<or> \<not> isArithmetic rt then invalidOperands e lt rt s
             else (arithmeticBinary op a b l c, s))
          else if op = BO_Rem then
            (if \<not> isInteger lt \<or> \<not> isInteger rt then invalidOperands e lt rt s
             else (arithmeticBinary op a b l c, s))
          else if op = BO_Add then addRule a b lt rt l t c s
          else if op = BO_Sub then subRule a b lt rt l t c s
          else comparisonRule ub op a b lt rt l c s
      | _ \<Rightarrow> (set_type None e, s))"

text \<open>A reference to a \<open>const\<close> variable.\<close>

definition constTarget :: "scope list \<Rightarrow> expr \<Rightarrow> bool" where
  "constTarget scs e =
     (case node e of
        DeclRef name i \<Rightarrow> (case lookup scs name of Some entry \<Rightarrow> sym_isConst entry | None \<Rightarrow> False)
      | _ \<Rightarrow> False)"

definition refName :: "expr \<Rightarrow> string" where
  "refName e = (case node e of DeclRef name i \<Rightarrow> name | _ \<Rightarrow> [])"

definition assignRule :: "(fp \<Rightarrow> i64) \<Rightarrow> expr \<Rightarrow> expr \<Rightarrow> source_location \<Rightarrow> ty option \<Rightarrow> value_category \<Rightarrow>
    analyzer \<Rightarrow> expr \<times> analyzer" where
  "assignRule ub target v l t c s =
     (let e = Expr (Assign target v) l t c in
      case (expr_type target, expr_type v) of
        (Some tt, Some tv) \<Rightarrow>
          if \<not> isLValue target then failExpr e ''expression is not assignable'' s
          else if isArray tt then
            failExpr e (''array type '' @ quoted_text (str tt) @ '' is not assignable'') s
          else if constTarget (an_scopes s) target then
            failExpr e (''cannot assign to variable '' @ quoted_text (refName target) @
              '' with const-qualified type'') s
          else (case convert ub v tt ''assigning to'' s of
                  (ok, v', s') \<Rightarrow> (Expr (Assign target v') l (if ok then Some tt else None) c, s'))
      | _ \<Rightarrow> (set_type None e, s))"

text \<open>The loop over the arguments of a call; \<open>ps\<close> are the parameters not yet matched.\<close>

fun convertArgs :: "(fp \<Rightarrow> i64) \<Rightarrow> ty list \<Rightarrow> expr list \<Rightarrow> bool \<Rightarrow> analyzer \<Rightarrow>
    bool \<times> expr list \<times> analyzer" where
  "convertArgs ub ps [] ok s = (ok, [], s)"
| "convertArgs ub ps (a # args) ok s =
     (case expr_type a of
        None \<Rightarrow>
          (case convertArgs ub (tl ps) args False s of (ok', args', s') \<Rightarrow> (ok', a # args', s'))
      | Some t \<Rightarrow>
          (case ps of
             p # ps' \<Rightarrow>
               (case convert ub a p ''passing'' s of (okA, a', s1) \<Rightarrow>
                 (case convertArgs ub ps' args (ok \<and> okA) s1 of (ok', args', s') \<Rightarrow> (ok', a' # args', s')))
           | [] \<Rightarrow>
               if isVoid t then
                 (case failExpr a (''argument may not have '' @ quoted_text ''void'' @ '' type'') s of (a', s1) \<Rightarrow>
                   (case convertArgs ub [] args False s1 of (ok', args', s') \<Rightarrow> (ok', a' # args', s')))
               else
                 (case convertArgs ub [] args ok s of (ok', args', s') \<Rightarrow> (ok', promote a # args', s'))))"

definition callRule :: "(fp \<Rightarrow> i64) \<Rightarrow> expr \<Rightarrow> expr list \<Rightarrow> source_location \<Rightarrow> ty option \<Rightarrow> value_category \<Rightarrow>
    analyzer \<Rightarrow> expr \<times> analyzer" where
  "callRule ub callee args l t c s =
     (let e = Expr (Call callee args) l t c in
      case expr_type callee of
        None \<Rightarrow> (set_type None e, s)
      | Some fn \<Rightarrow>
         (if \<not> isFunction fn then
            failExpr e (''called object type '' @ quoted_text (str fn) @ '' is not a function'') s
          else
            let expected = length (params fn); given = length args in
            if given < expected \<or> (expected < given \<and> \<not> variadic fn) then
              failExpr e (''too '' @ (if given < expected then ''few'' else ''many'') @
                '' arguments to function call, expected '' @ dec expected @ '', have '' @ dec given) s
            else case convertArgs ub (params fn) args True s of
              (ok, args', s') \<Rightarrow>
                (Expr (Call callee args') l (if ok then Some (returnType fn) else None) c, s')))"

definition castRule :: "expr \<Rightarrow> bool \<Rightarrow> source_location \<Rightarrow> ty option \<Rightarrow> value_category \<Rightarrow> analyzer \<Rightarrow>
    expr \<times> analyzer" where
  "castRule x imp l t c s =
     (let e = Expr (Cast CK_Unresolved imp x) l t c; to = the t; kinded = (\<lambda>k. Expr (Cast k imp x) l t c) in
      case expr_type x of
        None \<Rightarrow> (set_type None e, s)
      | Some from \<Rightarrow>
          if isVoid to then (kinded CK_ToVoid, s)
          else if isArithmetic from \<and> isArithmetic to then (kinded (arithmeticCast from to), s)
          else if isPointer from \<and> isPointer to then (kinded CK_PointerCast, s)
          else if isInteger from \<and> isPointer to then (kinded CK_IntToPointer, s)
          else if isPointer from \<and> isInteger to then (kinded CK_PointerToInt, s)
          else failExpr e (''cannot cast from '' @ quoted_text (str from) @ '' to '' @ quoted_text (str to)) s)"

text \<open>The size of an expression for the recursion of \<open>check\<close>; an index is worth its desugaring.\<close>

primrec weight :: "expr \<Rightarrow> nat" and node_weight :: "expr_node \<Rightarrow> nat" where
  "weight (Expr n l t c) = Suc (node_weight n)"
| "node_weight (IntLiteral v) = 0"
| "node_weight (FloatLiteral v) = 0"
| "node_weight (StringLiteral b) = 0"
| "node_weight (DeclRef n i) = 0"
| "node_weight (Unary op x) = Suc (weight x)"
| "node_weight (Binary op a b) = Suc (weight a + weight b)"
| "node_weight (Assign a b) = Suc (weight a + weight b)"
| "node_weight (Call f args) = Suc (weight f + sum_list (map Suc (map weight args)))"
| "node_weight (Index a b) = 5 + weight a + weight b"
| "node_weight (Cast k imp x) = Suc (weight x)"
| "node_weight (SizeOfType t) = 0"
| "node_weight (SizeOfExpr x) = Suc (weight x)"

definition args_weight :: "expr list \<Rightarrow> nat" where
  "args_weight args = sum_list (map Suc (map weight args))"

lemma args_weight_simps [simp]:
  "args_weight [] = 0" "args_weight (a # args) = Suc (weight a) + args_weight args"
  by (simp_all add: args_weight_def)

lemma weight_call [simp]: "weight (Expr (Call f args) l t c) = Suc (Suc (weight f + args_weight args))"
  by (simp add: args_weight_def)

text \<open>The desugaring of \<open>a[i]\<close> to \<open>*(a + i)\<close>.\<close>

definition desugarIndex :: "expr \<Rightarrow> expr \<Rightarrow> source_location \<Rightarrow> expr" where
  "desugarIndex a i l =
     Expr (Unary UO_Deref (Expr (Binary BO_Add a i) l None RValue)) l None RValue"

function check :: "(fp \<Rightarrow> i64) \<Rightarrow> expr \<Rightarrow> analyzer \<Rightarrow> expr \<times> analyzer"
and checkArgs :: "(fp \<Rightarrow> i64) \<Rightarrow> expr list \<Rightarrow> analyzer \<Rightarrow> expr list \<times> analyzer" where
  "check ub (Expr (IntLiteral v) l t c) s = (Expr (IntLiteral v) l (Some IntTy) c, s)"
| "check ub (Expr (FloatLiteral v) l t c) s = (Expr (FloatLiteral v) l (Some FloatTy) c, s)"
| "check ub (Expr (StringLiteral b) l t c) s =
     (Expr (StringLiteral b) l (Some (ArrayTy CharTy (word_of_nat (length b + 1)))) LValue, s)"
| "check ub (Expr (DeclRef n i) l t c) s = checkDeclRef n i l t c s"
| "check ub (Expr (Unary op x) l t c) s =
     (if op = UO_AddrOf then
        (case check ub x s of (x', s1) \<Rightarrow> addrOfRule (Expr (Unary op x') l t c) x' s1)
      else
        (case decay (check ub x s) of (x', s1) \<Rightarrow> unaryRule op x' l t c s1))"
| "check ub (Expr (Binary op a b) l t c) s =
     (case decay (check ub a s) of (a', s1) \<Rightarrow>
       (case decay (check ub b s1) of (b', s2) \<Rightarrow> binaryRule ub op a' b' l t c s2))"
| "check ub (Expr (Assign a b) l t c) s =
     (case check ub a s of (a', s1) \<Rightarrow>
       (case decay (check ub b s1) of (b', s2) \<Rightarrow> assignRule ub a' b' l t c s2))"
| "check ub (Expr (Call f args) l t c) s =
     (case check ub f s of (f', s1) \<Rightarrow>
       (case checkArgs ub args s1 of (args', s2) \<Rightarrow> callRule ub f' args' l t c s2))"
| "check ub (Expr (Index a i) l t c) s = check ub (desugarIndex a i l) s"
| "check ub (Expr (Cast k imp x) l t c) s =
     (if k \<noteq> CK_Unresolved then (Expr (Cast k imp x) l t c, s)
      else (case decay (check ub x s) of (x', s1) \<Rightarrow> castRule x' imp l t c s1))"
| "check ub (Expr (SizeOfType type) l t c) s = sizeOfRule (Expr (SizeOfType type) l t c) type s"
| "check ub (Expr (SizeOfExpr x) l t c) s =
     (case check ub x s of (x', s1) \<Rightarrow>
       (case expr_type x' of
          None \<Rightarrow> (Expr (SizeOfExpr x') l None c, s1)
        | Some type \<Rightarrow> sizeOfRule (Expr (SizeOfExpr x') l t c) type s1))"
| "checkArgs ub [] s = ([], s)"
| "checkArgs ub (a # args) s =
     (case decay (check ub a s) of (a', s1) \<Rightarrow>
       (case checkArgs ub args s1 of (args', s2) \<Rightarrow> (a' # args', s2)))"
  by pat_completeness auto
termination
  by (relation "measure (case_sum (\<lambda>(ub, e, s). weight e) (\<lambda>(ub, args, s). args_weight args))")
    (simp_all add: desugarIndex_def args_weight_def)

definition checkValue :: "(fp \<Rightarrow> i64) \<Rightarrow> expr \<Rightarrow> analyzer \<Rightarrow> expr \<times> analyzer" where
  "checkValue ub e s = decay (check ub e s)"

end
