(* ===== verification/SemaTypes.thy ===== *)
theory SemaTypes
  imports Sema
begin

text \<open>
  What a checked expression promises to the phases after the analyzer, as a typing judgement on
  annotated trees that is independent of how the analyzer computes them, and the proof that
  \<open>check\<close> establishes it: every conversion is explicit, every name is resolved to the symbol in
  scope, no \<open>Index\<close> or \<open>sizeof\<close> is left, and the operands of every operator have the types the
  code generator relies on.
\<close>

section \<open>Scopes\<close>

text \<open>
  The contract of the scope stack: a new scope hides nothing, a name bound in the innermost scope
  is found first, and leaving a scope brings back what was visible before it was entered.
\<close>

locale scope_stack =
  fixes find :: "'s \<Rightarrow> string \<Rightarrow> 'v option"
    and enter :: "'s \<Rightarrow> 's"
    and leave :: "'s \<Rightarrow> 's"
    and bind :: "string \<Rightarrow> 'v \<Rightarrow> 's \<Rightarrow> 's"
    and bound_here :: "'s \<Rightarrow> string \<Rightarrow> bool"
    and usable :: "'s \<Rightarrow> bool"
  assumes find_enter: "find (enter s) n = find s n"
    and usable_enter: "usable (enter s)"
    and leave_enter: "leave (enter s) = s"
    and fresh_enter: "\<not> bound_here (enter s) n"
    and find_bind: "usable s \<Longrightarrow> \<not> bound_here s n \<Longrightarrow> find (bind n v s) m = (if m = n then Some v else find s m)"
    and usable_bind: "usable s \<Longrightarrow> usable (bind n v s)"
    and leave_bind: "usable s \<Longrightarrow> leave (bind n v s) = leave s"
    and bound_bind: "usable s \<Longrightarrow> bound_here (bind n v s) m \<longleftrightarrow> m = n \<or> bound_here s m"
begin

text \<open>Binding a list of distinct names in a new scope.\<close>

definition bind_all :: "(string \<times> 'v) list \<Rightarrow> 's \<Rightarrow> 's" where
  "bind_all nvs s = fold (\<lambda>(n, v). bind n v) nvs s"

lemma usable_bind_all: "usable s \<Longrightarrow> usable (bind_all nvs s)"
  unfolding bind_all_def by (induction nvs arbitrary: s) (auto intro: usable_bind)

lemma leave_bind_all: "usable s \<Longrightarrow> leave (bind_all nvs s) = leave s"
  unfolding bind_all_def
  by (induction nvs arbitrary: s) (auto simp: leave_bind usable_bind)

lemma block_restores: "leave (bind_all nvs (enter s)) = s"
  by (simp add: leave_bind_all usable_enter leave_enter)

lemma find_shadows:
  "find (bind n v (enter s)) m = (if m = n then Some v else find s m)"
  by (simp add: find_bind usable_enter fresh_enter find_enter)

end

interpretation scopes: scope_stack lookup enterScope tl emplaceHere declaredHere "\<lambda>s. s \<noteq> []"
proof
  fix s :: "scope list" and n m v
  assume s: "s \<noteq> []"
  then obtain a r where [simp]: "s = a # r" by (cases s) auto
  show "tl (emplaceHere n v s) = tl s" by simp
  show "declaredHere (emplaceHere n v s) m \<longleftrightarrow> m = n \<or> declaredHere s m" by auto
  show "emplaceHere n v s \<noteq> []" by simp
  show "lookup (emplaceHere n v s) m = (if m = n then Some v else lookup s m)" if "\<not> declaredHere s n"
    using that by simp
qed (simp_all add: enterScope_def)

section \<open>Input trees\<close>

text \<open>Trees as the parser builds them: no annotation but the target type of a cast.\<close>

primrec parsed :: "expr \<Rightarrow> bool" and parsedNode :: "expr_node \<Rightarrow> ty option \<Rightarrow> bool" where
  "parsed (Expr n l t c) \<longleftrightarrow> c = RValue \<and> parsedNode n t"
| "parsedNode (IntLiteral v) t \<longleftrightarrow> t = None"
| "parsedNode (FloatLiteral v) t \<longleftrightarrow> t = None"
| "parsedNode (StringLiteral b) t \<longleftrightarrow> t = None"
| "parsedNode (DeclRef n i) t \<longleftrightarrow> t = None"
| "parsedNode (Unary op x) t \<longleftrightarrow> t = None \<and> parsed x"
| "parsedNode (Binary op a b) t \<longleftrightarrow> t = None \<and> parsed a \<and> parsed b"
| "parsedNode (Assign a b) t \<longleftrightarrow> t = None \<and> parsed a \<and> parsed b"
| "parsedNode (Call f args) t \<longleftrightarrow> t = None \<and> parsed f \<and> list_all id (map parsed args)"
| "parsedNode (Index a b) t \<longleftrightarrow> t = None \<and> parsed a \<and> parsed b"
| "parsedNode (Cast k imp x) t \<longleftrightarrow> t \<noteq> None \<and> k = CK_Unresolved \<and> \<not> imp \<and> parsed x"
| "parsedNode (SizeOfType ty) t \<longleftrightarrow> t = None"
| "parsedNode (SizeOfExpr x) t \<longleftrightarrow> t = None \<and> parsed x"

section \<open>The typing judgement\<close>

text \<open>A type whose values expressions can have: neither array nor function.\<close>

definition valueType :: "ty \<Rightarrow> bool" where
  "valueType t \<longleftrightarrow> \<not> isArray t \<and> \<not> isFunction t"

definition computes :: "ty \<Rightarrow> bool" where
  "computes t \<longleftrightarrow> t = IntTy \<or> t = FloatTy"

definition unaryOk :: "unary_op \<Rightarrow> ty \<Rightarrow> value_category \<Rightarrow> ty \<Rightarrow> value_category \<Rightarrow> bool" where
  "unaryOk op tx cx t c \<longleftrightarrow>
     (case op of
        UO_Not \<Rightarrow> isScalar tx \<and> t = IntTy \<and> c = RValue
      | UO_Deref \<Rightarrow> tx = PointerTy t \<and> t \<noteq> VoidTy \<and> c = LValue
      | UO_AddrOf \<Rightarrow> cx = LValue \<and> t = PointerTy tx \<and> c = RValue
      | _ \<Rightarrow> computes tx \<and> t = tx \<and> c = RValue)"

definition completePointer :: "ty \<Rightarrow> bool" where
  "completePointer t \<longleftrightarrow> isPointer t \<and> type_size (pointee t) \<noteq> None"

definition binaryOk :: "binary_op \<Rightarrow> ty \<Rightarrow> ty \<Rightarrow> ty \<Rightarrow> bool" where
  "binaryOk op ta tb t \<longleftrightarrow>
     (if op = BO_LogAnd \<or> op = BO_LogOr then isScalar ta \<and> isScalar tb \<and> t = IntTy
      else if op = BO_Mul \<or> op = BO_Div then computes t \<and> ta = t \<and> tb = t
      else if op = BO_Rem then ta = IntTy \<and> tb = IntTy \<and> t = IntTy
      else if op = BO_Add then
        (computes t \<and> ta = t \<and> tb = t) \<or> (completePointer ta \<and> tb = IntTy \<and> t = ta)
      else if op = BO_Sub then
        (computes t \<and> ta = t \<and> tb = t) \<or> (completePointer ta \<and> tb = IntTy \<and> t = ta) \<or>
        (completePointer ta \<and> tb = ta \<and> t = IntTy)
      else (computes ta \<or> isPointer ta) \<and> tb = ta \<and> t = IntTy)"

definition castOk :: "(fp \<Rightarrow> i64) \<Rightarrow> cast_kind \<Rightarrow> expr \<Rightarrow> ty \<Rightarrow> ty \<Rightarrow> bool" where
  "castOk ub k x from to \<longleftrightarrow>
     (case k of
        CK_Unresolved \<Rightarrow> False
      | CK_NoOp \<Rightarrow> from = to \<and> isArithmetic to
      | CK_IntegralCast \<Rightarrow> isInteger from \<and> isInteger to \<and> from \<noteq> to
      | CK_IntToFloat \<Rightarrow> isInteger from \<and> to = FloatTy
      | CK_FloatToInt \<Rightarrow> from = FloatTy \<and> isInteger to
      | CK_ArrayToPointer \<Rightarrow> isArray from \<and> to = PointerTy (element from)
      | CK_NullToPointer \<Rightarrow> isNullConstant ub x \<and> isPointer to
      | CK_PointerCast \<Rightarrow> isPointer from \<and> isPointer to
      | CK_PointerToInt \<Rightarrow> isPointer from \<and> isInteger to
      | CK_IntToPointer \<Rightarrow> isInteger from \<and> isPointer to
      | CK_ToVoid \<Rightarrow> valueType from \<and> to = VoidTy)"

text \<open>The arguments: one of its type for each parameter, promoted values for the rest.\<close>

definition argsOk :: "ty \<Rightarrow> expr list \<Rightarrow> bool" where
  "argsOk fn args \<longleftrightarrow>
     (\<exists>fixed rest. args = fixed @ rest \<and> map expr_type fixed = map Some (params fn) \<and>
        (rest = [] \<or> variadic fn) \<and>
        (\<forall>a \<in> set rest. \<exists>t. expr_type a = Some t \<and> valueType t \<and> t \<noteq> VoidTy \<and> t \<noteq> CharTy))"

primrec wellTyped :: "(fp \<Rightarrow> i64) \<Rightarrow> scope list \<Rightarrow> expr \<Rightarrow> bool"
and wtNode :: "(fp \<Rightarrow> i64) \<Rightarrow> scope list \<Rightarrow> expr_node \<Rightarrow> ty option \<Rightarrow> value_category \<Rightarrow> bool" where
  "wellTyped ub scs (Expr n l t c) \<longleftrightarrow> t \<noteq> None \<and> wtNode ub scs n t c"
| "wtNode ub scs (IntLiteral v) t c \<longleftrightarrow> t = Some IntTy \<and> c = RValue"
| "wtNode ub scs (FloatLiteral v) t c \<longleftrightarrow> t = Some FloatTy \<and> c = RValue"
| "wtNode ub scs (StringLiteral b) t c \<longleftrightarrow>
     t = Some (ArrayTy CharTy (word_of_nat (length b + 1))) \<and> c = LValue"
| "wtNode ub scs (DeclRef n i) t c \<longleftrightarrow>
     (case lookup scs n of
        None \<Rightarrow> False
      | Some entry \<Rightarrow> i = sym_id entry \<and> t = Some (sym_type entry) \<and>
          c = (if sym_isFunction entry then RValue else LValue))"
| "wtNode ub scs (Unary op x) t c \<longleftrightarrow>
     wellTyped ub scs x \<and> unaryOk op (the (expr_type x)) (category x) (the t) c"
| "wtNode ub scs (Binary op a b) t c \<longleftrightarrow>
     wellTyped ub scs a \<and> wellTyped ub scs b \<and>
     binaryOk op (the (expr_type a)) (the (expr_type b)) (the t) \<and> c = RValue"
| "wtNode ub scs (Assign a b) t c \<longleftrightarrow>
     wellTyped ub scs a \<and> wellTyped ub scs b \<and> category a = LValue \<and> \<not> constTarget scs a \<and>
     expr_type a = t \<and> expr_type b = t \<and> valueType (the t) \<and> c = RValue"
| "wtNode ub scs (Call f args) t c \<longleftrightarrow>
     wellTyped ub scs f \<and> list_all id (map (wellTyped ub scs) args) \<and> isFunction (the (expr_type f)) \<and>
     t = Some (returnType (the (expr_type f))) \<and> argsOk (the (expr_type f)) args \<and> c = RValue"
| "wtNode ub scs (Index a b) t c \<longleftrightarrow> False"
| "wtNode ub scs (Cast k imp x) t c \<longleftrightarrow>
     wellTyped ub scs x \<and> castOk ub k x (the (expr_type x)) (the t) \<and> c = RValue"
| "wtNode ub scs (SizeOfType ty) t c \<longleftrightarrow> False"
| "wtNode ub scs (SizeOfExpr x) t c \<longleftrightarrow> False"

lemma wellTyped_type: "wellTyped ub scs e \<Longrightarrow> \<exists>t. expr_type e = Some t"
  by (cases e) auto

text \<open>An expression of type \<open>t\<close>, a type that values can have.\<close>

definition hasType :: "(fp \<Rightarrow> i64) \<Rightarrow> scope list \<Rightarrow> expr \<Rightarrow> ty \<Rightarrow> bool" where
  "hasType ub scs e t \<longleftrightarrow> wellTyped ub scs e \<and> expr_type e = Some t \<and> valueType t"

lemma hasTypeD:
  assumes "hasType ub scs e t"
  shows "wellTyped ub scs e" "expr_type e = Some t" "valueType t"
  using assms by (simp_all add: hasType_def)

section \<open>What a step of the analysis does\<close>

text \<open>Checking an expression changes nothing but the diagnostics, which grow.\<close>

definition reports :: "analyzer \<Rightarrow> analyzer \<Rightarrow> bool" where
  "reports s s' \<longleftrightarrow> (\<exists>ds. ds \<noteq> [] \<and> s' = s\<lparr>an_diags := an_diags s @ ds\<rparr>)"

lemma reports_error [simp, intro!]: "reports s (an_error l m s)"
  unfolding reports_def an_error_def by blast

lemma reports_trans [trans]: "reports s t \<Longrightarrow> reports t u \<Longrightarrow> reports s u"
  unfolding reports_def by auto

lemma reports_env:
  assumes "reports s t"
  shows "an_scopes t = an_scopes s" "an_globals t = an_globals s" "an_nextId t = an_nextId s"
    "an_returnType t = an_returnType s" "an_loopDepth t = an_loopDepth s"
  using assms unfolding reports_def by auto

lemma reports_diags: "reports s t \<Longrightarrow> an_diags t \<noteq> an_diags s"
  and reports_nonempty: "reports s t \<Longrightarrow> an_diags t \<noteq> []"
  and reports_extends: "reports s t \<Longrightarrow> sema_sink.extends s t"
  unfolding reports_def sema_sink.extends_def by auto

text \<open>
  The outcome of checking an expression: a typed tree and an unchanged state, or no type and at
  least one report.
\<close>

definition outcome :: "(fp \<Rightarrow> i64) \<Rightarrow> analyzer \<Rightarrow> expr \<times> analyzer \<Rightarrow> bool" where
  "outcome ub s p \<longleftrightarrow>
     (if expr_type (fst p) = None then reports s (snd p)
      else snd p = s \<and> wellTyped ub (an_scopes s) (fst p))"

definition valueOutcome :: "(fp \<Rightarrow> i64) \<Rightarrow> analyzer \<Rightarrow> expr \<times> analyzer \<Rightarrow> bool" where
  "valueOutcome ub s p \<longleftrightarrow>
     outcome ub s p \<and> (\<forall>t. expr_type (fst p) = Some t \<longrightarrow> valueType t)"

lemma outcome_cases [consumes 1, case_names silent typed]:
  assumes "outcome ub s (e, s')"
  obtains "expr_type e = None" "reports s s'"
    | t where "expr_type e = Some t" "s' = s" "wellTyped ub (an_scopes s) e"
  using assms by (auto simp: outcome_def split: if_splits)

lemma valueOutcome_cases [consumes 1, case_names silent typed]:
  assumes "valueOutcome ub s (e, s')"
  obtains "expr_type e = None" "reports s s'"
    | t where "expr_type e = Some t" "s' = s" "wellTyped ub (an_scopes s) e" "valueType t"
  using assms unfolding valueOutcome_def by (auto elim: outcome_cases)

lemma outcome_typed: "wellTyped ub (an_scopes s) e \<Longrightarrow> outcome ub s (e, s)"
  using wellTyped_type [of ub "an_scopes s" e] by (auto simp: outcome_def)

lemma outcome_silent: "expr_type e = None \<Longrightarrow> reports s s' \<Longrightarrow> outcome ub s (e, s')"
  by (simp add: outcome_def)

lemma outcome_fail [simp, intro!]: "outcome ub s (failExpr e m s)"
  by (simp add: outcome_def failExpr_def)

lemma valueOutcome_fail [simp, intro!]: "valueOutcome ub s (failExpr e m s)"
  by (simp add: valueOutcome_def outcome_fail) (simp add: failExpr_def)

lemma wellTyped_set_type [simp]:
  "wellTyped ub scs (set_type t (Expr n l t' c)) \<longleftrightarrow> t \<noteq> None \<and> wtNode ub scs n t c"
  by (simp add: set_type_def)

section \<open>Conversions\<close>

lemma wellTyped_wrap [simp]:
  "wellTyped ub scs (wrap e k to) \<longleftrightarrow> wellTyped ub scs e \<and> castOk ub k e (the (expr_type e)) to"
  by (simp add: wrap_def)

lemma wrap_simps [simp]:
  "expr_type (wrap e k to) = Some to" "expr_loc (wrap e k to) = expr_loc e" "category (wrap e k to) = RValue"
  by (simp_all add: wrap_def)

text \<open>Every arithmetic conversion has the kind the evaluator and the code generator expect.\<close>

lemma castOk_arithmetic:
  "isArithmetic from \<Longrightarrow> isArithmetic to \<Longrightarrow> castOk ub (arithmeticCast from to) x from to"
  by (auto simp: castOk_def arithmeticCast_def isArithmetic_def isInteger_iff)

lemma toArithmetic_type [simp]: "expr_type (toArithmetic e to) = Some to"
  by (auto simp: toArithmetic_def)

lemma toArithmetic_wellTyped:
  assumes "wellTyped ub scs e" "expr_type e = Some t" "isArithmetic t" "isArithmetic to"
  shows "wellTyped ub scs (toArithmetic e to)"
  using assms castOk_arithmetic by (auto simp: toArithmetic_def)

lemma promote_type:
  "expr_type e = Some t \<Longrightarrow> expr_type (promote e) = Some (if t = CharTy then IntTy else t)"
  by (simp add: promote_def)

lemma promote_wellTyped:
  assumes "wellTyped ub scs e" "expr_type e = Some t"
  shows "wellTyped ub scs (promote e)"
  using assms toArithmetic_wellTyped [OF assms, of IntTy] by (auto simp: promote_def isArithmetic_def)

lemma commonType_cases:
  assumes "expr_type a = Some ta" "expr_type b = Some tb"
  shows "computes (commonType a b)" "isArithmetic (commonType a b)"
    "isInteger ta \<Longrightarrow> isInteger tb \<Longrightarrow> commonType a b = IntTy"
  using assms by (auto simp: commonType_def computes_def isArithmetic_def isInteger_iff)

lemma decay_outcome:
  assumes "outcome ub s p"
  shows "valueOutcome ub s (decay p)"
proof -
  obtain e s' where p: "p = (e, s')" by (cases p)
  have "outcome ub s (e, s')" using assms p by simp
  thus ?thesis
  proof (cases rule: outcome_cases)
    case silent
    thus ?thesis using p by (simp add: decay_def valueOutcome_def outcome_def)
  next
    case (typed t)
    thus ?thesis using p
      by (auto simp: decay_def valueOutcome_def outcome_def castOk_def valueType_def failExpr_def)
  qed
qed

text \<open>A conversion as if by assignment.\<close>

lemma convert_outcome:
  assumes e: "wellTyped ub (an_scopes s) e" "expr_type e = Some from" "valueType from"
    and c: "convert ub e to m s = (ok, e', s')"
  shows "if ok then s' = s \<and> wellTyped ub (an_scopes s) e' \<and> expr_type e' = Some to \<and> valueType to
         else reports s s' \<and> expr_type e' = None"
proof -
  consider (same) "from = to" | (arith) "from \<noteq> to" "isArithmetic from" "isArithmetic to"
    | (void) "from \<noteq> to" "isPointer to" "isPointer from" "isVoid (pointee from) \<or> isVoid (pointee to)"
    | (null) "from \<noteq> to" "\<not> (isArithmetic from \<and> isArithmetic to)" "isPointer to" "isNullConstant ub e"
        "\<not> (isPointer from \<and> (isVoid (pointee from) \<or> isVoid (pointee to)))"
    | (bad) "from \<noteq> to" "\<not> (isArithmetic from \<and> isArithmetic to)"
        "\<not> (isPointer to \<and> isPointer from \<and> (isVoid (pointee from) \<or> isVoid (pointee to)))"
        "\<not> (isPointer to \<and> isNullConstant ub e)"
    by blast
  thus ?thesis
  proof cases
    case same thus ?thesis using e c by (simp add: convert_def)
  next
    case arith
    moreover have "valueType to"
      using arith by (auto simp: valueType_def isArithmetic_def isInteger_iff)
    ultimately show ?thesis using e(2) c toArithmetic_wellTyped [OF e(1,2), of to] by (auto simp: convert_def)
  next
    case void
    moreover have "valueType to" "\<not> isArithmetic to"
      using void by (auto simp: valueType_def isPointer_iff isArithmetic_def)
    ultimately show ?thesis using e c by (auto simp: convert_def castOk_def)
  next
    case null
    moreover have "valueType to" using null by (auto simp: valueType_def isPointer_iff)
    ultimately show ?thesis using e c by (auto simp: convert_def castOk_def)
  next
    case bad
    hence "ok = False \<and> (e', s') = failExpr e (''incompatible types when '' @ m @ '' '' @ quoted_text (str to) @
                   '' from '' @ quoted_text (str from)) s"
      using e c by (auto simp: convert_def split: prod.splits)
    thus ?thesis by (simp add: failExpr_def)
  qed
qed

section \<open>The rules\<close>

lemma checkDeclRef_outcome: "outcome ub s (checkDeclRef n i l t c s)"
  by (auto simp: checkDeclRef_def outcome_def failExpr_def split: option.split)

lemma sizeOfRule_outcome: "outcome ub s (sizeOfRule e type s)"
  by (auto simp: sizeOfRule_def outcome_def failExpr_def split: option.split)

lemma addrOfRule_outcome:
  assumes "outcome ub s (x, s1)"
  shows "outcome ub s (addrOfRule (Expr (Unary UO_AddrOf x) l t RValue) x s1)"
  using assms
proof (cases rule: outcome_cases)
  case silent
  thus ?thesis by (auto simp: addrOfRule_def intro!: outcome_silent)
next
  case (typed tx)
  thus ?thesis by (auto simp: addrOfRule_def isLValue_def unaryOk_def intro!: outcome_typed)
qed

lemma unaryRule_outcome:
  assumes x: "valueOutcome ub s (x, s1)" and op: "op \<noteq> UO_AddrOf"
  shows "outcome ub s (unaryRule op x l t RValue s1)"
  using x
proof (cases rule: valueOutcome_cases)
  case silent
  thus ?thesis by (auto simp: unaryRule_def intro!: outcome_silent)
next
  case (typed tx)
  note p = promote_type [OF typed(1)] promote_wellTyped [OF typed(3,1)]
  show ?thesis
  proof (cases op)
    case UO_Plus
    thus ?thesis using typed p
      by (auto simp: unaryRule_def unaryOk_def computes_def isArithmetic_def isInteger_iff intro!: outcome_typed)
  next
    case UO_Minus
    thus ?thesis using typed p
      by (auto simp: unaryRule_def unaryOk_def computes_def isArithmetic_def isInteger_iff intro!: outcome_typed)
  next
    case UO_Not
    thus ?thesis using typed by (auto simp: unaryRule_def unaryOk_def Let_def intro!: outcome_typed)
  next
    case UO_Deref
    thus ?thesis using typed
      by (auto simp: unaryRule_def unaryOk_def isPointer_iff isVoid_iff Let_def intro!: outcome_typed)
  qed (use op in simp)
qed

text \<open>The rules of the binary operators, on operands that are values.\<close>

lemma usual_wellTyped:
  assumes "hasType ub scs a ta" "hasType ub scs b tb" "isArithmetic ta" "isArithmetic tb"
  shows "wellTyped ub scs (toArithmetic a (commonType a b)) \<and> wellTyped ub scs (toArithmetic b (commonType a b)) \<and>
    computes (commonType a b)"
  using hasTypeD [OF assms(1)] hasTypeD [OF assms(2)] assms(3,4) toArithmetic_wellTyped commonType_cases
  by metis

lemma arithmetic_outcome:
  assumes "hasType ub (an_scopes s) a ta" "hasType ub (an_scopes s) b tb" "isArithmetic ta" "isArithmetic tb"
    and "op \<in> {BO_Mul, BO_Div, BO_Add, BO_Sub}"
  shows "outcome ub s (arithmeticBinary op a b l RValue, s)"
  using usual_wellTyped [OF assms(1-4)] assms(5)
  by (auto simp: arithmeticBinary_def usualArithmetic_def Let_def binaryOk_def intro!: outcome_typed)

lemma rem_outcome:
  assumes "hasType ub (an_scopes s) a ta" "hasType ub (an_scopes s) b tb" "isInteger ta" "isInteger tb"
  shows "outcome ub s (arithmeticBinary BO_Rem a b l RValue, s)"
  using usual_wellTyped [OF assms(1,2)] commonType_cases(3) [OF hasTypeD(2) [OF assms(1)] hasTypeD(2) [OF assms(2)]]
    assms(3,4)
  by (auto simp: arithmeticBinary_def usualArithmetic_def Let_def binaryOk_def isArithmetic_def intro!: outcome_typed)

lemma add_outcome:
  assumes a: "hasType ub (an_scopes s) a ta" and b: "hasType ub (an_scopes s) b tb"
  shows "outcome ub s (addRule a b ta tb l t RValue s)"
proof -
  note a' = hasTypeD [OF a] promote_type [OF hasTypeD(2) [OF a]] promote_wellTyped [OF hasTypeD(1,2) [OF a]]
  note b' = hasTypeD [OF b] promote_type [OF hasTypeD(2) [OF b]] promote_wellTyped [OF hasTypeD(1,2) [OF b]]
  consider "isArithmetic ta \<and> isArithmetic tb" | "\<not> (isArithmetic ta \<and> isArithmetic tb)" "isInteger ta \<and> isPointer tb"
    | "\<not> (isArithmetic ta \<and> isArithmetic tb)" "\<not> (isInteger ta \<and> isPointer tb)" by blast
  thus ?thesis
  proof cases
    case 1
    thus ?thesis using arithmetic_outcome [OF a b, of BO_Add] by (simp add: addRule_def)
  next
    case 2
    thus ?thesis using a' b'
      by (auto simp: addRule_def incompletePointee_def Let_def binaryOk_def completePointer_def isInteger_iff
          isPointer_iff isArithmetic_def intro!: outcome_typed)
  next
    case 3
    thus ?thesis using a' b'
      by (auto simp: addRule_def incompletePointee_def invalidOperands_def Let_def binaryOk_def
          completePointer_def isInteger_iff intro!: outcome_typed)
  qed
qed

lemma sub_outcome:
  assumes a: "hasType ub (an_scopes s) a ta" and b: "hasType ub (an_scopes s) b tb"
  shows "outcome ub s (subRule a b ta tb l t RValue s)"
proof (cases "isArithmetic ta \<and> isArithmetic tb")
  case True
  thus ?thesis using arithmetic_outcome [OF a b, of BO_Sub] by (simp add: subRule_def)
next
  case False
  thus ?thesis using hasTypeD [OF a] hasTypeD [OF b] promote_type [OF hasTypeD(2) [OF b]]
      promote_wellTyped [OF hasTypeD(1,2) [OF b]]
    by (auto simp: subRule_def incompletePointee_def invalidOperands_def Let_def binaryOk_def completePointer_def
        isInteger_iff intro!: outcome_typed)
qed

lemma comparison_outcome:
  assumes a: "hasType ub (an_scopes s) a ta" and b: "hasType ub (an_scopes s) b tb"
    and op: "op \<in> {BO_Lt, BO_Gt, BO_Le, BO_Ge, BO_Eq, BO_Ne}"
  shows "outcome ub s (comparisonRule ub op a b ta tb l RValue s)"
proof -
  have ok: "binaryOk op t1 t2 IntTy \<longleftrightarrow> (computes t1 \<or> isPointer t1) \<and> t2 = t1" for t1 t2
    using op by (auto simp: binaryOk_def)
  show ?thesis
  proof (cases "isArithmetic ta \<and> isArithmetic tb")
    case True
    thus ?thesis using usual_wellTyped [OF a b]
      by (auto simp: comparisonRule_def usualArithmetic_def Let_def ok intro!: outcome_typed)
  next
    case False
    thus ?thesis using hasTypeD [OF a] hasTypeD [OF b]
      by (auto simp: comparisonRule_def invalidOperands_def Let_def ok castOk_def intro!: outcome_typed)
  qed
qed

lemma binary_outcome:
  assumes a: "hasType ub (an_scopes s) a ta" and b: "hasType ub (an_scopes s) b tb"
  shows "outcome ub s (binaryRule ub op a b l t RValue s)"
proof -
  note rules = add_outcome [OF a b] sub_outcome [OF a b] rem_outcome [OF a b] arithmetic_outcome [OF a b]
    comparison_outcome [OF a b]
  show ?thesis
    using hasTypeD [OF a] hasTypeD [OF b] rules
    by (cases op) (auto simp: binaryRule_def invalidOperands_def Let_def binaryOk_def intro!: outcome_typed)
qed

text \<open>The premises are what checking both operands leaves.\<close>

lemma binaryRule_outcome:
  assumes a: "valueOutcome ub s (a, s1)" and b: "valueOutcome ub s1 (b, s2)"
  shows "outcome ub s (binaryRule ub op a b l t RValue s2)"
  using a
proof (cases rule: valueOutcome_cases)
  case silent
  hence "reports s s2" using b by (auto elim!: valueOutcome_cases intro: reports_trans)
  thus ?thesis using silent by (auto simp: binaryRule_def split: option.split intro!: outcome_silent)
next
  case ta: (typed ta)
  show ?thesis using b
  proof (cases rule: valueOutcome_cases)
    case silent
    thus ?thesis using ta by (auto simp: binaryRule_def intro!: outcome_silent)
  next
    case (typed tb)
    thus ?thesis using ta binary_outcome [of ub s a ta b tb] by (simp add: hasType_def)
  qed
qed

lemma valueOutcome_outcome: "valueOutcome ub s p \<Longrightarrow> outcome ub s p"
  by (simp add: valueOutcome_def)

lemma assignRule_outcome:
  assumes a: "outcome ub s (a, s1)" and b: "valueOutcome ub s1 (b, s2)"
  shows "outcome ub s (assignRule ub a b l t RValue s2)"
proof (cases "expr_type a = None \<or> expr_type b = None")
  case True
  hence "reports s s2" using a b
    by (auto elim!: outcome_cases valueOutcome_cases intro: reports_trans)
  thus ?thesis using True by (auto simp: assignRule_def Let_def split: option.split intro!: outcome_silent)
next
  case False
  then obtain ta tb where t: "expr_type a = Some ta" "expr_type b = Some tb" by auto
  hence e: "s1 = s" "s2 = s" "wellTyped ub (an_scopes s) a" "wellTyped ub (an_scopes s) b" "valueType tb"
    using a b by (auto elim!: outcome_cases valueOutcome_cases)
  obtain ok b' s' where c: "convert ub b ta ''assigning to'' s = (ok, b', s')" by (cases rule: prod_cases3)
  have "if ok then s' = s \<and> wellTyped ub (an_scopes s) b' \<and> expr_type b' = Some ta \<and> valueType ta
        else reports s s' \<and> expr_type b' = None"
    using convert_outcome [OF _ _ _ c] e t by blast
  thus ?thesis using e t c
    by (auto simp: assignRule_def Let_def isLValue_def split: if_splits intro!: outcome_typed outcome_silent)
qed

text \<open>The arguments after \<open>checkArgs\<close>, and what the conversion loop makes of them.\<close>

definition checkedArg :: "(fp \<Rightarrow> i64) \<Rightarrow> scope list \<Rightarrow> expr \<Rightarrow> bool" where
  "checkedArg ub scs a \<longleftrightarrow> expr_type a = None \<or> (\<exists>t. hasType ub scs a t)"

definition argsOutcome :: "(fp \<Rightarrow> i64) \<Rightarrow> analyzer \<Rightarrow> expr list \<times> analyzer \<Rightarrow> bool" where
  "argsOutcome ub s p \<longleftrightarrow>
     list_all (checkedArg ub (an_scopes s)) (fst p) \<and>
     (if None \<in> expr_type ` set (fst p) then reports s (snd p) else snd p = s)"

lemma argsOutcome_cons:
  assumes a: "valueOutcome ub s (a, s1)" and args: "argsOutcome ub s1 (args, s2)"
  shows "argsOutcome ub s (a # args, s2)"
  using a
proof (cases rule: valueOutcome_cases)
  case silent
  thus ?thesis using args reports_env(1) [OF silent(2)]
    by (auto simp: argsOutcome_def checkedArg_def intro: reports_trans split: if_splits)
next
  case (typed t)
  hence "hasType ub (an_scopes s) a t" by (simp add: hasType_def)
  thus ?thesis using args typed by (auto simp: argsOutcome_def checkedArg_def)
qed

definition variadicArg :: "expr \<Rightarrow> bool" where
  "variadicArg a \<longleftrightarrow> (\<exists>t. expr_type a = Some t \<and> valueType t \<and> t \<noteq> VoidTy \<and> t \<noteq> CharTy)"

lemma argsOk_cons_fixed:
  "expr_type a = Some p \<Longrightarrow> argsOk (FunctionTy r ps v) args \<Longrightarrow> argsOk (FunctionTy r (p # ps) v) (a # args)"
  unfolding argsOk_def by (elim exE conjE, rule_tac x = "a # fixed" in exI) auto

lemma argsOk_variadic:
  "argsOk (FunctionTy r [] v) args \<longleftrightarrow> (args = [] \<or> v) \<and> (\<forall>a \<in> set args. variadicArg a)"
  by (auto simp: argsOk_def variadicArg_def)

definition convertedArgs :: "(fp \<Rightarrow> i64) \<Rightarrow> analyzer \<Rightarrow> ty list \<Rightarrow> bool \<Rightarrow> expr list \<Rightarrow> bool \<Rightarrow>
    bool \<times> expr list \<times> analyzer \<Rightarrow> bool" where
  "convertedArgs ub s ps v args ok res \<longleftrightarrow>
     (case res of (ok', args', s') \<Rightarrow>
       (s' = s \<or> reports s s') \<and>
       (if ok' then ok \<and> s' = s \<and> list_all (wellTyped ub (an_scopes s)) args' \<and>
                   (\<forall>r. argsOk (FunctionTy r ps v) args')
        else \<not> ok \<or> None \<in> expr_type ` set args \<or> reports s s'))"

lemma convertArgs_outcome:
  assumes "list_all (checkedArg ub (an_scopes s)) args" "length ps \<le> length args" "length ps < length args \<longrightarrow> v"
  shows "convertedArgs ub s ps v args ok (convertArgs ub ps args ok s)"
  using assms
proof (induction args arbitrary: ps ok s)
  case Nil
  thus ?case by (simp add: convertedArgs_def argsOk_variadic)
next
  case (Cons a args)
  have IH: "convertedArgs ub s' ps' v args ok' (convertArgs ub ps' args ok' s')"
    if "an_scopes s' = an_scopes s" "length ps' \<le> length args" "length ps' < length args \<longrightarrow> v" for ps' ok' s'
    using Cons.IH [of s' ps' ok'] Cons.prems(1) that by simp
  show ?case
  proof (cases "expr_type a")
    case None
    moreover have "length (tl ps) \<le> length args" "length (tl ps) < length args \<longrightarrow> v"
      using Cons.prems by (auto split: if_splits)
    ultimately show ?thesis using IH [of s "tl ps" False]
      by (auto simp: convertedArgs_def split: prod.splits if_splits)
  next
    case (Some t)
    hence a: "wellTyped ub (an_scopes s) a" "valueType t"
      using Cons.prems(1) by (auto simp: checkedArg_def hasType_def)
    show ?thesis
    proof (cases ps)
      case Nil
      show ?thesis
      proof (cases "isVoid t")
        case True
        obtain a' s1 where f: "failExpr a (''argument may not have '' @ quoted_text ''void'' @ '' type'') s = (a', s1)"
          by (rule prod.exhaust)
        hence "reports s s1" by (auto simp: failExpr_def)
        thus ?thesis using True Some Nil f IH [of s1 "[]" False] reports_env(1) [of s s1] Cons.prems
          by (auto simp: convertedArgs_def split: prod.splits if_splits intro: reports_trans)
      next
        case False
        have p: "wellTyped ub (an_scopes s) (promote a)" "variadicArg (promote a)"
          using promote_wellTyped [OF a(1) Some] promote_type [OF Some] a(2) False
          by (auto simp: variadicArg_def valueType_def isVoid_iff)
        thus ?thesis using False Some Nil IH [of s "[]" ok] Cons.prems
          by (auto simp: convertedArgs_def argsOk_variadic split: prod.splits if_splits)
      qed
    next
      case (Cons q ps')
      obtain okA a' s1 where c: "convert ub a q ''passing'' s = (okA, a', s1)" by (cases rule: prod_cases3)
      have r: "if okA then s1 = s \<and> wellTyped ub (an_scopes s) a' \<and> expr_type a' = Some q \<and> valueType q
               else reports s s1 \<and> expr_type a' = None"
        by (rule convert_outcome [OF a(1) Some a(2) c])
      have l: "length ps' \<le> length args" "length ps' < length args \<longrightarrow> v"
        using Cons.prems(2,3) Cons by auto
      show ?thesis
      proof (cases okA)
        case True
        thus ?thesis using r Some c Cons l IH [of s ps' ok] argsOk_cons_fixed [of a' q _ ps' v]
          by (auto simp: convertedArgs_def split: prod.splits if_splits)
      next
        case False
        hence s1: "reports s s1" using r by simp
        thus ?thesis using False Some c Cons l IH [of s1 ps' False] reports_env(1) [OF s1]
          by (auto simp: convertedArgs_def split: prod.splits if_splits intro: reports_trans)
      qed
    qed
  qed
qed

lemma convertArgs_ok:
  "fst (convertArgs ub ps args ok s) \<Longrightarrow> ok \<and> None \<notin> expr_type ` set args"
proof (induction args arbitrary: ps ok s)
  case (Cons a args)
  thus ?case
    by (cases ps; cases "expr_type a"; cases "isVoid (the (expr_type a))") (auto simp: case_prod_beta dest: Cons.IH)
qed simp

lemma argsOutcome_cases [consumes 1, case_names silent typed]:
  assumes "argsOutcome ub s (args, s')"
  obtains "None \<in> expr_type ` set args" "reports s s'" "list_all (checkedArg ub (an_scopes s)) args"
    | "None \<notin> expr_type ` set args" "s' = s" "list_all (checkedArg ub (an_scopes s)) args"
  using assms by (auto simp: argsOutcome_def split: if_splits)

lemma callRule_outcome:
  assumes f: "outcome ub s (f, s1)" and args: "argsOutcome ub s1 (args, s2)"
  shows "outcome ub s (callRule ub f args l t RValue s2)"
  using f
proof (cases rule: outcome_cases)
  case silent
  hence "reports s s2" using args by (auto elim!: argsOutcome_cases intro: reports_trans)
  thus ?thesis using silent by (auto simp: callRule_def Let_def intro!: outcome_silent)
next
  case f': (typed fn)
  have s2: "s2 = s \<or> reports s s2" and checked: "list_all (checkedArg ub (an_scopes s2)) args"
    using args f' reports_env(1) by (auto elim!: argsOutcome_cases)
  show ?thesis
  proof (cases "isFunction fn \<and> \<not> (length args < length (params fn) \<or> (length (params fn) < length args \<and> \<not> variadic fn))")
    case False
    have "outcome ub s (failExpr e m s2)" for e m
      using s2 reports_trans [OF _ reports_error] by (auto simp: outcome_def failExpr_def)
    thus ?thesis using False f' by (auto simp: callRule_def Let_def)
  next
    case True
    then obtain r ps v where fn: "fn = FunctionTy r ps v" by (auto simp: isFunction_iff)
    obtain ok args' s' where c: "convertArgs ub ps args True s2 = (ok, args', s')" by (cases rule: prod_cases3)
    have conv: "convertedArgs ub s2 ps v args True (ok, args', s')"
      using convertArgs_outcome [OF checked, of ps v True] True fn c by auto
    have call: "callRule ub f args l t RValue s2 = (Expr (Call f args') l (if ok then Some r else None) RValue, s')"
      using True fn f' c by (auto simp: callRule_def Let_def simp del: append.simps)
    show ?thesis
    proof (cases "None \<in> expr_type ` set args")
      case True
      hence "reports s s2" using args f' by (auto elim!: argsOutcome_cases)
      moreover have "\<not> ok"
        using True c convertArgs_ok [of ub ps args True s2] by auto
      ultimately show ?thesis using conv call
        by (auto simp: convertedArgs_def intro!: outcome_silent intro: reports_trans)
    next
      case False
      hence "s2 = s" using args f' by (auto elim!: argsOutcome_cases)
      thus ?thesis using False conv call f' fn
        by (auto simp: convertedArgs_def list_all_iff intro!: outcome_silent outcome_typed split: if_splits)
    qed
  qed
qed

lemma castRule_outcome:
  assumes x: "valueOutcome ub s (x, s1)" and to: "t = Some to"
  shows "outcome ub s (castRule x imp l t RValue s1)"
  using x
proof (cases rule: valueOutcome_cases)
  case silent
  thus ?thesis by (auto simp: castRule_def Let_def intro!: outcome_silent)
next
  case (typed tx)
  thus ?thesis using to castOk_arithmetic [of tx to ub x]
    by (auto simp: castRule_def Let_def castOk_def isVoid_iff intro!: outcome_typed)
qed

section \<open>The analysis of an expression\<close>

lemma args_outcome_nil: "argsOutcome ub s ([], s)"
  by (simp add: argsOutcome_def)

lemma list_all_id_map: "list_all id (map P xs) \<longleftrightarrow> (\<forall>x \<in> set xs. P x)"
  by (simp add: list_all_iff)

lemma valueOutcome_decay:
  assumes "outcome ub s p" "decay p = (e, s')"
  shows "valueOutcome ub s (e, s')"
  using decay_outcome [OF assms(1)] assms(2) by simp

lemma parsed_desugar: "parsed a \<Longrightarrow> parsed i \<Longrightarrow> parsed (desugarIndex a i l)"
  by (simp add: desugarIndex_def)

lemma check_outcome:
  "parsed e \<Longrightarrow> outcome ub s (check ub e s)"
  "(\<forall>a \<in> set args. parsed a) \<Longrightarrow> argsOutcome ub s (checkArgs ub args s)"
proof (induction ub e s and ub args s rule: check_checkArgs.induct)
  case (5 ub op x l t c s)
  obtain x' s1 where c: "check ub x s = (x', s1)" by (cases "check ub x s")
  obtain y s2 where d: "decay (x', s1) = (y, s2)" by (cases "decay (x', s1)")
  have "outcome ub s (x', s1)" using 5 c by (cases "op = UO_AddrOf") auto
  thus ?case using 5(3) c d addrOfRule_outcome unaryRule_outcome [OF valueOutcome_decay [OF _ d]] by auto
next
  case (6 ub op a b l t c s)
  obtain a' s1 where a: "decay (check ub a s) = (a', s1)" by (cases "decay (check ub a s)")
  obtain b' s2 where b: "decay (check ub b s1) = (b', s2)" by (cases "decay (check ub b s1)")
  have "valueOutcome ub s (a', s1)" using 6 valueOutcome_decay [OF _ a] by simp
  moreover have "valueOutcome ub s1 (b', s2)" using 6 a valueOutcome_decay [OF _ b] by simp
  ultimately show ?case using 6(3) a b binaryRule_outcome by simp
next
  case (7 ub a b l t c s)
  obtain a' s1 where a: "check ub a s = (a', s1)" by (cases "check ub a s")
  obtain b' s2 where b: "decay (check ub b s1) = (b', s2)" by (cases "decay (check ub b s1)")
  have "outcome ub s (a', s1)" using 7 a by simp
  moreover have "valueOutcome ub s1 (b', s2)" using 7 a valueOutcome_decay [OF _ b] by simp
  ultimately show ?case using 7(3) a b assignRule_outcome by simp
next
  case (8 ub f args l t c s)
  obtain f' s1 where f: "check ub f s = (f', s1)" by (cases "check ub f s")
  obtain args' s2 where args: "checkArgs ub args s1 = (args', s2)" by (cases "checkArgs ub args s1")
  have "outcome ub s (f', s1)" "argsOutcome ub s1 (args', s2)"
    using 8 f args by (auto simp: list_all_id_map)
  thus ?case using 8(3) f args callRule_outcome by simp
next
  case (9 ub a i l t c s)
  thus ?case by (simp add: parsed_desugar)
next
  case (10 ub k imp x l t c s)
  obtain x' s1 where x: "decay (check ub x s) = (x', s1)" by (cases "decay (check ub x s)")
  have "valueOutcome ub s (x', s1)" using 10 valueOutcome_decay [OF _ x] by auto
  thus ?case using 10(2) x castRule_outcome by auto
next
  case (12 ub x l t c s)
  obtain x' s1 where x: "check ub x s = (x', s1)" by (cases "check ub x s")
  have "outcome ub s (x', s1)" using 12 x by simp
  thus ?case
    using x by (cases rule: outcome_cases) (auto simp: sizeOfRule_outcome intro: outcome_silent)
next
  case (14 ub a args s)
  obtain a' s1 where a: "decay (check ub a s) = (a', s1)" by (cases "decay (check ub a s)")
  obtain args' s2 where args: "checkArgs ub args s1 = (args', s2)" by (cases "checkArgs ub args s1")
  have "valueOutcome ub s (a', s1)" "argsOutcome ub s1 (args', s2)"
    using 14 a args valueOutcome_decay [OF _ a] by auto
  thus ?case using a args argsOutcome_cons by simp
qed (auto simp: checkDeclRef_outcome sizeOfRule_outcome args_outcome_nil intro!: outcome_typed)

lemma checkValue_outcome: "parsed e \<Longrightarrow> valueOutcome ub s (checkValue ub e s)"
  by (simp add: checkValue_def decay_outcome check_outcome)

end
