(* ===== verification/SemaElab.thy ===== *)
theory SemaElab
  imports SemaTypes
begin

text \<open>
  What the analyzer may change in an expression, as a relation between the tree the parser built
  and the tree the code generator gets, and the proof that \<open>check\<close> stays within it.
\<close>

section \<open>Elaboration\<close>

text \<open>
  What the analyzer may do to a tree: set types, value categories and symbols, insert implicit
  casts, resolve explicit ones, write \<open>a[i]\<close> as \<open>*(a + i)\<close>, put the pointer of a sum on the left
  and replace \<open>sizeof\<close> by its value.
\<close>

inductive elaborates :: "expr \<Rightarrow> expr \<Rightarrow> bool" where
  elab_int: "elaborates (Expr (IntLiteral v) l t c) (Expr (IntLiteral v) l t' c')"
| elab_float: "elaborates (Expr (FloatLiteral v) l t c) (Expr (FloatLiteral v) l t' c')"
| elab_string: "elaborates (Expr (StringLiteral b) l t c) (Expr (StringLiteral b) l t' c')"
| elab_ref: "elaborates (Expr (DeclRef n i) l t c) (Expr (DeclRef n i') l t' c')"
| elab_unary: "elaborates x x' \<Longrightarrow> elaborates (Expr (Unary op x) l t c) (Expr (Unary op x') l t' c')"
| elab_binary: "elaborates a a' \<Longrightarrow> elaborates b b' \<Longrightarrow>
    elaborates (Expr (Binary op a b) l t c) (Expr (Binary op a' b') l t' c')"
| elab_swap: "elaborates a a' \<Longrightarrow> elaborates b b' \<Longrightarrow> expr_type b' = Some (PointerTy p) \<Longrightarrow>
    elaborates (Expr (Binary BO_Add a b) l t c) (Expr (Binary BO_Add b' a') l t' c')"
| elab_assign: "elaborates a a' \<Longrightarrow> elaborates b b' \<Longrightarrow>
    elaborates (Expr (Assign a b) l t c) (Expr (Assign a' b') l t' c')"
| elab_call: "elaborates f f' \<Longrightarrow> list_all2 elaborates args args' \<Longrightarrow>
    elaborates (Expr (Call f args) l t c) (Expr (Call f' args') l t' c')"
| elab_index: "elaborates (desugarIndex a i l) e' \<Longrightarrow> elaborates (Expr (Index a i) l t c) e'"
| elab_cast: "elaborates x x' \<Longrightarrow>
    elaborates (Expr (Cast CK_Unresolved False x) l t c) (Expr (Cast k False x') l t c')"
| elab_sizeof_type: "type_size ty = Some n \<Longrightarrow>
    elaborates (Expr (SizeOfType ty) l t c) (Expr (IntLiteral n) l t' c')"
| elab_sizeof_expr: "elaborates x x' \<Longrightarrow> expr_type x' = Some ty \<Longrightarrow> type_size ty = Some n \<Longrightarrow>
    elaborates (Expr (SizeOfExpr x) l t c) (Expr (IntLiteral n) l t' c')"
| elab_implicit: "elaborates x x' \<Longrightarrow> elaborates x (Expr (Cast k True x') (expr_loc x') t c)"

text \<open>A checked expression that got a type elaborates what it was checked from.\<close>

definition elabs :: "expr \<Rightarrow> expr \<Rightarrow> bool" where
  "elabs e e' \<longleftrightarrow> expr_type e' \<noteq> None \<longrightarrow> elaborates e e'"

lemma elabs_typed: "elabs e e' \<Longrightarrow> expr_type e' = Some t \<Longrightarrow> elaborates e e'"
  by (simp add: elabs_def)

lemma elabsI: "elaborates e e' \<Longrightarrow> elabs e e'"
  by (simp add: elabs_def)

lemma elabs_fail [simp, intro!]: "elabs e (fst (failExpr e' m s))"
  by (simp add: elabs_def failExpr_def)

lemma elabs_silent [simp]: "elabs e (set_type None e')"
  by (simp add: elabs_def)

lemma elaborates_wrap: "elaborates e e' \<Longrightarrow> elaborates e (wrap e' k to)"
  unfolding wrap_def by (rule elab_implicit)

lemma elaborates_toArithmetic: "elaborates e e' \<Longrightarrow> elaborates e (toArithmetic e' to)"
  by (simp add: toArithmetic_def elaborates_wrap)

lemma elaborates_promote: "elaborates e e' \<Longrightarrow> elaborates e (promote e')"
  by (simp add: promote_def elaborates_toArithmetic)

lemma elaborates_convert:
  "elaborates e e' \<Longrightarrow> convert ub e' to m s = (ok, r, s') \<Longrightarrow> ok \<Longrightarrow> elaborates e r"
  by (auto simp: convert_def Let_def elaborates_wrap elaborates_toArithmetic split: if_splits prod.splits)

lemma elabs_decay: "elabs e (fst p) \<Longrightarrow> elabs e (fst (decay p))"
  by (cases p) (auto simp: decay_def elabs_def failExpr_def elaborates_wrap split: option.splits)

lemma elabs_addrOf:
  "elabs x x' \<Longrightarrow> elabs (Expr (Unary UO_AddrOf x) l t c) (fst (addrOfRule (Expr (Unary UO_AddrOf x') l t' c') x' s))"
  by (auto simp: addrOfRule_def set_type_def elabs_def failExpr_def intro: elab_unary split: option.splits)

lemma elabs_unary:
  assumes "elabs x x'"
  shows "elabs (Expr (Unary op x) l t c) (fst (unaryRule op x' l t' c' s))"
  using assms elaborates_promote [of x x']
  by (cases op) (auto simp: unaryRule_def Let_def set_type_def elabs_def failExpr_def intro: elab_unary split: option.splits)

lemma elaborates_arithmetic:
  "elaborates a a' \<Longrightarrow> elaborates b b' \<Longrightarrow>
     elaborates (Expr (Binary op a b) l t c) (arithmeticBinary op a' b' l c')"
  by (auto simp: arithmeticBinary_def usualArithmetic_def Let_def intro: elab_binary elaborates_toArithmetic)

lemma elabs_add:
  assumes "elaborates a a'" "elaborates b b'" "expr_type a' = Some ta" "expr_type b' = Some tb"
  shows "elabs (Expr (Binary BO_Add a b) l t c) (fst (addRule a' b' ta tb l t' c' s))"
  using assms
  by (auto simp: addRule_def incompletePointee_def invalidOperands_def Let_def isPointer_iff elabs_def failExpr_def
      intro: elaborates_arithmetic elab_binary elab_swap elaborates_promote)

lemma elabs_sub:
  assumes "elaborates a a'" "elaborates b b'"
  shows "elabs (Expr (Binary BO_Sub a b) l t c) (fst (subRule a' b' ta tb l t' c' s))"
  using assms
  by (auto simp: subRule_def incompletePointee_def invalidOperands_def Let_def elabs_def failExpr_def set_type_def
      intro: elaborates_arithmetic elab_binary elaborates_promote)

lemma elabs_comparison:
  assumes "elaborates a a'" "elaborates b b'"
  shows "elabs (Expr (Binary op a b) l t c) (fst (comparisonRule ub op a' b' ta tb l c' s))"
  using assms
  by (auto simp: comparisonRule_def usualArithmetic_def invalidOperands_def Let_def elabs_def failExpr_def
      intro: elab_binary elaborates_wrap elaborates_toArithmetic)

lemma elabs_binary:
  assumes "elabs a a'" "elabs b b'"
  shows "elabs (Expr (Binary op a b) l t c) (fst (binaryRule ub op a' b' l t' c' s))"
proof (cases "expr_type a' = None \<or> expr_type b' = None")
  case True
  thus ?thesis by (auto simp: binaryRule_def Let_def split: option.split)
next
  case False
  then obtain ta tb where t: "expr_type a' = Some ta" "expr_type b' = Some tb" by auto
  hence e: "elaborates a a'" "elaborates b b'" using assms by (auto simp: elabs_def)
  have "elabs (Expr (Binary op a b) l t c) (arithmeticBinary op a' b' l c')"
    using elaborates_arithmetic [OF e] by (simp add: elabs_def)
  thus ?thesis using t e elabs_add [OF e t] elabs_sub [OF e] elabs_comparison [OF e]
    by (cases op) (auto simp: binaryRule_def Let_def invalidOperands_def set_type_def intro!: elabsI elab_binary)
qed

lemma elabs_assign:
  assumes "elabs a a'" "elabs b b'"
  shows "elabs (Expr (Assign a b) l t c) (fst (assignRule ub a' b' l t' c' s))"
proof (cases "expr_type a' = None \<or> expr_type b' = None")
  case True
  thus ?thesis by (auto simp: assignRule_def Let_def split: option.split)
next
  case False
  then obtain ta tb where t: "expr_type a' = Some ta" "expr_type b' = Some tb" by auto
  hence e: "elaborates a a'" "elaborates b b'" using assms by (auto simp: elabs_def)
  show ?thesis using t e elaborates_convert [OF e(2)]
    by (auto simp: assignRule_def Let_def intro: elab_assign split: prod.split)
      (auto simp: elabs_def intro: elab_assign)
qed

lemma elaborates_args:
  assumes "list_all2 elabs args args'" "convertArgs ub ps args' ok s = (ok', args'', s')" "ok'"
  shows "list_all2 elaborates args args''"
  using assms
proof (induction args args' arbitrary: ps ok s args'' s' rule: list_all2_induct)
  case (Cons a args b bs)
  have typed: "expr_type b \<noteq> None" using convertArgs_ok [of ub ps "b # bs" ok s] Cons.prems by auto
  hence b: "elaborates a b" using Cons.hyps by (simp add: elabs_def)
  obtain t where t: "expr_type b = Some t" using typed by auto
  show ?case
  proof (cases ps)
    case Nil
    have nv: "\<not> isVoid t"
      using convertArgs_ok [of ub "[]" bs False "snd (failExpr b (''argument may not have '' @ quoted_text ''void'' @ '' type'') s)"]
        Cons.prems t Nil by (auto split: prod.splits)
    obtain rest where "args'' = promote b # rest" and r: "convertArgs ub [] bs ok s = (ok', rest, s')"
      using Cons.prems(1) t Nil nv by (auto split: prod.splits)
    thus ?thesis using Cons.IH [OF r Cons.prems(2)] elaborates_promote [OF b] by simp
  next
    case (Cons q ps')
    obtain okA b' s1 where c: "convert ub b q ''passing'' s = (okA, b', s1)" by (cases rule: prod_cases3)
    obtain rest where args: "args'' = b' # rest"
      and r: "convertArgs ub ps' bs (ok \<and> okA) s1 = (ok', rest, s')"
      using Cons.prems(1) t Cons c by (auto split: prod.splits)
    have "okA" using convertArgs_ok [of ub ps' bs "ok \<and> okA" s1] Cons.prems(2) r by auto
    thus ?thesis using args Cons.IH [OF r Cons.prems(2)] elaborates_convert [OF b c] by simp
  qed
qed simp

lemma elabs_call:
  assumes "elabs f f'" "list_all2 elabs args args'"
  shows "elabs (Expr (Call f args) l t c) (fst (callRule ub f' args' l t' c' s))"
proof (cases "expr_type f'")
  case None
  thus ?thesis by (simp add: callRule_def Let_def)
next
  case (Some fn)
  hence f: "elaborates f f'" using assms by (simp add: elabs_def)
  obtain ok args'' s' where c: "convertArgs ub (params fn) args' True s = (ok, args'', s')" by (cases rule: prod_cases3)
  have "elabs (Expr (Call f args) l t c) (Expr (Call f' args'') l (if ok then Some (returnType fn) else None) c')"
    using elab_call [OF f elaborates_args [OF assms(2) c]] by (simp add: elabs_def)
  thus ?thesis using Some c by (auto simp: callRule_def Let_def)
qed

lemma elabs_cast:
  assumes "elabs x x'"
  shows "elabs (Expr (Cast CK_Unresolved False x) l t c) (fst (castRule x' False l t c' s))"
proof (cases "expr_type x'")
  case None
  thus ?thesis by (simp add: castRule_def Let_def)
next
  case (Some tx)
  hence x: "elaborates x x'" using assms by (simp add: elabs_def)
  show ?thesis using Some by (auto simp: castRule_def Let_def intro!: elabsI elab_cast [OF x])
qed

lemma elabs_sizeOf:
  assumes "\<And>n t' c'. type_size ty = Some n \<Longrightarrow> elaborates e (Expr (IntLiteral n) (expr_loc e') t' c')"
  shows "elabs e (fst (sizeOfRule e' ty s))"
  using assms by (auto simp: sizeOfRule_def intro: elabsI split: option.split)

lemma elabs_check:
  "parsed e \<Longrightarrow> elabs e (fst (check ub e s))"
  "(\<forall>a \<in> set args. parsed a) \<Longrightarrow> list_all2 elabs args (fst (checkArgs ub args s))"
proof (induction ub e s and ub args s rule: check_checkArgs.induct)
  case (4 ub n i l t c s)
  thus ?case by (auto simp: checkDeclRef_def intro: elabsI elab_ref split: option.split)
next
  case (5 ub op x l t c s)
  have "elabs x (fst (check ub x s))" using 5 by (cases "op = UO_AddrOf") auto
  thus ?case using elabs_decay [of x "check ub x s"] by (auto simp: elabs_addrOf elabs_unary split: prod.split)
next
  case (6 ub op a b l t c s)
  obtain a' s1 where a: "decay (check ub a s) = (a', s1)" by (cases "decay (check ub a s)")
  obtain b' s2 where b: "decay (check ub b s1) = (b', s2)" by (cases "decay (check ub b s1)")
  have "elabs a a'" "elabs b b'"
    using 6 a b elabs_decay [of a "check ub a s"] elabs_decay [of b "check ub b s1"] by auto
  thus ?case using a b elabs_binary by simp
next
  case (7 ub a b l t c s)
  obtain a' s1 where a: "check ub a s = (a', s1)" by (cases "check ub a s")
  obtain b' s2 where b: "decay (check ub b s1) = (b', s2)" by (cases "decay (check ub b s1)")
  have "elabs a a'" "elabs b b'" using 7 a b elabs_decay [of b "check ub b s1"] by auto
  thus ?case using a b elabs_assign by simp
next
  case (8 ub f args l t c s)
  obtain f' s1 where f: "check ub f s = (f', s1)" by (cases "check ub f s")
  obtain args' s2 where args: "checkArgs ub args s1 = (args', s2)" by (cases "checkArgs ub args s1")
  have "elabs f f'" "list_all2 elabs args args'" using 8 f args by (auto simp: list_all_id_map)
  thus ?case using f args elabs_call by simp
next
  case (9 ub a i l t c s)
  thus ?case by (simp add: parsed_desugar elabs_def elab_index)
next
  case (10 ub k imp x l t c s)
  have "elabs x (fst (decay (check ub x s)))" using 10 by (simp add: elabs_decay)
  thus ?case using 10(2) elabs_cast by (auto split: prod.split)
next
  case (11 ub ty l t c s)
  show ?case by (auto intro!: elabs_sizeOf elab_sizeof_type)
next
  case (12 ub x l t c s)
  obtain x' s1 where x: "check ub x s = (x', s1)" by (cases "check ub x s")
  have e: "elabs x x'" using 12 x by simp
  show ?case
  proof (cases "expr_type x'")
    case None
    thus ?thesis using x by (simp add: elabs_def)
  next
    case (Some ty)
    thus ?thesis using x elabs_typed [OF e Some] by (auto intro!: elabs_sizeOf elab_sizeof_expr)
  qed
next
  case (14 ub a args s)
  obtain a' s1 where a: "decay (check ub a s) = (a', s1)" by (cases "decay (check ub a s)")
  have "elabs a a'" using 14 a elabs_decay [of a "check ub a s"] by simp
  thus ?case using 14 a by (cases "checkArgs ub args s1") simp
qed (auto intro!: elabsI intro: elab_int elab_float elab_string)

end
