(* ===== verification/SemaStmt.thy ===== *)
theory SemaStmt
  imports Sema
begin

text \<open>
  \<open>lib/Sema/Sema.cpp\<close>, continued: initializers, statements, declarations and \<open>analyze\<close>.
\<close>

section \<open>Initializers\<close>

definition isGlobalRef :: "symbol_id set \<Rightarrow> expr \<Rightarrow> bool" where
  "isGlobalRef globals e = (case node e of DeclRef n i \<Rightarrow> i \<in> globals | _ \<Rightarrow> False)"

definition isStringLiteral :: "expr \<Rightarrow> bool" where
  "isStringLiteral e = (case node e of StringLiteral b \<Rightarrow> True | _ \<Rightarrow> False)"

definition literalBytes :: "expr \<Rightarrow> string" where
  "literalBytes e = (case node e of StringLiteral b \<Rightarrow> b | _ \<Rightarrow> [])"

fun isConstantInit :: "(fp \<Rightarrow> i64) \<Rightarrow> symbol_id set \<Rightarrow> expr \<Rightarrow> bool" where
  "isConstantInit ub globals (Expr n l t c) =
     (if evaluateConstant ub (Expr n l t c) \<noteq> None then True
      else case n of
        Cast k imp inner \<Rightarrow>
          (case k of
             CK_NullToPointer \<Rightarrow> True
           | CK_PointerCast \<Rightarrow> isConstantInit ub globals inner
           | CK_ArrayToPointer \<Rightarrow> isStringLiteral inner \<or> isGlobalRef globals inner
           | _ \<Rightarrow> False)
      | Unary op x \<Rightarrow> op = UO_AddrOf \<and> isGlobalRef globals x
      | _ \<Rightarrow> False)"

text \<open>
  \<open>completeArrayType\<close>: the type that the variable gets.
\<close>

definition completeArrayType :: "ty \<Rightarrow> initializer option \<Rightarrow> ty" where
  "completeArrayType t init =
     (case init of
        None \<Rightarrow> t
      | Some i \<Rightarrow>
         (let len = (case i of
             InitList is l \<Rightarrow> word_of_nat (length is)
           | InitExpr e l \<Rightarrow> if isStringLiteral e then word_of_nat (length (literalBytes e) + 1) else 0)
          in if 0 < len then ArrayTy (element t) len else t))"

definition isCharString :: "initializer \<Rightarrow> ty \<Rightarrow> bool" where
  "isCharString init target \<longleftrightarrow>
     isArray target \<and> element target = CharTy \<and>
     (case init of InitExpr e l \<Rightarrow> isStringLiteral e | InitList is l \<Rightarrow> False)"

text \<open>A string literal that initializes an array of \<open>char\<close>.\<close>

definition checkStringInit :: "expr \<Rightarrow> source_location \<Rightarrow> ty \<Rightarrow> analyzer \<Rightarrow> initializer \<times> analyzer" where
  "checkStringInit e l target s =
     (let size = length (literalBytes e);
          s1 = (if unat (array_length target) < size
                then an_error l ''initializer-string for char array is too long'' s else s)
      in (InitExpr (Expr (node e) (expr_loc e) (Some (ArrayTy CharTy (word_of_nat (size + 1)))) LValue) l, s1))"

definition checkScalarInit :: "(fp \<Rightarrow> i64) \<Rightarrow> expr \<Rightarrow> source_location \<Rightarrow> ty \<Rightarrow> bool \<Rightarrow> analyzer \<Rightarrow>
    initializer \<times> analyzer" where
  "checkScalarInit ub e l target glob s =
     (case checkValue ub e s of (e1, s1) \<Rightarrow>
       (if expr_type e1 = None then (InitExpr e1 l, s1)
        else case convert ub e1 target ''initializing'' s1 of (ok, e2, s2) \<Rightarrow>
          (if \<not> ok then (InitExpr e2 l, s2)
           else if glob \<and> \<not> isConstantInit ub (an_globals s2) e2 then
             (InitExpr e2 l, an_error (expr_loc e2) ''initializer element is not a compile-time constant'' s2)
           else (InitExpr e2 l, s2))))"

definition excessElements :: "initializer list \<Rightarrow> ty \<Rightarrow> analyzer \<Rightarrow> analyzer" where
  "excessElements is target s =
     (if unat (array_length target) < length is
      then an_error (init_loc (is ! unat (array_length target))) ''excess elements in array initializer'' s
      else s)"

fun checkInit :: "(fp \<Rightarrow> i64) \<Rightarrow> initializer \<Rightarrow> ty \<Rightarrow> bool \<Rightarrow> analyzer \<Rightarrow> initializer \<times> analyzer"
and checkInits :: "(fp \<Rightarrow> i64) \<Rightarrow> initializer list \<Rightarrow> ty \<Rightarrow> bool \<Rightarrow> analyzer \<Rightarrow> initializer list \<times> analyzer" where
  "checkInit ub (InitExpr e l) target glob s =
     (if isCharString (InitExpr e l) target then checkStringInit e l target s
      else if isArray target then
        (InitExpr e l, an_error l ''array initializer must be an initializer list'' s)
      else checkScalarInit ub e l target glob s)"
| "checkInit ub (InitList is l) target glob s =
     (if isArray target then
        (case checkInits ub is (element target) glob (excessElements is target s) of
           (is', s') \<Rightarrow> (InitList is' l, s'))
      else if length is \<noteq> 1 then
        (InitList is l,
         an_error l (if is = [] then ''scalar initializer cannot be empty''
                     else ''excess elements in scalar initializer'') s)
      else (case checkInits ub is target glob s of (is', s') \<Rightarrow> (InitList is' l, s')))"
| "checkInits ub [] target glob s = ([], s)"
| "checkInits ub (i # is) target glob s =
     (case checkInit ub i target glob s of (i', s1) \<Rightarrow>
       (case checkInits ub is target glob s1 of (is', s2) \<Rightarrow> (i' # is', s2)))"

section \<open>Variables\<close>

definition declareVar :: "(fp \<Rightarrow> i64) \<Rightarrow> var_decl \<Rightarrow> bool \<Rightarrow> analyzer \<Rightarrow> var_decl \<times> analyzer" where
  "declareVar ub var0 glob s =
     (let t = (if isArray (vd_type var0) \<and> array_length (vd_type var0) = 0
               then completeArrayType (vd_type var0) (vd_init var0) else vd_type var0);
          var = var0\<lparr>vd_type := t\<rparr>
      in if type_size t = None then
           (var, an_error (vd_loc var) (''variable '' @ quoted_text (vd_name var) @ '' has incomplete type '' @
              quoted_text (str t)) s)
         else if declaredHere (an_scopes s) (vd_name var) then
           (var, an_error (vd_loc var) (''redefinition of '' @ quoted_text (vd_name var)) s)
         else case newId s of (i, s1) \<Rightarrow>
           (let s2 = s1\<lparr>an_scopes := emplaceHere (vd_name var) (mkSymbol i t (vd_isConst var) False False)
                                       (an_scopes s1)\<rparr>;
                s3 = (if glob then s2\<lparr>an_globals := insert i (an_globals s2)\<rparr> else s2)
            in case vd_init var of
                 None \<Rightarrow> (var\<lparr>vd_symbol := i\<rparr>, s3)
               | Some init \<Rightarrow>
                   (case checkInit ub init t glob s3 of
                      (init', s4) \<Rightarrow> (var\<lparr>vd_symbol := i, vd_init := Some init'\<rparr>, s4))))"

fun declareVars :: "(fp \<Rightarrow> i64) \<Rightarrow> var_decl list \<Rightarrow> analyzer \<Rightarrow> var_decl list \<times> analyzer" where
  "declareVars ub [] s = ([], s)"
| "declareVars ub (v # vs) s =
     (case declareVar ub v False s of (v', s1) \<Rightarrow>
       (case declareVars ub vs s1 of (vs', s2) \<Rightarrow> (v' # vs', s2)))"

section \<open>Statements\<close>

definition checkCondition :: "(fp \<Rightarrow> i64) \<Rightarrow> expr \<Rightarrow> analyzer \<Rightarrow> expr \<times> analyzer" where
  "checkCondition ub cond s =
     (case checkValue ub cond s of (e, s1) \<Rightarrow>
       (case expr_type e of
          None \<Rightarrow> (e, s1)
        | Some t \<Rightarrow>
            if \<not> isScalar t then
              failExpr e (''statement requires expression of scalar type ('' @ quoted_text (str t) @ '' invalid)'') s1
            else (e, s1)))"

definition checkReturn :: "(fp \<Rightarrow> i64) \<Rightarrow> expr option \<Rightarrow> source_location \<Rightarrow> analyzer \<Rightarrow> expr option \<times> analyzer" where
  "checkReturn ub v l s =
     (let ret = the (an_returnType s) in
      case v of
        None \<Rightarrow>
          (None, if \<not> isVoid ret then an_error l ''non-void function should return a value'' s else s)
      | Some e \<Rightarrow>
          (case checkValue ub e s of (e1, s1) \<Rightarrow>
            (case expr_type e1 of
               None \<Rightarrow> (Some e1, s1)
             | Some t \<Rightarrow>
                 if isVoid ret then
                   (Some e1, if \<not> isVoid t
                      then an_error (expr_loc e1) ''void function should not return a value'' s1 else s1)
                 else (case convert ub e1 ret ''returning'' s1 of (ok, e2, s2) \<Rightarrow> (Some e2, s2)))))"

definition notInLoop :: "string \<Rightarrow> source_location \<Rightarrow> analyzer \<Rightarrow> analyzer" where
  "notInLoop what l s =
     (if an_loopDepth s = 0
      then an_error l (quoted_text what @ '' statement not in loop statement'') s else s)"

definition pushScope :: "analyzer \<Rightarrow> analyzer" where
  "pushScope s = s\<lparr>an_scopes := enterScope (an_scopes s)\<rparr>"

definition popScope :: "analyzer \<Rightarrow> analyzer" where
  "popScope s = s\<lparr>an_scopes := tl (an_scopes s)\<rparr>"

definition loopBy :: "int \<Rightarrow> analyzer \<Rightarrow> analyzer" where
  "loopBy d s = s\<lparr>an_loopDepth := an_loopDepth s + d\<rparr>"

fun checkStmt :: "(fp \<Rightarrow> i64) \<Rightarrow> stmt \<Rightarrow> analyzer \<Rightarrow> stmt \<times> analyzer"
and checkStmts :: "(fp \<Rightarrow> i64) \<Rightarrow> stmt list \<Rightarrow> analyzer \<Rightarrow> stmt list \<times> analyzer" where
  "checkStmt ub (Stmt NullStmt l) s = (Stmt NullStmt l, s)"
| "checkStmt ub (Stmt (ExprStmt e) l) s =
     (case checkValue ub e s of (e', s') \<Rightarrow> (Stmt (ExprStmt e') l, s'))"
| "checkStmt ub (Stmt (DeclStmt vars) l) s =
     (case declareVars ub vars s of (vars', s') \<Rightarrow> (Stmt (DeclStmt vars') l, s'))"
| "checkStmt ub (Stmt (CompoundStmt body) l) s =
     (case checkStmts ub body (pushScope s) of (body', s') \<Rightarrow> (Stmt (CompoundStmt body') l, popScope s'))"
| "checkStmt ub (Stmt (IfStmt cond a None) l) s =
     (case checkCondition ub cond s of (cond', s1) \<Rightarrow>
       (case checkStmt ub a s1 of (a', s2) \<Rightarrow> (Stmt (IfStmt cond' a' None) l, s2)))"
| "checkStmt ub (Stmt (IfStmt cond a (Some b)) l) s =
     (case checkCondition ub cond s of (cond', s1) \<Rightarrow>
       (case checkStmt ub a s1 of (a', s2) \<Rightarrow>
         (case checkStmt ub b s2 of (b', s3) \<Rightarrow> (Stmt (IfStmt cond' a' (Some b')) l, s3))))"
| "checkStmt ub (Stmt (WhileStmt cond body) l) s =
     (case checkCondition ub cond s of (cond', s1) \<Rightarrow>
       (case checkStmt ub body (loopBy 1 s1) of (body', s2) \<Rightarrow>
         (Stmt (WhileStmt cond' body') l, loopBy (-1) s2)))"
| "checkStmt ub (Stmt BreakStmt l) s = (Stmt BreakStmt l, notInLoop ''break'' l s)"
| "checkStmt ub (Stmt ContinueStmt l) s = (Stmt ContinueStmt l, notInLoop ''continue'' l s)"
| "checkStmt ub (Stmt (ReturnStmt v) l) s =
     (case checkReturn ub v l s of (v', s') \<Rightarrow> (Stmt (ReturnStmt v') l, s'))"
| "checkStmts ub [] s = ([], s)"
| "checkStmts ub (st # sts) s =
     (case checkStmt ub st s of (st', s1) \<Rightarrow>
       (case checkStmts ub sts s1 of (sts', s2) \<Rightarrow> (st' # sts', s2)))"

section \<open>Functions\<close>

fun declareParams :: "param_decl list \<Rightarrow> analyzer \<Rightarrow> param_decl list \<times> analyzer" where
  "declareParams [] s = ([], s)"
| "declareParams (p # ps) s =
     (case (if pd_name p = [] then
              (p, an_error (pd_loc p) ''parameter name omitted in function definition'' s)
            else if declaredHere (an_scopes s) (pd_name p) then
              (p, an_error (pd_loc p) (''redefinition of parameter '' @ quoted_text (pd_name p)) s)
            else case newId s of (i, s1) \<Rightarrow>
              (p\<lparr>pd_symbol := i\<rparr>,
               s1\<lparr>an_scopes := emplaceHere (pd_name p)
                   (mkSymbol i (pd_type p) (pd_isConst p) False False) (an_scopes s1)\<rparr>)) of
        (p', s') \<Rightarrow> (case declareParams ps s' of (ps', s'') \<Rightarrow> (p' # ps', s'')))"

text \<open>The global scope \<open>scopes_.front()\<close>, and a change of one of its entries.\<close>

definition updateGlobal :: "string \<Rightarrow> symbol \<Rightarrow> scope list \<Rightarrow> scope list" where
  "updateGlobal name entry scs = butlast scs @ [(last scs)(name \<mapsto> entry)]"

text \<open>The part of \<open>declareFunction\<close> after the name was entered: parameters and body.\<close>

definition checkBody :: "(fp \<Rightarrow> i64) \<Rightarrow> function_decl \<Rightarrow> analyzer \<Rightarrow> function_decl \<times> analyzer" where
  "checkBody ub fn s =
     (case fd_body fn of
        None \<Rightarrow> (fn, s)
      | Some body \<Rightarrow>
         (case declareParams (fd_params fn) (pushScope s) of (ps, s1) \<Rightarrow>
           (case checkStmts ub body (s1\<lparr>an_returnType := Some (returnType (fd_type fn))\<rparr>) of
              (body', s2) \<Rightarrow> (fn\<lparr>fd_params := ps, fd_body := Some body'\<rparr>, popScope s2))))"

definition declareFunction :: "(fp \<Rightarrow> i64) \<Rightarrow> function_decl \<Rightarrow> analyzer \<Rightarrow> function_decl \<times> analyzer" where
  "declareFunction ub fn s =
     (case last (an_scopes s) (fd_name fn) of
        Some prior \<Rightarrow>
          if \<not> sym_isFunction prior \<or> sym_type prior \<noteq> fd_type fn then
            (fn, an_error (fd_loc fn) (''conflicting types for '' @ quoted_text (fd_name fn)) s)
          else if sym_isDefined prior \<and> fd_body fn \<noteq> None then
            (fn, an_error (fd_loc fn) (''redefinition of '' @ quoted_text (fd_name fn)) s)
          else checkBody ub (fn\<lparr>fd_symbol := sym_id prior\<rparr>)
                 (s\<lparr>an_scopes := updateGlobal (fd_name fn)
                     (prior\<lparr>sym_isDefined := sym_isDefined prior \<or> fd_body fn \<noteq> None\<rparr>) (an_scopes s)\<rparr>)
      | None \<Rightarrow>
          (case newId s of (i, s1) \<Rightarrow>
            checkBody ub (fn\<lparr>fd_symbol := i\<rparr>)
              (s1\<lparr>an_scopes := updateGlobal (fd_name fn)
                  (mkSymbol i (fd_type fn) False True (fd_body fn \<noteq> None)) (an_scopes s1)\<rparr>)))"

section \<open>The run\<close>

fun runDecls :: "(fp \<Rightarrow> i64) \<Rightarrow> top_level_decl list \<Rightarrow> analyzer \<Rightarrow> top_level_decl list \<times> analyzer" where
  "runDecls ub [] s = ([], s)"
| "runDecls ub (d # ds) s =
     (case (case d of
              TopVar v \<Rightarrow> (case declareVar ub v True s of (v', s') \<Rightarrow> (TopVar v', s'))
            | TopFunction f \<Rightarrow> (case declareFunction ub f s of (f', s') \<Rightarrow> (TopFunction f', s'))) of
        (d', s1) \<Rightarrow> (case runDecls ub ds s1 of (ds', s2) \<Rightarrow> (d' # ds', s2)))"

definition analyze :: "(fp \<Rightarrow> i64) \<Rightarrow> translation_unit \<Rightarrow> translation_unit result" where
  "analyze ub tu =
     (case runDecls ub (tu_decls tu) newAnalyzer of (ds, s) \<Rightarrow>
       (if an_diags s \<noteq> [] then Inl (an_diags s) else Inr (tu\<lparr>tu_decls := ds\<rparr>)))"

end
