(* ===== verification/SemaWf.thy ===== *)
theory SemaWf
  imports SemaElab SemaStmt
begin

text \<open>
  What the analyzer promises of a whole translation unit: the statement judgement, the numbering
  of the symbols and the elaboration relation on statements and declarations, all stated on the
  resulting tree without the analyzer's state.
\<close>

section \<open>Input\<close>

fun parsedInit :: "initializer \<Rightarrow> bool" where
  "parsedInit (InitExpr e l) \<longleftrightarrow> parsed e"
| "parsedInit (InitList is l) \<longleftrightarrow> (\<forall>i \<in> set is. parsedInit i)"

definition parsedVar :: "var_decl \<Rightarrow> bool" where
  "parsedVar v \<longleftrightarrow> (case vd_init v of None \<Rightarrow> True | Some i \<Rightarrow> parsedInit i)"

fun parsedStmt :: "stmt \<Rightarrow> bool" where
  "parsedStmt (Stmt (ExprStmt e) l) \<longleftrightarrow> parsed e"
| "parsedStmt (Stmt (DeclStmt vs) l) \<longleftrightarrow> (\<forall>v \<in> set vs. parsedVar v)"
| "parsedStmt (Stmt (CompoundStmt body) l) \<longleftrightarrow> (\<forall>st \<in> set body. parsedStmt st)"
| "parsedStmt (Stmt (IfStmt c a None) l) \<longleftrightarrow> parsed c \<and> parsedStmt a"
| "parsedStmt (Stmt (IfStmt c a (Some b)) l) \<longleftrightarrow> parsed c \<and> parsedStmt a \<and> parsedStmt b"
| "parsedStmt (Stmt (WhileStmt c body) l) \<longleftrightarrow> parsed c \<and> parsedStmt body"
| "parsedStmt (Stmt (ReturnStmt v) l) \<longleftrightarrow> (case v of None \<Rightarrow> True | Some e \<Rightarrow> parsed e)"
| "parsedStmt (Stmt NullStmt l) \<longleftrightarrow> True"
| "parsedStmt (Stmt BreakStmt l) \<longleftrightarrow> True"
| "parsedStmt (Stmt ContinueStmt l) \<longleftrightarrow> True"

fun parsedDecl :: "top_level_decl \<Rightarrow> bool" where
  "parsedDecl (TopVar v) \<longleftrightarrow> parsedVar v"
| "parsedDecl (TopFunction f) \<longleftrightarrow>
     (case fd_body f of None \<Rightarrow> True | Some body \<Rightarrow> \<forall>st \<in> set body. parsedStmt st)"

section \<open>Well-formed declarations and statements\<close>

text \<open>
  An initializer for an object of a type; with a set of globals it must be a constant.
\<close>

fun initOk :: "(fp \<Rightarrow> i64) \<Rightarrow> scope list \<Rightarrow> symbol_id set option \<Rightarrow> ty \<Rightarrow> initializer \<Rightarrow> bool" where
  "initOk ub scs g t (InitExpr e l) \<longleftrightarrow>
     (if isArray t then element t = CharTy \<and> isStringLiteral e \<and> wellTyped ub scs e \<and>
        length (literalBytes e) \<le> unat (array_length t)
      else hasType ub scs e t \<and> (case g of None \<Rightarrow> True | Some G \<Rightarrow> isConstantInit ub G e))"
| "initOk ub scs g t (InitList is l) \<longleftrightarrow>
     (if isArray t then length is \<le> unat (array_length t) \<and> (\<forall>i \<in> set is. initOk ub scs g (element t) i)
      else length is = 1 \<and> (\<forall>i \<in> set is. initOk ub scs g t i))"

text \<open>The scopes after a declaration, and a declaration that is in order before it.\<close>

definition bindVar :: "var_decl \<Rightarrow> scope list \<Rightarrow> scope list" where
  "bindVar v scs = emplaceHere (vd_name v) (mkSymbol (vd_symbol v) (vd_type v) (vd_isConst v) False False) scs"

definition varOk :: "(fp \<Rightarrow> i64) \<Rightarrow> symbol_id set option \<Rightarrow> scope list \<Rightarrow> var_decl \<Rightarrow> bool" where
  "varOk ub g scs v \<longleftrightarrow>
     type_size (vd_type v) \<noteq> None \<and> \<not> declaredHere scs (vd_name v) \<and>
     (case vd_init v of None \<Rightarrow> True
      | Some i \<Rightarrow> initOk ub (bindVar v scs) (map_option (insert (vd_symbol v)) g) (vd_type v) i)"

fun varsOk :: "(fp \<Rightarrow> i64) \<Rightarrow> scope list \<Rightarrow> var_decl list \<Rightarrow> bool" where
  "varsOk ub scs [] \<longleftrightarrow> True"
| "varsOk ub scs (v # vs) \<longleftrightarrow> varOk ub None scs v \<and> varsOk ub (bindVar v scs) vs"

text \<open>The scopes after a statement: a declaration that is not in a block of its own stays.\<close>

fun afterStmt :: "stmt \<Rightarrow> scope list \<Rightarrow> scope list" where
  "afterStmt (Stmt (DeclStmt vs) l) scs = fold bindVar vs scs"
| "afterStmt (Stmt (IfStmt c a None) l) scs = afterStmt a scs"
| "afterStmt (Stmt (IfStmt c a (Some b)) l) scs = afterStmt b (afterStmt a scs)"
| "afterStmt (Stmt (WhileStmt c body) l) scs = afterStmt body scs"
| "afterStmt (Stmt n l) scs = scs"

definition condOk :: "(fp \<Rightarrow> i64) \<Rightarrow> scope list \<Rightarrow> expr \<Rightarrow> bool" where
  "condOk ub scs e \<longleftrightarrow> wellTyped ub scs e \<and> (\<exists>t. expr_type e = Some t \<and> isScalar t)"

fun stmtOk :: "(fp \<Rightarrow> i64) \<Rightarrow> ty \<Rightarrow> bool \<Rightarrow> scope list \<Rightarrow> stmt \<Rightarrow> bool"
and stmtsOk :: "(fp \<Rightarrow> i64) \<Rightarrow> ty \<Rightarrow> bool \<Rightarrow> scope list \<Rightarrow> stmt list \<Rightarrow> bool" where
  "stmtOk ub ret loop scs (Stmt NullStmt l) \<longleftrightarrow> True"
| "stmtOk ub ret loop scs (Stmt (ExprStmt e) l) \<longleftrightarrow> (\<exists>t. hasType ub scs e t)"
| "stmtOk ub ret loop scs (Stmt (DeclStmt vs) l) \<longleftrightarrow> varsOk ub scs vs"
| "stmtOk ub ret loop scs (Stmt (CompoundStmt body) l) \<longleftrightarrow> stmtsOk ub ret loop (enterScope scs) body"
| "stmtOk ub ret loop scs (Stmt (IfStmt c a None) l) \<longleftrightarrow> condOk ub scs c \<and> stmtOk ub ret loop scs a"
| "stmtOk ub ret loop scs (Stmt (IfStmt c a (Some b)) l) \<longleftrightarrow>
     condOk ub scs c \<and> stmtOk ub ret loop scs a \<and> stmtOk ub ret loop (afterStmt a scs) b"
| "stmtOk ub ret loop scs (Stmt (WhileStmt c body) l) \<longleftrightarrow> condOk ub scs c \<and> stmtOk ub ret True scs body"
| "stmtOk ub ret loop scs (Stmt BreakStmt l) \<longleftrightarrow> loop"
| "stmtOk ub ret loop scs (Stmt ContinueStmt l) \<longleftrightarrow> loop"
| "stmtOk ub ret loop scs (Stmt (ReturnStmt v) l) \<longleftrightarrow>
     (case v of None \<Rightarrow> ret = VoidTy | Some e \<Rightarrow> hasType ub scs e ret)"
| "stmtsOk ub ret loop scs [] \<longleftrightarrow> True"
| "stmtsOk ub ret loop scs (st # sts) \<longleftrightarrow>
     stmtOk ub ret loop scs st \<and> stmtsOk ub ret loop (afterStmt st scs) sts"

text \<open>Parameters share the scope of the body's outermost declarations.\<close>

definition bindParam :: "param_decl \<Rightarrow> scope list \<Rightarrow> scope list" where
  "bindParam p scs = emplaceHere (pd_name p) (mkSymbol (pd_symbol p) (pd_type p) (pd_isConst p) False False) scs"

definition paramsOk :: "param_decl list \<Rightarrow> bool" where
  "paramsOk ps \<longleftrightarrow> [] \<notin> set (map pd_name ps) \<and> distinct (map pd_name ps)"

definition bindFunction :: "function_decl \<Rightarrow> scope \<Rightarrow> scope" where
  "bindFunction f gs =
     (case gs (fd_name f) of
        Some prior \<Rightarrow> gs(fd_name f \<mapsto> prior\<lparr>sym_isDefined := sym_isDefined prior \<or> fd_body f \<noteq> None\<rparr>)
      | None \<Rightarrow> gs(fd_name f \<mapsto> mkSymbol (fd_symbol f) (fd_type f) False True (fd_body f \<noteq> None)))"

definition functionOk :: "(fp \<Rightarrow> i64) \<Rightarrow> scope \<Rightarrow> function_decl \<Rightarrow> bool" where
  "functionOk ub gs f \<longleftrightarrow>
     (case gs (fd_name f) of None \<Rightarrow> True
      | Some prior \<Rightarrow> sym_isFunction prior \<and> sym_type prior = fd_type f \<and> sym_id prior = fd_symbol f \<and>
          \<not> (sym_isDefined prior \<and> fd_body f \<noteq> None)) \<and>
     (case fd_body f of None \<Rightarrow> True
      | Some body \<Rightarrow> paramsOk (fd_params f) \<and>
          stmtsOk ub (returnType (fd_type f)) False
            (fold bindParam (fd_params f) (enterScope [bindFunction f gs])) body)"

fun declsOk :: "(fp \<Rightarrow> i64) \<Rightarrow> scope \<Rightarrow> symbol_id set \<Rightarrow> top_level_decl list \<Rightarrow> bool" where
  "declsOk ub gs G [] \<longleftrightarrow> True"
| "declsOk ub gs G (TopVar v # ds) \<longleftrightarrow>
     varOk ub (Some G) [gs] v \<and> declsOk ub (hd (bindVar v [gs])) (insert (vd_symbol v) G) ds"
| "declsOk ub gs G (TopFunction f # ds) \<longleftrightarrow> functionOk ub gs f \<and> declsOk ub (bindFunction f gs) G ds"

section \<open>Symbols\<close>

text \<open>The symbols that declarations introduce, in order; a function declared again keeps its.\<close>

fun stmtIds :: "stmt \<Rightarrow> symbol_id list" where
  "stmtIds (Stmt (DeclStmt vs) l) = map vd_symbol vs"
| "stmtIds (Stmt (CompoundStmt body) l) = concat (map stmtIds body)"
| "stmtIds (Stmt (IfStmt c a None) l) = stmtIds a"
| "stmtIds (Stmt (IfStmt c a (Some b)) l) = stmtIds a @ stmtIds b"
| "stmtIds (Stmt (WhileStmt c body) l) = stmtIds body"
| "stmtIds (Stmt n l) = []"

definition functionIds :: "string set \<Rightarrow> function_decl \<Rightarrow> symbol_id list" where
  "functionIds known f =
     (if fd_name f \<in> known then [] else [fd_symbol f]) @
     (case fd_body f of None \<Rightarrow> []
      | Some body \<Rightarrow> map pd_symbol (fd_params f) @ concat (map stmtIds body))"

fun declIds :: "string set \<Rightarrow> top_level_decl list \<Rightarrow> symbol_id list" where
  "declIds known [] = []"
| "declIds known (TopVar v # ds) = vd_symbol v # declIds (insert (vd_name v) known) ds"
| "declIds known (TopFunction f # ds) = functionIds known f @ declIds (insert (fd_name f) known) ds"

fun numbered :: "symbol_id \<Rightarrow> symbol_id list \<Rightarrow> bool" where
  "numbered i [] \<longleftrightarrow> True"
| "numbered i (x # xs) \<longleftrightarrow> x = i \<and> numbered (i + 1) xs"

lemma numbered_append [simp]:
  "numbered i (xs @ ys) \<longleftrightarrow> numbered i xs \<and> numbered (i + word_of_nat (length xs)) ys"
  by (induction xs arbitrary: i) (auto simp: algebra_simps)

lemma numbered_nth: "numbered i xs \<Longrightarrow> k < length xs \<Longrightarrow> xs ! k = i + word_of_nat k"
  by (induction xs arbitrary: i k) (auto simp: nth_Cons algebra_simps split: nat.split)

lemma word_of_nat_inject_small:
  "a < 2 ^ 32 \<Longrightarrow> b < 2 ^ 32 \<Longrightarrow> (word_of_nat a :: 32 word) = word_of_nat b \<longleftrightarrow> a = b"
  by (simp add: word_of_nat_eq_iff take_bit_nat_eq_self)

lemma numbered_distinct: "numbered i xs \<Longrightarrow> length xs \<le> 2 ^ 32 \<Longrightarrow> distinct xs"
  unfolding distinct_conv_nth
  by (auto simp: numbered_nth word_of_nat_inject_small)

section \<open>Elaboration\<close>

inductive elabInit :: "initializer \<Rightarrow> initializer \<Rightarrow> bool" where
  elabInit_expr: "elaborates e e' \<Longrightarrow> elabInit (InitExpr e l) (InitExpr e' l)"
| elabInit_list: "list_all2 elabInit is is' \<Longrightarrow> elabInit (InitList is l) (InitList is' l)"

text \<open>An array type without a length gets the one of its initializer.\<close>

definition elabVar :: "var_decl \<Rightarrow> var_decl \<Rightarrow> bool" where
  "elabVar v v' \<longleftrightarrow>
     vd_name v' = vd_name v \<and> vd_isConst v' = vd_isConst v \<and> vd_loc v' = vd_loc v \<and>
     vd_type v' = (if isArray (vd_type v) \<and> array_length (vd_type v) = 0
                   then completeArrayType (vd_type v) (vd_init v) else vd_type v) \<and>
     rel_option elabInit (vd_init v) (vd_init v')"

inductive elabStmt :: "stmt \<Rightarrow> stmt \<Rightarrow> bool" where
  elabStmt_null: "elabStmt (Stmt NullStmt l) (Stmt NullStmt l)"
| elabStmt_expr: "elaborates e e' \<Longrightarrow> elabStmt (Stmt (ExprStmt e) l) (Stmt (ExprStmt e') l)"
| elabStmt_decl: "list_all2 elabVar vs vs' \<Longrightarrow> elabStmt (Stmt (DeclStmt vs) l) (Stmt (DeclStmt vs') l)"
| elabStmt_block: "list_all2 elabStmt b b' \<Longrightarrow> elabStmt (Stmt (CompoundStmt b) l) (Stmt (CompoundStmt b') l)"
| elabStmt_if: "elaborates c c' \<Longrightarrow> elabStmt a a' \<Longrightarrow> elabStmt (Stmt (IfStmt c a None) l) (Stmt (IfStmt c' a' None) l)"
| elabStmt_ifelse: "elaborates c c' \<Longrightarrow> elabStmt a a' \<Longrightarrow> elabStmt b b' \<Longrightarrow>
    elabStmt (Stmt (IfStmt c a (Some b)) l) (Stmt (IfStmt c' a' (Some b')) l)"
| elabStmt_while: "elaborates c c' \<Longrightarrow> elabStmt a a' \<Longrightarrow> elabStmt (Stmt (WhileStmt c a) l) (Stmt (WhileStmt c' a') l)"
| elabStmt_break: "elabStmt (Stmt BreakStmt l) (Stmt BreakStmt l)"
| elabStmt_continue: "elabStmt (Stmt ContinueStmt l) (Stmt ContinueStmt l)"
| elabStmt_return: "rel_option elaborates v v' \<Longrightarrow> elabStmt (Stmt (ReturnStmt v) l) (Stmt (ReturnStmt v') l)"

definition elabParam :: "param_decl \<Rightarrow> param_decl \<Rightarrow> bool" where
  "elabParam p p' \<longleftrightarrow>
     pd_name p' = pd_name p \<and> pd_type p' = pd_type p \<and> pd_isConst p' = pd_isConst p \<and> pd_loc p' = pd_loc p"

definition elabFunction :: "function_decl \<Rightarrow> function_decl \<Rightarrow> bool" where
  "elabFunction f f' \<longleftrightarrow>
     fd_name f' = fd_name f \<and> fd_type f' = fd_type f \<and> fd_loc f' = fd_loc f \<and>
     list_all2 elabParam (fd_params f) (fd_params f') \<and> rel_option (list_all2 elabStmt) (fd_body f) (fd_body f')"

fun elabDecl :: "top_level_decl \<Rightarrow> top_level_decl \<Rightarrow> bool" where
  "elabDecl (TopVar v) (TopVar v') \<longleftrightarrow> elabVar v v'"
| "elabDecl (TopFunction f) (TopFunction f') \<longleftrightarrow> elabFunction f f'"
| "elabDecl _ _ \<longleftrightarrow> False"

end
