(* ===== verification/SemaCorrect.thy ===== *)
theory SemaCorrect
  imports SemaWf
begin

text \<open>
  The analyzer keeps its promises: what every statement, declaration and translation unit becomes
  is well formed, elaborates what was parsed, and its symbols are numbered consecutively, unless a
  diagnostic was reported.
\<close>

section \<open>Steps\<close>

text \<open>What holds of every step, with or without errors.\<close>

definition keeps :: "analyzer \<Rightarrow> analyzer \<Rightarrow> bool" where
  "keeps s s' \<longleftrightarrow>
     (\<exists>ds. an_diags s' = an_diags s @ ds) \<and> tl (an_scopes s') = tl (an_scopes s) \<and>
     (an_scopes s' = [] \<longleftrightarrow> an_scopes s = []) \<and> an_returnType s' = an_returnType s \<and>
     an_loopDepth s' = an_loopDepth s"

definition clean :: "analyzer \<Rightarrow> analyzer \<Rightarrow> bool" where
  "clean s s' \<longleftrightarrow> an_diags s' = an_diags s"

text \<open>The state after an error-free step that declared \<open>n\<close> symbols.\<close>

definition progress :: "scope list \<Rightarrow> nat \<Rightarrow> analyzer \<Rightarrow> analyzer" where
  "progress scs n s = s\<lparr>an_nextId := an_nextId s + word_of_nat n, an_scopes := scs\<rparr>"

lemma keeps_refl [simp, intro!]: "keeps s s"
  by (simp add: keeps_def)

lemma keeps_trans [trans]: "keeps s t \<Longrightarrow> keeps t u \<Longrightarrow> keeps s u"
  by (auto simp: keeps_def)

lemma clean_refl [simp]: "clean s s"
  by (simp add: clean_def)

lemma clean_split: "keeps s t \<Longrightarrow> keeps t u \<Longrightarrow> clean s u \<longleftrightarrow> clean s t \<and> clean t u"
  by (auto simp: keeps_def clean_def)

lemma keeps_reports: "reports s s' \<Longrightarrow> keeps s s'"
  and not_clean_reports: "reports s s' \<Longrightarrow> \<not> clean s s'"
  by (auto simp: reports_def keeps_def clean_def)

lemma keeps_error [simp, intro!]: "keeps s (an_error l m s)"
  and not_clean_error [simp]: "\<not> clean s (an_error l m s)"
  by (simp_all add: keeps_reports not_clean_reports)

text \<open>
  A step that keeps the frame and, when it reported nothing, ended in the state and with the
  property given.
\<close>

definition step :: "analyzer \<Rightarrow> analyzer \<Rightarrow> analyzer \<Rightarrow> bool \<Rightarrow> bool" where
  "step s s' sc P \<longleftrightarrow> keeps s s' \<and> (clean s s' \<longrightarrow> s' = sc \<and> P)"

lemma step_error: "reports s s' \<Longrightarrow> step s s' sc P"
  by (simp add: step_def keeps_reports not_clean_reports)

lemma step_id: "P \<Longrightarrow> step s s s P"
  by (simp add: step_def)

lemma step_keeps: "step s s' sc P \<Longrightarrow> keeps s s'"
  by (simp add: step_def)

lemma step_mono: "step s s' sc P \<Longrightarrow> (P \<Longrightarrow> Q) \<Longrightarrow> step s s' sc Q"
  by (simp add: step_def)

lemma step_trans:
  assumes 1: "step s t tc P" and 2: "keeps t u" and 3: "t = tc \<Longrightarrow> P \<Longrightarrow> step t u uc Q" and 4: "P \<Longrightarrow> Q \<Longrightarrow> R"
  shows "step s u uc R"
proof -
  have "u = uc \<and> R" if "clean s u"
  proof -
    have "clean s t" "clean t u" using that clean_split [OF step_keeps [OF 1] 2] by auto
    hence "t = tc" "P" using 1 by (auto simp: step_def)
    hence "step t u uc Q" by (rule 3)
    with \<open>clean t u\<close> have "u = uc" "Q" by (auto simp: step_def)
    thus ?thesis using \<open>P\<close> 4 by blast
  qed
  thus ?thesis using keeps_trans [OF step_keeps [OF 1] 2] by (simp add: step_def)
qed

section \<open>Initializers\<close>

lemma checkValue_cases [consumes 2, case_names silent typed]:
  assumes "parsed e" "checkValue ub e s = (e', s')"
  obtains "expr_type e' = None" "reports s s'"
    | t where "hasType ub (an_scopes s) e' t" "elaborates e e'" "s' = s"
proof -
  have "valueOutcome ub s (e', s')" using checkValue_outcome [OF assms(1), of ub s] assms(2) by simp
  thus thesis
  proof (cases rule: valueOutcome_cases)
    case silent
    thus thesis by (rule that(1))
  next
    case (typed t)
    have "elabs e e'" using elabs_decay [OF elabs_check(1) [OF assms(1)], of ub s] assms(2)
      by (simp add: checkValue_def)
    thus thesis using that(2) typed by (auto simp: hasType_def elabs_def)
  qed
qed

lemma convert_cases [consumes 2, case_names fail ok]:
  assumes "hasType ub (an_scopes s) e from" "convert ub e to m s = (r, e', s')"
  obtains "\<not> r" "reports s s'" | "r" "hasType ub (an_scopes s) e' to" "elaborates x e \<Longrightarrow> elaborates x e'" "s' = s"
  using convert_outcome [OF hasTypeD [OF assms(1)] assms(2)] elaborates_convert [OF _ assms(2), of x]
  by (auto simp: hasType_def split: if_splits)

definition globalsFor :: "bool \<Rightarrow> analyzer \<Rightarrow> symbol_id set option" where
  "globalsFor glob s = (if glob then Some (an_globals s) else None)"

lemma stringLiteral_elaborates:
  "isStringLiteral e \<Longrightarrow> elaborates e (Expr (node e) (expr_loc e) t c)"
  by (cases e) (auto simp: isStringLiteral_def intro: elab_string split: expr_node.splits)

lemma checkStringInit_step:
  assumes "isStringLiteral e" "element t = CharTy" "isArray t" "checkStringInit e l t s = (i', s')"
  shows "step s s' s (elabInit (InitExpr e l) i' \<and> initOk ub (an_scopes s) (globalsFor glob s) t i')"
proof -
  obtain b where b: "node e = StringLiteral b"
    using assms(1) by (auto simp: isStringLiteral_def split: expr_node.splits)
  show ?thesis
    using assms(2-4) stringLiteral_elaborates [OF assms(1)] b
    by (auto simp: checkStringInit_def Let_def isStringLiteral_def literalBytes_def
        intro: step_error intro!: step_id elabInit_expr split: if_splits)
qed

lemma checkScalarInit_step:
  assumes p: "parsed e" and t: "\<not> isArray t" and c: "checkScalarInit ub e l t glob s = (i', s')"
  shows "step s s' s (elabInit (InitExpr e l) i' \<and> initOk ub (an_scopes s) (globalsFor glob s) t i')"
proof -
  obtain e1 s1 where v: "checkValue ub e s = (e1, s1)" by (cases "checkValue ub e s")
  show ?thesis using p v
  proof (cases rule: checkValue_cases)
    case silent
    thus ?thesis using c v by (auto simp: checkScalarInit_def intro: step_error)
  next
    case (typed t1)
    obtain ok e2 s2 where cv: "convert ub e1 t ''initializing'' s = (ok, e2, s2)" by (cases rule: prod_cases3)
    show ?thesis using typed(1) cv
    proof (cases rule: convert_cases [where x = e])
      case fail
      thus ?thesis using c v typed cv by (auto simp: checkScalarInit_def hasType_def intro: step_error)
    next
      case ok
      thus ?thesis using c v typed cv t
        by (auto simp: checkScalarInit_def hasType_def globalsFor_def intro!: step_error step_id elabInit_expr
            split: if_splits)
    qed
  qed
qed

lemma checkInit_step:
  "parsedInit i \<Longrightarrow> checkInit ub i t glob s = (i', s') \<Longrightarrow>
     step s s' s (elabInit i i' \<and> initOk ub (an_scopes s) (globalsFor glob s) t i')"
  "(\<forall>i \<in> set is. parsedInit i) \<Longrightarrow> checkInits ub is t glob s = (is', s') \<Longrightarrow>
     step s s' s (list_all2 elabInit is is' \<and> (\<forall>i \<in> set is'. initOk ub (an_scopes s) (globalsFor glob s) t i))"
proof (induction ub i t glob s and ub "is" t glob s arbitrary: i' s' and is' s' rule: checkInit_checkInits.induct)
  case (1 ub e l t glob s)
  show ?case
  proof (cases "isCharString (InitExpr e l) t")
    case True
    thus ?thesis using 1 checkStringInit_step by (simp add: isCharString_def)
  next
    case False
    thus ?thesis using 1 checkScalarInit_step by (auto intro: step_error split: if_splits)
  qed
next
  case (2 ub "is" l t glob s)
  show ?case
  proof (cases "isArray t")
    case arr: True
    obtain is1 s1 where c: "checkInits ub is (element t) glob (excessElements is t s) = (is1, s1)"
      by (cases "checkInits ub is (element t) glob (excessElements is t s)")
    have IH: "step (excessElements is t s) s1 (excessElements is t s)
        (list_all2 elabInit is is1 \<and> (\<forall>i \<in> set is1. initOk ub (an_scopes (excessElements is t s))
           (globalsFor glob (excessElements is t s)) (element t) i))"
      using 2 arr c by simp
    have "step s s1 s (elabInit (InitList is l) (InitList is1 l) \<and> initOk ub (an_scopes s) (globalsFor glob s) t (InitList is1 l))"
    proof (cases "unat (array_length t) < length is")
      case True
      hence "reports s (excessElements is t s)" by (simp add: excessElements_def)
      hence "step s (excessElements is t s) s False" by (rule step_error)
      thus ?thesis by (rule step_trans [where Q = True]) (use step_keeps [OF IH] in auto)
    next
      case False
      hence ex: "excessElements is t s = s" by (simp add: excessElements_def)
      show ?thesis
        by (rule step_mono [OF IH [unfolded ex]]) (use arr False in \<open>auto simp: elabInit_list dest: list_all2_lengthD\<close>)
    qed
    thus ?thesis using 2(4) arr c by auto
  next
    case False
    obtain is1 s1 where c: "checkInits ub is t glob s = (is1, s1)" by (cases "checkInits ub is t glob s")
    show ?thesis
    proof (cases "length is = 1")
      case True
      have IH: "step s s1 s (list_all2 elabInit is is1 \<and> (\<forall>i \<in> set is1. initOk ub (an_scopes s) (globalsFor glob s) t i))"
        using 2 False True c by simp
      have "step s s1 s (elabInit (InitList is l) (InitList is1 l) \<and> initOk ub (an_scopes s) (globalsFor glob s) t (InitList is1 l))"
        by (rule step_mono [OF IH]) (use False True in \<open>auto simp: elabInit_list dest: list_all2_lengthD\<close>)
      thus ?thesis using 2(4) False True c by auto
    next
      case len: False
      thus ?thesis using 2(4) False by (auto intro: step_error)
    qed
  qed
next
  case (4 ub i "is" t glob s)
  obtain i1 s1 where i: "checkInit ub i t glob s = (i1, s1)" by (cases "checkInit ub i t glob s")
  obtain is1 s2 where r: "checkInits ub is t glob s1 = (is1, s2)" by (cases "checkInits ub is t glob s1")
  have A: "step s s1 s (elabInit i i1 \<and> initOk ub (an_scopes s) (globalsFor glob s) t i1)" using 4 i by simp
  have B: "step s1 s2 s1 (list_all2 elabInit is is1 \<and>
      (\<forall>i \<in> set is1. initOk ub (an_scopes s1) (globalsFor glob s1) t i))"
    using 4 i r by simp
  have "step s s2 s (list_all2 elabInit (i # is) (i1 # is1) \<and>
      (\<forall>i \<in> set (i1 # is1). initOk ub (an_scopes s) (globalsFor glob s) t i))"
    by (rule step_trans [OF A step_keeps [OF B]]) (use B in auto)
  thus ?case using 4(4) i r by auto
qed (auto simp: step_id)

section \<open>Variables\<close>

lemma emplace_frame [simp]:
  "tl (emplaceHere n v scs) = tl scs" "emplaceHere n v scs = [] \<longleftrightarrow> scs = []"
  by (cases scs; simp)+

lemma bindVar_frame [simp]: "tl (bindVar v scs) = tl scs" "bindVar v scs = [] \<longleftrightarrow> scs = []"
  by (simp_all add: bindVar_def)

lemma bindVars_frame [simp]: "tl (fold bindVar vs scs) = tl scs" "fold bindVar vs scs = [] \<longleftrightarrow> scs = []"
  by (induction vs arbitrary: scs) simp_all

lemma keeps_progress: "tl scs = tl (an_scopes s) \<Longrightarrow> scs = [] \<longleftrightarrow> an_scopes s = [] \<Longrightarrow> keeps s (progress scs n s)"
  by (simp add: keeps_def progress_def)

definition addGlobal :: "bool \<Rightarrow> symbol_id \<Rightarrow> analyzer \<Rightarrow> analyzer" where
  "addGlobal glob i s = (if glob then s\<lparr>an_globals := insert i (an_globals s)\<rparr> else s)"

definition declaredType :: "var_decl \<Rightarrow> ty" where
  "declaredType v = (if isArray (vd_type v) \<and> array_length (vd_type v) = 0
     then completeArrayType (vd_type v) (vd_init v) else vd_type v)"

lemma declareVar_ok:
  fixes s v glob
  defines "w \<equiv> v\<lparr>vd_type := declaredType v, vd_symbol := an_nextId s\<rparr>"
  defines "s3 \<equiv> addGlobal glob (an_nextId s) (progress (bindVar w (an_scopes s)) 1 s)"
  assumes "type_size (declaredType v) \<noteq> None" "\<not> declaredHere (an_scopes s) (vd_name v)"
  shows "declareVar ub v glob s =
     (case vd_init v of None \<Rightarrow> (w, s3)
      | Some i \<Rightarrow> (case checkInit ub i (declaredType v) glob s3 of (i', s4) \<Rightarrow> (w\<lparr>vd_init := Some i'\<rparr>, s4)))"
  using assms(3,4)
  by (cases glob) (auto simp: declareVar_def Let_def declaredType_def [symmetric] w_def s3_def newId_def bindVar_def
      addGlobal_def progress_def split: option.split prod.split)

lemma declareVar_step:
  assumes p: "parsedVar v" and d: "declareVar ub v glob s = (v', s')"
  shows "step s s' (addGlobal glob (vd_symbol v') (progress (bindVar v' (an_scopes s)) 1 s))
     (elabVar v v' \<and> varOk ub (globalsFor glob s) (an_scopes s) v' \<and> vd_symbol v' = an_nextId s)"
proof -
  define t where "t = declaredType v"
  define w where "w = v\<lparr>vd_type := t, vd_symbol := an_nextId s\<rparr>"
  define s3 where "s3 = addGlobal glob (an_nextId s) (progress (bindVar w (an_scopes s)) 1 s)"
  consider (incomplete) "type_size t = None" | (again) "type_size t \<noteq> None" "declaredHere (an_scopes s) (vd_name v)"
    | (ok) "type_size t \<noteq> None" "\<not> declaredHere (an_scopes s) (vd_name v)" by blast
  thus ?thesis
  proof cases
    case incomplete
    thus ?thesis using d
      by (auto simp: declareVar_def Let_def declaredType_def [symmetric] t_def [symmetric] intro: step_error)
  next
    case again
    thus ?thesis using d
      by (auto simp: declareVar_def Let_def declaredType_def [symmetric] t_def [symmetric] intro: step_error)
  next
    case ok
    note decl = declareVar_ok [where s = s and v = v and glob = glob and ub = ub,
        folded t_def, folded w_def, folded s3_def, OF ok]
    have s3: "keeps s s3" "clean s s3"
      by (simp_all add: s3_def addGlobal_def keeps_def clean_def progress_def)
    show ?thesis
    proof (cases "vd_init v")
      case None
      hence "v' = w" "s' = s3" using d decl by auto
      moreover have "elabVar v w" "varOk ub (globalsFor glob s) (an_scopes s) w"
        using ok None by (auto simp: elabVar_def varOk_def w_def t_def declaredType_def)
      ultimately show ?thesis using s3 by (auto simp: step_def s3_def w_def)
    next
      case (Some i)
      obtain i' where c: "checkInit ub i t glob s3 = (i', s')" and v': "v' = w\<lparr>vd_init := Some i'\<rparr>"
        using d decl Some by (auto split: prod.splits)
      have "parsedInit i" using p Some by (simp add: parsedVar_def)
      hence st: "step s3 s' s3 (elabInit i i' \<and> initOk ub (an_scopes s3) (globalsFor glob s3) t i')"
        using c by (rule checkInit_step)
      have env: "an_scopes s3 = bindVar v' (an_scopes s)" "s3 = addGlobal glob (vd_symbol v') (progress (bindVar v' (an_scopes s)) 1 s)"
        "globalsFor glob s3 = map_option (insert (vd_symbol v')) (globalsFor glob s)"
        by (auto simp: s3_def v' w_def addGlobal_def progress_def bindVar_def globalsFor_def)
      have "step s s' s3 (elabVar v v' \<and> varOk ub (globalsFor glob s) (an_scopes s) v' \<and> vd_symbol v' = an_nextId s)"
        by (rule step_trans [of s s3 s3 True, OF _ step_keeps [OF st] st])
          (use s3 ok Some env in \<open>auto simp: step_def elabVar_def varOk_def v' w_def t_def declaredType_def\<close>)
      thus ?thesis using env by simp
    qed
  qed
qed

lemma declareVars_step:
  assumes "\<forall>v \<in> set vs. parsedVar v" and "declareVars ub vs s = (vs', s')"
  shows "step s s' (progress (fold bindVar vs' (an_scopes s)) (length vs') s)
     (list_all2 elabVar vs vs' \<and> varsOk ub (an_scopes s) vs' \<and> numbered (an_nextId s) (map vd_symbol vs'))"
  using assms
proof (induction vs arbitrary: s vs' s')
  case Nil
  thus ?case by (simp add: step_def progress_def)
next
  case (Cons v vs)
  obtain v1 s1 where v: "declareVar ub v False s = (v1, s1)" by (cases "declareVar ub v False s")
  obtain vs1 s2 where vs: "declareVars ub vs s1 = (vs1, s2)" by (cases "declareVars ub vs s1")
  have A: "step s s1 (progress (bindVar v1 (an_scopes s)) 1 s)
      (elabVar v v1 \<and> varOk ub None (an_scopes s) v1 \<and> vd_symbol v1 = an_nextId s)"
    using declareVar_step [OF _ v] Cons.prems by (simp add: addGlobal_def globalsFor_def)
  have B: "step s1 s2 (progress (fold bindVar vs1 (an_scopes s1)) (length vs1) s1)
      (list_all2 elabVar vs vs1 \<and> varsOk ub (an_scopes s1) vs1 \<and> numbered (an_nextId s1) (map vd_symbol vs1))"
    using Cons.IH [OF _ vs] Cons.prems by simp
  have "step s s2 (progress (fold bindVar (v1 # vs1) (an_scopes s)) (length (v1 # vs1)) s)
      (list_all2 elabVar (v # vs) (v1 # vs1) \<and> varsOk ub (an_scopes s) (v1 # vs1) \<and>
       numbered (an_nextId s) (map vd_symbol (v1 # vs1)))"
    by (rule step_trans [OF A step_keeps [OF B], where Q = "list_all2 elabVar vs vs1 \<and>
          varsOk ub (bindVar v1 (an_scopes s)) vs1 \<and> numbered (an_nextId s + 1) (map vd_symbol vs1)"])
      (use B in \<open>auto simp: progress_def algebra_simps\<close>)
  thus ?case using Cons.prems(2) v vs by auto
qed

section \<open>Statements\<close>

lemma progress_simps [simp]:
  "an_scopes (progress scs n s) = scs" "an_nextId (progress scs n s) = an_nextId s + word_of_nat n"
  "an_returnType (progress scs n s) = an_returnType s" "an_loopDepth (progress scs n s) = an_loopDepth s"
  "an_globals (progress scs n s) = an_globals s" "an_diags (progress scs n s) = an_diags s"
  "progress scs n (progress scs' m s) = progress scs (m + n) s" "progress (an_scopes s) 0 s = s"
  by (simp_all add: progress_def algebra_simps)

lemma afterStmt_frame [simp]: "tl (afterStmt st scs) = tl scs" "afterStmt st scs = [] \<longleftrightarrow> scs = []"
  by (induction st scs rule: afterStmt.induct) simp_all

lemma afterStmts_frame [simp]: "tl (fold afterStmt sts scs) = tl scs" "fold afterStmt sts scs = [] \<longleftrightarrow> scs = []"
  by (induction sts arbitrary: scs) simp_all

lemma checkCondition_step:
  assumes p: "parsed e" and c: "checkCondition ub e s = (e', s')"
  shows "step s s' s (elaborates e e' \<and> condOk ub (an_scopes s) e')"
proof -
  obtain e1 s1 where v: "checkValue ub e s = (e1, s1)" by (cases "checkValue ub e s")
  show ?thesis using p v
  proof (cases rule: checkValue_cases)
    case silent
    thus ?thesis using c v by (auto simp: checkCondition_def intro: step_error)
  next
    case (typed t)
    thus ?thesis using c v
      by (auto simp: checkCondition_def hasType_def condOk_def failExpr_def intro: step_error intro!: step_id split: if_splits)
  qed
qed

lemma checkReturn_step:
  assumes p: "case v of None \<Rightarrow> True | Some e \<Rightarrow> parsed e" and ret: "an_returnType s = Some ret"
    and c: "checkReturn ub v l s = (v', s')"
  shows "step s s' s (rel_option elaborates v v' \<and>
     (case v' of None \<Rightarrow> ret = VoidTy | Some e \<Rightarrow> hasType ub (an_scopes s) e ret))"
proof (cases v)
  case None
  thus ?thesis using c ret
    by (auto simp: checkReturn_def isVoid_iff intro: step_error intro!: step_id split: if_splits)
next
  case (Some e)
  obtain e1 s1 where v: "checkValue ub e s = (e1, s1)" by (cases "checkValue ub e s")
  have "parsed e" using p Some by simp
  thus ?thesis using v
  proof (cases rule: checkValue_cases)
    case silent
    thus ?thesis using c v Some by (auto simp: checkReturn_def Let_def intro: step_error)
  next
    case (typed t)
    hence et: "expr_type e1 = Some t" by (simp add: hasType_def)
    show ?thesis
    proof (cases "ret = VoidTy")
      case True
      thus ?thesis using c v Some typed et ret
        by (auto simp: checkReturn_def Let_def isVoid_iff intro: step_error intro!: step_id split: if_splits)
    next
      case False
      obtain ok e2 s2 where cv: "convert ub e1 ret ''returning'' s = (ok, e2, s2)" by (cases rule: prod_cases3)
      have res: "v' = Some e2" "s' = s2"
        using c v Some typed et ret cv False by (auto simp: checkReturn_def Let_def isVoid_iff)
      show ?thesis using typed(1) cv
        by (cases rule: convert_cases [where x = e]) (use res Some typed in \<open>auto intro: step_error intro!: step_id\<close>)
    qed
  qed
qed

lemma notInLoop_step: "step s (notInLoop w l s) s (an_loopDepth s \<noteq> 0)"
  by (auto simp: notInLoop_def intro: step_error step_id)

text \<open>The claim of a statement and of a list of them.\<close>

definition stmtStep :: "(fp \<Rightarrow> i64) \<Rightarrow> stmt \<Rightarrow> analyzer \<Rightarrow> stmt \<Rightarrow> analyzer \<Rightarrow> bool" where
  "stmtStep ub st s st' s' \<longleftrightarrow>
     step s s' (progress (afterStmt st' (an_scopes s)) (length (stmtIds st')) s)
       (elabStmt st st' \<and> stmtOk ub (the (an_returnType s)) (an_loopDepth s \<noteq> 0) (an_scopes s) st' \<and>
        numbered (an_nextId s) (stmtIds st'))"

definition stmtsStep :: "(fp \<Rightarrow> i64) \<Rightarrow> stmt list \<Rightarrow> analyzer \<Rightarrow> stmt list \<Rightarrow> analyzer \<Rightarrow> bool" where
  "stmtsStep ub sts s sts' s' \<longleftrightarrow>
     step s s' (progress (fold afterStmt sts' (an_scopes s)) (length (concat (map stmtIds sts'))) s)
       (list_all2 elabStmt sts sts' \<and>
        stmtsOk ub (the (an_returnType s)) (an_loopDepth s \<noteq> 0) (an_scopes s) sts' \<and>
        numbered (an_nextId s) (concat (map stmtIds sts')))"

text \<open>States in which statements are checked.\<close>

definition inFunction :: "analyzer \<Rightarrow> bool" where
  "inFunction s \<longleftrightarrow> an_scopes s \<noteq> [] \<and> an_returnType s \<noteq> None \<and> 0 \<le> an_loopDepth s"

lemma inFunction_keeps: "inFunction s \<Longrightarrow> keeps s s' \<Longrightarrow> inFunction s'"
  by (auto simp: inFunction_def keeps_def)

text \<open>A step without effect on the state but the reports, and then a statement.\<close>

lemma stmtStep_pure:
  assumes "step s s' s P" and "P \<Longrightarrow> elabStmt st st' \<and> stmtOk ub (the (an_returnType s)) (an_loopDepth s \<noteq> 0) (an_scopes s) st'"
    and "afterStmt st' (an_scopes s) = an_scopes s" "stmtIds st' = []"
  shows "stmtStep ub st s st' s'"
  using step_mono [OF assms(1)] assms(2) by (simp add: stmtStep_def assms(3,4))

lemma stmtStep_block:
  assumes b: "stmtsStep ub body (pushScope s) body' s1"
  shows "stmtStep ub (Stmt (CompoundStmt body) l) s (Stmt (CompoundStmt body') l) (popScope s1)"
proof -
  have k: "keeps (pushScope s) s1" using b by (auto simp: stmtsStep_def dest: step_keeps)
  hence "keeps s (popScope s1)" "clean s (popScope s1) \<longleftrightarrow> clean (pushScope s) s1"
    by (auto simp: keeps_def clean_def pushScope_def popScope_def enterScope_def)
  moreover have "popScope (progress (fold afterStmt body' (an_scopes (pushScope s))) n (pushScope s)) =
      progress (an_scopes s) n s" for n
    by (simp add: popScope_def progress_def pushScope_def enterScope_def)
  ultimately show ?thesis
    using b by (auto simp: stmtStep_def stmtsStep_def step_def elabStmt_block) (simp_all add: pushScope_def)
qed

lemma stmtsStep_cons:
  assumes a: "stmtStep ub st s st' s1" and b: "stmtsStep ub sts s1 sts' s2"
  shows "stmtsStep ub (st # sts) s (st' # sts') s2"
  unfolding stmtsStep_def
  by (rule step_trans [OF a [unfolded stmtStep_def] _, where
        Q = "list_all2 elabStmt sts sts' \<and>
             stmtsOk ub (the (an_returnType s)) (an_loopDepth s \<noteq> 0) (afterStmt st' (an_scopes s)) sts' \<and>
             numbered (an_nextId s + word_of_nat (length (stmtIds st'))) (concat (map stmtIds sts'))"])
    (use b in \<open>auto simp: stmtsStep_def algebra_simps dest: step_keeps\<close>)

lemma stmtStep_if:
  assumes c: "step s s1 s (elaborates c c' \<and> condOk ub (an_scopes s) c')" and a: "stmtStep ub a s1 a' s2"
  shows "stmtStep ub (Stmt (IfStmt c a None) l) s (Stmt (IfStmt c' a' None) l) s2"
  unfolding stmtStep_def
  by (rule step_trans [OF c, where Q = "elabStmt a a' \<and>
        stmtOk ub (the (an_returnType s)) (an_loopDepth s \<noteq> 0) (an_scopes s) a' \<and> numbered (an_nextId s) (stmtIds a')"])
    (use a in \<open>auto simp: stmtStep_def elabStmt_if dest: step_keeps\<close>)

lemma stmtStep_ifelse:
  assumes c: "step s s1 s (elaborates c c' \<and> condOk ub (an_scopes s) c')"
    and a: "stmtStep ub a s1 a' s2" and b: "stmtStep ub b s2 b' s3"
  shows "stmtStep ub (Stmt (IfStmt c a (Some b)) l) s (Stmt (IfStmt c' a' (Some b')) l) s3"
proof -
  have A: "step s s2 (progress (afterStmt a' (an_scopes s)) (length (stmtIds a')) s)
      ((elaborates c c' \<and> condOk ub (an_scopes s) c') \<and> elabStmt a a' \<and>
       stmtOk ub (the (an_returnType s)) (an_loopDepth s \<noteq> 0) (an_scopes s) a' \<and> numbered (an_nextId s) (stmtIds a'))"
    by (rule step_trans [OF c]) (use a in \<open>auto simp: stmtStep_def dest: step_keeps\<close>)
  show ?thesis
    unfolding stmtStep_def
    by (rule step_trans [OF A, where Q = "elabStmt b b' \<and>
          stmtOk ub (the (an_returnType s)) (an_loopDepth s \<noteq> 0) (afterStmt a' (an_scopes s)) b' \<and>
          numbered (an_nextId s + word_of_nat (length (stmtIds a'))) (stmtIds b')"])
      (use b in \<open>auto simp: stmtStep_def elabStmt_ifelse algebra_simps dest: step_keeps\<close>)
qed

lemma stmtStep_while:
  assumes d: "0 \<le> an_loopDepth s" and c: "step s s1 s (elaborates c c' \<and> condOk ub (an_scopes s) c')"
    and a: "stmtStep ub a (loopBy 1 s1) a' s2"
  shows "stmtStep ub (Stmt (WhileStmt c a) l) s (Stmt (WhileStmt c' a') l) (loopBy (-1) s2)"
proof -
  have k: "keeps (loopBy 1 s1) s2" using a by (auto simp: stmtStep_def dest: step_keeps)
  hence "keeps s1 (loopBy (-1) s2)" "clean s1 (loopBy (-1) s2) \<longleftrightarrow> clean (loopBy 1 s1) s2"
    by (auto simp: keeps_def clean_def loopBy_def)
  moreover have "loopBy (-1) (progress scs n (loopBy 1 s1)) = progress scs n s1" for scs n
    by (simp add: loopBy_def progress_def)
  moreover have "an_loopDepth s1 = an_loopDepth s" using step_keeps [OF c] by (simp add: keeps_def)
  ultimately have A: "step s1 (loopBy (-1) s2) (progress (afterStmt a' (an_scopes s1)) (length (stmtIds a')) s1)
      (elabStmt a a' \<and> stmtOk ub (the (an_returnType s1)) True (an_scopes s1) a' \<and> numbered (an_nextId s1) (stmtIds a'))"
    using a d by (auto simp: stmtStep_def step_def) (simp_all add: loopBy_def)
  show ?thesis
    unfolding stmtStep_def
    by (rule step_trans [OF c step_keeps [OF A], where Q = "elabStmt a a' \<and>
          stmtOk ub (the (an_returnType s)) True (an_scopes s) a' \<and> numbered (an_nextId s) (stmtIds a')"])
      (use A in \<open>auto simp: elabStmt_while\<close>)
qed

lemma checkStmt_step:
  "parsedStmt st \<Longrightarrow> inFunction s \<Longrightarrow> checkStmt ub st s = (st', s') \<Longrightarrow> stmtStep ub st s st' s'"
  "(\<forall>st \<in> set sts. parsedStmt st) \<Longrightarrow> inFunction s \<Longrightarrow> checkStmts ub sts s = (sts', s') \<Longrightarrow>
     stmtsStep ub sts s sts' s'"
proof (induction ub st s and ub sts s arbitrary: st' s' and sts' s' rule: checkStmt_checkStmts.induct)
  case (1 ub l s)
  have "stmtStep ub (Stmt NullStmt l) s (Stmt NullStmt l) s"
    by (rule stmtStep_pure [OF step_id [of True, OF TrueI]]) (simp_all add: elabStmt_null)
  thus ?case using 1 by auto
next
  case (2 ub e l s)
  obtain e1 s1 where v: "checkValue ub e s = (e1, s1)" by (cases "checkValue ub e s")
  have p: "parsed e" using 2 by simp
  have "step s s1 s (elaborates e e1 \<and> (\<exists>t. hasType ub (an_scopes s) e1 t))"
    using p v by (cases rule: checkValue_cases) (auto intro: step_error step_id)
  hence "stmtStep ub (Stmt (ExprStmt e) l) s (Stmt (ExprStmt e1) l) s1"
    by (rule stmtStep_pure) (auto intro: elabStmt_expr)
  thus ?case using 2 v by simp
next
  case (3 ub vs l s)
  obtain vs1 s1 where v: "declareVars ub vs s = (vs1, s1)" by (cases "declareVars ub vs s")
  have "stmtStep ub (Stmt (DeclStmt vs) l) s (Stmt (DeclStmt vs1) l) s1"
    unfolding stmtStep_def
    using 3 by (auto intro!: step_mono [OF declareVars_step [OF _ v]] elabStmt_decl)
  thus ?case using 3 v by simp
next
  case (4 ub body l s)
  obtain b1 s1 where b: "checkStmts ub body (pushScope s) = (b1, s1)" by (cases "checkStmts ub body (pushScope s)")
  have "inFunction (pushScope s)" using 4 by (simp add: inFunction_def pushScope_def enterScope_def)
  hence "stmtsStep ub body (pushScope s) b1 s1" using 4 b by simp
  thus ?case using 4 b stmtStep_block by auto
next
  case (5 ub c a l s)
  obtain c1 s1 where c: "checkCondition ub c s = (c1, s1)" by (cases "checkCondition ub c s")
  obtain a1 s2 where a: "checkStmt ub a s1 = (a1, s2)" by (cases "checkStmt ub a s1")
  have C: "step s s1 s (elaborates c c1 \<and> condOk ub (an_scopes s) c1)" using checkCondition_step [OF _ c] 5 by simp
  have "stmtStep ub a s1 a1 s2"
    using 5 c a inFunction_keeps [OF _ step_keeps [OF C]] by simp
  thus ?case using 5 c a stmtStep_if [OF C] by auto
next
  case (6 ub c a b l s)
  obtain c1 s1 where c: "checkCondition ub c s = (c1, s1)" by (cases "checkCondition ub c s")
  obtain a1 s2 where a: "checkStmt ub a s1 = (a1, s2)" by (cases "checkStmt ub a s1")
  obtain b1 s3 where b: "checkStmt ub b s2 = (b1, s3)" by (cases "checkStmt ub b s2")
  have C: "step s s1 s (elaborates c c1 \<and> condOk ub (an_scopes s) c1)" using checkCondition_step [OF _ c] 6 by simp
  have f: "inFunction s1" using 6 inFunction_keeps [OF _ step_keeps [OF C]] by simp
  have A: "stmtStep ub a s1 a1 s2" using 6 c a f by simp
  hence "inFunction s2" using inFunction_keeps [OF f] step_keeps by (auto simp: stmtStep_def)
  hence "stmtStep ub b s2 b1 s3" using 6 c a b by simp
  thus ?case using 6 c a b stmtStep_ifelse [OF C A] by auto
next
  case (7 ub c body l s)
  obtain c1 s1 where c: "checkCondition ub c s = (c1, s1)" by (cases "checkCondition ub c s")
  obtain a1 s2 where a: "checkStmt ub body (loopBy 1 s1) = (a1, s2)" by (cases "checkStmt ub body (loopBy 1 s1)")
  have C: "step s s1 s (elaborates c c1 \<and> condOk ub (an_scopes s) c1)" using checkCondition_step [OF _ c] 7 by simp
  have "inFunction (loopBy 1 s1)"
    using 7 inFunction_keeps [OF _ step_keeps [OF C]] by (auto simp: inFunction_def loopBy_def)
  hence "stmtStep ub body (loopBy 1 s1) a1 s2" using 7 c a by simp
  moreover have "0 \<le> an_loopDepth s" using 7 by (simp add: inFunction_def)
  ultimately show ?case using 7 c a stmtStep_while [OF _ C] by auto
next
  case (8 ub l s)
  have "stmtStep ub (Stmt BreakStmt l) s (Stmt BreakStmt l) (notInLoop ''break'' l s)"
    by (rule stmtStep_pure [OF notInLoop_step]) (simp_all add: elabStmt_break)
  thus ?case using 8 by auto
next
  case (9 ub l s)
  have "stmtStep ub (Stmt ContinueStmt l) s (Stmt ContinueStmt l) (notInLoop ''continue'' l s)"
    by (rule stmtStep_pure [OF notInLoop_step]) (simp_all add: elabStmt_continue)
  thus ?case using 9 by auto
next
  case (10 ub v l s)
  obtain v1 s1 where v: "checkReturn ub v l s = (v1, s1)" by (cases "checkReturn ub v l s")
  obtain ret where ret: "an_returnType s = Some ret" using 10 by (auto simp: inFunction_def)
  have "step s s1 s (rel_option elaborates v v1 \<and>
     (case v1 of None \<Rightarrow> ret = VoidTy | Some e \<Rightarrow> hasType ub (an_scopes s) e ret))"
    using checkReturn_step [OF _ ret v] 10 by simp
  hence "stmtStep ub (Stmt (ReturnStmt v) l) s (Stmt (ReturnStmt v1) l) s1"
    by (rule stmtStep_pure) (auto simp: ret intro: elabStmt_return split: option.splits)
  thus ?case using 10 v by simp
next
  case (11 ub s)
  thus ?case by (auto simp: stmtsStep_def step_def)
next
  case (12 ub st sts s)
  obtain st1 s1 where a: "checkStmt ub st s = (st1, s1)" by (cases "checkStmt ub st s")
  obtain sts1 s2 where b: "checkStmts ub sts s1 = (sts1, s2)" by (cases "checkStmts ub sts s1")
  have A: "stmtStep ub st s st1 s1" using 12 a by simp
  hence "inFunction s1" using 12 inFunction_keeps step_keeps by (auto simp: stmtStep_def)
  hence "stmtsStep ub sts s1 sts1 s2" using 12 a b by simp
  thus ?case using 12 a b stmtsStep_cons [OF A] by auto
qed

section \<open>Functions\<close>

lemma bindParam_frame [simp]: "tl (bindParam p scs) = tl scs" "bindParam p scs = [] \<longleftrightarrow> scs = []"
  by (simp_all add: bindParam_def)

lemma bindParams_frame [simp]: "tl (fold bindParam ps scs) = tl scs" "fold bindParam ps scs = [] \<longleftrightarrow> scs = []"
  by (induction ps arbitrary: scs) simp_all

text \<open>The parameters are bound in a scope in which some names are taken already.\<close>

definition freshParams :: "scope list \<Rightarrow> param_decl list \<Rightarrow> bool" where
  "freshParams scs ps \<longleftrightarrow>
     (\<forall>p \<in> set ps. pd_name p \<noteq> [] \<and> \<not> declaredHere scs (pd_name p)) \<and> distinct (map pd_name ps)"

lemma declareParams_step:
  assumes "an_scopes s \<noteq> []" and "declareParams ps s = (ps', s')"
  shows "step s s' (progress (fold bindParam ps' (an_scopes s)) (length ps') s)
     (list_all2 elabParam ps ps' \<and> freshParams (an_scopes s) ps' \<and> numbered (an_nextId s) (map pd_symbol ps'))"
  using assms
proof (induction ps arbitrary: s ps' s')
  case Nil
  thus ?case by (simp add: step_def freshParams_def)
next
  case (Cons p ps)
  show ?case
  proof (cases "pd_name p = [] \<or> declaredHere (an_scopes s) (pd_name p)")
    case True
    then obtain m ps1 where r: "declareParams ps (an_error (pd_loc p) m s) = (ps1, s')"
      using Cons.prems by (auto split: prod.splits if_splits)
    have "step s (an_error (pd_loc p) m s) s False" by (simp add: step_error)
    thus ?thesis
      by (rule step_trans [where Q = True]) (use step_keeps [OF Cons.IH [OF _ r]] Cons.prems reports_env(1) [OF reports_error] in auto)
  next
    case False
    define p1 where "p1 = p\<lparr>pd_symbol := an_nextId s\<rparr>"
    define s1 where "s1 = progress (bindParam p1 (an_scopes s)) 1 s"
    have s1: "keeps s s1" "an_scopes s1 = bindParam p1 (an_scopes s)"
      using Cons.prems by (auto simp: s1_def intro: keeps_progress)
    obtain ps1 where r: "declareParams ps s1 = (ps1, s')" and ps': "ps' = p1 # ps1"
      using Cons.prems False
      by (auto simp: newId_def s1_def p1_def progress_def bindParam_def split: prod.splits)
    have B: "step s1 s' (progress (fold bindParam ps1 (an_scopes s1)) (length ps1) s1)
        (list_all2 elabParam ps ps1 \<and> freshParams (an_scopes s1) ps1 \<and> numbered (an_nextId s1) (map pd_symbol ps1))"
      using Cons.IH [OF _ r] Cons.prems(1) s1 by simp
    have n: "pd_name p1 = pd_name p" "elabParam p p1" "pd_symbol p1 = an_nextId s"
      by (simp_all add: p1_def elabParam_def)
    have decl: "declaredHere (bindParam p1 (an_scopes s)) m \<longleftrightarrow> m = pd_name p1 \<or> declaredHere (an_scopes s) m" for m
      using scopes.bound_bind Cons.prems(1) by (simp add: bindParam_def)
    have A: "step s s1 s1 True" using s1 by (simp add: step_def)
    have "step s s' (progress (fold bindParam ps1 (an_scopes s1)) (length ps1) s1)
        (list_all2 elabParam (p # ps) ps' \<and> freshParams (an_scopes s) ps' \<and> numbered (an_nextId s) (map pd_symbol ps'))"
      by (rule step_trans [OF A step_keeps [OF B] B])
        (use n decl False in \<open>auto simp: ps' freshParams_def s1_def\<close>)
    thus ?thesis by (simp add: ps' s1_def)
  qed
qed

text \<open>Between top-level declarations there is the global scope alone, and no loop.\<close>

definition atTop :: "analyzer \<Rightarrow> bool" where
  "atTop s \<longleftrightarrow> (\<exists>gs. an_scopes s = [gs]) \<and> an_loopDepth s = 0"

lemma atTop_keeps: "atTop s \<Longrightarrow> keeps s s' \<Longrightarrow> atTop s'"
  unfolding atTop_def keeps_def by (cases "an_scopes s'") auto

definition extended :: "analyzer \<Rightarrow> analyzer \<Rightarrow> bool" where
  "extended s s' \<longleftrightarrow> (\<exists>ds. an_diags s' = an_diags s @ ds)"

lemma extended_trans: "extended s t \<Longrightarrow> extended t u \<Longrightarrow> extended s u"
  and extended_clean: "extended s t \<Longrightarrow> extended t u \<Longrightarrow> clean s u \<longleftrightarrow> clean s t \<and> clean t u"
  and keeps_extended: "keeps s s' \<Longrightarrow> extended s s'"
  by (auto simp: extended_def clean_def keeps_def)

text \<open>A top-level step: what it leaves and, when nothing was reported, what holds then.\<close>

definition topStep :: "analyzer \<Rightarrow> analyzer \<Rightarrow> scope list \<Rightarrow> symbol_id set \<Rightarrow> nat \<Rightarrow> bool \<Rightarrow> bool" where
  "topStep s s' scs G n P \<longleftrightarrow>
     extended s s' \<and> atTop s' \<and>
     (clean s s' \<longrightarrow> P \<and> an_scopes s' = scs \<and> an_globals s' = G \<and> an_nextId s' = an_nextId s + word_of_nat n)"

lemma topStep_error: "atTop s \<Longrightarrow> reports s s' \<Longrightarrow> topStep s s' scs G n P"
  by (simp add: topStep_def keeps_extended keeps_reports not_clean_reports atTop_keeps [OF _ keeps_reports])

definition bodyOk :: "(fp \<Rightarrow> i64) \<Rightarrow> scope list \<Rightarrow> function_decl \<Rightarrow> bool" where
  "bodyOk ub scs f \<longleftrightarrow>
     (case fd_body f of None \<Rightarrow> True
      | Some body \<Rightarrow> paramsOk (fd_params f) \<and>
          stmtsOk ub (returnType (fd_type f)) False (fold bindParam (fd_params f) (enterScope scs)) body)"

definition bodyIds :: "function_decl \<Rightarrow> symbol_id list" where
  "bodyIds f = (case fd_body f of None \<Rightarrow> []
      | Some body \<Rightarrow> map pd_symbol (fd_params f) @ concat (map stmtIds body))"

lemma elabParam_refl: "list_all2 elabParam ps ps"
  by (simp add: list_all2_conv_all_nth elabParam_def)

lemma checkBody_step:
  assumes top: "atTop s" and p: "parsedDecl (TopFunction f)" and c: "checkBody ub f s = (f', s')"
  shows "topStep s s' (an_scopes s) (an_globals s) (length (bodyIds f'))
     (elabFunction f f' \<and> fd_symbol f' = fd_symbol f \<and> bodyOk ub (an_scopes s) f' \<and> numbered (an_nextId s) (bodyIds f'))"
proof (cases "fd_body f")
  case None
  thus ?thesis using c top
    by (auto simp: checkBody_def topStep_def extended_def elabFunction_def bodyOk_def bodyIds_def elabParam_refl)
next
  case (Some body)
  obtain ps s1 where ps: "declareParams (fd_params f) (pushScope s) = (ps, s1)"
    by (cases "declareParams (fd_params f) (pushScope s)")
  define s2 where "s2 = s1\<lparr>an_returnType := Some (returnType (fd_type f))\<rparr>"
  obtain body' s3 where b: "checkStmts ub body s2 = (body', s3)" by (cases "checkStmts ub body s2")
  have f': "f' = f\<lparr>fd_params := ps, fd_body := Some body'\<rparr>" and s': "s' = popScope s3"
    using c Some ps b by (auto simp: checkBody_def s2_def)
  have push: "an_scopes (pushScope s) = enterScope (an_scopes s)" "enterScope (an_scopes s) \<noteq> []"
    "an_loopDepth (pushScope s) = 0" "an_nextId (pushScope s) = an_nextId s" "an_globals (pushScope s) = an_globals s"
    using top by (simp_all add: pushScope_def enterScope_def atTop_def)
  have A: "step (pushScope s) s1 (progress (fold bindParam ps (enterScope (an_scopes s))) (length ps) (pushScope s))
      (list_all2 elabParam (fd_params f) ps \<and> freshParams (enterScope (an_scopes s)) ps \<and>
       numbered (an_nextId s) (map pd_symbol ps))"
    using declareParams_step [OF _ ps] push by simp
  have "inFunction s2"
    using step_keeps [OF A] push by (auto simp: inFunction_def s2_def keeps_def)
  hence B: "stmtsStep ub body s2 body' s3"
    using checkStmt_step(2) [OF _ _ b] p Some by simp
  have k: "keeps s2 s3" using B by (auto simp: stmtsStep_def dest: step_keeps)
  have ext: "extended s s1" "extended s1 s'" "clean s s1 \<longleftrightarrow> clean (pushScope s) s1" "clean s1 s' \<longleftrightarrow> clean s2 s3"
    using step_keeps [OF A] k by (auto simp: extended_def keeps_def clean_def s' s2_def popScope_def pushScope_def)
  have top': "atTop s'"
    using step_keeps [OF A] k top push by (auto simp: atTop_def keeps_def s' s2_def popScope_def enterScope_def)
  have paramsOk: "freshParams (enterScope (an_scopes s)) ps \<Longrightarrow> paramsOk ps"
    by (auto simp: freshParams_def paramsOk_def)
  show ?thesis
    unfolding topStep_def
  proof (intro conjI impI)
    show "extended s s'" by (rule extended_trans [OF ext(1,2)])
    show "atTop s'" by (rule top')
    assume "clean s s'"
    hence cl: "clean (pushScope s) s1" "clean s2 s3" using extended_clean [OF ext(1,2)] ext(3,4) by auto
    hence s1: "s1 = progress (fold bindParam ps (enterScope (an_scopes s))) (length ps) (pushScope s)"
      and P: "list_all2 elabParam (fd_params f) ps" "paramsOk ps" "numbered (an_nextId s) (map pd_symbol ps)"
      using A paramsOk by (auto simp: step_def)
    have s2: "an_scopes s2 = fold bindParam ps (enterScope (an_scopes s))" "an_loopDepth s2 = 0"
      "an_nextId s2 = an_nextId s + word_of_nat (length ps)" "an_returnType s2 = Some (returnType (fd_type f))"
      "an_globals s2 = an_globals s"
      using push by (simp_all add: s2_def s1)
    have s3: "s3 = progress (fold afterStmt body' (an_scopes s2)) (length (concat (map stmtIds body'))) s2"
      and Q: "list_all2 elabStmt body body'"
        "stmtsOk ub (returnType (fd_type f)) False (fold bindParam ps (enterScope (an_scopes s))) body'"
        "numbered (an_nextId s + word_of_nat (length ps)) (concat (map stmtIds body'))"
      using B cl(2) by (auto simp: stmtsStep_def step_def s2)
    show "elabFunction f f'" using P Q Some by (simp add: f' elabFunction_def)
    show "fd_symbol f' = fd_symbol f" by (simp add: f')
    show "bodyOk ub (an_scopes s) f'" using P Q by (simp add: f' bodyOk_def)
    show "numbered (an_nextId s) (bodyIds f')" using P Q by (simp add: f' bodyIds_def)
    have pop: "an_scopes (popScope (progress scs n t)) = tl scs" "an_globals (popScope t) = an_globals t"
      "an_nextId (popScope t) = an_nextId t" for scs n t
      by (simp_all add: popScope_def)
    show "an_scopes s' = an_scopes s" by (simp add: s' s3 pop s2 enterScope_def)
    show "an_globals s' = an_globals s" by (simp add: s' s3 pop s2)
    show "an_nextId s' = an_nextId s + word_of_nat (length (bodyIds f'))"
      by (simp add: s' s3 pop s2 f' bodyIds_def algebra_simps)
  qed
qed

lemma elabFunction_symbol: "elabFunction (f\<lparr>fd_symbol := i\<rparr>) f' \<longleftrightarrow> elabFunction f f'"
  by (simp add: elabFunction_def)

lemma elabFunction_body: "elabFunction f f' \<Longrightarrow> fd_body f' = None \<longleftrightarrow> fd_body f = None"
  by (auto simp: elabFunction_def)

lemma functionOk_alt:
  "functionOk ub gs f \<longleftrightarrow>
     (case gs (fd_name f) of None \<Rightarrow> True
      | Some prior \<Rightarrow> sym_isFunction prior \<and> sym_type prior = fd_type f \<and> sym_id prior = fd_symbol f \<and>
          \<not> (sym_isDefined prior \<and> fd_body f \<noteq> None)) \<and>
     bodyOk ub [bindFunction f gs] f"
  by (simp add: functionOk_def bodyOk_def split: option.split)

lemma functionIds_alt: "functionIds known f = (if fd_name f \<in> known then [] else [fd_symbol f]) @ bodyIds f"
  by (simp add: functionIds_def bodyIds_def)

text \<open>The name is entered in the global scope, as a new symbol or the prior one, and then the body is checked.\<close>

lemma enter_body_step:
  assumes top: "an_scopes s = [gs]" "an_loopDepth s = 0" and p: "parsedDecl (TopFunction f)"
    and c: "checkBody ub (f\<lparr>fd_symbol := i\<rparr>)
      (s\<lparr>an_nextId := an_nextId s + word_of_nat n, an_scopes := updateGlobal (fd_name f) entry [gs]\<rparr>) = (f', s')"
    and bind: "\<And>g. fd_symbol g = i \<Longrightarrow> fd_name g = fd_name f \<Longrightarrow> fd_type g = fd_type f \<Longrightarrow>
      (fd_body g = None \<longleftrightarrow> fd_body f = None) \<Longrightarrow> bindFunction g gs = gs(fd_name f \<mapsto> entry)"
    and n: "if gs (fd_name f) = None then n = 1 \<and> i = an_nextId s else n = 0"
    and prior: "\<And>prior. gs (fd_name f) = Some prior \<Longrightarrow> sym_isFunction prior \<and> sym_type prior = fd_type f \<and>
      sym_id prior = i \<and> \<not> (sym_isDefined prior \<and> fd_body f \<noteq> None)"
  shows "topStep s s' [bindFunction f' gs] (an_globals s) (length (functionIds (dom gs) f'))
     (elabFunction f f' \<and> functionOk ub gs f' \<and> numbered (an_nextId s) (functionIds (dom gs) f'))"
proof -
  define t where "t = s\<lparr>an_nextId := an_nextId s + word_of_nat n, an_scopes := [gs(fd_name f \<mapsto> entry)]\<rparr>"
  have t: "an_scopes t = [gs(fd_name f \<mapsto> entry)]" "an_globals t = an_globals s"
    "an_nextId t = an_nextId s + word_of_nat n" "atTop t" "extended t s' \<longleftrightarrow> extended s s'" "clean t s' \<longleftrightarrow> clean s s'"
    using top by (simp_all add: t_def atTop_def extended_def clean_def)
  have c': "checkBody ub (f\<lparr>fd_symbol := i\<rparr>) t = (f', s')"
    using c by (simp add: t_def updateGlobal_def)
  have A: "topStep t s' (an_scopes t) (an_globals t) (length (bodyIds f'))
     (elabFunction f f' \<and> fd_symbol f' = i \<and> bodyOk ub (an_scopes t) f' \<and> numbered (an_nextId t) (bodyIds f'))"
    using checkBody_step [OF t(4) _ c'] p by (simp add: elabFunction_symbol)
  show ?thesis
    unfolding topStep_def
  proof (intro conjI impI)
    show "extended s s'" "atTop s'" using A t by (simp_all add: topStep_def)
    assume "clean s s'"
    hence e: "elabFunction f f'" "fd_symbol f' = i" "bodyOk ub (an_scopes t) f'" "numbered (an_nextId t) (bodyIds f')"
      and st: "an_scopes s' = an_scopes t" "an_globals s' = an_globals t"
        "an_nextId s' = an_nextId t + word_of_nat (length (bodyIds f'))"
      using A t by (auto simp: topStep_def)
    have f': "fd_name f' = fd_name f" "fd_type f' = fd_type f" using e(1) by (simp_all add: elabFunction_def)
    have b: "bindFunction f' gs = gs(fd_name f \<mapsto> entry)"
      using bind [OF e(2) f' elabFunction_body [OF e(1)]] .
    show "elabFunction f f'" by (rule e)
    show "functionOk ub gs f'"
      using prior e f' b t(1) elabFunction_body [OF e(1)] by (auto simp: functionOk_alt split: option.split)
    show "numbered (an_nextId s) (functionIds (dom gs) f')"
      using e n t(3) f' by (auto simp: functionIds_alt domIff split: if_splits)
    show "an_scopes s' = [bindFunction f' gs]" using st b t by simp
    show "an_globals s' = an_globals s" using st t by simp
    show "an_nextId s' = an_nextId s + word_of_nat (length (functionIds (dom gs) f'))"
      using st t n f' by (auto simp: functionIds_alt domIff split: if_splits)
  qed
qed

lemma declareFunction_step:
  assumes top: "an_scopes s = [gs]" "an_loopDepth s = 0" and p: "parsedDecl (TopFunction f)"
    and d: "declareFunction ub f s = (f', s')"
  shows "topStep s s' [bindFunction f' gs] (an_globals s) (length (functionIds (dom gs) f'))
     (elabFunction f f' \<and> functionOk ub gs f' \<and> numbered (an_nextId s) (functionIds (dom gs) f'))"
proof -
  have t: "atTop s" using top by (simp add: atTop_def)
  show ?thesis
  proof (cases "gs (fd_name f)")
    case None
    have "checkBody ub (f\<lparr>fd_symbol := an_nextId s\<rparr>)
        (s\<lparr>an_nextId := an_nextId s + word_of_nat 1, an_scopes := updateGlobal (fd_name f)
           (mkSymbol (an_nextId s) (fd_type f) False True (fd_body f \<noteq> None)) [gs]\<rparr>) = (f', s')"
      using d None top by (simp add: declareFunction_def newId_def)
    thus ?thesis
      by (rule enter_body_step [OF top p]) (use None in \<open>auto simp: bindFunction_def\<close>)
  next
    case (Some prior)
    consider (bad) "\<not> sym_isFunction prior \<or> sym_type prior \<noteq> fd_type f"
      | (again) "sym_isFunction prior" "sym_type prior = fd_type f" "sym_isDefined prior" "fd_body f \<noteq> None"
      | (ok) "sym_isFunction prior" "sym_type prior = fd_type f" "\<not> (sym_isDefined prior \<and> fd_body f \<noteq> None)"
      by blast
    thus ?thesis
    proof cases
      case bad
      thus ?thesis using d Some top by (auto simp: declareFunction_def intro: topStep_error [OF t])
    next
      case again
      thus ?thesis using d Some top by (auto simp: declareFunction_def intro: topStep_error [OF t])
    next
      case ok
      have "checkBody ub (f\<lparr>fd_symbol := sym_id prior\<rparr>)
          (s\<lparr>an_nextId := an_nextId s + word_of_nat 0, an_scopes := updateGlobal (fd_name f)
             (prior\<lparr>sym_isDefined := sym_isDefined prior \<or> fd_body f \<noteq> None\<rparr>) [gs]\<rparr>) = (f', s')"
        using d Some top ok by (auto simp: declareFunction_def)
      thus ?thesis
        by (rule enter_body_step [OF top p]) (use Some ok in \<open>auto simp: bindFunction_def\<close>)
    qed
  qed
qed

section \<open>Translation units\<close>

lemma declareGlobal_step:
  assumes top: "an_scopes s = [gs]" "an_loopDepth s = 0" and p: "parsedVar v" and d: "declareVar ub v True s = (v', s')"
  shows "topStep s s' (bindVar v' [gs]) (insert (vd_symbol v') (an_globals s)) 1
     (elabVar v v' \<and> varOk ub (Some (an_globals s)) [gs] v' \<and> vd_symbol v' = an_nextId s)"
proof -
  have t: "atTop s" using top by (simp add: atTop_def)
  have st: "step s s' (addGlobal True (vd_symbol v') (progress (bindVar v' [gs]) 1 s))
     (elabVar v v' \<and> varOk ub (Some (an_globals s)) [gs] v' \<and> vd_symbol v' = an_nextId s)"
    using declareVar_step [OF p d] top by (simp add: globalsFor_def)
  show ?thesis
    using st keeps_extended [OF step_keeps [OF st]] atTop_keeps [OF t step_keeps [OF st]]
    by (auto simp: topStep_def step_def addGlobal_def)
qed

lemma bindVar_dom:
  "\<not> declaredHere [gs] (vd_name v) \<Longrightarrow> bindVar v [gs] = [hd (bindVar v [gs])] \<and> dom (hd (bindVar v [gs])) = insert (vd_name v) (dom gs)"
  by (auto simp: bindVar_def)

lemma bindFunction_dom: "dom (bindFunction f gs) = insert (fd_name f) (dom gs)"
  by (auto simp: bindFunction_def split: option.splits)

lemma runDecls_step:
  assumes "list_all parsedDecl ds" "an_scopes s = [gs]" "an_loopDepth s = 0" "runDecls ub ds s = (ds', s')"
  shows "extended s s' \<and>
    (clean s s' \<longrightarrow> list_all2 elabDecl ds ds' \<and> declsOk ub gs (an_globals s) ds' \<and>
       numbered (an_nextId s) (declIds (dom gs) ds'))"
  using assms
proof (induction ds arbitrary: s gs ds')
  case Nil
  thus ?case by (simp add: extended_def)
next
  case (Cons d ds)
  show ?case
  proof (cases d)
    case (TopVar v)
    obtain v1 s1 where v: "declareVar ub v True s = (v1, s1)" by (cases "declareVar ub v True s")
    obtain ds1 where r: "runDecls ub ds s1 = (ds1, s')" and ds': "ds' = TopVar v1 # ds1"
      using Cons.prems v TopVar by (auto split: prod.splits)
    have A: "topStep s s1 (bindVar v1 [gs]) (insert (vd_symbol v1) (an_globals s)) 1
        (elabVar v v1 \<and> varOk ub (Some (an_globals s)) [gs] v1 \<and> vd_symbol v1 = an_nextId s)"
      using declareGlobal_step [OF Cons.prems(2,3) _ v] Cons.prems(1) TopVar by simp
    obtain gs1 where g1: "an_scopes s1 = [gs1]" "an_loopDepth s1 = 0" using A by (auto simp: topStep_def atTop_def)
    note B = Cons.IH [OF _ g1 r]
    show ?thesis
    proof (intro conjI impI)
      show ext: "extended s s'" using A B Cons.prems(1) extended_trans by (auto simp: topStep_def)
      assume "clean s s'"
      hence "clean s s1" "clean s1 s'" using A B Cons.prems(1) extended_clean by (auto simp: topStep_def)
      moreover from \<open>clean s s1\<close> have a: "elabVar v v1" "varOk ub (Some (an_globals s)) [gs] v1" "vd_symbol v1 = an_nextId s"
          "an_scopes s1 = bindVar v1 [gs]" "an_globals s1 = insert (vd_symbol v1) (an_globals s)"
          "an_nextId s1 = an_nextId s + 1"
        using A by (auto simp: topStep_def)
      moreover have "gs1 = hd (bindVar v1 [gs])" using a(4) g1 by (metis list.sel(1))
      moreover from this have "dom gs1 = insert (vd_name v1) (dom gs)"
        using bindVar_dom [of gs v1] a(2) by (simp add: varOk_def)
      ultimately show "list_all2 elabDecl (d # ds) ds'" "declsOk ub gs (an_globals s) ds'"
          "numbered (an_nextId s) (declIds (dom gs) ds')"
        using B Cons.prems(1) TopVar by (auto simp: ds')
    qed
  next
    case (TopFunction f)
    obtain f1 s1 where f: "declareFunction ub f s = (f1, s1)" by (cases "declareFunction ub f s")
    obtain ds1 where r: "runDecls ub ds s1 = (ds1, s')" and ds': "ds' = TopFunction f1 # ds1"
      using Cons.prems f TopFunction by (auto split: prod.splits)
    have A: "topStep s s1 [bindFunction f1 gs] (an_globals s) (length (functionIds (dom gs) f1))
        (elabFunction f f1 \<and> functionOk ub gs f1 \<and> numbered (an_nextId s) (functionIds (dom gs) f1))"
      using declareFunction_step [OF Cons.prems(2,3) _ f] Cons.prems(1) TopFunction by simp
    obtain gs1 where g1: "an_scopes s1 = [gs1]" "an_loopDepth s1 = 0" using A by (auto simp: topStep_def atTop_def)
    note B = Cons.IH [OF _ g1 r]
    show ?thesis
    proof (intro conjI impI)
      show "extended s s'" using A B Cons.prems(1) extended_trans by (auto simp: topStep_def)
      assume "clean s s'"
      hence "clean s s1" "clean s1 s'" using A B Cons.prems(1) extended_clean by (auto simp: topStep_def)
      moreover from \<open>clean s s1\<close> have a: "elabFunction f f1" "functionOk ub gs f1"
          "numbered (an_nextId s) (functionIds (dom gs) f1)" "an_scopes s1 = [bindFunction f1 gs]" "an_globals s1 = an_globals s"
          "an_nextId s1 = an_nextId s + word_of_nat (length (functionIds (dom gs) f1))"
        using A by (auto simp: topStep_def)
      moreover have "gs1 = bindFunction f1 gs" "dom gs1 = insert (fd_name f1) (dom gs)"
        using a(4) g1 by (auto simp: bindFunction_dom)
      ultimately show "list_all2 elabDecl (d # ds) ds'" "declsOk ub gs (an_globals s) ds'"
          "numbered (an_nextId s) (declIds (dom gs) ds')"
        using B Cons.prems(1) TopFunction by (auto simp: ds')
    qed
  qed
qed

text \<open>What a successful analysis returns.\<close>

lemma analyze_result:
  assumes "list_all parsedDecl (tu_decls tu)" "analyze ub tu = Inr tu'"
  shows "list_all2 elabDecl (tu_decls tu) (tu_decls tu') \<and> declsOk ub Map.empty {} (tu_decls tu') \<and>
    numbered 1 (declIds {} (tu_decls tu'))"
proof -
  obtain ds s where r: "runDecls ub (tu_decls tu) newAnalyzer = (ds, s)" by (cases "runDecls ub (tu_decls tu) newAnalyzer")
  hence "an_diags s = []" and ds: "tu_decls tu' = ds" using assms(2) by (auto simp: analyze_def split: if_splits)
  hence "clean newAnalyzer s" by (simp add: clean_def newAnalyzer_def)
  thus ?thesis
    using runDecls_step [OF assms(1) _ _ r, of Map.empty] by (simp add: newAnalyzer_def ds)
qed

end
