(* ===== verification/SemaProps.thy ===== *)
theory SemaProps
  imports SemaCorrect
begin

text \<open>
  The properties of the analyzer, over the lemmas of \<open>SemaTypes\<close>, \<open>SemaElab\<close> and \<open>SemaCorrect\<close>.
  The example program of the witnesses is
  \<open>int g[] = {3}; int f(int a) { while (a) { a = a - g[0]; if (a < 1) break; } return a; }\<close>.
\<close>

section \<open>An example\<close>

definition col :: "nat \<Rightarrow> source_location" where
  "col n = SourceLocation 1 (word_of_nat n)"

definition bare :: "nat \<Rightarrow> expr_node \<Rightarrow> expr" where
  "bare n e = Expr e (col n) None RValue"

definition name_ref :: "nat \<Rightarrow> string \<Rightarrow> expr" where
  "name_ref n x = bare n (DeclRef x 0)"

definition int_lit :: "nat \<Rightarrow> i64 \<Rightarrow> expr" where
  "int_lit n v = bare n (IntLiteral v)"

definition mkVar :: "string \<Rightarrow> ty \<Rightarrow> bool \<Rightarrow> initializer option \<Rightarrow> var_decl" where
  "mkVar x t c i = \<lparr>vd_name = x, vd_type = t, vd_isConst = c, vd_init = i, vd_loc = col 5, vd_symbol = 0\<rparr>"

definition mkFun :: "string \<Rightarrow> ty \<Rightarrow> param_decl list \<Rightarrow> stmt list \<Rightarrow> function_decl" where
  "mkFun x t ps body = \<lparr>fd_name = x, fd_type = t, fd_params = ps, fd_body = Some body, fd_loc = col 20, fd_symbol = 0\<rparr>"

definition mkParam :: "string \<Rightarrow> ty \<Rightarrow> param_decl" where
  "mkParam x t = \<lparr>pd_name = x, pd_type = t, pd_isConst = False, pd_loc = col 26, pd_symbol = 0\<rparr>"

definition example_body :: "stmt list" where
  "example_body =
     [Stmt (WhileStmt (name_ref 37 ''a'') (Stmt (CompoundStmt
        [Stmt (ExprStmt (bare 44 (Assign (name_ref 42 ''a'')
           (bare 48 (Binary BO_Sub (name_ref 46 ''a'') (bare 51 (Index (name_ref 50 ''g'') (int_lit 52 0)))))))) (col 42),
         Stmt (IfStmt (bare 62 (Binary BO_Lt (name_ref 60 ''a'') (int_lit 64 1))) (Stmt BreakStmt (col 67)) None) (col 56)])
        (col 40))) (col 30),
      Stmt (ReturnStmt (Some (name_ref 83 ''a''))) (col 76)]"

definition example :: translation_unit where
  "example = \<lparr>tu_decls =
     [TopVar (mkVar ''g'' (ArrayTy IntTy 0) False (Some (InitList [InitExpr (int_lit 12 3) (col 12)] (col 11)))),
      TopFunction (mkFun ''f'' (FunctionTy IntTy [IntTy] False) [mkParam ''a'' IntTy] example_body)]\<rparr>"

definition no_ub :: "fp \<Rightarrow> i64" where
  "no_ub x = 0"

lemma example_parsed: "list_all parsedDecl (tu_decls example)"
  by code_simp

lemma example_accepted:
  obtains tu' where "analyze no_ub example = Inr tu'" "length (declIds {} (tu_decls tu')) = 3"
proof -
  have "case analyze no_ub example of Inl ds \<Rightarrow> False | Inr tu' \<Rightarrow> length (declIds {} (tu_decls tu')) = 3"
    by code_simp
  thus thesis using that by (auto split: sum.splits)
qed

section \<open>Expressions\<close>

text \<open>
  C8: An expression that the analyzer gives a type is well typed in the scopes it was checked in:
  every operator has operands of the types it needs, every conversion is an explicit cast of the
  right kind, names carry the symbol in scope, no index and no \<open>sizeof\<close> is left; and checking it
  reported nothing and changed nothing else.
\<close>

theorem checked_expressions_are_typed:
  assumes "parsed e" "check ub e s = (e', s')" "expr_type e' = Some t"
  shows "wellTyped ub (an_scopes s) e' \<and> s' = s"
proof -
  have "outcome ub s (e', s')" using check_outcome(1) [OF assms(1)] assms(2) by metis
  thus ?thesis using assms(3) by (cases rule: outcome_cases) auto
qed

lemma checked_expressions_are_typed_witness:
  "wellTyped no_ub [Map.empty] (fst (check no_ub (bare 3 (Binary BO_Add (int_lit 1 2) (bare 5 (FloatLiteral fp_zero)))) newAnalyzer))"
  using checked_expressions_are_typed [of "bare 3 (Binary BO_Add (int_lit 1 2) (bare 5 (FloatLiteral fp_zero)))"
      no_ub newAnalyzer _ _ FloatTy, OF _ surjective_pairing]
  by (simp add: bare_def int_lit_def newAnalyzer_def decay_def binaryRule_def addRule_def arithmeticBinary_def
      usualArithmetic_def commonType_def isArithmetic_def Let_def)

text \<open>
  C17: An expression is left without a type exactly when a diagnostic was reported while it was
  checked; so a parent of it that fails silently never hides an error, and none is reported for a
  tree that gets a type.
\<close>

theorem untyped_iff_reported:
  assumes "parsed e" "check ub e s = (e', s')"
  shows "expr_type e' = None \<longleftrightarrow> an_diags s' \<noteq> an_diags s"
proof -
  have "outcome ub s (e', s')" using check_outcome(1) [OF assms(1)] assms(2) by metis
  thus ?thesis by (cases rule: outcome_cases) (auto dest: reports_diags)
qed

lemma untyped_iff_reported_witness:
  "expr_type (fst (check no_ub (bare 1 (Unary UO_Deref (int_lit 2 7))) newAnalyzer)) = None \<longleftrightarrow>
     an_diags (snd (check no_ub (bare 1 (Unary UO_Deref (int_lit 2 7))) newAnalyzer)) \<noteq> an_diags newAnalyzer"
  using untyped_iff_reported [of "bare 1 (Unary UO_Deref (int_lit 2 7))" no_ub newAnalyzer, OF _ surjective_pairing]
  by (simp add: bare_def int_lit_def)

text \<open>
  C18: Checking elaborates: the typed tree is the parsed one with annotations, implicit casts and
  resolved explicit casts, \<open>a[i]\<close> written as \<open>*(a + i)\<close>, sums with the pointer first, and
  \<open>sizeof\<close> replaced by the size of its operand. Nothing else of the program is changed.
\<close>

theorem check_elaborates:
  assumes "parsed e" "check ub e s = (e', s')" "expr_type e' = Some t"
  shows "elaborates e e'"
  using elabs_check(1) [OF assms(1), of ub s] assms(2,3) by (simp add: elabs_def)

lemma check_elaborates_witness:
  "elaborates (bare 1 (Unary UO_Minus (int_lit 2 7)))
     (fst (check no_ub (bare 1 (Unary UO_Minus (int_lit 2 7))) newAnalyzer))"
  using check_elaborates [of "bare 1 (Unary UO_Minus (int_lit 2 7))" no_ub newAnalyzer _ _ IntTy, OF _ surjective_pairing]
  by (simp add: bare_def int_lit_def decay_def unaryRule_def isArithmetic_def promote_def)

text \<open>
  The type that a \<open>sizeof\<close> measures, and the state after its operand was checked. An operand is
  measured as it is: an array is not converted to a pointer.
\<close>

fun measured :: "(fp \<Rightarrow> i64) \<Rightarrow> expr \<Rightarrow> analyzer \<Rightarrow> ty option \<times> analyzer" where
  "measured ub (Expr (SizeOfType ty) l t c) s = (Some ty, s)"
| "measured ub (Expr (SizeOfExpr x) l t c) s = (case check ub x s of (x', s') \<Rightarrow> (expr_type x', s'))"
| "measured ub e s = (None, s)"

lemma measured_check:
  "measured ub e s = (Some ty, s') \<Longrightarrow> type_size ty = Some n \<Longrightarrow>
     check ub e s = (Expr (IntLiteral n) (expr_loc e) (Some IntTy) RValue, s')"
  by (cases "(ub, e, s)" rule: measured.cases) (auto simp: sizeOfRule_def split: prod.splits)

lemma wrap32_value:
  "wrap32 n = 0 \<longleftrightarrow> unat n mod 2 ^ 32 = 0"
  "unat n < 2 ^ 31 \<Longrightarrow> wrap32 n = n"
proof -
  have "wrap32 n = 0 \<longleftrightarrow> take_bit 32 n = 0"
    using signed_take_bit_eq_iff_take_bit_eq [of 31 n 0] by (simp add: wrap32_def)
  also have "\<dots> \<longleftrightarrow> take_bit 32 (unat n) = 0" by (simp add: unsigned_take_bit_eq flip: unat_eq_zero)
  finally show "wrap32 n = 0 \<longleftrightarrow> unat n mod 2 ^ 32 = 0" by (simp add: take_bit_eq_mod)
  assume "unat n < 2 ^ 31"
  hence "int (unat n) < int (2 ^ 31)" by (simp only: of_nat_less_iff)
  hence u: "uint n < 2 ^ 31" by simp
  hence b: "signed_take_bit 63 (uint n) = uint n" "signed_take_bit 31 (uint n) = uint n"
    by (auto intro!: signed_take_bit_int_eq_self intro: order_trans [OF _ uint_ge_0])
  hence "sint n = uint n" by (simp add: sint_uint)
  moreover have "sint (wrap32 n) = signed_take_bit 31 (sint n)"
    by (simp add: wrap32_def sint_signed_take_bit)
  ultimately have "sint (wrap32 n) = sint n" using b(2) by simp
  thus "wrap32 n = n" by (simp add: signed_word_eqI)
qed

text \<open>
  C24: \<open>sizeof\<close> of a type, and of an expression by the type it has before arrays become pointers,
  is replaced by an \<open>int\<close> literal at its place that holds the 64-bit size. As a constant expression
  the literal has the size's low 32 bits, read as signed, which is the size whenever that is below
  \<open>2^31\<close>; so it is taken for a null pointer exactly when the size is a multiple of \<open>2^32\<close>.
\<close>

theorem sizeof_constant:
  assumes "measured ub e s = (Some ty, s')" "type_size ty = Some n" "check ub e s = (e', s'')"
  shows "e' = Expr (IntLiteral n) (expr_loc e) (Some IntTy) RValue \<and> s'' = s' \<and>
    evaluateInteger ub e' = Some (wrap32 n) \<and> (unat n < 2 ^ 31 \<longrightarrow> wrap32 n = n) \<and>
    (isNullConstant ub e' \<longleftrightarrow> unat n mod 2 ^ 32 = 0)"
proof -
  have e': "e' = Expr (IntLiteral n) (expr_loc e) (Some IntTy) RValue" "s'' = s'"
    using measured_check [OF assms(1,2)] assms(3) by simp_all
  moreover have "evaluateInteger ub e' = Some (wrap32 n)" by (simp add: e' evaluateInteger_def)
  ultimately show ?thesis using wrap32_value [of n] by (simp add: isNullConstant_def)
qed

text \<open>The array \<open>"abc"\<close> has four bytes, and a \<open>char[2^32]\<close> may stand for a null pointer.\<close>

lemma sizeof_constant_witness:
  "evaluateInteger no_ub (fst (check no_ub (bare 1 (SizeOfExpr (bare 8 (StringLiteral ''abc'')))) newAnalyzer)) = Some 4 \<and>
   isNullConstant no_ub (fst (check no_ub (bare 1 (SizeOfType (ArrayTy CharTy 4294967296))) newAnalyzer))"
proof -
  let ?a = "bare 1 (SizeOfExpr (bare 8 (StringLiteral ''abc'')))" and ?b = "bare 1 (SizeOfType (ArrayTy CharTy 4294967296))"
  have "measured no_ub ?a newAnalyzer = (Some (ArrayTy CharTy 4), newAnalyzer)" "type_size (ArrayTy CharTy 4) = Some 4"
    "measured no_ub ?b newAnalyzer = (Some (ArrayTy CharTy 4294967296), newAnalyzer)"
    "type_size (ArrayTy CharTy 4294967296) = Some 4294967296"
    by (simp_all add: bare_def)
  note m = this
  have "wrap32 4 = 4" "unat (4294967296 :: i64) mod 2 ^ 32 = 0" using wrap32_value(2) [of 4] by simp_all
  thus ?thesis
    using sizeof_constant [OF m(1,2) surjective_pairing] sizeof_constant [OF m(3,4) surjective_pairing] by metis
qed

section \<open>Constants\<close>

text \<open>
  Where folding has to give up: an integer division or remainder whose divisor folds to zero, or the
  conversion of a floating value to an integer that the guard of the code does not let through.
\<close>

fun faulty :: "(fp \<Rightarrow> i64) \<Rightarrow> expr \<Rightarrow> bool" where
  "faulty ub (Expr (Unary op x) l t c) \<longleftrightarrow> faulty ub x"
| "faulty ub (Expr (Binary op a b) l t c) \<longleftrightarrow>
     faulty ub a \<or> faulty ub b \<or> ((op = BO_Div \<or> op = BO_Rem) \<and> evaluateConstant ub b = Some (IntC 0))"
| "faulty ub (Expr (Cast k imp x) l t c) \<longleftrightarrow> faulty ub x \<or>
     (k = CK_FloatToInt \<and> (case evaluateConstant ub x of
        Some (DoubleC d) \<Rightarrow> \<not> (fp_less (fp_neg guardBound) d \<and> fp_less d guardBound) | _ \<Rightarrow> False))"
| "faulty ub e \<longleftrightarrow> False"

lemma fits_int: "fits IntTy v \<longleftrightarrow> (\<exists>i. v = IntC i \<and> - (2 ^ 31) \<le> sint i \<and> sint i < 2 ^ 31)"
  and fits_char: "fits CharTy v \<longleftrightarrow> (\<exists>i. v = IntC i \<and> - (2 ^ 7) \<le> sint i \<and> sint i < 2 ^ 7)"
  and fits_float: "fits FloatTy v \<Longrightarrow> \<exists>d. v = DoubleC d"
  by (cases v; simp)+

lemma evaluate_fits: "evaluateConstant ub e = Some v \<Longrightarrow> expr_type e = Some t \<Longrightarrow> fits t v"
  using fitTo_fits by (cases e) (auto split: option.splits)

lemma not_i64_min: "- (2 ^ 31) \<le> sint i \<Longrightarrow> i \<noteq> i64_min"
  by (auto simp: i64_min_def)

lemma foldBinary_logic:
  "op = BO_LogAnd \<or> op = BO_LogOr \<Longrightarrow> Option.bind (foldBinary op v w) (\<lambda>u. fitTo ub u (Some IntTy)) \<noteq> None"
  by (auto simp: foldBinary_def bool_c_def)

lemma foldBinary_int:
  assumes "fits IntTy v" "fits IntTy w" "op \<noteq> BO_LogAnd" "op \<noteq> BO_LogOr"
  shows "Option.bind (foldBinary op v w) (\<lambda>u. fitTo ub u (Some IntTy)) = None \<longleftrightarrow> (op = BO_Div \<or> op = BO_Rem) \<and> w = IntC 0"
proof -
  obtain i j where "v = IntC i" "w = IntC j" "i \<noteq> i64_min" using assms(1,2) not_i64_min by (auto simp: fits_int)
  thus ?thesis using assms(3,4) by (cases op) (simp_all add: foldBinary_def bool_c_def)
qed

lemma foldBinary_float:
  assumes "fits FloatTy v" "fits FloatTy w" "binaryOk op FloatTy FloatTy r"
  shows "Option.bind (foldBinary op v w) (\<lambda>u. fitTo ub u (Some r)) \<noteq> None"
proof -
  obtain c d where "v = DoubleC c" "w = DoubleC d" using assms(1,2) fits_float by blast
  thus ?thesis using assms(3) by (cases op) (auto simp: foldBinary_def bool_c_def binaryOk_def computes_def completePointer_def)
qed

lemma folding_faults:
  "literalBuilt e \<Longrightarrow> wellTyped ub scs e \<Longrightarrow>
     isArithmetic (the (expr_type e)) \<and> (evaluateConstant ub e = None \<longleftrightarrow> faulty ub e)"
proof (induction e rule: literalBuilt.induct)
  case (4 op x l t c)
  obtain tx where tx: "expr_type x = Some tx" using 4 wellTyped_type by fastforce
  have x: "isArithmetic tx" "evaluateConstant ub x = None \<longleftrightarrow> faulty ub x" using 4 tx by auto
  obtain r where r: "t = Some r" "unaryOk op tx (category x) r c" using 4(3) tx by auto
  show ?case
  proof (cases "evaluateConstant ub x")
    case (Some v)
    have "fits tx v" by (rule evaluate_fits [OF Some tx])
    hence "isArithmetic r \<and> Option.bind (foldUnary op v) (\<lambda>u. fitTo ub u t) \<noteq> None"
      using 4(2) r x(1)
      by (cases v; cases tx) (auto simp: unaryOk_def computes_def isArithmetic_def bool_c_def)
    thus ?thesis using x Some r by (simp add: evaluate_unary del: evaluateConstant.simps)
  qed (use x r 4(2) in \<open>auto simp: evaluate_unary unaryOk_def computes_def isArithmetic_def simp del: evaluateConstant.simps\<close>)
next
  case (5 op a b l t c)
  obtain ta tb where t: "expr_type a = Some ta" "expr_type b = Some tb" using 5 wellTyped_type by fastforce
  have a: "isArithmetic ta" "evaluateConstant ub a = None \<longleftrightarrow> faulty ub a"
    and b: "isArithmetic tb" "evaluateConstant ub b = None \<longleftrightarrow> faulty ub b" using 5 t by auto
  obtain r where r: "t = Some r" "binaryOk op ta tb r" using 5(4) t by auto
  have np: "\<not> completePointer ta" "\<not> isPointer ta" using a(1) by (cases ta; simp add: completePointer_def isArithmetic_def)+
  have fin: ?case if "isArithmetic r" "\<And>v w. evaluateConstant ub a = Some v \<Longrightarrow> evaluateConstant ub b = Some w \<Longrightarrow>
      Option.bind (foldBinary op v w) (\<lambda>u. fitTo ub u (Some r)) = None \<longleftrightarrow> (op = BO_Div \<or> op = BO_Rem) \<and> w = IntC 0"
    using a b r(1) that
    by (cases "evaluateConstant ub a"; cases "evaluateConstant ub b")
      (simp_all add: evaluate_binary del: evaluateConstant.simps fitTo.simps)
  consider (logic) "op = BO_LogAnd \<or> op = BO_LogOr" "r = IntTy"
    | (int) "op \<noteq> BO_LogAnd" "op \<noteq> BO_LogOr" "ta = IntTy" "tb = IntTy" "r = IntTy"
    | (float) "ta = FloatTy" "tb = FloatTy" "r = IntTy \<or> r = FloatTy"
    using r(2) np by (cases op) (auto simp: binaryOk_def computes_def)
  thus ?case
  proof cases
    case logic
    have "Option.bind (foldBinary op v w) (\<lambda>u. fitTo ub u (Some r)) \<noteq> None" for v w
      unfolding logic(2) by (rule foldBinary_logic [OF logic(1)])
    moreover have "op \<noteq> BO_Div" "op \<noteq> BO_Rem" using logic(1) by auto
    ultimately show ?thesis by (intro fin) (use logic(2) in \<open>simp add: isArithmetic_def\<close>, blast)
  next
    case int
    show ?thesis
    proof (rule fin)
      fix v w assume "evaluateConstant ub a = Some v" "evaluateConstant ub b = Some w"
      hence "fits IntTy v" "fits IntTy w" using evaluate_fits t int by blast+
      thus "Option.bind (foldBinary op v w) (\<lambda>u. fitTo ub u (Some r)) = None \<longleftrightarrow> (op = BO_Div \<or> op = BO_Rem) \<and> w = IntC 0"
        by (simp only: int(5) foldBinary_int [OF _ _ int(1,2)])
    qed (simp add: int isArithmetic_def)
  next
    case float
    show ?thesis
    proof (rule fin)
      fix v w assume "evaluateConstant ub a = Some v" "evaluateConstant ub b = Some w"
      hence "fits FloatTy v" "fits FloatTy w" using evaluate_fits t float by blast+
      moreover from this have "w \<noteq> IntC 0" by auto
      ultimately show "Option.bind (foldBinary op v w) (\<lambda>u. fitTo ub u (Some r)) = None \<longleftrightarrow> (op = BO_Div \<or> op = BO_Rem) \<and> w = IntC 0"
        using foldBinary_float r(2) float by blast
    qed (use float in \<open>auto simp: isArithmetic_def\<close>)
  qed
next
  case (6 k imp x l t c)
  obtain tx where tx: "expr_type x = Some tx" using 6 wellTyped_type by fastforce
  have x: "isArithmetic tx" "evaluateConstant ub x = None \<longleftrightarrow> faulty ub x" using 6 tx by auto
  obtain r where r: "t = Some r" "castOk ub k x tx r" "arithmeticKind k" using 6(2,3) tx by auto
  have ar: "isArithmetic r" using r(2,3) by (cases k) (auto simp: castOk_def arithmeticKind_def isArithmetic_def)
  show ?case
  proof (cases "evaluateConstant ub x")
    case None
    thus ?thesis using x r(3) ar r(1) by simp
  next
    case (Some v)
    have f: "fits tx v" by (rule evaluate_fits [OF Some tx])
    have "fitTo ub v t = None \<longleftrightarrow> k = CK_FloatToInt \<and> (case v of DoubleC d \<Rightarrow>
        \<not> (fp_less (fp_neg guardBound) d \<and> fp_less d guardBound) | IntC i \<Rightarrow> False)"
      using f r x(1)
      by (cases k; cases v; cases tx) (auto simp: castOk_def arithmeticKind_def isArithmetic_def isInteger_iff)
    thus ?thesis using x r(3) ar r(1) Some by (auto split: const_value.splits)
  qed
qed (auto simp: isArithmetic_def)

text \<open>
  C36: A well-typed expression that is built from literals, arithmetic, comparisons and arithmetic casts
  has a constant value unless an integer division or remainder in it divides by zero or a floating value
  in it is too large for the integer it is converted to; and only then it has none. A floating division
  by zero has a value.
\<close>

theorem folding_fails_only_on_faults:
  assumes "literalBuilt e" "wellTyped ub scs e"
  shows "evaluateConstant ub e = None \<longleftrightarrow> faulty ub e"
  using folding_faults [OF assms] by blast

lemma folding_fails_only_on_faults_witness:
  "evaluateConstant no_ub (Expr (Binary BO_Div (Expr (IntLiteral 1) (col 1) (Some IntTy) RValue)
     (Expr (IntLiteral 0) (col 5) (Some IntTy) RValue)) (col 3) (Some IntTy) RValue) = None \<and>
   evaluateConstant no_ub (Expr (Binary BO_Div (Expr (FloatLiteral fp_zero) (col 1) (Some FloatTy) RValue)
     (Expr (FloatLiteral fp_zero) (col 5) (Some FloatTy) RValue)) (col 3) (Some FloatTy) RValue) \<noteq> None"
  using folding_fails_only_on_faults [of "Expr (Binary BO_Div (Expr (IntLiteral 1) (col 1) (Some IntTy) RValue)
      (Expr (IntLiteral 0) (col 5) (Some IntTy) RValue)) (col 3) (Some IntTy) RValue" no_ub "[Map.empty]"]
    folding_fails_only_on_faults [of "Expr (Binary BO_Div (Expr (FloatLiteral fp_zero) (col 1) (Some FloatTy) RValue)
      (Expr (FloatLiteral fp_zero) (col 5) (Some FloatTy) RValue)) (col 3) (Some FloatTy) RValue" no_ub "[Map.empty]"]
  by (simp add: binaryOk_def computes_def wrap32_def)

section \<open>Statements and translation units\<close>

text \<open>
  C5: A translation unit that the analyzer accepts is well formed: every declaration has a complete
  type and a name new in its scope; the initializers fit the declared types, those of globals being
  constants; conditions are scalars, returned values have the function's type, breaks and continues
  stand in loops; every expression is well typed in the scopes at its place; and the declarations
  of a function agree.
\<close>

theorem accepted_units_are_well_formed:
  assumes "list_all parsedDecl (tu_decls tu)" "analyze ub tu = Inr tu'"
  shows "declsOk ub Map.empty {} (tu_decls tu')"
  using analyze_result [OF assms] by blast

lemma accepted_units_are_well_formed_witness:
  "\<exists>tu'. analyze no_ub example = Inr tu' \<and> declsOk no_ub Map.empty {} (tu_decls tu')"
proof -
  obtain tu' where a: "analyze no_ub example = Inr tu'" by (rule example_accepted)
  thus ?thesis using accepted_units_are_well_formed [OF example_parsed a] by blast
qed

text \<open>
  C16: A translation unit that the analyzer accepts is the parsed one, declaration by declaration
  and statement by statement, with its expressions elaborated and the lengths of array types
  completed from the initializers.
\<close>

theorem analyze_elaborates:
  assumes "list_all parsedDecl (tu_decls tu)" "analyze ub tu = Inr tu'"
  shows "list_all2 elabDecl (tu_decls tu) (tu_decls tu')"
  using analyze_result [OF assms] by blast

lemma analyze_elaborates_witness:
  "\<exists>tu'. analyze no_ub example = Inr tu' \<and> list_all2 elabDecl (tu_decls example) (tu_decls tu')"
proof -
  obtain tu' where a: "analyze no_ub example = Inr tu'" by (rule example_accepted)
  thus ?thesis using analyze_elaborates [OF example_parsed a] by blast
qed

text \<open>
  C19: The symbols of the variables, parameters and functions of an accepted unit are numbered from
  1 in the order of declaration, a redeclared function keeping its number; so with at most
  \<open>2^32\<close> of them no two share a number.
\<close>

theorem symbols_are_numbered:
  assumes "list_all parsedDecl (tu_decls tu)" "analyze ub tu = Inr tu'"
    and "length (declIds {} (tu_decls tu')) \<le> 2 ^ 32"
  shows "declIds {} (tu_decls tu') = map (\<lambda>k. word_of_nat (k + 1)) [0 ..< length (declIds {} (tu_decls tu'))] \<and>
    distinct (declIds {} (tu_decls tu'))"
proof -
  have n: "numbered 1 (declIds {} (tu_decls tu'))" using analyze_result [OF assms(1,2)] by blast
  thus ?thesis using numbered_distinct [OF n assms(3)] by (auto intro!: nth_equalityI simp: numbered_nth)
qed

lemma symbols_are_numbered_witness:
  "\<exists>tu'. analyze no_ub example = Inr tu' \<and> declIds {} (tu_decls tu') = [1, 2, 3]"
proof -
  obtain tu' where a: "analyze no_ub example = Inr tu'" and l: "length (declIds {} (tu_decls tu')) = 3"
    by (rule example_accepted)
  have "declIds {} (tu_decls tu') = map (\<lambda>k. word_of_nat (k + 1)) [0 ..< 3]"
    using symbols_are_numbered [OF example_parsed a] l by simp
  thus ?thesis using a by (simp add: upt_rec)
qed

text \<open>
  What a statement declares in the scope it stands in: the variables of complete type of a declaration,
  also of one that is the whole branch of a conditional or body of a loop; nothing for a block.
\<close>

fun scopeNames :: "stmt \<Rightarrow> string set" where
  "scopeNames (Stmt (DeclStmt vs) l) = vd_name ` {v \<in> set vs. type_size (declaredType v) \<noteq> None}"
| "scopeNames (Stmt (IfStmt c a None) l) = scopeNames a"
| "scopeNames (Stmt (IfStmt c a (Some b)) l) = scopeNames a \<union> scopeNames b"
| "scopeNames (Stmt (WhileStmt c body) l) = scopeNames body"
| "scopeNames (Stmt n l) = {}"

text \<open>The innermost scope gains the names \<open>ns\<close>, and nothing else changes in the stack.\<close>

definition gains :: "string set \<Rightarrow> scope list \<Rightarrow> scope list \<Rightarrow> bool" where
  "gains ns scs scs' \<longleftrightarrow> scs \<noteq> [] \<and> scs' \<noteq> [] \<and> tl scs' = tl scs \<and> hd scs \<subseteq>\<^sub>m hd scs' \<and> dom (hd scs') = dom (hd scs) \<union> ns"

lemma gains_none: "gains {} scs scs' \<longleftrightarrow> scs \<noteq> [] \<and> scs' = scs"
proof
  assume g: "gains {} scs scs'"
  hence "hd scs \<subseteq>\<^sub>m hd scs'" "dom (hd scs') = dom (hd scs)" by (simp_all add: gains_def)
  hence "hd scs = hd scs'" by (auto intro: map_le_antisym simp: map_le_def)
  thus "scs \<noteq> [] \<and> scs' = scs" using g by (cases scs; cases scs') (simp_all add: gains_def)
qed (auto simp: gains_def)

lemma gains_trans: "gains ms a b \<Longrightarrow> gains ns b c \<Longrightarrow> gains (ms \<union> ns) a c"
  by (auto simp: gains_def intro: map_le_trans)

lemma an_error_scopes [simp]: "an_scopes (an_error l m s) = an_scopes s"
  by (simp add: an_error_def)

lemma checkValue_scopes: "parsed e \<Longrightarrow> checkValue ub e s = (e', s') \<Longrightarrow> an_scopes s' = an_scopes s"
  by (cases rule: checkValue_cases) (auto dest: reports_env)

lemma checkCondition_scopes: "parsed e \<Longrightarrow> checkCondition ub e s = (e', s') \<Longrightarrow> an_scopes s' = an_scopes s"
  using checkValue_scopes
  by (auto simp: checkCondition_def failExpr_def split: prod.splits option.splits if_splits)

lemma convert_scopes: "convert ub e t m s = (ok, e', s') \<Longrightarrow> an_scopes s' = an_scopes s"
  by (auto simp: convert_def failExpr_def Let_def split: if_splits)

lemma checkReturn_scopes:
  "(case v of None \<Rightarrow> True | Some e \<Rightarrow> parsed e) \<Longrightarrow> checkReturn ub v l s = (v', s') \<Longrightarrow> an_scopes s' = an_scopes s"
  by (auto simp: checkReturn_def Let_def dest!: checkValue_scopes convert_scopes split: prod.splits option.splits if_splits)

lemma checkScalarInit_scopes: "parsed e \<Longrightarrow> checkScalarInit ub e l t glob s = (i', s') \<Longrightarrow> an_scopes s' = an_scopes s"
  by (auto simp: checkScalarInit_def dest!: checkValue_scopes convert_scopes split: prod.splits if_splits)

lemma checkInit_scopes:
  "parsedInit i \<Longrightarrow> checkInit ub i t glob s = (i', s') \<Longrightarrow> an_scopes s' = an_scopes s"
  "(\<forall>i \<in> set is. parsedInit i) \<Longrightarrow> checkInits ub is t glob s = (is', s') \<Longrightarrow> an_scopes s' = an_scopes s"
proof (induction ub i t glob s and ub "is" t glob s arbitrary: i' s' and is' s' rule: checkInit_checkInits.induct)
  case (1 ub e l t glob s)
  thus ?case by (auto simp: checkStringInit_def Let_def dest: checkScalarInit_scopes split: if_splits)
next
  case (2 ub "is" l t glob s)
  have "an_scopes (excessElements is t s) = an_scopes s" by (simp add: excessElements_def)
  thus ?case using 2 by (auto split: prod.splits if_splits)
next
  case (4 ub i "is" t glob s)
  obtain i1 s1 where i: "checkInit ub i t glob s = (i1, s1)" by (cases "checkInit ub i t glob s")
  obtain is1 s2 where r: "checkInits ub is t glob s1 = (is1, s2)" by (cases "checkInits ub is t glob s1")
  have "an_scopes s1 = an_scopes s" using 4(1) [OF _ i] 4(3) by auto
  moreover have "an_scopes s2 = an_scopes s1" using 4(2) [OF i [symmetric] _ r] 4(3) by auto
  ultimately show ?case using 4(4) i r by simp
qed auto

lemma emplace_gains:
  "scs \<noteq> [] \<Longrightarrow> \<not> declaredHere scs x \<Longrightarrow> gains {x} scs (emplaceHere x y scs)"
  "scs \<noteq> [] \<Longrightarrow> declaredHere scs x \<Longrightarrow> gains {x} scs scs"
  by (cases scs; auto simp: gains_def map_le_def)+

lemma declareVar_gains:
  assumes "parsedVar v" "an_scopes s \<noteq> []" "declareVar ub v glob s = (v', s')"
  shows "gains (if type_size (declaredType v) \<noteq> None then {vd_name v} else {}) (an_scopes s) (an_scopes s')"
proof -
  consider (incomplete) "type_size (declaredType v) = None"
    | (again) "type_size (declaredType v) \<noteq> None" "declaredHere (an_scopes s) (vd_name v)"
    | (ok) "type_size (declaredType v) \<noteq> None" "\<not> declaredHere (an_scopes s) (vd_name v)" by blast
  thus ?thesis
  proof cases
    case ok
    let ?w = "v\<lparr>vd_type := declaredType v, vd_symbol := an_nextId s\<rparr>"
    let ?t = "addGlobal glob (an_nextId s) (progress (bindVar ?w (an_scopes s)) 1 s)"
    have t: "an_scopes ?t = bindVar ?w (an_scopes s)" by (simp add: addGlobal_def progress_def)
    have "an_scopes s' = an_scopes ?t"
    proof (cases "vd_init v")
      case None
      thus ?thesis using declareVar_ok [OF ok, of ub glob] assms(3) by simp
    next
      case (Some i)
      thus ?thesis using declareVar_ok [OF ok, of ub glob] assms(1,3)
        by (auto simp: parsedVar_def dest: checkInit_scopes(1) split: prod.splits)
    qed
    hence "an_scopes s' = bindVar ?w (an_scopes s)" by (simp only: t)
    thus ?thesis using ok emplace_gains(1) [OF assms(2) ok(2)] by (simp add: bindVar_def)
  qed (use assms emplace_gains(2) in \<open>auto simp: declareVar_def Let_def declaredType_def [symmetric] gains_none\<close>)
qed

lemma declareVars_gains:
  "(\<forall>v \<in> set vs. parsedVar v) \<Longrightarrow> an_scopes s \<noteq> [] \<Longrightarrow> declareVars ub vs s = (vs', s') \<Longrightarrow>
     gains (vd_name ` {v \<in> set vs. type_size (declaredType v) \<noteq> None}) (an_scopes s) (an_scopes s')"
proof (induction vs arbitrary: s vs' s')
  case Nil
  thus ?case by (simp add: gains_none)
next
  case (Cons v vs)
  obtain v1 s1 where v: "declareVar ub v False s = (v1, s1)" by (cases "declareVar ub v False s")
  obtain vs1 s2 where vs: "declareVars ub vs s1 = (vs1, s2)" by (cases "declareVars ub vs s1")
  have A: "gains (if type_size (declaredType v) \<noteq> None then {vd_name v} else {}) (an_scopes s) (an_scopes s1)"
    using declareVar_gains [OF _ _ v] Cons.prems by simp
  hence "gains (vd_name ` {v \<in> set vs. type_size (declaredType v) \<noteq> None}) (an_scopes s1) (an_scopes s2)"
    using Cons.IH [OF _ _ vs] Cons.prems(1) by (simp add: gains_def)
  moreover have "vd_name ` {u \<in> set (v # vs). type_size (declaredType u) \<noteq> None} =
      (if type_size (declaredType v) \<noteq> None then {vd_name v} else {}) \<union> vd_name ` {u \<in> set vs. type_size (declaredType u) \<noteq> None}"
    by auto
  ultimately show ?case using gains_trans [OF A] Cons.prems(3) v vs by simp
qed

lemma checkStmt_gains:
  "parsedStmt st \<Longrightarrow> an_scopes s \<noteq> [] \<Longrightarrow> checkStmt ub st s = (st', s') \<Longrightarrow> gains (scopeNames st) (an_scopes s) (an_scopes s')"
  "(\<forall>st \<in> set sts. parsedStmt st) \<Longrightarrow> an_scopes s \<noteq> [] \<Longrightarrow> checkStmts ub sts s = (sts', s') \<Longrightarrow>
     gains (\<Union> (scopeNames ` set sts)) (an_scopes s) (an_scopes s')"
proof (induction ub st s and ub sts s arbitrary: st' s' and sts' s' rule: checkStmt_checkStmts.induct)
  case (3 ub vs l s)
  thus ?case using declareVars_gains [of vs s ub] by (auto split: prod.splits)
next
  case (4 ub body l s)
  obtain b1 s1 where b: "checkStmts ub body (pushScope s) = (b1, s1)" by (cases "checkStmts ub body (pushScope s)")
  have "gains (\<Union> (scopeNames ` set body)) (an_scopes (pushScope s)) (an_scopes s1)"
    using 4 b by (simp add: pushScope_def enterScope_def)
  hence "an_scopes (popScope s1) = an_scopes s" by (simp add: gains_def pushScope_def popScope_def enterScope_def)
  thus ?case using 4 b by (auto simp: gains_none)
next
  case (5 ub c a l s)
  obtain c1 s1 where c: "checkCondition ub c s = (c1, s1)" by (cases "checkCondition ub c s")
  obtain a1 s2 where a: "checkStmt ub a s1 = (a1, s2)" by (cases "checkStmt ub a s1")
  have "an_scopes s1 = an_scopes s" using checkCondition_scopes [OF _ c] 5 by simp
  thus ?case using 5 c a by auto
next
  case (6 ub c a b l s)
  obtain c1 s1 where c: "checkCondition ub c s = (c1, s1)" by (cases "checkCondition ub c s")
  obtain a1 s2 where a: "checkStmt ub a s1 = (a1, s2)" by (cases "checkStmt ub a s1")
  obtain b1 s3 where b: "checkStmt ub b s2 = (b1, s3)" by (cases "checkStmt ub b s2")
  have s1: "an_scopes s1 = an_scopes s" using checkCondition_scopes [OF _ c] 6 by simp
  have A: "gains (scopeNames a) (an_scopes s1) (an_scopes s2)" using 6 c a s1 by simp
  hence "gains (scopeNames b) (an_scopes s2) (an_scopes s3)" using 6 c a b by (simp add: gains_def)
  thus ?case using gains_trans [OF A] 6 c a b s1 by auto
next
  case (7 ub c body l s)
  obtain c1 s1 where c: "checkCondition ub c s = (c1, s1)" by (cases "checkCondition ub c s")
  obtain a1 s2 where a: "checkStmt ub body (loopBy 1 s1) = (a1, s2)" by (cases "checkStmt ub body (loopBy 1 s1)")
  have "an_scopes s1 = an_scopes s" using checkCondition_scopes [OF _ c] 7 by simp
  thus ?case using 7 c a by (auto simp: loopBy_def)
next
  case (12 ub st sts s)
  obtain st1 s1 where a: "checkStmt ub st s = (st1, s1)" by (cases "checkStmt ub st s")
  obtain sts1 s2 where b: "checkStmts ub sts s1 = (sts1, s2)" by (cases "checkStmts ub sts s1")
  have A: "gains (scopeNames st) (an_scopes s) (an_scopes s1)" using 12 a by simp
  hence "gains (\<Union> (scopeNames ` set sts)) (an_scopes s1) (an_scopes s2)" using 12 a b by (simp add: gains_def)
  thus ?case using gains_trans [OF A] 12 a b by auto
qed (auto simp: gains_none notInLoop_def dest: checkValue_scopes checkReturn_scopes split: prod.splits)

text \<open>
  C22: Checking a statement, even one with errors, leaves every scope but the innermost one as it was;
  the innermost one keeps its entries and gains exactly the names of complete type that the statement
  declares there, which are none for a block: what is declared in it is gone after it. The depth of
  loops and the return type are restored, and diagnostics are only added.
\<close>

theorem statements_keep_the_frame:
  assumes "parsedStmt st" "inFunction s" "checkStmt ub st s = (st', s')"
  shows "an_scopes s' \<noteq> [] \<and> tl (an_scopes s') = tl (an_scopes s) \<and>
    hd (an_scopes s) \<subseteq>\<^sub>m hd (an_scopes s') \<and> dom (hd (an_scopes s')) = dom (hd (an_scopes s)) \<union> scopeNames st \<and>
    (scopeNames st = {} \<longrightarrow> an_scopes s' = an_scopes s) \<and>
    an_returnType s' = an_returnType s \<and> an_loopDepth s' = an_loopDepth s \<and> sema_sink.extends s s'"
proof -
  have g: "gains (scopeNames st) (an_scopes s) (an_scopes s')"
    using checkStmt_gains(1) [OF assms(1) _ assms(3)] assms(2) by (simp add: inFunction_def)
  hence "scopeNames st = {} \<longrightarrow> an_scopes s' = an_scopes s" using gains_none by auto
  moreover have "keeps s s'" using checkStmt_step(1) [OF assms] by (auto simp: stmtStep_def dest: step_keeps)
  ultimately show ?thesis using g by (auto simp: keeps_def gains_def sema_sink.extends_def)
qed

definition in_f :: analyzer where
  "in_f = newAnalyzer\<lparr>an_returnType := Some VoidTy\<rparr>"

definition bad_loop :: stmt where
  "bad_loop = Stmt (WhileStmt (int_lit 1 1) (Stmt (CompoundStmt
     [Stmt (DeclStmt [mkVar ''x'' VoidTy False None]) (col 3), Stmt BreakStmt (col 4)]) (col 2))) (col 1)"

lemma statements_keep_the_frame_witness:
  "an_scopes (snd (checkStmt no_ub bad_loop in_f)) = an_scopes in_f \<and> an_loopDepth (snd (checkStmt no_ub bad_loop in_f)) = 0 \<and>
     length (an_diags (snd (checkStmt no_ub bad_loop in_f))) = 1"
proof -
  have "length (an_diags (snd (checkStmt no_ub bad_loop in_f))) = 1" by code_simp
  thus ?thesis
    using statements_keep_the_frame [of bad_loop in_f no_ub, OF _ _ surjective_pairing]
    by (simp add: bad_loop_def in_f_def newAnalyzer_def inFunction_def bare_def int_lit_def parsedVar_def mkVar_def)
qed

text \<open>Breaks and continues that stand in a loop, on the tree as it was parsed.\<close>

fun jumpsOk :: "bool \<Rightarrow> stmt \<Rightarrow> bool" where
  "jumpsOk loop (Stmt (CompoundStmt body) l) \<longleftrightarrow> (\<forall>st \<in> set body. jumpsOk loop st)"
| "jumpsOk loop (Stmt (IfStmt c a None) l) \<longleftrightarrow> jumpsOk loop a"
| "jumpsOk loop (Stmt (IfStmt c a (Some b)) l) \<longleftrightarrow> jumpsOk loop a \<and> jumpsOk loop b"
| "jumpsOk loop (Stmt (WhileStmt c body) l) \<longleftrightarrow> jumpsOk True body"
| "jumpsOk loop (Stmt BreakStmt l) \<longleftrightarrow> loop"
| "jumpsOk loop (Stmt ContinueStmt l) \<longleftrightarrow> loop"
| "jumpsOk loop (Stmt n l) \<longleftrightarrow> True"

lemma list_all2_member: "list_all2 P xs ys \<Longrightarrow> x \<in> set xs \<Longrightarrow> \<exists>y \<in> set ys. P x y"
  by (induction xs ys rule: list_all2_induct) auto

lemma stmtsOk_member:
  "stmtsOk ub ret loop scs sts \<Longrightarrow> st \<in> set sts \<Longrightarrow> \<exists>scs'. stmtOk ub ret loop scs' st"
  by (induction sts arbitrary: scs) auto

lemma elabStmt_jumps: "elabStmt st st' \<Longrightarrow> stmtOk ub ret loop scs st' \<Longrightarrow> jumpsOk loop st"
proof (induction arbitrary: loop scs rule: elabStmt.induct)
  case (elabStmt_block b b' l)
  show ?case
  proof (simp, rule ballI)
    fix st
    assume "st \<in> set b"
    then obtain st' where "st' \<in> set b'" and IH: "\<And>loop scs. stmtOk ub ret loop scs st' \<Longrightarrow> jumpsOk loop st"
      using list_all2_member [OF elabStmt_block.IH] by blast
    thus "jumpsOk loop st"
      using stmtsOk_member [of ub ret loop "enterScope scs" b' st'] elabStmt_block.prems by auto
  qed
qed auto

lemma accepted_jumps:
  assumes "list_all2 elabDecl ds ds'" "declsOk ub gs G ds'" "TopFunction f \<in> set ds" "fd_body f = Some body"
    and "st \<in> set body"
  shows "jumpsOk False st"
  using assms
proof (induction ds ds' arbitrary: gs G rule: list_all2_induct)
  case (Cons d ds d' ds')
  show ?case
  proof (cases "d = TopFunction f")
    case True
    then obtain f' where d': "d' = TopFunction f'" and e: "elabFunction f f'"
      using Cons.hyps by (cases d') auto
    then obtain body' where b': "fd_body f' = Some body'" and l: "list_all2 elabStmt body body'"
      using Cons.prems by (auto simp: elabFunction_def option_rel_Some1)
    obtain st' where st': "st' \<in> set body'" "elabStmt st st'"
      using list_all2_member [OF l Cons.prems(4)] by blast
    have "stmtsOk ub (returnType (fd_type f')) False
        (fold bindParam (fd_params f') (enterScope [bindFunction f' gs])) body'"
      using Cons.prems(1) d' b' by (simp add: functionOk_def)
    thus ?thesis using stmtsOk_member [OF _ st'(1)] elabStmt_jumps [OF st'(2)] by blast
  next
    case False
    thus ?thesis using Cons.prems Cons.IH by (cases d') auto
  qed
qed simp

text \<open>
  C23: A unit with a \<open>break\<close> or \<open>continue\<close> outside of every loop is rejected with at least one
  diagnostic, whatever else it contains.
\<close>

theorem stray_jumps_are_rejected:
  assumes "list_all parsedDecl (tu_decls tu)" "TopFunction f \<in> set (tu_decls tu)" "fd_body f = Some body"
    and "st \<in> set body" "\<not> jumpsOk False st"
  shows "\<exists>ds. analyze ub tu = Inl ds \<and> ds \<noteq> []"
proof (cases "analyze ub tu")
  case (Inl ds)
  thus ?thesis by (auto simp: analyze_def split: prod.splits if_splits)
next
  case (Inr tu')
  thus ?thesis using analyze_result [OF assms(1) Inr] accepted_jumps [of "tu_decls tu"] assms(2-) by blast
qed

definition stray :: function_decl where
  "stray = mkFun ''f'' (FunctionTy VoidTy [] False) []
     [Stmt (IfStmt (int_lit 24 1) (Stmt ContinueStmt (col 27)) None) (col 20)]"

lemma stray_jumps_are_rejected_witness:
  "\<exists>ds. analyze no_ub \<lparr>tu_decls = [TopFunction stray]\<rparr> = Inl ds \<and> ds \<noteq> []"
  using stray_jumps_are_rejected [of "\<lparr>tu_decls = [TopFunction stray]\<rparr>" stray]
  by (simp add: stray_def mkFun_def bare_def int_lit_def)

text \<open>
  Assignments to names that are \<open>const\<close> where they stand, on the parsed tree: \<open>K\<close> says which
  names are, and changes with the declarations. The operand of \<open>sizeof\<close> is not looked at.
\<close>

primrec constAssign :: "(string \<Rightarrow> bool) \<Rightarrow> expr \<Rightarrow> bool" and constAssignNode :: "(string \<Rightarrow> bool) \<Rightarrow> expr_node \<Rightarrow> bool" where
  "constAssign K (Expr n l t c) = constAssignNode K n"
| "constAssignNode K (IntLiteral v) \<longleftrightarrow> False"
| "constAssignNode K (FloatLiteral v) \<longleftrightarrow> False"
| "constAssignNode K (StringLiteral b) \<longleftrightarrow> False"
| "constAssignNode K (DeclRef n i) \<longleftrightarrow> False"
| "constAssignNode K (Unary op x) \<longleftrightarrow> constAssign K x"
| "constAssignNode K (Binary op a b) \<longleftrightarrow> constAssign K a \<or> constAssign K b"
| "constAssignNode K (Assign a b) \<longleftrightarrow>
     (case node a of DeclRef x i \<Rightarrow> K x | _ \<Rightarrow> False) \<or> constAssign K a \<or> constAssign K b"
| "constAssignNode K (Call f args) \<longleftrightarrow> constAssign K f \<or> list_ex id (map (constAssign K) args)"
| "constAssignNode K (Index a b) \<longleftrightarrow> constAssign K a \<or> constAssign K b"
| "constAssignNode K (Cast k imp x) \<longleftrightarrow> constAssign K x"
| "constAssignNode K (SizeOfType ty) \<longleftrightarrow> False"
| "constAssignNode K (SizeOfExpr x) \<longleftrightarrow> False"

fun constAssignInit :: "(string \<Rightarrow> bool) \<Rightarrow> initializer \<Rightarrow> bool" where
  "constAssignInit K (InitExpr e l) \<longleftrightarrow> constAssign K e"
| "constAssignInit K (InitList is l) \<longleftrightarrow> (\<exists>i \<in> set is. constAssignInit K i)"

definition declares :: "var_decl \<Rightarrow> (string \<Rightarrow> bool) \<Rightarrow> string \<Rightarrow> bool" where
  "declares v K = K(vd_name v := vd_isConst v)"

definition constAssignVar :: "(string \<Rightarrow> bool) \<Rightarrow> var_decl \<Rightarrow> bool" where
  "constAssignVar K v \<longleftrightarrow> (case vd_init v of None \<Rightarrow> False | Some i \<Rightarrow> constAssignInit (declares v K) i)"

fun constAssignVars :: "(string \<Rightarrow> bool) \<Rightarrow> var_decl list \<Rightarrow> bool" where
  "constAssignVars K [] \<longleftrightarrow> False"
| "constAssignVars K (v # vs) \<longleftrightarrow> constAssignVar K v \<or> constAssignVars (declares v K) vs"

fun constsAfter :: "stmt \<Rightarrow> (string \<Rightarrow> bool) \<Rightarrow> string \<Rightarrow> bool" where
  "constsAfter (Stmt (DeclStmt vs) l) K = fold declares vs K"
| "constsAfter (Stmt (IfStmt c a None) l) K = constsAfter a K"
| "constsAfter (Stmt (IfStmt c a (Some b)) l) K = constsAfter b (constsAfter a K)"
| "constsAfter (Stmt (WhileStmt c body) l) K = constsAfter body K"
| "constsAfter (Stmt n l) K = K"

fun constAssignStmt :: "(string \<Rightarrow> bool) \<Rightarrow> stmt \<Rightarrow> bool"
and constAssignStmts :: "(string \<Rightarrow> bool) \<Rightarrow> stmt list \<Rightarrow> bool" where
  "constAssignStmt K (Stmt (ExprStmt e) l) \<longleftrightarrow> constAssign K e"
| "constAssignStmt K (Stmt (DeclStmt vs) l) \<longleftrightarrow> constAssignVars K vs"
| "constAssignStmt K (Stmt (CompoundStmt body) l) \<longleftrightarrow> constAssignStmts K body"
| "constAssignStmt K (Stmt (IfStmt c a None) l) \<longleftrightarrow> constAssign K c \<or> constAssignStmt K a"
| "constAssignStmt K (Stmt (IfStmt c a (Some b)) l) \<longleftrightarrow>
     constAssign K c \<or> constAssignStmt K a \<or> constAssignStmt (constsAfter a K) b"
| "constAssignStmt K (Stmt (WhileStmt c body) l) \<longleftrightarrow> constAssign K c \<or> constAssignStmt K body"
| "constAssignStmt K (Stmt (ReturnStmt v) l) \<longleftrightarrow> (case v of None \<Rightarrow> False | Some e \<Rightarrow> constAssign K e)"
| "constAssignStmt K (Stmt n l) \<longleftrightarrow> False"
| "constAssignStmts K [] \<longleftrightarrow> False"
| "constAssignStmts K (st # sts) \<longleftrightarrow> constAssignStmt K st \<or> constAssignStmts (constsAfter st K) sts"

definition declaresParam :: "param_decl \<Rightarrow> (string \<Rightarrow> bool) \<Rightarrow> string \<Rightarrow> bool" where
  "declaresParam p K = K(pd_name p := pd_isConst p)"

fun constAssignDecls :: "(string \<Rightarrow> bool) \<Rightarrow> top_level_decl list \<Rightarrow> bool" where
  "constAssignDecls K [] \<longleftrightarrow> False"
| "constAssignDecls K (TopVar v # ds) \<longleftrightarrow> constAssignVar K v \<or> constAssignDecls (declares v K) ds"
| "constAssignDecls K (TopFunction f # ds) \<longleftrightarrow>
     (case fd_body f of None \<Rightarrow> False | Some body \<Rightarrow> constAssignStmts (fold declaresParam (fd_params f) K) body) \<or>
     constAssignDecls K ds"

text \<open>In the scopes of the analyzer, the names that are \<open>const\<close>.\<close>

definition constIn :: "scope list \<Rightarrow> string \<Rightarrow> bool" where
  "constIn scs x \<longleftrightarrow> (case lookup scs x of None \<Rightarrow> False | Some y \<Rightarrow> sym_isConst y)"

lemma constIn_bind:
  "scs \<noteq> [] \<Longrightarrow> \<not> declaredHere scs x \<Longrightarrow> constIn (emplaceHere x y scs) = (constIn scs)(x := sym_isConst y)"
  by (rule ext) (simp add: constIn_def scopes.find_bind)

lemma constIn_enter [simp]: "constIn (enterScope scs) = constIn scs"
  by (rule ext) (simp add: constIn_def scopes.find_enter)

lemma elaborated_const:
  "elaborates e e' \<Longrightarrow> wellTyped ub scs e' \<Longrightarrow> \<not> constAssign (constIn scs) e"
proof (induction rule: elaborates.induct)
  case (elab_assign a a' b b' l t c t' c')
  have "\<not> (case node a of DeclRef x i \<Rightarrow> constIn scs x | _ \<Rightarrow> False)"
  proof (cases "node a")
    case (DeclRef x i)
    then obtain la ta ca where a: "a = Expr (DeclRef x i) la ta ca" by (cases a) auto
    have "category a' = LValue" "wellTyped ub scs a'" using elab_assign.prems by simp_all
    moreover have "elaborates (Expr (DeclRef x i) la ta ca) a'" using elab_assign.hyps(1) a by simp
    ultimately obtain i' ta' ca' where "a' = Expr (DeclRef x i') la ta' ca'"
      by (auto elim: elaborates.cases)
    thus ?thesis using elab_assign.prems DeclRef by (auto simp: constIn_def constTarget_def)
  qed simp_all
  thus ?case using elab_assign by auto
next
  case (elab_call f f' args args' l t c t' c')
  have "\<not> list_ex id (map (constAssign (constIn scs)) args)"
    using elab_call.IH(2) elab_call.prems by (auto simp: list_all2_conv_all_nth list_ex_iff list_all_length in_set_conv_nth)
  thus ?case using elab_call by simp
next
  case (elab_index a i l e' t c)
  thus ?case by (simp add: desugarIndex_def)
qed auto

lemma elabInit_const: "elabInit i i' \<Longrightarrow> initOk ub scs g ty i' \<Longrightarrow> \<not> constAssignInit (constIn scs) i"
proof (induction arbitrary: ty rule: elabInit.induct)
  case (elabInit_expr e e' l)
  thus ?case using elaborated_const by (auto simp: hasType_def split: if_splits)
next
  case (elabInit_list xs xs' l)
  show ?case
  proof (simp, rule ballI)
    fix i assume "i \<in> set xs"
    then obtain i' where "i' \<in> set xs'" "\<And>ty. initOk ub scs g ty i' \<Longrightarrow> \<not> constAssignInit (constIn scs) i"
      using list_all2_member [OF elabInit_list.IH] by blast
    thus "\<not> constAssignInit (constIn scs) i" using elabInit_list.prems by (auto split: if_splits)
  qed
qed

lemma bindVar_const: "elabVar v v' \<Longrightarrow> scs \<noteq> [] \<Longrightarrow> varOk ub g scs v' \<Longrightarrow> constIn (bindVar v' scs) = declares v (constIn scs)"
  by (simp add: bindVar_def constIn_bind varOk_def elabVar_def declares_def)

lemma elabVar_const: "elabVar v v' \<Longrightarrow> scs \<noteq> [] \<Longrightarrow> varOk ub g scs v' \<Longrightarrow> \<not> constAssignVar (constIn scs) v"
  using bindVar_const [of v v' scs ub g] elabInit_const [of _ _ ub "bindVar v' scs"]
  by (auto simp: constAssignVar_def elabVar_def varOk_def option_rel_Some1 split: option.splits)

lemma elabVars_const:
  "list_all2 elabVar vs vs' \<Longrightarrow> scs \<noteq> [] \<Longrightarrow> varsOk ub scs vs' \<Longrightarrow>
     \<not> constAssignVars (constIn scs) vs \<and> constIn (fold bindVar vs' scs) = fold declares vs (constIn scs)"
proof (induction vs vs' arbitrary: scs rule: list_all2_induct)
  case (Cons v vs v' vs')
  thus ?case using Cons.IH [of "bindVar v' scs"] elabVar_const [of v v' scs ub None] bindVar_const [of v v' scs ub None] by simp
qed simp

lemma afterStmt_const:
  "elabStmt st st' \<Longrightarrow> scs \<noteq> [] \<Longrightarrow> stmtOk ub ret loop scs st' \<Longrightarrow> constIn (afterStmt st' scs) = constsAfter st (constIn scs)"
proof (induction arbitrary: loop scs rule: elabStmt.induct)
  case (elabStmt_decl vs vs' l)
  thus ?case using elabVars_const by simp
qed auto

lemma elabStmts_const:
  assumes "list_all2 (\<lambda>st st'. elabStmt st st' \<and>
      (\<forall>loop scs. scs \<noteq> [] \<longrightarrow> stmtOk ub ret loop scs st' \<longrightarrow> \<not> constAssignStmt (constIn scs) st)) b b'"
  shows "scs \<noteq> [] \<Longrightarrow> stmtsOk ub ret loop scs b' \<Longrightarrow> \<not> constAssignStmts (constIn scs) b"
  using assms
proof (induction b b' arbitrary: scs rule: list_all2_induct)
  case (Cons st sts st' sts')
  have "\<not> constAssignStmt (constIn scs) st" using Cons.hyps(1) Cons.prems by auto
  moreover have "constIn (afterStmt st' scs) = constsAfter st (constIn scs)"
    using afterStmt_const [of st st' scs ub ret loop] Cons.hyps(1) Cons.prems by simp
  ultimately show ?case using Cons.IH [of "afterStmt st' scs"] Cons.prems by simp
qed simp

lemma elabStmt_const:
  "elabStmt st st' \<Longrightarrow> scs \<noteq> [] \<Longrightarrow> stmtOk ub ret loop scs st' \<Longrightarrow> \<not> constAssignStmt (constIn scs) st"
proof (induction arbitrary: loop scs rule: elabStmt.induct)
  case (elabStmt_block b b' l)
  have "\<not> constAssignStmts (constIn (enterScope scs)) b"
    by (rule elabStmts_const [OF elabStmt_block.IH]) (use elabStmt_block.prems in \<open>simp_all add: enterScope_def\<close>)
  thus ?case by simp
next
  case (elabStmt_decl vs vs' l)
  thus ?case using elabVars_const by simp
next
  case (elabStmt_ifelse c c' a a' b b' l)
  have "\<not> constAssignStmt (constIn scs) a" "\<not> constAssignStmt (constIn (afterStmt a' scs)) b"
    using elabStmt_ifelse.IH(1) [of scs loop] elabStmt_ifelse.IH(2) [of "afterStmt a' scs" loop] elabStmt_ifelse.prems by simp_all
  thus ?case using elabStmt_ifelse afterStmt_const [of a a' scs ub ret loop] elaborated_const [of c c' ub scs]
    by (simp add: condOk_def)
next
  case (elabStmt_return v v' l)
  thus ?case using elaborated_const [of _ _ ub scs] by (auto simp: hasType_def split: option.splits elim: option.rel_cases)
qed (auto simp: condOk_def hasType_def dest: elaborated_const)

lemma params_const:
  "list_all2 elabParam ps ps' \<Longrightarrow> scs \<noteq> [] \<Longrightarrow> freshParams scs ps' \<Longrightarrow> constIn (fold bindParam ps' scs) = fold declaresParam ps (constIn scs)"
proof (induction ps ps' arbitrary: scs rule: list_all2_induct)
  case (Cons p ps p' ps')
  have b: "constIn (bindParam p' scs) = declaresParam p (constIn scs)"
    using Cons.hyps(1) Cons.prems by (simp add: bindParam_def constIn_bind freshParams_def elabParam_def declaresParam_def)
  have "freshParams (bindParam p' scs) ps'"
    using Cons.prems by (auto simp: freshParams_def bindParam_def scopes.bound_bind intro: rev_image_eqI)
  thus ?case using Cons.IH [of "bindParam p' scs"] Cons.prems(1) b by simp
qed simp

lemma constIn_function: "constIn [bindFunction f gs] = constIn [gs]"
  by (rule ext) (auto simp: constIn_def bindFunction_def split: option.split)

lemma elabFunction_const:
  assumes "elabFunction f f'" "functionOk ub gs f'" "fd_body f = Some body"
  shows "\<not> constAssignStmts (fold declaresParam (fd_params f) (constIn [gs])) body"
proof -
  obtain body' where b: "fd_body f' = Some body'" "list_all2 elabStmt body body'"
    using assms(1,3) by (auto simp: elabFunction_def option_rel_Some1)
  let ?scs = "enterScope [bindFunction f' gs]"
  have ok: "paramsOk (fd_params f')" "stmtsOk ub (returnType (fd_type f')) False (fold bindParam (fd_params f') ?scs) body'"
    using assms(2) b(1) by (simp_all add: functionOk_def)
  have ps: "list_all2 elabParam (fd_params f) (fd_params f')" using assms(1) by (simp add: elabFunction_def)
  have fresh: "freshParams ?scs (fd_params f')"
    using ok(1) by (auto simp: freshParams_def paramsOk_def scopes.fresh_enter intro: rev_image_eqI)
  have c: "constIn (fold bindParam (fd_params f') ?scs) = fold declaresParam (fd_params f) (constIn [gs])"
    using params_const [OF ps scopes.usable_enter fresh] constIn_function by simp
  have "list_all2 (\<lambda>st st'. elabStmt st st' \<and> (\<forall>loop scs. scs \<noteq> [] \<longrightarrow>
      stmtOk ub (returnType (fd_type f')) loop scs st' \<longrightarrow> \<not> constAssignStmt (constIn scs) st)) body body'"
    using elabStmt_const by (intro list_all2_mono [OF b(2)]) blast
  from elabStmts_const [OF this _ ok(2)] show ?thesis using c by (simp add: enterScope_def)
qed

lemma decls_const:
  "list_all2 elabDecl ds ds' \<Longrightarrow> declsOk ub gs G ds' \<Longrightarrow> \<not> constAssignDecls (constIn [gs]) ds"
proof (induction ds ds' arbitrary: gs G rule: list_all2_induct)
  case (Cons d ds d' ds')
  show ?case
  proof (cases d)
    case (TopVar v)
    then obtain v' where v': "d' = TopVar v'" "elabVar v v'" using Cons.hyps by (cases d') auto
    hence ok: "varOk ub (Some G) [gs] v'" using Cons.prems by simp
    hence "[hd (bindVar v' [gs])] = bindVar v' [gs]" using bindVar_dom [of gs v'] by (simp add: varOk_def)
    hence "constIn [hd (bindVar v' [gs])] = declares v (constIn [gs])" using bindVar_const [OF v'(2) _ ok] by simp
    thus ?thesis using Cons.IH [of "hd (bindVar v' [gs])" "insert (vd_symbol v') G"] Cons.prems v' TopVar elabVar_const [OF v'(2) _ ok]
      by simp
  next
    case (TopFunction f)
    then obtain f' where f': "d' = TopFunction f'" "elabFunction f f'" using Cons.hyps by (cases d') auto
    thus ?thesis using Cons.IH [of "bindFunction f' gs" G] Cons.prems TopFunction constIn_function elabFunction_const [OF f'(2), of ub gs]
      by (auto split: option.split)
  qed
qed simp

text \<open>
  C25: A unit that assigns to a name which is \<open>const\<close> at its place, be it a variable, a parameter or a
  global, is rejected with at least one diagnostic, whatever else it contains.
\<close>

theorem const_names_are_not_assigned:
  assumes "list_all parsedDecl (tu_decls tu)" "constAssignDecls (\<lambda>x. False) (tu_decls tu)"
  shows "\<exists>ds. analyze ub tu = Inl ds \<and> ds \<noteq> []"
proof (cases "analyze ub tu")
  case (Inl ds)
  thus ?thesis by (auto simp: analyze_def split: prod.splits if_splits)
next
  case (Inr tu')
  have "constIn [Map.empty] = (\<lambda>x. False)" by (rule ext) (simp add: constIn_def)
  thus ?thesis using analyze_result [OF assms(1) Inr] decls_const [of "tu_decls tu"] assms(2) by fastforce
qed

definition assigns :: "ty \<Rightarrow> initializer \<Rightarrow> expr \<Rightarrow> translation_unit" where
  "assigns t i target = \<lparr>tu_decls =
     [TopVar (mkVar ''k'' t True (Some i)),
      TopFunction (mkFun ''f'' (FunctionTy VoidTy [] False) []
        [Stmt (ExprStmt (bare 30 (Assign target (int_lit 32 3)))) (col 30)])]\<rparr>"

lemma const_names_are_not_assigned_witness:
  "\<exists>ds. analyze no_ub (assigns IntTy (InitExpr (int_lit 9 1) (col 9)) (name_ref 30 ''k'')) = Inl ds \<and> ds \<noteq> []"
  using const_names_are_not_assigned [of "assigns IntTy (InitExpr (int_lit 9 1) (col 9)) (name_ref 30 ''k'')" no_ub]
  by (simp add: assigns_def mkVar_def mkFun_def bare_def int_lit_def name_ref_def parsedVar_def declares_def)

text \<open>The check looks only at a target that is a name: the elements of a \<open>const\<close> array can be assigned.\<close>

lemma const_elements_can_be_assigned:
  "case analyze no_ub (assigns (ArrayTy IntTy 1) (InitList [InitExpr (int_lit 9 1) (col 9)] (col 8))
     (bare 30 (Index (name_ref 30 ''k'') (int_lit 31 0)))) of Inl ds \<Rightarrow> False | Inr tu' \<Rightarrow> True"
  by code_simp

end
