(* ===== verification/Parser.thy ===== *)
theory Parser
  imports Tokens Literal ConstEval
begin

text \<open>
  \<open>lib/Parse/Parser.cpp\<close>: the recursive-descent parser. A member function that returns
  \<open>std::optional<T>\<close> is a parser of \<open>T\<close>: from the parser's state it gives the optional value and
  the new state. \<open>andThen\<close> is the code's \<open>if (!x) return std::nullopt;\<close>. The members call each
  other in ways whose termination rests on the tokens they consume, so each carries fuel;
  \<open>ps_exhausted\<close> records that it ran out, which \<open>ParseCorrect\<close> proves impossible for the fuel that
  \<open>parse\<close> gives. Loops are functions of their own. \<open>ub\<close> is the parameter of constant folding.
\<close>

section \<open>State\<close>

record parser =
  ps_toks :: "token list"
  ps_pos :: nat
  ps_diags :: "diagnostic list"
  ps_exhausted :: bool

type_synonym 'a parses = "parser \<Rightarrow> 'a option \<times> parser"

definition newParser :: "token list \<Rightarrow> parser" where
  "newParser toks = \<lparr>ps_toks = toks, ps_pos = 0, ps_diags = [], ps_exhausted = False\<rparr>"

definition yield :: "'a \<Rightarrow> 'a parses" where
  "yield a s = (Some a, s)"

definition andThen :: "'a parses \<Rightarrow> ('a \<Rightarrow> 'b parses) \<Rightarrow> 'b parses" where
  "andThen p f s = (case p s of (None, s') \<Rightarrow> (None, s') | (Some a, s') \<Rightarrow> f a s')"

definition exhaust :: "parser \<Rightarrow> parser" where
  "exhaust s = s\<lparr>ps_exhausted := True\<rparr>"

definition outOfFuel :: "'a parses" where
  "outOfFuel s = (None, exhaust s)"

section \<open>Token helpers\<close>

definition peekTok :: "nat \<Rightarrow> parser \<Rightarrow> token" where
  "peekTok ahead s = ps_toks s ! min (ps_pos s + ahead) (length (ps_toks s) - 1)"

abbreviation kindAt :: "nat \<Rightarrow> parser \<Rightarrow> token_kind" where
  "kindAt ahead s \<equiv> tok_kind (peekTok ahead s)"

abbreviation locHere :: "parser \<Rightarrow> source_location" where
  "locHere s \<equiv> tok_loc (peekTok 0 s)"

definition checkTok :: "token_kind \<Rightarrow> parser \<Rightarrow> bool" where
  "checkTok k s \<longleftrightarrow> kindAt 0 s = k"

text \<open>The state after \<open>advance\<close>; the token it returns is \<open>peekTok 0\<close> before.\<close>

definition advanceTok :: "parser \<Rightarrow> parser" where
  "advanceTok s = (if kindAt 0 s = TK_Eof then s else s\<lparr>ps_pos := ps_pos s + 1\<rparr>)"

definition p_error :: "source_location \<Rightarrow> string \<Rightarrow> parser \<Rightarrow> parser" where
  "p_error l msg s = s\<lparr>ps_diags := ps_diags s @ [makeError l msg]\<rparr>"

interpretation parser_sink: diag_sink ps_diags p_error
  by unfold_locales (simp add: p_error_def)

definition reject :: "source_location \<Rightarrow> string \<Rightarrow> 'a parses" where
  "reject l msg s = (None, p_error l msg s)"

definition describe :: "token \<Rightarrow> string" where
  "describe tok = (if tok_kind tok = TK_Eof then ''end of file'' else quoted_text (tok_text tok))"

definition consume :: "token_kind \<Rightarrow> parser \<Rightarrow> bool \<times> parser" where
  "consume k s = (if checkTok k s then (True, advanceTok s) else (False, s))"

definition expect :: "token_kind \<Rightarrow> unit parses" where
  "expect k s =
     (case consume k s of
        (True, s') \<Rightarrow> (Some (), s')
      | (False, s') \<Rightarrow>
          (None, p_error (locHere s) (''expected '' @ quoted_text (spelling k) @ '' before '' @ describe (peekTok 0 s)) s'))"

section \<open>Recovery\<close>

fun skipTopLevel :: "nat \<Rightarrow> int \<Rightarrow> parser \<Rightarrow> parser" where
  "skipTopLevel 0 depth s = exhaust s"
| "skipTopLevel (Suc n) depth s =
     (if checkTok TK_Eof s then s
      else
        let kind = kindAt 0 s; s1 = advanceTok s in
        if kind = TK_LBrace then skipTopLevel n (depth + 1) s1
        else if kind = TK_RBrace then (if depth - 1 \<le> 0 then s1 else skipTopLevel n (depth - 1) s1)
        else if kind = TK_Semi \<and> depth = 0 then s1
        else skipTopLevel n depth s1)"

definition synchronizeTopLevel :: "nat \<Rightarrow> nat \<Rightarrow> parser \<Rightarrow> parser" where
  "synchronizeTopLevel n start s = skipTopLevel n 0 (if ps_pos s = start then advanceTok s else s)"

fun skipStatement :: "nat \<Rightarrow> parser \<Rightarrow> parser" where
  "skipStatement 0 s = exhaust s"
| "skipStatement (Suc n) s =
     (if checkTok TK_Eof s \<or> checkTok TK_RBrace s then s
      else if checkTok TK_Semi s then advanceTok s
      else skipStatement n (advanceTok s))"

definition synchronizeStatement :: "nat \<Rightarrow> nat \<Rightarrow> parser \<Rightarrow> parser" where
  "synchronizeStatement n start s =
     skipStatement n (if ps_pos s = start \<and> \<not> checkTok TK_RBrace s then advanceTok s else s)"

section \<open>Declaration specifiers\<close>

record decl_spec =
  sp_base :: "ty option"
  sp_isConst :: bool
  sp_loc :: source_location

datatype decl_op = PointerOp | ArrayOp u64 | FunctionOp "param_decl list" bool

record declarator =
  dc_name :: string
  dc_loc :: source_location
  dc_ops :: "decl_op list"

record declared =
  dd_name :: string
  dd_loc :: source_location
  dd_type :: ty
  dd_function :: "(param_decl list \<times> bool) option"

fun binaryInfo :: "token_kind \<Rightarrow> (nat \<times> binary_op) option" where
  "binaryInfo TK_PipePipe = Some (1, BO_LogOr)"
| "binaryInfo TK_AmpAmp = Some (2, BO_LogAnd)"
| "binaryInfo TK_EqualEqual = Some (3, BO_Eq)"
| "binaryInfo TK_ExclaimEqual = Some (3, BO_Ne)"
| "binaryInfo TK_Less = Some (4, BO_Lt)"
| "binaryInfo TK_Greater = Some (4, BO_Gt)"
| "binaryInfo TK_LessEqual = Some (4, BO_Le)"
| "binaryInfo TK_GreaterEqual = Some (4, BO_Ge)"
| "binaryInfo TK_Plus = Some (5, BO_Add)"
| "binaryInfo TK_Minus = Some (5, BO_Sub)"
| "binaryInfo TK_Star = Some (6, BO_Mul)"
| "binaryInfo TK_Slash = Some (6, BO_Div)"
| "binaryInfo TK_Percent = Some (6, BO_Rem)"
| "binaryInfo _ = None"

definition isConstObject :: "decl_spec \<Rightarrow> ty \<Rightarrow> bool" where
  "isConstObject spec t \<longleftrightarrow> sp_isConst spec \<and> \<not> isPointer t"

definition isTypeStart :: "token_kind \<Rightarrow> bool" where
  "isTypeStart k \<longleftrightarrow> k = TK_KwVoid \<or> k = TK_KwChar \<or> k = TK_KwInt \<or> k = TK_KwFloat \<or> k = TK_KwConst"

fun typeOfKind :: "token_kind \<Rightarrow> ty option" where
  "typeOfKind TK_KwVoid = Some VoidTy"
| "typeOfKind TK_KwChar = Some CharTy"
| "typeOfKind TK_KwInt = Some IntTy"
| "typeOfKind TK_KwFloat = Some FloatTy"
| "typeOfKind _ = None"

fun declSpecLoop :: "nat \<Rightarrow> decl_spec \<Rightarrow> decl_spec parses" where
  "declSpecLoop 0 spec = outOfFuel"
| "declSpecLoop (Suc n) spec = (\<lambda>s.
     if \<not> isTypeStart (kindAt 0 s) then yield spec s
     else
       let tok = peekTok 0 s; s1 = advanceTok s in
       if tok_kind tok = TK_KwConst then declSpecLoop n (spec\<lparr>sp_isConst := True\<rparr>) s1
       else if sp_base spec \<noteq> None then reject (tok_loc tok) ''cannot combine type specifiers'' s1
       else declSpecLoop n (spec\<lparr>sp_base := typeOfKind (tok_kind tok)\<rparr>) s1)"

definition parseDeclSpec :: "nat \<Rightarrow> decl_spec parses" where
  "parseDeclSpec n s =
     andThen (declSpecLoop n \<lparr>sp_base = None, sp_isConst = False, sp_loc = locHere s\<rparr>)
       (\<lambda>spec s1. if sp_base spec = None
          then reject (locHere s1) (''expected a type before '' @ describe (peekTok 0 s1)) s1
          else yield spec s1) s"

section \<open>Declarators\<close>

text \<open>\<open>resolve\<close>: the derivations applied to the base type, or the message of the error.\<close>

fun resolveOps :: "ty \<Rightarrow> (param_decl list \<times> bool) option \<Rightarrow> decl_op list \<Rightarrow>
    string + ty \<times> (param_decl list \<times> bool) option" where
  "resolveOps t f [] = Inr (t, f)"
| "resolveOps t f (PointerOp # ops) = resolveOps (PointerTy t) f ops"
| "resolveOps t f (ArrayOp n # ops) =
     (if isVoid t \<or> isFunction t \<or> (isArray t \<and> array_length t = 0)
      then Inl (''array has invalid element type '' @ quoted_text (str t))
      else resolveOps (ArrayTy t n) f ops)"
| "resolveOps t f (FunctionOp ps v # ops) =
     (if isArray t \<or> isFunction t then Inl (''function cannot return '' @ quoted_text (str t))
      else if ops \<noteq> [] then Inl ''function pointers are not supported yet''
      else resolveOps (FunctionTy t (map pd_type ps) v) (Some (ps, v)) ops)"

definition resolve :: "decl_spec \<Rightarrow> declarator \<Rightarrow> declared parses" where
  "resolve spec decl s =
     (case resolveOps (the (sp_base spec)) None (dc_ops decl) of
        Inl msg \<Rightarrow> reject (dc_loc decl) msg s
      | Inr (t, f) \<Rightarrow>
          yield \<lparr>dd_name = dc_name decl, dd_loc = dc_loc decl, dd_type = t, dd_function = f\<rparr> s)"

text \<open>The stars of a declarator, each with an optional \<open>const\<close>.\<close>

fun starsLoop :: "nat \<Rightarrow> nat \<Rightarrow> nat parses" where
  "starsLoop 0 stars = outOfFuel"
| "starsLoop (Suc n) stars = (\<lambda>s.
     case consume TK_Star s of
       (True, s1) \<Rightarrow> starsLoop n (stars + 1) (snd (consume TK_KwConst s1))
     | (False, s1) \<Rightarrow> yield stars s1)"

definition nestedDeclarator :: "bool \<Rightarrow> parser \<Rightarrow> bool" where
  "nestedDeclarator abstr s \<longleftrightarrow>
     checkTok TK_LParen s \<and> (\<not> abstr \<or> kindAt 1 s = TK_Star \<or> kindAt 1 s = TK_Identifier)"

definition assemble :: "nat \<Rightarrow> string \<times> source_location \<times> decl_op list \<Rightarrow> decl_op list \<Rightarrow> declarator" where
  "assemble stars head suffixes =
     (case head of (name, l, inner) \<Rightarrow>
        \<lparr>dc_name = name, dc_loc = l, dc_ops = replicate stars PointerOp @ rev suffixes @ inner\<rparr>)"

text \<open>The parameter that a resolved declarator declares.\<close>

definition paramOf :: "decl_spec \<Rightarrow> declared \<Rightarrow> param_decl parses" where
  "paramOf spec d s =
     (let t = dd_type d in
      if isFunction t then reject (dd_loc d) ''function parameters are not supported'' s
      else if isVoid t then reject (dd_loc d) (''parameter has type '' @ quoted_text ''void'') s
      else
        let t' = (if isArray t then PointerTy (element t) else t) in
        yield \<lparr>pd_name = dd_name d, pd_type = t', pd_isConst = isConstObject spec t', pd_loc = dd_loc d,
               pd_symbol = 0\<rparr> s)"

definition typeNameOf :: "decl_spec \<Rightarrow> declarator \<Rightarrow> ty parses" where
  "typeNameOf spec decl s =
     (if dc_name decl \<noteq> [] then reject (dc_loc decl) ''unexpected name in type'' s
      else andThen (resolve spec decl)
        (\<lambda>d s1. if isFunction (dd_type d)
           then reject (dc_loc decl) ''function types are not supported here'' s1
           else yield (dd_type d) s1) s)"

definition arrayLengthOf :: "(fp \<Rightarrow> i64) \<Rightarrow> source_location \<Rightarrow> expr \<Rightarrow> u64 parses" where
  "arrayLengthOf ub l len s =
     (case evaluateInteger ub len of
        None \<Rightarrow> reject l ''array size must be an integer constant'' s
      | Some v \<Rightarrow> if v \<le>s 0 then reject l ''array size must be positive'' s else yield v s)"

section \<open>Literals\<close>

fun stringParts :: "nat \<Rightarrow> string \<Rightarrow> string parses" where
  "stringParts 0 bytes = outOfFuel"
| "stringParts (Suc n) bytes = (\<lambda>s.
     if \<not> checkTok TK_StringLiteral s then yield bytes s
     else
       case parseStringLiteral (tok_text (peekTok 0 s)) of
         Inl msg \<Rightarrow> reject (locHere s) msg (advanceTok s)
       | Inr decoded \<Rightarrow> stringParts n (bytes @ decoded) (advanceTok s))"

definition bareExpr :: "expr_node \<Rightarrow> source_location \<Rightarrow> expr" where
  "bareExpr n l = Expr n l None RValue"

definition intLiteral :: "token \<Rightarrow> expr parses" where
  "intLiteral tok s =
     (case parseIntLiteral (tok_text tok) of
        Inl msg \<Rightarrow> reject (tok_loc tok) msg s
      | Inr v \<Rightarrow>
          if 2147483647 < v then reject (tok_loc tok) (''integer literal is too large for type '' @ quoted_text ''int'') s
          else yield (bareExpr (IntLiteral v) (tok_loc tok)) s)"

definition floatLiteral :: "token \<Rightarrow> expr parses" where
  "floatLiteral tok s =
     (case parseFloatLiteral (tok_text tok) of
        Inl msg \<Rightarrow> reject (tok_loc tok) msg s
      | Inr v \<Rightarrow> yield (bareExpr (FloatLiteral v) (tok_loc tok)) s)"

definition charLiteral :: "token \<Rightarrow> expr parses" where
  "charLiteral tok s =
     (case parseCharLiteral (tok_text tok) of
        Inl msg \<Rightarrow> reject (tok_loc tok) msg s
      | Inr c \<Rightarrow> yield (bareExpr (IntLiteral (word_of_int (schar c))) (tok_loc tok)) s)"

fun unaryOperator :: "token_kind \<Rightarrow> unary_op option" where
  "unaryOperator TK_Plus = Some UO_Plus"
| "unaryOperator TK_Minus = Some UO_Minus"
| "unaryOperator TK_Exclaim = Some UO_Not"
| "unaryOperator TK_Star = Some UO_Deref"
| "unaryOperator TK_Amp = Some UO_AddrOf"
| "unaryOperator _ = None"

section \<open>Expressions, types and declarators\<close>

fun parseDeclarator :: "(fp \<Rightarrow> i64) \<Rightarrow> nat \<Rightarrow> bool \<Rightarrow> declarator parses"
and suffixLoop :: "(fp \<Rightarrow> i64) \<Rightarrow> nat \<Rightarrow> decl_op list parses"
and parseArrayLength :: "(fp \<Rightarrow> i64) \<Rightarrow> nat \<Rightarrow> u64 parses"
and parseParams :: "(fp \<Rightarrow> i64) \<Rightarrow> nat \<Rightarrow> (param_decl list \<times> bool) parses"
and paramsLoop :: "(fp \<Rightarrow> i64) \<Rightarrow> nat \<Rightarrow> (param_decl list \<times> bool) parses"
and parseTypeName :: "(fp \<Rightarrow> i64) \<Rightarrow> nat \<Rightarrow> ty parses"
and parseAssignment :: "(fp \<Rightarrow> i64) \<Rightarrow> nat \<Rightarrow> expr parses"
and parseBinary :: "(fp \<Rightarrow> i64) \<Rightarrow> nat \<Rightarrow> nat \<Rightarrow> expr parses"
and binaryLoop :: "(fp \<Rightarrow> i64) \<Rightarrow> nat \<Rightarrow> nat \<Rightarrow> expr \<Rightarrow> expr parses"
and parseUnary :: "(fp \<Rightarrow> i64) \<Rightarrow> nat \<Rightarrow> expr parses"
and parsePostfix :: "(fp \<Rightarrow> i64) \<Rightarrow> nat \<Rightarrow> expr parses"
and postfixLoop :: "(fp \<Rightarrow> i64) \<Rightarrow> nat \<Rightarrow> expr \<Rightarrow> expr parses"
and argsLoop :: "(fp \<Rightarrow> i64) \<Rightarrow> nat \<Rightarrow> expr list parses"
and parsePrimary :: "(fp \<Rightarrow> i64) \<Rightarrow> nat \<Rightarrow> expr parses" where
  "parseDeclarator ub 0 abstr = outOfFuel"
| "parseDeclarator ub (Suc n) abstr = (\<lambda>s0.
     andThen (starsLoop n 0) (\<lambda>stars.
       andThen (\<lambda>s.
           if nestedDeclarator abstr s then
             andThen (parseDeclarator ub n abstr) (\<lambda>inner.
               andThen (expect TK_RParen) (\<lambda>_. yield (dc_name inner, dc_loc inner, dc_ops inner))) (advanceTok s)
           else if checkTok TK_Identifier s then yield (tok_text (peekTok 0 s), locHere s, []) (advanceTok s)
           else if \<not> abstr then
             reject (locHere s) (''expected identifier before '' @ describe (peekTok 0 s)) s
           else yield ([], locHere s0, []) s)
         (\<lambda>head. andThen (suffixLoop ub n) (\<lambda>suffixes. yield (assemble stars head suffixes)))) s0)"
| "suffixLoop ub 0 = outOfFuel"
| "suffixLoop ub (Suc n) = (\<lambda>s.
     if checkTok TK_LSquare s then
       andThen (parseArrayLength ub n) (\<lambda>len.
         andThen (suffixLoop ub n) (\<lambda>rest. yield (ArrayOp len # rest))) (advanceTok s)
     else if checkTok TK_LParen s then
       andThen (parseParams ub n) (\<lambda>(ps, v).
         andThen (suffixLoop ub n) (\<lambda>rest. yield (FunctionOp ps v # rest))) (advanceTok s)
     else yield [] s)"
| "parseArrayLength ub 0 = outOfFuel"
| "parseArrayLength ub (Suc n) = (\<lambda>s.
     if checkTok TK_RSquare s then yield 0 (advanceTok s)
     else andThen (parseAssignment ub n) (\<lambda>len.
       andThen (expect TK_RSquare) (\<lambda>_. arrayLengthOf ub (locHere s) len)) s)"
| "parseParams ub 0 = outOfFuel"
| "parseParams ub (Suc n) = (\<lambda>s.
     if checkTok TK_RParen s then yield ([], False) (advanceTok s)
     else if checkTok TK_KwVoid s \<and> kindAt 1 s = TK_RParen then
       yield ([], False) (advanceTok (advanceTok s))
     else andThen (paramsLoop ub n) (\<lambda>fn. andThen (expect TK_RParen) (\<lambda>_. yield fn)) s)"
| "paramsLoop ub 0 = outOfFuel"
| "paramsLoop ub (Suc n) = (\<lambda>s.
     if checkTok TK_Ellipsis s then yield ([], True) (advanceTok s)
     else andThen (parseDeclSpec n) (\<lambda>spec.
       andThen (parseDeclarator ub n True) (\<lambda>decl.
         andThen (resolve spec decl) (\<lambda>d.
           andThen (paramOf spec d) (\<lambda>p s1.
             if checkTok TK_Comma s1 then
               andThen (paramsLoop ub n) (\<lambda>(ps, v). yield (p # ps, v)) (advanceTok s1)
             else yield ([p], False) s1)))) s)"
| "parseTypeName ub 0 = outOfFuel"
| "parseTypeName ub (Suc n) =
     andThen (parseDeclSpec n) (\<lambda>spec. andThen (parseDeclarator ub n True) (\<lambda>decl. typeNameOf spec decl))"
| "parseAssignment ub 0 = outOfFuel"
| "parseAssignment ub (Suc n) =
     andThen (parseBinary ub n 1) (\<lambda>lhs s.
       if \<not> checkTok TK_Equal s then yield lhs s
       else andThen (parseAssignment ub n)
         (\<lambda>rhs. yield (bareExpr (Assign lhs rhs) (locHere s))) (advanceTok s))"
| "parseBinary ub 0 m = outOfFuel"
| "parseBinary ub (Suc n) m = andThen (parseUnary ub n) (binaryLoop ub n m)"
| "binaryLoop ub 0 m lhs = outOfFuel"
| "binaryLoop ub (Suc n) m lhs = (\<lambda>s.
     case binaryInfo (kindAt 0 s) of
       None \<Rightarrow> yield lhs s
     | Some (prec, op) \<Rightarrow>
         if prec < m then yield lhs s
         else andThen (parseBinary ub n (prec + 1))
           (\<lambda>rhs. binaryLoop ub n m (bareExpr (Binary op lhs rhs) (locHere s))) (advanceTok s))"
| "parseUnary ub 0 = outOfFuel"
| "parseUnary ub (Suc n) = (\<lambda>s.
     case unaryOperator (kindAt 0 s) of
       Some op \<Rightarrow> andThen (parseUnary ub n) (\<lambda>x. yield (bareExpr (Unary op x) (locHere s))) (advanceTok s)
     | None \<Rightarrow>
         if checkTok TK_KwSizeof s then
           (let s1 = advanceTok s in
            if checkTok TK_LParen s1 \<and> isTypeStart (kindAt 1 s1) then
              andThen (parseTypeName ub n) (\<lambda>t.
                andThen (expect TK_RParen) (\<lambda>_. yield (bareExpr (SizeOfType t) (locHere s)))) (advanceTok s1)
            else andThen (parseUnary ub n) (\<lambda>x. yield (bareExpr (SizeOfExpr x) (locHere s))) s1)
         else if checkTok TK_LParen s \<and> isTypeStart (kindAt 1 s) then
           andThen (parseTypeName ub n) (\<lambda>t.
             andThen (expect TK_RParen) (\<lambda>_.
               andThen (parseUnary ub n)
                 (\<lambda>x. yield (Expr (Cast CK_Unresolved False x) (locHere s) (Some t) RValue)))) (advanceTok s)
         else parsePostfix ub n s)"
| "parsePostfix ub 0 = outOfFuel"
| "parsePostfix ub (Suc n) = andThen (parsePrimary ub n) (postfixLoop ub n)"
| "postfixLoop ub 0 e = outOfFuel"
| "postfixLoop ub (Suc n) e = (\<lambda>s.
     if checkTok TK_LParen s then
       andThen (\<lambda>s1. if checkTok TK_RParen s1 then yield [] s1 else argsLoop ub n s1) (\<lambda>args.
         andThen (expect TK_RParen) (\<lambda>_. postfixLoop ub n (bareExpr (Call e args) (expr_loc e)))) (advanceTok s)
     else if checkTok TK_LSquare s then
       andThen (parseAssignment ub n) (\<lambda>i.
         andThen (expect TK_RSquare) (\<lambda>_. postfixLoop ub n (bareExpr (Index e i) (locHere s)))) (advanceTok s)
     else yield e s)"
| "argsLoop ub 0 = outOfFuel"
| "argsLoop ub (Suc n) =
     andThen (parseAssignment ub n) (\<lambda>arg s.
       if checkTok TK_Comma s then andThen (argsLoop ub n) (\<lambda>args. yield (arg # args)) (advanceTok s)
       else yield [arg] s)"
| "parsePrimary ub 0 = outOfFuel"
| "parsePrimary ub (Suc n) = (\<lambda>s.
     let tok = peekTok 0 s in
     case tok_kind tok of
       TK_Identifier \<Rightarrow> yield (bareExpr (DeclRef (tok_text tok) 0) (tok_loc tok)) (advanceTok s)
     | TK_IntLiteral \<Rightarrow> intLiteral tok (advanceTok s)
     | TK_FloatLiteral \<Rightarrow> floatLiteral tok (advanceTok s)
     | TK_CharLiteral \<Rightarrow> charLiteral tok (advanceTok s)
     | TK_StringLiteral \<Rightarrow>
         andThen (stringParts n []) (\<lambda>bytes. yield (bareExpr (StringLiteral bytes) (tok_loc tok))) s
     | TK_LParen \<Rightarrow>
         andThen (parseAssignment ub n) (\<lambda>inner. andThen (expect TK_RParen) (\<lambda>_. yield inner)) (advanceTok s)
     | _ \<Rightarrow> reject (tok_loc tok) (''expected expression before '' @ describe tok) s)"

end
