(* ===== verification/ParserStmt.thy ===== *)
theory ParserStmt
  imports Parser
begin

text \<open>
  \<open>lib/Parse/Parser.cpp\<close>, continued: initializers, statements, external declarations and \<open>parse\<close>.
\<close>

section \<open>Initializers and variables\<close>

fun parseInitializer :: "(fp \<Rightarrow> i64) \<Rightarrow> nat \<Rightarrow> initializer parses"
and itemsLoop :: "(fp \<Rightarrow> i64) \<Rightarrow> nat \<Rightarrow> initializer list parses" where
  "parseInitializer ub 0 = outOfFuel"
| "parseInitializer ub (Suc n) = (\<lambda>s.
     if \<not> checkTok TK_LBrace s then
       andThen (parseAssignment ub n) (\<lambda>e. yield (InitExpr e (locHere s))) s
     else andThen (itemsLoop ub n) (\<lambda>items.
       andThen (expect TK_RBrace) (\<lambda>_. yield (InitList items (locHere s)))) (advanceTok s))"
| "itemsLoop ub 0 = outOfFuel"
| "itemsLoop ub (Suc n) = (\<lambda>s.
     if checkTok TK_RBrace s then yield [] s
     else andThen (parseInitializer ub n) (\<lambda>item s1.
       if checkTok TK_Comma s1 then andThen (itemsLoop ub n) (\<lambda>items. yield (item # items)) (advanceTok s1)
       else yield [item] s1) s)"

definition varOf :: "decl_spec \<Rightarrow> declared \<Rightarrow> initializer option \<Rightarrow> var_decl" where
  "varOf spec d init =
     \<lparr>vd_name = dd_name d, vd_type = dd_type d, vd_isConst = isConstObject spec (dd_type d), vd_init = init,
      vd_loc = dd_loc d, vd_symbol = 0\<rparr>"

definition finishVarDecl :: "(fp \<Rightarrow> i64) \<Rightarrow> nat \<Rightarrow> decl_spec \<Rightarrow> declared \<Rightarrow> var_decl parses" where
  "finishVarDecl ub n spec d s =
     (if isVoid (dd_type d) then
        reject (dd_loc d) (''variable '' @ quoted_text (dd_name d) @ '' has type '' @ quoted_text ''void'') s
      else if checkTok TK_Equal s then
        andThen (parseInitializer ub n) (\<lambda>init. yield (varOf spec d (Some init))) (advanceTok s)
      else yield (varOf spec d None) s)"

section \<open>Statements\<close>

text \<open>The loop of \<open>parseDeclStmt\<close>.\<close>

fun declaratorsLoop :: "(fp \<Rightarrow> i64) \<Rightarrow> nat \<Rightarrow> decl_spec \<Rightarrow> var_decl list parses" where
  "declaratorsLoop ub 0 spec = outOfFuel"
| "declaratorsLoop ub (Suc n) spec =
     andThen (parseDeclarator ub n False) (\<lambda>decl.
       andThen (resolve spec decl) (\<lambda>d s.
         if dd_function d \<noteq> None then reject (dd_loc d) ''functions must be declared at file scope'' s
         else andThen (finishVarDecl ub n spec d) (\<lambda>var s1.
           if checkTok TK_Comma s1 then
             andThen (declaratorsLoop ub n spec) (\<lambda>vars. yield (var # vars)) (advanceTok s1)
           else yield [var] s1) s))"

definition parseDeclStmt :: "(fp \<Rightarrow> i64) \<Rightarrow> nat \<Rightarrow> stmt parses" where
  "parseDeclStmt ub n s =
     andThen (parseDeclSpec n) (\<lambda>spec.
       andThen (declaratorsLoop ub n spec) (\<lambda>vars.
         andThen (expect TK_Semi) (\<lambda>_. yield (Stmt (DeclStmt vars) (locHere s))))) s"

definition parseCondition :: "(fp \<Rightarrow> i64) \<Rightarrow> nat \<Rightarrow> expr parses" where
  "parseCondition ub n =
     andThen (expect TK_LParen) (\<lambda>_.
       andThen (parseAssignment ub n) (\<lambda>cond. andThen (expect TK_RParen) (\<lambda>_. yield cond)))"

text \<open>A jump statement after its keyword, and a return statement after \<open>return\<close>.\<close>

definition jumpStmt :: "stmt_node \<Rightarrow> source_location \<Rightarrow> stmt parses" where
  "jumpStmt n l = andThen (expect TK_Semi) (\<lambda>_. yield (Stmt n l))"

definition returnStmt :: "(fp \<Rightarrow> i64) \<Rightarrow> nat \<Rightarrow> source_location \<Rightarrow> stmt parses" where
  "returnStmt ub n l s =
     (if checkTok TK_Semi s then jumpStmt (ReturnStmt None) l s
      else andThen (parseAssignment ub n) (\<lambda>v. jumpStmt (ReturnStmt (Some v)) l) s)"

definition exprStmt :: "(fp \<Rightarrow> i64) \<Rightarrow> nat \<Rightarrow> source_location \<Rightarrow> stmt parses" where
  "exprStmt ub n l = andThen (parseAssignment ub n) (\<lambda>e. jumpStmt (ExprStmt e) l)"

fun parseCompound :: "(fp \<Rightarrow> i64) \<Rightarrow> nat \<Rightarrow> stmt list parses"
and blockLoop :: "(fp \<Rightarrow> i64) \<Rightarrow> nat \<Rightarrow> stmt list parses"
and parseStatement :: "(fp \<Rightarrow> i64) \<Rightarrow> nat \<Rightarrow> stmt parses" where
  "parseCompound ub 0 = outOfFuel"
| "parseCompound ub (Suc n) =
     andThen (expect TK_LBrace) (\<lambda>_.
       andThen (blockLoop ub n) (\<lambda>body. andThen (expect TK_RBrace) (\<lambda>_. yield body)))"
| "blockLoop ub 0 = outOfFuel"
| "blockLoop ub (Suc n) = (\<lambda>s.
     if checkTok TK_RBrace s \<or> checkTok TK_Eof s then yield [] s
     else case parseStatement ub n s of
       (Some st, s1) \<Rightarrow> andThen (blockLoop ub n) (\<lambda>body. yield (st # body)) s1
     | (None, s1) \<Rightarrow> blockLoop ub n (synchronizeStatement n (ps_pos s) s1))"
| "parseStatement ub 0 = outOfFuel"
| "parseStatement ub (Suc n) = (\<lambda>s.
     let l = locHere s; s1 = advanceTok s in
     case kindAt 0 s of
       TK_LBrace \<Rightarrow> andThen (parseCompound ub n) (\<lambda>body. yield (Stmt (CompoundStmt body) l)) s
     | TK_Semi \<Rightarrow> yield (Stmt NullStmt l) s1
     | TK_KwBreak \<Rightarrow> jumpStmt BreakStmt l s1
     | TK_KwContinue \<Rightarrow> jumpStmt ContinueStmt l s1
     | TK_KwReturn \<Rightarrow> returnStmt ub n l s1
     | TK_KwIf \<Rightarrow>
         andThen (parseCondition ub n) (\<lambda>cond.
           andThen (parseStatement ub n) (\<lambda>yes s2.
             if checkTok TK_KwElse s2 then
               andThen (parseStatement ub n) (\<lambda>no. yield (Stmt (IfStmt cond yes (Some no)) l)) (advanceTok s2)
             else yield (Stmt (IfStmt cond yes None) l) s2)) s1
     | TK_KwWhile \<Rightarrow>
         andThen (parseCondition ub n) (\<lambda>cond.
           andThen (parseStatement ub n) (\<lambda>body. yield (Stmt (WhileStmt cond body) l))) s1
     | k \<Rightarrow> if isTypeStart k then parseDeclStmt ub n s else exprStmt ub n l s)"

section \<open>External declarations\<close>

definition functionOf :: "declared \<Rightarrow> stmt list option \<Rightarrow> top_level_decl" where
  "functionOf d body =
     TopFunction \<lparr>fd_name = dd_name d, fd_type = dd_type d,
       fd_params = (case dd_function d of None \<Rightarrow> [] | Some (ps, v) \<Rightarrow> ps), fd_body = body, fd_loc = dd_loc d,
       fd_symbol = 0\<rparr>"

text \<open>
  \<open>parseExternalDecl\<close> returns whether it succeeded and appends to \<open>out\<close> as it goes: the value is
  the list of declarations with what was appended, kept also on failure.
\<close>

definition declaredOf :: "(fp \<Rightarrow> i64) \<Rightarrow> nat \<Rightarrow> decl_spec \<Rightarrow> declared \<Rightarrow> top_level_decl parses" where
  "declaredOf ub n spec d =
     (if dd_function d \<noteq> None then yield (functionOf d None)
      else andThen (finishVarDecl ub n spec d) (\<lambda>var. yield (TopVar var)))"

fun externalLoop :: "(fp \<Rightarrow> i64) \<Rightarrow> nat \<Rightarrow> decl_spec \<Rightarrow> declared \<Rightarrow> top_level_decl list \<Rightarrow> parser \<Rightarrow>
    (bool \<times> top_level_decl list) \<times> parser" where
  "externalLoop ub 0 spec current out s = ((False, out), exhaust s)"
| "externalLoop ub (Suc n) spec current out s =
     (case declaredOf ub n spec current s of
        (None, s1) \<Rightarrow> ((False, out), s1)
      | (Some d, s1) \<Rightarrow>
          if \<not> checkTok TK_Comma s1 then
            (case expect TK_Semi s1 of (r, s2) \<Rightarrow> ((r \<noteq> None, out @ [d]), s2))
          else
            (case andThen (parseDeclarator ub n False) (resolve spec) (advanceTok s1) of
               (None, s2) \<Rightarrow> ((False, out @ [d]), s2)
             | (Some d2, s2) \<Rightarrow> externalLoop ub n spec d2 (out @ [d]) s2))"

definition parseExternalDecl :: "(fp \<Rightarrow> i64) \<Rightarrow> nat \<Rightarrow> top_level_decl list \<Rightarrow> parser \<Rightarrow>
    (bool \<times> top_level_decl list) \<times> parser" where
  "parseExternalDecl ub n out s =
     (case parseDeclSpec n s of
        (None, s1) \<Rightarrow> ((False, out), s1)
      | (Some spec, s1) \<Rightarrow>
          if checkTok TK_Semi s1 then ((True, out), advanceTok s1)
          else
            (case andThen (parseDeclarator ub n False) (resolve spec) s1 of
               (None, s2) \<Rightarrow> ((False, out), s2)
             | (Some first, s2) \<Rightarrow>
                 if dd_function first \<noteq> None \<and> checkTok TK_LBrace s2 then
                   (case parseCompound ub n s2 of
                      (None, s3) \<Rightarrow> ((False, out), s3)
                    | (Some body, s3) \<Rightarrow> ((True, out @ [functionOf first (Some body)]), s3))
                 else externalLoop ub n spec first out s2))"

section \<open>The run\<close>

fun runParser :: "(fp \<Rightarrow> i64) \<Rightarrow> nat \<Rightarrow> nat \<Rightarrow> top_level_decl list \<Rightarrow> parser \<Rightarrow> top_level_decl list \<times> parser" where
  "runParser ub n 0 out s = (out, exhaust s)"
| "runParser ub n (Suc m) out s =
     (if checkTok TK_Eof s then (out, s)
      else case parseExternalDecl ub n out s of
        ((ok, out'), s1) \<Rightarrow>
          runParser ub n m out' (if ok then s1 else synchronizeTopLevel n (ps_pos s) s1))"

text \<open>\<open>None\<close> is a lack of fuel.\<close>

definition parseWith :: "(fp \<Rightarrow> i64) \<Rightarrow> nat \<Rightarrow> token list \<Rightarrow> translation_unit result option" where
  "parseWith ub n toks =
     (case runParser ub n n [] (newParser toks) of
        (decls, s) \<Rightarrow>
          if ps_exhausted s then None
          else Some (if ps_diags s \<noteq> [] then Inl (ps_diags s) else Inr \<lparr>tu_decls = decls\<rparr>))"

definition enoughFuel :: "token list \<Rightarrow> nat" where
  "enoughFuel toks = 20 * length toks + 20"

definition parse :: "(fp \<Rightarrow> i64) \<Rightarrow> token list \<Rightarrow> translation_unit result" where
  "parse ub toks = the (parseWith ub (enoughFuel toks) toks)"

end
