(* ===== verification/ParseSpec.thy ===== *)
theory ParseSpec
  imports ParserStmt
begin

text \<open>
  The grammar of the user manual with the tree that each phrase stands for, as relations between
  token lists and trees. Binary expressions are stratified by precedence; declarators are read
  from the outside in, each derivation being applied to the type built so far, without the list
  of derivations that the parser collects.
\<close>

section \<open>Declaration specifiers and literals\<close>

definition kindsOf :: "token list \<Rightarrow> token_kind list" where
  "kindsOf ts = map tok_kind ts"

text \<open>Type words in any order with any number of \<open>const\<close>, but one type.\<close>

definition gSpec :: "token list \<Rightarrow> ty \<Rightarrow> bool \<Rightarrow> bool" where
  "gSpec ts t c \<longleftrightarrow>
     (\<forall>k \<in> set (kindsOf ts). isTypeStart k) \<and>
     map typeOfKind (filter (\<lambda>k. k \<noteq> TK_KwConst) (kindsOf ts)) = [Some t] \<and>
     (c \<longleftrightarrow> TK_KwConst \<in> set (kindsOf ts))"

definition gStrings :: "token list \<Rightarrow> string \<Rightarrow> bool" where
  "gStrings ts bytes \<longleftrightarrow>
     (\<forall>t \<in> set ts. tok_kind t = TK_StringLiteral) \<and>
     (\<exists>parts. map (\<lambda>t. parseStringLiteral (tok_text t)) ts = map Inr parts \<and> bytes = concat parts)"

definition constObject :: "bool \<Rightarrow> ty \<Rightarrow> bool" where
  "constObject c t \<longleftrightarrow> c \<and> \<not> isPointer t"

text \<open>A type that can be the element of an array.\<close>

definition elementOk :: "ty \<Rightarrow> bool" where
  "elementOk t \<longleftrightarrow> \<not> isVoid t \<and> \<not> isFunction t \<and> \<not> (isArray t \<and> array_length t = 0)"

definition paramType :: "ty \<Rightarrow> ty" where
  "paramType t = (if isArray t then PointerTy (element t) else t)"

text \<open>
  Where the manual's grammar leaves a choice, the parser makes one: \<open>sizeof (\<close> before a type
  is the size of a type, and a nested declarator that may lack a name starts with a star or a name.
\<close>

definition startsWithType :: "token list \<Rightarrow> bool" where
  "startsWithType ts \<longleftrightarrow> (case ts of lp # t # us \<Rightarrow> tok_kind lp = TK_LParen \<and> isTypeStart (tok_kind t) | _ \<Rightarrow> False)"

definition starOrName :: "token list \<Rightarrow> bool" where
  "starOrName ts \<longleftrightarrow> (case ts of t # us \<Rightarrow> tok_kind t = TK_Star \<or> tok_kind t = TK_Identifier | [] \<Rightarrow> False)"

section \<open>Expressions, declarators and types\<close>

inductive gPrimary :: "(fp \<Rightarrow> i64) \<Rightarrow> token list \<Rightarrow> expr \<Rightarrow> bool"
and gPostfix :: "(fp \<Rightarrow> i64) \<Rightarrow> token list \<Rightarrow> expr \<Rightarrow> bool"
and gArgs :: "(fp \<Rightarrow> i64) \<Rightarrow> token list \<Rightarrow> expr list \<Rightarrow> bool"
and gUnary :: "(fp \<Rightarrow> i64) \<Rightarrow> token list \<Rightarrow> expr \<Rightarrow> bool"
and gBinary :: "(fp \<Rightarrow> i64) \<Rightarrow> nat \<Rightarrow> token list \<Rightarrow> expr \<Rightarrow> bool"
and gAssign :: "(fp \<Rightarrow> i64) \<Rightarrow> token list \<Rightarrow> expr \<Rightarrow> bool"
and gTypeName :: "(fp \<Rightarrow> i64) \<Rightarrow> token list \<Rightarrow> ty \<Rightarrow> bool"
and gDeclarator :: "(fp \<Rightarrow> i64) \<Rightarrow> bool \<Rightarrow> ty \<Rightarrow> (param_decl list \<times> bool) option \<Rightarrow> token list \<Rightarrow> declared \<Rightarrow> bool"
and gDirect :: "(fp \<Rightarrow> i64) \<Rightarrow> bool \<Rightarrow> ty \<Rightarrow> (param_decl list \<times> bool) option \<Rightarrow> token list \<Rightarrow> declared \<Rightarrow> bool"
and gLength :: "(fp \<Rightarrow> i64) \<Rightarrow> token list \<Rightarrow> u64 \<Rightarrow> bool"
and gParams :: "(fp \<Rightarrow> i64) \<Rightarrow> token list \<Rightarrow> param_decl list \<times> bool \<Rightarrow> bool"
and gParamList :: "(fp \<Rightarrow> i64) \<Rightarrow> token list \<Rightarrow> param_decl list \<times> bool \<Rightarrow> bool"
and gParam :: "(fp \<Rightarrow> i64) \<Rightarrow> token list \<Rightarrow> param_decl \<Rightarrow> bool"
for ub :: "fp \<Rightarrow> i64" where
  g_name: "tok_kind t = TK_Identifier \<Longrightarrow> gPrimary ub [t] (bareExpr (DeclRef (tok_text t) 0) (tok_loc t))"
| g_int: "tok_kind t = TK_IntLiteral \<Longrightarrow> parseIntLiteral (tok_text t) = Inr v \<Longrightarrow> v \<le> 2147483647 \<Longrightarrow>
    gPrimary ub [t] (bareExpr (IntLiteral v) (tok_loc t))"
| g_float: "tok_kind t = TK_FloatLiteral \<Longrightarrow> parseFloatLiteral (tok_text t) = Inr x \<Longrightarrow>
    gPrimary ub [t] (bareExpr (FloatLiteral x) (tok_loc t))"
| g_char: "tok_kind t = TK_CharLiteral \<Longrightarrow> parseCharLiteral (tok_text t) = Inr c \<Longrightarrow>
    gPrimary ub [t] (bareExpr (IntLiteral (word_of_int (schar c))) (tok_loc t))"
| g_string: "gStrings (t # ts) bytes \<Longrightarrow> gPrimary ub (t # ts) (bareExpr (StringLiteral bytes) (tok_loc t))"
| g_paren: "kindsOf [lp, rp] = [TK_LParen, TK_RParen] \<Longrightarrow> gAssign ub ts e \<Longrightarrow> gPrimary ub (lp # ts @ [rp]) e"
| g_primary: "gPrimary ub ts e \<Longrightarrow> gPostfix ub ts e"
| g_call: "gPostfix ub ts f \<Longrightarrow> kindsOf [lp, rp] = [TK_LParen, TK_RParen] \<Longrightarrow> gArgs ub us args \<Longrightarrow>
    gPostfix ub (ts @ lp # us @ [rp]) (bareExpr (Call f args) (expr_loc f))"
| g_index: "gPostfix ub ts a \<Longrightarrow> kindsOf [lb, rb] = [TK_LSquare, TK_RSquare] \<Longrightarrow> gAssign ub us i \<Longrightarrow>
    gPostfix ub (ts @ lb # us @ [rb]) (bareExpr (Index a i) (tok_loc lb))"
| g_no_args: "gArgs ub [] []"
| g_last_arg: "gAssign ub ts a \<Longrightarrow> gArgs ub ts [a]"
| g_arg: "gAssign ub ts a \<Longrightarrow> tok_kind co = TK_Comma \<Longrightarrow> us \<noteq> [] \<Longrightarrow> gArgs ub us as \<Longrightarrow> gArgs ub (ts @ co # us) (a # as)"
| g_postfix: "gPostfix ub ts e \<Longrightarrow> gUnary ub ts e"
| g_unary: "unaryOperator (tok_kind o') = Some op \<Longrightarrow> gUnary ub ts e \<Longrightarrow>
    gUnary ub (o' # ts) (bareExpr (Unary op e) (tok_loc o'))"
| g_sizeof: "tok_kind so = TK_KwSizeof \<Longrightarrow> gUnary ub ts e \<Longrightarrow> \<not> startsWithType ts \<Longrightarrow>
    gUnary ub (so # ts) (bareExpr (SizeOfExpr e) (tok_loc so))"
| g_sizeof_type: "kindsOf [so, lp, rp] = [TK_KwSizeof, TK_LParen, TK_RParen] \<Longrightarrow> gTypeName ub ts ty \<Longrightarrow>
    gUnary ub (so # lp # ts @ [rp]) (bareExpr (SizeOfType ty) (tok_loc so))"
| g_cast: "kindsOf [lp, rp] = [TK_LParen, TK_RParen] \<Longrightarrow> gTypeName ub ts ty \<Longrightarrow> gUnary ub us e \<Longrightarrow>
    gUnary ub (lp # ts @ rp # us) (Expr (Cast CK_Unresolved False e) (tok_loc lp) (Some ty) RValue)"
| g_operand: "gUnary ub ts e \<Longrightarrow> gBinary ub p ts e"
| g_binary: "binaryInfo (tok_kind o') = Some (q, op) \<Longrightarrow> p \<le> q \<Longrightarrow> gBinary ub q ts a \<Longrightarrow> gBinary ub (q + 1) us b \<Longrightarrow>
    gBinary ub p (ts @ o' # us) (bareExpr (Binary op a b) (tok_loc o'))"
| g_value: "gBinary ub 1 ts e \<Longrightarrow> gAssign ub ts e"
| g_assign: "gBinary ub 1 ts a \<Longrightarrow> tok_kind eq = TK_Equal \<Longrightarrow> gAssign ub us b \<Longrightarrow>
    gAssign ub (ts @ eq # us) (bareExpr (Assign a b) (tok_loc eq))"
| g_type_name: "gSpec ss base c \<Longrightarrow> gDeclarator ub True base None ts d \<Longrightarrow> dd_name d = [] \<Longrightarrow> \<not> isFunction (dd_type d) \<Longrightarrow>
    gTypeName ub (ss @ ts) (dd_type d)"
| g_star: "tok_kind st = TK_Star \<Longrightarrow> gDeclarator ub ab (PointerTy t) None ts d \<Longrightarrow> gDeclarator ub ab t None (st # ts) d"
| g_const_star: "kindsOf [st, c] = [TK_Star, TK_KwConst] \<Longrightarrow> gDeclarator ub ab (PointerTy t) None ts d \<Longrightarrow>
    gDeclarator ub ab t None (st # c # ts) d"
| g_direct: "gDirect ub ab t f ts d \<Longrightarrow> gDeclarator ub ab t f ts d"
| g_ident: "tok_kind i = TK_Identifier \<Longrightarrow>
    gDirect ub ab t f [i] \<lparr>dd_name = tok_text i, dd_loc = tok_loc i, dd_type = t, dd_function = f\<rparr>"
| g_unnamed: "gDirect ub True t f [] \<lparr>dd_name = [], dd_loc = l, dd_type = t, dd_function = f\<rparr>"
| g_nested: "kindsOf [lp, rp] = [TK_LParen, TK_RParen] \<Longrightarrow> gDeclarator ub ab t f ts d \<Longrightarrow> (ab \<longrightarrow> starOrName ts) \<Longrightarrow>
    gDirect ub ab t f (lp # ts @ [rp]) d"
| g_array: "elementOk t \<Longrightarrow> gDirect ub ab (ArrayTy t n) None ts d \<Longrightarrow> kindsOf [lb, rb] = [TK_LSquare, TK_RSquare] \<Longrightarrow>
    gLength ub us n \<Longrightarrow> gDirect ub ab t None (ts @ lb # us @ [rb]) d"
| g_function: "\<not> isArray t \<Longrightarrow> \<not> isFunction t \<Longrightarrow> gParams ub us (ps, v) \<Longrightarrow>
    gDirect ub ab (FunctionTy t (map pd_type ps) v) (Some (ps, v)) ts d \<Longrightarrow>
    kindsOf [lp, rp] = [TK_LParen, TK_RParen] \<Longrightarrow> gDirect ub ab t None (ts @ lp # us @ [rp]) d"
| g_no_length: "gLength ub [] 0"
| g_length: "gAssign ub ts e \<Longrightarrow> evaluateInteger ub e = Some n \<Longrightarrow> 0 <s n \<Longrightarrow> gLength ub ts n"
| g_no_params: "gParams ub [] ([], False)"
| g_void: "tok_kind v = TK_KwVoid \<Longrightarrow> gParams ub [v] ([], False)"
| g_params: "gParamList ub ts fn \<Longrightarrow> gParams ub ts fn"
| g_ellipsis: "tok_kind t = TK_Ellipsis \<Longrightarrow> gParamList ub [t] ([], True)"
| g_last_param: "gParam ub ts p \<Longrightarrow> gParamList ub ts ([p], False)"
| g_more_params: "gParam ub ts p \<Longrightarrow> tok_kind co = TK_Comma \<Longrightarrow> gParamList ub us (ps, v) \<Longrightarrow>
    gParamList ub (ts @ co # us) (p # ps, v)"
| g_param: "gSpec ss base c \<Longrightarrow> gDeclarator ub True base None ts d \<Longrightarrow> \<not> isFunction (dd_type d) \<Longrightarrow> \<not> isVoid (dd_type d) \<Longrightarrow>
    gParam ub (ss @ ts) \<lparr>pd_name = dd_name d, pd_type = paramType (dd_type d),
      pd_isConst = constObject c (paramType (dd_type d)), pd_loc = dd_loc d, pd_symbol = 0\<rparr>"

section \<open>Initializers and variables\<close>

inductive gInit :: "(fp \<Rightarrow> i64) \<Rightarrow> token list \<Rightarrow> initializer \<Rightarrow> bool"
and gItems :: "(fp \<Rightarrow> i64) \<Rightarrow> token list \<Rightarrow> initializer list \<Rightarrow> bool" for ub where
  g_init_expr: "gAssign ub ts e \<Longrightarrow> gInit ub ts (InitExpr e (tok_loc (hd ts)))"
| g_init_list: "kindsOf [lb, rb] = [TK_LBrace, TK_RBrace] \<Longrightarrow> gItems ub ts is \<Longrightarrow> gInit ub (lb # ts @ [rb]) (InitList is (tok_loc lb))"
| g_no_items: "gItems ub [] []"
| g_last_item: "gInit ub ts i \<Longrightarrow> gItems ub ts [i]"
| g_item: "gInit ub ts i \<Longrightarrow> tok_kind co = TK_Comma \<Longrightarrow> gItems ub us is \<Longrightarrow> gItems ub (ts @ co # us) (i # is)"

text \<open>An init-declarator, for the specifiers' type and whether they contain \<open>const\<close>.\<close>

inductive gVar :: "(fp \<Rightarrow> i64) \<Rightarrow> ty \<Rightarrow> bool \<Rightarrow> token list \<Rightarrow> var_decl \<Rightarrow> bool" for ub base c where
  g_var: "gDeclarator ub False base None ts d \<Longrightarrow> dd_function d = None \<Longrightarrow> \<not> isVoid (dd_type d) \<Longrightarrow>
    gVar ub base c ts \<lparr>vd_name = dd_name d, vd_type = dd_type d, vd_isConst = constObject c (dd_type d), vd_init = None,
      vd_loc = dd_loc d, vd_symbol = 0\<rparr>"
| g_var_init: "gDeclarator ub False base None ts d \<Longrightarrow> dd_function d = None \<Longrightarrow> \<not> isVoid (dd_type d) \<Longrightarrow>
    tok_kind eq = TK_Equal \<Longrightarrow> gInit ub us i \<Longrightarrow>
    gVar ub base c (ts @ eq # us) \<lparr>vd_name = dd_name d, vd_type = dd_type d, vd_isConst = constObject c (dd_type d),
      vd_init = Some i, vd_loc = dd_loc d, vd_symbol = 0\<rparr>"

inductive gVars :: "(fp \<Rightarrow> i64) \<Rightarrow> ty \<Rightarrow> bool \<Rightarrow> token list \<Rightarrow> var_decl list \<Rightarrow> bool" for ub base c where
  g_last_var: "gVar ub base c ts v \<Longrightarrow> gVars ub base c ts [v]"
| g_vars: "gVar ub base c ts v \<Longrightarrow> tok_kind co = TK_Comma \<Longrightarrow> gVars ub base c us vs \<Longrightarrow> gVars ub base c (ts @ co # us) (v # vs)"

section \<open>Statements\<close>

text \<open>A statement that ends with an \<open>if\<close> without \<open>else\<close>: a following \<open>else\<close> would belong to it.\<close>

fun opensElse :: "stmt \<Rightarrow> bool" where
  "opensElse (Stmt (IfStmt c a None) l) = True"
| "opensElse (Stmt (IfStmt c a (Some b)) l) = opensElse b"
| "opensElse (Stmt (WhileStmt c a) l) = opensElse a"
| "opensElse st = False"

inductive gStmt :: "(fp \<Rightarrow> i64) \<Rightarrow> token list \<Rightarrow> stmt \<Rightarrow> bool"
and gBlock :: "(fp \<Rightarrow> i64) \<Rightarrow> token list \<Rightarrow> stmt list \<Rightarrow> bool" for ub where
  g_null: "tok_kind semi = TK_Semi \<Longrightarrow> gStmt ub [semi] (Stmt NullStmt (tok_loc semi))"
| g_expr: "gAssign ub ts e \<Longrightarrow> tok_kind semi = TK_Semi \<Longrightarrow> gStmt ub (ts @ [semi]) (Stmt (ExprStmt e) (tok_loc (hd ts)))"
| g_decl: "gSpec ss base c \<Longrightarrow> gVars ub base c ts vs \<Longrightarrow> tok_kind semi = TK_Semi \<Longrightarrow>
    gStmt ub (ss @ ts @ [semi]) (Stmt (DeclStmt vs) (tok_loc (hd ss)))"
| g_compound: "kindsOf [lb, rb] = [TK_LBrace, TK_RBrace] \<Longrightarrow> gBlock ub ts body \<Longrightarrow>
    gStmt ub (lb # ts @ [rb]) (Stmt (CompoundStmt body) (tok_loc lb))"
| g_if: "kindsOf [kw, lp, rp] = [TK_KwIf, TK_LParen, TK_RParen] \<Longrightarrow> gAssign ub ts c \<Longrightarrow> gStmt ub us a \<Longrightarrow>
    gStmt ub (kw # lp # ts @ rp # us) (Stmt (IfStmt c a None) (tok_loc kw))"
| g_if_else: "kindsOf [kw, lp, rp, el] = [TK_KwIf, TK_LParen, TK_RParen, TK_KwElse] \<Longrightarrow> gAssign ub ts c \<Longrightarrow>
    gStmt ub us a \<Longrightarrow> \<not> opensElse a \<Longrightarrow> gStmt ub vs b \<Longrightarrow>
    gStmt ub (kw # lp # ts @ rp # us @ el # vs) (Stmt (IfStmt c a (Some b)) (tok_loc kw))"
| g_while: "kindsOf [kw, lp, rp] = [TK_KwWhile, TK_LParen, TK_RParen] \<Longrightarrow> gAssign ub ts c \<Longrightarrow> gStmt ub us a \<Longrightarrow>
    gStmt ub (kw # lp # ts @ rp # us) (Stmt (WhileStmt c a) (tok_loc kw))"
| g_break: "kindsOf [kw, semi] = [TK_KwBreak, TK_Semi] \<Longrightarrow> gStmt ub [kw, semi] (Stmt BreakStmt (tok_loc kw))"
| g_continue: "kindsOf [kw, semi] = [TK_KwContinue, TK_Semi] \<Longrightarrow> gStmt ub [kw, semi] (Stmt ContinueStmt (tok_loc kw))"
| g_return: "kindsOf [kw, semi] = [TK_KwReturn, TK_Semi] \<Longrightarrow> gStmt ub [kw, semi] (Stmt (ReturnStmt None) (tok_loc kw))"
| g_return_value: "kindsOf [kw, semi] = [TK_KwReturn, TK_Semi] \<Longrightarrow> gAssign ub ts e \<Longrightarrow>
    gStmt ub (kw # ts @ [semi]) (Stmt (ReturnStmt (Some e)) (tok_loc kw))"
| g_end: "gBlock ub [] []"
| g_stmt: "gStmt ub ts st \<Longrightarrow> gBlock ub us sts \<Longrightarrow> gBlock ub (ts @ us) (st # sts)"

section \<open>Translation units\<close>

definition functionDecl :: "declared \<Rightarrow> stmt list option \<Rightarrow> top_level_decl" where
  "functionDecl d body = TopFunction \<lparr>fd_name = dd_name d, fd_type = dd_type d,
     fd_params = (case dd_function d of None \<Rightarrow> [] | Some (ps, v) \<Rightarrow> ps), fd_body = body, fd_loc = dd_loc d, fd_symbol = 0\<rparr>"

text \<open>One declarator of a declaration at file scope, which can declare a function.\<close>

inductive gTop :: "(fp \<Rightarrow> i64) \<Rightarrow> ty \<Rightarrow> bool \<Rightarrow> token list \<Rightarrow> top_level_decl \<Rightarrow> bool" for ub base c where
  g_top_var: "gVar ub base c ts v \<Longrightarrow> gTop ub base c ts (TopVar v)"
| g_top_function: "gDeclarator ub False base None ts d \<Longrightarrow> dd_function d \<noteq> None \<Longrightarrow> gTop ub base c ts (functionDecl d None)"

inductive gTops :: "(fp \<Rightarrow> i64) \<Rightarrow> ty \<Rightarrow> bool \<Rightarrow> token list \<Rightarrow> top_level_decl list \<Rightarrow> bool" for ub base c where
  g_last_top: "gTop ub base c ts d \<Longrightarrow> gTops ub base c ts [d]"
| g_tops: "gTop ub base c ts d \<Longrightarrow> tok_kind co = TK_Comma \<Longrightarrow> gTops ub base c us ds \<Longrightarrow> gTops ub base c (ts @ co # us) (d # ds)"

inductive gExternal :: "(fp \<Rightarrow> i64) \<Rightarrow> token list \<Rightarrow> top_level_decl list \<Rightarrow> bool" for ub where
  g_nothing: "gSpec ss base c \<Longrightarrow> tok_kind semi = TK_Semi \<Longrightarrow> gExternal ub (ss @ [semi]) []"
| g_definition: "gSpec ss base c \<Longrightarrow> gDeclarator ub False base None ts d \<Longrightarrow> dd_function d \<noteq> None \<Longrightarrow>
    kindsOf [lb, rb] = [TK_LBrace, TK_RBrace] \<Longrightarrow> gBlock ub us body \<Longrightarrow>
    gExternal ub (ss @ ts @ lb # us @ [rb]) [functionDecl d (Some body)]"
| g_declaration: "gSpec ss base c \<Longrightarrow> gTops ub base c ts ds \<Longrightarrow> tok_kind semi = TK_Semi \<Longrightarrow> gExternal ub (ss @ ts @ [semi]) ds"

inductive gUnit :: "(fp \<Rightarrow> i64) \<Rightarrow> token list \<Rightarrow> top_level_decl list \<Rightarrow> bool" for ub where
  g_empty: "gUnit ub [] []"
| g_unit: "gExternal ub ts ds \<Longrightarrow> gUnit ub us es \<Longrightarrow> gUnit ub (ts @ us) (ds @ es)"

section \<open>First consequences\<close>

lemma gSpec_nonempty: "gSpec ts t c \<Longrightarrow> ts \<noteq> []"
  by (auto simp: gSpec_def kindsOf_def)

lemma gStrings_nonempty: "gPrimary ub ts e \<Longrightarrow> ts \<noteq> []"
  by (auto elim: gPrimary.cases)

lemma expr_nonempty:
  "gPrimary ub ts e \<Longrightarrow> ts \<noteq> []" "gPostfix ub ts e \<Longrightarrow> ts \<noteq> []" "gUnary ub ts e \<Longrightarrow> ts \<noteq> []"
  "gBinary ub p ts e \<Longrightarrow> ts \<noteq> []" "gAssign ub ts e \<Longrightarrow> ts \<noteq> []"
proof -
  show *: "gPrimary ub ts e \<Longrightarrow> ts \<noteq> []" for ts e by (auto elim: gPrimary.cases)
  show post: "gPostfix ub ts e \<Longrightarrow> ts \<noteq> []" for ts e by (auto elim: gPostfix.cases dest: *)
  show un: "gUnary ub ts e \<Longrightarrow> ts \<noteq> []" for ts e by (auto elim: gUnary.cases dest: post)
  show bin: "gBinary ub p ts e \<Longrightarrow> ts \<noteq> []" for p ts e by (auto elim: gBinary.cases dest: un)
  show "gAssign ub ts e \<Longrightarrow> ts \<noteq> []" for ts e by (auto elim: gAssign.cases dest: bin)
qed

lemma gInit_nonempty: "gInit ub ts i \<Longrightarrow> ts \<noteq> []"
  by (auto elim: gInit.cases dest: expr_nonempty)

lemma gBinary_mono: "gBinary ub q ts e \<Longrightarrow> p \<le> q \<Longrightarrow> gBinary ub p ts e"
  by (erule gBinary.cases) (auto intro: g_operand g_binary)


end
