(* ===== verification/ParseRun.thy ===== *)
theory ParseRun
  imports ParseSpec
begin

text \<open>
  A small calculus for the parser: what a parser function consumed, reported and returned, with a
  rule for each way in which the functions are composed. The rules carry the two obligations of
  every function at once: with the fuel it has it does not run out, and what it returns derives
  from what it consumed.
\<close>

section \<open>Token streams\<close>

text \<open>What \<open>lex\<close> returns: a list with one end-of-file token, the last.\<close>

definition stream :: "token list \<Rightarrow> bool" where
  "stream toks \<longleftrightarrow> toks \<noteq> [] \<and> tok_kind (last toks) = TK_Eof \<and> TK_Eof \<notin> set (kindsOf (butlast toks))"

definition good :: "parser \<Rightarrow> bool" where
  "good s \<longleftrightarrow> stream (ps_toks s) \<and> ps_pos s < length (ps_toks s)"

definition rest :: "parser \<Rightarrow> token list" where
  "rest s = drop (ps_pos s) (ps_toks s)"

lemma rest_hd: "good s \<Longrightarrow> rest s \<noteq> [] \<and> peekTok 0 s = hd (rest s)"
  by (auto simp: good_def rest_def peekTok_def hd_drop_conv_nth min_def)

lemma rest_cons: "good s \<Longrightarrow> rest s = peekTok 0 s # tl (rest s)"
  using rest_hd [of s] by (cases "rest s") auto

lemma eof_iff:
  assumes "good s"
  shows "kindAt 0 s = TK_Eof \<longleftrightarrow> tl (rest s) = []"
proof -
  obtain pre where toks: "ps_toks s = pre @ rest s" and pos: "length pre = ps_pos s"
    using assms by (auto simp: good_def rest_def intro: that [of "take (ps_pos s) (ps_toks s)"])
  have e: "tok_kind (last (rest s)) = TK_Eof" "TK_Eof \<notin> set (kindsOf (butlast (rest s)))"
    using assms rest_hd [OF assms] by (auto simp: good_def stream_def toks butlast_append kindsOf_def)
  show ?thesis
  proof (cases "tl (rest s)")
    case Nil
    thus ?thesis using e(1) rest_cons [OF assms] by (metis last.simps)
  next
    case (Cons t r)
    hence "butlast (rest s) = peekTok 0 s # butlast (t # r)" using rest_cons [OF assms] by (metis butlast.simps(2) list.distinct(1))
    thus ?thesis using e(2) Cons by (auto simp: kindsOf_def)
  qed
qed

lemma advance_facts:
  assumes "good s" "kindAt 0 s \<noteq> TK_Eof"
  shows "good (advanceTok s)" "rest s = peekTok 0 s # rest (advanceTok s)" "ps_toks (advanceTok s) = ps_toks s"
    "ps_diags (advanceTok s) = ps_diags s" "ps_exhausted (advanceTok s) = ps_exhausted s"
    "peekTok 1 s = peekTok 0 (advanceTok s)"
proof -
  have a: "advanceTok s = s\<lparr>ps_pos := ps_pos s + 1\<rparr>" using assms by (simp add: advanceTok_def)
  have t: "tl (rest s) \<noteq> []" using eof_iff assms by blast
  hence len: "ps_pos s + 1 < length (ps_toks s)"
    using assms by (auto simp: good_def rest_def tl_drop)
  show "good (advanceTok s)" using assms len by (simp add: a good_def)
  have "tl (rest s) = rest (advanceTok s)" by (simp add: a rest_def drop_Suc tl_drop)
  thus "rest s = peekTok 0 s # rest (advanceTok s)" using rest_cons [OF assms(1)] by simp
  show "ps_toks (advanceTok s) = ps_toks s" "ps_diags (advanceTok s) = ps_diags s"
    "ps_exhausted (advanceTok s) = ps_exhausted s" by (simp_all add: a)
  show "peekTok 1 s = peekTok 0 (advanceTok s)" using len by (simp add: a peekTok_def min_def)
qed

section \<open>Results\<close>

text \<open>
  The result of a parser function started in \<open>s\<close>: it consumed some tokens; without a value it
  reported something, and with one it reported nothing and the value is right for what was
  consumed and what comes next.
\<close>

definition ran :: "parser \<Rightarrow> 'a option \<times> parser \<Rightarrow> (token list \<Rightarrow> parser \<Rightarrow> 'a \<Rightarrow> bool) \<Rightarrow> bool" where
  "ran s res G \<longleftrightarrow>
     (case res of (r, s') \<Rightarrow>
        good s' \<and> ps_toks s' = ps_toks s \<and> ps_exhausted s' = ps_exhausted s \<and>
        (\<exists>ts. rest s = ts @ rest s' \<and>
           (case r of
              None \<Rightarrow> \<exists>ds. ds \<noteq> [] \<and> ps_diags s' = ps_diags s @ ds
            | Some a \<Rightarrow> ps_diags s' = ps_diags s \<and> G ts s' a)))"

lemma ran_yield: "good s \<Longrightarrow> G [] s a \<Longrightarrow> ran s (yield a s) G"
  by (simp add: ran_def yield_def)

lemma p_error_simps [simp]:
  "ps_toks (p_error l m s) = ps_toks s" "ps_pos (p_error l m s) = ps_pos s"
  "ps_exhausted (p_error l m s) = ps_exhausted s" "ps_diags (p_error l m s) = ps_diags s @ [makeError l m]"
  "good (p_error l m s) = good s" "rest (p_error l m s) = rest s" "peekTok k (p_error l m s) = peekTok k s"
  by (simp_all add: p_error_def good_def rest_def peekTok_def)

lemma ran_reject: "good s \<Longrightarrow> ran s (reject l m s) G"
  by (simp add: ran_def reject_def)

lemma ran_mono: "ran s res G \<Longrightarrow> (\<And>ts s' a. good s' \<Longrightarrow> rest s = ts @ rest s' \<Longrightarrow> G ts s' a \<Longrightarrow> H ts s' a) \<Longrightarrow> ran s res H"
  by (fastforce simp: ran_def split: prod.splits option.splits)

lemma ran_advance:
  assumes "good s" "kindAt 0 s \<noteq> TK_Eof" "ran (advanceTok s) res (\<lambda>us. G (peekTok 0 s # us))"
  shows "ran s res G"
  using assms advance_facts [OF assms(1,2)]
  by (fastforce simp: ran_def split: prod.splits option.splits)

lemma ran_andThen:
  assumes p: "ran s (p s) G"
    and f: "\<And>a s' ts. good s' \<Longrightarrow> rest s = ts @ rest s' \<Longrightarrow> G ts s' a \<Longrightarrow> ran s' (f a s') (\<lambda>us. H (ts @ us))"
  shows "ran s (andThen p f s) H"
proof (cases "p s")
  case (Pair r s')
  show ?thesis
  proof (cases r)
    case None
    thus ?thesis using p Pair by (auto simp: ran_def andThen_def)
  next
    case (Some a)
    obtain ts where s': "good s'" "ps_toks s' = ps_toks s" "ps_exhausted s' = ps_exhausted s" "rest s = ts @ rest s'"
        "ps_diags s' = ps_diags s" "G ts s' a"
      using p Pair Some by (auto simp: ran_def)
    have "ran s' (f a s') (\<lambda>us. H (ts @ us))" by (rule f [OF s'(1,4,6)])
    thus ?thesis using Pair Some s' by (fastforce simp: ran_def andThen_def split: prod.splits option.splits)
  qed
qed

lemma ran_expect:
  assumes "good s" "k \<noteq> TK_Eof"
  shows "ran s (expect k s) (\<lambda>ts s' u. \<exists>t. ts = [t] \<and> tok_kind t = k)"
proof (cases "checkTok k s")
  case True
  hence "kindAt 0 s \<noteq> TK_Eof" using assms by (simp add: checkTok_def)
  thus ?thesis using True advance_facts [OF assms(1)] by (auto simp: ran_def expect_def consume_def checkTok_def)
next
  case False
  thus ?thesis using assms by (auto simp: ran_def expect_def consume_def)
qed

text \<open>The two together: a parser and then a closing token.\<close>

lemma ran_then_expect:
  assumes p: "ran s (p s) G" and k: "k \<noteq> TK_Eof"
    and f: "\<And>a s' ts t. good s' \<Longrightarrow> rest s = (ts @ [t]) @ rest s' \<Longrightarrow> tok_kind t = k \<Longrightarrow> (\<exists>s1. G ts s1 a) \<Longrightarrow>
      ran s' (f a s') (\<lambda>us. H (ts @ t # us))"
  shows "ran s (andThen p (\<lambda>a. andThen (expect k) (\<lambda>_. f a)) s) H"
proof (rule ran_andThen, rule p)
  fix a s' ts
  assume s': "good s'" "rest s = ts @ rest s'" "G ts s' a"
  show "ran s' (andThen (expect k) (\<lambda>_. f a) s') (\<lambda>us. H (ts @ us))"
  proof (rule ran_andThen, rule ran_expect [OF s'(1) k])
    fix u :: unit and s'' us
    assume s'': "good s''" "rest s' = us @ rest s''" "\<exists>t. us = [t] \<and> tok_kind t = k"
    then obtain t where "us = [t]" "tok_kind t = k" by blast
    thus "ran s'' (f a s'') (\<lambda>vs. H (ts @ us @ vs))"
      using f [of s'' ts t a] s' s'' by auto
  qed
qed

text \<open>Fuel is measured against the tokens left.\<close>

definition fuelFor :: "nat \<Rightarrow> nat \<Rightarrow> parser \<Rightarrow> bool" where
  "fuelFor lvl n s \<longleftrightarrow> 10 * length (rest s) + lvl \<le> n"

lemma fuelFor_call: "fuelFor lvl (Suc n) s \<Longrightarrow> lvl' < lvl \<Longrightarrow> fuelFor lvl' n s"
  by (simp add: fuelFor_def)

lemma fuelFor_consumed:
  "fuelFor lvl (Suc n) s \<Longrightarrow> rest s = ts @ rest s' \<Longrightarrow> ts \<noteq> [] \<Longrightarrow> lvl' \<le> 9 + lvl \<Longrightarrow> fuelFor lvl' n s'"
  by (cases ts) (auto simp: fuelFor_def)

lemma fuelFor_advance:
  "fuelFor lvl (Suc n) s \<Longrightarrow> good s \<Longrightarrow> kindAt 0 s \<noteq> TK_Eof \<Longrightarrow> lvl' \<le> 9 + lvl \<Longrightarrow> fuelFor lvl' n (advanceTok s)"
  using fuelFor_consumed [of lvl n s "[peekTok 0 s]" "advanceTok s" lvl'] advance_facts(2) [of s] by simp

lemma fuelFor_split:
  "fuelFor lvl n s \<Longrightarrow> rest s = ts @ rest s' \<Longrightarrow> fuelFor lvl n s'"
  by (auto simp: fuelFor_def)

section \<open>The loops without recursion into expressions\<close>

lemma isTypeStart_not_Eof: "isTypeStart k \<Longrightarrow> k \<noteq> TK_Eof"
  by (auto simp: isTypeStart_def)

lemma typeOfKind_type: "isTypeStart k \<Longrightarrow> k \<noteq> TK_KwConst \<Longrightarrow> \<exists>t. typeOfKind k = Some t"
  by (auto simp: isTypeStart_def)

definition specOf :: "token list \<Rightarrow> decl_spec \<Rightarrow> decl_spec \<Rightarrow> bool" where
  "specOf ts spec spec' \<longleftrightarrow>
     (\<forall>k \<in> set (kindsOf ts). isTypeStart k) \<and>
     (sp_isConst spec' \<longleftrightarrow> sp_isConst spec \<or> TK_KwConst \<in> set (kindsOf ts)) \<and>
     map typeOfKind (filter (\<lambda>k. k \<noteq> TK_KwConst) (kindsOf ts)) =
       (if sp_base spec' = sp_base spec then [] else [sp_base spec']) \<and>
     (sp_base spec' \<noteq> sp_base spec \<longrightarrow> sp_base spec = None)"

lemma declSpecLoop_ran:
  "good s \<Longrightarrow> length (rest s) < n \<Longrightarrow> ran s (declSpecLoop n spec s) (\<lambda>ts s' spec'. specOf ts spec spec')"
proof (induction n arbitrary: s spec)
  case (Suc n)
  show ?case
  proof (cases "isTypeStart (kindAt 0 s)")
    case False
    thus ?thesis using Suc.prems by (auto simp: specOf_def kindsOf_def intro: ran_yield)
  next
    case True
    hence k: "kindAt 0 s \<noteq> TK_Eof" by (rule isTypeStart_not_Eof)
    note adv = advance_facts [OF Suc.prems(1) k]
    have len: "length (rest (advanceTok s)) < n" using Suc.prems(2) adv(2) by simp
    show ?thesis
    proof (rule ran_advance [OF Suc.prems(1) k])
      show "ran (advanceTok s) (declSpecLoop (Suc n) spec s) (\<lambda>us s'. specOf (peekTok 0 s # us) spec)"
      proof (cases "kindAt 0 s = TK_KwConst")
        case c: True
        show ?thesis using True c
          by (auto simp: Let_def intro!: ran_mono [OF Suc.IH [OF adv(1) len]]) (auto simp: specOf_def kindsOf_def)
      next
        case nc: False
        then obtain t where t: "typeOfKind (kindAt 0 s) = Some t" using typeOfKind_type [OF True] by blast
        show ?thesis
        proof (cases "sp_base spec")
          case None
          show ?thesis using True nc None
            by (auto simp: Let_def intro!: ran_mono [OF Suc.IH [OF adv(1) len]])
              (auto simp: specOf_def kindsOf_def t None split: if_splits)
        next
          case (Some b)
          thus ?thesis using True nc adv(1) by (simp add: Let_def ran_reject)
        qed
      qed
    qed
  qed
qed simp

lemma parseDeclSpec_ran:
  assumes "good s" "length (rest s) < n"
  shows "ran s (parseDeclSpec n s) (\<lambda>ts s' spec. gSpec ts (the (sp_base spec)) (sp_isConst spec) \<and> sp_base spec \<noteq> None)"
  unfolding parseDeclSpec_def
proof (rule ran_andThen, rule declSpecLoop_ran [OF assms])
  fix spec s' ts
  assume s': "good s'" and sp: "specOf ts \<lparr>sp_base = None, sp_isConst = False, sp_loc = locHere s\<rparr> spec"
  show "ran s' (if sp_base spec = None then reject (locHere s') (''expected a type before '' @ describe (peekTok 0 s')) s'
       else yield spec s')
     (\<lambda>us s' spec. gSpec (ts @ us) (the (sp_base spec)) (sp_isConst spec) \<and> sp_base spec \<noteq> None)"
    using s' sp by (auto simp: specOf_def gSpec_def intro: ran_reject ran_yield)
qed

lemma starsLoop_ran:
  "good s \<Longrightarrow> length (rest s) < n \<Longrightarrow>
     ran s (starsLoop n k s) (\<lambda>ts s' k'. k \<le> k' \<and>
       (\<forall>ub ab t us d. gDeclarator ub ab ((PointerTy ^^ (k' - k)) t) None us d \<longrightarrow> gDeclarator ub ab t None (ts @ us) d) \<and>
       (k' = k \<longrightarrow> ts = []))"
proof (induction n arbitrary: s k)
  case (Suc n)
  show ?case
  proof (cases "checkTok TK_Star s")
    case False
    thus ?thesis using Suc.prems by (auto simp: consume_def intro: ran_yield)
  next
    case True
    hence k: "kindAt 0 s \<noteq> TK_Eof" by (simp add: checkTok_def)
    note adv = advance_facts [OF Suc.prems(1) k]
    define s1 where "s1 = advanceTok s"
    have s1: "good s1" "length (rest s1) < n" using adv Suc.prems(2) by (auto simp: s1_def)
    have step: "(PointerTy ^^ (k' - k)) t = (PointerTy ^^ (k' - (k + 1))) (PointerTy t)" if "k + 1 \<le> k'" for k' t
    proof -
      have "k' - k = Suc (k' - (k + 1))" using that by simp
      thus ?thesis by (simp add: funpow_swap1)
    qed
    show ?thesis
    proof (rule ran_advance [OF Suc.prems(1) k], cases "checkTok TK_KwConst s1")
      case c: True
      hence k1: "kindAt 0 s1 \<noteq> TK_Eof" by (simp add: checkTok_def)
      note adv1 = advance_facts [OF s1(1) k1]
      have len: "length (rest (advanceTok s1)) < n" using s1(2) adv1(2) by simp
      have "ran s1 (starsLoop n (k + 1) (advanceTok s1))
          (\<lambda>ts s' k'. k \<le> k' \<and>
             (\<forall>ub ab t us d. gDeclarator ub ab ((PointerTy ^^ (k' - k)) t) None us d \<longrightarrow>
                gDeclarator ub ab t None ((peekTok 0 s # ts) @ us) d) \<and> (k' = k \<longrightarrow> peekTok 0 s # ts = []))"
        by (rule ran_advance [OF s1(1) k1], rule ran_mono [OF Suc.IH [OF adv1(1) len]])
          (use True c step in \<open>auto simp: checkTok_def kindsOf_def intro!: g_const_star\<close>)
      thus "ran (advanceTok s) (starsLoop (Suc n) k s) (\<lambda>us s' k'. k \<le> k' \<and>
          (\<forall>ub ab t us' d. gDeclarator ub ab ((PointerTy ^^ (k' - k)) t) None us' d \<longrightarrow>
             gDeclarator ub ab t None ((peekTok 0 s # us) @ us') d) \<and> (k' = k \<longrightarrow> peekTok 0 s # us = []))"
        using True c by (simp add: consume_def s1_def [symmetric])
    next
      case c: False
      have "ran s1 (starsLoop n (k + 1) s1)
          (\<lambda>ts s' k'. k \<le> k' \<and>
             (\<forall>ub ab t us d. gDeclarator ub ab ((PointerTy ^^ (k' - k)) t) None us d \<longrightarrow>
                gDeclarator ub ab t None ((peekTok 0 s # ts) @ us) d) \<and> (k' = k \<longrightarrow> peekTok 0 s # ts = []))"
        by (rule ran_mono [OF Suc.IH [OF s1]]) (use True step in \<open>auto simp: checkTok_def intro!: g_star\<close>)
      thus "ran (advanceTok s) (starsLoop (Suc n) k s) (\<lambda>us s' k'. k \<le> k' \<and>
          (\<forall>ub ab t us' d. gDeclarator ub ab ((PointerTy ^^ (k' - k)) t) None us' d \<longrightarrow>
             gDeclarator ub ab t None ((peekTok 0 s # us) @ us') d) \<and> (k' = k \<longrightarrow> peekTok 0 s # us = []))"
        using True c by (simp add: consume_def s1_def [symmetric])
    qed
  qed
qed simp

lemma stringParts_ran:
  "good s \<Longrightarrow> length (rest s) < n \<Longrightarrow>
     ran s (stringParts n bytes s) (\<lambda>ts s' b. \<exists>bs. gStrings ts bs \<and> b = bytes @ bs \<and> (checkTok TK_StringLiteral s \<longrightarrow> ts \<noteq> []))"
proof (induction n arbitrary: s bytes)
  case (Suc n)
  show ?case
  proof (cases "checkTok TK_StringLiteral s")
    case False
    thus ?thesis using Suc.prems by (auto simp: gStrings_def intro: ran_yield)
  next
    case True
    hence k: "kindAt 0 s \<noteq> TK_Eof" by (simp add: checkTok_def)
    note adv = advance_facts [OF Suc.prems(1) k]
    have len: "length (rest (advanceTok s)) < n" using Suc.prems(2) adv(2) by simp
    show ?thesis
    proof (rule ran_advance [OF Suc.prems(1) k], cases "parseStringLiteral (tok_text (peekTok 0 s))")
      case (Inl msg)
      thus "ran (advanceTok s) (stringParts (Suc n) bytes s)
          (\<lambda>us s' b. \<exists>bs. gStrings (peekTok 0 s # us) bs \<and> b = bytes @ bs \<and> (checkTok TK_StringLiteral s \<longrightarrow> peekTok 0 s # us \<noteq> []))"
        using True adv(1) by (simp add: ran_reject)
    next
      case (Inr d)
      have "ran (advanceTok s) (stringParts n (bytes @ d) (advanceTok s))
          (\<lambda>us s' b. \<exists>bs. gStrings (peekTok 0 s # us) bs \<and> b = bytes @ bs \<and> (checkTok TK_StringLiteral s \<longrightarrow> peekTok 0 s # us \<noteq> []))"
      proof (rule ran_mono [OF Suc.IH [OF adv(1) len]], elim exE conjE)
        fix ts s' b bs
        assume g: "gStrings ts bs" and b: "b = (bytes @ d) @ bs"
        obtain parts where "map (\<lambda>t. parseStringLiteral (tok_text t)) ts = map Inr parts" "bs = concat parts"
          using g by (auto simp: gStrings_def)
        hence "gStrings (peekTok 0 s # ts) (d @ bs)"
          using g True Inr by (auto simp: gStrings_def checkTok_def intro!: exI [of _ "d # parts"])
        thus "\<exists>bs. gStrings (peekTok 0 s # ts) bs \<and> b = bytes @ bs \<and> (checkTok TK_StringLiteral s \<longrightarrow> peekTok 0 s # ts \<noteq> [])"
          using b by auto
      qed
      thus "ran (advanceTok s) (stringParts (Suc n) bytes s)
          (\<lambda>us s' b. \<exists>bs. gStrings (peekTok 0 s # us) bs \<and> b = bytes @ bs \<and> (checkTok TK_StringLiteral s \<longrightarrow> peekTok 0 s # us \<noteq> []))"
        using True Inr by simp
    qed
  qed
qed simp

end
