(* ===== verification/ParseExpr.thy ===== *)
theory ParseExpr
  imports ParseRun
begin

text \<open>
  The mutually recursive functions of the parser derive what they consume, and the fuel of a call
  suffices when it is ten times the tokens left plus the function's level; a call that consumes
  nothing goes to a lower level.
\<close>

section \<open>The claims\<close>

text \<open>The operators that can follow an expression of precedence \<open>m\<close> bind less tightly.\<close>

definition stopsAt :: "nat \<Rightarrow> parser \<Rightarrow> bool" where
  "stopsAt m s \<longleftrightarrow> (\<forall>q op. binaryInfo (kindAt 0 s) = Some (q, op) \<longrightarrow> q < m)"

text \<open>
  What a list of derivations means for the tokens it came from: whatever type it is applied to,
  the tokens declare the result. After a function type nothing can follow.
\<close>

definition derives :: "(ty \<Rightarrow> (param_decl list \<times> bool) option \<Rightarrow> token list \<Rightarrow> declared \<Rightarrow> bool) \<Rightarrow>
    token list \<Rightarrow> string \<Rightarrow> source_location \<Rightarrow> decl_op list \<Rightarrow> bool" where
  "derives g ts name l ops \<longleftrightarrow>
     (\<forall>t f u h. resolveOps t f ops = Inr (u, h) \<longrightarrow> f = None \<or> ops = [] \<longrightarrow>
        g t f ts \<lparr>dd_name = name, dd_loc = l, dd_type = u, dd_function = h\<rparr>)"

definition declaratorG :: "(fp \<Rightarrow> i64) \<Rightarrow> bool \<Rightarrow> token list \<Rightarrow> parser \<Rightarrow> declarator \<Rightarrow> bool" where
  "declaratorG ub ab ts s d \<longleftrightarrow> derives (gDeclarator ub ab) ts (dc_name d) (dc_loc d) (dc_ops d)"

definition suffixG :: "(fp \<Rightarrow> i64) \<Rightarrow> token list \<Rightarrow> parser \<Rightarrow> decl_op list \<Rightarrow> bool" where
  "suffixG ub ts s ops \<longleftrightarrow>
     (\<forall>ab hs name l inner. derives (gDirect ub ab) hs name l inner \<longrightarrow> derives (gDirect ub ab) (hs @ ts) name l (rev ops @ inner))"

definition closedG :: "token_kind \<Rightarrow> (token list \<Rightarrow> 'a \<Rightarrow> bool) \<Rightarrow> token list \<Rightarrow> parser \<Rightarrow> 'a \<Rightarrow> bool" where
  "closedG k g ts s a \<longleftrightarrow> (\<exists>us t. ts = us @ [t] \<and> tok_kind t = k \<and> g us a)"

definition binaryG :: "(fp \<Rightarrow> i64) \<Rightarrow> nat \<Rightarrow> token list \<Rightarrow> parser \<Rightarrow> expr \<Rightarrow> bool" where
  "binaryG ub m ts s e \<longleftrightarrow> gBinary ub m ts e \<and> stopsAt m s"

definition binaryLoopG :: "(fp \<Rightarrow> i64) \<Rightarrow> nat \<Rightarrow> parser \<Rightarrow> expr \<Rightarrow> token list \<Rightarrow> parser \<Rightarrow> expr \<Rightarrow> bool" where
  "binaryLoopG ub m s0 lhs ts s e \<longleftrightarrow>
     (\<forall>us k. gBinary ub k us lhs \<longrightarrow> m \<le> k \<longrightarrow> stopsAt (k + 1) s0 \<longrightarrow> binaryG ub m (us @ ts) s e)"

definition postfixLoopG :: "(fp \<Rightarrow> i64) \<Rightarrow> expr \<Rightarrow> token list \<Rightarrow> parser \<Rightarrow> expr \<Rightarrow> bool" where
  "postfixLoopG ub e ts s e' \<longleftrightarrow> (\<forall>us. gPostfix ub us e \<longrightarrow> gPostfix ub (us @ ts) e')"

definition only :: "(token list \<Rightarrow> 'a \<Rightarrow> bool) \<Rightarrow> token list \<Rightarrow> parser \<Rightarrow> 'a \<Rightarrow> bool" where
  "only g ts s a \<longleftrightarrow> g ts a"

text \<open>A parser function of some level is right with fuel \<open>n\<close>.\<close>

definition right :: "nat \<Rightarrow> nat \<Rightarrow> 'a parses \<Rightarrow> (parser \<Rightarrow> token list \<Rightarrow> parser \<Rightarrow> 'a \<Rightarrow> bool) \<Rightarrow> bool" where
  "right lvl n p G \<longleftrightarrow> (\<forall>s. good s \<longrightarrow> fuelFor lvl n s \<longrightarrow> ran s (p s) (G s))"

definition allRight :: "(fp \<Rightarrow> i64) \<Rightarrow> nat \<Rightarrow> bool" where
  "allRight ub n \<longleftrightarrow>
     (\<forall>ab. right 2 n (parseDeclarator ub n ab) (\<lambda>s. declaratorG ub ab)) \<and>
     right 1 n (suffixLoop ub n) (\<lambda>s. suffixG ub) \<and>
     right 6 n (parseArrayLength ub n) (\<lambda>s. closedG TK_RSquare (gLength ub)) \<and>
     right 3 n (parseParams ub n) (\<lambda>s. closedG TK_RParen (gParams ub)) \<and>
     right 2 n (paramsLoop ub n) (\<lambda>s. only (gParamList ub)) \<and>
     right 2 n (parseTypeName ub n) (\<lambda>s. only (gTypeName ub)) \<and>
     right 5 n (parseAssignment ub n) (\<lambda>s. only (gAssign ub)) \<and>
     (\<forall>m. right 4 n (parseBinary ub n m) (\<lambda>s. binaryG ub m)) \<and>
     (\<forall>m e. right 1 n (binaryLoop ub n m e) (\<lambda>s. binaryLoopG ub m s e)) \<and>
     right 3 n (parseUnary ub n) (\<lambda>s. only (gUnary ub)) \<and>
     right 2 n (parsePostfix ub n) (\<lambda>s. only (gPostfix ub)) \<and>
     (\<forall>e. right 1 n (postfixLoop ub n e) (\<lambda>s. postfixLoopG ub e)) \<and>
     right 6 n (argsLoop ub n) (\<lambda>s. only (\<lambda>ts as. gArgs ub ts as \<and> ts \<noteq> [])) \<and>
     right 1 n (parsePrimary ub n) (\<lambda>s. only (gPrimary ub))"

lemma allRightD:
  assumes "allRight ub n"
  shows "right 2 n (parseDeclarator ub n ab) (\<lambda>s. declaratorG ub ab)"
    "right 1 n (suffixLoop ub n) (\<lambda>s. suffixG ub)"
    "right 6 n (parseArrayLength ub n) (\<lambda>s. closedG TK_RSquare (gLength ub))"
    "right 3 n (parseParams ub n) (\<lambda>s. closedG TK_RParen (gParams ub))"
    "right 2 n (paramsLoop ub n) (\<lambda>s. only (gParamList ub))"
    "right 2 n (parseTypeName ub n) (\<lambda>s. only (gTypeName ub))"
    "right 5 n (parseAssignment ub n) (\<lambda>s. only (gAssign ub))"
    "right 4 n (parseBinary ub n m) (\<lambda>s. binaryG ub m)"
    "right 1 n (binaryLoop ub n m e) (\<lambda>s. binaryLoopG ub m s e)"
    "right 3 n (parseUnary ub n) (\<lambda>s. only (gUnary ub))"
    "right 2 n (parsePostfix ub n) (\<lambda>s. only (gPostfix ub))"
    "right 1 n (postfixLoop ub n e) (\<lambda>s. postfixLoopG ub e)"
    "right 6 n (argsLoop ub n) (\<lambda>s. only (\<lambda>ts as. gArgs ub ts as \<and> ts \<noteq> []))"
    "right 1 n (parsePrimary ub n) (\<lambda>s. only (gPrimary ub))"
  using assms unfolding allRight_def by blast+

lemma right_ran: "right lvl n p G \<Longrightarrow> good s \<Longrightarrow> fuelFor lvl n s \<Longrightarrow> ran s (p s) (G s)"
  by (simp add: right_def)

lemma rightI: "(\<And>s. good s \<Longrightarrow> fuelFor lvl n s \<Longrightarrow> ran s (p s) (G s)) \<Longrightarrow> right lvl n p G"
  by (simp add: right_def)

lemma right_zero: "0 < lvl \<Longrightarrow> right lvl 0 p G"
  by (auto simp: right_def fuelFor_def)

lemma fuelFor_length: "fuelFor lvl (Suc n) s \<Longrightarrow> 0 < lvl \<Longrightarrow> good s \<Longrightarrow> length (rest s) < n"
  using rest_hd [of s] by (cases "rest s") (auto simp: fuelFor_def)

text \<open>A token of a known kind is consumed and the parser goes on.\<close>

lemma ran_token:
  assumes "good s" "checkTok k s" "k \<noteq> TK_Eof"
    and "good (advanceTok s) \<Longrightarrow> rest s = peekTok 0 s # rest (advanceTok s) \<Longrightarrow>
      ran (advanceTok s) res (\<lambda>us. G (peekTok 0 s # us))"
  shows "ran s res G"
  using assms ran_advance [of s res G] advance_facts [of s] by (simp add: checkTok_def)

section \<open>Declarators\<close>

lemma derives_array:
  assumes d: "derives (gDirect ub ab) hs name l inner" and lb: "tok_kind lb = TK_LSquare"
    and g: "closedG TK_RSquare (gLength ub) ts s len"
  shows "derives (gDirect ub ab) (hs @ lb # ts) name l (ArrayOp len # inner)"
  unfolding derives_def
proof (intro allI impI)
  fix t fn u w
  assume r: "resolveOps t fn (ArrayOp len # inner) = Inr (u, w)" and fn: "fn = None \<or> ArrayOp len # inner = []"
  hence "elementOk t" "resolveOps (ArrayTy t len) None inner = Inr (u, w)"
    by (auto simp: elementOk_def split: if_splits)
  moreover from this have "gDirect ub ab (ArrayTy t len) None hs \<lparr>dd_name = name, dd_loc = l, dd_type = u, dd_function = w\<rparr>"
    using d by (simp add: derives_def)
  moreover obtain vs rb where "ts = vs @ [rb]" "tok_kind rb = TK_RSquare" "gLength ub vs len"
    using g by (auto simp: closedG_def)
  ultimately show "gDirect ub ab t fn (hs @ lb # ts) \<lparr>dd_name = name, dd_loc = l, dd_type = u, dd_function = w\<rparr>"
    using fn lb g_array [of t ub ab len hs _ lb rb vs] by (simp add: kindsOf_def)
qed

lemma derives_function:
  assumes d: "derives (gDirect ub ab) hs name l inner" and lp: "tok_kind lp = TK_LParen"
    and g: "closedG TK_RParen (gParams ub) ts s (ps, v)"
  shows "derives (gDirect ub ab) (hs @ lp # ts) name l (FunctionOp ps v # inner)"
  unfolding derives_def
proof (intro allI impI)
  fix t fo u w
  assume r: "resolveOps t fo (FunctionOp ps v # inner) = Inr (u, w)" and fo: "fo = None \<or> FunctionOp ps v # inner = []"
  hence t: "\<not> isArray t" "\<not> isFunction t" and inner: "inner = []"
    and r': "resolveOps (FunctionTy t (map pd_type ps) v) (Some (ps, v)) inner = Inr (u, w)"
    by (auto split: if_splits)
  have "gDirect ub ab (FunctionTy t (map pd_type ps) v) (Some (ps, v)) hs
      \<lparr>dd_name = name, dd_loc = l, dd_type = u, dd_function = w\<rparr>"
    using d r' inner by (simp add: derives_def)
  moreover obtain vs rp where "ts = vs @ [rp]" "tok_kind rp = TK_RParen" "gParams ub vs (ps, v)"
    using g by (auto simp: closedG_def)
  ultimately show "gDirect ub ab t fo (hs @ lp # ts) \<lparr>dd_name = name, dd_loc = l, dd_type = u, dd_function = w\<rparr>"
    using fo lp t g_function [of t ub vs ps v ab hs _ lp rp] by (simp add: kindsOf_def)
qed

lemma suffixG_cons:
  assumes "\<And>ab hs name l inner. derives (gDirect ub ab) hs name l inner \<Longrightarrow>
      derives (gDirect ub ab) (hs @ pre) name l (op # inner)"
    and "suffixG ub us s r"
  shows "suffixG ub (pre @ us) s (op # r)"
  unfolding suffixG_def
proof (intro allI impI)
  fix ab hs name l inner
  assume "derives (gDirect ub ab) hs name l inner"
  hence "derives (gDirect ub ab) (hs @ pre) name l (op # inner)" by (rule assms(1))
  thus "derives (gDirect ub ab) (hs @ pre @ us) name l (rev (op # r) @ inner)"
    using assms(2) by (fastforce simp: suffixG_def)
qed

text \<open>One suffix was parsed; the loop goes on behind it.\<close>

lemma suffix_more:
  assumes IH: "allRight ub n" and s1: "good s1" and fuel: "fuelFor 1 n s1"
    and op: "\<And>ab hs name l inner. derives (gDirect ub ab) hs name l inner \<Longrightarrow>
      derives (gDirect ub ab) (hs @ pre) name l (op # inner)"
  shows "ran s1 (andThen (suffixLoop ub n) (\<lambda>rest. yield (op # rest)) s1) (\<lambda>us. suffixG ub (pre @ us))"
proof (rule ran_andThen, rule right_ran [OF allRightD(2) [OF IH] s1 fuel])
  fix r s2 us
  assume "good s2" "suffixG ub us s2 r"
  thus "ran s2 (yield (op # r) s2) (\<lambda>vs. suffixG ub (pre @ us @ vs))"
    using suffixG_cons [OF op] by (simp add: ran_yield)
qed

lemma suffixLoop_right:
  assumes IH: "allRight ub n"
  shows "right 1 (Suc n) (suffixLoop ub (Suc n)) (\<lambda>s. suffixG ub)"
proof (rule rightI)
  fix s
  assume s: "good s" and fuel: "fuelFor 1 (Suc n) s"
  note f = fuelFor_advance [OF fuel s]
  consider (arr) "checkTok TK_LSquare s" | (fn) "checkTok TK_LParen s" | (no) "\<not> checkTok TK_LSquare s" "\<not> checkTok TK_LParen s"
    by blast
  thus "ran s (suffixLoop ub (Suc n) s) (suffixG ub)"
  proof cases
    case arr
    hence k: "kindAt 0 s = TK_LSquare" "kindAt 0 s \<noteq> TK_Eof" by (simp_all add: checkTok_def)
    note adv = advance_facts [OF s k(2)]
    have "ran (advanceTok s) (andThen (parseArrayLength ub n) (\<lambda>len. andThen (suffixLoop ub n) (\<lambda>rest. yield (ArrayOp len # rest)))
        (advanceTok s)) (\<lambda>us. suffixG ub (peekTok 0 s # us))"
    proof (rule ran_andThen, rule right_ran [OF allRightD(3) [OF IH] adv(1)])
      show "fuelFor 6 n (advanceTok s)" using f k by simp
    next
      fix len s1 ts
      assume s1: "good s1" "rest (advanceTok s) = ts @ rest s1" and g: "closedG TK_RSquare (gLength ub) ts s1 len"
      show "ran s1 (andThen (suffixLoop ub n) (\<lambda>rest. yield (ArrayOp len # rest)) s1) (\<lambda>us. suffixG ub (peekTok 0 s # ts @ us))"
        using suffix_more [OF IH s1(1) fuelFor_split [OF f [of 1] s1(2)], where pre = "peekTok 0 s # ts"]
          derives_array [OF _ k(1) g] k by simp
    qed
    thus ?thesis using arr ran_advance [OF s k(2)] by simp
  next
    case fn
    hence k: "kindAt 0 s = TK_LParen" "kindAt 0 s \<noteq> TK_Eof" and nl: "\<not> checkTok TK_LSquare s" by (simp_all add: checkTok_def)
    note adv = advance_facts [OF s k(2)]
    have "ran (advanceTok s) (andThen (parseParams ub n) (\<lambda>(ps, v). andThen (suffixLoop ub n) (\<lambda>rest. yield (FunctionOp ps v # rest)))
        (advanceTok s)) (\<lambda>us. suffixG ub (peekTok 0 s # us))"
    proof (rule ran_andThen, rule right_ran [OF allRightD(4) [OF IH] adv(1)])
      show "fuelFor 3 n (advanceTok s)" using f k by simp
    next
      fix pv s1 ts
      assume s1: "good s1" "rest (advanceTok s) = ts @ rest s1" and g: "closedG TK_RParen (gParams ub) ts s1 pv"
      obtain ps v where pv: "pv = (ps, v)" by (cases pv)
      show "ran s1 ((case pv of (ps, v) \<Rightarrow> andThen (suffixLoop ub n) (\<lambda>rest. yield (FunctionOp ps v # rest))) s1)
          (\<lambda>us. suffixG ub (peekTok 0 s # ts @ us))"
        using suffix_more [OF IH s1(1) fuelFor_split [OF f [of 1] s1(2)], where pre = "peekTok 0 s # ts"]
          derives_function [OF _ k(1) g [unfolded pv]] k pv by simp
    qed
    thus ?thesis using fn nl ran_advance [OF s k(2)] by simp
  next
    case no
    thus ?thesis using s by (auto simp: suffixG_def intro!: ran_yield)
  qed
qed

text \<open>The part of a declarator between the stars and the suffixes.\<close>

lemma declaratorHead_ran:
  assumes IH: "allRight ub n" and s: "good s" and fuel: "fuelFor 2 (Suc n) s"
  shows "ran s
     (if nestedDeclarator ab s then
        andThen (parseDeclarator ub n ab) (\<lambda>inner.
          andThen (expect TK_RParen) (\<lambda>_. yield (dc_name inner, dc_loc inner, dc_ops inner))) (advanceTok s)
      else if checkTok TK_Identifier s then yield (tok_text (peekTok 0 s), locHere s, []) (advanceTok s)
      else if \<not> ab then reject (locHere s) (''expected identifier before '' @ describe (peekTok 0 s)) s
      else yield ([], l0, []) s)
     (\<lambda>ts s' (name, l, ops). derives (gDirect ub ab) ts name l ops)"
proof -
  consider (nested) "nestedDeclarator ab s" | (ident) "\<not> nestedDeclarator ab s" "checkTok TK_Identifier s"
    | (none) "\<not> nestedDeclarator ab s" "\<not> checkTok TK_Identifier s" "\<not> ab"
    | (abstr) "\<not> nestedDeclarator ab s" "\<not> checkTok TK_Identifier s" "ab"
    by blast
  thus ?thesis
  proof cases
    case nested
    hence k: "kindAt 0 s = TK_LParen" "kindAt 0 s \<noteq> TK_Eof" by (simp_all add: nestedDeclarator_def checkTok_def)
    note adv = advance_facts [OF s k(2)]
    have "ran (advanceTok s) (andThen (parseDeclarator ub n ab) (\<lambda>inner.
          andThen (expect TK_RParen) (\<lambda>_. yield (dc_name inner, dc_loc inner, dc_ops inner))) (advanceTok s))
        (\<lambda>us s' (name, l, ops). derives (gDirect ub ab) (peekTok 0 s # us) name l ops)"
    proof (rule ran_then_expect, rule right_ran [OF allRightD(1) [OF IH] adv(1)])
      show "fuelFor 2 n (advanceTok s)" using fuelFor_advance [OF fuel s k(2)] by simp
    next
      fix d s1 ts and t :: token
      assume s1: "good s1" "rest (advanceTok s) = (ts @ [t]) @ rest s1" and t: "tok_kind t = TK_RParen"
        and g: "\<exists>s'. declaratorG ub ab ts s' d"
      have "ab \<longrightarrow> starOrName ts"
        using nested s1(2) t adv(6) rest_hd [OF adv(1)] by (cases ts) (auto simp: nestedDeclarator_def starOrName_def)
      hence "derives (gDirect ub ab) (peekTok 0 s # ts @ [t]) (dc_name d) (dc_loc d) (dc_ops d)"
        using g t k(1) g_nested [of "peekTok 0 s" t ub ab] by (auto simp: derives_def declaratorG_def kindsOf_def)
      thus "ran s1 (yield (dc_name d, dc_loc d, dc_ops d) s1)
          (\<lambda>us s' (name, l, ops). derives (gDirect ub ab) (peekTok 0 s # ts @ t # us) name l ops)"
        using s1(1) by (simp add: ran_yield)
    qed simp
    thus ?thesis using nested ran_advance [OF s k(2)] by simp
  next
    case ident
    hence k: "kindAt 0 s = TK_Identifier" "kindAt 0 s \<noteq> TK_Eof" by (simp_all add: checkTok_def)
    have "derives (gDirect ub ab) [peekTok 0 s] (tok_text (peekTok 0 s)) (locHere s) []"
      using g_ident [OF k(1), of ub ab] by (simp add: derives_def)
    thus ?thesis using ident advance_facts(1) [OF s k(2)] by (auto intro!: ran_advance [OF s k(2)] ran_yield)
  next
    case none
    thus ?thesis using s by (simp add: ran_reject)
  next
    case abstr
    thus ?thesis using s by (auto simp: derives_def intro!: ran_yield g_unnamed)
  qed
qed

lemma resolveOps_stars:
  "resolveOps t f (replicate k PointerOp @ ops) = resolveOps ((PointerTy ^^ k) t) f ops"
  by (induction k arbitrary: t) (simp_all add: funpow_swap1)

lemma parseDeclarator_right:
  assumes IH: "allRight ub n"
  shows "right 2 (Suc n) (parseDeclarator ub (Suc n) ab) (\<lambda>s. declaratorG ub ab)"
proof (rule rightI)
  fix s0
  assume s0: "good s0" and fuel: "fuelFor 2 (Suc n) s0"
  have len: "length (rest s0) < n" using fuelFor_length [OF fuel _ s0] by simp
  show "ran s0 (parseDeclarator ub (Suc n) ab s0) (declaratorG ub ab)"
    unfolding parseDeclarator.simps
  proof (rule ran_andThen, rule starsLoop_ran [OF s0 len], elim conjE)
    fix k s ts
    assume s: "good s" "rest s0 = ts @ rest s" and stars: "\<forall>ub ab t us d.
        gDeclarator ub ab ((PointerTy ^^ (k - 0)) t) None us d \<longrightarrow> gDeclarator ub ab t None (ts @ us) d" "k = 0 \<longrightarrow> ts = []"
    show "ran s (andThen (\<lambda>s.
           if nestedDeclarator ab s then
             andThen (parseDeclarator ub n ab) (\<lambda>inner.
               andThen (expect TK_RParen) (\<lambda>_. yield (dc_name inner, dc_loc inner, dc_ops inner))) (advanceTok s)
           else if checkTok TK_Identifier s then yield (tok_text (peekTok 0 s), locHere s, []) (advanceTok s)
           else if \<not> ab then
             reject (locHere s) (''expected identifier before '' @ describe (peekTok 0 s)) s
           else yield ([], locHere s0, []) s)
         (\<lambda>head. andThen (suffixLoop ub n) (\<lambda>suffixes. yield (assemble k head suffixes))) s)
         (\<lambda>us. declaratorG ub ab (ts @ us))"
    proof (rule ran_andThen, rule declaratorHead_ran [OF IH s(1) fuelFor_split [OF fuel s(2)]])
      fix head s1 us
      assume s1: "good s1" "rest s = us @ rest s1" and h: "case head of (name, l, ops) \<Rightarrow> derives (gDirect ub ab) us name l ops"
      obtain name l inner where head: "head = (name, l, inner)" by (cases head) auto
      have f1: "fuelFor 1 n s1"
        using fuelFor_call [of 2 n s1 1] fuelFor_split [OF fuelFor_split [OF fuel s(2)] s1(2)] by simp
      show "ran s1 (andThen (suffixLoop ub n) (\<lambda>suffixes. yield (assemble k head suffixes)) s1) (\<lambda>vs. declaratorG ub ab (ts @ us @ vs))"
      proof (rule ran_andThen, rule right_ran [OF allRightD(2) [OF IH] s1(1) f1])
        fix sufs s2 vs
        assume s2: "good s2" and g: "suffixG ub vs s2 sufs"
        have d: "derives (gDirect ub ab) (us @ vs) name l (rev sufs @ inner)"
          using g h head by (simp add: suffixG_def)
        have "derives (gDeclarator ub ab) (ts @ us @ vs) name l (replicate k PointerOp @ rev sufs @ inner)"
          unfolding derives_def
        proof (intro allI impI)
          fix t f u w
          assume r: "resolveOps t f (replicate k PointerOp @ rev sufs @ inner) = Inr (u, w)"
            and f: "f = None \<or> replicate k PointerOp @ rev sufs @ inner = []"
          let ?d = "\<lparr>dd_name = name, dd_loc = l, dd_type = u, dd_function = w\<rparr>"
          have "gDirect ub ab ((PointerTy ^^ k) t) f (us @ vs) ?d"
            using d r f unfolding derives_def resolveOps_stars by auto
          hence g: "gDeclarator ub ab ((PointerTy ^^ k) t) f (us @ vs) ?d" by (rule g_direct)
          show "gDeclarator ub ab t f (ts @ us @ vs) ?d"
          proof (cases f)
            case None
            thus ?thesis using stars(1) g by simp
          next
            case (Some x)
            hence "k = 0" using f by auto
            thus ?thesis using stars(2) g by simp
          qed
        qed
        thus "ran s2 (yield (assemble k head sufs) s2) (\<lambda>ws. declaratorG ub ab (ts @ us @ vs @ ws))"
          using s2 head by (simp add: ran_yield declaratorG_def assemble_def)
      qed
    qed
  qed
qed

section \<open>Array lengths, parameters and type names\<close>

lemma parseArrayLength_right:
  assumes IH: "allRight ub n"
  shows "right 6 (Suc n) (parseArrayLength ub (Suc n)) (\<lambda>s. closedG TK_RSquare (gLength ub))"
proof (rule rightI)
  fix s
  assume s: "good s" and fuel: "fuelFor 6 (Suc n) s"
  show "ran s (parseArrayLength ub (Suc n) s) (closedG TK_RSquare (gLength ub))"
  proof (cases "checkTok TK_RSquare s")
    case True
    hence k: "kindAt 0 s = TK_RSquare" "kindAt 0 s \<noteq> TK_Eof" by (simp_all add: checkTok_def)
    have "closedG TK_RSquare (gLength ub) [peekTok 0 s] (advanceTok s) 0"
      using k g_no_length by (simp add: closedG_def)
    thus ?thesis using True advance_facts(1) [OF s k(2)] by (auto intro!: ran_advance [OF s k(2)] ran_yield)
  next
    case False
    have "ran s (andThen (parseAssignment ub n) (\<lambda>len. andThen (expect TK_RSquare) (\<lambda>_. arrayLengthOf ub (locHere s) len)) s)
        (closedG TK_RSquare (gLength ub))"
    proof (rule ran_then_expect, rule right_ran [OF allRightD(7) [OF IH] s])
      show "fuelFor 5 n s" using fuelFor_call [OF fuel] by simp
    next
      fix e s1 ts and t :: token
      assume s1: "good s1" and t: "tok_kind t = TK_RSquare" and g: "\<exists>s'. only (gAssign ub) ts s' e"
      show "ran s1 (arrayLengthOf ub (locHere s) e s1) (\<lambda>us. closedG TK_RSquare (gLength ub) (ts @ t # us))"
      proof (cases "evaluateInteger ub e")
        case None
        thus ?thesis using s1 by (simp add: arrayLengthOf_def ran_reject)
      next
        case (Some v)
        show ?thesis
        proof (cases "v \<le>s 0")
          case True
          thus ?thesis using s1 Some by (simp add: arrayLengthOf_def ran_reject)
        next
          case False
          hence "0 <s v" by (simp add: word_sless_alt word_sle_eq)
          hence "gLength ub ts v" using g Some by (auto simp: only_def intro: g_length)
          thus ?thesis using s1 Some False t by (auto simp: arrayLengthOf_def closedG_def intro!: ran_yield)
        qed
      qed
    qed simp
    thus ?thesis using False by simp
  qed
qed

lemma resolve_ran:
  assumes "good s"
  shows "ran s (resolve spec decl s) (\<lambda>ts s' d. ts = [] \<and> s' = s \<and>
     resolveOps (the (sp_base spec)) None (dc_ops decl) = Inr (dd_type d, dd_function d) \<and>
     dd_name d = dc_name decl \<and> dd_loc d = dc_loc decl)"
  using assms by (auto simp: resolve_def ran_reject ran_yield split: sum.split)

lemma resolve_declares:
  assumes "declaratorG ub ab ts s decl" "resolveOps b None (dc_ops decl) = Inr (dd_type d, dd_function d)"
    "dd_name d = dc_name decl" "dd_loc d = dc_loc decl"
  shows "gDeclarator ub ab b None ts d"
proof -
  have "d = \<lparr>dd_name = dc_name decl, dd_loc = dc_loc decl, dd_type = dd_type d, dd_function = dd_function d\<rparr>"
    using assms(3,4) by simp
  thus ?thesis using assms(1,2) unfolding declaratorG_def derives_def by metis
qed

text \<open>A declarator, its resolution, and what follows.\<close>

lemma ran_declared:
  assumes IH: "allRight ub n" and s: "good s" and fuel: "fuelFor 2 n s"
    and f: "\<And>d s' ts. good s' \<Longrightarrow> rest s = ts @ rest s' \<Longrightarrow> gDeclarator ub ab (the (sp_base spec)) None ts d \<Longrightarrow>
      ran s' (f d s') (\<lambda>us. H (ts @ us))"
  shows "ran s (andThen (parseDeclarator ub n ab) (\<lambda>decl. andThen (resolve spec decl) f) s) H"
proof (rule ran_andThen, rule right_ran [OF allRightD(1) [OF IH] s fuel])
  fix decl s1 ts
  assume s1: "good s1" "rest s = ts @ rest s1" and g: "declaratorG ub ab ts s1 decl"
  show "ran s1 (andThen (resolve spec decl) f s1) (\<lambda>us. H (ts @ us))"
  proof (rule ran_andThen, rule resolve_ran [OF s1(1)], elim conjE)
    fix d :: declared and s2 and us :: "token list"
    assume us: "us = []" "s2 = s1" and r: "resolveOps (the (sp_base spec)) None (dc_ops decl) = Inr (dd_type d, dd_function d)"
      "dd_name d = dc_name decl" "dd_loc d = dc_loc decl"
    show "ran s2 (f d s2) (\<lambda>vs. H (ts @ us @ vs))"
      using f [OF s1 resolve_declares [OF g r]] us by simp
  qed
qed

lemma paramOf_ran:
  assumes "good s"
  shows "ran s (paramOf spec d s) (\<lambda>ts s' p. ts = [] \<and> \<not> isFunction (dd_type d) \<and> \<not> isVoid (dd_type d) \<and>
     p = \<lparr>pd_name = dd_name d, pd_type = paramType (dd_type d),
       pd_isConst = constObject (sp_isConst spec) (paramType (dd_type d)), pd_loc = dd_loc d, pd_symbol = 0\<rparr>)"
  using assms by (auto simp: paramOf_def Let_def paramType_def constObject_def isConstObject_def ran_reject ran_yield)

lemma paramsLoop_right:
  assumes IH: "allRight ub n"
  shows "right 2 (Suc n) (paramsLoop ub (Suc n)) (\<lambda>s. only (gParamList ub))"
proof (rule rightI)
  fix s
  assume s: "good s" and fuel: "fuelFor 2 (Suc n) s"
  show "ran s (paramsLoop ub (Suc n) s) (only (gParamList ub))"
  proof (cases "checkTok TK_Ellipsis s")
    case True
    hence k: "kindAt 0 s = TK_Ellipsis" "kindAt 0 s \<noteq> TK_Eof" by (simp_all add: checkTok_def)
    thus ?thesis using True advance_facts(1) [OF s k(2)]
      by (auto simp: only_def intro!: ran_advance [OF s k(2)] ran_yield g_ellipsis)
  next
    case False
    have "ran s (andThen (parseDeclSpec n) (\<lambda>spec.
       andThen (parseDeclarator ub n True) (\<lambda>decl.
         andThen (resolve spec decl) (\<lambda>d.
           andThen (paramOf spec d) (\<lambda>p s1.
             if checkTok TK_Comma s1 then
               andThen (paramsLoop ub n) (\<lambda>(ps, v). yield (p # ps, v)) (advanceTok s1)
             else yield ([p], False) s1)))) s) (only (gParamList ub))"
    proof (rule ran_andThen, rule parseDeclSpec_ran [OF s fuelFor_length [OF fuel _ s]])
      show "(0 :: nat) < 2" by simp
    next
      fix spec :: decl_spec and s1 ss
      assume s1: "good s1" "rest s = ss @ rest s1"
        and sp: "gSpec ss (the (sp_base spec)) (sp_isConst spec) \<and> sp_base spec \<noteq> None"
      have f1: "fuelFor 2 n s1"
        using fuelFor_consumed [OF fuel s1(2), of 2] gSpec_nonempty sp by auto
      show "ran s1 (andThen (parseDeclarator ub n True) (\<lambda>decl.
         andThen (resolve spec decl) (\<lambda>d.
           andThen (paramOf spec d) (\<lambda>p s1.
             if checkTok TK_Comma s1 then
               andThen (paramsLoop ub n) (\<lambda>(ps, v). yield (p # ps, v)) (advanceTok s1)
             else yield ([p], False) s1))) s1) (\<lambda>us. only (gParamList ub) (ss @ us))"
      proof (rule ran_declared [OF IH s1(1) f1])
        fix d :: declared and s2 ts
        assume s2: "good s2" "rest s1 = ts @ rest s2" and d: "gDeclarator ub True (the (sp_base spec)) None ts d"
        show "ran s2 (andThen (paramOf spec d) (\<lambda>p s1.
             if checkTok TK_Comma s1 then
               andThen (paramsLoop ub n) (\<lambda>(ps, v). yield (p # ps, v)) (advanceTok s1)
             else yield ([p], False) s1) s2) (\<lambda>us. only (gParamList ub) (ss @ ts @ us))"
        proof (rule ran_andThen, rule paramOf_ran [OF s2(1)], elim conjE)
          fix p s3 us
          assume s3: "good s3" "rest s2 = us @ rest s3" and us: "us = []" and ok: "\<not> isFunction (dd_type d)" "\<not> isVoid (dd_type d)"
            and p: "p = \<lparr>pd_name = dd_name d, pd_type = paramType (dd_type d),
              pd_isConst = constObject (sp_isConst spec) (paramType (dd_type d)), pd_loc = dd_loc d, pd_symbol = 0\<rparr>"
          have gp: "gParam ub (ss @ ts) p" unfolding p by (rule g_param) (use sp d ok in auto)
          have f3: "fuelFor 2 n s3" using fuelFor_split [OF fuelFor_split [OF f1 s2(2)] s3(2)] .
          show "ran s3 (if checkTok TK_Comma s3 then
                 andThen (paramsLoop ub n) (\<lambda>(ps, v). yield (p # ps, v)) (advanceTok s3)
               else yield ([p], False) s3) (\<lambda>vs. only (gParamList ub) (ss @ ts @ us @ vs))"
          proof (cases "checkTok TK_Comma s3")
            case True
            hence k: "kindAt 0 s3 = TK_Comma" "kindAt 0 s3 \<noteq> TK_Eof" by (simp_all add: checkTok_def)
            note adv = advance_facts [OF s3(1) k(2)]
            have f4: "fuelFor 2 n (advanceTok s3)" using fuelFor_split [OF f3, of "[peekTok 0 s3]"] adv(2) by simp
            have "ran (advanceTok s3) (andThen (paramsLoop ub n) (\<lambda>(ps, v). yield (p # ps, v)) (advanceTok s3))
                (\<lambda>vs. only (gParamList ub) (ss @ ts @ us @ peekTok 0 s3 # vs))"
            proof (rule ran_andThen, rule right_ran [OF allRightD(5) [OF IH] adv(1) f4])
              fix pv s5 vs
              assume s5: "good s5" and g: "only (gParamList ub) vs s5 pv"
              obtain ps v where pv: "pv = (ps, v)" by (cases pv)
              have "gParamList ub ((ss @ ts) @ peekTok 0 s3 # vs) (p # ps, v)"
                by (rule g_more_params [OF gp k(1)]) (use g pv in \<open>simp add: only_def\<close>)
              thus "ran s5 ((case pv of (ps, v) \<Rightarrow> yield (p # ps, v)) s5)
                  (\<lambda>ws. only (gParamList ub) (ss @ ts @ us @ peekTok 0 s3 # vs @ ws))"
                using s5 pv us by (simp add: ran_yield only_def)
            qed
            thus ?thesis using True ran_advance [OF s3(1) k(2)] by simp
          next
            case False
            thus ?thesis using s3(1) us g_last_param [OF gp] by (simp add: ran_yield only_def)
          qed
        qed
      qed
    qed
    thus ?thesis using False by simp
  qed
qed

lemma parseParams_right:
  assumes IH: "allRight ub n"
  shows "right 3 (Suc n) (parseParams ub (Suc n)) (\<lambda>s. closedG TK_RParen (gParams ub))"
proof (rule rightI)
  fix s
  assume s: "good s" and fuel: "fuelFor 3 (Suc n) s"
  consider (empty) "checkTok TK_RParen s" | (void) "\<not> checkTok TK_RParen s" "checkTok TK_KwVoid s" "kindAt 1 s = TK_RParen"
    | (params) "\<not> checkTok TK_RParen s" "\<not> (checkTok TK_KwVoid s \<and> kindAt 1 s = TK_RParen)" by blast
  thus "ran s (parseParams ub (Suc n) s) (closedG TK_RParen (gParams ub))"
  proof cases
    case empty
    hence k: "kindAt 0 s = TK_RParen" "kindAt 0 s \<noteq> TK_Eof" by (simp_all add: checkTok_def)
    have "closedG TK_RParen (gParams ub) [peekTok 0 s] (advanceTok s) ([], False)"
      using k g_no_params by (simp add: closedG_def)
    thus ?thesis using empty advance_facts(1) [OF s k(2)] by (auto intro!: ran_advance [OF s k(2)] ran_yield)
  next
    case void
    hence k: "kindAt 0 s = TK_KwVoid" "kindAt 0 s \<noteq> TK_Eof" by (simp_all add: checkTok_def)
    note adv = advance_facts [OF s k(2)]
    have k1: "kindAt 0 (advanceTok s) = TK_RParen" "kindAt 0 (advanceTok s) \<noteq> TK_Eof" using void adv(6) by simp_all
    note adv1 = advance_facts [OF adv(1) k1(2)]
    have "closedG TK_RParen (gParams ub) [peekTok 0 s, peekTok 0 (advanceTok s)] (advanceTok (advanceTok s)) ([], False)"
      using k k1 g_void [OF k(1)] by (auto simp: closedG_def)
    thus ?thesis using void adv1(1)
      by (auto intro!: ran_advance [OF s k(2)] ran_advance [OF adv(1) k1(2)] ran_yield)
  next
    case params
    have "ran s (andThen (paramsLoop ub n) (\<lambda>fn. andThen (expect TK_RParen) (\<lambda>_. yield fn)) s) (closedG TK_RParen (gParams ub))"
    proof (rule ran_then_expect, rule right_ran [OF allRightD(5) [OF IH] s])
      show "fuelFor 2 n s" using fuelFor_call [OF fuel] by simp
    next
      fix fn s1 ts and t :: token
      assume "good s1" "tok_kind t = TK_RParen" "\<exists>s'. only (gParamList ub) ts s' fn"
      thus "ran s1 (yield fn s1) (\<lambda>us. closedG TK_RParen (gParams ub) (ts @ t # us))"
        by (auto simp: closedG_def only_def intro!: ran_yield g_params)
    qed simp
    thus ?thesis using params by auto
  qed
qed

lemma parseTypeName_right:
  assumes IH: "allRight ub n"
  shows "right 2 (Suc n) (parseTypeName ub (Suc n)) (\<lambda>s. only (gTypeName ub))"
proof (rule rightI)
  fix s
  assume s: "good s" and fuel: "fuelFor 2 (Suc n) s"
  show "ran s (parseTypeName ub (Suc n) s) (only (gTypeName ub))"
    unfolding parseTypeName.simps
  proof (rule ran_andThen, rule parseDeclSpec_ran [OF s fuelFor_length [OF fuel _ s]])
    show "(0 :: nat) < 2" by simp
  next
    fix spec :: decl_spec and s1 ss
    assume s1: "good s1" "rest s = ss @ rest s1"
      and sp: "gSpec ss (the (sp_base spec)) (sp_isConst spec) \<and> sp_base spec \<noteq> None"
    have f1: "fuelFor 2 n s1" using fuelFor_consumed [OF fuel s1(2), of 2] gSpec_nonempty sp by auto
    show "ran s1 (andThen (parseDeclarator ub n True) (\<lambda>decl. typeNameOf spec decl) s1) (\<lambda>us. only (gTypeName ub) (ss @ us))"
    proof (rule ran_andThen, rule right_ran [OF allRightD(1) [OF IH] s1(1) f1])
      fix decl s2 ts
      assume s2: "good s2" and g: "declaratorG ub True ts s2 decl"
      show "ran s2 (typeNameOf spec decl s2) (\<lambda>us. only (gTypeName ub) (ss @ ts @ us))"
      proof (cases "dc_name decl = []")
        case False
        thus ?thesis using s2 by (simp add: typeNameOf_def ran_reject)
      next
        case True
        have "ran s2 (andThen (resolve spec decl) (\<lambda>d s1. if isFunction (dd_type d)
              then reject (dc_loc decl) ''function types are not supported here'' s1 else yield (dd_type d) s1) s2)
            (\<lambda>us. only (gTypeName ub) (ss @ ts @ us))"
        proof (rule ran_andThen, rule resolve_ran [OF s2], elim conjE)
          fix d :: declared and s3 and us :: "token list"
          assume s3: "good s3" "us = []" and r: "resolveOps (the (sp_base spec)) None (dc_ops decl) = Inr (dd_type d, dd_function d)"
            "dd_name d = dc_name decl" "dd_loc d = dc_loc decl"
          have d: "gDeclarator ub True (the (sp_base spec)) None ts d" by (rule resolve_declares [OF g r])
          show "ran s3 (if isFunction (dd_type d) then reject (dc_loc decl) ''function types are not supported here'' s3
                else yield (dd_type d) s3) (\<lambda>vs. only (gTypeName ub) (ss @ ts @ us @ vs))"
            using s3 sp True r(2) g_type_name [OF _ d] by (auto simp: only_def intro!: ran_reject ran_yield)
        qed
        thus ?thesis using True by (simp add: typeNameOf_def)
      qed
    qed
  qed
qed

section \<open>Expressions\<close>

lemma parseAssignment_right:
  assumes IH: "allRight ub n"
  shows "right 5 (Suc n) (parseAssignment ub (Suc n)) (\<lambda>s. only (gAssign ub))"
proof (rule rightI)
  fix s
  assume s: "good s" and fuel: "fuelFor 5 (Suc n) s"
  show "ran s (parseAssignment ub (Suc n) s) (only (gAssign ub))"
    unfolding parseAssignment.simps
  proof (rule ran_andThen, rule right_ran [OF allRightD(8) [OF IH] s])
    show "fuelFor 4 n s" using fuelFor_call [OF fuel] by simp
  next
    fix a s1 ts
    assume s1: "good s1" "rest s = ts @ rest s1" and a: "binaryG ub 1 ts s1 a"
    hence ga: "gBinary ub 1 ts a" by (simp add: binaryG_def)
    show "ran s1 (if \<not> checkTok TK_Equal s1 then yield a s1
       else andThen (parseAssignment ub n) (\<lambda>rhs. yield (bareExpr (Assign a rhs) (locHere s1))) (advanceTok s1))
       (\<lambda>us. only (gAssign ub) (ts @ us))"
    proof (cases "checkTok TK_Equal s1")
      case False
      thus ?thesis using s1 g_value [OF ga] by (simp add: ran_yield only_def)
    next
      case True
      hence k: "kindAt 0 s1 = TK_Equal" "kindAt 0 s1 \<noteq> TK_Eof" by (simp_all add: checkTok_def)
      note adv = advance_facts [OF s1(1) k(2)]
      have "rest s = (ts @ [peekTok 0 s1]) @ rest (advanceTok s1)" using s1(2) adv(2) by simp
      hence f: "fuelFor 5 n (advanceTok s1)" using fuelFor_consumed [OF fuel] by simp
      have "ran (advanceTok s1) (andThen (parseAssignment ub n) (\<lambda>rhs. yield (bareExpr (Assign a rhs) (locHere s1))) (advanceTok s1))
          (\<lambda>us. only (gAssign ub) (ts @ peekTok 0 s1 # us))"
      proof (rule ran_andThen, rule right_ran [OF allRightD(7) [OF IH] adv(1) f])
        fix b s2 us
        assume "good s2" "only (gAssign ub) us s2 b"
        thus "ran s2 (yield (bareExpr (Assign a b) (locHere s1)) s2) (\<lambda>vs. only (gAssign ub) (ts @ peekTok 0 s1 # us @ vs))"
          using g_assign [OF ga k(1)] by (simp add: ran_yield only_def)
      qed
      thus ?thesis using True ran_advance [OF s1(1) k(2)] by simp
    qed
  qed
qed

lemma binaryInfo_not_Eof: "binaryInfo k = Some x \<Longrightarrow> k \<noteq> TK_Eof"
  by auto

lemma binaryLoop_right:
  assumes IH: "allRight ub n"
  shows "right 1 (Suc n) (binaryLoop ub (Suc n) m lhs) (\<lambda>s. binaryLoopG ub m s lhs)"
proof (rule rightI)
  fix s
  assume s: "good s" and fuel: "fuelFor 1 (Suc n) s"
  have here: "ran s (yield lhs s) (binaryLoopG ub m s lhs)" if "stopsAt m s"
    using s that by (auto simp: binaryLoopG_def binaryG_def intro!: ran_yield intro: gBinary_mono)
  show "ran s (binaryLoop ub (Suc n) m lhs s) (binaryLoopG ub m s lhs)"
  proof (cases "binaryInfo (kindAt 0 s)")
    case None
    thus ?thesis using here by (simp add: stopsAt_def)
  next
    case (Some pair)
    obtain prec op where i: "binaryInfo (kindAt 0 s) = Some (prec, op)" using Some by (cases pair) auto
    show ?thesis
    proof (cases "prec < m")
      case True
      thus ?thesis using here i by (simp add: stopsAt_def)
    next
      case False
      have k: "kindAt 0 s \<noteq> TK_Eof" using binaryInfo_not_Eof [OF i] .
      note adv = advance_facts [OF s k]
      have "ran (advanceTok s) (andThen (parseBinary ub n (prec + 1))
           (\<lambda>rhs. binaryLoop ub n m (bareExpr (Binary op lhs rhs) (locHere s))) (advanceTok s))
           (\<lambda>us. binaryLoopG ub m s lhs (peekTok 0 s # us))"
      proof (rule ran_andThen, rule right_ran [OF allRightD(8) [OF IH] adv(1)])
        show "fuelFor 4 n (advanceTok s)" using fuelFor_advance [OF fuel s k] by simp
      next
        fix rhs s1 ts
        assume s1: "good s1" "rest (advanceTok s) = ts @ rest s1" and g: "binaryG ub (prec + 1) ts s1 rhs"
        have f1: "fuelFor 1 n s1" using fuelFor_split [OF fuelFor_advance [OF fuel s k, of 1] s1(2)] by simp
        let ?e = "bareExpr (Binary op lhs rhs) (locHere s)"
        have "ran s1 (binaryLoop ub n m ?e s1) (binaryLoopG ub m s1 ?e)"
          by (rule right_ran [OF allRightD(9) [OF IH] s1(1) f1])
        thus "ran s1 (binaryLoop ub n m ?e s1) (\<lambda>us. binaryLoopG ub m s lhs (peekTok 0 s # ts @ us))"
        proof (rule ran_mono)
          fix us s2 e
          assume l: "binaryLoopG ub m s1 ?e us s2 e"
          show "binaryLoopG ub m s lhs (peekTok 0 s # ts @ us) s2 e"
            unfolding binaryLoopG_def
          proof (intro allI impI)
            fix vs j
            assume v: "gBinary ub j vs lhs" "m \<le> j" "stopsAt (j + 1) s"
            have "prec \<le> j" using v(3) i by (simp add: stopsAt_def)
            hence "gBinary ub prec vs lhs" using gBinary_mono v(1) by blast
            hence "gBinary ub prec (vs @ peekTok 0 s # ts) ?e"
              using g i by (auto simp: binaryG_def intro: g_binary)
            moreover have "stopsAt (prec + 1) s1" using g by (simp add: binaryG_def)
            ultimately have "binaryG ub m ((vs @ peekTok 0 s # ts) @ us) s2 e"
              using l False unfolding binaryLoopG_def by (meson not_less)
            thus "binaryG ub m (vs @ peekTok 0 s # ts @ us) s2 e" by simp
          qed
        qed
      qed
      thus ?thesis using i False ran_advance [OF s k] by simp
    qed
  qed
qed

lemma binaryInfo_bound: "binaryInfo k = Some (q, op) \<Longrightarrow> q \<le> 6"
  by (cases k) auto

lemma parseBinary_right:
  assumes IH: "allRight ub n"
  shows "right 4 (Suc n) (parseBinary ub (Suc n) m) (\<lambda>s. binaryG ub m)"
proof (rule rightI)
  fix s
  assume s: "good s" and fuel: "fuelFor 4 (Suc n) s"
  show "ran s (parseBinary ub (Suc n) m s) (binaryG ub m)"
    unfolding parseBinary.simps
  proof (rule ran_andThen, rule right_ran [OF allRightD(10) [OF IH] s])
    show "fuelFor 3 n s" using fuelFor_call [OF fuel] by simp
  next
    fix a s1 ts
    assume s1: "good s1" "rest s = ts @ rest s1" and a: "only (gUnary ub) ts s1 a"
    have "ts \<noteq> []" using a expr_nonempty(3) by (auto simp: only_def)
    hence f: "fuelFor 1 n s1" using fuelFor_consumed [OF fuel s1(2)] by simp
    have "ran s1 (binaryLoop ub n m a s1) (binaryLoopG ub m s1 a)" by (rule right_ran [OF allRightD(9) [OF IH] s1(1) f])
    thus "ran s1 (binaryLoop ub n m a s1) (\<lambda>us. binaryG ub m (ts @ us))"
    proof (rule ran_mono)
      fix us s2 e
      assume l: "binaryLoopG ub m s1 a us s2 e"
      have "gBinary ub (max m 6) ts a" using a by (auto simp: only_def intro: g_operand)
      moreover have "stopsAt (max m 6 + 1) s1" using binaryInfo_bound by (fastforce simp: stopsAt_def)
      ultimately show "binaryG ub m (ts @ us) s2 e" using l by (auto simp: binaryLoopG_def)
    qed
  qed
qed

lemma argsLoop_right:
  assumes IH: "allRight ub n"
  shows "right 6 (Suc n) (argsLoop ub (Suc n)) (\<lambda>s. only (\<lambda>ts as. gArgs ub ts as \<and> ts \<noteq> []))"
proof (rule rightI)
  fix s
  assume s: "good s" and fuel: "fuelFor 6 (Suc n) s"
  show "ran s (argsLoop ub (Suc n) s) (only (\<lambda>ts as. gArgs ub ts as \<and> ts \<noteq> []))"
    unfolding argsLoop.simps
  proof (rule ran_andThen, rule right_ran [OF allRightD(7) [OF IH] s])
    show "fuelFor 5 n s" using fuelFor_call [OF fuel] by simp
  next
    fix a s1 ts
    assume s1: "good s1" "rest s = ts @ rest s1" and a: "only (gAssign ub) ts s1 a"
    hence ga: "gAssign ub ts a" "ts \<noteq> []" using expr_nonempty(5) by (auto simp: only_def)
    show "ran s1 (if checkTok TK_Comma s1 then andThen (argsLoop ub n) (\<lambda>args. yield (a # args)) (advanceTok s1) else yield [a] s1)
        (\<lambda>us. only (\<lambda>ts as. gArgs ub ts as \<and> ts \<noteq> []) (ts @ us))"
    proof (cases "checkTok TK_Comma s1")
      case False
      thus ?thesis using s1 ga g_last_arg by (auto simp: only_def intro!: ran_yield)
    next
      case True
      hence k: "kindAt 0 s1 = TK_Comma" "kindAt 0 s1 \<noteq> TK_Eof" by (simp_all add: checkTok_def)
      note adv = advance_facts [OF s1(1) k(2)]
      have "rest s = (ts @ [peekTok 0 s1]) @ rest (advanceTok s1)" using s1(2) adv(2) by simp
      hence f: "fuelFor 6 n (advanceTok s1)" using fuelFor_consumed [OF fuel] by simp
      have "ran (advanceTok s1) (andThen (argsLoop ub n) (\<lambda>args. yield (a # args)) (advanceTok s1))
          (\<lambda>us. only (\<lambda>ts as. gArgs ub ts as \<and> ts \<noteq> []) (ts @ peekTok 0 s1 # us))"
      proof (rule ran_andThen, rule right_ran [OF allRightD(13) [OF IH] adv(1) f])
        fix as s2 us
        assume "good s2" "only (\<lambda>ts as. gArgs ub ts as \<and> ts \<noteq> []) us s2 as"
        thus "ran s2 (yield (a # as) s2) (\<lambda>vs. only (\<lambda>ts as. gArgs ub ts as \<and> ts \<noteq> []) (ts @ peekTok 0 s1 # us @ vs))"
          using g_arg [OF ga(1) k(1)] by (simp add: ran_yield only_def)
      qed
      thus ?thesis using True ran_advance [OF s1(1) k(2)] by simp
    qed
  qed
qed

lemma postfixLoop_right:
  assumes IH: "allRight ub n"
  shows "right 1 (Suc n) (postfixLoop ub (Suc n) e) (\<lambda>s. postfixLoopG ub e)"
proof (rule rightI)
  fix s
  assume s: "good s" and fuel: "fuelFor 1 (Suc n) s"
  note f = fuelFor_advance [OF fuel s]
  have goOn: "ran s1 (postfixLoop ub n e' s1) (\<lambda>us. postfixLoopG ub e (pre @ us))"
    if "good s1" "fuelFor 1 n s1" and e': "\<And>us. gPostfix ub us e \<Longrightarrow> gPostfix ub (us @ pre) e'" for s1 e' pre
  proof (rule ran_mono, rule right_ran [OF allRightD(12) [OF IH] that(1,2)])
    fix us s2 r
    assume l: "postfixLoopG ub e' us s2 r"
    show "postfixLoopG ub e (pre @ us) s2 r"
      unfolding postfixLoopG_def
    proof (intro allI impI)
      fix vs
      assume "gPostfix ub vs e"
      hence "gPostfix ub ((vs @ pre) @ us) r" using e' l unfolding postfixLoopG_def by blast
      thus "gPostfix ub (vs @ pre @ us) r" by simp
    qed
  qed
  consider (call) "checkTok TK_LParen s" | (index) "checkTok TK_LSquare s" | (no) "\<not> checkTok TK_LParen s" "\<not> checkTok TK_LSquare s"
    by blast
  thus "ran s (postfixLoop ub (Suc n) e s) (postfixLoopG ub e)"
  proof cases
    case call
    hence k: "kindAt 0 s = TK_LParen" "kindAt 0 s \<noteq> TK_Eof" by (simp_all add: checkTok_def)
    note adv = advance_facts [OF s k(2)]
    have "ran (advanceTok s) (andThen (\<lambda>s1. if checkTok TK_RParen s1 then yield [] s1 else argsLoop ub n s1) (\<lambda>args.
         andThen (expect TK_RParen) (\<lambda>_. postfixLoop ub n (bareExpr (Call e args) (expr_loc e)))) (advanceTok s))
        (\<lambda>us. postfixLoopG ub e (peekTok 0 s # us))"
    proof (rule ran_then_expect)
      show "ran (advanceTok s) (if checkTok TK_RParen (advanceTok s) then yield [] (advanceTok s) else argsLoop ub n (advanceTok s))
          (only (gArgs ub))"
      proof (cases "checkTok TK_RParen (advanceTok s)")
        case True
        thus ?thesis using adv(1) g_no_args by (simp add: ran_yield only_def)
      next
        case False
        have "ran (advanceTok s) (argsLoop ub n (advanceTok s)) (only (gArgs ub))"
          using ran_mono [OF right_ran [OF allRightD(13) [OF IH] adv(1) f [OF k(2)]]] by (simp add: only_def)
        thus ?thesis using False by simp
      qed
    next
      fix args s1 ts and t :: token
      assume s1: "good s1" "rest (advanceTok s) = (ts @ [t]) @ rest s1" and t: "tok_kind t = TK_RParen"
        and g: "\<exists>s'. only (gArgs ub) ts s' args"
      have f1: "fuelFor 1 n s1" using fuelFor_split [OF f [OF k(2), of 1] s1(2)] by simp
      have step: "gPostfix ub vs e \<Longrightarrow> gPostfix ub (vs @ peekTok 0 s # ts @ [t]) (bareExpr (Call e args) (expr_loc e))" for vs
        using g k t by (auto simp: only_def kindsOf_def intro: g_call)
      show "ran s1 (postfixLoop ub n (bareExpr (Call e args) (expr_loc e)) s1) (\<lambda>us. postfixLoopG ub e (peekTok 0 s # ts @ t # us))"
        using goOn [OF s1(1) f1 step] by simp
    qed simp
    thus ?thesis using call ran_advance [OF s k(2)] by simp
  next
    case index
    hence k: "kindAt 0 s = TK_LSquare" "kindAt 0 s \<noteq> TK_Eof" and nl: "\<not> checkTok TK_LParen s" by (simp_all add: checkTok_def)
    note adv = advance_facts [OF s k(2)]
    have "ran (advanceTok s) (andThen (parseAssignment ub n) (\<lambda>i.
         andThen (expect TK_RSquare) (\<lambda>_. postfixLoop ub n (bareExpr (Index e i) (locHere s)))) (advanceTok s))
        (\<lambda>us. postfixLoopG ub e (peekTok 0 s # us))"
    proof (rule ran_then_expect, rule right_ran [OF allRightD(7) [OF IH] adv(1)])
      show "fuelFor 5 n (advanceTok s)" using f [OF k(2)] by simp
    next
      fix i s1 ts and t :: token
      assume s1: "good s1" "rest (advanceTok s) = (ts @ [t]) @ rest s1" and t: "tok_kind t = TK_RSquare"
        and g: "\<exists>s'. only (gAssign ub) ts s' i"
      have f1: "fuelFor 1 n s1" using fuelFor_split [OF f [OF k(2), of 1] s1(2)] by simp
      have step: "gPostfix ub vs e \<Longrightarrow> gPostfix ub (vs @ peekTok 0 s # ts @ [t]) (bareExpr (Index e i) (locHere s))" for vs
        using g k t by (auto simp: only_def kindsOf_def intro: g_index)
      show "ran s1 (postfixLoop ub n (bareExpr (Index e i) (locHere s)) s1) (\<lambda>us. postfixLoopG ub e (peekTok 0 s # ts @ t # us))"
        using goOn [OF s1(1) f1 step] by simp
    qed simp
    thus ?thesis using index nl ran_advance [OF s k(2)] by simp
  next
    case no
    thus ?thesis using s by (auto simp: postfixLoopG_def intro!: ran_yield)
  qed
qed

lemma parsePostfix_right:
  assumes IH: "allRight ub n"
  shows "right 2 (Suc n) (parsePostfix ub (Suc n)) (\<lambda>s. only (gPostfix ub))"
proof (rule rightI)
  fix s
  assume s: "good s" and fuel: "fuelFor 2 (Suc n) s"
  show "ran s (parsePostfix ub (Suc n) s) (only (gPostfix ub))"
    unfolding parsePostfix.simps
  proof (rule ran_andThen, rule right_ran [OF allRightD(14) [OF IH] s])
    show "fuelFor 1 n s" using fuelFor_call [OF fuel] by simp
  next
    fix e s1 ts
    assume s1: "good s1" "rest s = ts @ rest s1" and g: "only (gPrimary ub) ts s1 e"
    have "ts \<noteq> []" using g expr_nonempty(1) by (auto simp: only_def)
    hence f: "fuelFor 1 n s1" using fuelFor_consumed [OF fuel s1(2)] by simp
    show "ran s1 (postfixLoop ub n e s1) (\<lambda>us. only (gPostfix ub) (ts @ us))"
      by (rule ran_mono [OF right_ran [OF allRightD(12) [OF IH] s1(1) f]])
        (use g in \<open>auto simp: postfixLoopG_def only_def intro: g_primary\<close>)
  qed
qed

lemma intLiteral_ran:
  assumes "good s" "tok_kind t = TK_IntLiteral"
  shows "ran s (intLiteral t s) (\<lambda>us s' e. us = [] \<and> gPrimary ub [t] e)"
  using assms g_int [of t _ ub] by (auto simp: intLiteral_def ran_reject ran_yield split: sum.split)

lemma floatLiteral_ran:
  assumes "good s" "tok_kind t = TK_FloatLiteral"
  shows "ran s (floatLiteral t s) (\<lambda>us s' e. us = [] \<and> gPrimary ub [t] e)"
  using assms g_float [of t _ ub] by (auto simp: floatLiteral_def ran_reject ran_yield split: sum.split)

lemma charLiteral_ran:
  assumes "good s" "tok_kind t = TK_CharLiteral"
  shows "ran s (charLiteral t s) (\<lambda>us s' e. us = [] \<and> gPrimary ub [t] e)"
  using assms g_char [of t _ ub] by (auto simp: charLiteral_def ran_reject ran_yield split: sum.split)

text \<open>A token that is a primary expression by itself.\<close>

lemma ran_single:
  assumes "good s" "kindAt 0 s \<noteq> TK_Eof"
    and "good (advanceTok s) \<Longrightarrow> ran (advanceTok s) res (\<lambda>us s' e. us = [] \<and> gPrimary ub [peekTok 0 s] e)"
  shows "ran s res (only (gPrimary ub))"
  by (rule ran_advance [OF assms(1,2)], rule ran_mono [OF assms(3)])
    (use advance_facts(1) [OF assms(1,2)] in \<open>auto simp: only_def\<close>)

lemma parsePrimary_right:
  assumes IH: "allRight ub n"
  shows "right 1 (Suc n) (parsePrimary ub (Suc n)) (\<lambda>s. only (gPrimary ub))"
proof (rule rightI)
  fix s
  assume s: "good s" and fuel: "fuelFor 1 (Suc n) s"
  consider (name) "kindAt 0 s = TK_Identifier" | (int) "kindAt 0 s = TK_IntLiteral" | (float) "kindAt 0 s = TK_FloatLiteral"
    | (char) "kindAt 0 s = TK_CharLiteral" | (string) "kindAt 0 s = TK_StringLiteral" | (paren) "kindAt 0 s = TK_LParen"
    | (no) "kindAt 0 s \<notin> {TK_Identifier, TK_IntLiteral, TK_FloatLiteral, TK_CharLiteral, TK_StringLiteral, TK_LParen}"
    by blast
  thus "ran s (parsePrimary ub (Suc n) s) (only (gPrimary ub))"
  proof cases
    case name
    hence k: "kindAt 0 s \<noteq> TK_Eof" by simp
    show ?thesis
      by (rule ran_single [OF s k]) (use name g_name [OF name, of ub] in \<open>simp add: ran_yield Let_def\<close>)
  next
    case int
    hence k: "kindAt 0 s \<noteq> TK_Eof" by simp
    show ?thesis by (rule ran_single [OF s k]) (use int intLiteral_ran in simp)
  next
    case float
    hence k: "kindAt 0 s \<noteq> TK_Eof" by simp
    show ?thesis by (rule ran_single [OF s k]) (use float floatLiteral_ran in simp)
  next
    case char
    hence k: "kindAt 0 s \<noteq> TK_Eof" by simp
    show ?thesis by (rule ran_single [OF s k]) (use char charLiteral_ran in simp)
  next
    case string
    have "ran s (andThen (stringParts n []) (\<lambda>bytes. yield (bareExpr (StringLiteral bytes) (locHere s))) s) (only (gPrimary ub))"
    proof (rule ran_andThen, rule stringParts_ran [OF s fuelFor_length [OF fuel _ s]])
      show "(0 :: nat) < 1" by simp
    next
      fix bytes s1 ts
      assume s1: "good s1" "rest s = ts @ rest s1"
        and g: "\<exists>bs. gStrings ts bs \<and> bytes = [] @ bs \<and> (checkTok TK_StringLiteral s \<longrightarrow> ts \<noteq> [])"
      then obtain t us where ts: "ts = t # us" using string by (cases ts) (auto simp: checkTok_def)
      hence t: "t = peekTok 0 s" using s1(2) rest_hd [OF s] by simp
      show "ran s1 (yield (bareExpr (StringLiteral bytes) (locHere s)) s1) (\<lambda>us. only (gPrimary ub) (ts @ us))"
        using s1(1) g ts t g_string [of t us bytes ub] by (auto simp: only_def intro!: ran_yield)
    qed
    thus ?thesis using string by (simp add: Let_def)
  next
    case paren
    hence k: "kindAt 0 s \<noteq> TK_Eof" by simp
    note adv = advance_facts [OF s k]
    have "ran (advanceTok s) (andThen (parseAssignment ub n) (\<lambda>inner. andThen (expect TK_RParen) (\<lambda>_. yield inner)) (advanceTok s))
        (\<lambda>us. only (gPrimary ub) (peekTok 0 s # us))"
    proof (rule ran_then_expect, rule right_ran [OF allRightD(7) [OF IH] adv(1)])
      show "fuelFor 5 n (advanceTok s)" using fuelFor_advance [OF fuel s k] by simp
    next
      fix e s1 ts and t :: token
      assume s1: "good s1" and t: "tok_kind t = TK_RParen" and g: "\<exists>s'. only (gAssign ub) ts s' e"
      have "gPrimary ub (peekTok 0 s # ts @ [t]) e"
        using g paren t by (auto simp: only_def kindsOf_def intro: g_paren)
      thus "ran s1 (yield e s1) (\<lambda>us. only (gPrimary ub) (peekTok 0 s # ts @ t # us))"
        using s1 by (auto simp: only_def intro!: ran_yield)
    qed simp
    thus ?thesis using paren ran_advance [OF s k] by (simp add: Let_def)
  next
    case no
    thus ?thesis using s by (cases "kindAt 0 s") (simp_all add: Let_def ran_reject)
  qed
qed

lemma not_type_ahead:
  assumes s: "good s" and ts: "rest s = ts @ us" and "\<not> (checkTok TK_LParen s \<and> isTypeStart (kindAt 1 s))"
  shows "\<not> startsWithType ts"
proof
  assume "startsWithType ts"
  then obtain lp t vs where ts': "ts = lp # t # vs" "tok_kind lp = TK_LParen" "isTypeStart (tok_kind t)"
    by (auto simp: startsWithType_def split: list.splits)
  hence lp: "kindAt 0 s = TK_LParen" and k: "kindAt 0 s \<noteq> TK_Eof" using rest_hd [OF s] ts by auto
  note adv = advance_facts [OF s k]
  have "rest (advanceTok s) = t # vs @ us" using adv(2) ts ts'(1) by simp
  hence "peekTok 1 s = t" using adv(6) rest_hd [OF adv(1)] by simp
  thus False using assms(3) lp ts'(3) by (simp add: checkTok_def)
qed

lemma parseUnary_right:
  assumes IH: "allRight ub n"
  shows "right 3 (Suc n) (parseUnary ub (Suc n)) (\<lambda>s. only (gUnary ub))"
proof (rule rightI)
  fix s
  assume s: "good s" and fuel: "fuelFor 3 (Suc n) s"
  note f = fuelFor_advance [OF fuel s]
  have operand: "ran s1 (andThen (parseUnary ub n) (\<lambda>x. yield (g x)) s1) (\<lambda>us. only (gUnary ub) (pre @ us))"
    if "good s1" "fuelFor 3 n s1" "\<And>us x s2. rest s1 = us @ rest s2 \<Longrightarrow> gUnary ub us x \<Longrightarrow> gUnary ub (pre @ us) (g x)" for s1 pre g
  proof (rule ran_andThen, rule right_ran [OF allRightD(10) [OF IH] that(1,2)])
    fix x s2 us
    assume "good s2" "rest s1 = us @ rest s2" "only (gUnary ub) us s2 x"
    thus "ran s2 (yield (g x) s2) (\<lambda>vs. only (gUnary ub) (pre @ us @ vs))"
      using that(3) by (simp add: ran_yield only_def)
  qed
  consider (op) op where "unaryOperator (kindAt 0 s) = Some op"
    | (sizeof) "unaryOperator (kindAt 0 s) = None" "checkTok TK_KwSizeof s"
    | (cast) "unaryOperator (kindAt 0 s) = None" "\<not> checkTok TK_KwSizeof s" "checkTok TK_LParen s \<and> isTypeStart (kindAt 1 s)"
    | (post) "unaryOperator (kindAt 0 s) = None" "\<not> checkTok TK_KwSizeof s" "\<not> (checkTok TK_LParen s \<and> isTypeStart (kindAt 1 s))"
    by (cases "unaryOperator (kindAt 0 s)") auto
  thus "ran s (parseUnary ub (Suc n) s) (only (gUnary ub))"
  proof cases
    case op
    hence k: "kindAt 0 s \<noteq> TK_Eof" by auto
    have "ran (advanceTok s) (andThen (parseUnary ub n) (\<lambda>x. yield (bareExpr (Unary op x) (locHere s))) (advanceTok s))
        (\<lambda>us. only (gUnary ub) ([peekTok 0 s] @ us))"
      by (rule operand [OF advance_facts(1) [OF s k]]) (use f [OF k] g_unary [OF op, of ub] in auto)
    thus ?thesis using op ran_advance [OF s k] by simp
  next
    case sizeof
    hence kw: "kindAt 0 s = TK_KwSizeof" and k: "kindAt 0 s \<noteq> TK_Eof" by (simp_all add: checkTok_def)
    note adv = advance_facts [OF s k]
    define s1 where "s1 = advanceTok s"
    have s1: "good s1" and f1: "fuelFor lvl n s1" if "lvl \<le> 12" for lvl using adv(1) f [OF k, of lvl] that by (simp_all add: s1_def)
    have s1: "good s1" using adv(1) by (simp add: s1_def)
    show ?thesis
    proof (cases "checkTok TK_LParen s1 \<and> isTypeStart (kindAt 1 s1)")
      case True
      hence lp: "kindAt 0 s1 = TK_LParen" and k1: "kindAt 0 s1 \<noteq> TK_Eof" by (simp_all add: checkTok_def)
      note adv1 = advance_facts [OF s1 k1]
      have f2: "fuelFor 2 n (advanceTok s1)"
        using fuelFor_split [OF f1 [of 2], of "[peekTok 0 s1]" "advanceTok s1"] adv1(2) by simp
      have "ran (advanceTok s1) (andThen (parseTypeName ub n) (\<lambda>t.
            andThen (expect TK_RParen) (\<lambda>_. yield (bareExpr (SizeOfType t) (locHere s)))) (advanceTok s1))
          (\<lambda>us. only (gUnary ub) (peekTok 0 s # peekTok 0 s1 # us))"
      proof (rule ran_then_expect, rule right_ran [OF allRightD(6) [OF IH] adv1(1) f2])
        fix ty s2 ts and t :: token
        assume "good s2" "tok_kind t = TK_RParen" "\<exists>s'. only (gTypeName ub) ts s' ty"
        thus "ran s2 (yield (bareExpr (SizeOfType ty) (locHere s)) s2)
            (\<lambda>us. only (gUnary ub) (peekTok 0 s # peekTok 0 s1 # ts @ t # us))"
          using kw lp by (auto simp: only_def kindsOf_def intro!: ran_yield g_sizeof_type)
      qed simp
      hence "ran s1 (andThen (parseTypeName ub n) (\<lambda>t.
            andThen (expect TK_RParen) (\<lambda>_. yield (bareExpr (SizeOfType t) (locHere s)))) (advanceTok s1))
          (\<lambda>us. only (gUnary ub) (peekTok 0 s # us))"
        by (rule ran_advance [OF s1 k1])
      thus ?thesis using sizeof True ran_advance [OF s k] by (simp add: Let_def s1_def)
    next
      case False
      have "ran s1 (andThen (parseUnary ub n) (\<lambda>x. yield (bareExpr (SizeOfExpr x) (locHere s))) s1)
          (\<lambda>us. only (gUnary ub) ([peekTok 0 s] @ us))"
      proof (rule operand [OF s1 f1])
        fix us x s2
        assume us: "rest s1 = us @ rest s2" "gUnary ub us x"
        hence "\<not> startsWithType us" using False not_type_ahead [OF s1] by blast
        thus "gUnary ub ([peekTok 0 s] @ us) (bareExpr (SizeOfExpr x) (locHere s))"
          using g_sizeof [OF kw us(2)] by simp
      qed simp
      hence "ran s (andThen (parseUnary ub n) (\<lambda>x. yield (bareExpr (SizeOfExpr x) (locHere s))) s1) (only (gUnary ub))"
        unfolding s1_def by (intro ran_advance [OF s k]) simp
      thus ?thesis using sizeof False by (auto simp: Let_def s1_def)
    qed
  next
    case cast
    hence lp: "kindAt 0 s = TK_LParen" and k: "kindAt 0 s \<noteq> TK_Eof" by (simp_all add: checkTok_def)
    note adv = advance_facts [OF s k]
    have "ran (advanceTok s) (andThen (parseTypeName ub n) (\<lambda>t.
         andThen (expect TK_RParen) (\<lambda>_.
           andThen (parseUnary ub n)
             (\<lambda>x. yield (Expr (Cast CK_Unresolved False x) (locHere s) (Some t) RValue)))) (advanceTok s))
        (\<lambda>us. only (gUnary ub) (peekTok 0 s # us))"
    proof (rule ran_then_expect, rule right_ran [OF allRightD(6) [OF IH] adv(1)])
      show "fuelFor 2 n (advanceTok s)" using f [OF k] by simp
    next
      fix ty s2 ts and t :: token
      assume s2: "good s2" "rest (advanceTok s) = (ts @ [t]) @ rest s2" and t: "tok_kind t = TK_RParen"
        and g: "\<exists>s'. only (gTypeName ub) ts s' ty"
      have f2: "fuelFor 3 n s2" using fuelFor_split [OF f [OF k, of 3] s2(2)] by simp
      have "ran s2 (andThen (parseUnary ub n) (\<lambda>x. yield (Expr (Cast CK_Unresolved False x) (locHere s) (Some ty) RValue)) s2)
          (\<lambda>us. only (gUnary ub) ((peekTok 0 s # ts @ [t]) @ us))"
      proof (rule operand [OF s2(1) f2])
        fix us x
        assume "gUnary ub us x"
        thus "gUnary ub ((peekTok 0 s # ts @ [t]) @ us) (Expr (Cast CK_Unresolved False x) (locHere s) (Some ty) RValue)"
          using g lp t g_cast [of "peekTok 0 s" t ub ts ty us x] by (auto simp: only_def kindsOf_def)
      qed
      thus "ran s2 (andThen (parseUnary ub n) (\<lambda>x. yield (Expr (Cast CK_Unresolved False x) (locHere s) (Some ty) RValue)) s2)
          (\<lambda>us. only (gUnary ub) (peekTok 0 s # ts @ t # us))"
        by simp
    qed simp
    thus ?thesis using cast ran_advance [OF s k] by simp
  next
    case post
    have "ran s (parsePostfix ub n s) (only (gPostfix ub))"
      by (rule right_ran [OF allRightD(11) [OF IH] s]) (use fuelFor_call [OF fuel] in simp)
    hence "ran s (parsePostfix ub n s) (only (gUnary ub))"
      by (rule ran_mono) (simp add: only_def g_postfix)
    thus ?thesis using post by auto
  qed
qed

section \<open>All together\<close>

theorem expressions_right: "allRight ub n"
proof (induction n)
  case 0
  show ?case by (simp add: allRight_def right_zero)
next
  case (Suc n)
  show ?case
    unfolding allRight_def
    by (intro conjI allI parseDeclarator_right [OF Suc] suffixLoop_right [OF Suc] parseArrayLength_right [OF Suc]
        parseParams_right [OF Suc] paramsLoop_right [OF Suc] parseTypeName_right [OF Suc] parseAssignment_right [OF Suc]
        parseBinary_right [OF Suc] binaryLoop_right [OF Suc] parseUnary_right [OF Suc] parsePostfix_right [OF Suc]
        postfixLoop_right [OF Suc] argsLoop_right [OF Suc] parsePrimary_right [OF Suc])
qed

end
