(* ===== verification/ParseInit.thy ===== *)
theory ParseInit
  imports ParseExpr
begin

text \<open>
  Initializers and the declarators of a declaration derive what they consume, with the calculus of
  \<open>ParseRun\<close> over the expressions of \<open>ParseExpr\<close>.
\<close>

declare only_def [simp]

lemma checkTok_kind: "checkTok k s \<Longrightarrow> kindAt 0 s = k"
  by (simp add: checkTok_def)

lemma parseAssignment_ran:
  "good s \<Longrightarrow> fuelFor 5 n s \<Longrightarrow> ran s (parseAssignment ub n s) (only (gAssign ub))"
  by (rule right_ran [OF allRightD(7) [OF expressions_right]])

lemma fuelFor_same: "fuelFor lvl n s \<Longrightarrow> lvl' \<le> lvl \<Longrightarrow> fuelFor lvl' n s"
  by (simp add: fuelFor_def)

lemma fuelFor_token:
  "fuelFor lvl n s \<Longrightarrow> good s \<Longrightarrow> kindAt 0 s \<noteq> TK_Eof \<Longrightarrow> lvl' \<le> 10 + lvl \<Longrightarrow> fuelFor lvl' n (advanceTok s)"
  using advance_facts(2) [of s] by (auto simp: fuelFor_def)

lemma fuelFor_after:
  "fuelFor lvl n s \<Longrightarrow> rest s = ts @ rest s' \<Longrightarrow> ts \<noteq> [] \<Longrightarrow> lvl' \<le> 10 + lvl \<Longrightarrow> fuelFor lvl' n s'"
  by (cases ts) (auto simp: fuelFor_def)

lemma hd_consumed: "good s \<Longrightarrow> rest s = ts @ rest s' \<Longrightarrow> ts \<noteq> [] \<Longrightarrow> hd ts = peekTok 0 s"
  using rest_hd [of s] by simp

section \<open>Initializers\<close>

lemma initializers_right:
  "right 6 n (parseInitializer ub n) (\<lambda>s. only (gInit ub)) \<and> right 7 n (itemsLoop ub n) (\<lambda>s. only (gItems ub))"
proof (induction n)
  case 0
  show ?case by (simp add: right_zero)
next
  case (Suc n)
  hence init: "right 6 n (parseInitializer ub n) (\<lambda>s. only (gInit ub))"
    and items: "right 7 n (itemsLoop ub n) (\<lambda>s. only (gItems ub))" by blast+
  have "ran s (parseInitializer ub (Suc n) s) (only (gInit ub))" if s: "good s" and fuel: "fuelFor 6 (Suc n) s" for s
  proof (cases "checkTok TK_LBrace s")
    case True
    note k = checkTok_kind [OF True]
    have "ran (advanceTok s) (andThen (itemsLoop ub n) (\<lambda>items.
         andThen (expect TK_RBrace) (\<lambda>_. yield (InitList items (locHere s)))) (advanceTok s))
        (\<lambda>us. only (gInit ub) (peekTok 0 s # us))"
    proof (rule ran_then_expect, rule right_ran [OF items])
      show "good (advanceTok s)" "fuelFor 7 n (advanceTok s)"
        using advance_facts(1) [OF s] fuelFor_advance [OF fuel s] k by simp_all
    next
      fix xs s1 ts and t :: token
      assume "good s1" "tok_kind t = TK_RBrace" "\<exists>s'. only (gItems ub) ts s' xs"
      thus "ran s1 (yield (InitList xs (locHere s)) s1) (\<lambda>us. only (gInit ub) (peekTok 0 s # ts @ t # us))"
        using k by (auto simp: kindsOf_def intro!: ran_yield g_init_list)
    qed simp
    thus ?thesis using True k by (simp add: ran_advance [OF s])
  next
    case False
    have "ran s (andThen (parseAssignment ub n) (\<lambda>e. yield (InitExpr e (locHere s))) s) (only (gInit ub))"
    proof (rule ran_andThen, rule parseAssignment_ran [OF s])
      show "fuelFor 5 n s" by (rule fuelFor_call [OF fuel]) simp
    next
      fix e s1 ts
      assume s1: "good s1" "rest s = ts @ rest s1" and g: "only (gAssign ub) ts s1 e"
      have "tok_loc (hd ts) = locHere s" using hd_consumed [OF s s1(2)] expr_nonempty(5) g by auto
      thus "ran s1 (yield (InitExpr e (locHere s)) s1) (\<lambda>us. only (gInit ub) (ts @ us))"
        using s1 g g_init_expr [of ub ts e] by (simp add: ran_yield)
    qed
    thus ?thesis using False by simp
  qed
  moreover have "ran s (itemsLoop ub (Suc n) s) (only (gItems ub))" if s: "good s" and fuel: "fuelFor 7 (Suc n) s" for s
  proof (cases "checkTok TK_RBrace s")
    case True
    thus ?thesis using s by (simp add: ran_yield g_no_items)
  next
    case False
    have "ran s (andThen (parseInitializer ub n) (\<lambda>item s1.
       if checkTok TK_Comma s1 then andThen (itemsLoop ub n) (\<lambda>items. yield (item # items)) (advanceTok s1)
       else yield [item] s1) s) (only (gItems ub))"
    proof (rule ran_andThen, rule right_ran [OF init s])
      show "fuelFor 6 n s" by (rule fuelFor_call [OF fuel]) simp
    next
      fix i s1 ts
      assume s1: "good s1" "rest s = ts @ rest s1" and g: "only (gInit ub) ts s1 i"
      have f1: "fuelFor 7 n s1" by (rule fuelFor_consumed [OF fuel s1(2)]) (use g gInit_nonempty in auto)
      show "ran s1 (if checkTok TK_Comma s1 then andThen (itemsLoop ub n) (\<lambda>items. yield (i # items)) (advanceTok s1)
           else yield [i] s1) (\<lambda>us. only (gItems ub) (ts @ us))"
      proof (cases "checkTok TK_Comma s1")
        case True
        note k = checkTok_kind [OF True]
        have "ran (advanceTok s1) (andThen (itemsLoop ub n) (\<lambda>items. yield (i # items)) (advanceTok s1))
            (\<lambda>us. only (gItems ub) (ts @ peekTok 0 s1 # us))"
        proof (rule ran_andThen, rule right_ran [OF items])
          show "good (advanceTok s1)" "fuelFor 7 n (advanceTok s1)"
            using advance_facts(1) [OF s1(1)] fuelFor_token [OF f1 s1(1)] k by simp_all
        next
          fix xs s2 us
          assume "good s2" "only (gItems ub) us s2 xs"
          thus "ran s2 (yield (i # xs) s2) (\<lambda>vs. only (gItems ub) (ts @ peekTok 0 s1 # us @ vs))"
            using g g_item [OF _ k] by (simp add: ran_yield)
        qed
        thus ?thesis using True k by (simp add: ran_advance [OF s1(1)])
      next
        case False
        thus ?thesis using s1 g g_last_item [of ub ts i] by (simp add: ran_yield)
      qed
    qed
    thus ?thesis using False by simp
  qed
  ultimately show ?case unfolding right_def by blast
qed

lemma parseInitializer_ran:
  "good s \<Longrightarrow> fuelFor 6 n s \<Longrightarrow> ran s (parseInitializer ub n s) (only (gInit ub))"
  using initializers_right [of n ub] unfolding right_def by blast

section \<open>Variables\<close>

lemma gDeclarator_nonempty: "gDeclarator ub False t f ts d \<Longrightarrow> ts \<noteq> []"
  by (auto elim: gDeclarator.cases gDirect.cases)

lemma gVar_nonempty: "gVar ub base c ts v \<Longrightarrow> ts \<noteq> []"
  by (auto elim: gVar.cases dest: gDeclarator_nonempty)

lemma varOf_grammar: "isConstObject spec t = constObject (sp_isConst spec) t"
  by (simp add: isConstObject_def constObject_def)

lemma finishVarDecl_ran:
  assumes s: "good s" and fuel: "fuelFor 0 n s"
    and d: "gDeclarator ub False base None ts d" and f: "dd_function d = None"
  shows "ran s (finishVarDecl ub n spec d s) (\<lambda>us s' v. gVar ub base (sp_isConst spec) (ts @ us) v)"
proof -
  consider (void) "isVoid (dd_type d)" | (init) "\<not> isVoid (dd_type d)" "checkTok TK_Equal s"
    | (none) "\<not> isVoid (dd_type d)" "\<not> checkTok TK_Equal s" by blast
  thus ?thesis
  proof cases
    case void
    thus ?thesis using s by (simp add: finishVarDecl_def ran_reject)
  next
    case init
    note k = checkTok_kind [OF init(2)]
    have "ran (advanceTok s) (andThen (parseInitializer ub n) (\<lambda>init. yield (varOf spec d (Some init))) (advanceTok s))
        (\<lambda>us s' v. gVar ub base (sp_isConst spec) (ts @ peekTok 0 s # us) v)"
    proof (rule ran_andThen, rule parseInitializer_ran)
      show "good (advanceTok s)" "fuelFor 6 n (advanceTok s)"
        using advance_facts(1) [OF s] fuelFor_token [OF fuel s] k by simp_all
    next
      fix i s2 us
      assume "good s2" "only (gInit ub) us s2 i"
      thus "ran s2 (yield (varOf spec d (Some i)) s2) (\<lambda>vs s' v. gVar ub base (sp_isConst spec) (ts @ peekTok 0 s # us @ vs) v)"
        using g_var_init [OF d f init(1) k, of us i "sp_isConst spec"] by (auto simp: varOf_def varOf_grammar intro!: ran_yield)
    qed
    thus ?thesis using init k by (simp add: finishVarDecl_def ran_advance [OF s])
  next
    case none
    thus ?thesis using s g_var [OF d f none(1), of "sp_isConst spec"]
      by (auto simp: finishVarDecl_def varOf_def varOf_grammar intro!: ran_yield)
  qed
qed

text \<open>A variable and what follows its declarator, in a list of declarators.\<close>

lemma declaratorsLoop_ran:
  "good s \<Longrightarrow> fuelFor 3 n s \<Longrightarrow> sp_base spec = Some base \<Longrightarrow>
     ran s (declaratorsLoop ub n spec s) (only (gVars ub base (sp_isConst spec)))"
proof (induction n arbitrary: s)
  case 0
  thus ?case by (simp add: fuelFor_def)
next
  case (Suc n)
  let ?vars = "gVars ub base (sp_isConst spec)"
  have f0: "fuelFor 2 n s" by (rule fuelFor_call [OF Suc.prems(2)]) simp
  show ?case
    unfolding declaratorsLoop.simps
  proof (rule ran_declared [OF expressions_right Suc.prems(1) f0])
    fix d :: declared and s1 ts
    assume s1: "good s1" "rest s = ts @ rest s1" and "gDeclarator ub False (the (sp_base spec)) None ts d"
    hence d: "gDeclarator ub False base None ts d" using Suc.prems(3) by simp
    have f1: "fuelFor 0 n s1" "fuelFor 3 n s1"
      using fuelFor_consumed [OF Suc.prems(2) s1(2) gDeclarator_nonempty [OF d]] by simp_all
    show "ran s1 (if dd_function d \<noteq> None then reject (dd_loc d) ''functions must be declared at file scope'' s1
         else andThen (finishVarDecl ub n spec d) (\<lambda>var s1.
           if checkTok TK_Comma s1 then
             andThen (declaratorsLoop ub n spec) (\<lambda>vars. yield (var # vars)) (advanceTok s1)
           else yield [var] s1) s1) (\<lambda>us. only ?vars (ts @ us))"
    proof (cases "dd_function d")
      case (Some fn)
      thus ?thesis using s1 by (simp add: ran_reject)
    next
      case None
      have "ran s1 (andThen (finishVarDecl ub n spec d) (\<lambda>var s1.
           if checkTok TK_Comma s1 then
             andThen (declaratorsLoop ub n spec) (\<lambda>vars. yield (var # vars)) (advanceTok s1)
           else yield [var] s1) s1) (\<lambda>us. only ?vars (ts @ us))"
      proof (rule ran_andThen, rule finishVarDecl_ran [OF s1(1) f1(1) d None])
        fix v s2 us
        assume s2: "good s2" "rest s1 = us @ rest s2" and v: "gVar ub base (sp_isConst spec) (ts @ us) v"
        show "ran s2 (if checkTok TK_Comma s2 then
             andThen (declaratorsLoop ub n spec) (\<lambda>vars. yield (v # vars)) (advanceTok s2)
           else yield [v] s2) (\<lambda>vs. only ?vars (ts @ us @ vs))"
        proof (cases "checkTok TK_Comma s2")
          case False
          thus ?thesis using s2 g_last_var [OF v] by (simp add: ran_yield)
        next
          case True
          note k = checkTok_kind [OF True]
          have f2: "fuelFor 3 n (advanceTok s2)"
            by (rule fuelFor_token [OF fuelFor_split [OF f1(2) s2(2)] s2(1)]) (use k in simp_all)
          have "ran (advanceTok s2) (andThen (declaratorsLoop ub n spec) (\<lambda>vars. yield (v # vars)) (advanceTok s2))
              (\<lambda>vs. only ?vars (ts @ us @ peekTok 0 s2 # vs))"
          proof (rule ran_andThen, rule Suc.IH [OF _ f2 Suc.prems(3)])
            show "good (advanceTok s2)" using advance_facts(1) [OF s2(1)] k by simp
          next
            fix vs s3 ws
            assume "good s3" "only ?vars ws s3 vs"
            thus "ran s3 (yield (v # vs) s3) (\<lambda>xs. only ?vars (ts @ us @ peekTok 0 s2 # ws @ xs))"
              using g_vars [OF v k, of ws vs] by (simp add: ran_yield)
          qed
          thus ?thesis using True k by (simp add: ran_advance [OF s2(1)])
        qed
      qed
      thus ?thesis using None by simp
    qed
  qed
qed

lemma parseDeclStmt_ran:
  assumes s: "good s" and fuel: "fuelFor 3 n s"
  shows "ran s (parseDeclStmt ub n s) (only (gStmt ub))"
  unfolding parseDeclStmt_def
proof (rule ran_andThen, rule parseDeclSpec_ran [OF s])
  show "length (rest s) < n" using fuel by (auto simp: fuelFor_def)
next
  fix spec :: decl_spec and s1 ss
  assume s1: "good s1" "rest s = ss @ rest s1"
    and sp: "gSpec ss (the (sp_base spec)) (sp_isConst spec) \<and> sp_base spec \<noteq> None"
  then obtain base where base: "sp_base spec = Some base" "gSpec ss base (sp_isConst spec)" by auto
  have l: "locHere s = tok_loc (hd ss)" using hd_consumed [OF s s1(2) gSpec_nonempty [OF base(2)]] by simp
  show "ran s1 (andThen (declaratorsLoop ub n spec) (\<lambda>vars.
         andThen (expect TK_Semi) (\<lambda>_. yield (Stmt (DeclStmt vars) (locHere s)))) s1) (\<lambda>us. only (gStmt ub) (ss @ us))"
  proof (rule ran_then_expect, rule declaratorsLoop_ran [OF s1(1) fuelFor_split [OF fuel s1(2)] base(1)])
    fix vs s2 ts and t :: token
    assume "good s2" "tok_kind t = TK_Semi" "\<exists>s'. only (gVars ub base (sp_isConst spec)) ts s' vs"
    thus "ran s2 (yield (Stmt (DeclStmt vs) (locHere s)) s2) (\<lambda>us. only (gStmt ub) (ss @ ts @ t # us))"
      using g_decl [OF base(2), of ub ts vs t] by (auto simp: l intro!: ran_yield)
  qed simp
qed

section \<open>The simple statements\<close>

lemma parseCondition_ran:
  assumes s: "good s" and fuel: "fuelFor 5 n s"
  shows "ran s (parseCondition ub n s) (\<lambda>ts s' e. \<exists>lp rp us. ts = lp # us @ [rp] \<and> kindsOf [lp, rp] = [TK_LParen, TK_RParen] \<and>
     gAssign ub us e)"
  unfolding parseCondition_def
proof (rule ran_andThen, rule ran_expect [OF s])
  fix u :: unit and s1 ts
  assume s1: "good s1" "rest s = ts @ rest s1" and "\<exists>t. ts = [t] \<and> tok_kind t = TK_LParen"
  then obtain lp where lp: "ts = [lp]" "tok_kind lp = TK_LParen" by blast
  show "ran s1 (andThen (parseAssignment ub n) (\<lambda>cond. andThen (expect TK_RParen) (\<lambda>_. yield cond)) s1)
      (\<lambda>us s' e. \<exists>lp rp vs. ts @ us = lp # vs @ [rp] \<and> kindsOf [lp, rp] = [TK_LParen, TK_RParen] \<and> gAssign ub vs e)"
    by (rule ran_then_expect, rule parseAssignment_ran [OF s1(1) fuelFor_split [OF fuel s1(2)]])
      (use lp in \<open>auto simp: kindsOf_def intro!: ran_yield\<close>)
qed simp

lemma jumpStmt_ran:
  "good s \<Longrightarrow> ran s (jumpStmt nd l s) (\<lambda>ts s' st. \<exists>semi. ts = [semi] \<and> tok_kind semi = TK_Semi \<and> st = Stmt nd l)"
  unfolding jumpStmt_def by (rule ran_andThen, rule ran_expect) (auto intro!: ran_yield)

lemma returnStmt_ran:
  assumes s: "good s" and fuel: "fuelFor 5 n s" and kw: "tok_kind kw = TK_KwReturn"
  shows "ran s (returnStmt ub n (tok_loc kw) s) (\<lambda>us. only (gStmt ub) (kw # us))"
proof (cases "checkTok TK_Semi s")
  case True
  thus ?thesis using kw
    by (auto simp: returnStmt_def kindsOf_def intro!: ran_mono [OF jumpStmt_ran [OF s]] g_return)
next
  case False
  have "ran s (andThen (parseAssignment ub n) (\<lambda>v. jumpStmt (ReturnStmt (Some v)) (tok_loc kw)) s)
      (\<lambda>us. only (gStmt ub) (kw # us))"
    by (rule ran_andThen, rule parseAssignment_ran [OF s fuel], rule ran_mono, rule jumpStmt_ran)
      (use kw in \<open>auto simp: kindsOf_def intro!: g_return_value\<close>)
  thus ?thesis using False by (simp add: returnStmt_def)
qed

lemma exprStmt_ran:
  assumes s: "good s" and fuel: "fuelFor 5 n s"
  shows "ran s (exprStmt ub n (locHere s) s) (only (gStmt ub))"
  unfolding exprStmt_def
proof (rule ran_andThen, rule parseAssignment_ran [OF s fuel])
  fix e s1 ts
  assume s1: "good s1" "rest s = ts @ rest s1" and g: "only (gAssign ub) ts s1 e"
  have "tok_loc (hd ts) = locHere s" using hd_consumed [OF s s1(2)] expr_nonempty(5) g by auto
  thus "ran s1 (jumpStmt (ExprStmt e) (locHere s) s1) (\<lambda>us. only (gStmt ub) (ts @ us))"
    using g g_expr [of ub ts e] by (auto intro!: ran_mono [OF jumpStmt_ran [OF s1(1)]])
qed

end
