(* ===== verification/ParseBlock.thy ===== *)
theory ParseBlock
  imports ParseInit
begin

text \<open>
  Statements recover from errors: a block goes on after a broken statement and succeeds with the
  diagnostics reported inside. What a function consumed derives its value when nothing was reported.
\<close>

section \<open>Results of functions that recover\<close>

definition recovers :: "parser \<Rightarrow> 'a option \<times> parser \<Rightarrow> (diagnostic list \<Rightarrow> token list \<Rightarrow> 'a \<Rightarrow> bool) \<Rightarrow> bool" where
  "recovers s res G \<longleftrightarrow>
     (case res of (r, s') \<Rightarrow>
        good s' \<and> ps_toks s' = ps_toks s \<and> ps_exhausted s' = ps_exhausted s \<and>
        (\<exists>ts ds. rest s = ts @ rest s' \<and> ps_diags s' = ps_diags s @ ds \<and>
           (case r of None \<Rightarrow> ds \<noteq> [] | Some a \<Rightarrow> G ds ts a)))"

text \<open>A function that does not recover, seen as one that does.\<close>

lemma ran_recovers:
  "ran s res G \<Longrightarrow> (\<And>ts s' a. good s' \<Longrightarrow> rest s = ts @ rest s' \<Longrightarrow> G ts s' a \<Longrightarrow> H [] ts a) \<Longrightarrow> recovers s res H"
  by (fastforce simp: ran_def recovers_def split: prod.splits option.splits)

lemma recovers_mono:
  "recovers s res G \<Longrightarrow> (\<And>ds ts s' a. good s' \<Longrightarrow> rest s = ts @ rest s' \<Longrightarrow> G ds ts a \<Longrightarrow> H ds ts a) \<Longrightarrow> recovers s res H"
proof -
  assume G: "recovers s res G" and mono: "\<And>ds ts s' a. good s' \<Longrightarrow> rest s = ts @ rest s' \<Longrightarrow> G ds ts a \<Longrightarrow> H ds ts a"
  obtain r s1 where res: "res = (r, s1)" by (cases res)
  show ?thesis
  proof (cases r)
    case None
    thus ?thesis using G by (simp add: recovers_def res)
  next
    case (Some a)
    thus ?thesis using G mono by (auto simp: recovers_def res)
  qed
qed

lemma recovers_yield: "good s \<Longrightarrow> G [] [] a \<Longrightarrow> recovers s (yield a s) G"
  by (simp add: recovers_def yield_def)

text \<open>The state between two functions, whatever the first reported.\<close>

lemma recovers_trans:
  assumes "good s1" "ps_toks s1 = ps_toks s" "ps_exhausted s1 = ps_exhausted s" "rest s = ts @ rest s1"
    "ps_diags s1 = ps_diags s @ ds" "recovers s1 res (\<lambda>es us. H (ds @ es) (ts @ us))"
  shows "recovers s res H"
proof -
  obtain r s2 where res: "res = (r, s2)" by (cases res)
  obtain us es where s2: "good s2" "ps_toks s2 = ps_toks s1" "ps_exhausted s2 = ps_exhausted s1" "rest s1 = us @ rest s2"
      "ps_diags s2 = ps_diags s1 @ es" and r: "case r of None \<Rightarrow> es \<noteq> [] | Some a \<Rightarrow> H (ds @ es) (ts @ us) a"
    using assms(6) by (auto simp: recovers_def res)
  have "case r of None \<Rightarrow> ds @ es \<noteq> [] | Some a \<Rightarrow> H (ds @ es) (ts @ us) a" using r by (cases r) simp_all
  thus ?thesis
    using assms(1-5) s2 by (auto simp: recovers_def res intro!: exI [of _ "ts @ us"] exI [of _ "ds @ es"])
qed

lemma recovers_bind:
  assumes "recovers s (r, s1) G" "r = None \<Longrightarrow> res = (None, s1)"
    and "\<And>a ts ds. r = Some a \<Longrightarrow> good s1 \<Longrightarrow> rest s = ts @ rest s1 \<Longrightarrow> G ds ts a \<Longrightarrow>
      recovers s1 res (\<lambda>es us. H (ds @ es) (ts @ us))"
  shows "recovers s res H"
proof -
  obtain ts ds where s1: "good s1" "ps_toks s1 = ps_toks s" "ps_exhausted s1 = ps_exhausted s" "rest s = ts @ rest s1"
      "ps_diags s1 = ps_diags s @ ds" and r: "case r of None \<Rightarrow> ds \<noteq> [] | Some a \<Rightarrow> G ds ts a"
    using assms(1) by (auto simp: recovers_def)
  show ?thesis
  proof (cases r)
    case None
    thus ?thesis using assms(2) s1 r by (simp add: recovers_def)
  next
    case (Some a)
    thus ?thesis using recovers_trans [OF s1 assms(3)] s1 r by simp
  qed
qed

lemma recovers_andThen:
  assumes "recovers s (p s) G"
    and "\<And>a s' ts ds. good s' \<Longrightarrow> rest s = ts @ rest s' \<Longrightarrow> G ds ts a \<Longrightarrow> p s = (Some a, s') \<Longrightarrow>
      recovers s' (f a s') (\<lambda>es us. H (ds @ es) (ts @ us))"
  shows "recovers s (andThen p f s) H"
proof (cases "p s")
  case (Pair r s1)
  thus ?thesis
    using recovers_bind [of s r s1 G "andThen p f s" H] assms by (auto simp: andThen_def)
qed

lemma recovers_advance:
  "good s \<Longrightarrow> kindAt 0 s \<noteq> TK_Eof \<Longrightarrow> recovers (advanceTok s) res (\<lambda>es us. H es (peekTok 0 s # us)) \<Longrightarrow> recovers s res H"
  using recovers_trans [of "advanceTok s" s "[peekTok 0 s]" "[]" res H] advance_facts [of s] by simp

section \<open>Recovery\<close>

text \<open>Tokens are skipped and nothing is reported.\<close>

definition moved :: "parser \<Rightarrow> parser \<Rightarrow> bool" where
  "moved s s' \<longleftrightarrow> good s' \<and> ps_toks s' = ps_toks s \<and> ps_exhausted s' = ps_exhausted s \<and> ps_diags s' = ps_diags s \<and>
     (\<exists>ts. rest s = ts @ rest s')"

lemma moved_refl: "good s \<Longrightarrow> moved s s"
  by (simp add: moved_def)

lemma moved_trans: "moved s s1 \<Longrightarrow> moved s1 s2 \<Longrightarrow> moved s s2"
  by (auto simp: moved_def)

lemma moved_advance: "good s \<Longrightarrow> moved s (advanceTok s)"
proof (cases "kindAt 0 s = TK_Eof")
  case True
  assume "good s"
  thus ?thesis using True moved_refl by (simp add: advanceTok_def)
next
  case False
  assume "good s"
  thus ?thesis using advance_facts [OF _ False] by (auto simp: moved_def intro: exI [of _ "[peekTok 0 s]"])
qed

lemma recovers_moved:
  assumes "moved s s1" "\<And>ts. rest s = ts @ rest s1 \<Longrightarrow> recovers s1 res (\<lambda>es us. H es (ts @ us))"
  shows "recovers s res H"
proof -
  obtain ts where "rest s = ts @ rest s1" using assms(1) by (auto simp: moved_def)
  thus ?thesis using recovers_trans [of s1 s ts "[]" res H] assms by (simp add: moved_def)
qed

lemma moved_length: "moved s s' \<Longrightarrow> length (rest s') \<le> length (rest s)"
  by (auto simp: moved_def)

lemma advance_shorter: "good s \<Longrightarrow> kindAt 0 s \<noteq> TK_Eof \<Longrightarrow> length (rest (advanceTok s)) < length (rest s)"
  using advance_facts(2) [of s] by simp

lemma skipStatement_moved: "good s \<Longrightarrow> length (rest s) < n \<Longrightarrow> moved s (skipStatement n s)"
proof (induction n arbitrary: s)
  case (Suc n)
  show ?case
  proof (cases "checkTok TK_Eof s \<or> checkTok TK_RBrace s \<or> checkTok TK_Semi s")
    case True
    thus ?thesis using Suc.prems moved_refl moved_advance by auto
  next
    case False
    hence k: "kindAt 0 s \<noteq> TK_Eof" by (simp add: checkTok_def)
    have "moved (advanceTok s) (skipStatement n (advanceTok s))"
      by (rule Suc.IH) (use advance_facts(1) [OF Suc.prems(1) k] advance_shorter [OF Suc.prems(1) k] Suc.prems(2) in auto)
    thus ?thesis using False moved_trans [OF moved_advance [OF Suc.prems(1)]] by simp
  qed
qed simp

lemma skipTopLevel_moved: "good s \<Longrightarrow> length (rest s) < n \<Longrightarrow> moved s (skipTopLevel n depth s)"
proof (induction n arbitrary: s depth)
  case (Suc n)
  show ?case
  proof (cases "checkTok TK_Eof s")
    case True
    thus ?thesis using Suc.prems moved_refl by auto
  next
    case False
    hence k: "kindAt 0 s \<noteq> TK_Eof" by (simp add: checkTok_def)
    have go: "moved s (skipTopLevel n d (advanceTok s))" for d
      by (rule moved_trans [OF moved_advance [OF Suc.prems(1)] Suc.IH])
        (use advance_facts(1) [OF Suc.prems(1) k] advance_shorter [OF Suc.prems(1) k] Suc.prems(2) in auto)
    thus ?thesis using False moved_advance [OF Suc.prems(1)] by (simp add: Let_def)
  qed
qed simp

text \<open>A parser that stopped without consuming is moved on by one token at least.\<close>

lemma same_rest:
  "good s \<Longrightarrow> good s1 \<Longrightarrow> ps_toks s1 = ps_toks s \<Longrightarrow> ps_pos s1 = ps_pos s \<Longrightarrow> rest s1 = rest s \<and> peekTok k s1 = peekTok k s"
  by (simp add: rest_def peekTok_def)

lemma pos_rest:
  assumes "good s" "good s1" "ps_toks s1 = ps_toks s" "rest s = ts @ rest s1" "ps_pos s1 \<noteq> ps_pos s"
  shows "length (rest s1) < length (rest s)"
proof (cases ts)
  case Nil
  hence "length (ps_toks s) - ps_pos s = length (ps_toks s) - ps_pos s1"
    using assms(3,4) by (metis append_Nil length_drop rest_def)
  thus ?thesis using assms(1,2,3,5) by (simp add: good_def)
qed (use assms(4) in simp)

lemma synchronizeStatement_moved:
  assumes s: "good s" "\<not> checkTok TK_Eof s" "\<not> checkTok TK_RBrace s" and n: "length (rest s) < n"
    and s1: "good s1" "ps_toks s1 = ps_toks s" "rest s = ts @ rest s1"
  shows "moved s1 (synchronizeStatement n (ps_pos s) s1)"
    "length (rest (synchronizeStatement n (ps_pos s) s1)) < length (rest s)"
proof -
  define s2 where "s2 = (if ps_pos s1 = ps_pos s \<and> \<not> checkTok TK_RBrace s1 then advanceTok s1 else s1)"
  have m2: "moved s1 s2" using moved_advance [OF s1(1)] moved_refl [OF s1(1)] by (simp add: s2_def)
  have l2: "length (rest s2) < length (rest s)"
  proof (cases "ps_pos s1 = ps_pos s")
    case True
    hence "rest s1 = rest s" "\<not> checkTok TK_RBrace s1" "kindAt 0 s1 \<noteq> TK_Eof"
      using same_rest [OF s(1) s1(1,2), of 0] s(2,3) by (auto simp: checkTok_def)
    thus ?thesis using True advance_shorter [OF s1(1)] by (simp add: s2_def)
  next
    case False
    thus ?thesis using pos_rest [OF s(1) s1] by (simp add: s2_def)
  qed
  have m3: "moved s2 (skipStatement n s2)"
    by (rule skipStatement_moved) (use m2 l2 n in \<open>auto simp: moved_def\<close>)
  have e: "synchronizeStatement n (ps_pos s) s1 = skipStatement n s2"
    by (simp add: synchronizeStatement_def s2_def)
  show "moved s1 (synchronizeStatement n (ps_pos s) s1)" unfolding e by (rule moved_trans [OF m2 m3])
  show "length (rest (synchronizeStatement n (ps_pos s) s1)) < length (rest s)"
    unfolding e using moved_length [OF m3] l2 by simp
qed

lemma synchronizeTopLevel_moved:
  assumes s: "good s" "\<not> checkTok TK_Eof s" and n: "length (rest s) < n"
    and s1: "good s1" "ps_toks s1 = ps_toks s" "rest s = ts @ rest s1"
  shows "moved s1 (synchronizeTopLevel n (ps_pos s) s1)"
    "length (rest (synchronizeTopLevel n (ps_pos s) s1)) < length (rest s)"
proof -
  define s2 where "s2 = (if ps_pos s1 = ps_pos s then advanceTok s1 else s1)"
  have m2: "moved s1 s2" using moved_advance [OF s1(1)] moved_refl [OF s1(1)] by (simp add: s2_def)
  have l2: "length (rest s2) < length (rest s)"
  proof (cases "ps_pos s1 = ps_pos s")
    case True
    hence "rest s1 = rest s" "kindAt 0 s1 \<noteq> TK_Eof"
      using same_rest [OF s(1) s1(1,2), of 0] s(2) by (auto simp: checkTok_def)
    thus ?thesis using True advance_shorter [OF s1(1)] by (simp add: s2_def)
  next
    case False
    thus ?thesis using pos_rest [OF s(1) s1] by (simp add: s2_def)
  qed
  have m3: "moved s2 (skipTopLevel n 0 s2)"
    by (rule skipTopLevel_moved) (use m2 l2 n in \<open>auto simp: moved_def\<close>)
  have e: "synchronizeTopLevel n (ps_pos s) s1 = skipTopLevel n 0 s2"
    by (simp add: synchronizeTopLevel_def s2_def)
  show "moved s1 (synchronizeTopLevel n (ps_pos s) s1)" unfolding e by (rule moved_trans [OF m2 m3])
  show "length (rest (synchronizeTopLevel n (ps_pos s) s1)) < length (rest s)"
    unfolding e using moved_length [OF m3] l2 by simp
qed

section \<open>Statements\<close>

definition stmtG :: "(fp \<Rightarrow> i64) \<Rightarrow> diagnostic list \<Rightarrow> token list \<Rightarrow> stmt \<Rightarrow> bool" where
  "stmtG ub ds ts st \<longleftrightarrow> ts \<noteq> [] \<and> (ds = [] \<longrightarrow> gStmt ub ts st)"

definition blockG :: "(fp \<Rightarrow> i64) \<Rightarrow> diagnostic list \<Rightarrow> token list \<Rightarrow> stmt list \<Rightarrow> bool" where
  "blockG ub ds ts body \<longleftrightarrow> (ds = [] \<longrightarrow> gBlock ub ts body)"

definition compoundG :: "(fp \<Rightarrow> i64) \<Rightarrow> diagnostic list \<Rightarrow> token list \<Rightarrow> stmt list \<Rightarrow> bool" where
  "compoundG ub ds ts body \<longleftrightarrow>
     (\<exists>lb us rb. ts = lb # us @ [rb] \<and> kindsOf [lb, rb] = [TK_LBrace, TK_RBrace] \<and> (ds = [] \<longrightarrow> gBlock ub us body))"

text \<open>A function that recovers is right with some fuel.\<close>

definition steady :: "nat \<Rightarrow> nat \<Rightarrow> 'a parses \<Rightarrow> (diagnostic list \<Rightarrow> token list \<Rightarrow> 'a \<Rightarrow> bool) \<Rightarrow> bool" where
  "steady lvl n p G \<longleftrightarrow> (\<forall>s. good s \<longrightarrow> fuelFor lvl n s \<longrightarrow> recovers s (p s) G)"

lemma steadyI: "(\<And>s. good s \<Longrightarrow> fuelFor lvl n s \<Longrightarrow> recovers s (p s) G) \<Longrightarrow> steady lvl n p G"
  by (simp add: steady_def)

lemma steadyD: "steady lvl n p G \<Longrightarrow> good s \<Longrightarrow> fuelFor lvl n s \<Longrightarrow> recovers s (p s) G"
  by (simp add: steady_def)

lemma steady_zero: "0 < lvl \<Longrightarrow> steady lvl 0 p G"
  by (auto simp: steady_def fuelFor_def)

text \<open>A closing token after a function that recovers.\<close>

lemma expect_recovers:
  "good s \<Longrightarrow> k \<noteq> TK_Eof \<Longrightarrow> recovers s (expect k s) (\<lambda>ds ts u. ds = [] \<and> (\<exists>t. ts = [t] \<and> tok_kind t = k))"
  by (rule ran_recovers [OF ran_expect]) auto

lemma recovers_expect:
  assumes "good s" "k \<noteq> TK_Eof"
    and "\<And>s' t. good s' \<Longrightarrow> rest s = t # rest s' \<Longrightarrow> tok_kind t = k \<Longrightarrow> recovers s' (f s') (\<lambda>es us. H es (t # us))"
  shows "recovers s (andThen (expect k) (\<lambda>_. f) s) H"
proof (rule recovers_andThen, rule expect_recovers [OF assms(1,2)])
  fix u :: unit and s' and ts :: "token list" and ds :: "diagnostic list"
  assume "good s'" "rest s = ts @ rest s'" "ds = [] \<and> (\<exists>t. ts = [t] \<and> tok_kind t = k)"
  thus "recovers s' (f s') (\<lambda>es us. H (ds @ es) (ts @ us))" using assms(3) [of s'] by auto
qed

lemma parseCompound_steady:
  assumes "steady 9 n (blockLoop ub n) (blockG ub)"
  shows "steady 7 (Suc n) (parseCompound ub (Suc n)) (compoundG ub)"
proof (rule steadyI)
  fix s
  assume s: "good s" and fuel: "fuelFor 7 (Suc n) s"
  show "recovers s (parseCompound ub (Suc n) s) (compoundG ub)"
    unfolding parseCompound.simps
  proof (rule recovers_expect [OF s])
    fix s1 and lb :: token
    assume s1: "good s1" "rest s = lb # rest s1" and lb: "tok_kind lb = TK_LBrace"
    have f1: "fuelFor 9 n s1" by (rule fuelFor_consumed [OF fuel, of "[lb]"]) (use s1 in simp_all)
    show "recovers s1 (andThen (blockLoop ub n) (\<lambda>body. andThen (expect TK_RBrace) (\<lambda>_. yield body)) s1)
        (\<lambda>es us. compoundG ub es (lb # us))"
    proof (rule recovers_andThen, rule steadyD [OF assms s1(1) f1])
      fix body s2 us es
      assume s2: "good s2" and g: "blockG ub es us body"
      show "recovers s2 (andThen (expect TK_RBrace) (\<lambda>_. yield body) s2) (\<lambda>fs vs. compoundG ub (es @ fs) (lb # us @ vs))"
        by (rule recovers_expect [OF s2]) (use g lb in \<open>auto simp: compoundG_def blockG_def kindsOf_def intro!: recovers_yield\<close>)
    qed
  qed simp
qed

lemma blockLoop_steady:
  assumes stmt: "steady 8 n (parseStatement ub n) (stmtG ub)" and loop: "steady 9 n (blockLoop ub n) (blockG ub)"
  shows "steady 9 (Suc n) (blockLoop ub (Suc n)) (blockG ub)"
proof (rule steadyI)
  fix s
  assume s: "good s" and fuel: "fuelFor 9 (Suc n) s"
  show "recovers s (blockLoop ub (Suc n) s) (blockG ub)"
  proof (cases "checkTok TK_RBrace s \<or> checkTok TK_Eof s")
    case True
    thus ?thesis using s by (auto simp: blockG_def intro!: recovers_yield g_end)
  next
    case False
    have len: "length (rest s) < n" by (rule fuelFor_length [OF fuel _ s]) simp
    obtain r s1 where r: "parseStatement ub n s = (r, s1)" by (cases "parseStatement ub n s")
    have "recovers s (r, s1) (stmtG ub)" unfolding r [symmetric] by (rule steadyD [OF stmt s fuelFor_call [OF fuel]]) simp
    then obtain ts ds where s1: "good s1" "ps_toks s1 = ps_toks s" "ps_exhausted s1 = ps_exhausted s" "rest s = ts @ rest s1"
        "ps_diags s1 = ps_diags s @ ds" and c: "case r of None \<Rightarrow> ds \<noteq> [] | Some a \<Rightarrow> stmtG ub ds ts a"
      by (auto simp: recovers_def)
    have "recovers s1 (case r of Some st \<Rightarrow> andThen (blockLoop ub n) (\<lambda>body. yield (st # body)) s1
        | None \<Rightarrow> blockLoop ub n (synchronizeStatement n (ps_pos s) s1)) (\<lambda>es us. blockG ub (ds @ es) (ts @ us))"
    proof (cases r)
      case None
      define s2 where "s2 = synchronizeStatement n (ps_pos s) s1"
      have m: "moved s1 s2" "length (rest s2) < length (rest s)"
        using synchronizeStatement_moved [OF s _ _ len s1(1,2,4)] False by (simp_all add: s2_def)
      have "recovers s2 (blockLoop ub n s2) (blockG ub)"
        by (rule steadyD [OF loop]) (use m fuel in \<open>simp_all add: moved_def fuelFor_def\<close>)
      hence "recovers s2 (blockLoop ub n s2) (\<lambda>es us. blockG ub (ds @ es) (ts @ vs @ us))" for vs
        by (rule recovers_mono) (use None c in \<open>simp add: blockG_def\<close>)
      hence "recovers s1 (blockLoop ub n s2) (\<lambda>es us. blockG ub (ds @ es) (ts @ us))"
        by (intro recovers_moved [OF m(1)])
      thus ?thesis using None by (simp add: s2_def)
    next
      case (Some st)
      hence g: "stmtG ub ds ts st" using c by simp
      have f1: "fuelFor 9 n s1" by (rule fuelFor_consumed [OF fuel s1(4)]) (use g in \<open>simp_all add: stmtG_def\<close>)
      have "recovers s1 (andThen (blockLoop ub n) (\<lambda>body. yield (st # body)) s1) (\<lambda>es us. blockG ub (ds @ es) (ts @ us))"
        by (rule recovers_andThen, rule steadyD [OF loop s1(1) f1])
          (use g in \<open>auto simp: blockG_def stmtG_def intro!: recovers_yield g_stmt\<close>)
      thus ?thesis using Some by simp
    qed
    hence "recovers s (case r of Some st \<Rightarrow> andThen (blockLoop ub n) (\<lambda>body. yield (st # body)) s1
        | None \<Rightarrow> blockLoop ub n (synchronizeStatement n (ps_pos s) s1)) (blockG ub)"
      by (rule recovers_trans [OF s1])
    thus ?thesis using False r by (cases r) auto
  qed
qed

lemma gStmt_nonempty: "gStmt ub ts st \<Longrightarrow> ts \<noteq> []"
  by (auto elim: gStmt.cases dest: gSpec_nonempty)

lemma stmt_recovers:
  "ran s res (\<lambda>us. only (gStmt ub) (pre @ us)) \<Longrightarrow> recovers s res (\<lambda>es us. stmtG ub es (pre @ us))"
  by (erule ran_recovers) (use gStmt_nonempty in \<open>auto simp: stmtG_def\<close>)

lemma jump_recovers:
  assumes "good s" "\<And>semi. tok_kind semi = TK_Semi \<Longrightarrow> gStmt ub (pre @ [semi]) (Stmt nd l)"
  shows "recovers s (jumpStmt nd l s) (\<lambda>es us. stmtG ub es (pre @ us))"
  by (rule stmt_recovers, rule ran_mono [OF jumpStmt_ran [OF assms(1)]]) (use assms(2) in auto)

text \<open>The parser gives an \<open>else\<close> to the nearest \<open>if\<close>.\<close>

lemma andThen_SomeE:
  assumes "andThen p f s = (Some b, s')"
  obtains a s1 where "p s = (Some a, s1)" "f a s1 = (Some b, s')"
  using assms by (auto simp: andThen_def split: prod.splits option.splits)

lemma else_taken:
  "parseStatement ub n s = (Some st, s') \<Longrightarrow> opensElse st \<Longrightarrow> \<not> checkTok TK_KwElse s'"
proof (induction n arbitrary: s st s')
  case (Suc n)
  obtain nd l where st: "st = Stmt nd l" by (cases st)
  from Suc.prems(2) consider c a where "nd = IfStmt c a None" | c a b where "nd = IfStmt c a (Some b)" "opensElse b"
    | c a where "nd = WhileStmt c a" "opensElse a"
    by (cases st rule: opensElse.cases) (auto simp: st)
  thus ?case
    using Suc.prems(1) Suc.IH unfolding st
    by cases (auto simp: jumpStmt_def returnStmt_def exprStmt_def parseDeclStmt_def yield_def Let_def
        elim!: andThen_SomeE split: token_kind.splits if_splits)
qed (simp add: outOfFuel_def)

text \<open>A condition, a statement and what follows.\<close>

lemma parseCondition_recovers:
  "good s \<Longrightarrow> fuelFor 5 n s \<Longrightarrow> recovers s (parseCondition ub n s) (\<lambda>ds ts e. ds = [] \<and>
     (\<exists>lp rp us. ts = lp # us @ [rp] \<and> kindsOf [lp, rp] = [TK_LParen, TK_RParen] \<and> gAssign ub us e))"
  by (rule ran_recovers [OF parseCondition_ran]) auto

lemma condition_then:
  assumes s: "good s" and fuel: "fuelFor 8 n s" and stmt: "steady 8 n (parseStatement ub n) (stmtG ub)"
    and f: "\<And>c a s' lp us rp ts ds. good s' \<Longrightarrow> fuelFor 8 n s' \<Longrightarrow> kindsOf [lp, rp] = [TK_LParen, TK_RParen] \<Longrightarrow>
      gAssign ub us c \<Longrightarrow> stmtG ub ds ts a \<Longrightarrow> (opensElse a \<Longrightarrow> \<not> checkTok TK_KwElse s') \<Longrightarrow> recovers s' (f c a s') (\<lambda>es vs. H (ds @ es) (lp # us @ rp # ts @ vs))"
  shows "recovers s (andThen (parseCondition ub n) (\<lambda>c. andThen (parseStatement ub n) (f c)) s) H"
proof (rule recovers_andThen, rule parseCondition_recovers [OF s fuelFor_same [OF fuel]])
  fix c s1 ts and ds :: "diagnostic list"
  assume s1: "good s1" "rest s = ts @ rest s1"
    and "ds = [] \<and> (\<exists>lp rp us. ts = lp # us @ [rp] \<and> kindsOf [lp, rp] = [TK_LParen, TK_RParen] \<and> gAssign ub us c)"
  then obtain lp rp us where g: "ds = []" "ts = lp # us @ [rp]" "kindsOf [lp, rp] = [TK_LParen, TK_RParen]" "gAssign ub us c" by blast
  have f1: "fuelFor 8 n s1" by (rule fuelFor_split [OF fuel s1(2)])
  show "recovers s1 (andThen (parseStatement ub n) (f c) s1) (\<lambda>es vs. H (ds @ es) (ts @ vs))"
  proof (rule recovers_andThen, rule steadyD [OF stmt s1(1) f1])
    fix a s2 vs es
    assume s2: "good s2" "rest s1 = vs @ rest s2" and a: "stmtG ub es vs a" and p: "parseStatement ub n s1 = (Some a, s2)"
    show "recovers s2 (f c a s2) (\<lambda>fs ws. H (ds @ es @ fs) (ts @ vs @ ws))"
      using f [OF s2(1) fuelFor_split [OF f1 s2(2)] g(3,4) a else_taken [OF p]] g by simp
  qed
qed simp

lemma parseStatement_steady:
  assumes compound: "steady 7 n (parseCompound ub n) (compoundG ub)" and stmt: "steady 8 n (parseStatement ub n) (stmtG ub)"
  shows "steady 8 (Suc n) (parseStatement ub (Suc n)) (stmtG ub)"
proof (rule steadyI)
  fix s
  assume s: "good s" and fuel: "fuelFor 8 (Suc n) s"
  note f = fuelFor_advance [OF fuel s]
  define kw where "kw = peekTok 0 s"
  define l where "l = tok_loc kw"
  define s1 where "s1 = advanceTok s"
  have adv: "good s1" "fuelFor 8 n s1" if "kindAt 0 s \<noteq> TK_Eof"
    using advance_facts(1) [OF s that] f [OF that, of 8] by (simp_all add: s1_def)
  have go: "recovers s res (stmtG ub)"
    if "kindAt 0 s \<noteq> TK_Eof" "recovers s1 res (\<lambda>es us. stmtG ub es ([kw] @ us))" for res
    using recovers_advance [OF s that(1)] that(2) by (simp add: s1_def kw_def)
  consider (brace) "kindAt 0 s = TK_LBrace" | (semi) "kindAt 0 s = TK_Semi" | (break) "kindAt 0 s = TK_KwBreak"
    | (cont) "kindAt 0 s = TK_KwContinue" | (ret) "kindAt 0 s = TK_KwReturn" | (cond) "kindAt 0 s = TK_KwIf"
    | (loop) "kindAt 0 s = TK_KwWhile"
    | (other) "kindAt 0 s \<notin> {TK_LBrace, TK_Semi, TK_KwBreak, TK_KwContinue, TK_KwReturn, TK_KwIf, TK_KwWhile}"
    by blast
  thus "recovers s (parseStatement ub (Suc n) s) (stmtG ub)"
  proof cases
    case brace
    have "recovers s (andThen (parseCompound ub n) (\<lambda>body. yield (Stmt (CompoundStmt body) l)) s) (stmtG ub)"
    proof (rule recovers_andThen, rule steadyD [OF compound s fuelFor_call [OF fuel]])
      fix body s2 ts ds
      assume s2: "good s2" "rest s = ts @ rest s2" and g: "compoundG ub ds ts body"
      hence "l = tok_loc (hd ts)" using rest_hd [OF s] by (auto simp: compoundG_def l_def kw_def)
      thus "recovers s2 (yield (Stmt (CompoundStmt body) l) s2) (\<lambda>es us. stmtG ub (ds @ es) (ts @ us))"
        using s2 g by (auto simp: compoundG_def stmtG_def kindsOf_def intro!: recovers_yield g_compound)
    qed simp
    thus ?thesis using brace by (simp add: l_def kw_def)
  next
    case semi
    hence "recovers s1 (yield (Stmt NullStmt l) s1) (\<lambda>es us. stmtG ub es ([kw] @ us))"
      using adv by (auto simp: stmtG_def l_def kw_def intro!: recovers_yield g_null)
    thus ?thesis using go semi by (simp add: l_def kw_def s1_def)
  next
    case break
    hence "recovers s1 (jumpStmt BreakStmt l s1) (\<lambda>es us. stmtG ub es ([kw] @ us))"
      using adv by (intro jump_recovers) (auto simp: kindsOf_def l_def kw_def intro!: g_break)
    thus ?thesis using go break by (simp add: l_def kw_def s1_def)
  next
    case cont
    hence "recovers s1 (jumpStmt ContinueStmt l s1) (\<lambda>es us. stmtG ub es ([kw] @ us))"
      using adv by (intro jump_recovers) (auto simp: kindsOf_def l_def kw_def intro!: g_continue)
    thus ?thesis using go cont by (simp add: l_def kw_def s1_def)
  next
    case ret
    hence "recovers s1 (returnStmt ub n (tok_loc kw) s1) (\<lambda>es us. stmtG ub es ([kw] @ us))"
      using adv by (intro stmt_recovers) (simp add: returnStmt_ran fuelFor_same kw_def)
    thus ?thesis using go ret by (simp add: l_def kw_def s1_def)
  next
    case other
    show ?thesis
    proof (cases "isTypeStart (kindAt 0 s)")
      case True
      have "recovers s (parseDeclStmt ub n s) (\<lambda>es us. stmtG ub es ([] @ us))"
        by (rule stmt_recovers) (use parseDeclStmt_ran [OF s fuelFor_call [OF fuel, of 3]] in simp)
      thus ?thesis using other True by (cases "kindAt 0 s") simp_all
    next
      case False
      have "recovers s (exprStmt ub n l s) (\<lambda>es us. stmtG ub es ([] @ us))"
        by (rule stmt_recovers) (use exprStmt_ran [OF s fuelFor_call [OF fuel, of 5]] in \<open>simp add: l_def kw_def\<close>)
      thus ?thesis using other False by (cases "kindAt 0 s") (simp_all add: l_def kw_def)
    qed
  next
    case cond
    hence k: "kindAt 0 s \<noteq> TK_Eof" by simp
    let ?else = "\<lambda>c a s2. if checkTok TK_KwElse s2 then
        andThen (parseStatement ub n) (\<lambda>no. yield (Stmt (IfStmt c a (Some no)) l)) (advanceTok s2)
      else yield (Stmt (IfStmt c a None) l) s2"
    have "recovers s1 (andThen (parseCondition ub n) (\<lambda>c. andThen (parseStatement ub n) (?else c)) s1)
        (\<lambda>es us. stmtG ub es ([kw] @ us))"
    proof (rule condition_then [OF adv [OF k] stmt])
      fix c a s2 lp us rp ts ds
      assume s2: "good s2" "fuelFor 8 n s2" and g: "kindsOf [lp, rp] = [TK_LParen, TK_RParen]" "gAssign ub us c" "stmtG ub ds ts a"
        and e: "opensElse a \<Longrightarrow> \<not> checkTok TK_KwElse s2"
      show "recovers s2 (?else c a s2) (\<lambda>es vs. stmtG ub (ds @ es) ([kw] @ lp # us @ rp # ts @ vs))"
      proof (cases "checkTok TK_KwElse s2")
        case True
        note el = checkTok_kind [OF True]
        have closed: "\<not> opensElse a" using e True by blast
        have "recovers (advanceTok s2) (andThen (parseStatement ub n) (\<lambda>no. yield (Stmt (IfStmt c a (Some no)) l)) (advanceTok s2))
            (\<lambda>es vs. stmtG ub (ds @ es) ([kw] @ lp # us @ rp # ts @ peekTok 0 s2 # vs))"
        proof (rule recovers_andThen, rule steadyD [OF stmt])
          show "good (advanceTok s2)" "fuelFor 8 n (advanceTok s2)"
            using advance_facts(1) [OF s2(1)] fuelFor_token [OF s2(2,1)] el by simp_all
        next
          fix b s3 vs es
          assume "good s3" "stmtG ub es vs b"
          thus "recovers s3 (yield (Stmt (IfStmt c a (Some b)) l) s3)
              (\<lambda>fs ws. stmtG ub (ds @ es @ fs) ([kw] @ lp # us @ rp # ts @ peekTok 0 s2 # vs @ ws))"
            using g closed el cond g_if_else [of kw lp rp "peekTok 0 s2" ub us c ts a vs b]
            by (auto simp: stmtG_def kindsOf_def l_def kw_def intro!: recovers_yield)
        qed
        thus ?thesis using True el by (simp add: recovers_advance [OF s2(1)])
      next
        case False
        thus ?thesis using s2 g cond g_if [of kw lp rp ub us c ts a]
          by (auto simp: stmtG_def kindsOf_def l_def kw_def intro!: recovers_yield)
      qed
    qed
    from go [OF k this] show ?thesis using cond unfolding l_def kw_def s1_def by (simp add: Let_def)
  next
    case loop
    hence k: "kindAt 0 s \<noteq> TK_Eof" by simp
    have "recovers s1 (andThen (parseCondition ub n) (\<lambda>c. andThen (parseStatement ub n) (\<lambda>a. yield (Stmt (WhileStmt c a) l))) s1)
        (\<lambda>es us. stmtG ub es ([kw] @ us))"
    proof (rule condition_then [OF adv [OF k] stmt])
      fix c a s2 lp us rp ts ds
      assume "good s2" "kindsOf [lp, rp] = [TK_LParen, TK_RParen]" "gAssign ub us c" "stmtG ub ds ts a"
      thus "recovers s2 (yield (Stmt (WhileStmt c a) l) s2) (\<lambda>es vs. stmtG ub (ds @ es) ([kw] @ lp # us @ rp # ts @ vs))"
        using loop g_while [of kw lp rp ub us c ts a] by (auto simp: stmtG_def kindsOf_def l_def kw_def intro!: recovers_yield)
    qed
    from go [OF k this] show ?thesis using loop unfolding l_def kw_def s1_def by (simp add: Let_def)
  qed
qed

theorem statements_steady:
  "steady 7 n (parseCompound ub n) (compoundG ub) \<and> steady 9 n (blockLoop ub n) (blockG ub) \<and>
   steady 8 n (parseStatement ub n) (stmtG ub)"
proof (induction n)
  case 0
  show ?case by (simp add: steady_zero)
next
  case (Suc n)
  thus ?case using parseCompound_steady blockLoop_steady parseStatement_steady by blast
qed

lemma parseCompound_recovers:
  "good s \<Longrightarrow> fuelFor 7 n s \<Longrightarrow> recovers s (parseCompound ub n s) (compoundG ub)"
  using statements_steady steadyD by blast

end
