(* ===== verification/ParseCorrect.thy ===== *)
theory ParseCorrect
  imports ParseBlock
begin

text \<open>
  External declarations and the whole run: the parser ends for every token stream, and what it
  accepts is a sentence of the grammar with the tree that the grammar gives it.
\<close>

section \<open>External declarations\<close>

text \<open>The declarations after a call that returned whether it succeeded, as an optional value.\<close>

definition succeeded :: "(bool \<times> 'a) \<times> parser \<Rightarrow> 'a option \<times> parser" where
  "succeeded res = (case res of ((ok, out), s) \<Rightarrow> (if ok then Some out else None, s))"

lemma succeeded_simps [simp]:
  "succeeded ((True, out), s) = (Some out, s)" "succeeded ((False, out), s) = (None, s)"
  by (simp_all add: succeeded_def)

definition appended :: "top_level_decl list \<Rightarrow> (token list \<Rightarrow> top_level_decl list \<Rightarrow> bool) \<Rightarrow>
    diagnostic list \<Rightarrow> token list \<Rightarrow> top_level_decl list \<Rightarrow> bool" where
  "appended out g es us out' \<longleftrightarrow> us \<noteq> [] \<and> (es = [] \<longrightarrow> (\<exists>xs. out' = out @ xs \<and> g us xs))"

lemma functionOf_grammar: "functionOf d body = functionDecl d body"
  by (simp add: functionOf_def functionDecl_def)

lemma declaredOf_ran:
  assumes s: "good s" and fuel: "fuelFor 0 n s" and d: "gDeclarator ub False base None ts d"
  shows "ran s (declaredOf ub n spec d s) (\<lambda>us s' x. gTop ub base (sp_isConst spec) (ts @ us) x)"
proof (cases "dd_function d")
  case None
  have "ran s (andThen (finishVarDecl ub n spec d) (\<lambda>var. yield (TopVar var)) s)
      (\<lambda>us s' x. gTop ub base (sp_isConst spec) (ts @ us) x)"
    by (rule ran_andThen, rule finishVarDecl_ran [OF s fuel d None]) (auto intro!: ran_yield g_top_var)
  thus ?thesis using None by (simp add: declaredOf_def)
next
  case (Some fn)
  thus ?thesis using s d by (auto simp: declaredOf_def functionOf_grammar intro!: ran_yield g_top_function)
qed

lemma ran_case:
  assumes "ran s (r, s1) G" "r = None \<Longrightarrow> res = (None, s1)"
    and "\<And>a ts. r = Some a \<Longrightarrow> good s1 \<Longrightarrow> rest s = ts @ rest s1 \<Longrightarrow> G ts s1 a \<Longrightarrow>
      recovers s1 res (\<lambda>es us. H es (ts @ us))"
  shows "recovers s res H"
proof (rule recovers_bind)
  show "recovers s (r, s1) (\<lambda>ds ts a. ds = [] \<and> G ts s1 a)"
    using assms(1) by (cases r) (auto simp: ran_def recovers_def)
  show "r = None \<Longrightarrow> res = (None, s1)" by (rule assms(2))
  fix a and ts :: "token list" and ds :: "diagnostic list"
  assume "r = Some a" "good s1" "rest s = ts @ rest s1" "ds = [] \<and> G ts s1 a"
  thus "recovers s1 res (\<lambda>es us. H (ds @ es) (ts @ us))" using assms(3) by simp
qed

lemma andThen_yield: "andThen p yield = p"
  by (auto simp: andThen_def yield_def fun_eq_iff split: prod.split option.split)

text \<open>A declarator at file scope and its resolution.\<close>

lemma declarator_resolved_ran:
  assumes "good s" "fuelFor 2 n s" "sp_base spec = Some base"
  shows "ran s (andThen (parseDeclarator ub n False) (resolve spec) s) (\<lambda>ts s' d. gDeclarator ub False base None ts d)"
proof -
  have "ran s (andThen (parseDeclarator ub n False) (\<lambda>decl. andThen (resolve spec decl) yield) s)
      (\<lambda>ts s' d. gDeclarator ub False base None ts d)"
    by (rule ran_declared [OF expressions_right assms(1,2)]) (use assms(3) in \<open>auto intro!: ran_yield\<close>)
  thus ?thesis by (simp only: andThen_yield)
qed

lemma externalLoop_recovers:
  "good s \<Longrightarrow> fuelFor 1 n s \<Longrightarrow> sp_base spec = Some base \<Longrightarrow> gDeclarator ub False base None ts d \<Longrightarrow>
     recovers s (succeeded (externalLoop ub n spec d out s))
       (\<lambda>es us. appended out (\<lambda>vs xs. \<exists>ws semi. vs = ws @ [semi] \<and> tok_kind semi = TK_Semi \<and>
          gTops ub base (sp_isConst spec) ws xs) es (ts @ us))"
proof (induction n arbitrary: s d ts out)
  case 0
  thus ?case by (simp add: fuelFor_def)
next
  case (Suc n)
  let ?c = "sp_isConst spec"
  let ?list = "\<lambda>vs xs. \<exists>ws semi. vs = ws @ [semi] \<and> tok_kind semi = TK_Semi \<and> gTops ub base ?c ws xs"
  have f0: "fuelFor 0 n s" by (rule fuelFor_call [OF Suc.prems(2)]) simp
  obtain r s1 where r: "declaredOf ub n spec d s = (r, s1)" by (cases "declaredOf ub n spec d s")
  show ?case
  proof (rule ran_case)
    show "ran s (r, s1) (\<lambda>us s' x. gTop ub base ?c (ts @ us) x)"
      unfolding r [symmetric] by (rule declaredOf_ran [OF Suc.prems(1) f0 Suc.prems(4)])
    show "r = None \<Longrightarrow> succeeded (externalLoop ub (Suc n) spec d out s) = (None, s1)" using r by simp
  next
    fix x us
    assume x: "r = Some x" and s1: "good s1" "rest s = us @ rest s1" and g: "gTop ub base ?c (ts @ us) x"
    have f1: "fuelFor 0 n s1" by (rule fuelFor_split [OF f0 s1(2)])
    show "recovers s1 (succeeded (externalLoop ub (Suc n) spec d out s)) (\<lambda>es vs. appended out ?list es (ts @ us @ vs))"
    proof (cases "checkTok TK_Comma s1")
      case False
      obtain q s2 where q: "expect TK_Semi s1 = (q, s2)" by (cases "expect TK_Semi s1")
      show ?thesis
      proof (rule ran_case)
        show "ran s1 (q, s2) (\<lambda>vs s' u. \<exists>t. vs = [t] \<and> tok_kind t = TK_Semi)"
          unfolding q [symmetric] by (rule ran_expect [OF s1(1)]) simp
        show "q = None \<Longrightarrow> succeeded (externalLoop ub (Suc n) spec d out s) = (None, s2)" using r x q False by simp
      next
        fix u :: unit and vs :: "token list"
        assume "q = Some u" "good s2" "\<exists>t. vs = [t] \<and> tok_kind t = TK_Semi"
        thus "recovers s2 (succeeded (externalLoop ub (Suc n) spec d out s)) (\<lambda>es ws. appended out ?list es (ts @ us @ vs @ ws))"
          using r x q False g_last_top [OF g] recovers_yield [of s2 _ "out @ [x]"]
          by (auto simp: appended_def yield_def)
      qed
    next
      case True
      note k = checkTok_kind [OF True]
      have s2: "good (advanceTok s1)" "fuelFor 10 n (advanceTok s1)"
        using advance_facts(1) [OF s1(1)] fuelFor_token [OF f1 s1(1), of 10] k by simp_all
      obtain q s3 where q: "andThen (parseDeclarator ub n False) (resolve spec) (advanceTok s1) = (q, s3)"
        by (cases "andThen (parseDeclarator ub n False) (resolve spec) (advanceTok s1)")
      show ?thesis
      proof (rule recovers_advance [OF s1(1)], use k in simp, rule ran_case)
        show "ran (advanceTok s1) (q, s3) (\<lambda>vs s' e. gDeclarator ub False base None vs e)"
          unfolding q [symmetric] by (rule declarator_resolved_ran [OF s2(1) fuelFor_same [OF s2(2)] Suc.prems(3)]) simp
        show "q = None \<Longrightarrow> succeeded (externalLoop ub (Suc n) spec d out s) = (None, s3)" using r x q True by simp
      next
        fix e vs
        assume e: "q = Some e" "good s3" "rest (advanceTok s1) = vs @ rest s3" "gDeclarator ub False base None vs e"
        have f3: "fuelFor 1 n s3" by (rule fuelFor_same [OF fuelFor_split [OF s2(2) e(3)]]) simp
        have step: "externalLoop ub (Suc n) spec d out s = externalLoop ub n spec e (out @ [x]) s3"
          using r x q e(1) True by simp
        show "recovers s3 (succeeded (externalLoop ub (Suc n) spec d out s))
            (\<lambda>es ws. appended out ?list es (ts @ us @ peekTok 0 s1 # vs @ ws))"
          unfolding step
        proof (rule recovers_mono [OF Suc.IH [OF e(2) f3 Suc.prems(3) e(4)]])
          fix es ws out'
          assume "appended (out @ [x]) ?list es (vs @ ws) out'"
          thus "appended out ?list es (ts @ us @ peekTok 0 s1 # vs @ ws) out'"
            using g_tops [OF g k] by (fastforce simp: appended_def)
        qed
      qed
    qed
  qed
qed

lemma parseExternalDecl_recovers:
  assumes s: "good s" and fuel: "fuelFor 10 n s"
  shows "recovers s (succeeded (parseExternalDecl ub n out s)) (appended out (gExternal ub))"
proof -
  obtain r s1 where r: "parseDeclSpec n s = (r, s1)" by (cases "parseDeclSpec n s")
  show ?thesis
  proof (rule ran_case)
    show "ran s (r, s1) (\<lambda>ts s' spec. gSpec ts (the (sp_base spec)) (sp_isConst spec) \<and> sp_base spec \<noteq> None)"
      unfolding r [symmetric] by (rule parseDeclSpec_ran [OF s]) (use fuel in \<open>auto simp: fuelFor_def\<close>)
    show "r = None \<Longrightarrow> succeeded (parseExternalDecl ub n out s) = (None, s1)" using r by (simp add: parseExternalDecl_def)
  next
    fix spec :: decl_spec and ss
    assume sp: "r = Some spec" and s1: "good s1" "rest s = ss @ rest s1"
      and "gSpec ss (the (sp_base spec)) (sp_isConst spec) \<and> sp_base spec \<noteq> None"
    then obtain base where base: "sp_base spec = Some base" "gSpec ss base (sp_isConst spec)" by auto
    have ss: "ss \<noteq> []" by (rule gSpec_nonempty [OF base(2)])
    have f1: "fuelFor 10 n s1" by (rule fuelFor_split [OF fuel s1(2)])
    show "recovers s1 (succeeded (parseExternalDecl ub n out s)) (\<lambda>es us. appended out (gExternal ub) es (ss @ us))"
    proof (cases "checkTok TK_Semi s1")
      case True
      note k = checkTok_kind [OF True]
      have "appended out (gExternal ub) [] (ss @ [peekTok 0 s1]) out"
        using g_nothing [OF base(2) k] by (simp add: appended_def)
      thus ?thesis using r sp True advance_facts(1) [OF s1(1)] k recovers_yield [of "advanceTok s1" _ out]
        by (auto simp: parseExternalDecl_def yield_def intro!: recovers_advance [OF s1(1)])
    next
      case False
      obtain q s2 where q: "andThen (parseDeclarator ub n False) (resolve spec) s1 = (q, s2)"
        by (cases "andThen (parseDeclarator ub n False) (resolve spec) s1")
      show ?thesis
      proof (rule ran_case)
        show "ran s1 (q, s2) (\<lambda>vs s' e. gDeclarator ub False base None vs e)"
          unfolding q [symmetric] by (rule declarator_resolved_ran [OF s1(1) fuelFor_same [OF f1] base(1)]) simp
        show "q = None \<Longrightarrow> succeeded (parseExternalDecl ub n out s) = (None, s2)"
          using r sp q False by (simp add: parseExternalDecl_def)
      next
        fix d ts
        assume d: "q = Some d" "good s2" "rest s1 = ts @ rest s2" "gDeclarator ub False base None ts d"
        have f2: "fuelFor 10 n s2" by (rule fuelFor_split [OF f1 d(3)])
        show "recovers s2 (succeeded (parseExternalDecl ub n out s)) (\<lambda>es us. appended out (gExternal ub) es (ss @ ts @ us))"
        proof (cases "dd_function d \<noteq> None \<and> checkTok TK_LBrace s2")
          case fn: True
          obtain b s3 where b: "parseCompound ub n s2 = (b, s3)" by (cases "parseCompound ub n s2")
          show ?thesis
          proof (rule recovers_bind)
            show "recovers s2 (b, s3) (compoundG ub)"
              unfolding b [symmetric] by (rule parseCompound_recovers [OF d(2) fuelFor_same [OF f2]]) simp
            show "b = None \<Longrightarrow> succeeded (parseExternalDecl ub n out s) = (None, s3)"
              using r sp q False d(1) fn b by (simp add: parseExternalDecl_def)
          next
            fix body us ds
            assume body: "b = Some body" "good s3" "compoundG ub ds us body"
            have "appended out (gExternal ub) ds (ss @ ts @ us) (out @ [functionOf d (Some body)])"
              using body(3) ss g_definition [OF base(2) d(4)] fn by (auto simp: appended_def compoundG_def functionOf_grammar)
            moreover have "succeeded (parseExternalDecl ub n out s) = (Some (out @ [functionOf d (Some body)]), s3)"
              using r sp q False d(1) fn b body(1) by (simp add: parseExternalDecl_def)
            ultimately show "recovers s3 (succeeded (parseExternalDecl ub n out s))
                (\<lambda>es vs. appended out (gExternal ub) (ds @ es) (ss @ ts @ us @ vs))"
              using body(2) recovers_yield [of s3 _ "out @ [functionOf d (Some body)]"] by (simp add: yield_def)
          qed
        next
          case no: False
          have step: "parseExternalDecl ub n out s = externalLoop ub n spec d out s2"
            using r sp q False d(1) no by (auto simp: parseExternalDecl_def)
          show ?thesis
            unfolding step
          proof (rule recovers_mono [OF externalLoop_recovers [OF d(2) fuelFor_same [OF f2] base(1) d(4)]])
            fix es us out'
            assume "appended out (\<lambda>vs xs. \<exists>ws semi. vs = ws @ [semi] \<and> tok_kind semi = TK_Semi \<and>
                gTops ub base (sp_isConst spec) ws xs) es (ts @ us) out'"
            thus "appended out (gExternal ub) es (ss @ ts @ us) out'"
              using g_declaration [OF base(2)] by (fastforce simp: appended_def)
          qed simp
        qed
      qed
    qed
  qed
qed

section \<open>The run\<close>

text \<open>The parser stops at the end of the file; with no report the tokens before it are a unit.\<close>

lemma runParser_ends:
  "good s \<Longrightarrow> fuelFor 10 n s \<Longrightarrow> length (rest s) \<le> m \<Longrightarrow>
     (case runParser ub n m out s of (decls, s') \<Rightarrow>
        good s' \<and> ps_toks s' = ps_toks s \<and> ps_exhausted s' = ps_exhausted s \<and> kindAt 0 s' = TK_Eof \<and>
        (\<exists>ts ds. rest s = ts @ rest s' \<and> ps_diags s' = ps_diags s @ ds \<and>
           (ds = [] \<longrightarrow> (\<exists>xs. decls = out @ xs \<and> gUnit ub ts xs))))"
proof (induction m arbitrary: s out)
  case 0
  thus ?case using rest_hd [of s] by simp
next
  case (Suc m)
  show ?case
  proof (cases "checkTok TK_Eof s")
    case True
    thus ?thesis using Suc.prems by (simp add: checkTok_def g_empty)
  next
    case False
    obtain ok out1 s1 where p: "parseExternalDecl ub n out s = ((ok, out1), s1)"
      by (cases "parseExternalDecl ub n out s") auto
    have "recovers s (succeeded ((ok, out1), s1)) (appended out (gExternal ub))"
      unfolding p [symmetric] by (rule parseExternalDecl_recovers [OF Suc.prems(1,2)])
    then obtain ts ds where s1: "good s1" "ps_toks s1 = ps_toks s" "ps_exhausted s1 = ps_exhausted s" "rest s = ts @ rest s1"
        "ps_diags s1 = ps_diags s @ ds" and c: "if ok then appended out (gExternal ub) ds ts out1 else ds \<noteq> []"
      by (auto simp: recovers_def succeeded_def split: if_splits)
    define s2 where "s2 = (if ok then s1 else synchronizeTopLevel n (ps_pos s) s1)"
    have len: "length (rest s) < n" using Suc.prems(2) by (simp add: fuelFor_def)
    have m2: "moved s1 s2 \<and> length (rest s2) < length (rest s)"
    proof (cases ok)
      case True
      hence "ts \<noteq> []" using c by (simp add: appended_def)
      thus ?thesis using True s1(1,4) moved_refl by (simp add: s2_def)
    next
      case no: False
      thus ?thesis using synchronizeTopLevel_moved [OF Suc.prems(1) False len s1(1,2,4)] by (simp add: s2_def)
    qed
    then obtain us where s2: "good s2" "ps_toks s2 = ps_toks s1" "ps_exhausted s2 = ps_exhausted s1"
        "ps_diags s2 = ps_diags s1" "rest s1 = us @ rest s2" by (auto simp: moved_def)
    have step: "runParser ub n (Suc m) out s = runParser ub n m out1 s2" using False p by (simp add: s2_def)
    have f2: "fuelFor 10 n s2" using m2 Suc.prems(2) by (simp add: fuelFor_def)
    obtain decls s' where run: "runParser ub n m out1 s2 = (decls, s')" by (cases "runParser ub n m out1 s2")
    obtain vs es where s': "good s'" "ps_toks s' = ps_toks s2" "ps_exhausted s' = ps_exhausted s2" "kindAt 0 s' = TK_Eof"
        "rest s2 = vs @ rest s'" "ps_diags s' = ps_diags s2 @ es"
        and g: "es = [] \<longrightarrow> (\<exists>xs. decls = out1 @ xs \<and> gUnit ub vs xs)"
      using Suc.IH [OF s2(1) f2, of out1] m2 Suc.prems(3) run by auto
    have "\<exists>xs. decls = out @ xs \<and> gUnit ub (ts @ us @ vs) xs" if "ds @ es = []"
    proof -
      have ok using c that by (auto split: if_splits)
      hence "us = []" "appended out (gExternal ub) [] ts out1" using s2(5) c that by (simp_all add: s2_def)
      thus ?thesis using g that g_unit by (fastforce simp: appended_def)
    qed
    thus ?thesis
      unfolding step run using s1 s2 s' by (auto intro!: exI [of _ "ts @ us @ vs"] exI [of _ "ds @ es"])
  qed
qed

lemma stream_start:
  assumes "stream toks"
  shows "good (newParser toks)" "rest (newParser toks) = toks" "fuelFor 10 n (newParser toks) \<longleftrightarrow> 10 * length toks + 10 \<le> n"
  using assms by (auto simp: good_def rest_def newParser_def stream_def fuelFor_def)

lemma at_end:
  assumes "good s" "kindAt 0 s = TK_Eof" "stream (us @ rest s)"
  shows "butlast (us @ rest s) = us"
proof -
  have "rest s = [peekTok 0 s]" using rest_cons [OF assms(1)] eof_iff [OF assms(1)] assms(2) by simp
  thus ?thesis by (simp add: butlast_append)
qed

lemma parseWith_result:
  assumes "stream toks" "10 * length toks + 10 \<le> n"
  shows "(\<exists>ds. parseWith ub n toks = Some (Inl ds) \<and> ds \<noteq> []) \<or>
     (\<exists>tu. parseWith ub n toks = Some (Inr tu) \<and> gUnit ub (butlast toks) (tu_decls tu))"
proof -
  let ?s = "newParser toks"
  note start = stream_start [OF assms(1)]
  obtain decls s' where run: "runParser ub n n [] ?s = (decls, s')" by (cases "runParser ub n n [] ?s")
  have "fuelFor 10 n ?s" "length (rest ?s) \<le> n" using start assms(2) by simp_all
  from runParser_ends [OF start(1) this, of "[]" ub] obtain ts ds where
    s': "good s'" "ps_exhausted s' = ps_exhausted ?s" "kindAt 0 s' = TK_Eof" "toks = ts @ rest s'" "ps_diags s' = ds"
    and g: "ds = [] \<longrightarrow> gUnit ub ts decls"
    by (auto simp: run start(2))
  have "butlast toks = ts" using at_end [OF s'(1,3), of ts] assms(1) s'(4) by simp
  thus ?thesis using s' g run by (auto simp: parseWith_def newParser_def)
qed

end
