(* ===== verification/ParseFirst.thy ===== *)
theory ParseFirst
  imports ParseRun
begin

text \<open>
  The tokens that the phrases of the grammar can start with, and the parser's state described by
  the tokens that are left: what the completeness of the parser rests on.
\<close>

section \<open>First tokens\<close>

definition firstIn :: "(token_kind \<Rightarrow> bool) \<Rightarrow> token list \<Rightarrow> bool" where
  "firstIn P ts \<longleftrightarrow> (case ts of [] \<Rightarrow> False | t # us \<Rightarrow> P (tok_kind t))"

lemma firstIn_simps [simp]: "\<not> firstIn P []" "firstIn P (t # ts) \<longleftrightarrow> P (tok_kind t)"
  by (simp_all add: firstIn_def)

lemma firstIn_append [simp]: "firstIn P (ts @ us) \<longleftrightarrow> (if ts = [] then firstIn P us else firstIn P ts)"
  by (cases ts) simp_all

lemma firstIn_nonempty: "firstIn P ts \<Longrightarrow> ts \<noteq> []"
  by auto

lemma firstInE:
  assumes "firstIn P ts"
  obtains t us where "ts = t # us" "P (tok_kind t)"
  using assms by (cases ts) auto

lemma firstIn_mono: "firstIn P ts \<Longrightarrow> (\<And>k. P k \<Longrightarrow> Q k) \<Longrightarrow> firstIn Q ts"
  by (cases ts) auto

lemma firstIn_not: "firstIn P ts \<Longrightarrow> \<not> P k \<Longrightarrow> \<not> firstIn (\<lambda>k'. k' = k) ts"
  by (cases ts) auto

definition startsExpr :: "token_kind \<Rightarrow> bool" where
  "startsExpr k \<longleftrightarrow> unaryOperator k \<noteq> None \<or>
     k \<in> {TK_Identifier, TK_IntLiteral, TK_FloatLiteral, TK_CharLiteral, TK_StringLiteral, TK_LParen, TK_KwSizeof}"

lemma startsExpr_type: "startsExpr k \<Longrightarrow> \<not> isTypeStart k"
  by (cases k) (auto simp: startsExpr_def isTypeStart_def)

definition startsDeclarator :: "bool \<Rightarrow> token_kind \<Rightarrow> bool" where
  "startsDeclarator ab k \<longleftrightarrow> k \<in> {TK_Star, TK_Identifier, TK_LParen} \<or> ab \<and> k = TK_LSquare"

definition startsDirect :: "bool \<Rightarrow> token_kind \<Rightarrow> bool" where
  "startsDirect ab k \<longleftrightarrow> k \<in> {TK_Identifier, TK_LParen} \<or> ab \<and> k = TK_LSquare"

lemma startsDirect_declarator: "startsDirect ab k \<Longrightarrow> startsDeclarator ab k"
  by (auto simp: startsDirect_def startsDeclarator_def)

lemma gSpec_first: "gSpec ss t c \<Longrightarrow> firstIn isTypeStart ss"
  using gSpec_nonempty by (cases ss) (auto simp: gSpec_def kindsOf_def)

lemma starts_simps:
  "isTypeStart TK_KwVoid" "startsDeclarator ab TK_Star" "startsDirect ab TK_Identifier" "startsDirect ab TK_LParen"
  "startsDirect True TK_LSquare"
  by (simp_all add: isTypeStart_def startsDeclarator_def startsDirect_def)

lemma firstIn_direct: "firstIn (startsDirect ab) ts \<Longrightarrow> firstIn (startsDeclarator ab) ts"
  by (erule firstIn_mono) (rule startsDirect_declarator)

lemma grammar_first:
  "gPrimary ub ts e \<Longrightarrow> firstIn startsExpr ts"
  "gPostfix ub ts e \<Longrightarrow> firstIn startsExpr ts"
  "gArgs ub ts es \<Longrightarrow> if es = [] then ts = [] else firstIn startsExpr ts"
  "gUnary ub ts e \<Longrightarrow> firstIn startsExpr ts"
  "gBinary ub p ts e \<Longrightarrow> firstIn startsExpr ts"
  "gAssign ub ts e \<Longrightarrow> firstIn startsExpr ts"
  "gTypeName ub ts t \<Longrightarrow> firstIn isTypeStart ts"
  "gDeclarator ub ab t f ts d \<Longrightarrow> ab \<and> ts = [] \<or> firstIn (startsDeclarator ab) ts"
  "gDirect ub ab t f ts d \<Longrightarrow> ab \<and> ts = [] \<or> firstIn (startsDirect ab) ts"
  "gLength ub ts n \<Longrightarrow> ts = [] \<or> firstIn startsExpr ts"
  "gParams ub ts fn \<Longrightarrow> ts = [] \<or> firstIn (\<lambda>k. isTypeStart k \<or> k = TK_Ellipsis) ts"
  "gParamList ub ts fn \<Longrightarrow> firstIn (\<lambda>k. isTypeStart k \<or> k = TK_Ellipsis) ts"
  "gParam ub ts pd \<Longrightarrow> firstIn isTypeStart ts"
  by (induction rule: gPrimary_gPostfix_gArgs_gUnary_gBinary_gAssign_gTypeName_gDeclarator_gDirect_gLength_gParams_gParamList_gParam.inducts)
    (auto simp: startsExpr_def kindsOf_def gStrings_def starts_simps dest: gSpec_first firstIn_nonempty firstIn_direct
      elim: firstIn_mono)

text \<open>A parenthesis that starts a postfix expression is followed by an expression, not by a type.\<close>

definition startsPostfix :: "token list \<Rightarrow> bool" where
  "startsPostfix ts \<longleftrightarrow>
     firstIn (\<lambda>k. k \<in> {TK_Identifier, TK_IntLiteral, TK_FloatLiteral, TK_CharLiteral, TK_StringLiteral}) ts \<or>
     (\<exists>t us. ts = t # us \<and> tok_kind t = TK_LParen \<and> firstIn startsExpr us)"

lemma startsPostfix_append: "startsPostfix ts \<Longrightarrow> startsPostfix (ts @ us)"
  by (auto simp: startsPostfix_def split: if_splits)

lemma gPrimary_starts: "gPrimary ub ts e \<Longrightarrow> startsPostfix ts"
  by (erule gPrimary.cases) (auto simp: startsPostfix_def kindsOf_def gStrings_def dest: grammar_first(6))

lemma gPostfix_starts: "gPostfix ub ts e \<Longrightarrow> startsPostfix ts"
proof (induction "length ts" arbitrary: ts e rule: less_induct)
  case less
  from less.prems show ?case
  proof cases
    case g_primary
    thus ?thesis by (rule gPrimary_starts)
  next
    case (g_call us f lp rp vs args)
    thus ?thesis using less.hyps [of us] startsPostfix_append by simp
  next
    case (g_index us a lb rb vs i)
    thus ?thesis using less.hyps [of us] startsPostfix_append by simp
  qed
qed

lemma gUnary_single: "gUnary ub [t] e \<Longrightarrow> tok_kind t \<noteq> TK_LParen"
  by (erule gUnary.cases) (auto simp: startsPostfix_def dest!: gPostfix_starts expr_nonempty(3))

section \<open>States by the tokens left\<close>

text \<open>The parser before \<open>us\<close>, and that \<open>us\<close> is an end of its tokens.\<close>

definition upTo :: "token list \<Rightarrow> parser \<Rightarrow> parser" where
  "upTo us s = s\<lparr>ps_pos := length (ps_toks s) - length us\<rparr>"

definition ending :: "token list \<Rightarrow> parser \<Rightarrow> bool" where
  "ending us s \<longleftrightarrow> stream (ps_toks s) \<and> us \<noteq> [] \<and> (\<exists>pre. ps_toks s = pre @ us)"

lemma ending_drop: "ending (ts @ us) s \<Longrightarrow> us \<noteq> [] \<Longrightarrow> ending us s"
  by (auto simp: ending_def)

lemma ending_tl: "ending (t # us) s \<Longrightarrow> us \<noteq> [] \<Longrightarrow> ending us s"
  using ending_drop [of "[t]" us s] by simp

lemma upTo_good:
  assumes "ending us s"
  shows "good (upTo us s)" "rest (upTo us s) = us"
proof -
  obtain pre where p: "ps_toks s = pre @ us" using assms by (auto simp: ending_def)
  thus "rest (upTo us s) = us" by (simp add: upTo_def rest_def)
  show "good (upTo us s)" using assms p by (auto simp: good_def upTo_def ending_def)
qed

lemma upTo_peek: "ending (t # us) s \<Longrightarrow> peekTok 0 (upTo (t # us) s) = t"
  using upTo_good [of "t # us" s] rest_hd by fastforce

lemma ending_kind: "ending (t # us) s \<Longrightarrow> us \<noteq> [] \<Longrightarrow> tok_kind t \<noteq> TK_Eof"
  using eof_iff [of "upTo (t # us) s"] upTo_good [of "t # us" s] upTo_peek [of t us s] by simp

lemma upTo_advance: "ending (t # us) s \<Longrightarrow> us \<noteq> [] \<Longrightarrow> advanceTok (upTo (t # us) s) = upTo us s"
proof -
  assume f: "ending (t # us) s" "us \<noteq> []"
  then obtain pre where "ps_toks s = pre @ t # us" by (auto simp: ending_def)
  thus ?thesis using upTo_peek [OF f(1)] ending_kind [OF f] by (simp add: advanceTok_def) (simp add: upTo_def)
qed

lemma upTo_peek1: "ending (t # u # us) s \<Longrightarrow> peekTok (Suc 0) (upTo (t # u # us) s) = u"
  using advance_facts(6) [of "upTo (t # u # us) s"] upTo_good [of "t # u # us" s] upTo_peek [of t "u # us" s]
    ending_kind [of t "u # us" s] upTo_advance [of t "u # us" s] upTo_peek [of u us s] ending_tl [of t "u # us" s] by simp

lemma upTo_check: "ending (t # us) s \<Longrightarrow> checkTok k (upTo (t # us) s) \<longleftrightarrow> tok_kind t = k"
  by (simp add: checkTok_def upTo_peek)

lemma upTo_expect: "ending (t # us) s \<Longrightarrow> us \<noteq> [] \<Longrightarrow> tok_kind t = k \<Longrightarrow> expect k (upTo (t # us) s) = (Some (), upTo us s)"
  by (simp add: expect_def consume_def upTo_check upTo_advance)

lemma upTo_consume:
  "ending (t # us) s \<Longrightarrow> us \<noteq> [] \<Longrightarrow> consume k (upTo (t # us) s) =
     (if tok_kind t = k then (True, upTo us s) else (False, upTo (t # us) s))"
  by (simp add: consume_def upTo_check upTo_advance)

lemma upTo_consume_not:
  "ending (t # us) s \<Longrightarrow> tok_kind t \<noteq> k \<Longrightarrow> consume k (upTo (t # us) s) = (False, upTo (t # us) s)"
  by (simp add: consume_def upTo_check)

lemma andThen_Some: "p s = (Some a, s') \<Longrightarrow> andThen p f s = f a s'"
  by (simp add: andThen_def)

lemma yield_simp [simp]: "yield a s = (Some a, s)"
  by (simp add: yield_def)

lemmas upTo_simps = upTo_peek upTo_peek1 upTo_check upTo_advance upTo_expect upTo_consume upTo_consume_not

end
