(* ===== verification/ParseAccepts.thy ===== *)
theory ParseAccepts
  imports ParseFirst
begin

text \<open>
  The parser accepts the phrases of the grammar: started before a phrase and a token that can
  follow it, a function returns the phrase's tree and stops behind the phrase. There is one claim
  for each nonterminal and one lemma for each production; the loops are described by the loop that
  is left when the phrase has been read.
\<close>

section \<open>The claims for expressions\<close>

definition takes :: "parser \<Rightarrow> nat \<Rightarrow> (nat \<Rightarrow> 'a parses) \<Rightarrow> (token_kind \<Rightarrow> bool) \<Rightarrow> token list \<Rightarrow> 'a \<Rightarrow> bool" where
  "takes s lvl p F ts a \<longleftrightarrow>
     (\<forall>n u us. ending (ts @ u # us) s \<longrightarrow> 10 * length (ts @ u # us) + lvl \<le> n \<longrightarrow> F (tok_kind u) \<longrightarrow>
        p n (upTo (ts @ u # us) s) = (Some a, upTo (u # us) s))"

definition endsOperand :: "token_kind \<Rightarrow> bool" where
  "endsOperand k \<longleftrightarrow> k \<notin> {TK_LParen, TK_LSquare, TK_StringLiteral}"

definition endsBinary :: "nat \<Rightarrow> token_kind \<Rightarrow> bool" where
  "endsBinary p k \<longleftrightarrow> endsOperand k \<and> (\<forall>q op. binaryInfo k = Some (q, op) \<longrightarrow> q < p)"

definition endsExpr :: "token_kind \<Rightarrow> bool" where
  "endsExpr k \<longleftrightarrow> endsBinary 1 k \<and> k \<noteq> TK_Equal"

definition takesPrimary :: "(fp \<Rightarrow> i64) \<Rightarrow> parser \<Rightarrow> token list \<Rightarrow> expr \<Rightarrow> bool" where
  "takesPrimary ub s = takes s 1 (parsePrimary ub) (\<lambda>k. k \<noteq> TK_StringLiteral)"

definition takesPostfix :: "(fp \<Rightarrow> i64) \<Rightarrow> parser \<Rightarrow> token list \<Rightarrow> expr \<Rightarrow> bool" where
  "takesPostfix ub s ts e \<longleftrightarrow>
     (\<forall>n u us. ending (ts @ u # us) s \<longrightarrow> 10 * length (ts @ u # us) + 1 \<le> n \<longrightarrow> tok_kind u \<noteq> TK_StringLiteral \<longrightarrow>
        (\<exists>k. 10 * length us + 10 \<le> k \<and>
           parsePostfix ub (Suc n) (upTo (ts @ u # us) s) = postfixLoop ub (Suc k) e (upTo (u # us) s)))"

definition takesArgs :: "(fp \<Rightarrow> i64) \<Rightarrow> parser \<Rightarrow> token list \<Rightarrow> expr list \<Rightarrow> bool" where
  "takesArgs ub s ts as \<longleftrightarrow> (as = [] \<longleftrightarrow> ts = []) \<and> (as \<noteq> [] \<longrightarrow> takes s 6 (argsLoop ub) (\<lambda>k. k = TK_RParen) ts as)"

definition takesUnary :: "(fp \<Rightarrow> i64) \<Rightarrow> parser \<Rightarrow> token list \<Rightarrow> expr \<Rightarrow> bool" where
  "takesUnary ub s = takes s 3 (parseUnary ub) endsOperand"

definition takesBinary :: "(fp \<Rightarrow> i64) \<Rightarrow> parser \<Rightarrow> nat \<Rightarrow> token list \<Rightarrow> expr \<Rightarrow> bool" where
  "takesBinary ub s p ts e \<longleftrightarrow>
     (\<forall>n u us m. ending (ts @ u # us) s \<longrightarrow> 10 * length (ts @ u # us) + 3 \<le> n \<longrightarrow> endsBinary (p + 1) (tok_kind u) \<longrightarrow>
        m \<le> p \<longrightarrow> (\<exists>k. 10 * length us + 10 \<le> k \<and>
           parseBinary ub (Suc n) m (upTo (ts @ u # us) s) = binaryLoop ub (Suc k) m e (upTo (u # us) s)))"

definition takesAssign :: "(fp \<Rightarrow> i64) \<Rightarrow> parser \<Rightarrow> token list \<Rightarrow> expr \<Rightarrow> bool" where
  "takesAssign ub s = takes s 5 (parseAssignment ub) endsExpr"

definition takesType :: "(fp \<Rightarrow> i64) \<Rightarrow> parser \<Rightarrow> token list \<Rightarrow> ty \<Rightarrow> bool" where
  "takesType ub s = takes s 2 (parseTypeName ub) (\<lambda>k. k = TK_RParen)"

lemma takesD:
  assumes "takes s lvl p F ts a" "ending (ts @ u # us) s" "10 * length (ts @ u # us) + lvl \<le> n" "F (tok_kind u)"
  shows "p n (upTo (ts @ u # us) s) = (Some a, upTo (u # us) s)"
  using assms unfolding takes_def by blast

text \<open>Fuel is a successor, as there are tokens left.\<close>

lemma takesI:
  assumes "\<And>n u us. ending (ts @ u # us) s \<Longrightarrow> 10 * (length ts + length us) + 9 + lvl \<le> n \<Longrightarrow> F (tok_kind u) \<Longrightarrow>
      p (Suc n) (upTo (ts @ u # us) s) = (Some a, upTo (u # us) s)"
  shows "takes s lvl p F ts a"
  unfolding takes_def
proof (intro allI impI)
  fix n u us
  assume "ending (ts @ u # us) s" "10 * length (ts @ u # us) + lvl \<le> n" "F (tok_kind u)"
  thus "p n (upTo (ts @ u # us) s) = (Some a, upTo (u # us) s)" using assms [of u us "n - 1"] by (cases n) auto
qed

lemma ends_simps [simp]:
  "endsExpr TK_RParen" "endsExpr TK_RSquare" "endsExpr TK_Comma" "endsExpr TK_Semi" "endsExpr TK_RBrace"
  "endsBinary p TK_Equal" "endsOperand TK_Equal"
  by (simp_all add: endsExpr_def endsBinary_def endsOperand_def)

lemma endsBinary_op: "binaryInfo k = Some (q, op) \<Longrightarrow> q < p \<Longrightarrow> endsBinary p k"
  by (cases k) (auto simp: endsBinary_def endsOperand_def)

lemma endsBinary_mono: "endsBinary p k \<Longrightarrow> p \<le> q \<Longrightarrow> endsBinary q k"
  by (fastforce simp: endsBinary_def)

lemma endsBinary_operand: "endsBinary p k \<Longrightarrow> endsOperand k"
  by (simp add: endsBinary_def)

section \<open>Primary and postfix expressions\<close>

lemma stringParts_takes:
  assumes "\<forall>t \<in> set ts. tok_kind t = TK_StringLiteral" "map (\<lambda>t. parseStringLiteral (tok_text t)) ts = map Inr parts"
    "ending (ts @ u # us) s" "length ts < n" "tok_kind u \<noteq> TK_StringLiteral"
  shows "stringParts n bytes (upTo (ts @ u # us) s) = (Some (bytes @ concat parts), upTo (u # us) s)"
  using assms
proof (induction ts arbitrary: n bytes parts)
  case Nil
  thus ?case by (cases n) (simp_all add: upTo_simps)
next
  case (Cons t ts)
  then obtain p ps where parts: "parts = p # ps" "parseStringLiteral (tok_text t) = Inr p"
      "map (\<lambda>t. parseStringLiteral (tok_text t)) ts = map Inr ps" by (cases parts) auto
  obtain m where n: "n = Suc m" using Cons.prems(4) by (cases n) auto
  have f: "ending (ts @ u # us) s" using Cons.prems(3) ending_tl [of t] by simp
  have "stringParts n bytes (upTo (t # ts @ u # us) s) = stringParts m (bytes @ p) (upTo (ts @ u # us) s)"
    using Cons.prems(1,3) parts by (simp add: n upTo_simps)
  thus ?case using Cons.IH [OF _ parts(3) f, of m] Cons.prems(1,4,5) parts(1) n by simp
qed

lemma a_literal:
  assumes "\<And>n u us. ending (t # u # us) s \<Longrightarrow> parsePrimary ub (Suc n) (upTo (t # u # us) s) = (Some e, upTo (u # us) s)"
  shows "takesPrimary ub s [t] e"
  unfolding takesPrimary_def by (rule takesI) (use assms in simp)

lemma a_name: "tok_kind t = TK_Identifier \<Longrightarrow> takesPrimary ub s [t] (bareExpr (DeclRef (tok_text t) 0) (tok_loc t))"
  by (rule a_literal) (simp add: upTo_simps)

lemma a_int: "tok_kind t = TK_IntLiteral \<Longrightarrow> parseIntLiteral (tok_text t) = Inr v \<Longrightarrow> v \<le> 2147483647 \<Longrightarrow>
    takesPrimary ub s [t] (bareExpr (IntLiteral v) (tok_loc t))"
  by (rule a_literal) (auto simp: upTo_simps intLiteral_def dest: leD)

lemma a_float: "tok_kind t = TK_FloatLiteral \<Longrightarrow> parseFloatLiteral (tok_text t) = Inr x \<Longrightarrow>
    takesPrimary ub s [t] (bareExpr (FloatLiteral x) (tok_loc t))"
  by (rule a_literal) (simp add: upTo_simps floatLiteral_def)

lemma a_char: "tok_kind t = TK_CharLiteral \<Longrightarrow> parseCharLiteral (tok_text t) = Inr c \<Longrightarrow>
    takesPrimary ub s [t] (bareExpr (IntLiteral (word_of_int (schar c))) (tok_loc t))"
  by (rule a_literal) (simp add: upTo_simps charLiteral_def)

lemma a_string:
  assumes "gStrings (t # ts) bytes"
  shows "takesPrimary ub s (t # ts) (bareExpr (StringLiteral bytes) (tok_loc t))"
  unfolding takesPrimary_def
proof (rule takesI)
  fix n u us
  assume f: "ending ((t # ts) @ u # us) s" and n: "10 * (length (t # ts) + length us) + 9 + 1 \<le> n"
    and u: "tok_kind u \<noteq> TK_StringLiteral"
  have "tok_kind t = TK_StringLiteral" using assms by (simp add: gStrings_def)
  moreover obtain parts where "map (\<lambda>t. parseStringLiteral (tok_text t)) (t # ts) = map Inr parts" "bytes = concat parts"
    using assms unfolding gStrings_def by blast
  hence "stringParts n [] (upTo ((t # ts) @ u # us) s) = (Some bytes, upTo (u # us) s)"
    using stringParts_takes [OF _ _ f _ u, of parts n "[]"] n assms by (simp add: gStrings_def)
  ultimately show "parsePrimary ub (Suc n) (upTo ((t # ts) @ u # us) s) =
      (Some (bareExpr (StringLiteral bytes) (tok_loc t)), upTo (u # us) s)"
    using f by (simp add: upTo_simps andThen_Some)
qed

lemma a_paren:
  assumes "kindsOf [lp, rp] = [TK_LParen, TK_RParen]" "gAssign ub ts e" "takesAssign ub s ts e"
  shows "takesPrimary ub s (lp # ts @ [rp]) e"
  unfolding takesPrimary_def
proof (rule takesI)
  fix n u us
  assume f: "ending ((lp # ts @ [rp]) @ u # us) s" and n: "10 * (length (lp # ts @ [rp]) + length us) + 9 + 1 \<le> n"
  have f1: "ending (ts @ rp # u # us) s" using f ending_tl [of lp] by simp
  have f2: "ending (rp # u # us) s" using ending_drop [OF f1] by simp
  have "parseAssignment ub n (upTo (ts @ rp # u # us) s) = (Some e, upTo (rp # u # us) s)"
    by (rule takesD [OF assms(3) [unfolded takesAssign_def] f1]) (use n assms(1) in \<open>simp_all add: kindsOf_def\<close>)
  thus "parsePrimary ub (Suc n) (upTo ((lp # ts @ [rp]) @ u # us) s) = (Some e, upTo (u # us) s)"
    using f f2 assms(1) by (simp add: kindsOf_def upTo_simps andThen_Some)
qed


lemma a_primary:
  assumes "takesPrimary ub s ts e"
  shows "takesPostfix ub s ts e"
  unfolding takesPostfix_def
proof (intro allI impI)
  fix n u us
  assume f: "ending (ts @ u # us) s" and n: "10 * length (ts @ u # us) + 1 \<le> n" and u: "tok_kind u \<noteq> TK_StringLiteral"
  have "parsePrimary ub n (upTo (ts @ u # us) s) = (Some e, upTo (u # us) s)"
    by (rule takesD [OF assms [unfolded takesPrimary_def] f n u])
  moreover have "n = Suc (n - 1)" "10 * length us + 10 \<le> n - 1" using n by auto
  ultimately show "\<exists>k. 10 * length us + 10 \<le> k \<and>
      parsePostfix ub (Suc n) (upTo (ts @ u # us) s) = postfixLoop ub (Suc k) e (upTo (u # us) s)"
    by (metis andThen_Some parsePostfix.simps(2))
qed

text \<open>A suffix that the loop reads behind a postfix expression.\<close>

lemma a_suffix:
  assumes p: "takesPostfix ub s ts e" and k0: "tok_kind o' \<noteq> TK_StringLiteral"
    and step: "\<And>k u us. ending (o' # vs @ u # us) s \<Longrightarrow> 10 * (length vs + length us) + 20 \<le> k \<Longrightarrow>
      postfixLoop ub (Suc k) e (upTo (o' # vs @ u # us) s) = postfixLoop ub k e' (upTo (u # us) s)"
  shows "takesPostfix ub s (ts @ o' # vs) e'"
  unfolding takesPostfix_def
proof (intro allI impI)
  fix n u us
  assume f: "ending ((ts @ o' # vs) @ u # us) s" and n: "10 * length ((ts @ o' # vs) @ u # us) + 1 \<le> n"
  have f1: "ending (ts @ o' # vs @ u # us) s" using f by simp
  then obtain k where k: "10 * length (vs @ u # us) + 10 \<le> k"
      "parsePostfix ub (Suc n) (upTo (ts @ o' # vs @ u # us) s) = postfixLoop ub (Suc k) e (upTo (o' # vs @ u # us) s)"
    using p n k0 unfolding takesPostfix_def by fastforce
  have "ending (o' # vs @ u # us) s" using ending_drop [OF f1] by simp
  moreover have "10 * (length vs + length us) + 20 \<le> k" using k(1) by simp
  ultimately have "postfixLoop ub (Suc k) e (upTo (o' # vs @ u # us) s) = postfixLoop ub k e' (upTo (u # us) s)"
    by (rule step)
  moreover have "k = Suc (k - 1)" "10 * length us + 10 \<le> k - 1" using k(1) by auto
  ultimately show "\<exists>k. 10 * length us + 10 \<le> k \<and>
      parsePostfix ub (Suc n) (upTo ((ts @ o' # vs) @ u # us) s) = postfixLoop ub (Suc k) e' (upTo (u # us) s)"
    using k(2) by (metis append_Cons append_assoc)
qed

lemma a_call:
  assumes p: "takesPostfix ub s ts e" and k: "kindsOf [lp, rp] = [TK_LParen, TK_RParen]"
    and g: "gArgs ub vs args" and a: "takesArgs ub s vs args"
  shows "takesPostfix ub s (ts @ lp # vs @ [rp]) (bareExpr (Call e args) (expr_loc e))"
proof (rule a_suffix [OF p])
  show "tok_kind lp \<noteq> TK_StringLiteral" using k by (simp add: kindsOf_def)
  fix n u us
  assume f: "ending (lp # (vs @ [rp]) @ u # us) s" and n: "10 * (length (vs @ [rp]) + length us) + 20 \<le> n"
  have f1: "ending (vs @ rp # u # us) s" using f ending_tl [of lp] by simp
  have f2: "ending (rp # u # us) s" using ending_drop [OF f1] by simp
  let ?s = "upTo (vs @ rp # u # us) s"
  have "(if checkTok TK_RParen ?s then yield [] ?s else argsLoop ub n ?s) = (Some args, upTo (rp # u # us) s)"
  proof (cases "args = []")
    case True
    thus ?thesis using a f2 k by (simp add: takesArgs_def upTo_simps kindsOf_def)
  next
    case False
    hence "takes s 6 (argsLoop ub) (\<lambda>k. k = TK_RParen) vs args" using a by (simp add: takesArgs_def)
    from takesD [OF this f1] have "argsLoop ub n ?s = (Some args, upTo (rp # u # us) s)"
      using k n by (simp add: kindsOf_def)
    moreover obtain v ws where "vs = v # ws" "startsExpr (tok_kind v)"
      using grammar_first(3) [OF g] False by (auto elim: firstInE)
    ultimately show ?thesis using f1 by (auto simp: upTo_simps startsExpr_def)
  qed
  thus "postfixLoop ub (Suc n) e (upTo (lp # (vs @ [rp]) @ u # us) s) =
      postfixLoop ub n (bareExpr (Call e args) (expr_loc e)) (upTo (u # us) s)"
    using f f2 k by (simp add: upTo_simps kindsOf_def andThen_Some)
qed

lemma a_index:
  assumes p: "takesPostfix ub s ts e" and k: "kindsOf [lb, rb] = [TK_LSquare, TK_RSquare]" and a: "takesAssign ub s vs i"
  shows "takesPostfix ub s (ts @ lb # vs @ [rb]) (bareExpr (Index e i) (tok_loc lb))"
proof (rule a_suffix [OF p])
  show "tok_kind lb \<noteq> TK_StringLiteral" using k by (simp add: kindsOf_def)
  fix n u us
  assume f: "ending (lb # (vs @ [rb]) @ u # us) s" and n: "10 * (length (vs @ [rb]) + length us) + 20 \<le> n"
  have f1: "ending (vs @ rb # u # us) s" using f ending_tl [of lb] by simp
  have f2: "ending (rb # u # us) s" using ending_drop [OF f1] by simp
  have "parseAssignment ub n (upTo (vs @ rb # u # us) s) = (Some i, upTo (rb # u # us) s)"
    using k n by (intro takesD [OF a [unfolded takesAssign_def] f1]) (simp_all add: kindsOf_def)
  thus "postfixLoop ub (Suc n) e (upTo (lb # (vs @ [rb]) @ u # us) s) =
      postfixLoop ub n (bareExpr (Index e i) (tok_loc lb)) (upTo (u # us) s)"
    using f f2 k by (simp add: upTo_simps kindsOf_def andThen_Some)
qed


lemma a_no_args: "takesArgs ub s [] []"
  by (simp add: takesArgs_def)

lemma a_last_arg:
  assumes g: "gAssign ub ts e" and a: "takesAssign ub s ts e"
  shows "takesArgs ub s ts [e]"
proof -
  have "takes s 6 (argsLoop ub) (\<lambda>k. k = TK_RParen) ts [e]"
  proof (rule takesI)
    fix n u us
    assume f: "ending (ts @ u # us) s" and n: "10 * (length ts + length us) + 9 + 6 \<le> n" and u: "tok_kind u = TK_RParen"
    have "parseAssignment ub n (upTo (ts @ u # us) s) = (Some e, upTo (u # us) s)"
      by (rule takesD [OF a [unfolded takesAssign_def] f]) (use n u in simp_all)
    thus "argsLoop ub (Suc n) (upTo (ts @ u # us) s) = (Some [e], upTo (u # us) s)"
      using u ending_drop [OF f] by (simp add: upTo_simps andThen_Some)
  qed
  thus ?thesis using expr_nonempty(5) [OF g] by (simp add: takesArgs_def)
qed

lemma a_arg:
  assumes a: "takesAssign ub s ts e" and co: "tok_kind co = TK_Comma" and us: "vs \<noteq> []" and as: "takesArgs ub s vs as"
  shows "takesArgs ub s (ts @ co # vs) (e # as)"
proof -
  have more: "takes s 6 (argsLoop ub) (\<lambda>k. k = TK_RParen) vs as" using as us by (simp add: takesArgs_def)
  have "takes s 6 (argsLoop ub) (\<lambda>k. k = TK_RParen) (ts @ co # vs) (e # as)"
  proof (rule takesI)
    fix n u us
    assume f: "ending ((ts @ co # vs) @ u # us) s" and n: "10 * (length (ts @ co # vs) + length us) + 9 + 6 \<le> n"
      and u: "tok_kind u = TK_RParen"
    have f1: "ending (ts @ co # vs @ u # us) s" using f by simp
    have f2: "ending (co # vs @ u # us) s" using ending_drop [OF f1] by simp
    have f3: "ending (vs @ u # us) s" using ending_tl [OF f2] by simp
    have "parseAssignment ub n (upTo (ts @ co # vs @ u # us) s) = (Some e, upTo (co # vs @ u # us) s)"
      by (rule takesD [OF a [unfolded takesAssign_def] f1]) (use n co in simp_all)
    moreover have "argsLoop ub n (upTo (vs @ u # us) s) = (Some as, upTo (u # us) s)"
      by (rule takesD [OF more f3]) (use n u in simp_all)
    ultimately show "argsLoop ub (Suc n) (upTo ((ts @ co # vs) @ u # us) s) = (Some (e # as), upTo (u # us) s)"
      using co f2 by (simp add: upTo_simps andThen_Some)
  qed
  thus ?thesis by (simp add: takesArgs_def)
qed

section \<open>Unary and binary expressions\<close>

lemma a_postfix:
  assumes g: "gPostfix ub ts e" and p: "takesPostfix ub s ts e"
  shows "takesUnary ub s ts e"
  unfolding takesUnary_def
proof (rule takesI)
  fix n u us
  assume f: "ending (ts @ u # us) s" and n: "10 * (length ts + length us) + 9 + 3 \<le> n" and u: "endsOperand (tok_kind u)"
  obtain t vs where ts: "ts = t # vs" "unaryOperator (tok_kind t) = None" "tok_kind t \<noteq> TK_KwSizeof"
    and inner: "tok_kind t = TK_LParen \<Longrightarrow> firstIn startsExpr vs"
    using gPostfix_starts [OF g] by (auto simp: startsPostfix_def elim!: firstInE)
  obtain m where m: "n = Suc m" using n by (cases n) auto
  have f0: "ending (t # vs @ u # us) s" using f ts by simp
  have "\<not> (tok_kind t = TK_LParen \<and> isTypeStart (kindAt 1 (upTo (t # vs @ u # us) s)))"
    using inner f0 startsExpr_type by (auto simp: upTo_simps elim!: firstInE)
  hence "parseUnary ub (Suc n) (upTo (t # vs @ u # us) s) = parsePostfix ub n (upTo (t # vs @ u # us) s)"
    using f0 ts by (auto simp: upTo_simps)
  moreover have "10 * length (ts @ u # us) + 1 \<le> m" "tok_kind u \<noteq> TK_StringLiteral" using n m u by (auto simp: endsOperand_def)
  then obtain k where "parsePostfix ub n (upTo (ts @ u # us) s) = postfixLoop ub (Suc k) e (upTo (u # us) s)"
    using p f unfolding takesPostfix_def m by blast
  ultimately show "parseUnary ub (Suc n) (upTo (ts @ u # us) s) = (Some e, upTo (u # us) s)"
    using ts u ending_drop [OF f] by (simp add: upTo_simps endsOperand_def)
qed


lemma a_unary:
  assumes o: "unaryOperator (tok_kind o') = Some op" and a: "takesUnary ub s ts e"
  shows "takesUnary ub s (o' # ts) (bareExpr (Unary op e) (tok_loc o'))"
  unfolding takesUnary_def
proof (rule takesI)
  fix n u us
  assume f: "ending ((o' # ts) @ u # us) s" and n: "10 * (length (o' # ts) + length us) + 9 + 3 \<le> n"
    and u: "endsOperand (tok_kind u)"
  have f1: "ending (ts @ u # us) s" using f ending_tl [of o'] by simp
  have "parseUnary ub n (upTo (ts @ u # us) s) = (Some e, upTo (u # us) s)"
    by (rule takesD [OF a [unfolded takesUnary_def] f1 _ u]) (use n in simp)
  thus "parseUnary ub (Suc n) (upTo ((o' # ts) @ u # us) s) = (Some (bareExpr (Unary op e) (tok_loc o')), upTo (u # us) s)"
    using f o by (simp add: upTo_simps andThen_Some)
qed

lemma a_sizeof:
  assumes so: "tok_kind so = TK_KwSizeof" and g: "gUnary ub ts e" and a: "takesUnary ub s ts e" and nt: "\<not> startsWithType ts"
  shows "takesUnary ub s (so # ts) (bareExpr (SizeOfExpr e) (tok_loc so))"
  unfolding takesUnary_def
proof (rule takesI)
  fix n u us
  assume f: "ending ((so # ts) @ u # us) s" and n: "10 * (length (so # ts) + length us) + 9 + 3 \<le> n"
    and u: "endsOperand (tok_kind u)"
  have f1: "ending (ts @ u # us) s" using f ending_tl [of so] by simp
  have p: "parseUnary ub n (upTo (ts @ u # us) s) = (Some e, upTo (u # us) s)"
    by (rule takesD [OF a [unfolded takesUnary_def] f1 _ u]) (use n in simp)
  obtain t vs where ts: "ts = t # vs" using grammar_first(4) [OF g] by (auto elim: firstInE)
  have "\<not> (checkTok TK_LParen (upTo (ts @ u # us) s) \<and> isTypeStart (kindAt 1 (upTo (ts @ u # us) s)))"
  proof (cases vs)
    case Nil
    hence "tok_kind t \<noteq> TK_LParen" using gUnary_single g ts by blast
    thus ?thesis using f1 ts Nil by (simp add: upTo_simps)
  next
    case (Cons v ws)
    thus ?thesis using f1 nt ts by (auto simp: upTo_simps startsWithType_def)
  qed
  thus "parseUnary ub (Suc n) (upTo ((so # ts) @ u # us) s) = (Some (bareExpr (SizeOfExpr e) (tok_loc so)), upTo (u # us) s)"
    using f so p by (auto simp: upTo_simps andThen_Some Let_def)
qed

lemma a_sizeof_type:
  assumes k: "kindsOf [so, lp, rp] = [TK_KwSizeof, TK_LParen, TK_RParen]" and g: "gTypeName ub ts ty" and a: "takesType ub s ts ty"
  shows "takesUnary ub s (so # lp # ts @ [rp]) (bareExpr (SizeOfType ty) (tok_loc so))"
  unfolding takesUnary_def
proof (rule takesI)
  fix n u us
  assume f: "ending ((so # lp # ts @ [rp]) @ u # us) s" and n: "10 * (length (so # lp # ts @ [rp]) + length us) + 9 + 3 \<le> n"
  have f1: "ending (lp # ts @ rp # u # us) s" using f ending_tl [of so] by simp
  have f2: "ending (ts @ rp # u # us) s" using ending_tl [OF f1] by simp
  have f3: "ending (rp # u # us) s" using ending_drop [OF f2] by simp
  obtain t vs where ts: "ts = t # vs" "isTypeStart (tok_kind t)" using grammar_first(7) [OF g] by (auto elim: firstInE)
  have "parseTypeName ub n (upTo (ts @ rp # u # us) s) = (Some ty, upTo (rp # u # us) s)"
    by (rule takesD [OF a [unfolded takesType_def] f2]) (use n k in \<open>simp_all add: kindsOf_def\<close>)
  thus "parseUnary ub (Suc n) (upTo ((so # lp # ts @ [rp]) @ u # us) s) =
      (Some (bareExpr (SizeOfType ty) (tok_loc so)), upTo (u # us) s)"
    using f f1 f2 f3 ts k by (simp add: upTo_simps andThen_Some Let_def kindsOf_def)
qed

lemma a_cast:
  assumes k: "kindsOf [lp, rp] = [TK_LParen, TK_RParen]" and g: "gTypeName ub ts ty" and a: "takesType ub s ts ty"
    and b: "gUnary ub vs e" "takesUnary ub s vs e"
  shows "takesUnary ub s (lp # ts @ rp # vs) (Expr (Cast CK_Unresolved False e) (tok_loc lp) (Some ty) RValue)"
  unfolding takesUnary_def
proof (rule takesI)
  fix n u us
  assume f: "ending ((lp # ts @ rp # vs) @ u # us) s" and n: "10 * (length (lp # ts @ rp # vs) + length us) + 9 + 3 \<le> n"
    and u: "endsOperand (tok_kind u)"
  have f1: "ending (lp # ts @ rp # vs @ u # us) s" using f by simp
  have f2: "ending (ts @ rp # vs @ u # us) s" using ending_tl [OF f1] by simp
  have f3: "ending (rp # vs @ u # us) s" using ending_drop [OF f2] by simp
  have f4: "ending (vs @ u # us) s" using ending_tl [OF f3] by simp
  obtain t ws where ts: "ts = t # ws" "isTypeStart (tok_kind t)" using grammar_first(7) [OF g] by (auto elim: firstInE)
  have "parseTypeName ub n (upTo (ts @ rp # vs @ u # us) s) = (Some ty, upTo (rp # vs @ u # us) s)"
    by (rule takesD [OF a [unfolded takesType_def] f2]) (use n k in \<open>simp_all add: kindsOf_def\<close>)
  moreover have "parseUnary ub n (upTo (vs @ u # us) s) = (Some e, upTo (u # us) s)"
    by (rule takesD [OF b(2) [unfolded takesUnary_def] f4 _ u]) (use n in simp)
  ultimately show "parseUnary ub (Suc n) (upTo ((lp # ts @ rp # vs) @ u # us) s) =
      (Some (Expr (Cast CK_Unresolved False e) (tok_loc lp) (Some ty) RValue), upTo (u # us) s)"
    using f1 f2 f3 ts k by (simp add: upTo_simps andThen_Some kindsOf_def)
qed

lemma a_operand:
  assumes a: "takesUnary ub s ts e"
  shows "takesBinary ub s p ts e"
  unfolding takesBinary_def
proof (intro allI impI)
  fix n u us m
  assume f: "ending (ts @ u # us) s" and n: "10 * length (ts @ u # us) + 3 \<le> n" and u: "endsBinary (p + 1) (tok_kind u)"
  have "parseUnary ub n (upTo (ts @ u # us) s) = (Some e, upTo (u # us) s)"
    by (rule takesD [OF a [unfolded takesUnary_def] f n endsBinary_operand [OF u]])
  moreover have "n = Suc (n - 1)" "10 * length us + 10 \<le> n - 1" using n by auto
  ultimately show "\<exists>k. 10 * length us + 10 \<le> k \<and>
      parseBinary ub (Suc n) m (upTo (ts @ u # us) s) = binaryLoop ub (Suc k) m e (upTo (u # us) s)"
    by (metis andThen_Some parseBinary.simps(2))
qed

text \<open>The loop stops before an operator that binds less tightly.\<close>

lemma binaryLoop_stops:
  "ending (u # us) s \<Longrightarrow> endsBinary m (tok_kind u) \<Longrightarrow> binaryLoop ub (Suc k) m e (upTo (u # us) s) = (Some e, upTo (u # us) s)"
  by (auto simp: upTo_simps endsBinary_def split: option.split)

lemma binaryLoop_goes:
  "ending (o' # us) s \<Longrightarrow> us \<noteq> [] \<Longrightarrow> binaryInfo (tok_kind o') = Some (q, op) \<Longrightarrow> m \<le> q \<Longrightarrow>
     parseBinary ub k (q + 1) (upTo us s) = (Some b, s') \<Longrightarrow>
     binaryLoop ub (Suc k) m a (upTo (o' # us) s) = binaryLoop ub k m (bareExpr (Binary op a b) (tok_loc o')) s'"
  by (simp add: upTo_simps andThen_Some)

lemma a_binary:
  assumes o: "binaryInfo (tok_kind o') = Some (q, op)" and p: "p \<le> q" and a: "takesBinary ub s q ts a"
    and b: "takesBinary ub s (q + 1) vs b"
  shows "takesBinary ub s p (ts @ o' # vs) (bareExpr (Binary op a b) (tok_loc o'))"
  unfolding takesBinary_def
proof (intro allI impI)
  fix n u us m
  assume f: "ending ((ts @ o' # vs) @ u # us) s" and n: "10 * length ((ts @ o' # vs) @ u # us) + 3 \<le> n"
    and u: "endsBinary (p + 1) (tok_kind u)" and m: "m \<le> p"
  have f1: "ending (ts @ o' # vs @ u # us) s" using f by simp
  have f2: "ending (o' # vs @ u # us) s" using ending_drop [OF f1] by simp
  have f3: "ending (vs @ u # us) s" using ending_tl [OF f2] by simp
  have f4: "ending (u # us) s" using ending_drop [OF f3] by simp
  have "endsBinary (q + 1) (tok_kind o')" using endsBinary_op [OF o] by simp
  moreover have "10 * length (ts @ o' # vs @ u # us) + 3 \<le> n" "m \<le> q" using n m p by simp_all
  ultimately obtain k where k: "10 * length (vs @ u # us) + 10 \<le> k"
      "parseBinary ub (Suc n) m (upTo (ts @ o' # vs @ u # us) s) = binaryLoop ub (Suc k) m a (upTo (o' # vs @ u # us) s)"
    using a f1 unfolding takesBinary_def by blast
  obtain k' where k': "k = Suc k'" using k(1) by (cases k) auto
  have "endsBinary (q + 1 + 1) (tok_kind u)" by (rule endsBinary_mono [OF u]) (use p in simp)
  moreover have "10 * length (vs @ u # us) + 3 \<le> k'" using k(1) k' by simp
  ultimately obtain j where "parseBinary ub k (q + 1) (upTo (vs @ u # us) s) = binaryLoop ub (Suc j) (q + 1) b (upTo (u # us) s)"
    using b f3 unfolding takesBinary_def k' by blast
  moreover have "endsBinary (q + 1) (tok_kind u)" by (rule endsBinary_mono [OF u]) (use p in simp)
  ultimately have "parseBinary ub k (q + 1) (upTo (vs @ u # us) s) = (Some b, upTo (u # us) s)"
    using binaryLoop_stops [OF f4] by metis
  hence "binaryLoop ub (Suc k) m a (upTo (o' # vs @ u # us) s) =
      binaryLoop ub k m (bareExpr (Binary op a b) (tok_loc o')) (upTo (u # us) s)"
    by (intro binaryLoop_goes [OF f2 _ o]) (use m p in simp_all)
  moreover have "10 * length us + 10 \<le> k'" using k(1) k' by simp
  ultimately show "\<exists>k. 10 * length us + 10 \<le> k \<and>
      parseBinary ub (Suc n) m (upTo ((ts @ o' # vs) @ u # us) s) =
      binaryLoop ub (Suc k) m (bareExpr (Binary op a b) (tok_loc o')) (upTo (u # us) s)"
    using k(2) k' by (metis append_Cons append_assoc)
qed


text \<open>The left side of an assignment, or all of it.\<close>

lemma takesBinary_whole:
  assumes a: "takesBinary ub s 1 ts e" and f: "ending (ts @ u # us) s" and n: "10 * (length ts + length us) + 14 \<le> n"
    and u: "endsBinary 1 (tok_kind u)"
  shows "parseBinary ub n 1 (upTo (ts @ u # us) s) = (Some e, upTo (u # us) s)"
proof -
  obtain m where m: "n = Suc m" using n by (cases n) auto
  have "10 * length (ts @ u # us) + 3 \<le> m" using n m by simp
  moreover have "endsBinary (1 + 1) (tok_kind u)" by (rule endsBinary_mono [OF u]) simp
  ultimately obtain k where "parseBinary ub n 1 (upTo (ts @ u # us) s) = binaryLoop ub (Suc k) 1 e (upTo (u # us) s)"
    using a f unfolding takesBinary_def m by blast
  thus ?thesis using binaryLoop_stops [OF ending_drop [OF f] u] by simp
qed

lemma a_value:
  assumes a: "takesBinary ub s 1 ts e"
  shows "takesAssign ub s ts e"
  unfolding takesAssign_def
proof (rule takesI)
  fix n u us
  assume f: "ending (ts @ u # us) s" and n: "10 * (length ts + length us) + 9 + 5 \<le> n" and u: "endsExpr (tok_kind u)"
  have "parseBinary ub n 1 (upTo (ts @ u # us) s) = (Some e, upTo (u # us) s)"
    by (rule takesBinary_whole [OF a f]) (use n u in \<open>simp_all add: endsExpr_def\<close>)
  thus "parseAssignment ub (Suc n) (upTo (ts @ u # us) s) = (Some e, upTo (u # us) s)"
    using u ending_drop [OF f] by (simp add: upTo_simps andThen_Some endsExpr_def)
qed

lemma a_assign:
  assumes a: "takesBinary ub s 1 ts a" and eq: "tok_kind eq = TK_Equal" and b: "takesAssign ub s vs b"
  shows "takesAssign ub s (ts @ eq # vs) (bareExpr (Assign a b) (tok_loc eq))"
  unfolding takesAssign_def
proof (rule takesI)
  fix n u us
  assume f: "ending ((ts @ eq # vs) @ u # us) s" and n: "10 * (length (ts @ eq # vs) + length us) + 9 + 5 \<le> n"
    and u: "endsExpr (tok_kind u)"
  have f1: "ending (ts @ eq # vs @ u # us) s" using f by simp
  have f2: "ending (eq # vs @ u # us) s" using ending_drop [OF f1] by simp
  have f3: "ending (vs @ u # us) s" using ending_tl [OF f2] by simp
  have "parseBinary ub n 1 (upTo (ts @ eq # vs @ u # us) s) = (Some a, upTo (eq # vs @ u # us) s)"
    by (rule takesBinary_whole [OF a f1]) (use n eq in simp_all)
  moreover have "parseAssignment ub n (upTo (vs @ u # us) s) = (Some b, upTo (u # us) s)"
    by (rule takesD [OF b [unfolded takesAssign_def] f3 _ u]) (use n in simp)
  ultimately show "parseAssignment ub (Suc n) (upTo ((ts @ eq # vs) @ u # us) s) =
      (Some (bareExpr (Assign a b) (tok_loc eq)), upTo (u # us) s)"
    using eq f2 by (simp add: upTo_simps andThen_Some)
qed

end
