(* ===== verification/ParseDeclares.thy ===== *)
theory ParseDeclares
  imports ParseAccepts
begin

text \<open>
  The parser accepts declarators, type names and parameter lists. The grammar reads a declarator
  from the outside in and the parser collects its derivations; the location of a parameter without
  a name is the only part of the result that the grammar leaves open.
\<close>

section \<open>Specifiers\<close>

lemma declSpecLoop_takes:
  assumes "\<forall>k \<in> set (kindsOf ts). isTypeStart k" "\<not> isTypeStart (tok_kind u)" "ending (ts @ u # us) s" "length ts < n"
    and "map typeOfKind (filter (\<lambda>k. k \<noteq> TK_KwConst) (kindsOf ts)) = (if sp_base spec = None then [Some base] else [])"
    and "sp_base spec = None \<or> sp_base spec = Some base"
  shows "\<exists>spec'. declSpecLoop n spec (upTo (ts @ u # us) s) = (Some spec', upTo (u # us) s) \<and> sp_base spec' = Some base \<and>
    (sp_isConst spec' \<longleftrightarrow> sp_isConst spec \<or> TK_KwConst \<in> set (kindsOf ts))"
  using assms
proof (induction ts arbitrary: n spec)
  case Nil
  thus ?case by (cases n) (auto simp: upTo_simps kindsOf_def split: if_splits)
next
  case (Cons t ts)
  obtain m where n: "n = Suc m" using Cons.prems(4) by (cases n) auto
  have f: "ending (ts @ u # us) s" using Cons.prems(3) ending_tl [of t] by simp
  have t: "isTypeStart (tok_kind t)" and ts: "\<forall>k \<in> set (kindsOf ts). isTypeStart k" "length ts < m"
    using Cons.prems(1,4) n by (simp_all add: kindsOf_def)
  note IH = Cons.IH [OF ts(1) Cons.prems(2) f ts(2)]
  show ?case
  proof (cases "tok_kind t = TK_KwConst")
    case True
    thus ?thesis using IH [of "spec\<lparr>sp_isConst := True\<rparr>"] Cons.prems(3,5,6) t
      by (simp add: n upTo_simps Let_def kindsOf_def)
  next
    case False
    hence none: "sp_base spec = None" "typeOfKind (tok_kind t) = Some base"
        "map typeOfKind (filter (\<lambda>k. k \<noteq> TK_KwConst) (kindsOf ts)) = []"
      using Cons.prems(5) by (auto simp: kindsOf_def split: if_splits)
    show ?thesis using IH [of "spec\<lparr>sp_base := Some base\<rparr>"] Cons.prems(3) t False none
      by (simp add: n upTo_simps Let_def kindsOf_def)
  qed
qed

lemma parseDeclSpec_takes:
  assumes "gSpec ts base c" "\<not> isTypeStart (tok_kind u)" "ending (ts @ u # us) s" "length ts < n"
  shows "\<exists>spec. parseDeclSpec n (upTo (ts @ u # us) s) = (Some spec, upTo (u # us) s) \<and> sp_base spec = Some base \<and> sp_isConst spec = c"
proof -
  define spec0 where "spec0 = \<lparr>sp_base = None, sp_isConst = False, sp_loc = locHere (upTo (ts @ u # us) s)\<rparr>"
  have "\<exists>spec. declSpecLoop n spec0 (upTo (ts @ u # us) s) = (Some spec, upTo (u # us) s) \<and> sp_base spec = Some base \<and>
      (sp_isConst spec \<longleftrightarrow> sp_isConst spec0 \<or> TK_KwConst \<in> set (kindsOf ts))"
    by (rule declSpecLoop_takes [OF _ assms(2-4)]) (use assms(1) in \<open>simp_all add: gSpec_def spec0_def\<close>)
  thus ?thesis using assms(1) by (auto simp: parseDeclSpec_def spec0_def gSpec_def andThen_Some)
qed

inductive starTokens :: "nat \<Rightarrow> token list \<Rightarrow> bool" where
  "starTokens 0 []"
| "tok_kind st = TK_Star \<Longrightarrow> starTokens j ss \<Longrightarrow> starTokens (Suc j) (st # ss)"
| "tok_kind st = TK_Star \<Longrightarrow> tok_kind c = TK_KwConst \<Longrightarrow> starTokens j ss \<Longrightarrow> starTokens (Suc j) (st # c # ss)"

lemma starsLoop_takes:
  "starTokens j ss \<Longrightarrow> ending (ss @ u # us) s \<Longrightarrow> tok_kind u \<notin> {TK_Star, TK_KwConst} \<Longrightarrow> length ss < n \<Longrightarrow>
     starsLoop n i (upTo (ss @ u # us) s) = (Some (i + j), upTo (u # us) s)"
proof (induction arbitrary: n i rule: starTokens.induct)
  case 1
  thus ?case by (cases n) (simp_all add: upTo_simps)
next
  case (2 st j ss)
  obtain m where n: "n = Suc m" using 2 by (cases n) auto
  have f: "ending (ss @ u # us) s" using 2 ending_tl [of st] by simp
  have "tok_kind (hd (ss @ u # us)) \<noteq> TK_KwConst" using 2 by (auto elim: starTokens.cases)
  moreover obtain v vs where v: "ss @ u # us = v # vs" by (cases ss) auto
  ultimately have "snd (consume TK_KwConst (upTo (ss @ u # us) s)) = upTo (ss @ u # us) s"
    using f by (simp add: consume_def upTo_check)
  thus ?case using 2 "2.IH" [OF f _, of m "i + 1"] by (simp add: n upTo_simps)
next
  case (3 st c j ss)
  obtain m where n: "n = Suc m" using 3 by (cases n) auto
  have f1: "ending (c # ss @ u # us) s" using 3 ending_tl [of st] by simp
  have f: "ending (ss @ u # us) s" using f1 ending_tl [of c] by simp
  show ?case using 3 f1 "3.IH" [OF f _, of m "i + 1"] by (simp add: n upTo_simps)
qed

section \<open>The claims\<close>

definition anonParam :: "param_decl \<Rightarrow> param_decl" where
  "anonParam p = (if pd_name p = [] then p\<lparr>pd_loc := SourceLocation 0 0\<rparr> else p)"

definition sameParams :: "param_decl list \<Rightarrow> param_decl list \<Rightarrow> bool" where
  "sameParams ps qs \<longleftrightarrow> map anonParam ps = map anonParam qs"

fun sameFunction :: "(param_decl list \<times> bool) option \<Rightarrow> (param_decl list \<times> bool) option \<Rightarrow> bool" where
  "sameFunction None None = True"
| "sameFunction (Some (ps, v)) (Some (qs, w)) \<longleftrightarrow> sameParams ps qs \<and> v = w"
| "sameFunction _ _ = False"

text \<open>The parser's declarator is the one that the grammar declares.\<close>

definition agrees :: "bool \<Rightarrow> ty \<Rightarrow> (param_decl list \<times> bool) option \<Rightarrow> declared \<Rightarrow> string \<times> source_location \<times> decl_op list \<Rightarrow> bool" where
  "agrees ab t f d head \<longleftrightarrow>
     (case head of (name, l, ops) \<Rightarrow>
        name = dd_name d \<and> (\<not> ab \<or> dd_name d \<noteq> [] \<longrightarrow> l = dd_loc d) \<and> (f \<noteq> None \<longrightarrow> ops = []) \<and>
        (\<exists>g. resolveOps t f ops = Inr (dd_type d, g) \<and> sameFunction g (dd_function d)))"

definition endsDeclarator :: "token_kind \<Rightarrow> bool" where
  "endsDeclarator k \<longleftrightarrow> k \<in> {TK_Comma, TK_RParen, TK_Equal, TK_Semi, TK_LBrace}"

definition takesDeclarator :: "(fp \<Rightarrow> i64) \<Rightarrow> parser \<Rightarrow> bool \<Rightarrow> ty \<Rightarrow> (param_decl list \<times> bool) option \<Rightarrow>
    token list \<Rightarrow> declared \<Rightarrow> bool" where
  "takesDeclarator ub s ab t f ts d \<longleftrightarrow>
     (\<forall>n u us. ending (ts @ u # us) s \<longrightarrow> 10 * length (ts @ u # us) + 2 \<le> n \<longrightarrow> endsDeclarator (tok_kind u) \<longrightarrow>
        (\<exists>decl. parseDeclarator ub n ab (upTo (ts @ u # us) s) = (Some decl, upTo (u # us) s) \<and>
           agrees ab t f d (dc_name decl, dc_loc decl, dc_ops decl)))"

text \<open>The part of a declarator between the stars and the suffixes, as \<open>parseDeclarator\<close> has it.\<close>

definition parseHead :: "(fp \<Rightarrow> i64) \<Rightarrow> nat \<Rightarrow> bool \<Rightarrow> source_location \<Rightarrow> (string \<times> source_location \<times> decl_op list) parses" where
  "parseHead ub n ab l s =
     (if nestedDeclarator ab s then
        andThen (parseDeclarator ub n ab) (\<lambda>inner.
          andThen (expect TK_RParen) (\<lambda>_. yield (dc_name inner, dc_loc inner, dc_ops inner))) (advanceTok s)
      else if checkTok TK_Identifier s then yield (tok_text (peekTok 0 s), locHere s, []) (advanceTok s)
      else if \<not> ab then reject (locHere s) (''expected identifier before '' @ describe (peekTok 0 s)) s
      else yield ([], l, []) s)"

lemma parseDeclarator_head:
  "parseDeclarator ub (Suc n) ab s = andThen (starsLoop n 0) (\<lambda>stars.
     andThen (parseHead ub n ab (locHere s)) (\<lambda>head.
       andThen (suffixLoop ub n) (\<lambda>suffixes. yield (assemble stars head suffixes)))) s"
  by (simp add: parseHead_def [abs_def])

text \<open>What can follow where a declarator without a name has its name: no name and no nested declarator.\<close>

definition suffixAhead :: "token \<Rightarrow> token list \<Rightarrow> bool" where
  "suffixAhead u us \<longleftrightarrow> tok_kind u \<noteq> TK_Identifier \<and> \<not> (tok_kind u = TK_LParen \<and> starOrName us)"

text \<open>The head is read, and the suffixes \<open>pre\<close> are the first that the loop reads.\<close>

definition takesDirect :: "(fp \<Rightarrow> i64) \<Rightarrow> parser \<Rightarrow> bool \<Rightarrow> ty \<Rightarrow> (param_decl list \<times> bool) option \<Rightarrow>
    token list \<Rightarrow> declared \<Rightarrow> bool" where
  "takesDirect ub s ab t f ts d \<longleftrightarrow>
     (\<forall>n u us l0. ending (ts @ u # us) s \<longrightarrow> 10 * length (ts @ u # us) + 1 \<le> n \<longrightarrow> suffixAhead u us \<longrightarrow>
        (\<exists>name l inner s1 pre k. 10 * length us + 10 \<le> k \<and>
           parseHead ub n ab l0 (upTo (ts @ u # us) s) = (Some (name, l, inner), s1) \<and>
           agrees ab t f d (name, l, rev pre @ inner) \<and>
           (\<forall>r s2. suffixLoop ub (Suc k) (upTo (u # us) s) = (Some r, s2) \<longrightarrow> suffixLoop ub n s1 = (Some (pre @ r), s2))))"

definition takesLength :: "(fp \<Rightarrow> i64) \<Rightarrow> parser \<Rightarrow> token list \<Rightarrow> u64 \<Rightarrow> bool" where
  "takesLength ub s ts len \<longleftrightarrow>
     (\<forall>n rb us. ending (ts @ rb # us) s \<longrightarrow> us \<noteq> [] \<longrightarrow> 10 * length (ts @ rb # us) + 6 \<le> n \<longrightarrow> tok_kind rb = TK_RSquare \<longrightarrow>
        parseArrayLength ub n (upTo (ts @ rb # us) s) = (Some len, upTo us s))"

definition takesParams :: "(fp \<Rightarrow> i64) \<Rightarrow> parser \<Rightarrow> token list \<Rightarrow> param_decl list \<times> bool \<Rightarrow> bool" where
  "takesParams ub s ts fn \<longleftrightarrow>
     (\<forall>n rp us. ending (ts @ rp # us) s \<longrightarrow> us \<noteq> [] \<longrightarrow> 10 * length (ts @ rp # us) + 3 \<le> n \<longrightarrow> tok_kind rp = TK_RParen \<longrightarrow>
        (\<exists>ps. parseParams ub n (upTo (ts @ rp # us) s) = (Some (ps, snd fn), upTo us s) \<and> sameParams ps (fst fn)))"

definition takesParamList :: "(fp \<Rightarrow> i64) \<Rightarrow> parser \<Rightarrow> token list \<Rightarrow> param_decl list \<times> bool \<Rightarrow> bool" where
  "takesParamList ub s ts fn \<longleftrightarrow>
     (\<forall>n u us. ending (ts @ u # us) s \<longrightarrow> 10 * length (ts @ u # us) + 2 \<le> n \<longrightarrow> tok_kind u = TK_RParen \<longrightarrow>
        (\<exists>ps. paramsLoop ub n (upTo (ts @ u # us) s) = (Some (ps, snd fn), upTo (u # us) s) \<and> sameParams ps (fst fn)))"

text \<open>A parameter is read by the first steps of \<open>paramsLoop\<close>.\<close>

definition takesParam :: "(fp \<Rightarrow> i64) \<Rightarrow> parser \<Rightarrow> token list \<Rightarrow> param_decl \<Rightarrow> bool" where
  "takesParam ub s ts p \<longleftrightarrow>
     (\<forall>n u us. ending (ts @ u # us) s \<longrightarrow> 10 * length (ts @ u # us) + 1 \<le> n \<longrightarrow> tok_kind u \<in> {TK_Comma, TK_RParen} \<longrightarrow>
        (\<exists>spec decl d q s1. parseDeclSpec n (upTo (ts @ u # us) s) = (Some spec, s1) \<and>
           parseDeclarator ub n True s1 = (Some decl, upTo (u # us) s) \<and>
           resolve spec decl (upTo (u # us) s) = (Some d, upTo (u # us) s) \<and>
           paramOf spec d (upTo (u # us) s) = (Some q, upTo (u # us) s) \<and> anonParam q = anonParam p))"

lemma sameParams_types: "sameParams ps qs \<Longrightarrow> map pd_type ps = map pd_type qs"
proof -
  have t: "pd_type (anonParam p) = pd_type p" for p by (simp add: anonParam_def)
  assume "sameParams ps qs"
  hence "map pd_type (map anonParam ps) = map pd_type (map anonParam qs)" by (simp add: sameParams_def)
  thus ?thesis by (simp add: t comp_def)
qed

lemma sameFunction_refl [simp]: "sameFunction f f"
  by (cases f rule: option.exhaust; clarsimp simp: sameParams_def)

lemma sameFunction_trans: "sameFunction f g \<Longrightarrow> sameFunction g h \<Longrightarrow> sameFunction f h"
  by (cases "(f, g)" rule: sameFunction.cases; cases "(g, h)" rule: sameFunction.cases) (auto simp: sameParams_def)

section \<open>Declarators\<close>

lemma resolveOps_pointers:
  "resolveOps t f (replicate k PointerOp @ ops) = resolveOps ((PointerTy ^^ k) t) f ops"
  by (induction k arbitrary: t) (simp_all add: funpow_swap1)

text \<open>A head alone, and a suffix behind what has been read.\<close>

lemma takesDirect_head:
  assumes "\<And>n u us l0. ending (ts @ u # us) s \<Longrightarrow> 10 * length (ts @ u # us) + 1 \<le> n \<Longrightarrow> suffixAhead u us \<Longrightarrow>
      \<exists>head. parseHead ub n ab l0 (upTo (ts @ u # us) s) = (Some head, upTo (u # us) s) \<and> agrees ab t f d head"
  shows "takesDirect ub s ab t f ts d"
  unfolding takesDirect_def
proof (intro allI impI)
  fix n u us l0
  assume prems: "ending (ts @ u # us) s" "10 * length (ts @ u # us) + 1 \<le> n" "suffixAhead u us"
  obtain name l inner where h: "parseHead ub n ab l0 (upTo (ts @ u # us) s) = (Some (name, l, inner), upTo (u # us) s)"
      "agrees ab t f d (name, l, inner)"
    using assms [OF prems, of l0] by auto
  have "n = Suc (n - 1)" "10 * length us + 10 \<le> n - 1" using prems(2) by auto
  thus "\<exists>name l inner s1 pre k. 10 * length us + 10 \<le> k \<and>
      parseHead ub n ab l0 (upTo (ts @ u # us) s) = (Some (name, l, inner), s1) \<and> agrees ab t f d (name, l, rev pre @ inner) \<and>
      (\<forall>r s2. suffixLoop ub (Suc k) (upTo (u # us) s) = (Some r, s2) \<longrightarrow> suffixLoop ub n s1 = (Some (pre @ r), s2))"
    using h by (intro exI [of _ name] exI [of _ l] exI [of _ inner] exI [of _ "upTo (u # us) s"] exI [of _ "[]"]
        exI [of _ "n - 1"]) simp
qed

lemma takesDirect_suffix:
  assumes d: "takesDirect ub s ab t' f' ts d"
    and next_token: "\<And>u us. suffixAhead o' (vs @ u # us)"
    and step: "\<And>k u us. ending (o' # vs @ u # us) s \<Longrightarrow> 10 * (length vs + length us) + 20 \<le> k \<Longrightarrow>
      \<exists>op. (\<forall>r s2. suffixLoop ub k (upTo (u # us) s) = (Some r, s2) \<longrightarrow>
          suffixLoop ub (Suc k) (upTo (o' # vs @ u # us) s) = (Some (op # r), s2)) \<and>
        (\<forall>name l ops. agrees ab t' f' d (name, l, ops) \<longrightarrow> agrees ab t f d (name, l, op # ops))"
  shows "takesDirect ub s ab t f (ts @ o' # vs) d"
  unfolding takesDirect_def
proof (intro allI impI)
  fix n u us l0
  assume f: "ending ((ts @ o' # vs) @ u # us) s" and n: "10 * length ((ts @ o' # vs) @ u # us) + 1 \<le> n"
  have f1: "ending (ts @ o' # vs @ u # us) s" using f by simp
  moreover have "10 * length (ts @ o' # vs @ u # us) + 1 \<le> n" using n by simp
  ultimately obtain name l inner s1 pre k where k: "10 * length (vs @ u # us) + 10 \<le> k"
      "parseHead ub n ab l0 (upTo (ts @ o' # vs @ u # us) s) = (Some (name, l, inner), s1)"
      "agrees ab t' f' d (name, l, rev pre @ inner)"
      "\<And>r s2. suffixLoop ub (Suc k) (upTo (o' # vs @ u # us) s) = (Some r, s2) \<Longrightarrow> suffixLoop ub n s1 = (Some (pre @ r), s2)"
    using d next_token unfolding takesDirect_def by blast
  have f2: "ending (o' # vs @ u # us) s" using ending_drop [OF f1] by simp
  have "10 * (length vs + length us) + 20 \<le> k" using k(1) by simp
  from step [OF f2 this] obtain op
    where op: "\<And>r s2. suffixLoop ub k (upTo (u # us) s) = (Some r, s2) \<Longrightarrow>
        suffixLoop ub (Suc k) (upTo (o' # vs @ u # us) s) = (Some (op # r), s2)"
      "agrees ab t f d (name, l, op # rev pre @ inner)" using k(3) by blast
  have k': "k = Suc (k - 1)" "10 * length us + 10 \<le> k - 1" using k(1) by auto
  have "\<forall>r s2. suffixLoop ub (Suc (k - 1)) (upTo (u # us) s) = (Some r, s2) \<longrightarrow>
      suffixLoop ub n s1 = (Some ((pre @ [op]) @ r), s2)"
    using op(1) k(4) k'(1) by (metis append_Cons append_Nil append_assoc)
  thus "\<exists>name l inner s1 pre k. 10 * length us + 10 \<le> k \<and>
      parseHead ub n ab l0 (upTo ((ts @ o' # vs) @ u # us) s) = (Some (name, l, inner), s1) \<and>
      agrees ab t f d (name, l, rev pre @ inner) \<and>
      (\<forall>r s2. suffixLoop ub (Suc k) (upTo (u # us) s) = (Some r, s2) \<longrightarrow> suffixLoop ub n s1 = (Some (pre @ r), s2))"
    using k(2) k'(2) op(2)
    by (intro exI [of _ name] exI [of _ l] exI [of _ inner] exI [of _ s1] exI [of _ "pre @ [op]"] exI [of _ "k - 1"]) simp
qed

lemma d_ident:
  "tok_kind i = TK_Identifier \<Longrightarrow>
     takesDirect ub s ab t f [i] \<lparr>dd_name = tok_text i, dd_loc = tok_loc i, dd_type = t, dd_function = f\<rparr>"
  by (rule takesDirect_head) (simp add: parseHead_def nestedDeclarator_def upTo_simps agrees_def)

lemma d_unnamed: "takesDirect ub s True t f [] \<lparr>dd_name = [], dd_loc = l, dd_type = t, dd_function = f\<rparr>"
proof (rule takesDirect_head)
  fix n u us l0
  assume f: "ending ([] @ u # us) s" and u: "suffixAhead u us"
  have "\<not> nestedDeclarator True (upTo (u # us) s)"
  proof (cases us)
    case Nil
    have "tok_kind u \<noteq> TK_LParen"
    proof
      assume "tok_kind u = TK_LParen"
      moreover have "stream (ps_toks s)" "\<exists>pre. ps_toks s = pre @ [u]" using f Nil by (auto simp: ending_def)
      ultimately show False by (auto simp: stream_def)
    qed
    thus ?thesis using f by (simp add: nestedDeclarator_def upTo_simps)
  next
    case (Cons v vs)
    thus ?thesis using f u by (auto simp: nestedDeclarator_def upTo_simps suffixAhead_def starOrName_def)
  qed
  thus "\<exists>head. parseHead ub n True l0 (upTo ([] @ u # us) s) = (Some head, upTo (u # us) s) \<and>
      agrees True t f \<lparr>dd_name = [], dd_loc = l, dd_type = t, dd_function = f\<rparr> head"
    using f u by (simp add: parseHead_def upTo_simps suffixAhead_def agrees_def)
qed

lemma d_nested:
  assumes k: "kindsOf [lp, rp] = [TK_LParen, TK_RParen]" and d: "takesDeclarator ub s ab t f ts d"
    and ab: "ab \<longrightarrow> starOrName ts"
  shows "takesDirect ub s ab t f (lp # ts @ [rp]) d"
proof (rule takesDirect_head)
  fix n u us l0
  assume f: "ending ((lp # ts @ [rp]) @ u # us) s" and n: "10 * length ((lp # ts @ [rp]) @ u # us) + 1 \<le> n"
  have f1: "ending (ts @ rp # u # us) s" using f ending_tl [of lp] by simp
  have f2: "ending (rp # u # us) s" using ending_drop [OF f1] by simp
  have "nestedDeclarator ab (upTo (lp # ts @ rp # u # us) s)"
    using f k ab by (auto simp: nestedDeclarator_def upTo_simps kindsOf_def starOrName_def split: list.splits)
  moreover have "10 * length (ts @ rp # u # us) + 2 \<le> n" "endsDeclarator (tok_kind rp)"
    using n k by (simp_all add: kindsOf_def endsDeclarator_def)
  then obtain decl where "parseDeclarator ub n ab (upTo (ts @ rp # u # us) s) = (Some decl, upTo (rp # u # us) s)"
      "agrees ab t f d (dc_name decl, dc_loc decl, dc_ops decl)"
    using d f1 unfolding takesDeclarator_def by blast
  ultimately show "\<exists>head. parseHead ub n ab l0 (upTo ((lp # ts @ [rp]) @ u # us) s) = (Some head, upTo (u # us) s) \<and>
      agrees ab t f d head"
    using f f2 k by (simp add: parseHead_def upTo_simps kindsOf_def andThen_Some)
qed


lemma d_array:
  assumes el: "elementOk t" and d: "takesDirect ub s ab (ArrayTy t len) None ts d"
    and k: "kindsOf [lb, rb] = [TK_LSquare, TK_RSquare]" and l: "takesLength ub s vs len"
  shows "takesDirect ub s ab t None (ts @ lb # vs @ [rb]) d"
proof (rule takesDirect_suffix [OF d])
  fix n u us
  show "suffixAhead lb ((vs @ [rb]) @ u # us)" using k by (simp add: suffixAhead_def kindsOf_def)
  assume f: "ending (lb # (vs @ [rb]) @ u # us) s" and n: "10 * (length (vs @ [rb]) + length us) + 20 \<le> n"
  have f1: "ending (vs @ rb # u # us) s" using f ending_tl [of lb] by simp
  have "10 * length (vs @ rb # u # us) + 6 \<le> n" "tok_kind rb = TK_RSquare" using n k by (simp_all add: kindsOf_def)
  hence "parseArrayLength ub n (upTo (vs @ rb # u # us) s) = (Some len, upTo (u # us) s)"
    using l f1 unfolding takesLength_def by blast
  hence "suffixLoop ub (Suc n) (upTo (lb # vs @ rb # u # us) s) = (Some (ArrayOp len # r), s2)"
    if "suffixLoop ub n (upTo (u # us) s) = (Some r, s2)" for r s2
    using that f k by (simp add: upTo_simps kindsOf_def andThen_Some)
  moreover have "agrees ab t None d (name, l, ArrayOp len # ops)" if "agrees ab (ArrayTy t len) None d (name, l, ops)" for name l ops
    using that el by (auto simp: agrees_def elementOk_def)
  ultimately show "\<exists>op. (\<forall>r s2. suffixLoop ub n (upTo (u # us) s) = (Some r, s2) \<longrightarrow>
        suffixLoop ub (Suc n) (upTo (lb # (vs @ [rb]) @ u # us) s) = (Some (op # r), s2)) \<and>
      (\<forall>name l ops. agrees ab (ArrayTy t len) None d (name, l, ops) \<longrightarrow> agrees ab t None d (name, l, op # ops))"
    by (intro exI [of _ "ArrayOp len"]) simp
qed

lemma d_function:
  assumes t: "\<not> isArray t" "\<not> isFunction t" and g: "gParams ub vs (ps, v)" and p: "takesParams ub s vs (ps, v)"
    and d: "takesDirect ub s ab (FunctionTy t (map pd_type ps) v) (Some (ps, v)) ts d"
    and k: "kindsOf [lp, rp] = [TK_LParen, TK_RParen]"
  shows "takesDirect ub s ab t None (ts @ lp # vs @ [rp]) d"
proof (rule takesDirect_suffix [OF d])
  fix n u us
  have "\<not> starOrName (vs @ rp # w)" for w
    using grammar_first(11) [OF g] k by (auto simp: starOrName_def kindsOf_def isTypeStart_def elim!: firstInE)
  thus "suffixAhead lp ((vs @ [rp]) @ u # us)" using k by (simp add: suffixAhead_def kindsOf_def)
  assume f: "ending (lp # (vs @ [rp]) @ u # us) s" and n: "10 * (length (vs @ [rp]) + length us) + 20 \<le> n"
  have f1: "ending (vs @ rp # u # us) s" using f ending_tl [of lp] by simp
  have "10 * length (vs @ rp # u # us) + 3 \<le> n" "tok_kind rp = TK_RParen" using n k by (simp_all add: kindsOf_def)
  then obtain qs where qs: "parseParams ub n (upTo (vs @ rp # u # us) s) = (Some (qs, v), upTo (u # us) s)" "sameParams qs ps"
    using p f1 unfolding takesParams_def by (metis fst_conv snd_conv list.distinct(1))
  have "suffixLoop ub (Suc n) (upTo (lp # vs @ rp # u # us) s) = (Some (FunctionOp qs v # r), s2)"
    if "suffixLoop ub n (upTo (u # us) s) = (Some r, s2)" for r s2
    using that qs(1) f k by (simp add: upTo_simps kindsOf_def andThen_Some)
  moreover have "agrees ab t None d (name, l, FunctionOp qs v # ops)"
    if "agrees ab (FunctionTy t (map pd_type ps) v) (Some (ps, v)) d (name, l, ops)" for name l ops
  proof -
    have "sameFunction (Some (qs, v)) (dd_function d)"
      using sameFunction_trans [of "Some (qs, v)" "Some (ps, v)" "dd_function d"] qs(2) that by (auto simp: agrees_def)
    thus ?thesis using that t sameParams_types [OF qs(2)] by (auto simp: agrees_def)
  qed
  ultimately show "\<exists>op. (\<forall>r s2. suffixLoop ub n (upTo (u # us) s) = (Some r, s2) \<longrightarrow>
        suffixLoop ub (Suc n) (upTo (lp # (vs @ [rp]) @ u # us) s) = (Some (op # r), s2)) \<and>
      (\<forall>name l ops. agrees ab (FunctionTy t (map pd_type ps) v) (Some (ps, v)) d (name, l, ops) \<longrightarrow>
        agrees ab t None d (name, l, op # ops))"
    by (intro exI [of _ "FunctionOp qs v"]) simp
qed

lemma d_no_length: "takesLength ub s [] 0"
  unfolding takesLength_def
proof (intro allI impI)
  fix n rb us
  assume "ending ([] @ rb # us) s" "us \<noteq> []" "10 * length ([] @ rb # us) + 6 \<le> n" "tok_kind rb = TK_RSquare"
  thus "parseArrayLength ub n (upTo ([] @ rb # us) s) = (Some 0, upTo us s)" by (cases n) (simp_all add: upTo_simps)
qed

lemma d_length:
  assumes g: "gAssign ub ts e" and a: "takesAssign ub s ts e" and v: "evaluateInteger ub e = Some len" "0 <s len"
  shows "takesLength ub s ts len"
  unfolding takesLength_def
proof (intro allI impI)
  fix n rb us
  assume f: "ending (ts @ rb # us) s" and us: "us \<noteq> []" and n: "10 * length (ts @ rb # us) + 6 \<le> n" and rb: "tok_kind rb = TK_RSquare"
  obtain m where m: "n = Suc m" using n by (cases n) auto
  have p: "parseAssignment ub m (upTo (ts @ rb # us) s) = (Some e, upTo (rb # us) s)"
    by (rule takesD [OF a [unfolded takesAssign_def] f]) (use n m rb in simp_all)
  obtain t ws where ts: "ts = t # ws" "startsExpr (tok_kind t)" using grammar_first(6) [OF g] by (auto elim: firstInE)
  have "\<not> checkTok TK_RSquare (upTo (ts @ rb # us) s)" using f ts by (auto simp: upTo_simps startsExpr_def)
  moreover have "\<not> len \<le>s 0" using v(2) by (simp add: word_sle_eq word_sless_alt)
  ultimately show "parseArrayLength ub n (upTo (ts @ rb # us) s) = (Some len, upTo us s)"
    using p ending_drop [OF f] us rb v(1) by (simp add: m upTo_simps andThen_Some arrayLengthOf_def)
qed

text \<open>The stars in front of the rest of a declarator.\<close>

definition takesStars :: "(fp \<Rightarrow> i64) \<Rightarrow> parser \<Rightarrow> bool \<Rightarrow> ty \<Rightarrow> (param_decl list \<times> bool) option \<Rightarrow>
    token list \<Rightarrow> declared \<Rightarrow> bool" where
  "takesStars ub s ab t f ts d \<longleftrightarrow>
     (\<exists>j ss rs. ts = ss @ rs \<and> starTokens j ss \<and> (f \<noteq> None \<longrightarrow> j = 0) \<and> gDirect ub ab ((PointerTy ^^ j) t) f rs d \<and>
        takesDirect ub s ab ((PointerTy ^^ j) t) f rs d)"

lemma d_direct: "gDirect ub ab t f ts d \<Longrightarrow> takesDirect ub s ab t f ts d \<Longrightarrow> takesStars ub s ab t f ts d"
  unfolding takesStars_def by (intro exI [of _ 0] exI [of _ "[]"] exI [of _ ts]) (simp add: starTokens.intros)

lemma funpow_inner: "(f ^^ j) (f x) = (f ^^ Suc j) x"
  by (simp add: funpow_swap1)

lemma d_star:
  assumes "tok_kind st = TK_Star" "takesStars ub s ab (PointerTy t) None ts d"
  shows "takesStars ub s ab t None (st # ts) d"
proof -
  obtain j ss rs where j: "ts = ss @ rs" "starTokens j ss" "gDirect ub ab ((PointerTy ^^ j) (PointerTy t)) None rs d"
      "takesDirect ub s ab ((PointerTy ^^ j) (PointerTy t)) None rs d" using assms(2) by (auto simp: takesStars_def)
  thus ?thesis unfolding takesStars_def
    by (intro exI [of _ "Suc j"] exI [of _ "st # ss"] exI [of _ rs]) (simp only: funpow_inner append_Cons starTokens.intros assms simp_thms)
qed

lemma d_const_star:
  assumes "kindsOf [st, c] = [TK_Star, TK_KwConst]" "takesStars ub s ab (PointerTy t) None ts d"
  shows "takesStars ub s ab t None (st # c # ts) d"
proof -
  obtain j ss rs where j: "ts = ss @ rs" "starTokens j ss" "gDirect ub ab ((PointerTy ^^ j) (PointerTy t)) None rs d"
      "takesDirect ub s ab ((PointerTy ^^ j) (PointerTy t)) None rs d" using assms(2) by (auto simp: takesStars_def)
  moreover have "tok_kind st = TK_Star" "tok_kind c = TK_KwConst" using assms(1) by (simp_all add: kindsOf_def)
  ultimately show ?thesis unfolding takesStars_def
    by (intro exI [of _ "Suc j"] exI [of _ "st # c # ss"] exI [of _ rs]) (simp only: funpow_inner append_Cons starTokens.intros simp_thms)
qed

lemma takesStars_declarator:
  assumes "takesStars ub s ab t f ts d"
  shows "takesDeclarator ub s ab t f ts d"
  unfolding takesDeclarator_def
proof (intro allI impI)
  fix n u us
  assume f: "ending (ts @ u # us) s" and n: "10 * length (ts @ u # us) + 2 \<le> n" and u: "endsDeclarator (tok_kind u)"
  obtain j ss rs where j: "ts = ss @ rs" "starTokens j ss" "f \<noteq> None \<longrightarrow> j = 0"
      and g: "gDirect ub ab ((PointerTy ^^ j) t) f rs d" and d: "takesDirect ub s ab ((PointerTy ^^ j) t) f rs d"
    using assms by (auto simp: takesStars_def)
  obtain m where m: "n = Suc m" using n by (cases n) auto
  obtain v vs where v: "rs @ u # us = v # vs" by (cases rs) auto
  have f1: "ending (ss @ v # vs) s" using f j(1) v by simp
  have f2: "ending (rs @ u # us) s" using ending_drop [OF f1] v by simp
  have "tok_kind v \<notin> {TK_Star, TK_KwConst}"
    using grammar_first(9) [OF g] v u by (auto simp: startsDirect_def endsDeclarator_def elim!: firstInE)
  hence stars: "starsLoop m 0 (upTo (ss @ v # vs) s) = (Some j, upTo (v # vs) s)"
    using starsLoop_takes [OF j(2) f1, of m 0] n m j(1) by simp
  have "10 * length (rs @ u # us) + 1 \<le> m" "suffixAhead u us"
    using n m j(1) u by (auto simp: suffixAhead_def endsDeclarator_def)
  then obtain name l inner s1 pre k where h:
      "parseHead ub m ab (locHere (upTo (ss @ v # vs) s)) (upTo (v # vs) s) = (Some (name, l, inner), s1)"
      "agrees ab ((PointerTy ^^ j) t) f d (name, l, rev pre @ inner)"
      "\<And>r s2. suffixLoop ub (Suc k) (upTo (u # us) s) = (Some r, s2) \<Longrightarrow> suffixLoop ub m s1 = (Some (pre @ r), s2)"
    using d f2 unfolding takesDirect_def v [symmetric] by blast
  have "suffixLoop ub (Suc k) (upTo (u # us) s) = (Some [], upTo (u # us) s)"
    using ending_drop [OF f2] u by (auto simp: upTo_simps endsDeclarator_def)
  from h(3) [OF this] have sufs: "suffixLoop ub m s1 = (Some pre, upTo (u # us) s)" by simp
  let ?decl = "assemble j (name, l, inner) pre"
  have "parseDeclarator ub n ab (upTo (ts @ u # us) s) = (Some ?decl, upTo (u # us) s)"
    using stars h(1) sufs j(1) v unfolding m parseDeclarator_head by (simp add: andThen_Some)
  moreover have "agrees ab t f d (dc_name ?decl, dc_loc ?decl, dc_ops ?decl)"
    using h(2) j(3) by (auto simp: agrees_def assemble_def resolveOps_pointers)
  ultimately show "\<exists>decl. parseDeclarator ub n ab (upTo (ts @ u # us) s) = (Some decl, upTo (u # us) s) \<and>
      agrees ab t f d (dc_name decl, dc_loc decl, dc_ops decl)" by blast
qed


section \<open>Types and parameters\<close>

lemma behind_declarator:
  assumes "gDeclarator ub ab t f ts d" "endsDeclarator (tok_kind u)"
  obtains v vs where "ts @ u # us = v # vs" "\<not> isTypeStart (tok_kind v)"
proof (cases ts)
  case Nil
  thus ?thesis using that [of u us] assms(2) by (auto simp: endsDeclarator_def isTypeStart_def)
next
  case (Cons v vs)
  hence "startsDeclarator ab (tok_kind v)" using grammar_first(8) [OF assms(1)] by auto
  hence "\<not> isTypeStart (tok_kind v)" by (auto simp: startsDeclarator_def isTypeStart_def)
  thus ?thesis using that Cons by simp
qed

text \<open>Specifiers and a declarator, resolved.\<close>

lemma declared_takes:
  assumes sp: "gSpec ss base c" and g: "gDeclarator ub ab base None ts d" and a: "takesDeclarator ub s ab base None ts d"
    and f: "ending (ss @ ts @ u # us) s" and n: "10 * (length ss + length ts + length us) + 10 \<le> n" and u: "endsDeclarator (tok_kind u)"
  obtains spec decl g' where "parseDeclSpec n (upTo (ss @ ts @ u # us) s) = (Some spec, upTo (ts @ u # us) s)"
    "sp_base spec = Some base" "sp_isConst spec = c"
    "parseDeclarator ub n ab (upTo (ts @ u # us) s) = (Some decl, upTo (u # us) s)"
    "agrees ab base None d (dc_name decl, dc_loc decl, dc_ops decl)"
    "resolve spec decl (upTo (u # us) s) =
       (Some \<lparr>dd_name = dc_name decl, dd_loc = dc_loc decl, dd_type = dd_type d, dd_function = g'\<rparr>, upTo (u # us) s)"
    "sameFunction g' (dd_function d)"
proof -
  obtain v vs where v: "ts @ u # us = v # vs" "\<not> isTypeStart (tok_kind v)" by (rule behind_declarator [OF g u])
  have f1: "ending (ss @ v # vs) s" using f v by simp
  have "length ss < n" using n by simp
  then obtain spec where spec: "parseDeclSpec n (upTo (ss @ v # vs) s) = (Some spec, upTo (v # vs) s)" "sp_base spec = Some base"
      "sp_isConst spec = c"
    using parseDeclSpec_takes [OF sp v(2) f1] by blast
  have f2: "ending (ts @ u # us) s" using ending_drop [OF f] by simp
  have "10 * length (ts @ u # us) + 2 \<le> n" using n gSpec_nonempty [OF sp] by (cases ss) auto
  then obtain decl where decl: "parseDeclarator ub n ab (upTo (ts @ u # us) s) = (Some decl, upTo (u # us) s)"
      "agrees ab base None d (dc_name decl, dc_loc decl, dc_ops decl)"
    using a f2 u unfolding takesDeclarator_def by blast
  then obtain g' where "resolveOps base None (dc_ops decl) = Inr (dd_type d, g')" "sameFunction g' (dd_function d)"
    by (auto simp: agrees_def)
  thus thesis using that [of spec decl g'] spec decl v(1) by (simp add: resolve_def)
qed

lemma d_type_name:
  assumes sp: "gSpec ss base c" and g: "gDeclarator ub True base None ts d" and a: "takesDeclarator ub s True base None ts d"
    and d: "dd_name d = []" "\<not> isFunction (dd_type d)"
  shows "takesType ub s (ss @ ts) (dd_type d)"
  unfolding takesType_def
proof (rule takesI)
  fix n u us
  assume f: "ending ((ss @ ts) @ u # us) s" and n: "10 * (length (ss @ ts) + length us) + 9 + 2 \<le> n" and u: "tok_kind u = TK_RParen"
  have f': "ending (ss @ ts @ u # us) s" "10 * (length ss + length ts + length us) + 10 \<le> n" "endsDeclarator (tok_kind u)"
    using f n u by (simp_all add: endsDeclarator_def)
  show "parseTypeName ub (Suc n) (upTo ((ss @ ts) @ u # us) s) = (Some (dd_type d), upTo (u # us) s)"
    by (rule declared_takes [OF sp g a f']) (use d in \<open>simp add: andThen_Some typeNameOf_def agrees_def\<close>)
qed

lemma d_param:
  assumes sp: "gSpec ss base c" and g: "gDeclarator ub True base None ts d" and a: "takesDeclarator ub s True base None ts d"
    and d: "\<not> isFunction (dd_type d)" "\<not> isVoid (dd_type d)"
  shows "takesParam ub s (ss @ ts) \<lparr>pd_name = dd_name d, pd_type = paramType (dd_type d),
      pd_isConst = constObject c (paramType (dd_type d)), pd_loc = dd_loc d, pd_symbol = 0\<rparr>"
  unfolding takesParam_def
proof (intro allI impI)
  fix n u us
  assume f: "ending ((ss @ ts) @ u # us) s" and n: "10 * length ((ss @ ts) @ u # us) + 1 \<le> n" and u: "tok_kind u \<in> {TK_Comma, TK_RParen}"
  have f': "ending (ss @ ts @ u # us) s" "10 * (length ss + length ts + length us) + 10 \<le> n" "endsDeclarator (tok_kind u)"
    using f n u by (auto simp: endsDeclarator_def)
  show "\<exists>spec decl d' q s1. parseDeclSpec n (upTo ((ss @ ts) @ u # us) s) = (Some spec, s1) \<and>
      parseDeclarator ub n True s1 = (Some decl, upTo (u # us) s) \<and>
      resolve spec decl (upTo (u # us) s) = (Some d', upTo (u # us) s) \<and>
      paramOf spec d' (upTo (u # us) s) = (Some q, upTo (u # us) s) \<and>
      anonParam q = anonParam \<lparr>pd_name = dd_name d, pd_type = paramType (dd_type d),
        pd_isConst = constObject c (paramType (dd_type d)), pd_loc = dd_loc d, pd_symbol = 0\<rparr>"
  proof (rule declared_takes [OF sp g a f'])
    fix spec :: decl_spec and decl :: declarator and g'
    let ?d = "\<lparr>dd_name = dc_name decl, dd_loc = dc_loc decl, dd_type = dd_type d, dd_function = g'\<rparr>"
    let ?q = "\<lparr>pd_name = dd_name d, pd_type = paramType (dd_type d), pd_isConst = constObject c (paramType (dd_type d)),
      pd_loc = dc_loc decl, pd_symbol = 0\<rparr>"
    assume h: "parseDeclSpec n (upTo (ss @ ts @ u # us) s) = (Some spec, upTo (ts @ u # us) s)" "sp_base spec = Some base"
      "sp_isConst spec = c" "parseDeclarator ub n True (upTo (ts @ u # us) s) = (Some decl, upTo (u # us) s)"
      "agrees True base None d (dc_name decl, dc_loc decl, dc_ops decl)" "resolve spec decl (upTo (u # us) s) = (Some ?d, upTo (u # us) s)"
    have "paramOf spec ?d (upTo (u # us) s) = (Some ?q, upTo (u # us) s)"
      using d h(3,5) by (simp add: paramOf_def paramType_def constObject_def isConstObject_def agrees_def Let_def)
    moreover have "anonParam ?q = anonParam (?q\<lparr>pd_loc := dd_loc d\<rparr>)" using h(5) by (simp add: anonParam_def agrees_def)
    ultimately show ?thesis using h(1,4,6) by (intro exI [of _ spec] exI [of _ decl] exI [of _ ?d] exI [of _ ?q]) simp
  qed
qed

lemma d_ellipsis: "tok_kind t = TK_Ellipsis \<Longrightarrow> takesParamList ub s [t] ([], True)"
  unfolding takesParamList_def
proof (intro allI impI)
  fix n u us
  assume "tok_kind t = TK_Ellipsis" "ending ([t] @ u # us) s" "10 * length ([t] @ u # us) + 2 \<le> n"
  thus "\<exists>ps. paramsLoop ub n (upTo ([t] @ u # us) s) = (Some (ps, snd ([], True)), upTo (u # us) s) \<and>
      sameParams ps (fst ([], True))"
    by (cases n) (simp_all add: upTo_simps sameParams_def)
qed

text \<open>One round of the loop.\<close>

lemma paramsLoop_round:
  assumes g: "gParam ub ts p" and a: "takesParam ub s ts p" and f: "ending (ts @ u # us) s"
    and n: "10 * length (ts @ u # us) + 1 \<le> n" and u: "tok_kind u \<in> {TK_Comma, TK_RParen}"
  shows "\<exists>q. anonParam q = anonParam p \<and> paramsLoop ub (Suc n) (upTo (ts @ u # us) s) =
     (if tok_kind u = TK_Comma then andThen (paramsLoop ub n) (\<lambda>(ps, v). yield (q # ps, v)) (advanceTok (upTo (u # us) s))
      else (Some ([q], False), upTo (u # us) s))"
proof -
  obtain spec decl d q s1 where h: "parseDeclSpec n (upTo (ts @ u # us) s) = (Some spec, s1)"
      "parseDeclarator ub n True s1 = (Some decl, upTo (u # us) s)"
      "resolve spec decl (upTo (u # us) s) = (Some d, upTo (u # us) s)"
      "paramOf spec d (upTo (u # us) s) = (Some q, upTo (u # us) s)" "anonParam q = anonParam p"
    using a f n u unfolding takesParam_def by blast
  obtain t vs where t: "ts = t # vs" "isTypeStart (tok_kind t)" using grammar_first(13) [OF g] by (auto elim: firstInE)
  have "\<not> checkTok TK_Ellipsis (upTo (ts @ u # us) s)" using f t by (auto simp: upTo_simps isTypeStart_def)
  thus ?thesis using h ending_drop [OF f] by (intro exI [of _ q]) (simp add: andThen_Some upTo_simps)
qed

lemma d_last_param:
  assumes g: "gParam ub ts p" and a: "takesParam ub s ts p"
  shows "takesParamList ub s ts ([p], False)"
  unfolding takesParamList_def
proof (intro allI impI)
  fix n u us
  assume f: "ending (ts @ u # us) s" and n: "10 * length (ts @ u # us) + 2 \<le> n" and u: "tok_kind u = TK_RParen"
  obtain m where m: "n = Suc m" "10 * length (ts @ u # us) + 1 \<le> m" using n by (cases n) auto
  show "\<exists>ps. paramsLoop ub n (upTo (ts @ u # us) s) = (Some (ps, snd ([p], False)), upTo (u # us) s) \<and>
      sameParams ps (fst ([p], False))"
    using paramsLoop_round [OF g a f m(2)] u m(1) by (auto simp: sameParams_def)
qed

lemma d_more_params:
  assumes g: "gParam ub ts p" and a: "takesParam ub s ts p" and co: "tok_kind co = TK_Comma" and b: "takesParamList ub s vs (ps, v)"
  shows "takesParamList ub s (ts @ co # vs) (p # ps, v)"
  unfolding takesParamList_def
proof (intro allI impI)
  fix n u us
  assume f: "ending ((ts @ co # vs) @ u # us) s" and n: "10 * length ((ts @ co # vs) @ u # us) + 2 \<le> n" and u: "tok_kind u = TK_RParen"
  obtain m where m: "n = Suc m" "10 * length (ts @ co # vs @ u # us) + 1 \<le> m" using n by (cases n) auto
  have f1: "ending (ts @ co # vs @ u # us) s" using f by simp
  have f2: "ending (co # vs @ u # us) s" using ending_drop [OF f1] by simp
  have f3: "ending (vs @ u # us) s" using ending_tl [OF f2] by simp
  have "10 * length (vs @ u # us) + 2 \<le> m" using m(2) by simp
  then obtain qs where qs: "paramsLoop ub m (upTo (vs @ u # us) s) = (Some (qs, v), upTo (u # us) s)" "sameParams qs ps"
    using b f3 u unfolding takesParamList_def by (metis fst_conv snd_conv)
  show "\<exists>qs. paramsLoop ub n (upTo ((ts @ co # vs) @ u # us) s) = (Some (qs, snd (p # ps, v)), upTo (u # us) s) \<and>
      sameParams qs (fst (p # ps, v))"
    using paramsLoop_round [OF g a f1 m(2)] co qs f2 m(1) by (auto simp: upTo_simps andThen_Some sameParams_def)
qed

lemma gDeclarator_empty: "gDeclarator ub ab t f [] d \<Longrightarrow> dd_type d = t"
  by (erule gDeclarator.cases) (auto elim: gDirect.cases)

text \<open>A parameter that starts with \<open>void\<close> goes on.\<close>

lemma gParam_void:
  assumes "gParam ub ts p"
  obtains t us where "ts = t # us" "us = [] \<Longrightarrow> tok_kind t \<noteq> TK_KwVoid" "us \<noteq> [] \<Longrightarrow> \<not> firstIn (\<lambda>k. k = TK_RParen) us"
  using assms
proof cases
  case (g_param ss base c ds d)
  obtain t us where ss: "ss = t # us" using gSpec_nonempty [OF g_param(3)] by (cases ss) auto
  have "tok_kind t \<noteq> TK_KwVoid" if "us @ ds = []"
    using g_param(3-6) that gDeclarator_empty [of ub True base None d] ss by (auto simp: gSpec_def kindsOf_def)
  moreover have "\<not> firstIn (\<lambda>k. k = TK_RParen) (us @ ds)"
  proof (cases us)
    case Nil
    have "ds = [] \<or> \<not> firstIn (\<lambda>k. k = TK_RParen) ds"
      using grammar_first(8) [OF g_param(4)] firstIn_not [of "startsDeclarator True" ds TK_RParen]
      by (auto simp: startsDeclarator_def [of _ TK_RParen])
    thus ?thesis using Nil by auto
  next
    case (Cons w ws)
    hence "isTypeStart (tok_kind w)" using g_param(3) ss by (simp add: gSpec_def kindsOf_def)
    thus ?thesis using Cons by (auto simp: isTypeStart_def)
  qed
  ultimately show thesis using that [of t "us @ ds"] g_param(1) ss by simp
qed

lemma gParamList_void:
  assumes "gParamList ub ts fn" "ts = t # us" "tok_kind rp = TK_RParen" "tok_kind t = TK_KwVoid"
  shows "\<not> firstIn (\<lambda>k. k = TK_RParen) (us @ [rp])"
  using assms(1)
proof cases
  case (g_last_param p)
  thus ?thesis using assms by (auto elim!: gParam_void)
next
  case (g_more_params vs p co ws ps v)
  from g_more_params(3) show ?thesis by (rule gParam_void) (use g_more_params assms in auto)
qed (use assms in simp)

lemma d_no_params: "takesParams ub s [] ([], False)"
  unfolding takesParams_def
proof (intro allI impI)
  fix n rp us
  assume "ending ([] @ rp # us) s" "us \<noteq> []" "10 * length ([] @ rp # us) + 3 \<le> n" "tok_kind rp = TK_RParen"
  thus "\<exists>ps. parseParams ub n (upTo ([] @ rp # us) s) = (Some (ps, snd ([], False)), upTo us s) \<and> sameParams ps (fst ([], False))"
    by (cases n) (simp_all add: upTo_simps sameParams_def)
qed

lemma d_void: "tok_kind v = TK_KwVoid \<Longrightarrow> takesParams ub s [v] ([], False)"
  unfolding takesParams_def
proof (intro allI impI)
  fix n rp us
  assume "tok_kind v = TK_KwVoid" "ending ([v] @ rp # us) s" "us \<noteq> []" "10 * length ([v] @ rp # us) + 3 \<le> n" "tok_kind rp = TK_RParen"
  thus "\<exists>ps. parseParams ub n (upTo ([v] @ rp # us) s) = (Some (ps, snd ([], False)), upTo us s) \<and> sameParams ps (fst ([], False))"
    using ending_tl [of v "rp # us" s] by (cases n) (simp_all add: upTo_simps sameParams_def)
qed

lemma d_params:
  assumes g: "gParamList ub ts fn" and a: "takesParamList ub s ts fn"
  shows "takesParams ub s ts fn"
  unfolding takesParams_def
proof (intro allI impI)
  fix n rp us
  assume f: "ending (ts @ rp # us) s" and us: "us \<noteq> []" and n: "10 * length (ts @ rp # us) + 3 \<le> n" and rp: "tok_kind rp = TK_RParen"
  obtain m where m: "n = Suc m" "10 * length (ts @ rp # us) + 2 \<le> m" using n by (cases n) auto
  obtain ps where ps: "paramsLoop ub m (upTo (ts @ rp # us) s) = (Some (ps, snd fn), upTo (rp # us) s)" "sameParams ps (fst fn)"
    using a f m(2) rp unfolding takesParamList_def by blast
  obtain t ws where t: "ts = t # ws" "isTypeStart (tok_kind t) \<or> tok_kind t = TK_Ellipsis"
    using grammar_first(12) [OF g] by (auto elim: firstInE)
  obtain w vs where w: "ws @ rp # us = w # vs" by (cases ws) auto
  have "tok_kind t = TK_KwVoid \<Longrightarrow> tok_kind w \<noteq> TK_RParen"
    using gParamList_void [OF g t(1) rp] w by (cases ws) auto
  moreover have "tok_kind t \<noteq> TK_RParen" using t(2) by (auto simp: isTypeStart_def)
  ultimately show "\<exists>ps. parseParams ub n (upTo (ts @ rp # us) s) = (Some (ps, snd fn), upTo us s) \<and> sameParams ps (fst fn)"
    using ps f ending_drop [OF f] t(1) w us rp by (auto simp: m upTo_simps andThen_Some)
qed


section \<open>All together\<close>

lemmas production_taken =
  a_name a_int a_float a_char a_string a_paren a_primary a_call a_index a_no_args a_last_arg a_arg a_postfix a_unary
  a_sizeof a_sizeof_type a_cast a_operand a_binary a_value a_assign d_type_name d_star d_const_star d_direct d_ident
  d_unnamed d_nested d_array d_function d_no_length d_length d_no_params d_void d_params d_ellipsis d_last_param
  d_more_params d_param

theorem phrases_taken:
  "gPrimary ub ts e \<Longrightarrow> takesPrimary ub s ts e"
  "gPostfix ub ts e \<Longrightarrow> takesPostfix ub s ts e"
  "gArgs ub ts es \<Longrightarrow> takesArgs ub s ts es"
  "gUnary ub ts e \<Longrightarrow> takesUnary ub s ts e"
  "gBinary ub p ts e \<Longrightarrow> takesBinary ub s p ts e"
  "gAssign ub ts e \<Longrightarrow> takesAssign ub s ts e"
  "gTypeName ub ts t \<Longrightarrow> takesType ub s ts t"
  "gDeclarator ub ab t f ts d \<Longrightarrow> takesStars ub s ab t f ts d"
  "gDirect ub ab t f ts d \<Longrightarrow> takesDirect ub s ab t f ts d"
  "gLength ub ts n \<Longrightarrow> takesLength ub s ts n"
  "gParams ub ts fn \<Longrightarrow> takesParams ub s ts fn"
  "gParamList ub ts fn \<Longrightarrow> takesParamList ub s ts fn"
  "gParam ub ts pd \<Longrightarrow> takesParam ub s ts pd"
  by (induction rule: gPrimary_gPostfix_gArgs_gUnary_gBinary_gAssign_gTypeName_gDeclarator_gDirect_gLength_gParams_gParamList_gParam.inducts)
    (blast intro: production_taken takesStars_declarator)+

end
