(* ===== verification/ParseUnits.thy ===== *)
theory ParseUnits
  imports ParseDeclares ParseBlock
begin

text \<open>
  The parser accepts initializers, statements, external declarations and whole units, and returns
  the trees that the grammar gives them, up to the location of parameters without a name.
\<close>

section \<open>Initializers and variables\<close>

definition takesInit :: "(fp \<Rightarrow> i64) \<Rightarrow> parser \<Rightarrow> token list \<Rightarrow> initializer \<Rightarrow> bool" where
  "takesInit ub s = takes s 6 (parseInitializer ub) (\<lambda>k. k \<in> {TK_Comma, TK_Semi, TK_RBrace})"

definition takesItems :: "(fp \<Rightarrow> i64) \<Rightarrow> parser \<Rightarrow> token list \<Rightarrow> initializer list \<Rightarrow> bool" where
  "takesItems ub s = takes s 7 (itemsLoop ub) (\<lambda>k. k = TK_RBrace)"

lemma gInit_first: "gInit ub ts i \<Longrightarrow> firstIn (\<lambda>k. startsExpr k \<or> k = TK_LBrace) ts"
  by (erule gInit.cases) (auto simp: kindsOf_def dest: grammar_first(6) elim: firstIn_mono)

lemma i_expr:
  assumes g: "gAssign ub ts e"
  shows "takesInit ub s ts (InitExpr e (tok_loc (hd ts)))"
  unfolding takesInit_def
proof (rule takesI)
  fix n u us
  assume f: "ending (ts @ u # us) s" and n: "10 * (length ts + length us) + 9 + 6 \<le> n" and u: "tok_kind u \<in> {TK_Comma, TK_Semi, TK_RBrace}"
  obtain t vs where t: "ts = t # vs" "startsExpr (tok_kind t)" using grammar_first(6) [OF g] by (auto elim: firstInE)
  have "parseAssignment ub n (upTo (ts @ u # us) s) = (Some e, upTo (u # us) s)"
    by (rule takesD [OF phrases_taken(6) [OF g, unfolded takesAssign_def] f]) (use n u in auto)
  thus "parseInitializer ub (Suc n) (upTo (ts @ u # us) s) = (Some (InitExpr e (tok_loc (hd ts))), upTo (u # us) s)"
    using f t by (auto simp: upTo_simps andThen_Some startsExpr_def)
qed

lemma i_list:
  assumes k: "kindsOf [lb, rb] = [TK_LBrace, TK_RBrace]" and a: "takesItems ub s ts is"
  shows "takesInit ub s (lb # ts @ [rb]) (InitList is (tok_loc lb))"
  unfolding takesInit_def
proof (rule takesI)
  fix n u us
  assume f: "ending ((lb # ts @ [rb]) @ u # us) s" and n: "10 * (length (lb # ts @ [rb]) + length us) + 9 + 6 \<le> n"
  have f1: "ending (ts @ rb # u # us) s" using f ending_tl [of lb] by simp
  have f2: "ending (rb # u # us) s" using ending_drop [OF f1] by simp
  have "itemsLoop ub n (upTo (ts @ rb # u # us) s) = (Some is, upTo (rb # u # us) s)"
    by (rule takesD [OF a [unfolded takesItems_def] f1]) (use n k in \<open>simp_all add: kindsOf_def\<close>)
  thus "parseInitializer ub (Suc n) (upTo ((lb # ts @ [rb]) @ u # us) s) = (Some (InitList is (tok_loc lb)), upTo (u # us) s)"
    using f f2 k by (simp add: upTo_simps andThen_Some kindsOf_def)
qed

lemma i_no_items: "takesItems ub s [] []"
  unfolding takesItems_def by (rule takesI) (simp add: upTo_simps)

text \<open>One round of the loop.\<close>

lemma itemsLoop_round:
  assumes g: "gInit ub ts i" and a: "takesInit ub s ts i" and f: "ending (ts @ u # us) s"
    and n: "10 * (length ts + length us) + 16 \<le> n" and u: "tok_kind u \<in> {TK_Comma, TK_RBrace}"
  shows "itemsLoop ub (Suc n) (upTo (ts @ u # us) s) =
     (if tok_kind u = TK_Comma then andThen (itemsLoop ub n) (\<lambda>is. yield (i # is)) (advanceTok (upTo (u # us) s))
      else (Some [i], upTo (u # us) s))"
proof -
  obtain t vs where t: "ts = t # vs" "startsExpr (tok_kind t) \<or> tok_kind t = TK_LBrace" using gInit_first [OF g] by (auto elim: firstInE)
  have "parseInitializer ub n (upTo (ts @ u # us) s) = (Some i, upTo (u # us) s)"
    by (rule takesD [OF a [unfolded takesInit_def] f]) (use n u in auto)
  thus ?thesis using f t ending_drop [OF f] by (auto simp: upTo_simps andThen_Some startsExpr_def)
qed

lemma i_last_item:
  assumes "gInit ub ts i" "takesInit ub s ts i"
  shows "takesItems ub s ts [i]"
  unfolding takesItems_def by (rule takesI) (simp add: itemsLoop_round [OF assms] del: itemsLoop.simps)

lemma i_item:
  assumes g: "gInit ub ts i" "takesInit ub s ts i" and co: "tok_kind co = TK_Comma" and a: "takesItems ub s vs is"
  shows "takesItems ub s (ts @ co # vs) (i # is)"
  unfolding takesItems_def
proof (rule takesI)
  fix n u us
  assume f: "ending ((ts @ co # vs) @ u # us) s" and n: "10 * (length (ts @ co # vs) + length us) + 9 + 7 \<le> n" and u: "tok_kind u = TK_RBrace"
  have f1: "ending (ts @ co # vs @ u # us) s" using f by simp
  have f2: "ending (co # vs @ u # us) s" using ending_drop [OF f1] by simp
  have f3: "ending (vs @ u # us) s" using ending_tl [OF f2] by simp
  have "itemsLoop ub n (upTo (vs @ u # us) s) = (Some is, upTo (u # us) s)"
    by (rule takesD [OF a [unfolded takesItems_def] f3]) (use n u in simp_all)
  thus "itemsLoop ub (Suc n) (upTo ((ts @ co # vs) @ u # us) s) = (Some (i # is), upTo (u # us) s)"
    using itemsLoop_round [OF g f1] n co f2 by (simp add: upTo_simps andThen_Some)
qed

lemma initializers_taken:
  "gInit ub ts i \<Longrightarrow> takesInit ub s ts i"
  "gItems ub ts is \<Longrightarrow> takesItems ub s ts is"
  by (induction rule: gInit_gItems.inducts) (blast intro: i_expr i_list i_no_items i_last_item i_item)+

text \<open>A declarator at a place that needs a name, resolved; the fuel of what follows is separate.\<close>

lemma declarator_takes:
  assumes g: "gDeclarator ub False base None ts d" and f: "ending (ts @ u # us) s" and n: "10 * length (ts @ u # us) + 2 \<le> n"
    and u: "endsDeclarator (tok_kind u)" and b: "sp_base spec = Some base"
  obtains decl g' where "parseDeclarator ub n False (upTo (ts @ u # us) s) = (Some decl, upTo (u # us) s)"
    "resolve spec decl (upTo (u # us) s) = (Some (d\<lparr>dd_function := g'\<rparr>), upTo (u # us) s)" "sameFunction g' (dd_function d)"
proof -
  obtain decl where decl: "parseDeclarator ub n False (upTo (ts @ u # us) s) = (Some decl, upTo (u # us) s)"
      "agrees False base None d (dc_name decl, dc_loc decl, dc_ops decl)"
    using takesStars_declarator [OF phrases_taken(8) [OF g]] f n u unfolding takesDeclarator_def by blast
  then obtain g' where "resolveOps base None (dc_ops decl) = Inr (dd_type d, g')" "sameFunction g' (dd_function d)"
    by (auto simp: agrees_def)
  thus thesis using that [of decl g'] decl b by (simp add: resolve_def agrees_def)
qed

definition takesVar :: "(fp \<Rightarrow> i64) \<Rightarrow> parser \<Rightarrow> decl_spec \<Rightarrow> token list \<Rightarrow> var_decl \<Rightarrow> bool" where
  "takesVar ub s spec ts v \<longleftrightarrow>
     (\<forall>n m u us. ending (ts @ u # us) s \<longrightarrow> 10 * length (ts @ u # us) + 2 \<le> n \<longrightarrow> 10 * length (ts @ u # us) \<le> m \<longrightarrow>
        tok_kind u \<in> {TK_Comma, TK_Semi} \<longrightarrow>
        (\<exists>decl d w ws. ending (w # ws) s \<and> tok_kind w \<noteq> TK_LBrace \<and>
           parseDeclarator ub n False (upTo (ts @ u # us) s) = (Some decl, upTo (w # ws) s) \<and>
           resolve spec decl (upTo (w # ws) s) = (Some d, upTo (w # ws) s) \<and> dd_function d = None \<and>
           finishVarDecl ub m spec d (upTo (w # ws) s) = (Some v, upTo (u # us) s)))"

lemma varOf_eq: "sp_isConst spec = c \<Longrightarrow> varOf spec d i = \<lparr>vd_name = dd_name d, vd_type = dd_type d,
    vd_isConst = constObject c (dd_type d), vd_init = i, vd_loc = dd_loc d, vd_symbol = 0\<rparr>"
  by (simp add: varOf_def isConstObject_def constObject_def)

lemma sameFunction_None: "sameFunction g h \<Longrightarrow> g = None \<longleftrightarrow> h = None"
  by (cases "(g, h)" rule: sameFunction.cases) auto

lemma gVar_taken:
  assumes "gVar ub base c ts v" and spec: "sp_base spec = Some base" "sp_isConst spec = c"
  shows "takesVar ub s spec ts v"
  unfolding takesVar_def
proof (intro allI impI)
  fix n m u us
  assume f: "ending (ts @ u # us) s" and n: "10 * length (ts @ u # us) + 2 \<le> n" and m: "10 * length (ts @ u # us) \<le> m"
    and u: "tok_kind u \<in> {TK_Comma, TK_Semi}"
  have eu: "endsDeclarator (tok_kind u)" using u by (auto simp: endsDeclarator_def)
  from assms(1) show "\<exists>decl d w ws. ending (w # ws) s \<and> tok_kind w \<noteq> TK_LBrace \<and>
      parseDeclarator ub n False (upTo (ts @ u # us) s) = (Some decl, upTo (w # ws) s) \<and>
      resolve spec decl (upTo (w # ws) s) = (Some d, upTo (w # ws) s) \<and> dd_function d = None \<and>
      finishVarDecl ub m spec d (upTo (w # ws) s) = (Some v, upTo (u # us) s)"
  proof cases
    case (g_var d)
    obtain decl g' where h: "parseDeclarator ub n False (upTo (ts @ u # us) s) = (Some decl, upTo (u # us) s)"
        "resolve spec decl (upTo (u # us) s) = (Some (d\<lparr>dd_function := g'\<rparr>), upTo (u # us) s)" "sameFunction g' (dd_function d)"
      by (rule declarator_takes [OF g_var(2) f n eu spec(1)])
    have f1: "ending (u # us) s" using ending_drop [OF f] by simp
    have "finishVarDecl ub m spec (d\<lparr>dd_function := g'\<rparr>) (upTo (u # us) s) = (Some v, upTo (u # us) s)"
      using g_var u f1 by (auto simp: finishVarDecl_def varOf_eq [OF spec(2)] upTo_simps)
    thus ?thesis using h g_var(3) f1 u by (intro exI [of _ decl] exI [of _ "d\<lparr>dd_function := g'\<rparr>"] exI [of _ u] exI [of _ us])
        (auto dest: sameFunction_None)
  next
    case (g_var_init vs d eq ws i)
    have f0: "ending (vs @ eq # ws @ u # us) s" using f g_var_init(1) by simp
    have f1: "ending (eq # ws @ u # us) s" using ending_drop [OF f0] by simp
    have f2: "ending (ws @ u # us) s" using ending_tl [OF f1] by simp
    have n0: "10 * length (vs @ eq # ws @ u # us) + 2 \<le> n" using n g_var_init(1) by simp
    have e0: "endsDeclarator (tok_kind eq)" using g_var_init(6) by (simp add: endsDeclarator_def)
    obtain decl g' where h: "parseDeclarator ub n False (upTo (vs @ eq # ws @ u # us) s) = (Some decl, upTo (eq # ws @ u # us) s)"
        "resolve spec decl (upTo (eq # ws @ u # us) s) = (Some (d\<lparr>dd_function := g'\<rparr>), upTo (eq # ws @ u # us) s)"
        "sameFunction g' (dd_function d)"
      by (rule declarator_takes [OF g_var_init(3) f0 n0 e0 spec(1)])
    have "parseInitializer ub m (upTo (ws @ u # us) s) = (Some i, upTo (u # us) s)"
      by (rule takesD [OF initializers_taken(1) [OF g_var_init(7), unfolded takesInit_def] f2]) (use m u g_var_init(1) in auto)
    hence "finishVarDecl ub m spec (d\<lparr>dd_function := g'\<rparr>) (upTo (eq # ws @ u # us) s) = (Some v, upTo (u # us) s)"
      using g_var_init f1 by (simp add: finishVarDecl_def varOf_eq [OF spec(2)] upTo_simps andThen_Some)
    thus ?thesis using h g_var_init(1,4,6) f1
      by (intro exI [of _ decl] exI [of _ "d\<lparr>dd_function := g'\<rparr>"] exI [of _ eq] exI [of _ "ws @ u # us"])
        (auto dest: sameFunction_None)
  qed
qed


section \<open>Statements\<close>

definition takesVars :: "(fp \<Rightarrow> i64) \<Rightarrow> parser \<Rightarrow> decl_spec \<Rightarrow> token list \<Rightarrow> var_decl list \<Rightarrow> bool" where
  "takesVars ub s spec = takes s 3 (\<lambda>n. declaratorsLoop ub n spec) (\<lambda>k. k = TK_Semi)"

lemma gVars_taken:
  assumes "gVars ub base c ts vs" and spec: "sp_base spec = Some base" "sp_isConst spec = c"
  shows "takesVars ub s spec ts vs"
  using assms(1)
proof (induction rule: gVars.induct)
  case (g_last_var ts v)
  show ?case
    unfolding takesVars_def
  proof (rule takesI)
    fix n u us
    assume f: "ending (ts @ u # us) s" and n: "10 * (length ts + length us) + 9 + 3 \<le> n" and u: "tok_kind u = TK_Semi"
    have "10 * length (ts @ u # us) + 2 \<le> n" "10 * length (ts @ u # us) \<le> n" "tok_kind u \<in> {TK_Comma, TK_Semi}"
      using n u by simp_all
    then obtain decl d s1 where "parseDeclarator ub n False (upTo (ts @ u # us) s) = (Some decl, s1)"
        "resolve spec decl s1 = (Some d, s1)" "dd_function d = None" "finishVarDecl ub n spec d s1 = (Some v, upTo (u # us) s)"
      using gVar_taken [OF g_last_var spec, of s] f unfolding takesVar_def by blast
    thus "declaratorsLoop ub (Suc n) spec (upTo (ts @ u # us) s) = (Some [v], upTo (u # us) s)"
      using u ending_drop [OF f] by (simp add: upTo_simps andThen_Some)
  qed
next
  case (g_vars ts v co ws vs)
  show ?case
    unfolding takesVars_def
  proof (rule takesI)
    fix n u us
    assume f: "ending ((ts @ co # ws) @ u # us) s" and n: "10 * (length (ts @ co # ws) + length us) + 9 + 3 \<le> n" and u: "tok_kind u = TK_Semi"
    have f1: "ending (ts @ co # ws @ u # us) s" using f by simp
    have f2: "ending (co # ws @ u # us) s" using ending_drop [OF f1] by simp
    have f3: "ending (ws @ u # us) s" using ending_tl [OF f2] by simp
    have "10 * length (ts @ co # ws @ u # us) + 2 \<le> n" "10 * length (ts @ co # ws @ u # us) \<le> n" "tok_kind co \<in> {TK_Comma, TK_Semi}"
      using n g_vars.hyps(2) by simp_all
    then obtain decl d s1 where "parseDeclarator ub n False (upTo (ts @ co # ws @ u # us) s) = (Some decl, s1)"
        "resolve spec decl s1 = (Some d, s1)" "dd_function d = None"
        "finishVarDecl ub n spec d s1 = (Some v, upTo (co # ws @ u # us) s)"
      using gVar_taken [OF g_vars.hyps(1) spec, of s] f1 unfolding takesVar_def by blast
    moreover have "declaratorsLoop ub n spec (upTo (ws @ u # us) s) = (Some vs, upTo (u # us) s)"
      by (rule takesD [OF g_vars.IH [unfolded takesVars_def] f3]) (use n u in simp_all)
    ultimately show "declaratorsLoop ub (Suc n) spec (upTo ((ts @ co # ws) @ u # us) s) = (Some (v # vs), upTo (u # us) s)"
      using g_vars.hyps(2) f2 by (simp add: upTo_simps andThen_Some)
  qed
qed

lemma gVar_first: "gVar ub base c ts v \<Longrightarrow> firstIn (startsDeclarator False) ts"
  by (erule gVar.cases) (auto dest: grammar_first(8))

lemma gVars_first: "gVars ub base c ts vs \<Longrightarrow> firstIn (startsDeclarator False) ts"
  by (erule gVars.cases) (auto dest: gVar_first)

definition startsStmt :: "token_kind \<Rightarrow> bool" where
  "startsStmt k \<longleftrightarrow> startsExpr k \<or> isTypeStart k \<or>
     k \<in> {TK_LBrace, TK_Semi, TK_KwIf, TK_KwWhile, TK_KwBreak, TK_KwContinue, TK_KwReturn}"

lemma startsStmt_mono:
  "firstIn startsExpr ts \<Longrightarrow> firstIn startsStmt ts" "firstIn isTypeStart ts \<Longrightarrow> firstIn startsStmt ts"
  by (auto simp: startsStmt_def elim: firstIn_mono)

lemma gStmt_first: "gStmt ub ts st \<Longrightarrow> firstIn startsStmt ts"
proof (erule gStmt.cases)
  fix us e semi
  assume "ts = us @ [semi]" "gAssign ub us e"
  thus ?thesis using startsStmt_mono(1) [OF grammar_first(6)] expr_nonempty(5) by auto
next
  fix ss base c us vs semi
  assume "ts = ss @ us @ [semi]" "gSpec ss base c"
  thus ?thesis using startsStmt_mono(2) [OF gSpec_first] gSpec_nonempty by auto
qed (auto simp: startsStmt_def kindsOf_def)

lemma gBlock_first: "gBlock ub ts body \<Longrightarrow> ts = [] \<or> firstIn startsStmt ts"
proof (erule gBlock.cases)
  fix vs st ws sts
  assume "ts = vs @ ws" "gStmt ub vs st"
  thus ?thesis using gStmt_first firstIn_nonempty by (metis firstIn_append)
qed simp

lemma startsStmt_not: "\<not> startsStmt TK_RBrace" "\<not> startsStmt TK_Eof" "\<not> startsStmt TK_KwElse"
  by (simp_all add: startsStmt_def startsExpr_def isTypeStart_def)

definition takesStmt :: "(fp \<Rightarrow> i64) \<Rightarrow> parser \<Rightarrow> token list \<Rightarrow> stmt \<Rightarrow> bool" where
  "takesStmt ub s ts st = takes s 8 (parseStatement ub) (\<lambda>k. opensElse st \<longrightarrow> k \<noteq> TK_KwElse) ts st"

definition takesBlock :: "(fp \<Rightarrow> i64) \<Rightarrow> parser \<Rightarrow> token list \<Rightarrow> stmt list \<Rightarrow> bool" where
  "takesBlock ub s = takes s 9 (blockLoop ub) (\<lambda>k. k = TK_RBrace)"

text \<open>The kinds that \<open>parseStatement\<close> does not name.\<close>

lemma parseStatement_other:
  "kindAt 0 s \<notin> {TK_LBrace, TK_Semi, TK_KwBreak, TK_KwContinue, TK_KwReturn, TK_KwIf, TK_KwWhile} \<Longrightarrow>
     parseStatement ub (Suc n) s =
       (if isTypeStart (kindAt 0 s) then parseDeclStmt ub n s else exprStmt ub n (locHere s) s)"
  by (cases "kindAt 0 s") (simp_all add: Let_def)

lemma jumpStmt_takes:
  "ending (semi # u # us) s \<Longrightarrow> tok_kind semi = TK_Semi \<Longrightarrow> jumpStmt nd l (upTo (semi # u # us) s) = (Some (Stmt nd l), upTo (u # us) s)"
  by (simp add: jumpStmt_def upTo_simps andThen_Some)

text \<open>A statement that is a token or two.\<close>

lemma s_null: "tok_kind semi = TK_Semi \<Longrightarrow> takesStmt ub s [semi] (Stmt NullStmt (tok_loc semi))"
  unfolding takesStmt_def by (rule takesI) (simp add: upTo_simps Let_def)

lemma s_break: "kindsOf [kw, semi] = [TK_KwBreak, TK_Semi] \<Longrightarrow> takesStmt ub s [kw, semi] (Stmt BreakStmt (tok_loc kw))"
  unfolding takesStmt_def by (rule takesI) (simp add: upTo_simps Let_def kindsOf_def jumpStmt_takes ending_tl)

lemma s_continue: "kindsOf [kw, semi] = [TK_KwContinue, TK_Semi] \<Longrightarrow> takesStmt ub s [kw, semi] (Stmt ContinueStmt (tok_loc kw))"
  unfolding takesStmt_def by (rule takesI) (simp add: upTo_simps Let_def kindsOf_def jumpStmt_takes ending_tl)

lemma s_return: "kindsOf [kw, semi] = [TK_KwReturn, TK_Semi] \<Longrightarrow> takesStmt ub s [kw, semi] (Stmt (ReturnStmt None) (tok_loc kw))"
  unfolding takesStmt_def
  by (rule takesI) (simp add: upTo_simps Let_def kindsOf_def jumpStmt_takes ending_tl returnStmt_def upTo_check [OF ending_tl])

lemma assignment_takes:
  "gAssign ub ts e \<Longrightarrow> ending (ts @ u # us) s \<Longrightarrow> 10 * length (ts @ u # us) + 5 \<le> n \<Longrightarrow> endsExpr (tok_kind u) \<Longrightarrow>
     parseAssignment ub n (upTo (ts @ u # us) s) = (Some e, upTo (u # us) s)"
  by (rule takesD [OF phrases_taken(6) [unfolded takesAssign_def]])

lemma s_expr:
  assumes g: "gAssign ub ts e" and k: "tok_kind semi = TK_Semi"
  shows "takesStmt ub s (ts @ [semi]) (Stmt (ExprStmt e) (tok_loc (hd ts)))"
  unfolding takesStmt_def
proof (rule takesI)
  fix n u us
  assume f: "ending ((ts @ [semi]) @ u # us) s" and n: "10 * (length (ts @ [semi]) + length us) + 9 + 8 \<le> n"
  obtain t vs where t: "ts = t # vs" "startsExpr (tok_kind t)" using grammar_first(6) [OF g] by (auto elim: firstInE)
  have f1: "ending (ts @ semi # u # us) s" using f by simp
  have f2: "ending (semi # u # us) s" using ending_drop [OF f1] by simp
  have "kindAt 0 (upTo (ts @ semi # u # us) s) = tok_kind t" using f1 t by (simp add: upTo_simps)
  hence "parseStatement ub (Suc n) (upTo (ts @ semi # u # us) s) = exprStmt ub n (tok_loc t) (upTo (ts @ semi # u # us) s)"
    using t f1 startsExpr_type [OF t(2)] by (subst parseStatement_other) (auto simp: startsExpr_def upTo_simps)
  moreover have "parseAssignment ub n (upTo (ts @ semi # u # us) s) = (Some e, upTo (semi # u # us) s)"
    by (rule assignment_takes [OF g f1]) (use n k in simp_all)
  ultimately show "parseStatement ub (Suc n) (upTo ((ts @ [semi]) @ u # us) s) = (Some (Stmt (ExprStmt e) (tok_loc (hd ts))), upTo (u # us) s)"
    using t k f2 by (simp add: exprStmt_def andThen_Some jumpStmt_takes del: parseStatement.simps)
qed

lemma s_return_value:
  assumes k: "kindsOf [kw, semi] = [TK_KwReturn, TK_Semi]" and g: "gAssign ub ts e"
  shows "takesStmt ub s (kw # ts @ [semi]) (Stmt (ReturnStmt (Some e)) (tok_loc kw))"
  unfolding takesStmt_def
proof (rule takesI)
  fix n u us
  assume f: "ending ((kw # ts @ [semi]) @ u # us) s" and n: "10 * (length (kw # ts @ [semi]) + length us) + 9 + 8 \<le> n"
  obtain t vs where t: "ts = t # vs" "startsExpr (tok_kind t)" using grammar_first(6) [OF g] by (auto elim: firstInE)
  have f1: "ending (ts @ semi # u # us) s" using f ending_tl [of kw] by simp
  have f2: "ending (semi # u # us) s" using ending_drop [OF f1] by simp
  have "parseAssignment ub n (upTo (ts @ semi # u # us) s) = (Some e, upTo (semi # u # us) s)"
    by (rule assignment_takes [OF g f1]) (use n k in \<open>simp_all add: kindsOf_def\<close>)
  moreover have "\<not> checkTok TK_Semi (upTo (ts @ semi # u # us) s)" using t f1 by (auto simp: upTo_simps startsExpr_def)
  ultimately show "parseStatement ub (Suc n) (upTo ((kw # ts @ [semi]) @ u # us) s) = (Some (Stmt (ReturnStmt (Some e)) (tok_loc kw)), upTo (u # us) s)"
    using k f f2 by (simp add: returnStmt_def upTo_simps andThen_Some kindsOf_def Let_def jumpStmt_takes)
qed

lemma s_decl:
  assumes sp: "gSpec ss base c" and g: "gVars ub base c ts vs" and k: "tok_kind semi = TK_Semi"
  shows "takesStmt ub s (ss @ ts @ [semi]) (Stmt (DeclStmt vs) (tok_loc (hd ss)))"
  unfolding takesStmt_def
proof (rule takesI)
  fix n u us
  assume f: "ending ((ss @ ts @ [semi]) @ u # us) s" and n: "10 * (length (ss @ ts @ [semi]) + length us) + 9 + 8 \<le> n"
  obtain t ws where t: "ss = t # ws" "isTypeStart (tok_kind t)" using gSpec_first [OF sp] by (auto elim: firstInE)
  obtain v xs where v: "ts = v # xs" "startsDeclarator False (tok_kind v)" using gVars_first [OF g] by (auto elim: firstInE)
  hence nt: "\<not> isTypeStart (tok_kind v)" by (auto simp: startsDeclarator_def isTypeStart_def)
  have f0: "ending (ss @ ts @ semi # u # us) s" using f by simp
  have f1: "ending (ts @ semi # u # us) s" using ending_drop [OF f0] by simp
  have f2: "ending (semi # u # us) s" using ending_drop [OF f1] by simp
  have f0': "ending (ss @ v # xs @ semi # u # us) s" "length ss < n" using f0 v(1) n by simp_all
  then obtain spec where spec: "parseDeclSpec n (upTo (ss @ ts @ semi # u # us) s) = (Some spec, upTo (ts @ semi # u # us) s)"
      "sp_base spec = Some base" "sp_isConst spec = c"
    using parseDeclSpec_takes [OF sp nt] v(1) by fastforce
  have "declaratorsLoop ub n spec (upTo (ts @ semi # u # us) s) = (Some vs, upTo (semi # u # us) s)"
    by (rule takesD [OF gVars_taken [OF g spec(2,3), unfolded takesVars_def] f1]) (use n k in simp_all)
  moreover have "kindAt 0 (upTo (ss @ ts @ semi # u # us) s) = tok_kind t" "locHere (upTo (ss @ ts @ semi # u # us) s) = tok_loc t"
    using f0 t by (simp_all add: upTo_simps)
  ultimately have "parseDeclStmt ub n (upTo (ss @ ts @ semi # u # us) s) = (Some (Stmt (DeclStmt vs) (tok_loc (hd ss))), upTo (u # us) s)"
    using spec(1) f2 k t(1) by (simp add: parseDeclStmt_def andThen_Some upTo_expect)
  moreover have "parseStatement ub (Suc n) (upTo (ss @ ts @ semi # u # us) s) = parseDeclStmt ub n (upTo (ss @ ts @ semi # u # us) s)"
    using t f0 by (subst parseStatement_other) (auto simp: isTypeStart_def upTo_simps)
  ultimately show "parseStatement ub (Suc n) (upTo ((ss @ ts @ [semi]) @ u # us) s) = (Some (Stmt (DeclStmt vs) (tok_loc (hd ss))), upTo (u # us) s)"
    by (simp del: parseStatement.simps)
qed


lemma compound_takes:
  assumes k: "kindsOf [lb, rb] = [TK_LBrace, TK_RBrace]" and a: "takesBlock ub s ts body"
    and f: "ending (lb # ts @ rb # u # us) s" and n: "10 * (length ts + length us) + 37 \<le> n"
  shows "parseCompound ub n (upTo (lb # ts @ rb # u # us) s) = (Some body, upTo (u # us) s)"
proof -
  obtain m where m: "n = Suc m" using n by (cases n) auto
  have f1: "ending (ts @ rb # u # us) s" using ending_tl [OF f] by simp
  have f2: "ending (rb # u # us) s" using ending_drop [OF f1] by simp
  have "blockLoop ub m (upTo (ts @ rb # u # us) s) = (Some body, upTo (rb # u # us) s)"
    by (rule takesD [OF a [unfolded takesBlock_def] f1]) (use n m k in \<open>simp_all add: kindsOf_def\<close>)
  thus ?thesis using f f2 k m by (simp add: kindsOf_def upTo_simps andThen_Some)
qed

lemma s_compound:
  assumes k: "kindsOf [lb, rb] = [TK_LBrace, TK_RBrace]" and a: "takesBlock ub s ts body"
  shows "takesStmt ub s (lb # ts @ [rb]) (Stmt (CompoundStmt body) (tok_loc lb))"
  unfolding takesStmt_def
proof (rule takesI)
  fix n u us
  assume f: "ending ((lb # ts @ [rb]) @ u # us) s" and n: "10 * (length (lb # ts @ [rb]) + length us) + 9 + 8 \<le> n"
  have f1: "ending (lb # ts @ rb # u # us) s" using f by simp
  have "parseCompound ub n (upTo (lb # ts @ rb # u # us) s) = (Some body, upTo (u # us) s)"
    by (rule compound_takes [OF k a f1]) (use n in simp)
  thus "parseStatement ub (Suc n) (upTo ((lb # ts @ [rb]) @ u # us) s) = (Some (Stmt (CompoundStmt body) (tok_loc lb)), upTo (u # us) s)"
    using f1 k by (simp add: kindsOf_def upTo_simps andThen_Some Let_def)
qed

text \<open>The condition and the first statement of an \<open>if\<close> or \<open>while\<close>.\<close>

lemma condition_takes:
  assumes k: "kindsOf [lp, rp] = [TK_LParen, TK_RParen]" and g: "gAssign ub ts c" and f: "ending (lp # ts @ rp # u # us) s"
    and n: "10 * (length ts + length us) + 35 \<le> n"
  shows "parseCondition ub n (upTo (lp # ts @ rp # u # us) s) = (Some c, upTo (u # us) s)"
proof -
  have f1: "ending (ts @ rp # u # us) s" using ending_tl [OF f] by simp
  have f2: "ending (rp # u # us) s" using ending_drop [OF f1] by simp
  have "parseAssignment ub n (upTo (ts @ rp # u # us) s) = (Some c, upTo (rp # u # us) s)"
    by (rule assignment_takes [OF g f1]) (use n k in \<open>simp_all add: kindsOf_def\<close>)
  thus ?thesis using f f2 k by (simp add: parseCondition_def kindsOf_def upTo_simps andThen_Some)
qed

lemma branch_takes:
  assumes k: "kindsOf [lp, rp] = [TK_LParen, TK_RParen]" and g: "gAssign ub ts c" and a: "gStmt ub vs a" "takesStmt ub s vs a"
    and f: "ending (kw # lp # ts @ rp # vs @ u # us) s" and n: "10 * (length ts + length vs + length us) + 45 \<le> n"
    and u: "opensElse a \<longrightarrow> tok_kind u \<noteq> TK_KwElse"
  shows "andThen (parseCondition ub n) (\<lambda>c. andThen (parseStatement ub n) (F c)) (upTo (lp # ts @ rp # vs @ u # us) s) =
    F c a (upTo (u # us) s)"
proof -
  obtain w ws where w: "vs @ u # us = w # ws" by (cases vs) auto
  have f1: "ending (lp # ts @ rp # w # ws) s" using ending_tl [OF f] w by simp
  have f2: "ending (vs @ u # us) s" using ending_drop [of "lp # ts @ [rp]" "vs @ u # us" s] f1 w by simp
  have "length (w # ws) = length vs + length us + 1" using arg_cong [OF w, of length] by simp
  hence "parseCondition ub n (upTo (lp # ts @ rp # vs @ u # us) s) = (Some c, upTo (vs @ u # us) s)"
    using condition_takes [OF k g f1, of n] n unfolding w by simp
  moreover have "parseStatement ub n (upTo (vs @ u # us) s) = (Some a, upTo (u # us) s)"
    by (rule takesD [OF a(2) [unfolded takesStmt_def] f2]) (use n u in simp_all)
  ultimately show ?thesis by (simp add: andThen_Some)
qed

lemma s_if:
  assumes k: "kindsOf [kw, lp, rp] = [TK_KwIf, TK_LParen, TK_RParen]" and g: "gAssign ub ts c" and a: "gStmt ub vs a" "takesStmt ub s vs a"
  shows "takesStmt ub s (kw # lp # ts @ rp # vs) (Stmt (IfStmt c a None) (tok_loc kw))"
  unfolding takesStmt_def
proof (rule takesI)
  fix n u us
  assume f: "ending ((kw # lp # ts @ rp # vs) @ u # us) s" and n: "10 * (length (kw # lp # ts @ rp # vs) + length us) + 9 + 8 \<le> n"
    and u: "opensElse (Stmt (IfStmt c a None) (tok_loc kw)) \<longrightarrow> tok_kind u \<noteq> TK_KwElse"
  have f1: "ending (kw # lp # ts @ rp # vs @ u # us) s" using f by simp
  have f2: "ending (u # us) s" using ending_drop [of "kw # lp # ts @ rp # vs" "u # us"] f1 by simp
  have k': "kindsOf [lp, rp] = [TK_LParen, TK_RParen]" "tok_kind kw = TK_KwIf" using k by (simp_all add: kindsOf_def)
  note b = branch_takes [OF k'(1) g a f1]
  show "parseStatement ub (Suc n) (upTo ((kw # lp # ts @ rp # vs) @ u # us) s) = (Some (Stmt (IfStmt c a None) (tok_loc kw)), upTo (u # us) s)"
    using f1 f2 k'(2) u n by (simp add: b upTo_simps Let_def)
qed

lemma s_if_else:
  assumes k: "kindsOf [kw, lp, rp, el] = [TK_KwIf, TK_LParen, TK_RParen, TK_KwElse]" and g: "gAssign ub ts c"
    and a: "gStmt ub vs a" "takesStmt ub s vs a" "\<not> opensElse a" and b: "gStmt ub ws b" "takesStmt ub s ws b"
  shows "takesStmt ub s (kw # lp # ts @ rp # vs @ el # ws) (Stmt (IfStmt c a (Some b)) (tok_loc kw))"
  unfolding takesStmt_def
proof (rule takesI)
  fix n u us
  assume f: "ending ((kw # lp # ts @ rp # vs @ el # ws) @ u # us) s"
    and n: "10 * (length (kw # lp # ts @ rp # vs @ el # ws) + length us) + 9 + 8 \<le> n"
    and u: "opensElse (Stmt (IfStmt c a (Some b)) (tok_loc kw)) \<longrightarrow> tok_kind u \<noteq> TK_KwElse"
  have f1: "ending (kw # lp # ts @ rp # vs @ el # ws @ u # us) s" using f by simp
  have f2: "ending (el # ws @ u # us) s" using ending_drop [of "kw # lp # ts @ rp # vs" "el # ws @ u # us"] f1 by simp
  have f3: "ending (ws @ u # us) s" using ending_tl [OF f2] by simp
  have k': "kindsOf [lp, rp] = [TK_LParen, TK_RParen]" "tok_kind kw = TK_KwIf" "tok_kind el = TK_KwElse" using k by (simp_all add: kindsOf_def)
  have n': "10 * (length ts + length vs + length (ws @ u # us)) + 45 \<le> n" using n by simp
  have "parseStatement ub n (upTo (ws @ u # us) s) = (Some b, upTo (u # us) s)"
    by (rule takesD [OF b(2) [unfolded takesStmt_def] f3]) (use n u in simp_all)
  thus "parseStatement ub (Suc n) (upTo ((kw # lp # ts @ rp # vs @ el # ws) @ u # us) s) =
      (Some (Stmt (IfStmt c a (Some b)) (tok_loc kw)), upTo (u # us) s)"
    using f1 f2 k'(2,3) a(3) by (simp add: branch_takes [OF k'(1) g a(1,2) f1 n'] upTo_simps andThen_Some Let_def)
qed

lemma s_while:
  assumes k: "kindsOf [kw, lp, rp] = [TK_KwWhile, TK_LParen, TK_RParen]" and g: "gAssign ub ts c" and a: "gStmt ub vs a" "takesStmt ub s vs a"
  shows "takesStmt ub s (kw # lp # ts @ rp # vs) (Stmt (WhileStmt c a) (tok_loc kw))"
  unfolding takesStmt_def
proof (rule takesI)
  fix n u us
  assume f: "ending ((kw # lp # ts @ rp # vs) @ u # us) s" and n: "10 * (length (kw # lp # ts @ rp # vs) + length us) + 9 + 8 \<le> n"
    and u: "opensElse (Stmt (WhileStmt c a) (tok_loc kw)) \<longrightarrow> tok_kind u \<noteq> TK_KwElse"
  have f1: "ending (kw # lp # ts @ rp # vs @ u # us) s" using f by simp
  have k': "kindsOf [lp, rp] = [TK_LParen, TK_RParen]" "tok_kind kw = TK_KwWhile" using k by (simp_all add: kindsOf_def)
  show "parseStatement ub (Suc n) (upTo ((kw # lp # ts @ rp # vs) @ u # us) s) = (Some (Stmt (WhileStmt c a) (tok_loc kw)), upTo (u # us) s)"
    using f1 k'(2) u n by (simp add: branch_takes [OF k'(1) g a f1] upTo_simps Let_def)
qed

lemma s_end: "takesBlock ub s [] []"
  unfolding takesBlock_def by (rule takesI) (simp add: upTo_simps)

lemma s_stmt:
  assumes g: "gStmt ub ts st" "takesStmt ub s ts st" and b: "gBlock ub vs sts" "takesBlock ub s vs sts"
  shows "takesBlock ub s (ts @ vs) (st # sts)"
  unfolding takesBlock_def
proof (rule takesI)
  fix n u us
  assume f: "ending ((ts @ vs) @ u # us) s" and n: "10 * (length (ts @ vs) + length us) + 9 + 9 \<le> n" and u: "tok_kind u = TK_RBrace"
  obtain t rs where t: "ts = t # rs" "startsStmt (tok_kind t)" using gStmt_first [OF g(1)] by (auto elim: firstInE)
  obtain w ws where w: "vs @ u # us = w # ws" by (cases vs) auto
  have "tok_kind w \<noteq> TK_KwElse"
  proof (cases "vs = []")
    case True
    thus ?thesis using u w by simp
  next
    case False
    hence "firstIn startsStmt vs" using gBlock_first [OF b(1)] by simp
    thus ?thesis using w startsStmt_not(3) by (auto elim!: firstInE)
  qed
  moreover have f1: "ending (ts @ w # ws) s" using f w by simp
  moreover have "length (w # ws) = length vs + length us + 1" using arg_cong [OF w, of length] by simp
  ultimately have p: "parseStatement ub n (upTo (ts @ w # ws) s) = (Some st, upTo (w # ws) s)"
    using n by (intro takesD [OF g(2) [unfolded takesStmt_def]]) simp_all
  have f2: "ending (vs @ u # us) s" using ending_drop [OF f1] w by simp
  have "blockLoop ub n (upTo (vs @ u # us) s) = (Some sts, upTo (u # us) s)"
    by (rule takesD [OF b(2) [unfolded takesBlock_def] f2]) (use n u t in simp_all)
  moreover have "\<not> checkTok TK_RBrace (upTo (ts @ w # ws) s)" "\<not> checkTok TK_Eof (upTo (ts @ w # ws) s)"
    using f1 t startsStmt_not by (auto simp: upTo_check)
  ultimately show "blockLoop ub (Suc n) (upTo ((ts @ vs) @ u # us) s) = (Some (st # sts), upTo (u # us) s)"
    using p w by (simp add: andThen_Some)
qed

theorem statements_taken:
  "gStmt ub ts st \<Longrightarrow> takesStmt ub s ts st"
  "gBlock ub us body \<Longrightarrow> takesBlock ub s us body"
  by (induction rule: gStmt_gBlock.inducts)
    (blast intro: s_null s_expr s_decl s_compound s_if s_if_else s_while s_break s_continue s_return s_return_value s_end s_stmt)+


section \<open>External declarations\<close>

fun anonDecl :: "top_level_decl \<Rightarrow> top_level_decl" where
  "anonDecl (TopVar v) = TopVar v"
| "anonDecl (TopFunction f) = TopFunction (f\<lparr>fd_params := map anonParam (fd_params f)\<rparr>)"

lemma anonDecl_function:
  assumes "sameFunction g (dd_function d)"
  shows "anonDecl (functionOf (d\<lparr>dd_function := g\<rparr>) body) = anonDecl (functionDecl d body)"
  using assms
  by (cases "(g, dd_function d)" rule: sameFunction.cases) (auto simp: functionOf_def functionDecl_def sameParams_def)

text \<open>A declarator at file scope and the declaration it makes, each with fuel of its own.\<close>

definition takesTop :: "(fp \<Rightarrow> i64) \<Rightarrow> parser \<Rightarrow> decl_spec \<Rightarrow> token list \<Rightarrow> top_level_decl \<Rightarrow> bool" where
  "takesTop ub s spec ts x \<longleftrightarrow>
     (\<forall>n m u us. ending (ts @ u # us) s \<longrightarrow> 10 * length (ts @ u # us) + 2 \<le> n \<longrightarrow> 10 * length (ts @ u # us) \<le> m \<longrightarrow>
        tok_kind u \<in> {TK_Comma, TK_Semi} \<longrightarrow>
        (\<exists>d s1 y. andThen (parseDeclarator ub n False) (resolve spec) (upTo (ts @ u # us) s) = (Some d, s1) \<and>
           \<not> checkTok TK_LBrace s1 \<and> declaredOf ub m spec d s1 = (Some y, upTo (u # us) s) \<and> anonDecl y = anonDecl x))"

lemma gTop_taken:
  assumes "gTop ub base c ts x" and spec: "sp_base spec = Some base" "sp_isConst spec = c"
  shows "takesTop ub s spec ts x"
  unfolding takesTop_def
proof (intro allI impI)
  fix n m u us
  assume f: "ending (ts @ u # us) s" and n: "10 * length (ts @ u # us) + 2 \<le> n" and m: "10 * length (ts @ u # us) \<le> m"
    and u: "tok_kind u \<in> {TK_Comma, TK_Semi}"
  from assms(1) show "\<exists>d s1 y. andThen (parseDeclarator ub n False) (resolve spec) (upTo (ts @ u # us) s) = (Some d, s1) \<and>
      \<not> checkTok TK_LBrace s1 \<and> declaredOf ub m spec d s1 = (Some y, upTo (u # us) s) \<and> anonDecl y = anonDecl x"
  proof cases
    case (g_top_var v)
    obtain decl d w ws where h: "ending (w # ws) s" "tok_kind w \<noteq> TK_LBrace"
        "parseDeclarator ub n False (upTo (ts @ u # us) s) = (Some decl, upTo (w # ws) s)"
        "resolve spec decl (upTo (w # ws) s) = (Some d, upTo (w # ws) s)" "dd_function d = None"
        "finishVarDecl ub m spec d (upTo (w # ws) s) = (Some v, upTo (u # us) s)"
      using gVar_taken [OF g_top_var(2) spec, of s] f n m u unfolding takesVar_def by blast
    thus ?thesis using g_top_var(1)
      by (intro exI [of _ d] exI [of _ "upTo (w # ws) s"] exI [of _ "TopVar v"]) (simp add: andThen_Some declaredOf_def upTo_check)
  next
    case (g_top_function d)
    have u': "endsDeclarator (tok_kind u)" using u by (auto simp: endsDeclarator_def)
    obtain decl g' where h: "parseDeclarator ub n False (upTo (ts @ u # us) s) = (Some decl, upTo (u # us) s)"
        "resolve spec decl (upTo (u # us) s) = (Some (d\<lparr>dd_function := g'\<rparr>), upTo (u # us) s)" "sameFunction g' (dd_function d)"
      by (rule declarator_takes [OF g_top_function(2) f n u' spec(1)])
    have "g' \<noteq> None" using sameFunction_None [OF h(3)] g_top_function(3) by simp
    hence "declaredOf ub m spec (d\<lparr>dd_function := g'\<rparr>) (upTo (u # us) s) =
        (Some (functionOf (d\<lparr>dd_function := g'\<rparr>) None), upTo (u # us) s)"
      by (simp add: declaredOf_def)
    moreover have "\<not> checkTok TK_LBrace (upTo (u # us) s)" using u ending_drop [OF f] by (auto simp: upTo_check)
    ultimately show ?thesis using h(1,2) anonDecl_function [OF h(3), of None] g_top_function(1) by (auto simp: andThen_Some)
  qed
qed

definition takesTops :: "(fp \<Rightarrow> i64) \<Rightarrow> parser \<Rightarrow> decl_spec \<Rightarrow> token list \<Rightarrow> top_level_decl list \<Rightarrow> bool" where
  "takesTops ub s spec ts xs \<longleftrightarrow>
     (\<forall>n m u us out. ending (ts @ u # us) s \<longrightarrow> us \<noteq> [] \<longrightarrow> 10 * length (ts @ u # us) + 2 \<le> n \<longrightarrow> 10 * length (ts @ u # us) + 1 \<le> m \<longrightarrow>
        tok_kind u = TK_Semi \<longrightarrow>
        (\<exists>d s1 ys. andThen (parseDeclarator ub n False) (resolve spec) (upTo (ts @ u # us) s) = (Some d, s1) \<and>
           \<not> checkTok TK_LBrace s1 \<and> externalLoop ub m spec d out s1 = ((True, out @ ys), upTo us s) \<and>
           map anonDecl ys = map anonDecl xs))"

lemma gTops_taken:
  assumes "gTops ub base c ts xs" and spec: "sp_base spec = Some base" "sp_isConst spec = c"
  shows "takesTops ub s spec ts xs"
  using assms(1)
proof (induction rule: gTops.induct)
  case (g_last_top ts x)
  show ?case
    unfolding takesTops_def
  proof (intro allI impI)
    fix n m u us out
    assume f: "ending (ts @ u # us) s" and us: "us \<noteq> []" and n: "10 * length (ts @ u # us) + 2 \<le> n"
      and m: "10 * length (ts @ u # us) + 1 \<le> m" and u: "tok_kind u = TK_Semi"
    obtain m' where m': "m = Suc m'" "10 * length (ts @ u # us) \<le> m'" using m by (cases m) auto
    have "tok_kind u \<in> {TK_Comma, TK_Semi}" using u by simp
    then obtain d s1 y where h: "andThen (parseDeclarator ub n False) (resolve spec) (upTo (ts @ u # us) s) = (Some d, s1)"
        "\<not> checkTok TK_LBrace s1" "declaredOf ub m' spec d s1 = (Some y, upTo (u # us) s)" "anonDecl y = anonDecl x"
      using gTop_taken [OF g_last_top spec, of s] f n m'(2) unfolding takesTop_def by blast
    have "externalLoop ub m spec d out s1 = ((True, out @ [y]), upTo us s)"
      using h(3) u us ending_drop [OF f] by (simp add: m'(1) upTo_simps)
    thus "\<exists>d s1 ys. andThen (parseDeclarator ub n False) (resolve spec) (upTo (ts @ u # us) s) = (Some d, s1) \<and>
        \<not> checkTok TK_LBrace s1 \<and> externalLoop ub m spec d out s1 = ((True, out @ ys), upTo us s) \<and> map anonDecl ys = map anonDecl [x]"
      using h(1,2,4) by (intro exI [of _ d] exI [of _ s1] exI [of _ "[y]"]) simp
  qed
next
  case (g_tops ts x co vs xs)
  show ?case
    unfolding takesTops_def
  proof (intro allI impI)
    fix n m u us out
    assume f: "ending ((ts @ co # vs) @ u # us) s" and us: "us \<noteq> []" and n: "10 * length ((ts @ co # vs) @ u # us) + 2 \<le> n"
      and m: "10 * length ((ts @ co # vs) @ u # us) + 1 \<le> m" and u: "tok_kind u = TK_Semi"
    obtain m' where m': "m = Suc m'" "10 * length (ts @ co # vs @ u # us) \<le> m'" using m by (cases m) auto
    have f1: "ending (ts @ co # vs @ u # us) s" using f by simp
    have f2: "ending (co # vs @ u # us) s" using ending_drop [OF f1] by simp
    have f3: "ending (vs @ u # us) s" using ending_tl [OF f2] by simp
    have "tok_kind co \<in> {TK_Comma, TK_Semi}" "10 * length (ts @ co # vs @ u # us) + 2 \<le> n" using g_tops.hyps(2) n by simp_all
    then obtain d s1 y where h: "andThen (parseDeclarator ub n False) (resolve spec) (upTo (ts @ co # vs @ u # us) s) = (Some d, s1)"
        "\<not> checkTok TK_LBrace s1" "declaredOf ub m' spec d s1 = (Some y, upTo (co # vs @ u # us) s)" "anonDecl y = anonDecl x"
      using gTop_taken [OF g_tops.hyps(1) spec, of s] f1 m'(2) unfolding takesTop_def by blast
    have "10 * length (vs @ u # us) + 2 \<le> m'" "10 * length (vs @ u # us) + 1 \<le> m'" using m'(2) by simp_all
    then obtain d2 s2 ys where i: "andThen (parseDeclarator ub m' False) (resolve spec) (upTo (vs @ u # us) s) = (Some d2, s2)"
        "externalLoop ub m' spec d2 (out @ [y]) s2 = ((True, (out @ [y]) @ ys), upTo us s)" "map anonDecl ys = map anonDecl xs"
      using g_tops.IH f3 us u unfolding takesTops_def by blast
    have "externalLoop ub m spec d out s1 = ((True, out @ y # ys), upTo us s)"
      using h(3) i(1,2) g_tops.hyps(2) f2 by (simp add: m'(1) upTo_simps)
    thus "\<exists>d s1 ys. andThen (parseDeclarator ub n False) (resolve spec) (upTo ((ts @ co # vs) @ u # us) s) = (Some d, s1) \<and>
        \<not> checkTok TK_LBrace s1 \<and> externalLoop ub m spec d out s1 = ((True, out @ ys), upTo us s) \<and> map anonDecl ys = map anonDecl (x # xs)"
      using h(1,2,4) i(3) by (intro exI [of _ d] exI [of _ s1] exI [of _ "y # ys"]) simp
  qed
qed

lemma gTops_first: "gTops ub base c ts xs \<Longrightarrow> firstIn (startsDeclarator False) ts"
proof (induction rule: gTops.induct)
  case (g_last_top ts d)
  thus ?case by cases (auto dest: gVar_first grammar_first(8))
next
  case (g_tops ts d co us ds)
  from g_tops.hyps(1) have "firstIn (startsDeclarator False) ts" by cases (auto dest: gVar_first grammar_first(8))
  thus ?case by auto
qed

lemma external_taken:
  assumes "gExternal ub ts xs" and f: "ending (ts @ u # us) s" and n: "10 * length (ts @ u # us) + 10 \<le> n"
  shows "\<exists>ys. parseExternalDecl ub n out (upTo (ts @ u # us) s) = ((True, out @ ys), upTo (u # us) s) \<and>
    map anonDecl ys = map anonDecl xs"
  using assms(1)
proof cases
  case (g_nothing ss base c semi)
  have f1: "ending (ss @ semi # u # us) s" "length ss < n" "\<not> isTypeStart (tok_kind semi)"
    using f n g_nothing by (simp_all add: isTypeStart_def)
  then obtain spec where "parseDeclSpec n (upTo (ss @ semi # u # us) s) = (Some spec, upTo (semi # u # us) s)"
    using parseDeclSpec_takes [OF g_nothing(3)] by blast
  thus ?thesis using g_nothing(1,2,4) ending_drop [OF f1(1)] by (simp add: parseExternalDecl_def upTo_simps)
next
  case (g_definition ss base c vs d lb rb ws body)
  have f0: "ending (ss @ vs @ lb # ws @ rb # u # us) s" using f g_definition(1) by simp
  have f1: "ending (vs @ lb # ws @ rb # u # us) s" using ending_drop [OF f0] by simp
  have f2: "ending (lb # ws @ rb # u # us) s" using ending_drop [OF f1] by simp
  obtain v xs' where v: "vs = v # xs'" "startsDeclarator False (tok_kind v)" using grammar_first(8) [OF g_definition(4)] by (auto elim: firstInE)
  hence nt: "\<not> isTypeStart (tok_kind v)" "tok_kind v \<noteq> TK_Semi" by (auto simp: startsDeclarator_def isTypeStart_def)
  have "ending (ss @ v # xs' @ lb # ws @ rb # u # us) s" "length ss < n" using f0 v(1) n g_definition(1) by simp_all
  from parseDeclSpec_takes [OF g_definition(3) nt(1) this]
  obtain spec where spec: "parseDeclSpec n (upTo (ss @ vs @ lb # ws @ rb # u # us) s) = (Some spec, upTo (vs @ lb # ws @ rb # u # us) s)"
      "sp_base spec = Some base" by (auto simp: v(1))
  have lb: "endsDeclarator (tok_kind lb)" "tok_kind lb = TK_LBrace" using g_definition(6) by (simp_all add: kindsOf_def endsDeclarator_def)
  have n1: "10 * length (vs @ lb # ws @ rb # u # us) + 2 \<le> n" using n g_definition(1) by simp
  obtain decl g' where h: "parseDeclarator ub n False (upTo (vs @ lb # ws @ rb # u # us) s) = (Some decl, upTo (lb # ws @ rb # u # us) s)"
      "resolve spec decl (upTo (lb # ws @ rb # u # us) s) = (Some (d\<lparr>dd_function := g'\<rparr>), upTo (lb # ws @ rb # u # us) s)"
      "sameFunction g' (dd_function d)"
    by (rule declarator_takes [OF g_definition(4) f1 n1 lb(1) spec(2)])
  have "g' \<noteq> None" using sameFunction_None [OF h(3)] g_definition(5) by simp
  moreover have "parseCompound ub n (upTo (lb # ws @ rb # u # us) s) = (Some body, upTo (u # us) s)"
    by (rule compound_takes [OF g_definition(6) statements_taken(2) [OF g_definition(7)] f2]) (use n g_definition(1) v(1) in simp)
  moreover have "\<not> checkTok TK_Semi (upTo (vs @ lb # ws @ rb # u # us) s)" using f1 v(1) nt(2) by (simp add: upTo_check)
  ultimately have "parseExternalDecl ub n out (upTo (ts @ u # us) s) =
      ((True, out @ [functionOf (d\<lparr>dd_function := g'\<rparr>) (Some body)]), upTo (u # us) s)"
    using spec(1) h(1,2) f2 lb(2) g_definition(1) by (simp add: parseExternalDecl_def andThen_Some upTo_check)
  thus ?thesis using anonDecl_function [OF h(3), of "Some body"] g_definition(2) by simp
next
  case (g_declaration ss base c vs semi)
  have f0: "ending (ss @ vs @ semi # u # us) s" using f g_declaration(1) by simp
  have f1: "ending (vs @ semi # u # us) s" using ending_drop [OF f0] by simp
  obtain v xs' where v: "vs = v # xs'" "startsDeclarator False (tok_kind v)" using gTops_first [OF g_declaration(3)] by (auto elim: firstInE)
  hence nt: "\<not> isTypeStart (tok_kind v)" "tok_kind v \<noteq> TK_Semi" by (auto simp: startsDeclarator_def isTypeStart_def)
  have "ending (ss @ v # xs' @ semi # u # us) s" "length ss < n" using f0 v(1) n g_declaration(1) by simp_all
  from parseDeclSpec_takes [OF g_declaration(2) nt(1) this]
  obtain spec where spec: "parseDeclSpec n (upTo (ss @ vs @ semi # u # us) s) = (Some spec, upTo (vs @ semi # u # us) s)"
      "sp_base spec = Some base" "sp_isConst spec = c" by (auto simp: v(1))
  have "10 * length (vs @ semi # u # us) + 2 \<le> n" "10 * length (vs @ semi # u # us) + 1 \<le> n" using n g_declaration(1) by simp_all
  then obtain d s1 ys where h: "andThen (parseDeclarator ub n False) (resolve spec) (upTo (vs @ semi # u # us) s) = (Some d, s1)"
      "\<not> checkTok TK_LBrace s1" "externalLoop ub n spec d out s1 = ((True, out @ ys), upTo (u # us) s)" "map anonDecl ys = map anonDecl xs"
    using gTops_taken [OF g_declaration(3) spec(2,3), of s] f1 g_declaration(4) unfolding takesTops_def by blast
  have "\<not> checkTok TK_Semi (upTo (vs @ semi # u # us) s)" using f1 v(1) nt(2) by (simp add: upTo_check)
  thus ?thesis using h spec(1) g_declaration(1) by (intro exI [of _ ys]) (simp add: parseExternalDecl_def)
qed

lemma gExternal_nonempty: "gExternal ub ts ds \<Longrightarrow> ts \<noteq> []"
  by (erule gExternal.cases) (auto dest: gSpec_nonempty)

section \<open>The run\<close>

lemma unit_taken:
  "gUnit ub ts xs \<Longrightarrow> ending (ts @ [eof]) s \<Longrightarrow> tok_kind eof = TK_Eof \<Longrightarrow> 10 * length ts + 20 \<le> n \<Longrightarrow> length ts < m \<Longrightarrow>
     \<exists>ys. runParser ub n m out (upTo (ts @ [eof]) s) = (out @ ys, upTo [eof] s) \<and> map anonDecl ys = map anonDecl xs"
proof (induction arbitrary: m out rule: gUnit.induct)
  case g_empty
  thus ?case by (cases m) (simp_all add: upTo_check)
next
  case (g_unit ts ds us es)
  obtain m' where m': "m = Suc m'" using g_unit.prems(4) by (cases m) auto
  have ne: "ts \<noteq> []" by (rule gExternal_nonempty [OF g_unit.hyps(1)])
  then obtain t rs where t: "ts = t # rs" by (cases ts) auto
  obtain w ws where w: "us @ [eof] = w # ws" by (cases us) auto
  have f1: "ending (ts @ w # ws) s" using g_unit.prems(1) w by simp
  have f2: "ending (us @ [eof]) s" using ending_drop [OF f1] w by simp
  have len: "length (w # ws) = length us + 1" using arg_cong [OF w, of length] by simp
  hence "10 * length (ts @ w # ws) + 10 \<le> n" using g_unit.prems(3) by simp
  from external_taken [OF g_unit.hyps(1) f1 this]
  obtain ys where ys: "parseExternalDecl ub n out (upTo (ts @ w # ws) s) = ((True, out @ ys), upTo (w # ws) s)"
      "map anonDecl ys = map anonDecl ds" by blast
  have "length us < m'" "10 * length us + 20 \<le> n" using g_unit.prems(3,4) m' t by simp_all
  from g_unit.IH [OF f2 g_unit.prems(2) this(2,1)]
  obtain zs where zs: "runParser ub n m' (out @ ys) (upTo (us @ [eof]) s) = ((out @ ys) @ zs, upTo [eof] s)"
      "map anonDecl zs = map anonDecl es" by blast
  have "\<not> checkTok TK_Eof (upTo (ts @ w # ws) s)" using f1 t ending_kind [of t "rs @ w # ws" s] by (simp add: upTo_check)
  thus ?case using ys zs w m' by (intro exI [of _ "ys @ zs"]) simp
qed

theorem parseWith_complete:
  assumes "stream toks" "gUnit ub (butlast toks) xs" "10 * length toks + 10 \<le> n"
  shows "\<exists>tu. parseWith ub n toks = Some (Inr tu) \<and> map anonDecl (tu_decls tu) = map anonDecl xs"
proof -
  define s where "s = newParser toks"
  obtain pre eof where toks: "toks = pre @ [eof]" "tok_kind eof = TK_Eof"
    using assms(1) by (cases toks rule: rev_cases) (auto simp: stream_def)
  have s: "ending (pre @ [eof]) s" "upTo (pre @ [eof]) s = s"
    using assms(1) toks(1) by (auto simp: s_def ending_def newParser_def upTo_def)
  have g: "gUnit ub pre xs" and n: "10 * length pre + 20 \<le> n" "length pre < n" using assms(2,3) toks(1) by simp_all
  obtain ys where "runParser ub n n [] s = (ys, upTo [eof] s)" "map anonDecl ys = map anonDecl xs"
    using unit_taken [OF g s(1) toks(2) n, of "[]"] unfolding s(2) by auto
  moreover have "\<not> ps_exhausted (upTo [eof] s)" "ps_diags (upTo [eof] s) = []"
    by (simp_all add: s_def newParser_def upTo_def)
  ultimately have "parseWith ub n toks = Some (Inr \<lparr>tu_decls = ys\<rparr>)" by (simp add: parseWith_def s_def)
  thus ?thesis using \<open>map anonDecl ys = map anonDecl xs\<close> by simp
qed

end
