(* ===== verification/ParseProps.thy ===== *)
theory ParseProps
  imports ParseCorrect ParseUnits SemaProps
begin

text \<open>
  The properties of \<open>parse\<close>: it ends, it accepts the sentences of the grammar and nothing else, and
  its trees are what the analyzer expects.
\<close>

section \<open>Trees without annotations\<close>

lemma parsed_bare [simp]: "parsed (bareExpr n l) \<longleftrightarrow> parsedNode n None"
  by (simp add: bareExpr_def)

lemma grammar_parsed:
  "gPrimary ub ts e \<Longrightarrow> parsed e" "gPostfix ub ts e \<Longrightarrow> parsed e" "gArgs ub ts es \<Longrightarrow> list_all parsed es"
  "gUnary ub ts e \<Longrightarrow> parsed e" "gBinary ub p ts e \<Longrightarrow> parsed e" "gAssign ub ts e \<Longrightarrow> parsed e"
  "gTypeName ub ts t \<Longrightarrow> True" "gDeclarator ub ab t f ts d \<Longrightarrow> True" "gDirect ub ab t f ts d \<Longrightarrow> True"
  "gLength ub ts n \<Longrightarrow> True" "gParams ub ts fn \<Longrightarrow> True" "gParamList ub ts fn \<Longrightarrow> True" "gParam ub ts pd \<Longrightarrow> True"
  by (induction rule: gPrimary_gPostfix_gArgs_gUnary_gBinary_gAssign_gTypeName_gDeclarator_gDirect_gLength_gParams_gParamList_gParam.inducts)
    (simp_all add: list.pred_map comp_def)

lemma gInit_parsed: "gInit ub ts i \<Longrightarrow> parsedInit i" "gItems ub us is \<Longrightarrow> \<forall>i \<in> set is. parsedInit i"
  by (induction rule: gInit_gItems.inducts) (simp_all add: grammar_parsed)

lemma gVar_parsed: "gVar ub base c ts v \<Longrightarrow> parsedVar v"
  by (auto elim!: gVar.cases simp: parsedVar_def gInit_parsed)

lemma gVars_parsed: "gVars ub base c ts vs \<Longrightarrow> \<forall>v \<in> set vs. parsedVar v"
  by (induction rule: gVars.induct) (auto simp: gVar_parsed)

lemma gStmt_parsed: "gStmt ub ts st \<Longrightarrow> parsedStmt st" "gBlock ub us sts \<Longrightarrow> \<forall>st \<in> set sts. parsedStmt st"
  by (induction rule: gStmt_gBlock.inducts) (auto simp: grammar_parsed gVars_parsed)

lemma gTops_parsed: "gTops ub base c ts ds \<Longrightarrow> list_all parsedDecl ds"
  by (induction rule: gTops.induct) (auto elim!: gTop.cases simp: gVar_parsed functionDecl_def)

lemma gUnit_parsed: "gUnit ub ts ds \<Longrightarrow> list_all parsedDecl ds"
proof (induction rule: gUnit.induct)
  case (g_unit ts ds us es)
  from g_unit.hyps(1) have "list_all parsedDecl ds"
    by cases (auto simp: gTops_parsed functionDecl_def gStmt_parsed)
  thus ?case using g_unit.IH by simp
qed simp

section \<open>The properties\<close>

definition tok :: "nat \<Rightarrow> token_kind \<Rightarrow> string \<Rightarrow> token" where
  "tok n k w = mkToken k w (col n)"

text \<open>The tokens of \<open>int f() { }\<close> and of \<open>int x = y;\<close>.\<close>

definition f_tokens :: "token list" where
  "f_tokens = [tok 1 TK_KwInt ''int'', tok 5 TK_Identifier ''f'', tok 6 TK_LParen ''('', tok 7 TK_RParen '')'',
     tok 9 TK_LBrace ''{'', tok 11 TK_RBrace ''}'', tok 12 TK_Eof []]"

definition x_tokens :: "token list" where
  "x_tokens = [tok 1 TK_KwInt ''int'', tok 5 TK_Identifier ''x'', tok 7 TK_Equal ''='', tok 9 TK_Identifier ''y'',
     tok 10 TK_Semi '';'', tok 11 TK_Eof []]"

lemma token_examples: "stream f_tokens" "stream x_tokens"
  by (simp_all add: stream_def f_tokens_def x_tokens_def tok_def kindsOf_def mkToken_def)

text \<open>
  C14: The parser ends on every token stream, whatever it contains and however broken it is: ten
  units of fuel for each token and ten more are never used up, and a failure comes with a
  diagnostic.
\<close>

theorem parse_terminates:
  assumes "stream toks" "10 * length toks + 10 \<le> n"
  shows "\<exists>r. parseWith ub n toks = Some r \<and> (\<forall>ds. r = Inl ds \<longrightarrow> ds \<noteq> [])"
  using parseWith_result [OF assms, of ub] by auto

lemma parse_terminates_witness:
  "(\<exists>r. parseWith no_ub 100 f_tokens = Some r) \<and> (\<exists>r. parseWith no_ub 100 (tl f_tokens) = Some r)"
  using parse_terminates [of f_tokens 100 no_ub] parse_terminates [of "tl f_tokens" 100 no_ub]
  by (auto simp: stream_def f_tokens_def tok_def kindsOf_def mkToken_def)

lemma enough: "stream toks \<Longrightarrow> 10 * length toks + 10 \<le> enoughFuel toks"
  by (simp add: enoughFuel_def)

lemma parse_cases:
  assumes "stream toks"
  shows "(\<exists>ds. parse ub toks = Inl ds \<and> ds \<noteq> []) \<or> (\<exists>tu. parse ub toks = Inr tu \<and> gUnit ub (butlast toks) (tu_decls tu))"
  using parseWith_result [OF assms enough [OF assms], of ub] by (auto simp: parse_def)

text \<open>
  C6: What the parser accepts is a sentence of the grammar, and its tree is the one that the
  grammar gives to these tokens: precedences and associativity of the operators, the types that
  declarators build from the inside out, the values of literals and of array lengths, and the
  location of every node.
\<close>

theorem parse_sound:
  assumes "stream toks" "parse ub toks = Inr tu"
  shows "gUnit ub (butlast toks) (tu_decls tu)"
  using parse_cases [OF assms(1), of ub] assms(2) by auto

lemma parse_sound_witness:
  "\<exists>tu. parse no_ub x_tokens = Inr tu \<and> gUnit no_ub (butlast x_tokens) (tu_decls tu) \<and> length (tu_decls tu) = 1"
proof -
  have "case parse no_ub x_tokens of Inl _ \<Rightarrow> False | Inr tu \<Rightarrow> length (tu_decls tu) = 1" by code_simp
  then obtain tu where "parse no_ub x_tokens = Inr tu" "length (tu_decls tu) = 1" by (auto split: sum.splits)
  thus ?thesis using parse_sound [OF token_examples(2)] by blast
qed

text \<open>
  C7: The parser accepts every sentence of the grammar, and with the tree that the grammar gives it.
  Only the location of a parameter without a name is not fixed by the grammar; \<open>anonDecl\<close> removes it.
  So the choices that the parser makes by looking at one or two tokens are right: casts and
  parentheses, declarators with and without names, lists that may end with a comma, and the \<open>if\<close>
  that an \<open>else\<close> belongs to.
\<close>

theorem parse_complete:
  assumes "stream toks" "gUnit ub (butlast toks) ds"
  shows "\<exists>tu. parse ub toks = Inr tu \<and> map anonDecl (tu_decls tu) = map anonDecl ds"
  using parseWith_complete [OF assms enough [OF assms(1)]] by (auto simp: parse_def)

text \<open>A derivation of \<open>int x = y;\<close>, and the tree that the parser must give.\<close>

lemma x_derived:
  "gUnit ub (butlast x_tokens) [TopVar \<lparr>vd_name = ''x'', vd_type = IntTy, vd_isConst = False,
     vd_init = Some (InitExpr (bareExpr (DeclRef ''y'' 0) (col 9)) (col 9)), vd_loc = col 5, vd_symbol = 0\<rparr>]"
proof -
  let ?i = "tok 1 TK_KwInt ''int''" and ?x = "tok 5 TK_Identifier ''x''" and ?e = "tok 7 TK_Equal ''=''"
    and ?y = "tok 9 TK_Identifier ''y''" and ?s = "tok 10 TK_Semi '';''"
  let ?d = "\<lparr>dd_name = tok_text ?x, dd_loc = tok_loc ?x, dd_type = IntTy, dd_function = None\<rparr>"
  have y: "gAssign ub [?y] (bareExpr (DeclRef (tok_text ?y) 0) (tok_loc ?y))"
    by (intro g_value g_operand g_postfix g_primary g_name) (simp add: tok_def mkToken_def)
  have x: "gDeclarator ub False IntTy None [?x] ?d" by (intro g_direct g_ident) (simp add: tok_def mkToken_def)
  have "gVar ub IntTy False ([?x] @ ?e # [?y]) \<lparr>vd_name = dd_name ?d, vd_type = dd_type ?d, vd_isConst = constObject False (dd_type ?d),
      vd_init = Some (InitExpr (bareExpr (DeclRef (tok_text ?y) 0) (tok_loc ?y)) (tok_loc (hd [?y]))), vd_loc = dd_loc ?d, vd_symbol = 0\<rparr>"
    by (rule g_var_init [OF x _ _ _ g_init_expr [OF y]]) (simp_all add: tok_def mkToken_def)
  moreover have "gSpec [?i] IntTy False" by (simp add: gSpec_def kindsOf_def tok_def mkToken_def isTypeStart_def)
  ultimately have "gExternal ub ([?i] @ ([?x] @ ?e # [?y]) @ [?s]) [TopVar \<lparr>vd_name = dd_name ?d, vd_type = dd_type ?d,
      vd_isConst = constObject False (dd_type ?d),
      vd_init = Some (InitExpr (bareExpr (DeclRef (tok_text ?y) 0) (tok_loc ?y)) (tok_loc (hd [?y]))), vd_loc = dd_loc ?d, vd_symbol = 0\<rparr>]"
    by (intro g_declaration g_last_top g_top_var) (simp_all add: tok_def mkToken_def)
  from g_unit [OF this g_empty] show ?thesis by (simp add: x_tokens_def tok_def mkToken_def constObject_def)
qed

lemma parse_complete_witness:
  "\<exists>tu. parse no_ub x_tokens = Inr tu \<and> map anonDecl (tu_decls tu) =
     [TopVar \<lparr>vd_name = ''x'', vd_type = IntTy, vd_isConst = False,
        vd_init = Some (InitExpr (bareExpr (DeclRef ''y'' 0) (col 9)) (col 9)), vd_loc = col 5, vd_symbol = 0\<rparr>]"
  using parse_complete [OF token_examples(2) x_derived, of no_ub] by simp

text \<open>So the grammar is not ambiguous: two trees for the same tokens agree up to those locations.\<close>

lemma grammar_unambiguous:
  assumes "stream toks" "gUnit ub (butlast toks) ds" "gUnit ub (butlast toks) es"
  shows "map anonDecl ds = map anonDecl es"
  using parseWith_complete [OF assms(1,2) order_refl] parseWith_complete [OF assms(1,3) order_refl] by fastforce

section \<open>Where the parser departs from the manual's grammar\<close>

text \<open>
  \<open>int x = sizeof (int) 1;\<close> and \<open>int f(int ((a)));\<close> are sentences of the grammar in the manual, where a
  cast is a unary expression and a parameter has any declarator; the parser rejects both.
\<close>

definition rejected :: "(token_kind \<times> string) list \<Rightarrow> bool" where
  "rejected ks \<longleftrightarrow> (case parse no_ub (map (\<lambda>(k, w). tok 1 k w) (ks @ [(TK_Eof, [])])) of Inl ds \<Rightarrow> True | Inr tu \<Rightarrow> False)"

lemma sizeof_cast_rejected:
  "rejected [(TK_KwInt, ''int''), (TK_Identifier, ''x''), (TK_Equal, ''=''), (TK_KwSizeof, ''sizeof''), (TK_LParen, ''(''),
     (TK_KwInt, ''int''), (TK_RParen, '')''), (TK_IntLiteral, ''1''), (TK_Semi, '';'')]"
  by code_simp

lemma nested_parameter_rejected:
  "rejected [(TK_KwInt, ''int''), (TK_Identifier, ''f''), (TK_LParen, ''(''), (TK_KwInt, ''int''), (TK_LParen, ''(''), (TK_LParen, ''(''),
     (TK_Identifier, ''a''), (TK_RParen, '')''), (TK_RParen, '')''), (TK_RParen, '')''), (TK_Semi, '';'')]"
  by code_simp

end
