(* ===== verification/FloatText.thy ===== *)
theory FloatText
  imports Floats
begin

text \<open>
  \<open>std::format("{}", double)\<close>, which is \<open>std::to_chars\<close> without a format: the shortest text that
  reads back as the number, in fixed notation unless the scientific one is shorter, and among the
  shortest ones the closest to the number.
\<close>

text \<open>The decimal exponent of a positive fraction: \<open>10 ^ x \<le> n / d < 10 ^ (x + 1)\<close>.\<close>

definition decimalExponent :: "nat \<Rightarrow> nat \<Rightarrow> int" where
  "decimalExponent n d =
     (if d \<le> n then int (length (dec (n div d))) - 1 else - int (length (dec ((d - 1) div n))))"

text \<open>\<open>n / d\<close> over \<open>10 ^ x\<close> as a fraction.\<close>

definition decimalScale :: "nat \<Rightarrow> nat \<Rightarrow> int \<Rightarrow> nat \<times> nat" where
  "decimalScale n d x = (if 0 \<le> x then (n, d * 10 ^ nat x) else (n * 10 ^ nat (- x), d))"

text \<open>
  The decimals of \<open>p\<close> digits next to \<open>n / d\<close> that read back as \<open>v\<close>, the closer one first.
\<close>

definition candidates :: "fp \<Rightarrow> nat \<Rightarrow> nat \<Rightarrow> nat \<Rightarrow> (nat \<times> int) list" where
  "candidates v n d p =
     (let x = decimalExponent n d - int p + 1; (N, D) = decimalScale n d x; q = N div D; r = N mod D;
          near = (if 2 * r < D \<or> (2 * r = D \<and> even q) then [q, q + 1] else [q + 1, q])
      in filter (\<lambda>(c, x). fp_eq (fp_of_decimal False c x) v) (map (\<lambda>c. (c, x)) near))"

fun stripZeros :: "nat \<Rightarrow> nat \<Rightarrow> int \<Rightarrow> nat \<times> int" where
  "stripZeros 0 c x = (c, x)"
| "stripZeros (Suc k) c x = (if c mod 10 = 0 then stripZeros k (c div 10) (x + 1) else (c, x))"

text \<open>Seventeen digits always suffice for a double.\<close>

definition shortestDigits :: "fp \<Rightarrow> nat \<Rightarrow> nat \<Rightarrow> nat \<times> int" where
  "shortestDigits v n d =
     (case concat (map (candidates v n d) [1 ..< 18]) of (c, x) # _ \<Rightarrow> stripZeros 18 c x | [] \<Rightarrow> (0, 0))"

definition padLeft :: "nat \<Rightarrow> string \<Rightarrow> string" where
  "padLeft k s = replicate (k - length s) (CHR ''0'') @ s"

definition scientificText :: "nat \<Rightarrow> int \<Rightarrow> string" where
  "scientificText c x =
     (let ds = dec c; e = x + int (length ds) - 1 in
      hd ds # (if tl ds = [] then [] else CHR ''.'' # tl ds) @ CHR ''e'' # (if e < 0 then CHR ''-'' else CHR ''+'') #
      padLeft 2 (dec (nat \<bar>e\<bar>)))"

text \<open>A whole number is printed exactly, as its last digits do not cost more characters than zeros.\<close>

definition fixedText :: "nat \<Rightarrow> nat \<Rightarrow> nat \<Rightarrow> int \<Rightarrow> string" where
  "fixedText n d c x =
     (if 0 \<le> x then dec (n div d)
      else let ds = padLeft (nat (1 - x)) (dec c); k = length ds - nat (- x) in take k ds @ CHR ''.'' # drop k ds)"

definition positiveText :: "nat \<Rightarrow> int \<Rightarrow> string" where
  "positiveText m e =
     (case scale m 1 (- e) of (n, d) \<Rightarrow>
        (case shortestDigits (FFin False m e) n d of (c, x) \<Rightarrow>
           (let f = fixedText n d c x; s = scientificText c x in if length s < length f then s else f)))"

fun formatDouble :: "fp \<Rightarrow> string" where
  "formatDouble FNaN = ''nan''"
| "formatDouble (FInf s) = (if s then ''-inf'' else ''inf'')"
| "formatDouble (FFin s m e) = (if s then ''-'' else []) @ (if m = 0 then ''0'' else positiveText m e)"

section \<open>What the text consists of\<close>

definition floatChar :: "char \<Rightarrow> bool" where
  "floatChar c \<longleftrightarrow> (48 \<le> byte c \<and> byte c < 58) \<or> c \<in> set ''.e+-infa''"

lemma floatChar_simps [simp]:
  "floatChar (CHR ''.'')" "floatChar (CHR ''e'')" "floatChar (CHR ''+'')" "floatChar (CHR ''-'')"
  "floatChar (CHR ''i'')" "floatChar (CHR ''n'')" "floatChar (CHR ''f'')" "floatChar (CHR ''a'')" "floatChar (CHR ''0'')"
  by (simp_all add: floatChar_def byte_def)

lemma dec_floatChar: "list_all floatChar (dec n)"
  using dec_digits by (auto simp: floatChar_def list_all_iff)

lemma padLeft_floatChar: "list_all floatChar s \<Longrightarrow> list_all floatChar (padLeft k s)"
  by (auto simp: padLeft_def list_all_iff)

lemma list_all_parts:
  "list_all P xs \<Longrightarrow> list_all P (take k xs)" "list_all P xs \<Longrightarrow> list_all P (drop k xs)"
  "list_all P xs \<Longrightarrow> list_all P (tl xs)" "list_all P xs \<Longrightarrow> xs \<noteq> [] \<Longrightarrow> P (hd xs)"
  subgoal by (auto simp: list_all_iff dest: in_set_takeD)
  subgoal by (auto simp: list_all_iff dest: in_set_dropD)
  subgoal by (cases xs) auto
  subgoal by (cases xs) auto
  done

lemma scientificText_floatChar: "list_all floatChar (scientificText d x)"
  using list_all_parts [OF dec_floatChar, of d] padLeft_floatChar [OF dec_floatChar]
  by (simp add: scientificText_def Let_def)

lemma fixedText_floatChar: "list_all floatChar (fixedText n d k x)"
  using list_all_parts [OF padLeft_floatChar [OF dec_floatChar]]
  by (simp add: fixedText_def Let_def dec_floatChar)

lemma formatDouble_floatChar: "list_all floatChar (formatDouble v)"
proof (cases v)
  case (FFin s m e)
  thus ?thesis using scientificText_floatChar fixedText_floatChar
    by (auto simp: positiveText_def Let_def split: prod.splits)
qed simp_all

end
