(* ===== verification/Dump.thy ===== *)
theory Dump
  imports ASTDumper AST FloatText
begin

text \<open>
  \<open>lib/AST/ASTDumper.cpp\<close>: the tree as text. The value of a function here is what the member
  function appends to \<open>out_\<close>.
\<close>

section \<open>Names\<close>

fun unaryName :: "unary_op \<Rightarrow> string" where
  "unaryName UO_Plus = ''+''"
| "unaryName UO_Minus = ''-''"
| "unaryName UO_Not = ''!''"
| "unaryName UO_Deref = ''*''"
| "unaryName UO_AddrOf = ''&''"

fun binaryName :: "binary_op \<Rightarrow> string" where
  "binaryName BO_Mul = ''*''"
| "binaryName BO_Div = ''/''"
| "binaryName BO_Rem = ''%''"
| "binaryName BO_Add = ''+''"
| "binaryName BO_Sub = ''-''"
| "binaryName BO_Lt = ''<''"
| "binaryName BO_Gt = ''>''"
| "binaryName BO_Le = ''<=''"
| "binaryName BO_Ge = ''>=''"
| "binaryName BO_Eq = ''==''"
| "binaryName BO_Ne = ''!=''"
| "binaryName BO_LogAnd = ''&&''"
| "binaryName BO_LogOr = ''||''"

fun castName :: "cast_kind \<Rightarrow> string" where
  "castName CK_Unresolved = ''Unresolved''"
| "castName CK_NoOp = ''NoOp''"
| "castName CK_IntegralCast = ''IntegralCast''"
| "castName CK_IntToFloat = ''IntToFloat''"
| "castName CK_FloatToInt = ''FloatToInt''"
| "castName CK_ArrayToPointer = ''ArrayToPointer''"
| "castName CK_NullToPointer = ''NullToPointer''"
| "castName CK_PointerCast = ''PointerCast''"
| "castName CK_PointerToInt = ''PointerToInt''"
| "castName CK_IntToPointer = ''IntToPointer''"
| "castName CK_ToVoid = ''ToVoid''"

section \<open>Lines\<close>

definition line :: "nat \<Rightarrow> string \<Rightarrow> string" where
  "line depth text = replicate (depth * 2) (CHR '' '') @ text @ [newline]"

definition typeSuffix :: "ty option \<Rightarrow> string" where
  "typeSuffix t = (case t of None \<Rightarrow> [] | Some t \<Rightarrow> CHR '' '' # quoted_text (str t))"

text \<open>\<open>std::format("{}", std::int64_t)\<close>.\<close>

definition formatInt :: "i64 \<Rightarrow> string" where
  "formatInt v = (if sint v < 0 then CHR ''-'' # dec (nat (- sint v)) else dec (nat (sint v)))"

definition exprSuffix :: "expr \<Rightarrow> string" where
  "exprSuffix e = typeSuffix (expr_type e) @ (if isLValue e then '' lvalue'' else [])"

section \<open>The dump\<close>

fun dumpExpr :: "expr \<Rightarrow> nat \<Rightarrow> string" where
  "dumpExpr (Expr n l t c) depth =
     (let suffix = exprSuffix (Expr n l t c) in
      case n of
        IntLiteral v \<Rightarrow> line depth (''IntLiteral '' @ formatInt v @ suffix)
      | FloatLiteral v \<Rightarrow> line depth (''FloatLiteral '' @ formatDouble v @ suffix)
      | StringLiteral b \<Rightarrow> line depth (''StringLiteral '' @ quote b @ suffix)
      | DeclRef x i \<Rightarrow> line depth (''DeclRef '' @ x @ suffix)
      | Unary op a \<Rightarrow> line depth (''Unary '' @ unaryName op @ suffix) @ dumpExpr a (depth + 1)
      | Binary op a b \<Rightarrow> line depth (''Binary '' @ binaryName op @ suffix) @ dumpExpr a (depth + 1) @ dumpExpr b (depth + 1)
      | Assign a b \<Rightarrow> line depth (''Assign'' @ suffix) @ dumpExpr a (depth + 1) @ dumpExpr b (depth + 1)
      | Call f args \<Rightarrow> line depth (''Call'' @ suffix) @ dumpExpr f (depth + 1) @ concat (map (\<lambda>a. dumpExpr a (depth + 1)) args)
      | Index a i \<Rightarrow> line depth (''Index'' @ suffix) @ dumpExpr a (depth + 1) @ dumpExpr i (depth + 1)
      | Cast k imp a \<Rightarrow>
          line depth (''Cast '' @ castName k @ (if imp then '' implicit'' else []) @ suffix) @ dumpExpr a (depth + 1)
      | SizeOfType u \<Rightarrow> line depth (''SizeOfType '' @ quoted_text (str u) @ suffix)
      | SizeOfExpr a \<Rightarrow> line depth (''SizeOfExpr'' @ suffix) @ dumpExpr a (depth + 1))"

fun dumpInit :: "initializer \<Rightarrow> nat \<Rightarrow> string" where
  "dumpInit (InitExpr e l) depth = dumpExpr e depth"
| "dumpInit (InitList is l) depth = line depth ''InitList'' @ concat (map (\<lambda>i. dumpInit i (depth + 1)) is)"

definition dumpVar :: "var_decl \<Rightarrow> nat \<Rightarrow> string" where
  "dumpVar v depth =
     line depth (''VarDecl '' @ vd_name v @ typeSuffix (Some (vd_type v)) @ (if vd_isConst v then '' const'' else [])) @
     (case vd_init v of None \<Rightarrow> [] | Some i \<Rightarrow> dumpInit i (depth + 1))"

fun dumpStmt :: "stmt \<Rightarrow> nat \<Rightarrow> string" where
  "dumpStmt (Stmt NullStmt l) depth = line depth ''NullStmt''"
| "dumpStmt (Stmt (ExprStmt e) l) depth = line depth ''ExprStmt'' @ dumpExpr e (depth + 1)"
| "dumpStmt (Stmt (DeclStmt vs) l) depth = line depth ''DeclStmt'' @ concat (map (\<lambda>v. dumpVar v (depth + 1)) vs)"
| "dumpStmt (Stmt (CompoundStmt body) l) depth =
     line depth ''CompoundStmt'' @ concat (map (\<lambda>st. dumpStmt st (depth + 1)) body)"
| "dumpStmt (Stmt (IfStmt c a b) l) depth =
     line depth ''IfStmt'' @ dumpExpr c (depth + 1) @ dumpStmt a (depth + 1) @
     (case b of None \<Rightarrow> [] | Some b \<Rightarrow> dumpStmt b (depth + 1))"
| "dumpStmt (Stmt (WhileStmt c a) l) depth = line depth ''WhileStmt'' @ dumpExpr c (depth + 1) @ dumpStmt a (depth + 1)"
| "dumpStmt (Stmt BreakStmt l) depth = line depth ''BreakStmt''"
| "dumpStmt (Stmt ContinueStmt l) depth = line depth ''ContinueStmt''"
| "dumpStmt (Stmt (ReturnStmt v) l) depth =
     line depth ''ReturnStmt'' @ (case v of None \<Rightarrow> [] | Some e \<Rightarrow> dumpExpr e (depth + 1))"

definition dumpFunction :: "function_decl \<Rightarrow> nat \<Rightarrow> string" where
  "dumpFunction f depth =
     line depth (''FunctionDecl '' @ fd_name f @ typeSuffix (Some (fd_type f)) @ (if fd_body f = None then '' prototype'' else [])) @
     concat (map (\<lambda>p. line (depth + 1) (''ParamDecl '' @ pd_name p @ typeSuffix (Some (pd_type p)))) (fd_params f)) @
     (case fd_body f of None \<Rightarrow> []
      | Some body \<Rightarrow> line (depth + 1) ''CompoundStmt'' @ concat (map (\<lambda>st. dumpStmt st (depth + 2)) body))"

fun dumpDecl :: "top_level_decl \<Rightarrow> nat \<Rightarrow> string" where
  "dumpDecl (TopVar v) depth = dumpVar v depth"
| "dumpDecl (TopFunction f) depth = dumpFunction f depth"

definition dumpAST :: "translation_unit \<Rightarrow> string" where
  "dumpAST tu = line 0 ''TranslationUnit'' @ concat (map (\<lambda>d. dumpDecl d 1) (tu_decls tu))"

section \<open>Outlines\<close>

text \<open>
  What a dump shows: a tree of labels. A text of indented lines is read back into the trees it
  shows, without a depth given: what follows a line belongs to it while it is indented deeper.
\<close>

datatype outline = Outline string "outline list"

fun lineList :: "nat \<Rightarrow> outline \<Rightarrow> (nat \<times> string) list" where
  "lineList d (Outline t os) = (d, t) # concat (map (lineList (d + 1)) os)"

function forest :: "(nat \<times> string) list \<Rightarrow> outline list" where
  "forest [] = []"
| "forest ((k, t) # ls) = Outline t (forest (takeWhile (\<lambda>l. k < fst l) ls)) # forest (dropWhile (\<lambda>l. k < fst l) ls)"
  by pat_completeness auto

termination
  by (relation "measure length") (auto simp: le_imp_less_Suc length_dropWhile_le length_takeWhile_le)

text \<open>Lines of a text, each with its indentation.\<close>

fun splitLines :: "string \<Rightarrow> string list" where
  "splitLines [] = []"
| "splitLines (c # s) = (if c = newline then [] # splitLines s
     else case splitLines s of [] \<Rightarrow> [[c]] | l # ls \<Rightarrow> (c # l) # ls)"

definition indented :: "string \<Rightarrow> nat \<times> string" where
  "indented l = (length (takeWhile (\<lambda>c. c = CHR '' '') l) div 2, dropWhile (\<lambda>c. c = CHR '' '') l)"

definition readOutline :: "string \<Rightarrow> outline list" where
  "readOutline s = forest (map indented (splitLines s))"

end
