(* ===== verification/DumpProps.thy ===== *)
theory DumpProps
  imports Dump
begin

text \<open>
  A dump shows the tree: one line for each node, at twice its depth, so that the text can be read
  back into the outline of the tree.
\<close>

section \<open>The outline of a tree\<close>

primrec outlineExpr :: "expr \<Rightarrow> outline" and outlineNode :: "expr_node \<Rightarrow> string \<Rightarrow> outline" where
  "outlineExpr (Expr n l t c) = outlineNode n (typeSuffix t @ (if c = LValue then '' lvalue'' else []))"
| "outlineNode (IntLiteral v) s = Outline (''IntLiteral '' @ formatInt v @ s) []"
| "outlineNode (FloatLiteral v) s = Outline (''FloatLiteral '' @ formatDouble v @ s) []"
| "outlineNode (StringLiteral b) s = Outline (''StringLiteral '' @ quote b @ s) []"
| "outlineNode (DeclRef x i) s = Outline (''DeclRef '' @ x @ s) []"
| "outlineNode (Unary op a) s = Outline (''Unary '' @ unaryName op @ s) [outlineExpr a]"
| "outlineNode (Binary op a b) s = Outline (''Binary '' @ binaryName op @ s) [outlineExpr a, outlineExpr b]"
| "outlineNode (Assign a b) s = Outline (''Assign'' @ s) [outlineExpr a, outlineExpr b]"
| "outlineNode (Call f args) s = Outline (''Call'' @ s) (outlineExpr f # map outlineExpr args)"
| "outlineNode (Index a i) s = Outline (''Index'' @ s) [outlineExpr a, outlineExpr i]"
| "outlineNode (Cast k imp a) s = Outline (''Cast '' @ castName k @ (if imp then '' implicit'' else []) @ s) [outlineExpr a]"
| "outlineNode (SizeOfType u) s = Outline (''SizeOfType '' @ quoted_text (str u) @ s) []"
| "outlineNode (SizeOfExpr a) s = Outline (''SizeOfExpr'' @ s) [outlineExpr a]"

fun outlineInit :: "initializer \<Rightarrow> outline" where
  "outlineInit (InitExpr e l) = outlineExpr e"
| "outlineInit (InitList is l) = Outline ''InitList'' (map outlineInit is)"

definition outlineVar :: "var_decl \<Rightarrow> outline" where
  "outlineVar v =
     Outline (''VarDecl '' @ vd_name v @ typeSuffix (Some (vd_type v)) @ (if vd_isConst v then '' const'' else []))
       (map outlineInit (case vd_init v of None \<Rightarrow> [] | Some i \<Rightarrow> [i]))"

fun outlineStmt :: "stmt \<Rightarrow> outline" where
  "outlineStmt (Stmt NullStmt l) = Outline ''NullStmt'' []"
| "outlineStmt (Stmt (ExprStmt e) l) = Outline ''ExprStmt'' [outlineExpr e]"
| "outlineStmt (Stmt (DeclStmt vs) l) = Outline ''DeclStmt'' (map outlineVar vs)"
| "outlineStmt (Stmt (CompoundStmt body) l) = Outline ''CompoundStmt'' (map outlineStmt body)"
| "outlineStmt (Stmt (IfStmt c a None) l) = Outline ''IfStmt'' [outlineExpr c, outlineStmt a]"
| "outlineStmt (Stmt (IfStmt c a (Some b)) l) = Outline ''IfStmt'' [outlineExpr c, outlineStmt a, outlineStmt b]"
| "outlineStmt (Stmt (WhileStmt c a) l) = Outline ''WhileStmt'' [outlineExpr c, outlineStmt a]"
| "outlineStmt (Stmt BreakStmt l) = Outline ''BreakStmt'' []"
| "outlineStmt (Stmt ContinueStmt l) = Outline ''ContinueStmt'' []"
| "outlineStmt (Stmt (ReturnStmt v) l) = Outline ''ReturnStmt'' (map outlineExpr (case v of None \<Rightarrow> [] | Some e \<Rightarrow> [e]))"

definition outlineFunction :: "function_decl \<Rightarrow> outline" where
  "outlineFunction f =
     Outline (''FunctionDecl '' @ fd_name f @ typeSuffix (Some (fd_type f)) @ (if fd_body f = None then '' prototype'' else []))
       (map (\<lambda>p. Outline (''ParamDecl '' @ pd_name p @ typeSuffix (Some (pd_type p))) []) (fd_params f) @
        (case fd_body f of None \<Rightarrow> [] | Some body \<Rightarrow> [Outline ''CompoundStmt'' (map outlineStmt body)]))"

fun outlineDecl :: "top_level_decl \<Rightarrow> outline" where
  "outlineDecl (TopVar v) = outlineVar v"
| "outlineDecl (TopFunction f) = outlineFunction f"

definition outlineUnit :: "translation_unit \<Rightarrow> outline" where
  "outlineUnit tu = Outline ''TranslationUnit'' (map outlineDecl (tu_decls tu))"

section \<open>The dump is the text of the outline\<close>

definition printLines :: "(nat \<times> string) list \<Rightarrow> string" where
  "printLines ls = concat (map (\<lambda>(d, t). line d t) ls)"

lemma printLines_simps [simp]:
  "printLines [] = []" "printLines ((d, t) # ls) = line d t @ printLines ls" "printLines (xs @ ys) = printLines xs @ printLines ys"
  by (simp_all add: printLines_def)

lemma printLines_concat: "printLines (concat (map f xs)) = concat (map (\<lambda>x. printLines (f x)) xs)"
  by (induction xs) simp_all

lemma printLines_map: "printLines (map (\<lambda>x. (d, f x)) xs) = concat (map (\<lambda>x. line d (f x)) xs)"
  by (induction xs) simp_all

lemma dumpExpr_lines: "dumpExpr e d = printLines (lineList d (outlineExpr e))"
proof (induction e d rule: dumpExpr.induct)
  case (1 n l t c d)
  show ?case
    by (cases n; insert 1; simp add: exprSuffix_def isLValue_def printLines_concat Let_def comp_def cong: map_cong)
qed

lemma dumpInit_lines: "dumpInit i d = printLines (lineList d (outlineInit i))"
  by (induction i d rule: dumpInit.induct) (simp_all add: dumpExpr_lines printLines_concat comp_def cong: map_cong)

lemma dumpVar_lines: "dumpVar v d = printLines (lineList d (outlineVar v))"
  by (simp add: dumpVar_def outlineVar_def dumpInit_lines split: option.split)

lemma dumpStmt_lines: "dumpStmt st d = printLines (lineList d (outlineStmt st))"
  by (induction st d rule: dumpStmt.induct)
    (simp_all add: dumpExpr_lines dumpVar_lines printLines_concat comp_def cong: map_cong split: option.split)

lemma dumpFunction_lines: "dumpFunction f d = printLines (lineList d (outlineFunction f))"
  by (simp add: dumpFunction_def outlineFunction_def dumpStmt_lines printLines_concat printLines_map comp_def split: option.split)

lemma dumpDecl_lines: "dumpDecl x d = printLines (lineList d (outlineDecl x))"
  by (cases x) (simp_all add: dumpVar_lines dumpFunction_lines)

lemma dumpAST_lines: "dumpAST tu = printLines (lineList 0 (outlineUnit tu))"
  by (simp add: dumpAST_def outlineUnit_def dumpDecl_lines printLines_concat comp_def)

section \<open>Reading back\<close>

lemma lineList_deep: "l \<in> set (lineList d o') \<Longrightarrow> d \<le> fst l"
  by (induction d o' arbitrary: l rule: lineList.induct) fastforce

lemma takeWhile_append_all: "(\<forall>x \<in> set xs. P x) \<Longrightarrow> takeWhile P (xs @ ys) = xs @ takeWhile P ys"
  "(\<forall>x \<in> set xs. P x) \<Longrightarrow> dropWhile P (xs @ ys) = dropWhile P ys"
  by (induction xs) auto

lemma forest_lines: "forest (concat (map (lineList d) os)) = os"
proof (induction "sum_list (map size os) + length os" arbitrary: d os rule: less_induct)
  case less
  show ?case
  proof (cases os)
    case (Cons o' os')
    obtain t kids where o': "o' = Outline t kids" by (cases o')
    let ?sub = "concat (map (lineList (Suc d)) kids)" and ?more = "concat (map (lineList d) os')"
    have deep: "\<forall>l \<in> set ?sub. d < fst l" using lineList_deep by fastforce
    have no: "takeWhile (\<lambda>l. d < fst l) ?more = []" "dropWhile (\<lambda>l. d < fst l) ?more = ?more"
      by (cases os'; cases "hd os'"; simp)+
    have "sum_list (map size kids) + length kids < sum_list (map size os) + length os"
      using Cons o' by (simp add: size_list_conv_sum_list)
    moreover have "sum_list (map size os') + length os' < sum_list (map size os) + length os" using Cons by simp
    ultimately show ?thesis
      using less [of kids "Suc d"] less [of os' d] Cons o' by (simp add: takeWhile_append_all [OF deep] no)
  qed simp
qed

definition oneLine :: "string \<Rightarrow> bool" where
  "oneLine t \<longleftrightarrow> newline \<notin> set t \<and> t \<noteq> [] \<and> hd t \<noteq> CHR '' ''"

lemma splitLines_line: "newline \<notin> set t \<Longrightarrow> splitLines (t @ newline # s) = t # splitLines s"
  by (induction t) auto

lemma indented_line: "oneLine t \<Longrightarrow> indented (replicate (d * 2) (CHR '' '') @ t) = (d, t)"
  by (cases t) (simp_all add: indented_def oneLine_def takeWhile_append_all)

lemma splitLines_print:
  "\<forall>(d, t) \<in> set ls. oneLine t \<Longrightarrow> map indented (splitLines (printLines ls)) = ls"
proof (induction ls)
  case (Cons l ls)
  obtain d t where l: "l = (d, t)" by (cases l)
  hence t: "oneLine t" using Cons.prems by simp
  have "splitLines (printLines (l # ls)) = (replicate (d * 2) (CHR '' '') @ t) # splitLines (printLines ls)"
    using t splitLines_line [of "replicate (d * 2) (CHR '' '') @ t"] by (simp add: l line_def oneLine_def)
  thus ?case using Cons by (simp add: l indented_line [OF t])
qed simp

lemma readOutline_lines: "\<forall>(d, t) \<in> set (lineList 0 o'). oneLine t \<Longrightarrow> readOutline (printLines (lineList 0 o')) = [o']"
  using forest_lines [of 0 "[o']"] by (simp add: readOutline_def splitLines_print)

section \<open>Labels\<close>

text \<open>The names that a tree prints.\<close>

primrec exprNames :: "expr \<Rightarrow> string list" and nodeNames :: "expr_node \<Rightarrow> string list" where
  "exprNames (Expr n l t c) = nodeNames n"
| "nodeNames (IntLiteral v) = []"
| "nodeNames (FloatLiteral v) = []"
| "nodeNames (StringLiteral b) = []"
| "nodeNames (DeclRef x i) = [x]"
| "nodeNames (Unary op a) = exprNames a"
| "nodeNames (Binary op a b) = exprNames a @ exprNames b"
| "nodeNames (Assign a b) = exprNames a @ exprNames b"
| "nodeNames (Call f args) = exprNames f @ concat (map exprNames args)"
| "nodeNames (Index a i) = exprNames a @ exprNames i"
| "nodeNames (Cast k imp a) = exprNames a"
| "nodeNames (SizeOfType u) = []"
| "nodeNames (SizeOfExpr a) = exprNames a"

fun initNames :: "initializer \<Rightarrow> string list" where
  "initNames (InitExpr e l) = exprNames e"
| "initNames (InitList is l) = concat (map initNames is)"

definition varNames :: "var_decl \<Rightarrow> string list" where
  "varNames v = vd_name v # (case vd_init v of None \<Rightarrow> [] | Some i \<Rightarrow> initNames i)"

fun stmtNames :: "stmt \<Rightarrow> string list" where
  "stmtNames (Stmt (ExprStmt e) l) = exprNames e"
| "stmtNames (Stmt (DeclStmt vs) l) = concat (map varNames vs)"
| "stmtNames (Stmt (CompoundStmt body) l) = concat (map stmtNames body)"
| "stmtNames (Stmt (IfStmt c a None) l) = exprNames c @ stmtNames a"
| "stmtNames (Stmt (IfStmt c a (Some b)) l) = exprNames c @ stmtNames a @ stmtNames b"
| "stmtNames (Stmt (WhileStmt c a) l) = exprNames c @ stmtNames a"
| "stmtNames (Stmt (ReturnStmt v) l) = (case v of None \<Rightarrow> [] | Some e \<Rightarrow> exprNames e)"
| "stmtNames (Stmt n l) = []"

definition functionNames :: "function_decl \<Rightarrow> string list" where
  "functionNames f = fd_name f # map pd_name (fd_params f) @
     (case fd_body f of None \<Rightarrow> [] | Some body \<Rightarrow> concat (map stmtNames body))"

fun declNames :: "top_level_decl \<Rightarrow> string list" where
  "declNames (TopVar v) = varNames v"
| "declNames (TopFunction f) = functionNames f"

text \<open>No label of an outline contains a newline, and none is empty or starts with a space.\<close>

definition flat :: "string \<Rightarrow> bool" where
  "flat s \<longleftrightarrow> newline \<notin> set s"

lemma flat_simps [simp]: "flat []" "flat (c # s) \<longleftrightarrow> c \<noteq> newline \<and> flat s" "flat (s @ t) \<longleftrightarrow> flat s \<and> flat t"
  by (auto simp: flat_def)

primrec oneLiners :: "outline \<Rightarrow> bool" where
  "oneLiners (Outline t os) \<longleftrightarrow> oneLine t \<and> list_all id (map oneLiners os)"

lemma oneLiners_lines: "oneLiners o' \<Longrightarrow> \<forall>(d, t) \<in> set (lineList k o'). oneLine t"
  by (induction k o' rule: lineList.induct) (fastforce simp: list_all_iff)

lemma dec_flat [simp]: "flat (dec n)"
  using dec_digits [of newline n] by (auto simp: flat_def byte_def)

lemma spell_flat: "flat inner \<Longrightarrow> flat (spell t inner)"
proof (induction t inner rule: spell.induct)
  case (7 r ps v inner)
  have "flat acc \<Longrightarrow> (\<And>p. p \<in> set ps \<Longrightarrow> flat (spell p [])) \<Longrightarrow>
      flat (foldl (\<lambda>acc p. (if acc \<noteq> [] then acc @ '', '' else acc) @ spell p []) acc ps)" for acc ps
    by (induction ps arbitrary: acc) auto
  hence "flat (foldl (\<lambda>acc p. (if acc \<noteq> [] then acc @ '', '' else acc) @ spell p []) [] ps)"
    using 7(1) by simp
  thus ?case using 7 by (auto simp: Let_def)
qed (auto simp: joinDeclarator_def)

lemma typeSuffix_flat [simp]: "flat (typeSuffix t)"
  by (auto simp: typeSuffix_def quoted_text_def str_def spell_flat split: option.split)

lemma quote_flat [simp]: "flat (quote b)"
proof -
  have "flat (concat (map quoteChar b))" by (induction b) (auto simp: quoteChar_def)
  thus ?thesis by (simp add: quote_def)
qed

lemma number_flat [simp]: "flat (formatInt v)" "flat (formatDouble x)"
proof -
  show "flat (formatInt v)" by (simp add: formatInt_def)
  show "flat (formatDouble x)"
    using formatDouble_floatChar [of x] by (auto simp: flat_def list_all_iff floatChar_def byte_def)
qed

lemma name_flat [simp]: "flat (unaryName u)" "flat (binaryName b)" "flat (castName k)"
  subgoal by (cases u) simp_all
  subgoal by (cases b) simp_all
  subgoal by (cases k) simp_all
  done

lemma outlineExpr_oneLiners:
  "list_all flat (exprNames e) \<Longrightarrow> oneLiners (outlineExpr e)"
  "list_all flat (nodeNames n) \<Longrightarrow> flat s \<Longrightarrow> oneLiners (outlineNode n s)"
  by (induction e and n arbitrary: and s)
    (auto simp: oneLine_def flat_def [symmetric] list_all_iff quoted_text_def str_def spell_flat)

lemma outlineInit_oneLiners: "list_all flat (initNames i) \<Longrightarrow> oneLiners (outlineInit i)"
  by (induction i rule: outlineInit.induct) (auto simp: outlineExpr_oneLiners oneLine_def list_all_iff)

lemma outlineVar_oneLiners: "list_all flat (varNames v) \<Longrightarrow> oneLiners (outlineVar v)"
  by (auto simp: varNames_def outlineVar_def outlineInit_oneLiners oneLine_def flat_def [symmetric] split: option.splits)

lemma outlineStmt_oneLiners: "list_all flat (stmtNames st) \<Longrightarrow> oneLiners (outlineStmt st)"
  by (induction st rule: outlineStmt.induct)
    (auto simp: outlineExpr_oneLiners outlineVar_oneLiners oneLine_def list_all_iff split: option.splits)

lemma outlineFunction_oneLiners: "list_all flat (functionNames f) \<Longrightarrow> oneLiners (outlineFunction f)"
proof -
  assume names: "list_all flat (functionNames f)"
  have "\<forall>st \<in> set body. oneLiners (outlineStmt st)" if "fd_body f = Some body" for body
    using names that by (intro ballI outlineStmt_oneLiners) (auto simp: functionNames_def list_all_iff)
  thus ?thesis
    using names
    by (cases "fd_body f") (auto simp: functionNames_def outlineFunction_def oneLine_def flat_def [symmetric] list_all_iff)
qed

lemma outlineUnit_oneLiners: "\<forall>d \<in> set (tu_decls tu). list_all flat (declNames d) \<Longrightarrow> oneLiners (outlineUnit tu)"
proof -
  have "list_all flat (declNames d) \<Longrightarrow> oneLiners (outlineDecl d)" for d
    by (cases d) (simp_all add: outlineVar_oneLiners outlineFunction_oneLiners)
  thus "\<forall>d \<in> set (tu_decls tu). list_all flat (declNames d) \<Longrightarrow> oneLiners (outlineUnit tu)"
    by (auto simp: outlineUnit_def oneLine_def list_all_iff)
qed

text \<open>A unit with a prototype, an array of constants and a loop: its dump has seventeen lines.\<close>

definition sample :: translation_unit where
  "sample =
     (let at0 = SourceLocation 1 1; int_expr = (\<lambda>n c. Expr n at0 (Some IntTy) c);
          one = int_expr (IntLiteral 1) RValue; n_ref = int_expr (DeclRef ''n'' 2) LValue in
      \<lparr>tu_decls =
         [TopFunction \<lparr>fd_name = ''puts'', fd_type = FunctionTy IntTy [PointerTy CharTy] False,
            fd_params = [\<lparr>pd_name = ''s'', pd_type = PointerTy CharTy, pd_isConst = False, pd_loc = at0, pd_symbol = 1\<rparr>],
            fd_body = None, fd_loc = at0, fd_symbol = 0\<rparr>,
          TopVar \<lparr>vd_name = ''a'', vd_type = ArrayTy IntTy 2, vd_isConst = True,
            vd_init = Some (InitList [InitExpr one at0, InitList [] at0] at0), vd_loc = at0, vd_symbol = 3\<rparr>,
          TopFunction \<lparr>fd_name = ''f'', fd_type = FunctionTy IntTy [IntTy] False,
            fd_params = [\<lparr>pd_name = ''n'', pd_type = IntTy, pd_isConst = False, pd_loc = at0, pd_symbol = 2\<rparr>],
            fd_body = Some
              [Stmt (WhileStmt n_ref (Stmt (ExprStmt (int_expr (Assign n_ref (int_expr (Binary BO_Sub n_ref one) RValue)) RValue)) at0)) at0,
               Stmt (ReturnStmt (Some one)) at0],
            fd_loc = at0, fd_symbol = 4\<rparr>]\<rparr>)"

text \<open>
  C38: The dump of a tree whose names have no newline can be read back: the indented lines, read
  as trees of labels, give the outline of the tree, one label for each node with its kind,
  operator or value, type and value category, and the children in order.
\<close>

theorem dump_roundtrip:
  assumes "\<forall>d \<in> set (tu_decls tu). \<forall>x \<in> set (declNames d). newline \<notin> set x"
  shows "readOutline (dumpAST tu) = [outlineUnit tu]"
  unfolding dumpAST_lines
  by (rule readOutline_lines [OF oneLiners_lines [OF outlineUnit_oneLiners]])
    (use assms in \<open>simp add: list_all_iff flat_def\<close>)

theorem dump_roundtrip_witness: "readOutline (dumpAST sample) = [outlineUnit sample]"
  by (rule dump_roundtrip) (simp add: sample_def Let_def varNames_def functionNames_def)

end
