(* ===== verification/Options.thy ===== *)
theory Options
  imports Prelude
begin

text \<open>
  \<open>lib/Driver/Options.cpp\<close>: the command line. \<open>parseArguments\<close> reads the arguments after the
  program name; its loop carries the options read so far.
\<close>

datatype action = A_Link | A_Compile | A_Assemble | A_SyntaxOnly | A_DumpTokens | A_DumpAst | A_Help | A_Version

record options =
  op_action :: action
  op_emitLLVM :: bool
  op_optLevel :: u32
  op_output :: "string option"
  op_targetTriple :: string
  op_sources :: "string list"
  op_linkerInputs :: "string list"

definition defaultOptions :: options where
  "defaultOptions = \<lparr>op_action = A_Link, op_emitLLVM = False, op_optLevel = 0, op_output = None, op_targetTriple = [],
     op_sources = [], op_linkerInputs = []\<rparr>"

definition helpText :: string where
  "helpText = concat (map (\<lambda>l. l @ [newline])
    [''OVERVIEW: jiac, the jiaLang compiler'',
     '''',
     ''USAGE: jiac [options] <inputs>'',
     '''',
     ''Inputs ending in .jia are compiled; any other input (.c, .o, .a) is passed'',
     ''to the system C compiler at link time.'',
     '''',
     ''OPTIONS:'',
     ''  -o <file>         Write output to <file> ('' @ quoted_text ''-'' @ '' for stdout with -S)'',
     ''  -c                Compile to an object file; do not link'',
     ''  -S                Compile to assembly; do not link'',
     ''  -emit-llvm        With -c, write LLVM bitcode; with -S, LLVM IR text'',
     ''  -O0 -O1 -O2 -O3   Optimization level (default -O0)'',
     ''  -fsyntax-only     Check the program and stop'',
     ''  --dump-tokens     Print the tokens of each input'',
     ''  --dump-ast        Print the typed syntax tree of each input'',
     ''  --target=<triple> Generate code for <triple> (default: the host)'',
     ''  -l<lib> -L<dir>   Passed to the linker'',
     ''  -h, --help        Show this help'',
     ''  --version         Show the version'',
     '''',
     ''ENVIRONMENT:'',
     ''  CC                The C compiler used to link (default: cc)''])"

text \<open>\<open>-O0\<close> to \<open>-O3\<close>.\<close>

definition isOptLevel :: "string \<Rightarrow> bool" where
  "isOptLevel arg \<longleftrightarrow> length arg = 3 \<and> starts_with arg ''-O'' \<and>
     schar (CHR ''0'') \<le> schar (arg ! 2) \<and> schar (arg ! 2) \<le> schar (CHR ''3'')"

fun argumentsLoop :: "options \<Rightarrow> string list \<Rightarrow> string + options" where
  "argumentsLoop opts [] = Inr opts"
| "argumentsLoop opts (arg # args) =
     (if arg = ''-h'' \<or> arg = ''--help'' then argumentsLoop (opts\<lparr>op_action := A_Help\<rparr>) args
      else if arg = ''--version'' then argumentsLoop (opts\<lparr>op_action := A_Version\<rparr>) args
      else if arg = ''-c'' then argumentsLoop (opts\<lparr>op_action := A_Compile\<rparr>) args
      else if arg = ''-S'' then argumentsLoop (opts\<lparr>op_action := A_Assemble\<rparr>) args
      else if arg = ''-fsyntax-only'' then argumentsLoop (opts\<lparr>op_action := A_SyntaxOnly\<rparr>) args
      else if arg = ''--dump-tokens'' then argumentsLoop (opts\<lparr>op_action := A_DumpTokens\<rparr>) args
      else if arg = ''--dump-ast'' then argumentsLoop (opts\<lparr>op_action := A_DumpAst\<rparr>) args
      else if arg = ''-emit-llvm'' then argumentsLoop (opts\<lparr>op_emitLLVM := True\<rparr>) args
      else if isOptLevel arg then
        argumentsLoop (opts\<lparr>op_optLevel := word_of_int (schar (arg ! 2) - schar (CHR ''0''))\<rparr>) args
      else if arg = ''-o'' then
        (case args of
           [] \<Rightarrow> Inl (''argument to '' @ quoted_text ''-o'' @ '' is missing'')
         | file # rest \<Rightarrow> argumentsLoop (opts\<lparr>op_output := Some file\<rparr>) rest)
      else if starts_with arg ''--target='' then argumentsLoop (opts\<lparr>op_targetTriple := drop 9 arg\<rparr>) args
      else if starts_with arg ''-l'' \<or> starts_with arg ''-L'' then
        argumentsLoop (opts\<lparr>op_linkerInputs := op_linkerInputs opts @ [arg]\<rparr>) args
      else if starts_with arg ''-'' \<and> arg \<noteq> ''-'' then Inl (''unknown argument: '' @ quoted_text arg)
      else if ends_with arg ''.jia'' \<or> arg = ''-'' then
        argumentsLoop (opts\<lparr>op_sources := op_sources opts @ [arg]\<rparr>) args
      else argumentsLoop (opts\<lparr>op_linkerInputs := op_linkerInputs opts @ [arg]\<rparr>) args)"

definition stopsEarly :: "options \<Rightarrow> bool" where
  "stopsEarly opts \<longleftrightarrow> op_action opts = A_Compile \<or> op_action opts = A_Assemble"

definition parseArguments :: "string list \<Rightarrow> string + options" where
  "parseArguments args =
     (case argumentsLoop defaultOptions args of
        Inl msg \<Rightarrow> Inl msg
      | Inr opts \<Rightarrow>
          if stopsEarly opts \<and> op_output opts \<noteq> None \<and> 1 < length (op_sources opts)
          then Inl (''cannot specify '' @ quoted_text ''-o'' @ '' with '' @ quoted_text ''-c'' @ '' or '' @ quoted_text ''-S'' @
            '' and multiple files'')
          else Inr opts)"

section \<open>What the arguments mean\<close>

text \<open>
  An argument, with the one that follows it for \<open>-o\<close>. Every option is one of these, and the fields
  of the result are read off the list of them: the last action, level, output and target count;
  inputs keep their order.
\<close>

datatype argument = ActionArg action | EmitArg | LevelArg nat | OutputArg string | TargetArg string
  | LinkerArg string | SourceArg string

inductive means :: "string \<Rightarrow> argument \<Rightarrow> bool" where
  "means ''-h'' (ActionArg A_Help)"
| "means ''--help'' (ActionArg A_Help)"
| "means ''--version'' (ActionArg A_Version)"
| "means ''-c'' (ActionArg A_Compile)"
| "means ''-S'' (ActionArg A_Assemble)"
| "means ''-fsyntax-only'' (ActionArg A_SyntaxOnly)"
| "means ''--dump-tokens'' (ActionArg A_DumpTokens)"
| "means ''--dump-ast'' (ActionArg A_DumpAst)"
| "means ''-emit-llvm'' EmitArg"
| "n \<le> 3 \<Longrightarrow> means (''-O'' @ dec n) (LevelArg n)"
| "means (''--target='' @ t) (TargetArg t)"
| "means (''-l'' @ l) (LinkerArg (''-l'' @ l))"
| "means (''-L'' @ l) (LinkerArg (''-L'' @ l))"
| "means ''-'' (SourceArg ''-'')"
| "\<not> starts_with f ''-'' \<Longrightarrow> ends_with f ''.jia'' \<Longrightarrow> means f (SourceArg f)"
| "\<not> starts_with f ''-'' \<Longrightarrow> \<not> ends_with f ''.jia'' \<Longrightarrow> means f (LinkerArg f)"

inductive reads :: "string list \<Rightarrow> argument list \<Rightarrow> bool" where
  reads_nil: "reads [] []"
| reads_one: "means a x \<Longrightarrow> reads as xs \<Longrightarrow> reads (a # as) (x # xs)"
| reads_output: "reads as xs \<Longrightarrow> reads (''-o'' # f # as) (OutputArg f # xs)"

fun lastOf :: "('a \<Rightarrow> 'b option) \<Rightarrow> 'b \<Rightarrow> 'a list \<Rightarrow> 'b" where
  "lastOf f d [] = d"
| "lastOf f d (x # xs) = lastOf f (case f x of None \<Rightarrow> d | Some b \<Rightarrow> b) xs"

definition optionsOf :: "argument list \<Rightarrow> options" where
  "optionsOf xs =
     \<lparr>op_action = lastOf (\<lambda>x. case x of ActionArg a \<Rightarrow> Some a | _ \<Rightarrow> None) A_Link xs,
      op_emitLLVM = (EmitArg \<in> set xs),
      op_optLevel = lastOf (\<lambda>x. case x of LevelArg n \<Rightarrow> Some (word_of_nat n) | _ \<Rightarrow> None) 0 xs,
      op_output = lastOf (\<lambda>x. case x of OutputArg f \<Rightarrow> Some (Some f) | _ \<Rightarrow> None) None xs,
      op_targetTriple = lastOf (\<lambda>x. case x of TargetArg t \<Rightarrow> Some t | _ \<Rightarrow> None) [] xs,
      op_sources = concat (map (\<lambda>x. case x of SourceArg f \<Rightarrow> [f] | _ \<Rightarrow> []) xs),
      op_linkerInputs = concat (map (\<lambda>x. case x of LinkerArg f \<Rightarrow> [f] | _ \<Rightarrow> []) xs)\<rparr>"

section \<open>The loop reads the arguments\<close>

fun applyArg :: "argument \<Rightarrow> options \<Rightarrow> options" where
  "applyArg (ActionArg a) opts = opts\<lparr>op_action := a\<rparr>"
| "applyArg EmitArg opts = opts\<lparr>op_emitLLVM := True\<rparr>"
| "applyArg (LevelArg n) opts = opts\<lparr>op_optLevel := word_of_nat n\<rparr>"
| "applyArg (OutputArg f) opts = opts\<lparr>op_output := Some f\<rparr>"
| "applyArg (TargetArg t) opts = opts\<lparr>op_targetTriple := t\<rparr>"
| "applyArg (LinkerArg f) opts = opts\<lparr>op_linkerInputs := op_linkerInputs opts @ [f]\<rparr>"
| "applyArg (SourceArg f) opts = opts\<lparr>op_sources := op_sources opts @ [f]\<rparr>"

lemma level_cases: "n \<le> 3 \<Longrightarrow> n = 0 \<or> n = 1 \<or> n = 2 \<or> n = (3 :: nat)"
  by arith

lemma optLevel_text: "n \<le> 3 \<Longrightarrow> isOptLevel (''-O'' @ dec n) \<and> word_of_int (schar ((''-O'' @ dec n) ! 2) - schar (CHR ''0'')) = (word_of_nat n :: u32)"
  by (drule level_cases, elim disjE) (simp_all add: isOptLevel_def starts_with_def dec.simps digit_char_def schar_def byte_def)

lemma isOptLevel_text: "isOptLevel arg \<Longrightarrow> \<exists>n \<le> 3. arg = ''-O'' @ dec n"
proof -
  assume a: "isOptLevel arg"
  then obtain c where arg: "arg = [CHR ''-'', CHR ''O'', c]"
    by (auto simp: isOptLevel_def starts_with_def length_Suc_conv numeral_eq_Suc)
  hence c: "48 \<le> schar c" "schar c \<le> 51" using a by (simp_all add: isOptLevel_def schar_def byte_def)
  hence b: "byte c < 128" "schar c = int (byte c)" using byte_less [of c] by (auto simp: schar_def split: if_splits)
  define n where "n = byte c - 48"
  have n: "n \<le> 3" "byte c = 48 + n" using c b by (simp_all add: n_def)
  have "digit_char n = c" using n by (simp add: digit_char_def flip: n(2))
  hence "dec n = [c]" using n(1) by (simp add: dec.simps)
  thus ?thesis using n(1) arg by auto
qed

lemma file_not_option:
  assumes "\<not> starts_with f ''-''"
  shows "f \<noteq> ''-h''" "f \<noteq> ''--help''" "f \<noteq> ''--version''" "f \<noteq> ''-c''" "f \<noteq> ''-S''" "f \<noteq> ''-fsyntax-only''"
    "f \<noteq> ''--dump-tokens''" "f \<noteq> ''--dump-ast''" "f \<noteq> ''-emit-llvm''" "\<not> isOptLevel f" "f \<noteq> ''-o''"
    "\<not> starts_with f ''--target=''" "\<not> starts_with f ''-l''" "\<not> starts_with f ''-L''" "f \<noteq> ''-''"
  using assms by (auto simp: starts_with_iff isOptLevel_def)

lemma argumentsLoop_means: "means a x \<Longrightarrow> argumentsLoop opts (a # as) = argumentsLoop (applyArg x opts) as"
proof (induction rule: means.induct)
  case (10 n)
  thus ?case using optLevel_text [of n] by simp
next
  case (15 f)
  thus ?case by (simp add: file_not_option [OF 15(1)])
next
  case (16 f)
  thus ?case by (simp add: file_not_option [OF 16(1)])
qed (simp_all add: isOptLevel_def starts_with_def ends_with_def)

lemma argumentsLoop_reads: "reads as xs \<Longrightarrow> argumentsLoop opts as = Inr (fold applyArg xs opts)"
proof (induction arbitrary: opts rule: reads.induct)
  case (reads_output as xs f)
  thus ?case by (simp add: isOptLevel_def starts_with_def)
qed (simp_all add: argumentsLoop_means del: argumentsLoop.simps(2))

text \<open>Every argument that the loop accepts is one of them.\<close>

lemma accepted_means:
  assumes "\<not> (starts_with a ''-'' \<and> a \<noteq> ''-'' \<and> \<not> (\<exists>x. means a x))"
  shows "\<exists>x. means a x"
  using assms means.intros(14-16) by (cases "starts_with a ''-''") auto

lemma argument_accepted:
  assumes ok: "argumentsLoop opts (a # as) = Inr opts'" and no: "a \<noteq> ''-o''"
  shows "\<exists>x. means a x"
proof (rule ccontr)
  assume none: "\<nexists>x. means a x"
  hence d: "starts_with a ''-''" "a \<noteq> ''-''" using accepted_means by blast+
  have "a \<noteq> ''-h''" "a \<noteq> ''--help''" "a \<noteq> ''--version''" "a \<noteq> ''-c''" "a \<noteq> ''-S''" "a \<noteq> ''-fsyntax-only''"
    "a \<noteq> ''--dump-tokens''" "a \<noteq> ''--dump-ast''" "a \<noteq> ''-emit-llvm''"
    using none means.intros(1-9) by blast+
  moreover have "\<not> isOptLevel a" using none means.intros(10) isOptLevel_text by blast
  moreover have "\<not> starts_with a ''--target=''" "\<not> starts_with a ''-l''" "\<not> starts_with a ''-L''"
    subgoal using none means.intros(11) unfolding starts_with_iff by blast
    subgoal using none means.intros(12) unfolding starts_with_iff by blast
    subgoal using none means.intros(13) unfolding starts_with_iff by blast
    done
  ultimately show False using ok no d by simp
qed

lemma argumentsLoop_accepts: "argumentsLoop opts as = Inr opts' \<Longrightarrow> \<exists>xs. reads as xs"
proof (induction as arbitrary: opts rule: length_induct)
  case (1 as)
  show ?case
  proof (cases as)
    case Nil
    thus ?thesis using reads_nil by blast
  next
    case (Cons a rest)
    show ?thesis
    proof (cases "a = ''-o''")
      case True
      then obtain f more where "rest = f # more" "argumentsLoop (opts\<lparr>op_output := Some f\<rparr>) more = Inr opts'"
        using 1(2) Cons by (cases rest) (auto simp: isOptLevel_def starts_with_def)
      moreover from this obtain xs where "reads more xs" using 1(1) Cons by fastforce
      ultimately show ?thesis using Cons True reads_output by blast
    next
      case False
      then obtain x where x: "means a x" using argument_accepted 1(2) Cons by blast
      hence "argumentsLoop (applyArg x opts) rest = Inr opts'" using 1(2) Cons argumentsLoop_means [OF x] by metis
      then obtain xs where "reads rest xs" using 1(1) Cons by fastforce
      thus ?thesis using Cons x reads_one by blast
    qed
  qed
qed

lemma fold_applyArg:
  "fold applyArg xs opts =
     \<lparr>op_action = lastOf (\<lambda>x. case x of ActionArg a \<Rightarrow> Some a | _ \<Rightarrow> None) (op_action opts) xs,
      op_emitLLVM = (op_emitLLVM opts \<or> EmitArg \<in> set xs),
      op_optLevel = lastOf (\<lambda>x. case x of LevelArg n \<Rightarrow> Some (word_of_nat n) | _ \<Rightarrow> None) (op_optLevel opts) xs,
      op_output = lastOf (\<lambda>x. case x of OutputArg f \<Rightarrow> Some (Some f) | _ \<Rightarrow> None) (op_output opts) xs,
      op_targetTriple = lastOf (\<lambda>x. case x of TargetArg t \<Rightarrow> Some t | _ \<Rightarrow> None) (op_targetTriple opts) xs,
      op_sources = op_sources opts @ concat (map (\<lambda>x. case x of SourceArg f \<Rightarrow> [f] | _ \<Rightarrow> []) xs),
      op_linkerInputs = op_linkerInputs opts @ concat (map (\<lambda>x. case x of LinkerArg f \<Rightarrow> [f] | _ \<Rightarrow> []) xs)\<rparr>"
proof (induction xs arbitrary: opts)
  case (Cons x xs)
  show ?case by (cases x) (simp_all add: Cons.IH)
qed simp

lemma fold_applyArg_default: "fold applyArg xs defaultOptions = optionsOf xs"
  by (simp add: fold_applyArg defaultOptions_def optionsOf_def)

definition conflicting :: "options \<Rightarrow> bool" where
  "conflicting opts \<longleftrightarrow> stopsEarly opts \<and> op_output opts \<noteq> None \<and> 1 < length (op_sources opts)"

text \<open>
  C39: A command line is accepted exactly when every argument is an option or an input, each \<open>-o\<close>
  has its file, and \<open>-o\<close> is not combined with several sources and \<open>-c\<close> or \<open>-S\<close>; the result then has
  the last action, level, output and target that were given and the inputs in their order.
\<close>

theorem arguments_meaning:
  "parseArguments args = Inr opts \<longleftrightarrow> (\<exists>xs. reads args xs \<and> opts = optionsOf xs \<and> \<not> conflicting opts)"
proof
  assume a: "parseArguments args = Inr opts"
  hence l: "argumentsLoop defaultOptions args = Inr opts" and c: "\<not> conflicting opts"
    by (auto simp: parseArguments_def conflicting_def split: sum.splits if_splits)
  obtain xs where "reads args xs" using argumentsLoop_accepts [OF l] by blast
  thus "\<exists>xs. reads args xs \<and> opts = optionsOf xs \<and> \<not> conflicting opts"
    using l c argumentsLoop_reads [of args xs defaultOptions] by (auto simp: fold_applyArg_default)
next
  assume "\<exists>xs. reads args xs \<and> opts = optionsOf xs \<and> \<not> conflicting opts"
  thus "parseArguments args = Inr opts"
    using argumentsLoop_reads [of args _ defaultOptions]
    by (auto simp: parseArguments_def conflicting_def fold_applyArg_default)
qed

end
