(* ===== verification/CodeGen.thy ===== *)
theory CodeGen
  imports ConstEval "HOL-Library.Monad_Syntax"
begin

text \<open>
  \<open>lib/CodeGen/CodeGen.cpp\<close>: from the typed tree to LLVM IR. LLVM is not part of the sources: it
  is the parameter \<open>ll\<close> of the definitions, a record of the functions that the code calls, over
  any type \<open>'v\<close> of values, blocks and functions and any type \<open>'m\<close> of the state of a module under
  construction with its builder. Every call that creates something is a \<open>request\<close>, named after the
  function of LLVM with its arguments; LLVM answers it with a handle.

  A generator takes the state of the \<open>ModuleBuilder\<close> and returns a value and the new state. It is
  \<open>None\<close> where the code has undefined behaviour: a failed assertion, a null pointer that is used,
  the last element of an empty list.
\<close>

section \<open>What the code uses of LLVM\<close>

datatype ll_type = LL_Void | LL_Int nat | LL_Float | LL_Double | LL_Ptr | LL_Array ll_type u64
  | LL_Function (ll_return: ll_type) (ll_params: "ll_type list") bool

datatype linkage = ExternalLinkage | PrivateLinkage

datatype predicate = ICMP_EQ | ICMP_NE | ICMP_SLT | ICMP_SGT | ICMP_SLE | ICMP_SGE | ICMP_ULT | ICMP_UGT | ICMP_ULE
  | ICMP_UGE | FCMP_OEQ | FCMP_UNE | FCMP_OLT | FCMP_OGT | FCMP_OLE | FCMP_OGE

datatype unop = U_FNeg | U_Neg | U_Not | U_IsNotNull

datatype conversion = ZExt | SExt | Trunc | SExtOrTrunc | SIToFP | FPToSI | FPExt | PtrToInt | IntToPtr

datatype arith = Add | FAdd | Sub | FSub | Mul | FMul | SDiv | FDiv | SRem

datatype (plugins only: code size) 'v request =
    GetNullValue ll_type
  | GetSigned ll_type i64
  | GetFP ll_type fp
  | GetNullPointer
  | GetString string bool
  | GetConstantArray ll_type "'v list"
  | GetInt1 bool
  | NewGlobal ll_type bool linkage 'v string
  | SetUnnamedAddr 'v
  | NewFunction ll_type linkage string
  | SetName 'v string
  | NewBlock string "'v option"
  | InsertInto 'v 'v
  | SetInsertPoint 'v
  | Alloca 'v ll_type string
  | Load ll_type 'v
  | Store 'v 'v
  | Unop unop 'v
  | Arith arith 'v 'v
  | Cmp predicate 'v 'v
  | Convert conversion 'v ll_type
  | InBoundsGEP ll_type 'v 'v
  | ConstInBoundsGEP2 ll_type 'v nat nat
  | PtrDiff ll_type 'v 'v
  | CallFunction ll_type 'v "'v list"
  | PHI ll_type nat
  | AddIncoming 'v 'v 'v
  | Br 'v
  | CondBr 'v 'v 'v
  | Ret 'v
  | RetVoid

text \<open>The instructions that end a block.\<close>

fun isTerminator :: "'v request \<Rightarrow> bool" where
  "isTerminator (Br b) = True"
| "isTerminator (CondBr c a b) = True"
| "isTerminator (Ret v) = True"
| "isTerminator RetVoid = True"
| "isTerminator _ = False"

record ('v, 'm) llvm =
  lv_newModule :: "string \<Rightarrow> 'm"
  lv_build :: "'v request \<Rightarrow> 'm \<Rightarrow> 'v \<times> 'm"
  lv_insertBlock :: "'m \<Rightarrow> 'v"
  lv_instructions :: "'m \<Rightarrow> 'v \<Rightarrow> 'v request list"
  lv_entryBlock :: "'m \<Rightarrow> 'v \<Rightarrow> 'v"
  lv_args :: "'m \<Rightarrow> 'v \<Rightarrow> 'v list"
  lv_type :: "'m \<Rightarrow> 'v \<Rightarrow> ll_type"
  lv_functionType :: "'m \<Rightarrow> 'v \<Rightarrow> ll_type"
  lv_isFunction :: "'m \<Rightarrow> 'v \<Rightarrow> bool"
  lv_isConstant :: "'m \<Rightarrow> 'v \<Rightarrow> bool"
  lv_verify :: "'m \<Rightarrow> string option"

section \<open>State\<close>

record ('v, 'm) codegen =
  cg_module :: 'm
  cg_fn :: "'v option"
  cg_values :: "symbol_id \<rightharpoonup> 'v"
  cg_strings :: "string \<rightharpoonup> 'v"
  cg_loops :: "('v \<times> 'v) list"

type_synonym ('a, 'v, 'm) gen = "('v, 'm) codegen \<Rightarrow> ('a \<times> ('v, 'm) codegen) option"

definition build :: "('v, 'm) llvm \<Rightarrow> 'v request \<Rightarrow> ('v, 'v, 'm) gen" where
  "build ll r s = (case lv_build ll r (cg_module s) of (v, m) \<Rightarrow> Some (v, s\<lparr>cg_module := m\<rparr>))"

text \<open>A request whose answer is not used.\<close>

definition perform :: "('v, 'm) llvm \<Rightarrow> 'v request \<Rightarrow> (unit, 'v, 'm) gen" where
  "perform ll r s = do { (v, s) \<leftarrow> build ll r s; Some ((), s) }"

definition isTerminated :: "('v, 'm) llvm \<Rightarrow> 'm \<Rightarrow> 'v \<Rightarrow> bool" where
  "isTerminated ll m b \<longleftrightarrow> lv_instructions ll m b \<noteq> [] \<and> isTerminator (last (lv_instructions ll m b))"

text \<open>\<open>rvalue\<close> can return a null pointer; \<open>need\<close> is a use of its result, \<open>valued\<close> a result that is not null.\<close>

definition need :: "'v option \<times> ('v, 'm) codegen \<Rightarrow> ('v \<times> ('v, 'm) codegen) option" where
  "need p = (case p of (v, s) \<Rightarrow> map_option (\<lambda>v. (v, s)) v)"

definition valued :: "('v, 'v, 'm) gen \<Rightarrow> ('v option, 'v, 'm) gen" where
  "valued g s = map_option (\<lambda>(v, s). (Some v, s)) (g s)"

section \<open>Types\<close>

fun lower :: "ty \<Rightarrow> ll_type" where
  "lower VoidTy = LL_Void"
| "lower CharTy = LL_Int 8"
| "lower IntTy = LL_Int 32"
| "lower FloatTy = LL_Float"
| "lower (PointerTy t) = LL_Ptr"
| "lower (ArrayTy t n) = LL_Array (lower t) n"
| "lower (FunctionTy r ps v) = LL_Function (lower r) (map lower ps) v"

section \<open>Expressions\<close>

definition stringLiteral :: "('v, 'm) llvm \<Rightarrow> string \<Rightarrow> ('v, 'v, 'm) gen" where
  "stringLiteral ll bytes s =
     (case cg_strings s bytes of
        Some v \<Rightarrow> Some (v, s)
      | None \<Rightarrow> do {
          (data, s) \<leftarrow> build ll (GetString bytes True) s;
          (v, s) \<leftarrow> build ll (NewGlobal (lv_type ll (cg_module s) data) True PrivateLinkage data ''.str'') s;
          let s = s\<lparr>cg_strings := (cg_strings s)(bytes \<mapsto> v)\<rparr>;
          (_, s) \<leftarrow> perform ll (SetUnnamedAddr v) s;
          Some (v, s) })"

definition valueOf :: "symbol_id \<Rightarrow> ('v, 'v, 'm) gen" where
  "valueOf i s = map_option (\<lambda>v. (v, s)) (cg_values s i)"

definition toInt :: "('v, 'm) llvm \<Rightarrow> 'v \<Rightarrow> ('v, 'v, 'm) gen" where
  "toInt ll flag = build ll (Convert ZExt flag (LL_Int 32))"

text \<open>\<open>condition\<close>, after its operand.\<close>

definition isNonzero :: "('v, 'm) llvm \<Rightarrow> ty option \<Rightarrow> 'v \<Rightarrow> ('v, 'v, 'm) gen" where
  "isNonzero ll t v s = do {
     ty \<leftarrow> t;
     if ty = FloatTy then do {
       (zero, s) \<leftarrow> build ll (GetFP (lv_type ll (cg_module s) v) fp_zero) s;
       build ll (Cmp FCMP_UNE v zero) s }
     else build ll (Unop U_IsNotNull v) s }"

text \<open>\<open>unary\<close>, for the generators of its operand as an rvalue, as an lvalue and as a condition.\<close>

definition unaryCode :: "('v, 'm) llvm \<Rightarrow> unary_op \<Rightarrow> ty option \<Rightarrow> ('v option, 'v, 'm) gen \<Rightarrow> ('v, 'v, 'm) gen \<Rightarrow>
    ('v, 'v, 'm) gen \<Rightarrow> ('v option, 'v, 'm) gen" where
  "unaryCode ll op t operand address cond s =
     (case op of
        UO_Plus \<Rightarrow> operand s
      | UO_Minus \<Rightarrow> do {
          (v, s) \<leftarrow> operand s \<bind> need;
          ty \<leftarrow> t;
          valued (build ll (Unop (if ty = FloatTy then U_FNeg else U_Neg) v)) s }
      | UO_Not \<Rightarrow> do { (v, s) \<leftarrow> cond s; (v, s) \<leftarrow> build ll (Unop U_Not v) s; valued (toInt ll v) s }
      | UO_Deref \<Rightarrow> do { (v, s) \<leftarrow> operand s \<bind> need; ty \<leftarrow> t; valued (build ll (Load (lower ty) v)) s }
      | UO_AddrOf \<Rightarrow> valued address s)"

text \<open>A block is inserted into the function and becomes the insertion point.\<close>

definition startBlock :: "('v, 'm) llvm \<Rightarrow> 'v \<Rightarrow> (unit, 'v, 'm) gen" where
  "startBlock ll bb s = do {
     f \<leftarrow> cg_fn s;
     (_, s) \<leftarrow> perform ll (InsertInto bb f) s;
     perform ll (SetInsertPoint bb) s }"

definition logicalCode :: "('v, 'm) llvm \<Rightarrow> bool \<Rightarrow> ('v, 'v, 'm) gen \<Rightarrow> ('v, 'v, 'm) gen \<Rightarrow> ('v, 'v, 'm) gen" where
  "logicalCode ll isAnd left right s = do {
     (lhs, s) \<leftarrow> left s;
     let lhsEnd = lv_insertBlock ll (cg_module s);
     (rhsBB, s) \<leftarrow> build ll (NewBlock (if isAnd then ''land.rhs'' else ''lor.rhs'') None) s;
     (endBB, s) \<leftarrow> build ll (NewBlock (if isAnd then ''land.end'' else ''lor.end'') None) s;
     (_, s) \<leftarrow> perform ll (if isAnd then CondBr lhs rhsBB endBB else CondBr lhs endBB rhsBB) s;
     (_, s) \<leftarrow> startBlock ll rhsBB s;
     (rhs, s) \<leftarrow> right s;
     let rhsEnd = lv_insertBlock ll (cg_module s);
     (_, s) \<leftarrow> perform ll (Br endBB) s;
     (_, s) \<leftarrow> startBlock ll endBB s;
     (phi, s) \<leftarrow> build ll (PHI (LL_Int 1) 2) s;
     (known, s) \<leftarrow> build ll (GetInt1 (\<not> isAnd)) s;
     (_, s) \<leftarrow> perform ll (AddIncoming phi known lhsEnd) s;
     (_, s) \<leftarrow> perform ll (AddIncoming phi rhs rhsEnd) s;
     toInt ll phi s }"

fun arithRequest :: "binary_op \<Rightarrow> bool \<Rightarrow> arith option" where
  "arithRequest BO_Add isFloat = Some (if isFloat then FAdd else Add)"
| "arithRequest BO_Sub isFloat = Some (if isFloat then FSub else Sub)"
| "arithRequest BO_Mul isFloat = Some (if isFloat then FMul else Mul)"
| "arithRequest BO_Div isFloat = Some (if isFloat then FDiv else SDiv)"
| "arithRequest BO_Rem isFloat = Some SRem"
| "arithRequest _ isFloat = None"

fun comparePredicate :: "binary_op \<Rightarrow> bool \<Rightarrow> bool \<Rightarrow> predicate" where
  "comparePredicate BO_Lt isFloat isPtr = (if isFloat then FCMP_OLT else if isPtr then ICMP_ULT else ICMP_SLT)"
| "comparePredicate BO_Gt isFloat isPtr = (if isFloat then FCMP_OGT else if isPtr then ICMP_UGT else ICMP_SGT)"
| "comparePredicate BO_Le isFloat isPtr = (if isFloat then FCMP_OLE else if isPtr then ICMP_ULE else ICMP_SLE)"
| "comparePredicate BO_Ge isFloat isPtr = (if isFloat then FCMP_OGE else if isPtr then ICMP_UGE else ICMP_SGE)"
| "comparePredicate BO_Eq isFloat isPtr = (if isFloat then FCMP_OEQ else ICMP_EQ)"
| "comparePredicate BO_Ne isFloat isPtr = (if isFloat then FCMP_UNE else ICMP_NE)"
| "comparePredicate _ isFloat isPtr = ICMP_EQ"

text \<open>\<open>binary\<close>, after its operands, of the types \<open>lt\<close> and \<open>rt\<close>.\<close>

definition binaryCode :: "('v, 'm) llvm \<Rightarrow> binary_op \<Rightarrow> ty \<Rightarrow> ty \<Rightarrow> 'v \<Rightarrow> 'v \<Rightarrow> ('v, 'v, 'm) gen" where
  "binaryCode ll op lt rt l r s =
     (if isPointer lt \<and> (op = BO_Add \<or> (op = BO_Sub \<and> \<not> isPointer rt)) then do {
        (offset, s) \<leftarrow> build ll (Convert SExt r (LL_Int 64)) s;
        (offset, s) \<leftarrow> (if op = BO_Sub then build ll (Unop U_Neg offset) s else Some (offset, s));
        build ll (InBoundsGEP (lower (pointee lt)) l offset) s }
      else if isPointer lt \<and> op = BO_Sub then do {
        (d, s) \<leftarrow> build ll (PtrDiff (lower (pointee lt)) l r) s;
        build ll (Convert Trunc d (LL_Int 32)) s }
      else case arithRequest op (lt = FloatTy) of
        Some a \<Rightarrow> build ll (Arith a l r) s
      | None \<Rightarrow> do {
          (flag, s) \<leftarrow> build ll (Cmp (comparePredicate op (lt = FloatTy) (isPointer lt)) l r) s;
          toInt ll flag s })"

text \<open>\<open>cast\<close>, for the generators of its operand as an rvalue and as an lvalue.\<close>

definition castCode :: "('v, 'm) llvm \<Rightarrow> cast_kind \<Rightarrow> ty option \<Rightarrow> ('v option, 'v, 'm) gen \<Rightarrow> ('v, 'v, 'm) gen \<Rightarrow>
    ('v option, 'v, 'm) gen" where
  "castCode ll k t operand address s =
     (if k = CK_ArrayToPointer then valued address s
      else if k = CK_NullToPointer then valued (build ll GetNullPointer) s
      else do {
        (v, s) \<leftarrow> operand s;
        ty \<leftarrow> t;
        case k of
          CK_NoOp \<Rightarrow> Some (v, s)
        | CK_PointerCast \<Rightarrow> Some (v, s)
        | CK_IntegralCast \<Rightarrow> do { (v, s) \<leftarrow> need (v, s); valued (build ll (Convert SExtOrTrunc v (lower ty))) s }
        | CK_IntToFloat \<Rightarrow> do { (v, s) \<leftarrow> need (v, s); valued (build ll (Convert SIToFP v (lower ty))) s }
        | CK_FloatToInt \<Rightarrow> do { (v, s) \<leftarrow> need (v, s); valued (build ll (Convert FPToSI v (lower ty))) s }
        | CK_PointerToInt \<Rightarrow> do { (v, s) \<leftarrow> need (v, s); valued (build ll (Convert PtrToInt v (lower ty))) s }
        | CK_IntToPointer \<Rightarrow> do {
            (v, s) \<leftarrow> need (v, s);
            (v, s) \<leftarrow> build ll (Convert SExt v (LL_Int 64)) s;
            valued (build ll (Convert IntToPtr v (lower ty))) s }
        | CK_ToVoid \<Rightarrow> Some (None, s)
        | _ \<Rightarrow> None })"

text \<open>The function that a call names.\<close>

definition callee :: "('v, 'm) llvm \<Rightarrow> expr \<Rightarrow> ('v, 'v, 'm) gen" where
  "callee ll f s =
     (case node f of
        DeclRef x i \<Rightarrow> do { (v, s) \<leftarrow> valueOf i s; if lv_isFunction ll (cg_module s) v then Some (v, s) else None }
      | _ \<Rightarrow> None)"

function rvalue :: "('v, 'm) llvm \<Rightarrow> expr \<Rightarrow> ('v option, 'v, 'm) gen"
and lvalue :: "('v, 'm) llvm \<Rightarrow> expr \<Rightarrow> ('v, 'v, 'm) gen"
and condition :: "('v, 'm) llvm \<Rightarrow> expr \<Rightarrow> ('v, 'v, 'm) gen"
and callArgs :: "('v, 'm) llvm \<Rightarrow> nat \<Rightarrow> nat \<Rightarrow> expr list \<Rightarrow> ('v list, 'v, 'm) gen" where
  "rvalue ll (Expr n l t c) = (\<lambda>s.
     case n of
       IntLiteral v \<Rightarrow> do { ty \<leftarrow> t; valued (build ll (GetSigned (lower ty) v)) s }
     | FloatLiteral v \<Rightarrow> do { ty \<leftarrow> t; valued (build ll (GetFP (lower ty) v)) s }
     | StringLiteral b \<Rightarrow> valued (stringLiteral ll b) s
     | DeclRef x i \<Rightarrow> do { (address, s) \<leftarrow> valueOf i s; ty \<leftarrow> t; valued (build ll (Load (lower ty) address)) s }
     | Unary op x \<Rightarrow> unaryCode ll op t (rvalue ll x) (lvalue ll x) (condition ll x) s
     | Binary op a b \<Rightarrow>
         if op = BO_LogAnd \<or> op = BO_LogOr then valued (logicalCode ll (op = BO_LogAnd) (condition ll a) (condition ll b)) s
         else do {
           lt \<leftarrow> expr_type a;
           (l, s) \<leftarrow> rvalue ll a s \<bind> need;
           (r, s) \<leftarrow> rvalue ll b s \<bind> need;
           rt \<leftarrow> expr_type b;
           valued (binaryCode ll op lt rt l r) s }
     | Assign a b \<Rightarrow> do {
         (v, s) \<leftarrow> rvalue ll b s \<bind> need;
         (address, s) \<leftarrow> lvalue ll a s;
         (_, s) \<leftarrow> perform ll (Store v address) s;
         Some (Some v, s) }
     | Call f args \<Rightarrow> do {
         (fn, s) \<leftarrow> callee ll f s;
         (vs, s) \<leftarrow> callArgs ll (length (ll_params (lv_functionType ll (cg_module s) fn))) 0 args s;
         valued (build ll (CallFunction (lv_functionType ll (cg_module s) fn) fn vs)) s }
     | Index a i \<Rightarrow> Some (None, s)
     | Cast k imp x \<Rightarrow> castCode ll k t (rvalue ll x) (lvalue ll x) s
     | SizeOfType u \<Rightarrow> Some (None, s)
     | SizeOfExpr x \<Rightarrow> Some (None, s))"
| "lvalue ll (Expr n l t c) = (\<lambda>s.
     case n of
       DeclRef x i \<Rightarrow> valueOf i s
     | Unary op x \<Rightarrow> if op = UO_Deref then rvalue ll x s \<bind> need else None
     | StringLiteral b \<Rightarrow> stringLiteral ll b s
     | _ \<Rightarrow> None)"
| "condition ll e = (\<lambda>s. do {
     (v, s) \<leftarrow> rvalue ll e s \<bind> need;
     isNonzero ll (expr_type e) v s })"
| "callArgs ll fixed i [] = (\<lambda>s. Some ([], s))"
| "callArgs ll fixed i (a # as) = (\<lambda>s. do {
     (v, s) \<leftarrow> rvalue ll a s \<bind> need;
     (v, s) \<leftarrow> (if fixed \<le> i \<and> lv_type ll (cg_module s) v = LL_Float then build ll (Convert FPExt v LL_Double) s else Some (v, s));
     (vs, s) \<leftarrow> callArgs ll fixed (i + 1) as s;
     Some (v # vs, s) })"
  by pat_completeness auto

termination
  by (relation "measure (\<lambda>x. case x of
        Inl (Inl (ll, e)) \<Rightarrow> 2 * size e
      | Inl (Inr (ll, e)) \<Rightarrow> 2 * size e
      | Inr (Inl (ll, e)) \<Rightarrow> 2 * size e + 1
      | Inr (Inr (ll, k, i, as)) \<Rightarrow> 2 * size_list size as)") auto

section \<open>Initializers\<close>

text \<open>\<open>bytes.resize(length)\<close>.\<close>

definition charArrayBytes :: "ty \<Rightarrow> string \<Rightarrow> string" where
  "charArrayBytes t bytes =
     (let n = unat (array_length t) in take n bytes @ replicate (n - length bytes) nul)"

definition charArray :: "('v, 'm) llvm \<Rightarrow> ty \<Rightarrow> expr \<Rightarrow> ('v, 'v, 'm) gen" where
  "charArray ll t e s =
     (case node e of StringLiteral b \<Rightarrow> build ll (GetString (charArrayBytes t b) False) s | _ \<Rightarrow> None)"

fun localInit :: "('v, 'm) llvm \<Rightarrow> 'v \<Rightarrow> ty \<Rightarrow> initializer \<Rightarrow> (unit, 'v, 'm) gen"
and localInits :: "('v, 'm) llvm \<Rightarrow> 'v \<Rightarrow> ty \<Rightarrow> nat \<Rightarrow> initializer list \<Rightarrow> (unit, 'v, 'm) gen" where
  "localInit ll address t (InitExpr e l) = (\<lambda>s.
     if isArray t then do { (v, s) \<leftarrow> charArray ll t e s; perform ll (Store v address) s }
     else do { (v, s) \<leftarrow> rvalue ll e s \<bind> need; perform ll (Store v address) s })"
| "localInit ll address t (InitList is l) = (\<lambda>s.
     if isArray t then do {
       (zero, s) \<leftarrow> build ll (GetNullValue (lower t)) s;
       (_, s) \<leftarrow> perform ll (Store zero address) s;
       localInits ll address t 0 is s }
     else case is of [] \<Rightarrow> None | i # _ \<Rightarrow> localInit ll address t i s)"
| "localInits ll address t k [] = (\<lambda>s. Some ((), s))"
| "localInits ll address t k (i # is) = (\<lambda>s. do {
     (v, s) \<leftarrow> build ll (ConstInBoundsGEP2 (lower t) address 0 k) s;
     (_, s) \<leftarrow> localInit ll v (element t) i s;
     localInits ll address t (k + 1) is s })"

text \<open>\<open>llvm::cast<llvm::Constant>\<close>.\<close>

definition asConstant :: "('v, 'm) llvm \<Rightarrow> 'v \<times> ('v, 'm) codegen \<Rightarrow> ('v \<times> ('v, 'm) codegen) option" where
  "asConstant ll p = (case p of (v, s) \<Rightarrow> if lv_isConstant ll (cg_module s) v then Some (v, s) else None)"

fun constantNumber :: "(fp \<Rightarrow> i64) \<Rightarrow> ll_type \<Rightarrow> const_value \<Rightarrow> 'v request" where
  "constantNumber ub t (IntC i) = (if t = LL_Float then GetFP t (fp_of_int (sint i)) else GetSigned t i)"
| "constantNumber ub t (DoubleC d) = (if t = LL_Float then GetFP t d else GetSigned t (double_to_i64 ub d))"

fun constantExpr :: "('v, 'm) llvm \<Rightarrow> (fp \<Rightarrow> i64) \<Rightarrow> expr \<Rightarrow> ('v, 'v, 'm) gen" where
  "constantExpr ll ub (Expr n l t c) = (\<lambda>s.
     case evaluateConstant ub (Expr n l t c) of
       Some v \<Rightarrow> do { ty \<leftarrow> t; build ll (constantNumber ub (lower ty) v) s }
     | None \<Rightarrow>
         (case n of
            Cast k imp x \<Rightarrow>
              if k = CK_NullToPointer then build ll GetNullPointer s
              else if k = CK_PointerCast then constantExpr ll ub x s
              else if k = CK_ArrayToPointer then lvalue ll x s \<bind> asConstant ll
              else None
          | Unary op x \<Rightarrow> if op = UO_AddrOf then lvalue ll x s \<bind> asConstant ll else None
          | _ \<Rightarrow> None))"

fun zeros :: "('v, 'm) llvm \<Rightarrow> ll_type \<Rightarrow> nat \<Rightarrow> ('v list, 'v, 'm) gen" where
  "zeros ll t 0 = (\<lambda>s. Some ([], s))"
| "zeros ll t (Suc n) = (\<lambda>s. do {
     (v, s) \<leftarrow> build ll (GetNullValue t) s;
     (vs, s) \<leftarrow> zeros ll t n s;
     Some (v # vs, s) })"

fun constantInit :: "('v, 'm) llvm \<Rightarrow> (fp \<Rightarrow> i64) \<Rightarrow> ty \<Rightarrow> initializer \<Rightarrow> ('v, 'v, 'm) gen"
and constantElems :: "('v, 'm) llvm \<Rightarrow> (fp \<Rightarrow> i64) \<Rightarrow> ty \<Rightarrow> nat \<Rightarrow> initializer list \<Rightarrow> ('v list, 'v, 'm) gen" where
  "constantInit ll ub t (InitExpr e l) = (if isArray t then charArray ll t e else constantExpr ll ub e)"
| "constantInit ll ub t (InitList is l) = (\<lambda>s.
     if isArray t then do {
       (vs, s) \<leftarrow> constantElems ll ub (element t) (unat (array_length t)) is s;
       build ll (GetConstantArray (lower t) vs) s }
     else case is of [] \<Rightarrow> None | i # _ \<Rightarrow> constantInit ll ub t i s)"
| "constantElems ll ub t n (i # is) = (\<lambda>s.
     if n = 0 then Some ([], s)
     else do {
       (v, s) \<leftarrow> constantInit ll ub t i s;
       (vs, s) \<leftarrow> constantElems ll ub t (n - 1) is s;
       Some (v # vs, s) })"
| "constantElems ll ub t n [] = zeros ll (lower t) n"

section \<open>Statements\<close>

definition stackSlot :: "('v, 'm) llvm \<Rightarrow> ty \<Rightarrow> string \<Rightarrow> ('v, 'v, 'm) gen" where
  "stackSlot ll t x s = do {
     f \<leftarrow> cg_fn s;
     build ll (Alloca (lv_entryBlock ll (cg_module s) f) (lower t) x) s }"

definition branchTo :: "('v, 'm) llvm \<Rightarrow> 'v \<Rightarrow> (unit, 'v, 'm) gen" where
  "branchTo ll target s =
     (if isTerminated ll (cg_module s) (lv_insertBlock ll (cg_module s)) then Some ((), s) else perform ll (Br target) s)"

definition startDeadBlock :: "('v, 'm) llvm \<Rightarrow> (unit, 'v, 'm) gen" where
  "startDeadBlock ll s = do { (bb, s) \<leftarrow> build ll (NewBlock ''dead'' None) s; startBlock ll bb s }"

text \<open>A jump to the \<open>continueTo\<close> or the \<open>breakTo\<close> of the innermost loop.\<close>

definition jumpTo :: "('v, 'm) llvm \<Rightarrow> ('v \<times> 'v \<Rightarrow> 'v) \<Rightarrow> (unit, 'v, 'm) gen" where
  "jumpTo ll target s =
     (if cg_loops s = [] then None
      else do { (_, s) \<leftarrow> perform ll (Br (target (last (cg_loops s)))) s; startDeadBlock ll s })"

definition emitVar :: "('v, 'm) llvm \<Rightarrow> var_decl \<Rightarrow> (unit, 'v, 'm) gen" where
  "emitVar ll v s = do {
     (slot, s) \<leftarrow> stackSlot ll (vd_type v) (vd_name v) s;
     let s = s\<lparr>cg_values := (cg_values s)(vd_symbol v \<mapsto> slot)\<rparr>;
     (case vd_init v of None \<Rightarrow> Some ((), s) | Some i \<Rightarrow> localInit ll slot (vd_type v) i s) }"

fun emitVars :: "('v, 'm) llvm \<Rightarrow> var_decl list \<Rightarrow> (unit, 'v, 'm) gen" where
  "emitVars ll [] = (\<lambda>s. Some ((), s))"
| "emitVars ll (v # vs) = (\<lambda>s. do { (_, s) \<leftarrow> emitVar ll v s; emitVars ll vs s })"

definition emitReturn :: "('v, 'm) llvm \<Rightarrow> expr option \<Rightarrow> (unit, 'v, 'm) gen" where
  "emitReturn ll value s =
     (case value of
        None \<Rightarrow> do { (_, s) \<leftarrow> perform ll RetVoid s; startDeadBlock ll s }
      | Some e \<Rightarrow> do {
          t \<leftarrow> expr_type e;
          if \<not> isVoid t then do {
            (v, s) \<leftarrow> rvalue ll e s \<bind> need;
            (_, s) \<leftarrow> perform ll (Ret v) s;
            startDeadBlock ll s }
          else do {
            (_, s) \<leftarrow> rvalue ll e s;
            (_, s) \<leftarrow> perform ll RetVoid s;
            startDeadBlock ll s } })"

text \<open>The code of an \<open>if\<close> and of a \<open>while\<close>, for the generators of their parts.\<close>

definition emitIf :: "('v, 'm) llvm \<Rightarrow> ('v, 'v, 'm) gen \<Rightarrow> (unit, 'v, 'm) gen \<Rightarrow> (unit, 'v, 'm) gen option \<Rightarrow>
    (unit, 'v, 'm) gen" where
  "emitIf ll cond yes no s = do {
     (thenBB, s) \<leftarrow> build ll (NewBlock ''if.then'' None) s;
     (elseBB, s) \<leftarrow> (if no = None then Some (thenBB, s) else build ll (NewBlock ''if.else'' None) s);
     (endBB, s) \<leftarrow> build ll (NewBlock ''if.end'' None) s;
     (v, s) \<leftarrow> cond s;
     (_, s) \<leftarrow> perform ll (CondBr v thenBB (if no = None then endBB else elseBB)) s;
     (_, s) \<leftarrow> startBlock ll thenBB s;
     (_, s) \<leftarrow> yes s;
     (_, s) \<leftarrow> branchTo ll endBB s;
     (_, s) \<leftarrow> (case no of None \<Rightarrow> Some ((), s)
       | Some g \<Rightarrow> do { (_, s) \<leftarrow> startBlock ll elseBB s; (_, s) \<leftarrow> g s; branchTo ll endBB s });
     startBlock ll endBB s }"

definition emitWhile :: "('v, 'm) llvm \<Rightarrow> ('v, 'v, 'm) gen \<Rightarrow> (unit, 'v, 'm) gen \<Rightarrow> (unit, 'v, 'm) gen" where
  "emitWhile ll cond body s = do {
     (condBB, s) \<leftarrow> build ll (NewBlock ''while.cond'' None) s;
     (bodyBB, s) \<leftarrow> build ll (NewBlock ''while.body'' None) s;
     (endBB, s) \<leftarrow> build ll (NewBlock ''while.end'' None) s;
     (_, s) \<leftarrow> perform ll (Br condBB) s;
     (_, s) \<leftarrow> startBlock ll condBB s;
     (v, s) \<leftarrow> cond s;
     (_, s) \<leftarrow> perform ll (CondBr v bodyBB endBB) s;
     (_, s) \<leftarrow> startBlock ll bodyBB s;
     (_, s) \<leftarrow> body (s\<lparr>cg_loops := cg_loops s @ [(condBB, endBB)]\<rparr>);
     let s = s\<lparr>cg_loops := butlast (cg_loops s)\<rparr>;
     (_, s) \<leftarrow> branchTo ll condBB s;
     startBlock ll endBB s }"

fun emit :: "('v, 'm) llvm \<Rightarrow> stmt \<Rightarrow> (unit, 'v, 'm) gen"
and emits :: "('v, 'm) llvm \<Rightarrow> stmt list \<Rightarrow> (unit, 'v, 'm) gen" where
  "emit ll (Stmt NullStmt l) = (\<lambda>s. Some ((), s))"
| "emit ll (Stmt (ExprStmt e) l) = (\<lambda>s. do { (_, s) \<leftarrow> rvalue ll e s; Some ((), s) })"
| "emit ll (Stmt (DeclStmt vs) l) = emitVars ll vs"
| "emit ll (Stmt (CompoundStmt body) l) = emits ll body"
| "emit ll (Stmt (IfStmt c a None) l) = emitIf ll (condition ll c) (emit ll a) None"
| "emit ll (Stmt (IfStmt c a (Some b)) l) = emitIf ll (condition ll c) (emit ll a) (Some (emit ll b))"
| "emit ll (Stmt (WhileStmt c a) l) = emitWhile ll (condition ll c) (emit ll a)"
| "emit ll (Stmt BreakStmt l) = jumpTo ll snd"
| "emit ll (Stmt ContinueStmt l) = jumpTo ll fst"
| "emit ll (Stmt (ReturnStmt v) l) = emitReturn ll v"
| "emits ll [] = (\<lambda>s. Some ((), s))"
| "emits ll (st # sts) = (\<lambda>s. do { (_, s) \<leftarrow> emit ll st s; emits ll sts s })"

section \<open>Globals and functions\<close>

definition emitGlobal :: "('v, 'm) llvm \<Rightarrow> (fp \<Rightarrow> i64) \<Rightarrow> var_decl \<Rightarrow> (unit, 'v, 'm) gen" where
  "emitGlobal ll ub v s = do {
     (init, s) \<leftarrow> (case vd_init v of
        Some i \<Rightarrow> constantInit ll ub (vd_type v) i s
      | None \<Rightarrow> build ll (GetNullValue (lower (vd_type v))) s);
     (g, s) \<leftarrow> build ll (NewGlobal (lower (vd_type v)) (vd_isConst v) ExternalLinkage init (vd_name v)) s;
     Some ((), s\<lparr>cg_values := (cg_values s)(vd_symbol v \<mapsto> g)\<rparr>) }"

text \<open>\<open>function\<close>: the function that a symbol stands for, created when it is first seen.\<close>

definition functionFor :: "('v, 'm) llvm \<Rightarrow> function_decl \<Rightarrow> ('v, 'v, 'm) gen" where
  "functionFor ll f s =
     (case cg_values s (fd_symbol f) of
        Some v \<Rightarrow> if lv_isFunction ll (cg_module s) v then Some (v, s) else None
      | None \<Rightarrow> do {
          (v, s) \<leftarrow> build ll (NewFunction (lower (fd_type f)) ExternalLinkage (fd_name f)) s;
          Some (v, s\<lparr>cg_values := (cg_values s)(fd_symbol f \<mapsto> v)\<rparr>) })"

fun emitParams :: "('v, 'm) llvm \<Rightarrow> ('v \<times> param_decl) list \<Rightarrow> (unit, 'v, 'm) gen" where
  "emitParams ll [] = (\<lambda>s. Some ((), s))"
| "emitParams ll ((arg, p) # ps) = (\<lambda>s. do {
     (_, s) \<leftarrow> perform ll (SetName arg (pd_name p)) s;
     (slot, s) \<leftarrow> stackSlot ll (pd_type p) (pd_name p) s;
     (_, s) \<leftarrow> perform ll (Store arg slot) s;
     emitParams ll ps (s\<lparr>cg_values := (cg_values s)(pd_symbol p \<mapsto> slot)\<rparr>) })"

text \<open>A function whose end can be reached returns zero.\<close>

definition finishFunction :: "('v, 'm) llvm \<Rightarrow> 'v \<Rightarrow> (unit, 'v, 'm) gen" where
  "finishFunction ll f s =
     (if isTerminated ll (cg_module s) (lv_insertBlock ll (cg_module s)) then Some ((), s)
      else
        let ret = ll_return (lv_functionType ll (cg_module s) f) in
        if ret = LL_Void then perform ll RetVoid s
        else do { (zero, s) \<leftarrow> build ll (GetNullValue ret) s; perform ll (Ret zero) s })"

definition emitFunction :: "('v, 'm) llvm \<Rightarrow> function_decl \<Rightarrow> (unit, 'v, 'm) gen" where
  "emitFunction ll d s = do {
     (f, s) \<leftarrow> functionFor ll d s;
     (case fd_body d of
        None \<Rightarrow> Some ((), s)
      | Some body \<Rightarrow> do {
          (entry, s) \<leftarrow> build ll (NewBlock ''entry'' (Some f)) (s\<lparr>cg_fn := Some f\<rparr>);
          (_, s) \<leftarrow> perform ll (SetInsertPoint entry) s;
          (_, s) \<leftarrow> emitParams ll (zip (lv_args ll (cg_module s) f) (fd_params d)) s;
          (_, s) \<leftarrow> emits ll body s;
          finishFunction ll f s }) }"

fun emitDecls :: "('v, 'm) llvm \<Rightarrow> (fp \<Rightarrow> i64) \<Rightarrow> top_level_decl list \<Rightarrow> (unit, 'v, 'm) gen" where
  "emitDecls ll ub [] = (\<lambda>s. Some ((), s))"
| "emitDecls ll ub (TopVar v # ds) = (\<lambda>s. do { (_, s) \<leftarrow> emitGlobal ll ub v s; emitDecls ll ub ds s })"
| "emitDecls ll ub (TopFunction f # ds) = (\<lambda>s. do { (_, s) \<leftarrow> emitFunction ll f s; emitDecls ll ub ds s })"

definition newCodegen :: "('v, 'm) llvm \<Rightarrow> string \<Rightarrow> ('v, 'm) codegen" where
  "newCodegen ll x =
     \<lparr>cg_module = lv_newModule ll x, cg_fn = None, cg_values = Map.empty, cg_strings = Map.empty, cg_loops = []\<rparr>"

definition generateModule :: "('v, 'm) llvm \<Rightarrow> (fp \<Rightarrow> i64) \<Rightarrow> translation_unit \<Rightarrow> string \<Rightarrow> 'm result option" where
  "generateModule ll ub tu x = do {
     (_, s) \<leftarrow> emitDecls ll ub (tu_decls tu) (newCodegen ll x);
     Some (case lv_verify ll (cg_module s) of
        Some problems \<Rightarrow> fail (SourceLocation 0 0) (''internal compiler error: invalid LLVM IR:'' @ newline # problems)
      | None \<Rightarrow> Inr (cg_module s)) }"

end
