(* ===== verification/CodeRun.thy ===== *)
theory CodeRun
  imports CodeGen
begin

text \<open>
  What the code generator relies on of LLVM, as a locale, and a calculus of generators over it:
  a rule for each way in which generators are composed, which carries that nothing undefined
  happens and that the blocks of the function stay in order.
\<close>

section \<open>Blocks\<close>

fun targets :: "'v request \<Rightarrow> 'v set" where
  "targets (Br b) = {b}"
| "targets (CondBr c a b) = {a, b}"
| "targets _ = {}"

text \<open>Instructions without a terminator, and those of a complete block.\<close>

definition straight :: "'v request list \<Rightarrow> bool" where
  "straight rs \<longleftrightarrow> (\<forall>r \<in> set rs. \<not> isTerminator r)"

definition complete :: "'v request list \<Rightarrow> bool" where
  "complete rs \<longleftrightarrow> (\<exists>xs t. rs = xs @ [t] \<and> straight xs \<and> isTerminator t)"

lemma straight_simps [simp]: "straight []" "straight (xs @ ys) \<longleftrightarrow> straight xs \<and> straight ys"
  by (auto simp: straight_def)

lemma straight_targets: "straight rs \<Longrightarrow> r \<in> set rs \<Longrightarrow> targets r = {}"
  by (cases r) (auto simp: straight_def)

lemma complete_append: "straight xs \<Longrightarrow> complete ys \<Longrightarrow> complete (xs @ ys)"
  unfolding complete_def by (metis append.assoc straight_simps(2))

text \<open>Requests that add code to the block of the insertion point; the others make constants and globals.\<close>

fun isInstruction :: "'v request \<Rightarrow> bool" where
  "isInstruction (GetNullValue t) = False"
| "isInstruction (GetSigned t i) = False"
| "isInstruction (GetFP t d) = False"
| "isInstruction GetNullPointer = False"
| "isInstruction (GetString b z) = False"
| "isInstruction (GetConstantArray t vs) = False"
| "isInstruction (GetInt1 b) = False"
| "isInstruction (NewGlobal t c l i x) = False"
| "isInstruction (SetUnnamedAddr v) = False"
| "isInstruction (NewFunction t l x) = False"
| "isInstruction (SetName v x) = False"
| "isInstruction (AddIncoming p v b) = False"
| "isInstruction _ = True"

section \<open>The laws\<close>

text \<open>
  The effect of a request on the blocks: \<open>parent\<close> is the function that a block was inserted into
  and \<open>blocks\<close> are the blocks that exist. A new block is new and empty; an instruction goes to the
  end of the block of the insertion point, or is folded away or expanded when it is not a
  terminator; a stack slot goes to the front of its block.
\<close>

definition blockLaw :: "('v, 'm) llvm \<Rightarrow> ('m \<Rightarrow> 'v \<Rightarrow> 'v option) \<Rightarrow> ('m \<Rightarrow> 'v set) \<Rightarrow> 'v request \<Rightarrow> 'm \<Rightarrow> bool" where
  "blockLaw ll parent blocks r m \<longleftrightarrow>
     (case lv_build ll r m of (v, m') \<Rightarrow>
        (let I = lv_instructions ll m; I' = lv_instructions ll m'; b = lv_insertBlock ll m; b' = lv_insertBlock ll m' in
         case r of
           NewBlock x p \<Rightarrow> v \<notin> blocks m \<and> blocks m' = insert v (blocks m) \<and> I' = I(v := []) \<and> parent m' = (parent m)(v := p) \<and> b' = b
         | InsertInto c f \<Rightarrow> c \<in> blocks m \<longrightarrow> blocks m' = blocks m \<and> I' = I \<and> parent m' = (parent m)(c := Some f) \<and> b' = b
         | SetInsertPoint c \<Rightarrow> blocks m' = blocks m \<and> I' = I \<and> parent m' = parent m \<and> b' = c
         | Alloca c t x \<Rightarrow> blocks m' = blocks m \<and> parent m' = parent m \<and> b' = b \<and>
             (\<exists>rs. straight rs \<and> I' = I(c := rs @ I c))
         | _ \<Rightarrow> blocks m' = blocks m \<and> parent m' = parent m \<and> b' = b \<and>
             (if isTerminator r then I' = I(b := I b @ [r])
              else if isInstruction r then \<exists>rs. straight rs \<and> I' = I(b := I b @ rs)
              else I' = I)))"

locale llvm_laws =
  fixes ll :: "('v, 'm) llvm" and parent :: "'m \<Rightarrow> 'v \<Rightarrow> 'v option" and blocks :: "'m \<Rightarrow> 'v set"
  assumes blocks_law: "blockLaw ll parent blocks r m"
    and new_module: "parent (lv_newModule ll x) c = None"
    and parent_exists: "parent m c = Some f \<Longrightarrow> c \<in> blocks m"
    and entry_block: "parent m c = Some f \<Longrightarrow> parent m (lv_entryBlock ll m f) = Some f"
    and new_function: "lv_build ll (NewFunction (LL_Function t ps va) l x) m = (f, m') \<Longrightarrow>
      lv_isFunction ll m' f \<and> length (lv_args ll m' f) = length ps"
    and new_global: "lv_build ll (NewGlobal t isC l init x) m = (g, m') \<Longrightarrow> lv_isConstant ll m' g"
    and functions_stay: "lv_build ll r m = (v, m') \<Longrightarrow> lv_isFunction ll m f \<Longrightarrow>
      lv_isFunction ll m' f \<and> length (lv_args ll m' f) = length (lv_args ll m f)"
    and constants_stay: "lv_build ll r m = (v, m') \<Longrightarrow> lv_isConstant ll m g \<Longrightarrow> lv_isConstant ll m' g"

section \<open>The state of the blocks\<close>

text \<open>
  Blocks that exist but are in no function yet are empty and wait to be started: the pending
  blocks \<open>P\<close> of the current function \<open>f\<close>. Every branch goes to a block of its own function or to a
  pending one.
\<close>

definition placedOk :: "('v, 'm) llvm \<Rightarrow> ('m \<Rightarrow> 'v \<Rightarrow> 'v option) \<Rightarrow> ('m \<Rightarrow> 'v set) \<Rightarrow> 'v \<Rightarrow> 'v set \<Rightarrow> 'm \<Rightarrow> bool" where
  "placedOk ll parent blocks f P m \<longleftrightarrow>
     (\<forall>c g r t. parent m c = Some g \<longrightarrow> r \<in> set (lv_instructions ll m c) \<longrightarrow> t \<in> targets r \<longrightarrow>
        parent m t = Some g \<or> (g = f \<and> t \<in> P)) \<and>
     (\<forall>c \<in> P. parent m c = None \<and> lv_instructions ll m c = [] \<and> c \<in> blocks m)"

text \<open>The insertion point is in a block without a terminator; every other block is complete.\<close>

definition openAt :: "('v, 'm) llvm \<Rightarrow> ('m \<Rightarrow> 'v \<Rightarrow> 'v option) \<Rightarrow> ('m \<Rightarrow> 'v set) \<Rightarrow> 'v \<Rightarrow> 'v set \<Rightarrow> 'm \<Rightarrow> bool" where
  "openAt ll parent blocks f P m \<longleftrightarrow>
     parent m (lv_insertBlock ll m) = Some f \<and> straight (lv_instructions ll m (lv_insertBlock ll m)) \<and>
     (\<forall>c g. parent m c = Some g \<longrightarrow> c \<noteq> lv_insertBlock ll m \<longrightarrow> complete (lv_instructions ll m c)) \<and>
     placedOk ll parent blocks f P m"

definition sealedAt :: "('v, 'm) llvm \<Rightarrow> ('m \<Rightarrow> 'v \<Rightarrow> 'v option) \<Rightarrow> ('m \<Rightarrow> 'v set) \<Rightarrow> 'v \<Rightarrow> 'v set \<Rightarrow> 'm \<Rightarrow> bool" where
  "sealedAt ll parent blocks f P m \<longleftrightarrow>
     (\<forall>c g. parent m c = Some g \<longrightarrow> complete (lv_instructions ll m c)) \<and> placedOk ll parent blocks f P m"

text \<open>Requests that leave the blocks and the insertion point alone but for instructions.\<close>

fun plain :: "'v request \<Rightarrow> bool" where
  "plain (NewBlock x p) = False"
| "plain (InsertInto c f) = False"
| "plain (SetInsertPoint c) = False"
| "plain (Alloca c t x) = False"
| "plain _ = True"

lemma placedOk_branch:
  "placedOk ll parent blocks f P m \<Longrightarrow> parent m c = Some g \<Longrightarrow> r \<in> set (lv_instructions ll m c) \<Longrightarrow> t \<in> targets r \<Longrightarrow>
     parent m t \<noteq> Some g \<Longrightarrow> g = f \<and> t \<in> P"
  unfolding placedOk_def by blast

lemma placedOk_pending:
  "placedOk ll parent blocks f P m \<Longrightarrow> c \<in> P \<Longrightarrow> parent m c = None \<and> lv_instructions ll m c = [] \<and> c \<in> blocks m"
  unfolding placedOk_def by blast

lemma placedOkI:
  assumes "\<And>c g r t. parent m c = Some g \<Longrightarrow> r \<in> set (lv_instructions ll m c) \<Longrightarrow> t \<in> targets r \<Longrightarrow>
      parent m t \<noteq> Some g \<Longrightarrow> g = f \<and> t \<in> P"
    and "\<And>c. c \<in> P \<Longrightarrow> parent m c = None \<and> lv_instructions ll m c = [] \<and> c \<in> blocks m"
  shows "placedOk ll parent blocks f P m"
  using assms unfolding placedOk_def by blast

context llvm_laws
begin

lemma instruction_law:
  assumes "plain r" "\<not> isTerminator r" "lv_build ll r m = (v, m')"
  shows "isInstruction r \<and> (\<exists>rs. straight rs \<and> lv_instructions ll m' =
       (lv_instructions ll m)(lv_insertBlock ll m := lv_instructions ll m (lv_insertBlock ll m) @ rs)) \<or>
     \<not> isInstruction r \<and> lv_instructions ll m' = lv_instructions ll m"
  using blocks_law [of r m] assms by (cases r; simp add: blockLaw_def Let_def)

lemma plain_law:
  assumes "plain r" "lv_build ll r m = (v, m')"
  shows "blocks m' = blocks m" "parent m' = parent m" "lv_insertBlock ll m' = lv_insertBlock ll m"
    "isTerminator r \<Longrightarrow> lv_instructions ll m' =
       (lv_instructions ll m)(lv_insertBlock ll m := lv_instructions ll m (lv_insertBlock ll m) @ [r])"
    "\<not> isTerminator r \<Longrightarrow> \<exists>rs. straight rs \<and> lv_instructions ll m' =
       (lv_instructions ll m)(lv_insertBlock ll m := lv_instructions ll m (lv_insertBlock ll m) @ rs)"
proof -
  show "blocks m' = blocks m" "parent m' = parent m" "lv_insertBlock ll m' = lv_insertBlock ll m"
    "isTerminator r \<Longrightarrow> lv_instructions ll m' =
       (lv_instructions ll m)(lv_insertBlock ll m := lv_instructions ll m (lv_insertBlock ll m) @ [r])"
    using blocks_law [of r m] assms by (cases r; simp add: blockLaw_def Let_def)+
  assume "\<not> isTerminator r"
  thus "\<exists>rs. straight rs \<and> lv_instructions ll m' =
       (lv_instructions ll m)(lv_insertBlock ll m := lv_instructions ll m (lv_insertBlock ll m) @ rs)"
    using instruction_law [OF assms(1) _ assms(2)] straight_simps(1) by (metis append_Nil2 fun_upd_triv)
qed

lemma parents_stay:
  assumes "lv_build ll r m = (v, m')" "parent m c = Some g" "\<And>d f. r = InsertInto d f \<Longrightarrow> parent m d = None \<and> d \<in> blocks m"
  shows "parent m' c = Some g"
  using blocks_law [of r m] assms parent_exists [of m c g]
  by (cases r) (auto simp: blockLaw_def Let_def)

text \<open>The instructions of one placed block change.\<close>

lemma placedOk_update:
  assumes "placedOk ll parent blocks f P m" "blocks m' = blocks m" "parent m' = parent m"
    and "lv_instructions ll m' = (lv_instructions ll m)(b := rs)" "parent m b = Some g"
    and "\<And>r t. r \<in> set rs \<Longrightarrow> t \<in> targets r \<Longrightarrow> parent m t = Some g \<or> (g = f \<and> t \<in> P)"
  shows "placedOk ll parent blocks f P m'"
  using assms unfolding placedOk_def by (auto simp: fun_upd_def)

lemma plain_open:
  assumes "openAt ll parent blocks f P m" "plain r" "\<not> isTerminator r" "lv_build ll r m = (v, m')"
  shows "openAt ll parent blocks f P m'"
proof -
  note l = plain_law [OF assms(2,4)]
  let ?b = "lv_insertBlock ll m"
  obtain rs where rs: "straight rs" "lv_instructions ll m' = (lv_instructions ll m)(?b := lv_instructions ll m ?b @ rs)"
    using l(5) assms(3) by blast
  have st: "straight (lv_instructions ll m ?b @ rs)" using assms(1) rs(1) by (simp add: openAt_def)
  have "placedOk ll parent blocks f P m'"
    by (rule placedOk_update [OF _ l(1,2) rs(2)]) (use assms(1) straight_targets [OF st] in \<open>auto simp: openAt_def\<close>)
  thus ?thesis using assms(1) l rs st by (simp add: openAt_def)
qed

text \<open>A terminator completes the block.\<close>

lemma terminator_seals:
  assumes "openAt ll parent blocks f P m" "isTerminator r" "lv_build ll r m = (v, m')"
    and "\<And>t. t \<in> targets r \<Longrightarrow> parent m t = Some f \<or> t \<in> P"
  shows "sealedAt ll parent blocks f P m'"
proof -
  have pl: "plain r" using assms(2) by (cases r) auto
  note l = plain_law [OF pl assms(3)]
  let ?b = "lv_insertBlock ll m"
  have i: "lv_instructions ll m' = (lv_instructions ll m)(?b := lv_instructions ll m ?b @ [r])" by (rule l(4) [OF assms(2)])
  have st: "straight (lv_instructions ll m ?b)" using assms(1) by (simp add: openAt_def)
  have "placedOk ll parent blocks f P m'"
    by (rule placedOk_update [OF _ l(1,2) i]) (use assms straight_targets [OF st] in \<open>auto simp: openAt_def\<close>)
  moreover have "complete (lv_instructions ll m ?b @ [r])" using st assms(2) by (auto simp: complete_def)
  ultimately show ?thesis using assms(1) l(1-3) i by (auto simp: sealedAt_def openAt_def)
qed

text \<open>A new block is pending.\<close>

lemma new_block_pending:
  assumes "openAt ll parent blocks f P m" "lv_build ll (NewBlock x None) m = (b, m')"
  shows "openAt ll parent blocks f (insert b P) m'" "b \<notin> P" "parent m b = None"
proof -
  have l: "b \<notin> blocks m" "blocks m' = insert b (blocks m)" "lv_instructions ll m' = (lv_instructions ll m)(b := [])"
    "parent m' = (parent m)(b := None)" "lv_insertBlock ll m' = lv_insertBlock ll m"
    using blocks_law [of "NewBlock x None" m] assms(2) by (simp_all add: blockLaw_def Let_def)
  have no: "parent m b = None" using parent_exists [of m b] l(1) by (cases "parent m b") auto
  hence p: "parent m' = parent m" using l(4) by auto
  show "b \<notin> P" "parent m b = None" using assms(1) l(1) no by (auto simp: openAt_def placedOk_def)
  have "lv_insertBlock ll m \<noteq> b" using assms(1) no by (auto simp: openAt_def)
  moreover have "placedOk ll parent blocks f (insert b P) m'"
  proof (rule placedOkI)
    have ok: "placedOk ll parent blocks f P m" using assms(1) by (simp add: openAt_def)
    fix c g r t
    assume "parent m' c = Some g" "r \<in> set (lv_instructions ll m' c)" "t \<in> targets r" "parent m' t \<noteq> Some g"
    thus "g = f \<and> t \<in> insert b P" using placedOk_branch [OF ok, of c g r t] p l(3) by (auto split: if_splits)
  next
    have ok: "placedOk ll parent blocks f P m" using assms(1) by (simp add: openAt_def)
    fix c
    assume "c \<in> insert b P"
    thus "parent m' c = None \<and> lv_instructions ll m' c = [] \<and> c \<in> blocks m'"
      using placedOk_pending [OF ok, of c] p l no by auto
  qed
  ultimately show "openAt ll parent blocks f (insert b P) m'"
    using assms(1) l(3,5) p no unfolding openAt_def by (auto split: if_splits)
qed

text \<open>A pending block is started.\<close>

lemma start_opens:
  assumes "sealedAt ll parent blocks f P m" "c \<in> P" "lv_build ll (InsertInto c f) m = (v1, m1)"
    "lv_build ll (SetInsertPoint c) m1 = (v2, m2)"
  shows "openAt ll parent blocks f (P - {c}) m2" "parent m2 c = Some f"
proof -
  have l1: "blocks m1 = blocks m" "lv_instructions ll m1 = lv_instructions ll m" "parent m1 = (parent m)(c := Some f)"
    using blocks_law [of "InsertInto c f" m] assms(1,2,3)
    by (auto simp: blockLaw_def Let_def sealedAt_def placedOk_def)
  have l2: "blocks m2 = blocks m1" "lv_instructions ll m2 = lv_instructions ll m1" "parent m2 = parent m1"
    "lv_insertBlock ll m2 = c"
    using blocks_law [of "SetInsertPoint c" m1] assms(4) by (simp_all add: blockLaw_def Let_def)
  show "parent m2 c = Some f" using l1 l2 by simp
  have c: "parent m c = None" "lv_instructions ll m c = []" using assms(1,2) by (auto simp: sealedAt_def placedOk_def)
  have "placedOk ll parent blocks f (P - {c}) m2"
  proof (rule placedOkI)
    have ok: "placedOk ll parent blocks f P m" using assms(1) by (simp add: sealedAt_def)
    fix d g r t
    assume "parent m2 d = Some g" "r \<in> set (lv_instructions ll m2 d)" "t \<in> targets r" "parent m2 t \<noteq> Some g"
    thus "g = f \<and> t \<in> P - {c}" using placedOk_branch [OF ok, of d g r t] c l1 l2 by (auto split: if_splits)
  next
    have ok: "placedOk ll parent blocks f P m" using assms(1) by (simp add: sealedAt_def)
    fix d
    assume "d \<in> P - {c}"
    thus "parent m2 d = None \<and> lv_instructions ll m2 d = [] \<and> d \<in> blocks m2"
      using placedOk_pending [OF ok, of d] l1 l2 by auto
  qed
  thus "openAt ll parent blocks f (P - {c}) m2"
    using assms(1) c unfolding sealedAt_def openAt_def l1 l2 by (auto simp: fun_upd_def)
qed

text \<open>A stack slot goes to the front of a block of the function.\<close>

lemma alloca_open:
  assumes "openAt ll parent blocks f P m" "parent m e = Some f" "lv_build ll (Alloca e t x) m = (v, m')"
  shows "openAt ll parent blocks f P m'"
proof -
  obtain rs where rs: "straight rs" "lv_instructions ll m' = (lv_instructions ll m)(e := rs @ lv_instructions ll m e)"
    and l: "blocks m' = blocks m" "parent m' = parent m" "lv_insertBlock ll m' = lv_insertBlock ll m"
    using blocks_law [of "Alloca e t x" m] assms(3) by (auto simp: blockLaw_def Let_def)
  have ok: "placedOk ll parent blocks f P m" using assms(1) by (simp add: openAt_def)
  have "placedOk ll parent blocks f P m'"
    by (rule placedOk_update [OF ok l(1,2) rs(2) assms(2)])
      (use placedOk_branch [OF ok assms(2)] straight_targets [OF rs(1)] in auto)
  moreover have "complete (lv_instructions ll m c) \<Longrightarrow> complete (lv_instructions ll m' c)" for c
    by (auto simp: rs(2) intro: complete_append [OF rs(1)])
  ultimately show ?thesis using assms(1) l rs unfolding openAt_def by auto
qed

end

section \<open>Generators\<close>

text \<open>
  What a generator keeps: the function, the loops, what is known of earlier values and blocks; \<open>W\<close>
  are the symbols that got a value.
\<close>

definition kept :: "('v, 'm) llvm \<Rightarrow> ('m \<Rightarrow> 'v \<Rightarrow> 'v option) \<Rightarrow> symbol_id set \<Rightarrow> ('v, 'm) codegen \<Rightarrow> ('v, 'm) codegen \<Rightarrow> bool" where
  "kept ll parent W s s' \<longleftrightarrow>
     cg_fn s' = cg_fn s \<and> cg_loops s' = cg_loops s \<and>
     cg_values s \<subseteq>\<^sub>m cg_values s' \<and> dom (cg_values s') = dom (cg_values s) \<union> W \<and>
     (\<forall>v. lv_isFunction ll (cg_module s) v \<longrightarrow> lv_isFunction ll (cg_module s') v \<and>
        length (lv_args ll (cg_module s') v) = length (lv_args ll (cg_module s) v)) \<and>
     (\<forall>v. lv_isConstant ll (cg_module s) v \<longrightarrow> lv_isConstant ll (cg_module s') v) \<and>
     (\<forall>c g. parent (cg_module s) c = Some g \<longrightarrow> parent (cg_module s') c = Some g)"

lemma kept_refl: "kept ll parent {} s s"
  by (simp add: kept_def)

lemma kept_trans: "kept ll parent V s s1 \<Longrightarrow> kept ll parent W s1 s2 \<Longrightarrow> kept ll parent (V \<union> W) s s2"
  unfolding kept_def by (auto intro: map_le_trans)

lemma kept_trans0: "kept ll parent {} s s1 \<Longrightarrow> kept ll parent W s1 s2 \<Longrightarrow> kept ll parent W s s2"
  using kept_trans [of ll parent "{}" s s1 W s2] by simp

text \<open>The globals of string literals are constants.\<close>

definition stringsOk :: "('v, 'm) llvm \<Rightarrow> ('v, 'm) codegen \<Rightarrow> bool" where
  "stringsOk ll s \<longleftrightarrow> (\<forall>b v. cg_strings s b = Some v \<longrightarrow> lv_isConstant ll (cg_module s) v)"

lemma stringsOk_upd [simp]: "stringsOk ll (s\<lparr>cg_values := vs\<rparr>) = stringsOk ll s"
  "stringsOk ll (s\<lparr>cg_fn := g\<rparr>) = stringsOk ll s" "stringsOk ll (s\<lparr>cg_loops := ls\<rparr>) = stringsOk ll s"
  by (simp_all add: stringsOk_def)

definition active :: "('v, 'm) llvm \<Rightarrow> ('m \<Rightarrow> 'v \<Rightarrow> 'v option) \<Rightarrow> ('m \<Rightarrow> 'v set) \<Rightarrow> 'v \<Rightarrow> 'v set \<Rightarrow> ('v, 'm) codegen \<Rightarrow> bool" where
  "active ll parent blocks f P s \<longleftrightarrow>
     cg_fn s = Some f \<and> openAt ll parent blocks f P (cg_module s) \<and> stringsOk ll s"

text \<open>
  A generator succeeds in the function \<open>f\<close> with the pending blocks \<open>P\<close>, and leaves an open block.
\<close>

definition runs :: "('v, 'm) llvm \<Rightarrow> ('m \<Rightarrow> 'v \<Rightarrow> 'v option) \<Rightarrow> ('m \<Rightarrow> 'v set) \<Rightarrow> 'v \<Rightarrow> 'v set \<Rightarrow> symbol_id set \<Rightarrow>
    ('v, 'm) codegen \<Rightarrow> ('a \<times> ('v, 'm) codegen) option \<Rightarrow> ('a \<Rightarrow> bool) \<Rightarrow> bool" where
  "runs ll parent blocks f P W s res Q \<longleftrightarrow>
     (\<exists>a s'. res = Some (a, s') \<and> kept ll parent W s s' \<and> active ll parent blocks f P s' \<and> Q a)"

definition given :: "'a option \<Rightarrow> bool" where
  "given v \<longleftrightarrow> v \<noteq> None"

lemma given_simps [simp]: "given (Some v)" "\<not> given None"
  by (simp_all add: given_def)

lemma runs_return: "active ll parent blocks f P s \<Longrightarrow> Q a \<Longrightarrow> runs ll parent blocks f P {} s (Some (a, s)) Q"
  by (simp add: runs_def kept_refl)

lemma runs_bind:
  assumes "runs ll parent blocks f P V s g Q"
    and "\<And>a s'. kept ll parent V s s' \<Longrightarrow> active ll parent blocks f P s' \<Longrightarrow> Q a \<Longrightarrow> runs ll parent blocks f P' W s' (h (a, s')) R"
  shows "runs ll parent blocks f P' (V \<union> W) s (g \<bind> h) R"
  using assms kept_trans unfolding runs_def by (fastforce simp: runs_def)

text \<open>The same for generators that give no symbol a value.\<close>

lemma runs_bind0:
  assumes "runs ll parent blocks f P {} s g Q"
    and "\<And>a s'. kept ll parent {} s s' \<Longrightarrow> active ll parent blocks f P s' \<Longrightarrow> Q a \<Longrightarrow> runs ll parent blocks f P' W s' (h (a, s')) R"
  shows "runs ll parent blocks f P' W s (g \<bind> h) R"
  using runs_bind [OF assms] by simp

lemma runs_mono: "runs ll parent blocks f P W s res Q \<Longrightarrow> (\<And>a. Q a \<Longrightarrow> R a) \<Longrightarrow> runs ll parent blocks f P W s res R"
  unfolding runs_def by blast

lemma runs_valued: "runs ll parent blocks f P W s (g s) Q \<Longrightarrow> runs ll parent blocks f P W s (valued g s) given"
  by (auto simp: runs_def valued_def)

lemma runs_need:
  "runs ll parent blocks f P W s g given \<Longrightarrow> runs ll parent blocks f P W s (g \<bind> need) (\<lambda>_. True)"
  by (auto simp: runs_def need_def given_def)

context llvm_laws
begin

lemma build_kept:
  assumes "lv_build ll r (cg_module s) = (v, m')" "\<And>d f. r = InsertInto d f \<Longrightarrow> parent (cg_module s) d = None \<and> d \<in> blocks (cg_module s)"
  shows "kept ll parent {} s (s\<lparr>cg_module := m'\<rparr>)"
  using functions_stay [OF assms(1)] constants_stay [OF assms(1)] parents_stay [OF assms(1)] assms(2)
  by (auto simp: kept_def)

lemma stringsOk_build:
  assumes "stringsOk ll s" "lv_build ll r (cg_module s) = (v, m')"
  shows "stringsOk ll (s\<lparr>cg_module := m'\<rparr>)"
  using assms(1) constants_stay [OF assms(2)] by (auto simp: stringsOk_def)

lemma runs_build:
  assumes "active ll parent blocks f P s" "plain r" "\<not> isTerminator r"
  shows "runs ll parent blocks f P {} s (build ll r s) (\<lambda>_. True)"
proof -
  obtain v m' where b: "lv_build ll r (cg_module s) = (v, m')" by (cases "lv_build ll r (cg_module s)")
  have "openAt ll parent blocks f P m'" using plain_open [OF _ assms(2,3) b] assms(1) by (simp add: active_def)
  moreover have "kept ll parent {} s (s\<lparr>cg_module := m'\<rparr>)" by (rule build_kept [OF b]) (use assms(2) in auto)
  ultimately show ?thesis using assms(1) b stringsOk_build [OF _ b] by (simp add: runs_def build_def active_def)
qed

lemma runs_perform:
  assumes "active ll parent blocks f P s" "plain r" "\<not> isTerminator r"
  shows "runs ll parent blocks f P {} s (perform ll r s) (\<lambda>_. True)"
  unfolding perform_def by (rule runs_bind0 [OF runs_build [OF assms]]) (auto intro: runs_return)

lemma runs_new_block:
  assumes "active ll parent blocks f P s"
    and "\<And>b s'. kept ll parent {} s s' \<Longrightarrow> active ll parent blocks f (insert b P) s' \<Longrightarrow> b \<notin> P \<Longrightarrow>
      runs ll parent blocks f P' W s' (h (b, s')) R"
  shows "runs ll parent blocks f P' W s (build ll (NewBlock x None) s \<bind> h) R"
proof -
  obtain b m' where b: "lv_build ll (NewBlock x None) (cg_module s) = (b, m')"
    by (cases "lv_build ll (NewBlock x None) (cg_module s)")
  have o1: "openAt ll parent blocks f P (cg_module s)" using assms(1) by (simp add: active_def)
  let ?s = "s\<lparr>cg_module := m'\<rparr>"
  have k: "kept ll parent {} s ?s" by (rule build_kept [OF b]) simp
  have "active ll parent blocks f (insert b P) ?s" 
    using new_block_pending(1) [OF o1 b] stringsOk_build [OF _ b] assms(1) by (simp add: active_def)
  from assms(2) [OF k this new_block_pending(2) [OF o1 b]] have "runs ll parent blocks f P' W ?s (h (b, ?s)) R" .
  thus ?thesis using k kept_trans [OF k] by (fastforce simp: runs_def build_def b)
qed

text \<open>A terminator and the start of the next block.\<close>

lemma runs_branch_start:
  assumes "active ll parent blocks f (insert c P) s" "isTerminator r" "c \<notin> P"
    and "\<And>t. t \<in> targets r \<Longrightarrow> parent (cg_module s) t = Some f \<or> t \<in> insert c P"
    and "\<And>s'. kept ll parent {} s s' \<Longrightarrow> active ll parent blocks f P s' \<Longrightarrow> parent (cg_module s') c = Some f \<Longrightarrow>
      runs ll parent blocks f P' W s' (h ((), s')) R"
  shows "runs ll parent blocks f P' W s (perform ll r s \<bind> (\<lambda>(_, s). startBlock ll c s \<bind> h)) R"
proof -
  obtain v m1 where b1: "lv_build ll r (cg_module s) = (v, m1)" by (cases "lv_build ll r (cg_module s)")
  obtain v2 m2 where b2: "lv_build ll (InsertInto c f) m1 = (v2, m2)" by (cases "lv_build ll (InsertInto c f) m1")
  obtain v3 m3 where b3: "lv_build ll (SetInsertPoint c) m2 = (v3, m3)" by (cases "lv_build ll (SetInsertPoint c) m2")
  have fn: "cg_fn s = Some f" and o0: "openAt ll parent blocks f (insert c P) (cg_module s)"
    using assms(1) by (simp_all add: active_def)
  have sealed: "sealedAt ll parent blocks f (insert c P) m1" by (rule terminator_seals [OF o0 assms(2) b1 assms(4)])
  have o3: "openAt ll parent blocks f P m3" and pc: "parent m3 c = Some f"
    using start_opens [OF sealed _ b2 b3] assms(3) by auto
  have none: "parent m1 c = None \<and> c \<in> blocks m1" using sealed by (auto simp: sealedAt_def placedOk_def)
  let ?s3 = "s\<lparr>cg_module := m3\<rparr>"
  have k1: "kept ll parent {} s (s\<lparr>cg_module := m1\<rparr>)" by (rule build_kept [OF b1]) (use assms(2) in auto)
  have k2: "kept ll parent {} (s\<lparr>cg_module := m1\<rparr>) (s\<lparr>cg_module := m2\<rparr>)"
    using build_kept [of "InsertInto c f" "s\<lparr>cg_module := m1\<rparr>" v2 m2] b2 none by simp
  have k3: "kept ll parent {} (s\<lparr>cg_module := m2\<rparr>) ?s3"
    using build_kept [of "SetInsertPoint c" "s\<lparr>cg_module := m2\<rparr>" v3 m3] b3 by simp
  note k = kept_trans0 [OF k1 kept_trans0 [OF k2 k3]]
  have str: "stringsOk ll (s\<lparr>cg_module := m1\<rparr>)" using assms(1) stringsOk_build [OF _ b1] by (simp add: active_def)
  have "stringsOk ll ?s3"
    using stringsOk_build [OF stringsOk_build [OF str, of "InsertInto c f" v2 m2], of "SetInsertPoint c" v3 m3] b2 b3 by simp
  hence "runs ll parent blocks f P' W ?s3 (h ((), ?s3)) R"
    by (intro assms(5) [OF k]) (use o3 pc fn in \<open>simp_all add: active_def\<close>)
  thus ?thesis using kept_trans0 [OF k] fn by (fastforce simp: runs_def perform_def build_def startBlock_def b1 b2 b3)
qed

end

end
