(* ===== verification/CodeExpr.thy ===== *)
theory CodeExpr
  imports CodeRun SemaTypes
begin

text \<open>
  Code generation of well-typed expressions: every expression that the analyzer lets through is
  lowered without an undefined step, in an open block, to an open block.
\<close>

section \<open>Types and trees that the parser can build\<close>

text \<open>No pointers to functions, no parameters of type \<open>void\<close>, no functions that return arrays or functions.\<close>

fun plainTy :: "ty \<Rightarrow> bool" where
  "plainTy (PointerTy t) \<longleftrightarrow> plainTy t \<and> \<not> isFunction t"
| "plainTy (ArrayTy t n) \<longleftrightarrow> plainTy t \<and> \<not> isFunction t"
| "plainTy (FunctionTy r ps v) \<longleftrightarrow> plainTy r \<and> \<not> isArray r \<and> \<not> isFunction r \<and>
     (\<forall>p \<in> set ps. plainTy p \<and> \<not> isVoid p \<and> \<not> isFunction p)"
| "plainTy _ \<longleftrightarrow> True"

text \<open>All types in a tree are of that kind.\<close>

primrec plainExpr :: "expr \<Rightarrow> bool" and plainNode :: "expr_node \<Rightarrow> bool" where
  "plainExpr (Expr n l t c) \<longleftrightarrow> (case t of None \<Rightarrow> True | Some u \<Rightarrow> plainTy u) \<and> plainNode n"
| "plainNode (IntLiteral v) \<longleftrightarrow> True"
| "plainNode (FloatLiteral v) \<longleftrightarrow> True"
| "plainNode (StringLiteral b) \<longleftrightarrow> True"
| "plainNode (DeclRef x i) \<longleftrightarrow> True"
| "plainNode (Unary op a) \<longleftrightarrow> plainExpr a"
| "plainNode (Binary op a b) \<longleftrightarrow> plainExpr a \<and> plainExpr b"
| "plainNode (Assign a b) \<longleftrightarrow> plainExpr a \<and> plainExpr b"
| "plainNode (Call f args) \<longleftrightarrow> plainExpr f \<and> list_all id (map plainExpr args)"
| "plainNode (Index a i) \<longleftrightarrow> plainExpr a \<and> plainExpr i"
| "plainNode (Cast k imp a) \<longleftrightarrow> plainExpr a"
| "plainNode (SizeOfType u) \<longleftrightarrow> plainTy u"
| "plainNode (SizeOfExpr a) \<longleftrightarrow> plainExpr a"

lemma plainExpr_type: "plainExpr e \<Longrightarrow> expr_type e = Some t \<Longrightarrow> plainTy t"
  by (cases e) auto

text \<open>The expressions that \<open>lvalue\<close> knows.\<close>

definition addressed :: "expr \<Rightarrow> bool" where
  "addressed e \<longleftrightarrow> (case node e of DeclRef x i \<Rightarrow> True | StringLiteral b \<Rightarrow> True | Unary op x \<Rightarrow> op = UO_Deref | _ \<Rightarrow> False)"

lemma lvalue_addressed: "wellTyped ub scs e \<Longrightarrow> category e = LValue \<Longrightarrow> addressed e"
  by (cases e; cases "node e") (auto simp: addressed_def unaryOk_def split: unary_op.splits)

lemma castOk_target: "castOk ub k x from to \<Longrightarrow> valueType to"
  by (cases k) (auto simp: castOk_def valueType_def isArithmetic_def isInteger_iff isPointer_iff)

lemma binaryOk_target: "binaryOk op ta tb t \<Longrightarrow> valueType t"
  by (auto simp: binaryOk_def valueType_def computes_def completePointer_def isPointer_iff split: if_splits)

lemma array_addressed:
  assumes "wellTyped ub scs e" "plainExpr e" "expr_type e = Some t" "isArray t \<or> isFunction t"
  shows "addressed e"
proof (cases e)
  case (Expr n l t' c)
  have call: "isArray t \<or> isFunction t \<Longrightarrow> plainTy (the (expr_type fn)) \<Longrightarrow> isFunction (the (expr_type fn)) \<Longrightarrow>
      t \<noteq> returnType (the (expr_type fn))" for fn
    by (cases "the (expr_type fn)") auto
  show ?thesis
  proof (cases n)
    case (Call fn args)
    have "plainTy (the (expr_type fn))"
      using assms(1,2) Expr Call plainExpr_type [of fn] wellTyped_type [of ub scs fn] by auto
    thus ?thesis using assms Expr Call call [of fn] by auto
  qed (use assms Expr castOk_target binaryOk_target in
      \<open>auto simp: addressed_def valueType_def unaryOk_def computes_def split: unary_op.splits\<close>)
qed

lemma function_named:
  assumes "wellTyped ub scs e" "plainExpr e" "expr_type e = Some t" "isFunction t"
  obtains x i y where "node e = DeclRef x i" "lookup scs x = Some y" "sym_id y = i" "sym_type y = t"
proof (cases e)
  case (Expr n l t' c)
  have a: "addressed e" using array_addressed [OF assms(1-3)] assms(4) by blast
  show ?thesis
  proof (cases n)
    case (DeclRef x i)
    thus ?thesis using that assms(1,3) Expr by (auto split: option.splits)
  next
    case (Unary op x)
    hence "plainTy (PointerTy t)"
      using a assms Expr plainExpr_type [of x] wellTyped_type [of ub scs x] by (auto simp: addressed_def unaryOk_def)
    thus ?thesis using assms(4) by simp
  qed (use a assms Expr in \<open>auto simp: addressed_def\<close>)
qed

text \<open>No argument of a call has type \<open>void\<close>.\<close>

lemma argsOk_values:
  assumes "argsOk fn args" "plainTy fn" "isFunction fn" "a \<in> set args" "expr_type a = Some t"
  shows "t \<noteq> VoidTy"
proof -
  obtain xs rest where args: "args = xs @ rest" "map expr_type xs = map Some (params fn)"
    "\<forall>a \<in> set rest. \<exists>t. expr_type a = Some t \<and> valueType t \<and> t \<noteq> VoidTy \<and> t \<noteq> CharTy"
    using assms(1) by (auto simp: argsOk_def)
  show ?thesis
  proof (cases "a \<in> set xs")
    case True
    have "Some t \<in> set (map expr_type xs)" using True assms(5) by force
    hence "t \<in> set (params fn)" using args(2) by auto
    thus ?thesis using assms(2,3) by (cases fn) auto
  next
    case False
    thus ?thesis using args assms(4,5) by auto
  qed
qed

section \<open>Generators that work from some state on\<close>

text \<open>Every name in scope has a value, a function that of a function.\<close>

definition bound :: "('v, 'm) llvm \<Rightarrow> scope list \<Rightarrow> ('v, 'm) codegen \<Rightarrow> bool" where
  "bound ll scs s \<longleftrightarrow>
     (\<forall>x y. lookup scs x = Some y \<longrightarrow>
        sym_type y \<noteq> VoidTy \<and>
        (\<exists>v. cg_values s (sym_id y) = Some v \<and> (isFunction (sym_type y) \<longrightarrow> lv_isFunction ll (cg_module s) v)))"

lemma bound_function:
  assumes "bound ll scs s" "lookup scs x = Some y" "isFunction (sym_type y)"
  obtains v where "cg_values s (sym_id y) = Some v" "lv_isFunction ll (cg_module s) v"
  using assms unfolding bound_def by blast

lemma kept_value: "kept ll parent W s s' \<Longrightarrow> cg_values s i = Some v \<Longrightarrow> cg_values s' i = Some v"
  unfolding kept_def map_le_def by (metis domI)

lemma kept_function: "kept ll parent W s s' \<Longrightarrow> lv_isFunction ll (cg_module s) v \<Longrightarrow> lv_isFunction ll (cg_module s') v"
  unfolding kept_def by blast

lemma bound_kept:
  assumes "bound ll scs s" "kept ll parent W s s'"
  shows "bound ll scs s'"
  unfolding bound_def
proof (intro allI impI)
  fix x y
  assume "lookup scs x = Some y"
  then obtain v where "cg_values s (sym_id y) = Some v" "isFunction (sym_type y) \<longrightarrow> lv_isFunction ll (cg_module s) v"
    and "sym_type y \<noteq> VoidTy"
    using assms(1) unfolding bound_def by blast
  thus "sym_type y \<noteq> VoidTy \<and> (\<exists>v. cg_values s' (sym_id y) = Some v \<and> (isFunction (sym_type y) \<longrightarrow> lv_isFunction ll (cg_module s') v))"
    using kept_value [OF assms(2)] kept_function [OF assms(2)] by blast
qed

definition does :: "('v, 'm) llvm \<Rightarrow> ('m \<Rightarrow> 'v \<Rightarrow> 'v option) \<Rightarrow> ('m \<Rightarrow> 'v set) \<Rightarrow> 'v \<Rightarrow> ('v, 'm) codegen \<Rightarrow>
    ('a, 'v, 'm) gen \<Rightarrow> ('a \<Rightarrow> bool) \<Rightarrow> bool" where
  "does ll parent blocks f s g Q \<longleftrightarrow>
     (\<forall>P s'. kept ll parent {} s s' \<longrightarrow> active ll parent blocks f P s' \<longrightarrow> runs ll parent blocks f P {} s' (g s') Q)"

lemma doesD:
  "does ll parent blocks f s g Q \<Longrightarrow> kept ll parent {} s s' \<Longrightarrow> active ll parent blocks f P s' \<Longrightarrow>
     runs ll parent blocks f P {} s' (g s') Q"
  unfolding does_def by blast

lemma doesI:
  "(\<And>P s'. kept ll parent {} s s' \<Longrightarrow> active ll parent blocks f P s' \<Longrightarrow> runs ll parent blocks f P {} s' (g s') Q) \<Longrightarrow>
     does ll parent blocks f s g Q"
  unfolding does_def by blast

lemma does_later: "does ll parent blocks f s g Q \<Longrightarrow> kept ll parent {} s s' \<Longrightarrow> does ll parent blocks f s' g Q"
  unfolding does_def using kept_trans0 by blast

lemma does_run: "does ll parent blocks f s g Q \<Longrightarrow> active ll parent blocks f P s \<Longrightarrow> runs ll parent blocks f P {} s (g s) Q"
  unfolding does_def using kept_refl by blast

text \<open>First one generator, then what follows with its value.\<close>

lemma runs_then:
  assumes "does ll parent blocks f s g Q" "active ll parent blocks f P s"
    and "\<And>a s'. kept ll parent {} s s' \<Longrightarrow> active ll parent blocks f P s' \<Longrightarrow> Q a \<Longrightarrow> runs ll parent blocks f P' W s' (h (a, s')) R"
  shows "runs ll parent blocks f P' W s (g s \<bind> h) R"
  by (rule runs_bind0 [OF does_run [OF assms(1,2)] assms(3)])

lemma runs_then_need:
  assumes "does ll parent blocks f s g given" "active ll parent blocks f P s"
    and "\<And>a s'. kept ll parent {} s s' \<Longrightarrow> active ll parent blocks f P s' \<Longrightarrow> runs ll parent blocks f P' W s' (h (a, s')) R"
  shows "runs ll parent blocks f P' W s (g s \<bind> need \<bind> h) R"
  by (rule runs_bind0 [OF runs_need [OF does_run [OF assms(1,2)]] assms(3)])

section \<open>The parts of expressions\<close>

context llvm_laws
begin

lemma runs_build_then:
  assumes "active ll parent blocks f P s" "plain r" "\<not> isTerminator r"
    and "\<And>a s'. kept ll parent {} s s' \<Longrightarrow> active ll parent blocks f P s' \<Longrightarrow> runs ll parent blocks f P' W s' (h (a, s')) R"
  shows "runs ll parent blocks f P' W s (build ll r s \<bind> h) R"
  by (rule runs_bind0 [OF runs_build [OF assms(1-3)] assms(4)])

lemma runs_perform_then:
  assumes "active ll parent blocks f P s" "plain r" "\<not> isTerminator r"
    and "\<And>s'. kept ll parent {} s s' \<Longrightarrow> active ll parent blocks f P s' \<Longrightarrow> runs ll parent blocks f P' W s' (h ((), s')) R"
  shows "runs ll parent blocks f P' W s (perform ll r s \<bind> h) R"
  by (rule runs_bind0 [OF runs_perform [OF assms(1-3)]]) (use assms(4) in simp)

lemma runs_valued_build:
  "active ll parent blocks f P s \<Longrightarrow> plain r \<Longrightarrow> \<not> isTerminator r \<Longrightarrow>
     runs ll parent blocks f P {} s (valued (build ll r) s) given"
  by (rule runs_valued [OF runs_build])

lemma runs_toInt: "active ll parent blocks f P s \<Longrightarrow> runs ll parent blocks f P {} s (toInt ll v s) (\<lambda>_. True)"
  unfolding toInt_def by (rule runs_build) simp_all

lemma runs_isNonzero:
  assumes "active ll parent blocks f P s"
  shows "runs ll parent blocks f P {} s (isNonzero ll (Some t) v s) (\<lambda>_. True)"
proof (cases "t = FloatTy")
  case True
  show ?thesis unfolding isNonzero_def
    by (simp add: True) (rule runs_build_then [OF assms], simp_all, rule runs_build, simp_all)
next
  case False
  show ?thesis unfolding isNonzero_def by (simp add: False) (rule runs_build [OF assms], simp_all)
qed

lemma runs_valueOf:
  "active ll parent blocks f P s \<Longrightarrow> cg_values s i = Some v \<Longrightarrow> runs ll parent blocks f P {} s (valueOf i s) (\<lambda>a. a = v)"
  by (simp add: valueOf_def runs_return)

text \<open>
  A string literal is a constant, and making it keeps whatever requests that are no instructions keep.
\<close>

lemma build_total: obtains v m' where "build ll r s = Some (v, s\<lparr>cg_module := m'\<rparr>)" "lv_build ll r (cg_module s) = (v, m')"
  by (cases "lv_build ll r (cg_module s)") (simp add: build_def)

lemma stringLiteral_gives:
  assumes step: "\<And>r s v m'. I s \<Longrightarrow> \<not> isInstruction r \<Longrightarrow> lv_build ll r (cg_module s) = (v, m') \<Longrightarrow> I (s\<lparr>cg_module := m'\<rparr>)"
    and strings: "\<And>s t. I s \<Longrightarrow> I (s\<lparr>cg_strings := t\<rparr>)"
    and s: "I s" "stringsOk ll s"
  shows "\<exists>v s'. stringLiteral ll b s = Some (v, s') \<and> kept ll parent {} s s' \<and> I s' \<and> stringsOk ll s' \<and>
    lv_isConstant ll (cg_module s') v"
proof (cases "cg_strings s b")
  case (Some v)
  thus ?thesis using s by (auto simp: stringLiteral_def stringsOk_def intro: kept_refl)
next
  case None
  obtain d m1 where b1: "build ll (GetString b True) s = Some (d, s\<lparr>cg_module := m1\<rparr>)"
    and l1: "lv_build ll (GetString b True) (cg_module s) = (d, m1)" by (rule build_total)
  let ?s1 = "s\<lparr>cg_module := m1\<rparr>" and ?r = "NewGlobal (lv_type ll m1 d) True PrivateLinkage d ''.str''"
  obtain v m2 where b2: "build ll ?r ?s1 = Some (v, ?s1\<lparr>cg_module := m2\<rparr>)"
    and l2: "lv_build ll ?r (cg_module ?s1) = (v, m2)" by (rule build_total)
  let ?s2 = "?s1\<lparr>cg_module := m2\<rparr>" and ?q = "SetUnnamedAddr v"
  let ?s3 = "?s2\<lparr>cg_strings := (cg_strings s)(b \<mapsto> v)\<rparr>"
  obtain u m4 where b4: "build ll ?q ?s3 = Some (u, ?s3\<lparr>cg_module := m4\<rparr>)"
    and l4: "lv_build ll ?q (cg_module ?s3) = (u, m4)" by (rule build_total)
  let ?s4 = "?s3\<lparr>cg_module := m4\<rparr>"
  have ok: "I ?s4"
    by (rule step [OF strings [OF step [OF step [OF s(1) _ l1] _ l2]] _ l4]) simp_all
  have c: "lv_isConstant ll (cg_module ?s3) v" using new_global l2 by simp
  have "stringsOk ll ?s2" by (rule stringsOk_build [OF stringsOk_build [OF s(2) l1] l2])
  hence "stringsOk ll ?s3" using c by (auto simp: stringsOk_def)
  hence "stringsOk ll ?s4" by (rule stringsOk_build [OF _ l4])
  moreover have "kept ll parent {} s ?s2" by (rule kept_trans0 [OF build_kept [OF l1] build_kept [OF l2]]) simp_all
  hence "kept ll parent {} s ?s3" by (simp add: kept_def)
  hence "kept ll parent {} s ?s4" by (rule kept_trans0 [OF _ build_kept [OF l4]]) simp
  moreover have "lv_isConstant ll (cg_module ?s4) v" using constants_stay [OF l4] c by simp
  moreover have "stringLiteral ll b s = Some (v, ?s4)"
    using b1 b2 b4 None by (simp add: stringLiteral_def perform_def)
  ultimately show ?thesis using ok by blast
qed

lemma runs_stringLiteral:
  assumes a: "active ll parent blocks f P s"
  shows "runs ll parent blocks f P {} s (stringLiteral ll b s) (\<lambda>_. True)"
proof -
  let ?I = "\<lambda>s. cg_fn s = Some f \<and> openAt ll parent blocks f P (cg_module s)"
  have "\<exists>v s'. stringLiteral ll b s = Some (v, s') \<and> kept ll parent {} s s' \<and> ?I s' \<and> stringsOk ll s' \<and>
      lv_isConstant ll (cg_module s') v"
  proof (rule stringLiteral_gives [of ?I])
    fix r s v m'
    assume s: "?I s" "\<not> isInstruction r" "lv_build ll r (cg_module s) = (v, m')"
    have "plain r" "\<not> isTerminator r" using s(2) by (cases r; simp)+
    thus "?I (s\<lparr>cg_module := m'\<rparr>)" using plain_open [OF _ _ _ s(3)] s(1) by simp
  qed (use a in \<open>simp_all add: active_def\<close>)
  thus ?thesis by (auto simp: runs_def active_def)
qed

lemma runs_unary:
  assumes a: "active ll parent blocks f P s"
    and operand: "op \<noteq> UO_AddrOf \<Longrightarrow> op \<noteq> UO_Not \<Longrightarrow> does ll parent blocks f s operand given"
    and address: "op = UO_AddrOf \<Longrightarrow> does ll parent blocks f s address (\<lambda>_. True)"
    and cond: "op = UO_Not \<Longrightarrow> does ll parent blocks f s cond (\<lambda>_. True)"
  shows "runs ll parent blocks f P {} s (unaryCode ll op (Some t) operand address cond s) given"
proof (cases op)
  case UO_Plus
  have "does ll parent blocks f s operand given" using operand UO_Plus by simp
  thus ?thesis by (simp add: unaryCode_def UO_Plus does_run [OF _ a])
next
  case UO_Minus
  hence "does ll parent blocks f s operand given" using operand by simp
  thus ?thesis
    unfolding unaryCode_def UO_Minus unary_op.case by (rule runs_then_need [OF _ a]) (simp add: runs_valued_build)
next
  case UO_Not
  show ?thesis
    by (simp add: unaryCode_def UO_Not, rule runs_then [OF cond [OF UO_Not] a], simp, rule runs_build_then, simp_all)
      (rule runs_valued [OF runs_toInt])
next
  case UO_Deref
  hence "does ll parent blocks f s operand given" using operand by simp
  thus ?thesis
    unfolding unaryCode_def UO_Deref unary_op.case by (rule runs_then_need [OF _ a]) (simp add: runs_valued_build)
next
  case UO_AddrOf
  show ?thesis unfolding unaryCode_def UO_AddrOf unary_op.case
    by (rule runs_valued) (rule does_run [OF address [OF UO_AddrOf] a])
qed

lemma runs_binary:
  assumes a: "active ll parent blocks f P s"
  shows "runs ll parent blocks f P {} s (binaryCode ll op lt rt l r s) (\<lambda>_. True)"
proof -
  consider (add) "isPointer lt \<and> (op = BO_Add \<or> (op = BO_Sub \<and> \<not> isPointer rt))"
    | (sub) "\<not> (isPointer lt \<and> (op = BO_Add \<or> (op = BO_Sub \<and> \<not> isPointer rt)))" "isPointer lt \<and> op = BO_Sub"
    | (other) "\<not> (isPointer lt \<and> (op = BO_Add \<or> (op = BO_Sub \<and> \<not> isPointer rt)))" "\<not> (isPointer lt \<and> op = BO_Sub)"
    by blast
  thus ?thesis
  proof cases
    case add
    have g: "runs ll parent blocks f P {} s (build ll (InBoundsGEP (lower (pointee lt)) l w) s) (\<lambda>_. True)"
      if "active ll parent blocks f P s" for w s by (rule runs_build [OF that]) simp_all
    have neg: "runs ll parent blocks f P {} s
        (build ll (Unop U_Neg v) s \<bind> (\<lambda>(x, y). build ll (InBoundsGEP (lower (pointee lt)) l x) y)) (\<lambda>_. True)"
      if "active ll parent blocks f P s" for v s by (rule runs_build_then [OF that]) (simp_all add: g)
    show ?thesis
      unfolding binaryCode_def if_P [OF add] by (rule runs_build_then [OF a]) (simp_all add: g neg)
  next
    case sub
    show ?thesis
      unfolding binaryCode_def if_not_P [OF sub(1)] if_P [OF sub(2)]
      by (rule runs_build_then [OF a]) (simp_all add: runs_build)
  next
    case other
    show ?thesis
    proof (cases "arithRequest op (lt = FloatTy)")
      case None
      show ?thesis
        unfolding binaryCode_def if_not_P [OF other(1)] if_not_P [OF other(2)] None option.case
        by (rule runs_build_then [OF a]) (simp_all add: runs_toInt)
    next
      case (Some q)
      show ?thesis
        unfolding binaryCode_def if_not_P [OF other(1)] if_not_P [OF other(2)] Some option.case
        by (rule runs_build [OF a]) simp_all
    qed
  qed
qed

lemma runs_cast:
  assumes a: "active ll parent blocks f P s"
    and operand: "k \<noteq> CK_ArrayToPointer \<Longrightarrow> k \<noteq> CK_NullToPointer \<Longrightarrow> does ll parent blocks f s operand (\<lambda>v. k = CK_ToVoid \<or> given v)"
    and address: "k = CK_ArrayToPointer \<Longrightarrow> does ll parent blocks f s address (\<lambda>_. True)"
    and k: "k \<noteq> CK_Unresolved"
  shows "runs ll parent blocks f P {} s (castCode ll k (Some t) operand address s) (\<lambda>v. k = CK_ToVoid \<or> given v)"
proof (cases "k = CK_ArrayToPointer \<or> k = CK_NullToPointer")
  case True
  have "runs ll parent blocks f P {} s (castCode ll k (Some t) operand address s) given"
  proof (cases "k = CK_ArrayToPointer")
    case arr: True
    have "runs ll parent blocks f P {} s (address s) (\<lambda>_. True)" by (rule does_run [OF address [OF arr] a])
    thus ?thesis unfolding castCode_def if_P [OF arr] by (rule runs_valued)
  next
    case arr: False
    show ?thesis using True arr runs_valued_build [OF a, of GetNullPointer] by (simp add: castCode_def)
  qed
  thus ?thesis by (rule runs_mono) simp
next
  case False
  have o1: "does ll parent blocks f s operand (\<lambda>v. k = CK_ToVoid \<or> given v)" using operand False by blast
  have conv: "runs ll parent blocks f P {} s' (valued (build ll (Convert c v u)) s') (\<lambda>v. k = CK_ToVoid \<or> given v)"
    if "active ll parent blocks f P s'" for c v u s'
    by (rule runs_mono [OF runs_valued_build [OF that]]) simp_all
  show ?thesis
    unfolding castCode_def using False
  proof (simp, intro runs_then [OF o1 a], simp)
    fix v :: "'v option" and s1
    assume a1: "active ll parent blocks f P s1" and v: "k = CK_ToVoid \<or> given v"
    show "runs ll parent blocks f P {} s1
        (case k of CK_NoOp \<Rightarrow> Some (v, s1) | CK_PointerCast \<Rightarrow> Some (v, s1)
          | CK_IntegralCast \<Rightarrow> need (v, s1) \<bind> (\<lambda>(v, y). valued (build ll (Convert SExtOrTrunc v (lower t))) y)
          | CK_IntToFloat \<Rightarrow> need (v, s1) \<bind> (\<lambda>(v, y). valued (build ll (Convert SIToFP v (lower t))) y)
          | CK_FloatToInt \<Rightarrow> need (v, s1) \<bind> (\<lambda>(v, y). valued (build ll (Convert FPToSI v (lower t))) y)
          | CK_PointerToInt \<Rightarrow> need (v, s1) \<bind> (\<lambda>(v, y). valued (build ll (Convert PtrToInt v (lower t))) y)
          | CK_IntToPointer \<Rightarrow> need (v, s1) \<bind> (\<lambda>(v, s). build ll (Convert SExt v (LL_Int 64)) s \<bind>
              (\<lambda>(v, y). valued (build ll (Convert IntToPtr v (lower t))) y))
          | CK_ToVoid \<Rightarrow> Some (None, s1) | _ \<Rightarrow> None) (\<lambda>v. k = CK_ToVoid \<or> given v)"
    proof (cases "k = CK_IntToPointer")
      case True
      then obtain w where w: "v = Some w" using v by (auto simp: given_def)
      have "runs ll parent blocks f P {} s1 (build ll (Convert SExt w (LL_Int 64)) s1 \<bind>
          (\<lambda>(v, y). valued (build ll (Convert IntToPtr v (lower t))) y)) (\<lambda>v. k = CK_ToVoid \<or> given v)"
        by (rule runs_build_then [OF a1]) (simp_all add: conv)
      thus ?thesis using True w by (simp add: need_def)
    next
      case other: False
      thus ?thesis using v k False conv [OF a1] by (cases k) (auto simp: need_def given_def intro: runs_return [OF a1])
    qed
  qed
qed


lemma runs_joined:
  assumes a: "active ll parent blocks f (insert c P) s" and c: "c \<notin> P"
  shows "runs ll parent blocks f P {} s
    (perform ll (Br c) s \<bind> (\<lambda>(_, s). startBlock ll c s \<bind> (\<lambda>(_, s). build ll (PHI (LL_Int 1) 2) s \<bind>
      (\<lambda>(phi, s). build ll (GetInt1 b) s \<bind> (\<lambda>(known, s). perform ll (AddIncoming phi known b1) s \<bind>
      (\<lambda>(_, s). perform ll (AddIncoming phi w b2) s \<bind> (\<lambda>(_, s). toInt ll phi s))))))) (\<lambda>_. True)"
proof (rule runs_branch_start [OF a _ c], simp, simp, unfold prod.case)
  fix s1
  assume a1: "active ll parent blocks f P s1"
  have inc: "runs ll parent blocks f P {} s (perform ll (AddIncoming phi known b1) s \<bind>
      (\<lambda>(_, s). perform ll (AddIncoming phi w b2) s \<bind> (\<lambda>(_, s). toInt ll phi s))) (\<lambda>_. True)"
    if "active ll parent blocks f P s" for s phi known
    by (rule runs_perform_then [OF that], simp, simp, unfold prod.case, rule runs_perform_then, assumption)
      (simp_all add: runs_toInt)
  show "runs ll parent blocks f P {} s1 (build ll (PHI (LL_Int 1) 2) s1 \<bind>
      (\<lambda>(phi, s). build ll (GetInt1 b) s \<bind> (\<lambda>(known, s). perform ll (AddIncoming phi known b1) s \<bind>
      (\<lambda>(_, s). perform ll (AddIncoming phi w b2) s \<bind> (\<lambda>(_, s). toInt ll phi s))))) (\<lambda>_. True)"
    by (rule runs_build_then [OF a1], simp, simp, unfold prod.case, rule runs_build_then, assumption) (simp_all add: inc)
qed

lemma runs_logical:
  assumes a: "active ll parent blocks f P s"
    and left: "does ll parent blocks f s left (\<lambda>_. True)"
    and right: "does ll parent blocks f s right (\<lambda>_. True)"
  shows "runs ll parent blocks f P {} s (logicalCode ll isAnd left right s) (\<lambda>_. True)"
  unfolding logicalCode_def
proof (rule runs_then [OF left a], unfold prod.case Let_def, rule runs_new_block, assumption, unfold prod.case,
    rule runs_new_block, assumption, unfold prod.case)
  fix lhs s1 rhsBB s2 endBB s3
  assume k1: "kept ll parent {} s s1" and k2: "kept ll parent {} s1 s2" and k3: "kept ll parent {} s2 s3"
    and a3: "active ll parent blocks f (insert endBB (insert rhsBB P)) s3"
    and new: "rhsBB \<notin> P" "endBB \<notin> insert rhsBB P"
  let ?r = "if isAnd then CondBr lhs rhsBB endBB else CondBr lhs endBB rhsBB"
  note later = does_later [OF right kept_trans0 [OF kept_trans0 [OF k1 kept_trans0 [OF k2 k3]]]]
  have a3': "active ll parent blocks f (insert rhsBB (insert endBB P)) s3" using a3 by (simp add: insert_commute)
  show "runs ll parent blocks f P {} s3
      (perform ll ?r s3 \<bind> (\<lambda>(_, s). startBlock ll rhsBB s \<bind> (\<lambda>(_, s). right s \<bind> (\<lambda>(rhs, s).
        perform ll (Br endBB) s \<bind> (\<lambda>(_, sa). startBlock ll endBB sa \<bind> (\<lambda>(_, sa). build ll (PHI (LL_Int 1) 2) sa \<bind>
        (\<lambda>(phi, sa). build ll (GetInt1 (\<not> isAnd)) sa \<bind> (\<lambda>(known, sa).
          perform ll (AddIncoming phi known (lv_insertBlock ll (cg_module s1))) sa \<bind>
        (\<lambda>(_, sa). perform ll (AddIncoming phi rhs (lv_insertBlock ll (cg_module s))) sa \<bind>
        (\<lambda>(_, y). toInt ll phi y)))))))))) (\<lambda>_. True)"
  proof (rule runs_branch_start [OF a3'])
    show "isTerminator ?r" "rhsBB \<notin> insert endBB P" using new by auto
    fix t
    assume "t \<in> targets ?r"
    thus "parent (cg_module s3) t = Some f \<or> t \<in> insert rhsBB (insert endBB P)" by (auto split: if_splits)
  next
    fix s4
    assume k4: "kept ll parent {} s3 s4" and a4: "active ll parent blocks f (insert endBB P) s4"
    show "runs ll parent blocks f P {} s4 (case ((), s4) of (_, s) \<Rightarrow> right s \<bind> (\<lambda>(rhs, s).
        perform ll (Br endBB) s \<bind> (\<lambda>(_, sa). startBlock ll endBB sa \<bind> (\<lambda>(_, sa). build ll (PHI (LL_Int 1) 2) sa \<bind>
        (\<lambda>(phi, sa). build ll (GetInt1 (\<not> isAnd)) sa \<bind> (\<lambda>(known, sa).
          perform ll (AddIncoming phi known (lv_insertBlock ll (cg_module s1))) sa \<bind>
        (\<lambda>(_, sa). perform ll (AddIncoming phi rhs (lv_insertBlock ll (cg_module s))) sa \<bind>
        (\<lambda>(_, y). toInt ll phi y)))))))) (\<lambda>_. True)"
      unfolding prod.case
      by (rule runs_bind0 [OF does_run [OF later [OF k4] a4]], unfold prod.case)
        (rule runs_joined, use new in auto)
  qed
qed

end

section \<open>Expressions\<close>

text \<open>
  What is proved of an expression: where the names in scope have values, its rvalue is generated,
  and is not null unless it is void, and its address is when it has one.
\<close>

definition codeOk :: "('v, 'm) llvm \<Rightarrow> ('m \<Rightarrow> 'v \<Rightarrow> 'v option) \<Rightarrow> ('m \<Rightarrow> 'v set) \<Rightarrow> (fp \<Rightarrow> i64) \<Rightarrow> scope list \<Rightarrow> 'v \<Rightarrow> expr \<Rightarrow> bool" where
  "codeOk ll parent blocks ub scs f e \<longleftrightarrow>
     (\<forall>s. wellTyped ub scs e \<longrightarrow> plainExpr e \<longrightarrow> bound ll scs s \<longrightarrow>
        does ll parent blocks f s (rvalue ll e) (\<lambda>v. expr_type e = Some VoidTy \<or> given v) \<and>
        (addressed e \<longrightarrow> does ll parent blocks f s (lvalue ll e) (\<lambda>_. True)))"

lemma codeOkI:
  assumes "\<And>P s t. wellTyped ub scs e \<Longrightarrow> plainExpr e \<Longrightarrow> bound ll scs s \<Longrightarrow> active ll parent blocks f P s \<Longrightarrow> expr_type e = Some t \<Longrightarrow>
      runs ll parent blocks f P {} s (rvalue ll e s) (\<lambda>v. t = VoidTy \<or> given v)"
    and "\<And>P s t. wellTyped ub scs e \<Longrightarrow> plainExpr e \<Longrightarrow> bound ll scs s \<Longrightarrow> active ll parent blocks f P s \<Longrightarrow> expr_type e = Some t \<Longrightarrow>
      addressed e \<Longrightarrow> runs ll parent blocks f P {} s (lvalue ll e s) (\<lambda>_. True)"
  shows "codeOk ll parent blocks ub scs f e"
  unfolding codeOk_def
proof (intro allI impI conjI doesI)
  fix s P s'
  assume e: "wellTyped ub scs e" "plainExpr e" and b: "bound ll scs s" and k: "kept ll parent {} s s'"
    and a: "active ll parent blocks f P s'"
  obtain t where t: "expr_type e = Some t" using wellTyped_type [OF e(1)] by blast
  show "runs ll parent blocks f P {} s' (rvalue ll e s') (\<lambda>v. expr_type e = Some VoidTy \<or> given v)"
    using assms(1) [OF e bound_kept [OF b k] a t] t by simp
  show "addressed e \<Longrightarrow> runs ll parent blocks f P {} s' (lvalue ll e s') (\<lambda>_. True)"
    using assms(2) [OF e bound_kept [OF b k] a t] .
qed

lemma codeOk_any:
  "codeOk ll parent blocks ub scs f e \<Longrightarrow> wellTyped ub scs e \<Longrightarrow> plainExpr e \<Longrightarrow> bound ll scs s \<Longrightarrow>
     does ll parent blocks f s (rvalue ll e) (\<lambda>v. expr_type e = Some VoidTy \<or> given v)"
  unfolding codeOk_def by blast

lemma codeOk_value:
  assumes "codeOk ll parent blocks ub scs f e" "wellTyped ub scs e" "plainExpr e" "bound ll scs s" "expr_type e \<noteq> Some VoidTy"
  shows "does ll parent blocks f s (rvalue ll e) given"
proof -
  have "(\<lambda>v. expr_type e = Some VoidTy \<or> given v) = given" using assms(5) by auto
  thus ?thesis using codeOk_any [OF assms(1-4)] by metis
qed

lemma codeOk_address:
  "codeOk ll parent blocks ub scs f e \<Longrightarrow> wellTyped ub scs e \<Longrightarrow> plainExpr e \<Longrightarrow> bound ll scs s \<Longrightarrow> addressed e \<Longrightarrow>
     does ll parent blocks f s (lvalue ll e) (\<lambda>_. True)"
  unfolding codeOk_def by blast

context llvm_laws
begin

lemma codeOk_condition:
  assumes "codeOk ll parent blocks ub scs f e" "wellTyped ub scs e" "plainExpr e" "bound ll scs s" "expr_type e \<noteq> Some VoidTy"
  shows "does ll parent blocks f s (condition ll e) (\<lambda>_. True)"
proof (rule doesI)
  fix P s'
  assume k: "kept ll parent {} s s'" and a: "active ll parent blocks f P s'"
  obtain t where t: "expr_type e = Some t" using wellTyped_type [OF assms(2)] by blast
  have "runs ll parent blocks f P {} s' (rvalue ll e s' \<bind> need \<bind> (\<lambda>(v, s). isNonzero ll (Some t) v s)) (\<lambda>_. True)"
    by (rule runs_then_need [OF codeOk_value [OF assms(1-3) bound_kept [OF assms(4) k] assms(5)] a])
      (simp add: runs_isNonzero)
  thus "runs ll parent blocks f P {} s' (condition ll e s') (\<lambda>_. True)" by (simp add: t)
qed

lemma callArgs_does:
  assumes "\<forall>a \<in> set args. codeOk ll parent blocks ub scs f a \<and> wellTyped ub scs a \<and> plainExpr a \<and> expr_type a \<noteq> Some VoidTy"
    and "bound ll scs s"
  shows "does ll parent blocks f s (callArgs ll k i args) (\<lambda>_. True)"
  using assms
proof (induction args arbitrary: i s)
  case Nil
  show ?case by (rule doesI) (simp add: runs_return)
next
  case (Cons x args)
  show ?case
  proof (rule doesI)
    fix P s'
    assume k: "kept ll parent {} s s'" and a: "active ll parent blocks f P s'"
    have b: "bound ll scs s'" by (rule bound_kept [OF Cons.prems(2) k])
    have x: "does ll parent blocks f s' (rvalue ll x) given"
      using Cons.prems(1) by (intro codeOk_value [OF _ _ _ b]) auto
    have rest: "runs ll parent blocks f P {} s2 (callArgs ll k (i + 1) args s2 \<bind> (\<lambda>(vs, s). Some (v # vs, s))) (\<lambda>_. True)"
      if "kept ll parent {} s' s2" "active ll parent blocks f P s2" for v s2
      by (rule runs_then [OF Cons.IH that(2)]) (use Cons.prems(1) bound_kept [OF b that(1)] in \<open>simp_all add: runs_return\<close>)
    show "runs ll parent blocks f P {} s' (callArgs ll k i (x # args) s') (\<lambda>_. True)"
      unfolding callArgs.simps
    proof (rule runs_then_need [OF x a], unfold prod.case)
      fix v s1
      assume k1: "kept ll parent {} s' s1" and a1: "active ll parent blocks f P s1"
      let ?rest = "\<lambda>(v, s). callArgs ll k (i + 1) args s \<bind> (\<lambda>(vs, s). Some (v # vs, s))"
      show "runs ll parent blocks f P {} s1
          ((if k \<le> i \<and> lv_type ll (cg_module s1) v = LL_Float then build ll (Convert FPExt v LL_Double) s1
            else Some (v, s1)) \<bind> ?rest) (\<lambda>_. True)"
      proof (cases "k \<le> i \<and> lv_type ll (cg_module s1) v = LL_Float")
        case True
        show ?thesis unfolding if_P [OF True]
          by (rule runs_build_then [OF a1]) (use rest kept_trans0 [OF k1] in simp_all)
      next
        case False
        show ?thesis unfolding if_not_P [OF False] using rest [OF k1 a1] by simp
      qed
    qed
  qed
qed

text \<open>The cases.\<close>

lemma codeOk_unary:
  assumes "codeOk ll parent blocks ub scs f x"
  shows "codeOk ll parent blocks ub scs f (Expr (Unary op x) l t c)"
proof (rule codeOkI)
  fix P s u
  assume e: "wellTyped ub scs (Expr (Unary op x) l t c)" "plainExpr (Expr (Unary op x) l t c)"
    and b: "bound ll scs s" and a: "active ll parent blocks f P s" and u: "expr_type (Expr (Unary op x) l t c) = Some u"
  have x: "wellTyped ub scs x" "plainExpr x" and ok: "unaryOk op (the (expr_type x)) (category x) u c" using e u by auto
  obtain tx where tx: "expr_type x = Some tx" using wellTyped_type [OF x(1)] by blast
  have nv: "op \<noteq> UO_AddrOf \<Longrightarrow> expr_type x \<noteq> Some VoidTy"
    using ok tx by (auto simp: unaryOk_def computes_def isScalar_def isArithmetic_def split: unary_op.splits)
  have "runs ll parent blocks f P {} s (unaryCode ll op (Some u) (rvalue ll x) (lvalue ll x) (condition ll x) s) given"
  proof (rule runs_unary [OF a])
    show "op \<noteq> UO_AddrOf \<Longrightarrow> op \<noteq> UO_Not \<Longrightarrow> does ll parent blocks f s (rvalue ll x) given"
      using codeOk_value [OF assms x b] nv by blast
    show "op = UO_Not \<Longrightarrow> does ll parent blocks f s (condition ll x) (\<lambda>_. True)"
      using codeOk_condition [OF assms x b] nv by blast
    assume "op = UO_AddrOf"
    hence "addressed x" using ok lvalue_addressed [OF x(1)] by (simp add: unaryOk_def)
    thus "does ll parent blocks f s (lvalue ll x) (\<lambda>_. True)" by (rule codeOk_address [OF assms x b])
  qed
  thus "runs ll parent blocks f P {} s (rvalue ll (Expr (Unary op x) l t c) s) (\<lambda>v. u = VoidTy \<or> given v)"
    using u by (auto intro: runs_mono)
  assume "addressed (Expr (Unary op x) l t c)"
  hence op: "op = UO_Deref" by (simp add: addressed_def)
  have "does ll parent blocks f s (rvalue ll x) given" using codeOk_value [OF assms x b] nv op by blast
  thus "runs ll parent blocks f P {} s (lvalue ll (Expr (Unary op x) l t c) s) (\<lambda>_. True)"
    using runs_need [OF does_run [OF _ a]] op by simp
qed

lemma codeOk_binary:
  assumes "codeOk ll parent blocks ub scs f p" "codeOk ll parent blocks ub scs f q"
  shows "codeOk ll parent blocks ub scs f (Expr (Binary op p q) l t c)"
proof (rule codeOkI)
  fix P s u
  assume e: "wellTyped ub scs (Expr (Binary op p q) l t c)" "plainExpr (Expr (Binary op p q) l t c)"
    and b: "bound ll scs s" and a: "active ll parent blocks f P s" and u: "expr_type (Expr (Binary op p q) l t c) = Some u"
  have p: "wellTyped ub scs p" "plainExpr p" and q: "wellTyped ub scs q" "plainExpr q"
    and ok: "binaryOk op (the (expr_type p)) (the (expr_type q)) u" using e u by auto
  obtain tp tq where tp: "expr_type p = Some tp" and tq: "expr_type q = Some tq"
    using wellTyped_type [OF p(1)] wellTyped_type [OF q(1)] by blast
  have nv: "expr_type p \<noteq> Some VoidTy" "expr_type q \<noteq> Some VoidTy"
    using ok tp tq by (auto simp: binaryOk_def computes_def completePointer_def isScalar_def isArithmetic_def split: if_splits)
  show "runs ll parent blocks f P {} s (rvalue ll (Expr (Binary op p q) l t c) s) (\<lambda>v. u = VoidTy \<or> given v)"
  proof (cases "op = BO_LogAnd \<or> op = BO_LogOr")
    case True
    have "runs ll parent blocks f P {} s (valued (logicalCode ll (op = BO_LogAnd) (condition ll p) (condition ll q)) s) given"
      by (rule runs_valued, rule runs_logical [OF a codeOk_condition [OF assms(1) p b nv(1)] codeOk_condition [OF assms(2) q b nv(2)]])
    thus ?thesis using True by (auto intro: runs_mono)
  next
    case False
    have "runs ll parent blocks f P {} s (rvalue ll p s \<bind> need \<bind> (\<lambda>(v, s). rvalue ll q s \<bind> need \<bind>
        (\<lambda>(w, s). valued (binaryCode ll op tp tq v w) s))) given"
    proof (rule runs_then_need [OF codeOk_value [OF assms(1) p b nv(1)] a], unfold prod.case)
      fix v s1
      assume k1: "kept ll parent {} s s1" and a1: "active ll parent blocks f P s1"
      show "runs ll parent blocks f P {} s1 (rvalue ll q s1 \<bind> need \<bind>
          (\<lambda>(w, s). valued (binaryCode ll op tp tq v w) s)) given"
        by (rule runs_then_need [OF codeOk_value [OF assms(2) q bound_kept [OF b k1] nv(2)] a1], unfold prod.case)
          (rule runs_valued, rule runs_binary)
    qed
    thus ?thesis using False tp tq by (auto intro: runs_mono)
  qed
qed (simp add: addressed_def)

lemma codeOk_assign:
  assumes "codeOk ll parent blocks ub scs f p" "codeOk ll parent blocks ub scs f q"
  shows "codeOk ll parent blocks ub scs f (Expr (Assign p q) l t c)"
proof (rule codeOkI)
  fix P s u
  assume e: "wellTyped ub scs (Expr (Assign p q) l t c)" "plainExpr (Expr (Assign p q) l t c)"
    and b: "bound ll scs s" and a: "active ll parent blocks f P s" and u: "expr_type (Expr (Assign p q) l t c) = Some u"
  have p: "wellTyped ub scs p" "plainExpr p" and q: "wellTyped ub scs q" "plainExpr q"
    and ok: "category p = LValue" "expr_type p = Some u" "expr_type q = Some u" "valueType u" using e u by auto
  have ap: "addressed p" by (rule lvalue_addressed [OF p(1) ok(1)])
  have "u \<noteq> VoidTy"
  proof (cases p)
    case (Expr n l' t' c')
    thus ?thesis using ap p(1) ok b
      by (cases n) (auto simp: addressed_def valueType_def unaryOk_def bound_def split: option.splits)
  qed
  hence nv: "expr_type q \<noteq> Some VoidTy" using ok by simp
  have "runs ll parent blocks f P {} s (rvalue ll q s \<bind> need \<bind> (\<lambda>(v, s). lvalue ll p s \<bind>
      (\<lambda>(d, s). perform ll (Store v d) s \<bind> (\<lambda>(_, s). Some (Some v, s))))) given"
  proof (rule runs_then_need [OF codeOk_value [OF assms(2) q b nv] a], unfold prod.case)
    fix v s1
    assume k1: "kept ll parent {} s s1" and a1: "active ll parent blocks f P s1"
    show "runs ll parent blocks f P {} s1 (lvalue ll p s1 \<bind>
        (\<lambda>(d, s). perform ll (Store v d) s \<bind> (\<lambda>(_, s). Some (Some v, s)))) given"
      by (rule runs_then [OF codeOk_address [OF assms(1) p bound_kept [OF b k1] ap] a1], unfold prod.case)
        (rule runs_perform_then, assumption, simp_all add: runs_return)
  qed
  thus "runs ll parent blocks f P {} s (rvalue ll (Expr (Assign p q) l t c) s) (\<lambda>v. u = VoidTy \<or> given v)"
    by (auto intro: runs_mono)
qed (simp add: addressed_def)

lemma codeOk_call:
  assumes "\<forall>x \<in> set args. codeOk ll parent blocks ub scs f x"
  shows "codeOk ll parent blocks ub scs f (Expr (Call g args) l t c)"
proof (rule codeOkI)
  fix P s u
  assume e: "wellTyped ub scs (Expr (Call g args) l t c)" "plainExpr (Expr (Call g args) l t c)"
    and b: "bound ll scs s" and a: "active ll parent blocks f P s"
  have g: "wellTyped ub scs g" "plainExpr g" and args: "\<forall>x \<in> set args. wellTyped ub scs x \<and> plainExpr x"
    using e by (auto simp: list_all_iff)
  obtain tg where tg: "expr_type g = Some tg" using wellTyped_type [OF g(1)] by blast
  have fn: "isFunction tg" and ok: "argsOk tg args" using e tg by auto
  obtain x i y where n: "node g = DeclRef x i" "lookup scs x = Some y" "sym_id y = i" "sym_type y = tg"
    using function_named [OF g tg fn] .
  then obtain v where v: "cg_values s i = Some v" "lv_isFunction ll (cg_module s) v"
    using b fn unfolding bound_def by blast
  have nv: "\<forall>x \<in> set args. expr_type x \<noteq> Some VoidTy"
    using argsOk_values [OF ok plainExpr_type [OF g(2) tg] fn] by blast
  have "does ll parent blocks f s (callArgs ll k 0 args) (\<lambda>_. True)" for k
    by (rule callArgs_does [OF _ b]) (use assms args nv in blast)
  hence "runs ll parent blocks f P {} s (callArgs ll k 0 args s \<bind>
      (\<lambda>(vs, s). valued (build ll (CallFunction (lv_functionType ll (cg_module s) v) v vs)) s)) given" for k
    by (rule runs_then [OF _ a], unfold prod.case) (rule runs_valued_build, simp_all)
  moreover have "callee ll g s = Some (v, s)" using n(1) v by (simp add: callee_def valueOf_def)
  ultimately have "runs ll parent blocks f P {} s (rvalue ll (Expr (Call g args) l t c) s) given" by simp
  thus "runs ll parent blocks f P {} s (rvalue ll (Expr (Call g args) l t c) s) (\<lambda>v. u = VoidTy \<or> given v)"
    by (rule runs_mono) simp
qed (simp add: addressed_def)

lemma codeOk_cast:
  assumes "codeOk ll parent blocks ub scs f x"
  shows "codeOk ll parent blocks ub scs f (Expr (Cast k imp x) l t c)"
proof (rule codeOkI)
  fix P s u
  assume e: "wellTyped ub scs (Expr (Cast k imp x) l t c)" "plainExpr (Expr (Cast k imp x) l t c)"
    and b: "bound ll scs s" and a: "active ll parent blocks f P s" and u: "expr_type (Expr (Cast k imp x) l t c) = Some u"
  have x: "wellTyped ub scs x" "plainExpr x" and ok: "castOk ub k x (the (expr_type x)) u" using e u by auto
  obtain tx where tx: "expr_type x = Some tx" using wellTyped_type [OF x(1)] by blast
  have cast: "castOk ub k x tx u" using ok tx by simp
  have nv: "k \<noteq> CK_NullToPointer \<Longrightarrow> k \<noteq> CK_ToVoid \<Longrightarrow> tx \<noteq> VoidTy"
    using cast by (cases k) (auto simp: castOk_def isArithmetic_def isInteger_iff)
  have operand: "does ll parent blocks f s (rvalue ll x) (\<lambda>v. k = CK_ToVoid \<or> given v)"
    if "k \<noteq> CK_ArrayToPointer" "k \<noteq> CK_NullToPointer"
  proof (rule doesI)
    fix P' s'
    assume s': "kept ll parent {} s s'" "active ll parent blocks f P' s'"
    have "runs ll parent blocks f P' {} s' (rvalue ll x s') (\<lambda>v. expr_type x = Some VoidTy \<or> given v)"
      by (rule doesD [OF codeOk_any [OF assms x b] s'])
    thus "runs ll parent blocks f P' {} s' (rvalue ll x s') (\<lambda>v. k = CK_ToVoid \<or> given v)"
      by (rule runs_mono) (use nv that tx in auto)
  qed
  have "runs ll parent blocks f P {} s (castCode ll k (Some u) (rvalue ll x) (lvalue ll x) s) (\<lambda>v. k = CK_ToVoid \<or> given v)"
  proof (rule runs_cast [OF a operand])
    show "k \<noteq> CK_Unresolved" using cast by (auto simp: castOk_def)
    assume "k = CK_ArrayToPointer"
    hence "addressed x" using cast array_addressed [OF x tx] by (simp add: castOk_def)
    thus "does ll parent blocks f s (lvalue ll x) (\<lambda>_. True)" by (rule codeOk_address [OF assms x b])
  qed simp_all
  moreover have "k = CK_ToVoid \<Longrightarrow> u = VoidTy" using cast by (simp add: castOk_def)
  ultimately show "runs ll parent blocks f P {} s (rvalue ll (Expr (Cast k imp x) l t c) s) (\<lambda>v. u = VoidTy \<or> given v)"
    using u by (auto elim!: runs_mono)
qed (simp add: addressed_def)

theorem expressions_generate:
  "codeOk ll parent blocks ub scs f e"
  "codeOk ll parent blocks ub scs f (Expr n l t c)"
proof (induction e and n arbitrary: and l t c)
  case (Expr n l t c)
  thus ?case by blast
next
  case (IntLiteral v)
  show ?case
    by (rule codeOkI) (auto simp: addressed_def intro!: runs_mono [OF runs_valued_build])
next
  case (FloatLiteral v)
  show ?case
    by (rule codeOkI) (auto simp: addressed_def intro!: runs_mono [OF runs_valued_build])
next
  case (StringLiteral b)
  show ?case
    by (rule codeOkI) (auto simp: runs_stringLiteral intro!: runs_mono [OF runs_valued [OF runs_stringLiteral]])
next
  case (DeclRef x i)
  have v: "\<exists>v. cg_values s i = Some v" if "wellTyped ub scs (Expr (DeclRef x i) l t c)" "bound ll scs s" for s
    using that by (auto simp: bound_def split: option.splits)
  show ?case
  proof (rule codeOkI)
    fix P s u
    assume e: "wellTyped ub scs (Expr (DeclRef x i) l t c)" "bound ll scs s" and a: "active ll parent blocks f P s"
      and u: "expr_type (Expr (DeclRef x i) l t c) = Some u"
    obtain v where v: "cg_values s i = Some v" using v [OF e] by blast
    show "runs ll parent blocks f P {} s (rvalue ll (Expr (DeclRef x i) l t c) s) (\<lambda>v. u = VoidTy \<or> given v)"
      using u by (auto simp: v valueOf_def intro!: runs_mono [OF runs_valued_build [OF a]])
    show "runs ll parent blocks f P {} s (lvalue ll (Expr (DeclRef x i) l t c) s) (\<lambda>_. True)"
      by (simp add: v valueOf_def runs_return [OF a])
  qed
next
  case (Unary op x)
  thus ?case by (rule codeOk_unary)
next
  case (Binary op p q)
  thus ?case by (rule codeOk_binary)
next
  case (Assign p q)
  thus ?case by (rule codeOk_assign)
next
  case (Call g args)
  thus ?case by (intro codeOk_call) blast
next
  case (Cast k imp x)
  thus ?case by (rule codeOk_cast)
qed (rule codeOkI; simp)+

end

end
