(* ===== verification/CodeStmt.thy ===== *)
theory CodeStmt
  imports CodeExpr SemaWf
begin

text \<open>
  Code generation of well-formed statements, over the rules of \<open>CodeRun\<close> and the expressions of
  \<open>CodeExpr\<close>: no statement is lowered with an undefined step, and after each the insertion point is
  in an open block of the function.
\<close>

section \<open>More rules\<close>

context llvm_laws
begin

lemma new_block_sealed:
  assumes "sealedAt ll parent blocks f P m" "lv_build ll (NewBlock x None) m = (b, m')"
  shows "sealedAt ll parent blocks f (insert b P) m'" "b \<notin> P" "parent m b = None"
proof -
  have l: "b \<notin> blocks m" "blocks m' = insert b (blocks m)" "lv_instructions ll m' = (lv_instructions ll m)(b := [])"
    "parent m' = (parent m)(b := None)"
    using blocks_law [of "NewBlock x None" m] assms(2) by (simp_all add: blockLaw_def Let_def)
  have no: "parent m b = None" using parent_exists [of m b] l(1) by (cases "parent m b") auto
  hence p: "parent m' = parent m" using l(4) by auto
  have ok: "placedOk ll parent blocks f P m" using assms(1) by (simp add: sealedAt_def)
  show "b \<notin> P" "parent m b = None" using ok l(1) no by (auto simp: placedOk_def)
  have "placedOk ll parent blocks f (insert b P) m'"
  proof (rule placedOkI)
    fix c g r t
    assume "parent m' c = Some g" "r \<in> set (lv_instructions ll m' c)" "t \<in> targets r" "parent m' t \<noteq> Some g"
    thus "g = f \<and> t \<in> insert b P" using placedOk_branch [OF ok, of c g r t] p l(3) by (auto split: if_splits)
  next
    fix c
    assume "c \<in> insert b P"
    thus "parent m' c = None \<and> lv_instructions ll m' c = [] \<and> c \<in> blocks m'"
      using placedOk_pending [OF ok, of c] p l no by auto
  qed
  thus "sealedAt ll parent blocks f (insert b P) m'"
    using assms(1) l(3) p no unfolding sealedAt_def by (auto split: if_splits)
qed

text \<open>A terminator, and a block that cannot be reached.\<close>

lemma runs_dead:
  assumes "active ll parent blocks f P s" "isTerminator r"
    and "\<And>t. t \<in> targets r \<Longrightarrow> parent (cg_module s) t = Some f \<or> t \<in> P"
  shows "runs ll parent blocks f P {} s (perform ll r s \<bind> (\<lambda>(_, s). startDeadBlock ll s)) (\<lambda>_. True)"
proof -
  obtain v m1 where b1: "build ll r s = Some (v, s\<lparr>cg_module := m1\<rparr>)" and l1: "lv_build ll r (cg_module s) = (v, m1)"
    by (rule build_total)
  let ?s1 = "s\<lparr>cg_module := m1\<rparr>"
  obtain c m2 where b2: "build ll (NewBlock ''dead'' None) ?s1 = Some (c, ?s1\<lparr>cg_module := m2\<rparr>)"
    and l2: "lv_build ll (NewBlock ''dead'' None) (cg_module ?s1) = (c, m2)" by (rule build_total)
  let ?s2 = "?s1\<lparr>cg_module := m2\<rparr>"
  obtain v3 m3 where b3: "build ll (InsertInto c f) ?s2 = Some (v3, ?s2\<lparr>cg_module := m3\<rparr>)"
    and l3: "lv_build ll (InsertInto c f) (cg_module ?s2) = (v3, m3)" by (rule build_total)
  let ?s3 = "?s2\<lparr>cg_module := m3\<rparr>"
  obtain v4 m4 where b4: "build ll (SetInsertPoint c) ?s3 = Some (v4, ?s3\<lparr>cg_module := m4\<rparr>)"
    and l4: "lv_build ll (SetInsertPoint c) (cg_module ?s3) = (v4, m4)" by (rule build_total)
  let ?s4 = "?s3\<lparr>cg_module := m4\<rparr>"
  have fn: "cg_fn s = Some f" and o0: "openAt ll parent blocks f P (cg_module s)" and str: "stringsOk ll s"
    using assms(1) by (simp_all add: active_def)
  have sealed1: "sealedAt ll parent blocks f P (cg_module ?s1)" using terminator_seals [OF o0 assms(2) l1 assms(3)] by simp
  note sealed2 = new_block_sealed [OF sealed1 l2]
  have c: "parent (cg_module ?s2) c = None \<and> c \<in> blocks (cg_module ?s2)" using sealed2(1) by (auto simp: sealedAt_def placedOk_def)
  have "openAt ll parent blocks f (insert c P - {c}) m4" using start_opens(1) [OF sealed2(1), of c v3 m3 v4 m4] l3 l4 by simp
  moreover have "insert c P - {c} = P" using sealed2(2) by auto
  moreover have "stringsOk ll ?s4"
    by (rule stringsOk_build [OF stringsOk_build [OF stringsOk_build [OF stringsOk_build [OF str l1] l2] l3] l4])
  ultimately have a: "active ll parent blocks f P ?s4" using fn by (simp add: active_def)
  have "kept ll parent {} s ?s1" by (rule build_kept [OF l1]) (use assms(2) in auto)
  moreover have "kept ll parent {} ?s1 ?s2" by (rule build_kept [OF l2]) simp
  moreover have "kept ll parent {} ?s2 ?s3" by (rule build_kept [OF l3]) (use c in simp)
  moreover have "kept ll parent {} ?s3 ?s4" by (rule build_kept [OF l4]) simp
  ultimately have "kept ll parent {} s ?s4" by (meson kept_trans0)
  moreover have "(perform ll r s \<bind> (\<lambda>(_, s). startDeadBlock ll s)) = Some ((), ?s4)"
    using b1 b2 b3 b4 fn by (simp add: perform_def startDeadBlock_def startBlock_def)
  ultimately show ?thesis using a by (simp add: runs_def)
qed

text \<open>The insertion point is never in a terminated block.\<close>

lemma branchTo_perform: "active ll parent blocks f P s \<Longrightarrow> branchTo ll t s = perform ll (Br t) s"
  unfolding active_def openAt_def
  by (auto simp: branchTo_def isTerminated_def straight_def)

lemma runs_branch_end:
  assumes "active ll parent blocks f (insert c P) s" "isTerminator r" "c \<notin> P"
    and "\<And>t. t \<in> targets r \<Longrightarrow> parent (cg_module s) t = Some f \<or> t \<in> insert c P"
  shows "runs ll parent blocks f P {} s (perform ll r s \<bind> (\<lambda>(_, s). startBlock ll c s)) (\<lambda>_. True)"
proof -
  have "runs ll parent blocks f P {} s (perform ll r s \<bind> (\<lambda>(_, s). startBlock ll c s \<bind> Some)) (\<lambda>_. True)"
    by (rule runs_branch_start [OF assms]) (simp_all add: runs_return)
  thus ?thesis by simp
qed

lemma runs_stackSlot:
  assumes "active ll parent blocks f P s"
  shows "runs ll parent blocks f P {} s (stackSlot ll t x s) (\<lambda>_. True)"
proof -
  have fn: "cg_fn s = Some f" and o0: "openAt ll parent blocks f P (cg_module s)" and str: "stringsOk ll s"
    using assms by (simp_all add: active_def)
  let ?e = "lv_entryBlock ll (cg_module s) f"
  obtain v m' where b: "build ll (Alloca ?e (lower t) x) s = Some (v, s\<lparr>cg_module := m'\<rparr>)"
    and l: "lv_build ll (Alloca ?e (lower t) x) (cg_module s) = (v, m')" by (rule build_total)
  have "parent (cg_module s) ?e = Some f" using entry_block o0 by (auto simp: openAt_def)
  hence "active ll parent blocks f P (s\<lparr>cg_module := m'\<rparr>)"
    using alloca_open [OF o0 _ l] stringsOk_build [OF str l] fn by (simp add: active_def)
  moreover have "kept ll parent {} s (s\<lparr>cg_module := m'\<rparr>)" by (rule build_kept [OF l]) simp
  ultimately show ?thesis using fn b by (simp add: runs_def stackSlot_def)
qed

end

text \<open>A symbol that had no value gets one.\<close>

lemma runs_value:
  assumes "active ll parent blocks f P s" "i \<notin> dom (cg_values s)"
    and "\<And>s'. kept ll parent {i} s s' \<Longrightarrow> active ll parent blocks f P s' \<Longrightarrow> s' = s\<lparr>cg_values := (cg_values s)(i \<mapsto> v)\<rparr> \<Longrightarrow>
      runs ll parent blocks f P' W s' (g s') R"
  shows "runs ll parent blocks f P' (insert i W) s (g (s\<lparr>cg_values := (cg_values s)(i \<mapsto> v)\<rparr>)) R"
proof -
  let ?s = "s\<lparr>cg_values := (cg_values s)(i \<mapsto> v)\<rparr>"
  have k: "kept ll parent {i} s ?s" using assms(2) by (auto simp: kept_def map_le_def)
  have "active ll parent blocks f P ?s" using assms(1) by (simp add: active_def)
  hence "runs ll parent blocks f P' W ?s (g ?s) R" using assms(3) [OF k] by blast
  then obtain a s2 where g: "g ?s = Some (a, s2)" and k2: "kept ll parent W ?s s2" and r: "active ll parent blocks f P' s2" "R a"
    unfolding runs_def by blast
  have "kept ll parent (insert i W) s s2" using kept_trans [OF k k2] by simp
  thus ?thesis using g r unfolding runs_def by blast
qed

section \<open>Conditionals and loops\<close>

lemma bind_pair_assoc: "((m :: ('a \<times> 's) option) \<bind> (\<lambda>(x, s). k x s)) \<bind> h = m \<bind> (\<lambda>(x, s). k x s \<bind> h)"
  by (cases m) auto

context llvm_laws
begin

lemma runs_if_none:
  assumes a: "active ll parent blocks f P s" and cond: "does ll parent blocks f s cond (\<lambda>_. True)"
    and yes: "\<And>P' s'. kept ll parent {} s s' \<Longrightarrow> P \<subseteq> P' \<Longrightarrow> active ll parent blocks f P' s' \<Longrightarrow>
      runs ll parent blocks f P' V s' (yes s') (\<lambda>_. True)"
  shows "runs ll parent blocks f P V s (emitIf ll cond yes None s) (\<lambda>_. True)"
  unfolding emitIf_def
proof (rule runs_new_block [OF a], simp, rule runs_new_block, assumption, unfold prod.case)
  fix thenBB s1 endBB s2
  assume k1: "kept ll parent {} s s1" and k2: "kept ll parent {} s1 s2"
    and a2: "active ll parent blocks f (insert endBB (insert thenBB P)) s2"
    and new: "thenBB \<notin> P" "endBB \<notin> insert thenBB P"
  note k = kept_trans0 [OF k1 k2]
  show "runs ll parent blocks f P V s2 (cond s2 \<bind> (\<lambda>(v, s). perform ll (CondBr v thenBB endBB) s \<bind>
      (\<lambda>(_, s). startBlock ll thenBB s \<bind> (\<lambda>(_, s). yes s \<bind> (\<lambda>(_, s). branchTo ll endBB s \<bind>
      (\<lambda>(_, y). startBlock ll endBB y)))))) (\<lambda>_. True)"
  proof (rule runs_then [OF does_later [OF cond k] a2], unfold prod.case)
    fix v s3
    assume k3: "kept ll parent {} s2 s3" and a3: "active ll parent blocks f (insert endBB (insert thenBB P)) s3"
    hence a3': "active ll parent blocks f (insert thenBB (insert endBB P)) s3" by (simp add: insert_commute)
    show "runs ll parent blocks f P V s3 (perform ll (CondBr v thenBB endBB) s3 \<bind>
        (\<lambda>(_, s). startBlock ll thenBB s \<bind> (\<lambda>(_, s). yes s \<bind> (\<lambda>(_, s). branchTo ll endBB s \<bind>
        (\<lambda>(_, y). startBlock ll endBB y))))) (\<lambda>_. True)"
    proof (rule runs_branch_start [OF a3'], simp, use new in auto)
      fix s4
      assume k4: "kept ll parent {} s3 s4" and a4: "active ll parent blocks f (insert endBB P) s4"
      note k' = kept_trans0 [OF k kept_trans0 [OF k3 k4]]
      have "runs ll parent blocks f P (V \<union> {}) s4 (yes s4 \<bind> (\<lambda>(_, s). branchTo ll endBB s \<bind>
          (\<lambda>(_, y). startBlock ll endBB y))) (\<lambda>_. True)"
      proof (rule runs_bind [OF yes [OF k' _ a4]], blast, unfold prod.case)
        fix s5
        assume a5: "active ll parent blocks f (insert endBB P) s5"
        show "runs ll parent blocks f P {} s5 (branchTo ll endBB s5 \<bind> (\<lambda>(_, y). startBlock ll endBB y)) (\<lambda>_. True)"
          unfolding branchTo_perform [OF a5] by (rule runs_branch_end [OF a5]) (use new in auto)
      qed
      thus "runs ll parent blocks f P V s4 (yes s4 \<bind> (\<lambda>(_, s). branchTo ll endBB s \<bind>
          (\<lambda>(_, y). startBlock ll endBB y))) (\<lambda>_. True)" by simp
    qed
  qed
qed

lemma runs_if_else:
  assumes a: "active ll parent blocks f P s" and cond: "does ll parent blocks f s cond (\<lambda>_. True)"
    and yes: "\<And>P' s'. kept ll parent {} s s' \<Longrightarrow> P \<subseteq> P' \<Longrightarrow> active ll parent blocks f P' s' \<Longrightarrow>
      runs ll parent blocks f P' V s' (yes s') (\<lambda>_. True)"
    and no: "\<And>P' s'. kept ll parent V s s' \<Longrightarrow> P \<subseteq> P' \<Longrightarrow> active ll parent blocks f P' s' \<Longrightarrow>
      runs ll parent blocks f P' W s' (no s') (\<lambda>_. True)"
  shows "runs ll parent blocks f P (V \<union> W) s (emitIf ll cond yes (Some no) s) (\<lambda>_. True)"
  unfolding emitIf_def option.case if_not_P [OF option.distinct(2)] bind_pair_assoc
proof (rule runs_new_block [OF a], unfold prod.case, rule runs_new_block, assumption, unfold prod.case, rule runs_new_block, assumption,
    unfold prod.case)
  fix thenBB s1 elseBB s2 endBB s3
  assume k1: "kept ll parent {} s s1" and k2: "kept ll parent {} s1 s2" and k3: "kept ll parent {} s2 s3"
    and a3: "active ll parent blocks f (insert endBB (insert elseBB (insert thenBB P))) s3"
    and new: "thenBB \<notin> P" "elseBB \<notin> insert thenBB P" "endBB \<notin> insert elseBB (insert thenBB P)"
  note k = kept_trans0 [OF k1 kept_trans0 [OF k2 k3]]
  have last: "runs ll parent blocks f P {} s (branchTo ll endBB s \<bind> (\<lambda>(_, y). startBlock ll endBB y)) (\<lambda>_. True)"
    if "active ll parent blocks f (insert endBB P) s" for s
    unfolding branchTo_perform [OF that] by (rule runs_branch_end [OF that]) (use new in auto)
  have otherwise: "runs ll parent blocks f P W s5 (branchTo ll endBB s5 \<bind> (\<lambda>(_, s). startBlock ll elseBB s \<bind>
      (\<lambda>(_, s). no s \<bind> (\<lambda>(_, s). branchTo ll endBB s \<bind> (\<lambda>(_, y). startBlock ll endBB y))))) (\<lambda>_. True)"
    if k5: "kept ll parent V s s5" and a5: "active ll parent blocks f (insert elseBB (insert endBB P)) s5" for s5
    unfolding branchTo_perform [OF a5]
  proof (rule runs_branch_start [OF a5], simp, use new in auto)
    fix s6
    assume k6: "kept ll parent {} s5 s6" and a6: "active ll parent blocks f (insert endBB P) s6"
    have k': "kept ll parent V s s6" using kept_trans [OF k5 k6] by simp
    have "runs ll parent blocks f P (W \<union> {}) s6 (no s6 \<bind> (\<lambda>(_, s). branchTo ll endBB s \<bind>
        (\<lambda>(_, y). startBlock ll endBB y))) (\<lambda>_. True)"
      by (rule runs_bind [OF no [OF k' _ a6]], blast, unfold prod.case) (rule last)
    thus "runs ll parent blocks f P W s6 (no s6 \<bind> (\<lambda>(_, s). branchTo ll endBB s \<bind>
        (\<lambda>(_, y). startBlock ll endBB y))) (\<lambda>_. True)" by simp
  qed
  show "runs ll parent blocks f P (V \<union> W) s3 (cond s3 \<bind> (\<lambda>(v, s). perform ll (CondBr v thenBB elseBB) s \<bind>
      (\<lambda>(_, s). startBlock ll thenBB s \<bind> (\<lambda>(_, s). yes s \<bind> (\<lambda>(_, s). branchTo ll endBB s \<bind>
      (\<lambda>(_, s). startBlock ll elseBB s \<bind> (\<lambda>(_, s). no s \<bind> (\<lambda>(_, s). branchTo ll endBB s \<bind>
      (\<lambda>(_, y). startBlock ll endBB y))))))))) (\<lambda>_. True)"
  proof (rule runs_then [OF does_later [OF cond k] a3], unfold prod.case)
    fix v s4
    assume k4: "kept ll parent {} s3 s4" and a4: "active ll parent blocks f (insert endBB (insert elseBB (insert thenBB P))) s4"
    hence a4': "active ll parent blocks f (insert thenBB (insert elseBB (insert endBB P))) s4" by (simp add: insert_commute)
    show "runs ll parent blocks f P (V \<union> W) s4 (perform ll (CondBr v thenBB elseBB) s4 \<bind>
        (\<lambda>(_, s). startBlock ll thenBB s \<bind> (\<lambda>(_, s). yes s \<bind> (\<lambda>(_, s). branchTo ll endBB s \<bind>
        (\<lambda>(_, s). startBlock ll elseBB s \<bind> (\<lambda>(_, s). no s \<bind> (\<lambda>(_, s). branchTo ll endBB s \<bind>
        (\<lambda>(_, y). startBlock ll endBB y)))))))) (\<lambda>_. True)"
    proof (rule runs_branch_start [OF a4'], simp, use new in auto)
      fix s5
      assume k5: "kept ll parent {} s4 s5" and a5: "active ll parent blocks f (insert elseBB (insert endBB P)) s5"
      note k' = kept_trans0 [OF k kept_trans0 [OF k4 k5]]
      show "runs ll parent blocks f P (V \<union> W) s5 (yes s5 \<bind> (\<lambda>(_, s). branchTo ll endBB s \<bind>
        (\<lambda>(_, s). startBlock ll elseBB s \<bind> (\<lambda>(_, s). no s \<bind> (\<lambda>(_, s). branchTo ll endBB s \<bind>
        (\<lambda>(_, y). startBlock ll endBB y)))))) (\<lambda>_. True)"
        by (rule runs_bind [OF yes [OF k' _ a5]], blast, unfold prod.case)
          (rule otherwise, rule kept_trans0 [OF k'], assumption+)
    qed
  qed
qed

lemma runs_while:
  assumes a: "active ll parent blocks f P s" and cond: "does ll parent blocks f s cond (\<lambda>_. True)"
    and body: "\<And>P' s' c b. kept ll parent {} s s' \<Longrightarrow> P \<subseteq> P' \<Longrightarrow> parent (cg_module s') c = Some f \<Longrightarrow> b \<in> P' \<Longrightarrow>
      active ll parent blocks f P' s' \<Longrightarrow>
      runs ll parent blocks f P' V (s'\<lparr>cg_loops := cg_loops s @ [(c, b)]\<rparr>) (body (s'\<lparr>cg_loops := cg_loops s @ [(c, b)]\<rparr>)) (\<lambda>_. True)"
  shows "runs ll parent blocks f P V s (emitWhile ll cond body s) (\<lambda>_. True)"
  unfolding emitWhile_def
proof (rule runs_new_block [OF a], unfold prod.case, rule runs_new_block, assumption, unfold prod.case, rule runs_new_block, assumption,
    unfold prod.case)
  fix condBB s1 bodyBB s2 endBB s3
  assume k1: "kept ll parent {} s s1" and k2: "kept ll parent {} s1 s2" and k3: "kept ll parent {} s2 s3"
    and a3: "active ll parent blocks f (insert endBB (insert bodyBB (insert condBB P))) s3"
    and new: "condBB \<notin> P" "bodyBB \<notin> insert condBB P" "endBB \<notin> insert bodyBB (insert condBB P)"
  note k = kept_trans0 [OF k1 kept_trans0 [OF k2 k3]]
  have a3': "active ll parent blocks f (insert condBB (insert bodyBB (insert endBB P))) s3" using a3 by (simp add: insert_commute)
  let ?tail = "\<lambda>s. branchTo ll condBB s \<bind> (\<lambda>(_, y). startBlock ll endBB y)"
  let ?body = "\<lambda>s. body (s\<lparr>cg_loops := cg_loops s @ [(condBB, endBB)]\<rparr>) \<bind> (\<lambda>(_, s). ?tail (s\<lparr>cg_loops := butlast (cg_loops s)\<rparr>))"
  have rest: "runs ll parent blocks f P V s6 (?body s6) (\<lambda>_. True)"
    if k6: "kept ll parent {} s s6" and p6: "parent (cg_module s6) condBB = Some f" and a6: "active ll parent blocks f (insert endBB P) s6" for s6
  proof -
    have loops: "cg_loops s6 = cg_loops s" using k6 by (simp add: kept_def)
    let ?s7 = "s6\<lparr>cg_loops := cg_loops s @ [(condBB, endBB)]\<rparr>"
    have "runs ll parent blocks f (insert endBB P) V ?s7 (body ?s7) (\<lambda>_. True)"
      by (rule body [OF k6 _ p6 _ a6]) blast+
    then obtain s8 where b: "body ?s7 = Some ((), s8)" and k8: "kept ll parent V ?s7 s8" and a8: "active ll parent blocks f (insert endBB P) s8"
      by (auto simp: runs_def)
    let ?s9 = "s8\<lparr>cg_loops := butlast (cg_loops s8)\<rparr>"
    have "cg_loops s8 = cg_loops s @ [(condBB, endBB)]" using k8 by (simp add: kept_def)
    hence k9: "kept ll parent V s6 ?s9" using k8 loops by (simp add: kept_def)
    have a9: "active ll parent blocks f (insert endBB P) ?s9" using a8 by (simp add: active_def)
    have "parent (cg_module ?s9) condBB = Some f" using k9 p6 by (auto simp: kept_def)
    hence "runs ll parent blocks f P {} ?s9 (?tail ?s9) (\<lambda>_. True)"
      unfolding branchTo_perform [OF a9] by (intro runs_branch_end [OF a9]) (use new in auto)
    then obtain s10 where t: "?tail ?s9 = Some ((), s10)" and k10: "kept ll parent {} ?s9 s10" and a10: "active ll parent blocks f P s10"
      by (auto simp: runs_def)
    have "kept ll parent V s6 s10" using kept_trans [OF k9 k10] by simp
    moreover have "?body s6 = Some ((), s10)" using b t loops by simp
    ultimately show ?thesis using a10 by (simp add: runs_def)
  qed
  show "runs ll parent blocks f P V s3 (perform ll (Br condBB) s3 \<bind> (\<lambda>(_, s). startBlock ll condBB s \<bind>
      (\<lambda>(_, s). cond s \<bind> (\<lambda>(v, s). perform ll (CondBr v bodyBB endBB) s \<bind> (\<lambda>(_, s). startBlock ll bodyBB s \<bind>
      (\<lambda>(_, s). body (s\<lparr>cg_loops := cg_loops s @ [(condBB, endBB)]\<rparr>) \<bind> (\<lambda>(_, s).
        let s = s\<lparr>cg_loops := butlast (cg_loops s)\<rparr> in ?tail s))))))) (\<lambda>_. True)"
    unfolding Let_def
  proof (rule runs_branch_start [OF a3'], simp, use new in auto)
    fix s4
    assume k4: "kept ll parent {} s3 s4" and a4: "active ll parent blocks f (insert bodyBB (insert endBB P)) s4"
      and p4: "parent (cg_module s4) condBB = Some f"
    have k4': "kept ll parent {} s s4" by (rule kept_trans0 [OF k k4])
    show "runs ll parent blocks f P V s4 (cond s4 \<bind> (\<lambda>(v, s). perform ll (CondBr v bodyBB endBB) s \<bind>
      (\<lambda>(_, s). startBlock ll bodyBB s \<bind> (\<lambda>(_, s). ?body s)))) (\<lambda>_. True)"
    proof (rule runs_then [OF does_later [OF cond k4'] a4], unfold prod.case)
      fix v s5
      assume k5: "kept ll parent {} s4 s5" and a5: "active ll parent blocks f (insert bodyBB (insert endBB P)) s5"
      have p5: "parent (cg_module s5) condBB = Some f" using k5 p4 by (simp add: kept_def)
      show "runs ll parent blocks f P V s5 (perform ll (CondBr v bodyBB endBB) s5 \<bind>
          (\<lambda>(_, s). startBlock ll bodyBB s \<bind> (\<lambda>(_, s). ?body s))) (\<lambda>_. True)"
      proof (rule runs_branch_start [OF a5], simp, use new in auto)
        fix s6
        assume k6: "kept ll parent {} s5 s6" and a6: "active ll parent blocks f (insert endBB P) s6"
        show "runs ll parent blocks f P V s6 (?body s6) (\<lambda>_. True)"
          by (rule rest [OF kept_trans0 [OF k4' kept_trans0 [OF k5 k6]] _ a6]) (use k6 p5 in \<open>simp add: kept_def\<close>)
      qed
    qed
  qed
qed

end

section \<open>Initializers and declarations\<close>

fun plainInit :: "initializer \<Rightarrow> bool" where
  "plainInit (InitExpr e l) \<longleftrightarrow> plainExpr e"
| "plainInit (InitList is l) \<longleftrightarrow> (\<forall>i \<in> set is. plainInit i)"

definition plainVar :: "var_decl \<Rightarrow> bool" where
  "plainVar v \<longleftrightarrow> plainTy (vd_type v) \<and> \<not> isFunction (vd_type v) \<and>
     (case vd_init v of None \<Rightarrow> True | Some i \<Rightarrow> plainInit i)"

fun plainStmt :: "stmt \<Rightarrow> bool" where
  "plainStmt (Stmt (ExprStmt e) l) \<longleftrightarrow> plainExpr e"
| "plainStmt (Stmt (DeclStmt vs) l) \<longleftrightarrow> (\<forall>v \<in> set vs. plainVar v)"
| "plainStmt (Stmt (CompoundStmt body) l) \<longleftrightarrow> (\<forall>st \<in> set body. plainStmt st)"
| "plainStmt (Stmt (IfStmt c a None) l) \<longleftrightarrow> plainExpr c \<and> plainStmt a"
| "plainStmt (Stmt (IfStmt c a (Some b)) l) \<longleftrightarrow> plainExpr c \<and> plainStmt a \<and> plainStmt b"
| "plainStmt (Stmt (WhileStmt c body) l) \<longleftrightarrow> plainExpr c \<and> plainStmt body"
| "plainStmt (Stmt (ReturnStmt v) l) \<longleftrightarrow> (case v of None \<Rightarrow> True | Some e \<Rightarrow> plainExpr e)"
| "plainStmt (Stmt n l) \<longleftrightarrow> True"

lemma sized_value: "type_size t \<noteq> None \<Longrightarrow> t \<noteq> VoidTy \<and> \<not> isFunction t"
  by (cases t) auto

lemma sized_element: "type_size t \<noteq> None \<Longrightarrow> isArray t \<Longrightarrow> type_size (element t) \<noteq> None"
  by (cases t) (auto split: option.splits)

lemma charArray_build: "isStringLiteral e \<Longrightarrow> \<exists>b. charArray ll t e s = build ll (GetString b False) s"
  by (auto simp: charArray_def isStringLiteral_def split: expr_node.splits)

context llvm_laws
begin

lemma expr_value:
  assumes "hasType ub scs e t" "t \<noteq> VoidTy" "plainExpr e" "bound ll scs s"
  shows "does ll parent blocks f s (rvalue ll e) given"
  by (rule codeOk_value [OF expressions_generate(1) _ assms(3,4)]) (use assms(1,2) in \<open>auto simp: hasType_def\<close>)

lemma runs_store: "active ll parent blocks f P s \<Longrightarrow> runs ll parent blocks f P {} s (perform ll (Store v d) s) (\<lambda>_. True)"
  by (rule runs_perform) simp_all

lemma localInits_does:
  assumes "\<And>i address s. i \<in> set is \<Longrightarrow> bound ll scs s \<Longrightarrow> does ll parent blocks f s (localInit ll address (element t) i) (\<lambda>_. True)"
    and "bound ll scs s"
  shows "does ll parent blocks f s (localInits ll address t k is) (\<lambda>_. True)"
  using assms
proof (induction "is" arbitrary: k s)
  case Nil
  show ?case by (rule doesI) (simp add: runs_return)
next
  case (Cons i xs)
  show ?case
  proof (rule doesI)
    fix P s'
    assume k: "kept ll parent {} s s'" and a: "active ll parent blocks f P s'"
    have b: "bound ll scs s'" by (rule bound_kept [OF Cons.prems(2) k])
    show "runs ll parent blocks f P {} s' (localInits ll address t k (i # xs) s') (\<lambda>_. True)"
      unfolding localInits.simps
    proof (rule runs_build_then [OF a], simp, simp, unfold prod.case)
      fix v s1
      assume k1: "kept ll parent {} s' s1" and a1: "active ll parent blocks f P s1"
      have b1: "bound ll scs s1" by (rule bound_kept [OF b k1])
      show "runs ll parent blocks f P {} s1 (localInit ll v (element t) i s1 \<bind> (\<lambda>(_, y). localInits ll address t (k + 1) xs y)) (\<lambda>_. True)"
      proof (rule runs_then [OF Cons.prems(1) [OF _ b1] a1], simp, unfold prod.case)
        fix s2
        assume k2: "kept ll parent {} s1 s2" and a2: "active ll parent blocks f P s2"
        show "runs ll parent blocks f P {} s2 (localInits ll address t (k + 1) xs s2) (\<lambda>_. True)"
          by (rule does_run [OF Cons.IH [OF _ bound_kept [OF b1 k2]] a2]) (use Cons.prems(1) in simp)
      qed
    qed
  qed
qed

lemma localInit_does:
  "initOk ub scs None t i \<Longrightarrow> plainInit i \<Longrightarrow> type_size t \<noteq> None \<Longrightarrow> bound ll scs s \<Longrightarrow>
     does ll parent blocks f s (localInit ll address t i) (\<lambda>_. True)"
proof (induction i arbitrary: address t s)
  case (InitExpr e l)
  show ?case
  proof (rule doesI)
    fix P s'
    assume k: "kept ll parent {} s s'" and a: "active ll parent blocks f P s'"
    show "runs ll parent blocks f P {} s' (localInit ll address t (InitExpr e l) s') (\<lambda>_. True)"
    proof (cases "isArray t")
      case True
      then obtain b where b: "charArray ll t e s' = build ll (GetString b False) s'"
        using InitExpr.prems(1) charArray_build [of e ll t s'] by auto
      show ?thesis unfolding localInit.simps if_P [OF True] b
        by (rule runs_build_then [OF a]) (simp_all add: runs_store)
    next
      case False
      have "does ll parent blocks f s' (rvalue ll e) given"
        by (rule expr_value [OF _ _ _ bound_kept [OF InitExpr.prems(4) k]])
          (use InitExpr.prems False sized_value [of t] in auto)
      thus ?thesis unfolding localInit.simps if_not_P [OF False]
        by (rule runs_then_need [OF _ a]) (simp add: runs_store)
    qed
  qed
next
  case (InitList xs l)
  show ?case
  proof (rule doesI)
    fix P s'
    assume k: "kept ll parent {} s s'" and a: "active ll parent blocks f P s'"
    note b = bound_kept [OF InitList.prems(4) k]
    show "runs ll parent blocks f P {} s' (localInit ll address t (InitList xs l) s') (\<lambda>_. True)"
    proof (cases "isArray t")
      case True
      have items: "does ll parent blocks f s1 (localInits ll address t 0 xs) (\<lambda>_. True)" if "kept ll parent {} s' s1" for s1
        by (rule localInits_does [OF InitList.IH bound_kept [OF b that]])
          (use InitList.prems True sized_element in auto)
      show ?thesis unfolding localInit.simps if_P [OF True]
      proof (rule runs_build_then [OF a], simp, simp, unfold prod.case)
        fix z s1
        assume k1: "kept ll parent {} s' s1" and a1: "active ll parent blocks f P s1"
        show "runs ll parent blocks f P {} s1 (perform ll (Store z address) s1 \<bind> (\<lambda>(_, y). localInits ll address t 0 xs y)) (\<lambda>_. True)"
          by (rule runs_perform_then [OF a1], simp, simp, unfold prod.case)
            (rule does_run [OF items], rule kept_trans0 [OF k1], assumption+)
      qed
    next
      case False
      then obtain i where xs: "xs = [i]" using InitList.prems(1) by (auto simp: length_Suc_conv)
      have "does ll parent blocks f s' (localInit ll address t i) (\<lambda>_. True)"
        by (rule InitList.IH [OF _ _ _ _ b]) (use InitList.prems False xs in auto)
      thus ?thesis using False xs by (simp add: does_run [OF _ a])
    qed
  qed
qed

end

lemma lookup_bind: "lookup (emplaceHere n v scs) m = Some y \<Longrightarrow> y = v \<or> lookup scs m = Some y"
  by (cases scs) (auto split: if_splits option.splits)

lemma bound_emplace:
  assumes "bound ll scs s" "sym_type y \<noteq> VoidTy" "\<not> isFunction (sym_type y)" "sym_id y \<in> dom (cg_values s)"
  shows "bound ll (emplaceHere x y scs) s"
  using assms lookup_bind [of x y scs] unfolding bound_def by fastforce

lemma bound_bindVar:
  "bound ll scs s \<Longrightarrow> type_size (vd_type v) \<noteq> None \<Longrightarrow> vd_symbol v \<in> dom (cg_values s) \<Longrightarrow> bound ll (bindVar v scs) s"
  unfolding bindVar_def by (rule bound_emplace) (use sized_value in \<open>auto\<close>)

lemma varsOk_sized: "varsOk ub scs vs \<Longrightarrow> v \<in> set vs \<Longrightarrow> type_size (vd_type v) \<noteq> None"
  by (induction vs arbitrary: scs) (auto simp: varOk_def)

lemma bound_bindVars:
  "bound ll scs s \<Longrightarrow> \<forall>v \<in> set vs. type_size (vd_type v) \<noteq> None \<and> vd_symbol v \<in> dom (cg_values s) \<Longrightarrow> bound ll (fold bindVar vs scs) s"
  by (induction vs arbitrary: scs) (auto intro: bound_bindVar)

lemma bound_enterScope [simp]: "bound ll (enterScope scs) s = bound ll scs s"
  by (simp add: bound_def enterScope_def)

text \<open>What a statement leaves in scope has values when its declarations do.\<close>

lemma bound_afterStmt:
  "stmtOk ub ret loop scs st \<Longrightarrow> bound ll scs s \<Longrightarrow> set (stmtIds st) \<subseteq> dom (cg_values s) \<Longrightarrow> bound ll (afterStmt st scs) s"
proof (induction st scs arbitrary: loop rule: afterStmt.induct)
  case (1 vs l scs)
  thus ?case using varsOk_sized [of ub scs vs] by (auto intro!: bound_bindVars)
qed auto

context llvm_laws
begin

lemma emitVar_runs:
  assumes a: "active ll parent blocks f P s" and b: "bound ll scs s" and v: "varOk ub None scs v" "plainVar v"
    and new: "vd_symbol v \<notin> dom (cg_values s)"
  shows "runs ll parent blocks f P {vd_symbol v} s (emitVar ll v s) (\<lambda>_. True)"
  unfolding emitVar_def Let_def
proof (rule runs_bind0 [OF runs_stackSlot [OF a]], unfold prod.case)
  fix slot s1
  assume k1: "kept ll parent {} s s1" and a1: "active ll parent blocks f P s1"
  have new1: "vd_symbol v \<notin> dom (cg_values s1)" using new k1 by (simp add: kept_def)
  have sized: "type_size (vd_type v) \<noteq> None" using v(1) by (simp add: varOk_def)
  show "runs ll parent blocks f P {vd_symbol v} s1
      (case vd_init v of None \<Rightarrow> Some ((), s1\<lparr>cg_values := (cg_values s1)(vd_symbol v \<mapsto> slot)\<rparr>)
       | Some i \<Rightarrow> localInit ll slot (vd_type v) i (s1\<lparr>cg_values := (cg_values s1)(vd_symbol v \<mapsto> slot)\<rparr>)) (\<lambda>_. True)"
  proof (rule runs_value [OF a1 new1, of slot P "{}" "\<lambda>s. case vd_init v of None \<Rightarrow> Some ((), s) | Some i \<Rightarrow> localInit ll slot (vd_type v) i s"])
    fix s2
    assume k2: "kept ll parent {vd_symbol v} s1 s2" and a2: "active ll parent blocks f P s2"
    have b2: "bound ll (bindVar v scs) s2"
      by (rule bound_bindVar [OF bound_kept [OF bound_kept [OF b k1] k2] sized]) (use k2 in \<open>auto simp: kept_def\<close>)
    show "runs ll parent blocks f P {} s2
        (case vd_init v of None \<Rightarrow> Some ((), s2) | Some i \<Rightarrow> localInit ll slot (vd_type v) i s2) (\<lambda>_. True)"
    proof (cases "vd_init v")
      case (Some i)
      have "does ll parent blocks f s2 (localInit ll slot (vd_type v) i) (\<lambda>_. True)"
        by (rule localInit_does [where ub = ub, OF _ _ sized b2]) (use Some v in \<open>simp_all add: varOk_def plainVar_def\<close>)
      thus ?thesis using Some does_run [OF _ a2] by simp
    qed (simp add: runs_return [OF a2])
  qed
qed

lemma emitVars_runs:
  assumes "active ll parent blocks f P s" "bound ll scs s" "varsOk ub scs vs" "\<forall>v \<in> set vs. plainVar v"
    and "distinct (map vd_symbol vs)" "set (map vd_symbol vs) \<inter> dom (cg_values s) = {}"
  shows "runs ll parent blocks f P (set (map vd_symbol vs)) s (emitVars ll vs s) (\<lambda>_. True)"
  using assms
proof (induction vs arbitrary: scs s)
  case Nil
  thus ?case by (simp add: runs_return)
next
  case (Cons v vs)
  have "runs ll parent blocks f P ({vd_symbol v} \<union> set (map vd_symbol vs)) s (emitVar ll v s \<bind> (\<lambda>(_, s). emitVars ll vs s)) (\<lambda>_. True)"
  proof (rule runs_bind [OF emitVar_runs [OF Cons.prems(1,2), where ub = ub]], unfold prod.case)
    show "varOk ub None scs v" "plainVar v" "vd_symbol v \<notin> dom (cg_values s)" using Cons.prems by auto
    fix s1
    assume k1: "kept ll parent {vd_symbol v} s s1" and a1: "active ll parent blocks f P s1"
    have d: "dom (cg_values s1) = dom (cg_values s) \<union> {vd_symbol v}" using k1 by (simp add: kept_def)
    have "bound ll (bindVar v scs) s1"
      by (rule bound_bindVar [OF bound_kept [OF Cons.prems(2) k1]]) (use Cons.prems(3) d in \<open>auto simp: varOk_def\<close>)
    thus "runs ll parent blocks f P (set (map vd_symbol vs)) s1 (emitVars ll vs s1) (\<lambda>_. True)"
      by (rule Cons.IH [OF a1]) (use Cons.prems d in auto)
  qed
  thus ?case by simp
qed

end

section \<open>Statements\<close>

text \<open>
  The loops that jumps can go to: their blocks are in the function or pending, and in the body of a
  loop there is one.
\<close>

definition loopsOk :: "('m \<Rightarrow> 'v \<Rightarrow> 'v option) \<Rightarrow> 'v \<Rightarrow> 'v set \<Rightarrow> ('v, 'm) codegen \<Rightarrow> bool \<Rightarrow> bool" where
  "loopsOk parent f P s loop \<longleftrightarrow>
     (loop \<longrightarrow> cg_loops s \<noteq> []) \<and>
     (\<forall>(c, b) \<in> set (cg_loops s). (parent (cg_module s) c = Some f \<or> c \<in> P) \<and> (parent (cg_module s) b = Some f \<or> b \<in> P))"

lemma loopsOk_kept:
  assumes "loopsOk parent f P s loop" "kept ll parent W s s'" "P \<subseteq> P'"
  shows "loopsOk parent f P' s' loop"
proof -
  have l: "cg_loops s' = cg_loops s" and p: "parent (cg_module s) c = Some f \<Longrightarrow> parent (cg_module s') c = Some f" for c
    using assms(2) by (simp_all add: kept_def)
  show ?thesis using assms(1,3) l p unfolding loopsOk_def by (fastforce simp: case_prod_beta')
qed

context llvm_laws
begin

lemma jumpTo_runs:
  assumes "active ll parent blocks f P s" "loopsOk parent f P s True" "to = fst \<or> to = snd"
  shows "runs ll parent blocks f P {} s (jumpTo ll to s) (\<lambda>_. True)"
proof -
  have "last (cg_loops s) \<in> set (cg_loops s)" "cg_loops s \<noteq> []" using assms(2) by (auto simp: loopsOk_def)
  hence t: "parent (cg_module s) (to (last (cg_loops s))) = Some f \<or> to (last (cg_loops s)) \<in> P"
    using assms(2,3) unfolding loopsOk_def by (auto simp: case_prod_beta')
  show ?thesis using \<open>cg_loops s \<noteq> []\<close> t by (simp add: jumpTo_def) (rule runs_dead [OF assms(1)], auto)
qed

lemma emitReturn_runs:
  assumes a: "active ll parent blocks f P s" and b: "bound ll scs s"
    and v: "case v of None \<Rightarrow> True | Some e \<Rightarrow> hasType ub scs e ret \<and> plainExpr e"
  shows "runs ll parent blocks f P {} s (emitReturn ll v s) (\<lambda>_. True)"
proof (cases v)
  case None
  thus ?thesis by (simp add: emitReturn_def) (rule runs_dead [OF a], auto)
next
  case (Some e)
  hence e: "hasType ub scs e ret" "plainExpr e" using v by auto
  hence t: "expr_type e = Some ret" by (simp add: hasType_def)
  show ?thesis
  proof (cases "ret = VoidTy")
    case True
    have "runs ll parent blocks f P {} s
        (rvalue ll e s \<bind> (\<lambda>(_, s). perform ll RetVoid s \<bind> (\<lambda>(_, s). startDeadBlock ll s))) (\<lambda>_. True)"
      by (rule runs_then [OF codeOk_any [OF expressions_generate(1) hasTypeD(1) [OF e(1)] e(2) b] a], unfold prod.case)
        (rule runs_dead, auto)
    thus ?thesis using Some t True by (simp add: emitReturn_def)
  next
    case False
    hence nv: "\<not> isVoid ret" by (cases ret) simp_all
    have "runs ll parent blocks f P {} s
        (rvalue ll e s \<bind> need \<bind> (\<lambda>(v, s). perform ll (Ret v) s \<bind> (\<lambda>(_, s). startDeadBlock ll s))) (\<lambda>_. True)"
      by (rule runs_then_need [OF expr_value [OF e(1) False e(2) b] a], unfold prod.case) (rule runs_dead, auto)
    thus ?thesis using Some t nv by (simp add: emitReturn_def)
  qed
qed

lemma condition_does:
  assumes "condOk ub scs c" "plainExpr c" "bound ll scs s"
  shows "does ll parent blocks f s (condition ll c) (\<lambda>_. True)"
  by (rule codeOk_condition [OF expressions_generate(1) _ assms(2,3)])
    (use assms(1) in \<open>auto simp: condOk_def isScalar_def isArithmetic_def\<close>)

theorem stmt_generates:
  "stmtOk ub ret loop scs st \<Longrightarrow> plainStmt st \<Longrightarrow> distinct (stmtIds st) \<Longrightarrow> set (stmtIds st) \<inter> dom (cg_values s) = {} \<Longrightarrow>
     bound ll scs s \<Longrightarrow> active ll parent blocks f P s \<Longrightarrow> loopsOk parent f P s loop \<Longrightarrow>
     runs ll parent blocks f P (set (stmtIds st)) s (emit ll st s) (\<lambda>_. True)"
  "stmtsOk ub ret loop scs sts \<Longrightarrow> \<forall>st \<in> set sts. plainStmt st \<Longrightarrow> distinct (concat (map stmtIds sts)) \<Longrightarrow>
     set (concat (map stmtIds sts)) \<inter> dom (cg_values s) = {} \<Longrightarrow> bound ll scs s \<Longrightarrow> active ll parent blocks f P s \<Longrightarrow>
     loopsOk parent f P s loop \<Longrightarrow>
     runs ll parent blocks f P (set (concat (map stmtIds sts))) s (emits ll sts s) (\<lambda>_. True)"
proof (induction ub ret loop scs st and ub ret loop scs sts arbitrary: P s and P s rule: stmtOk_stmtsOk.induct)
  case (1 ub ret loop scs l)
  thus ?case by (simp add: runs_return)
next
  case (2 ub ret loop scs e l)
  then obtain t where e: "hasType ub scs e t" by auto
  show ?case
    unfolding emit.simps stmtIds.simps list.set
    by (rule runs_then [OF codeOk_any [OF expressions_generate(1) hasTypeD(1) [OF e] _ 2(5)] 2(6)])
      (use 2(2) in \<open>simp_all add: runs_return\<close>)
next
  case (3 ub ret loop scs vs l)
  thus ?case using emitVars_runs [of f P s scs ub vs] by simp
next
  case (4 ub ret loop scs body l)
  thus ?case by simp
next
  case (5 ub ret loop scs c a l)
  have c: "does ll parent blocks f s (condition ll c) (\<lambda>_. True)" using condition_does 5 by auto
  show ?case
    unfolding emit.simps stmtIds.simps
  proof (rule runs_if_none [OF 5(7) c])
    fix P' s'
    assume k: "kept ll parent {} s s'" and P: "P \<subseteq> P'" and a: "active ll parent blocks f P' s'"
    have "dom (cg_values s') = dom (cg_values s)" using k by (simp add: kept_def)
    thus "runs ll parent blocks f P' (set (stmtIds a)) s' (emit ll a s') (\<lambda>_. True)"
      using 5 by (intro 5(1) [OF _ _ _ _ bound_kept [OF _ k] a loopsOk_kept [OF _ k P]]) auto
  qed
next
  case (6 ub ret loop scs c a b l)
  have c: "does ll parent blocks f s (condition ll c) (\<lambda>_. True)" using condition_does 6 by auto
  show ?case
    unfolding emit.simps stmtIds.simps set_append
  proof (rule runs_if_else [OF 6(8) c])
    fix P' s'
    assume k: "kept ll parent {} s s'" and P: "P \<subseteq> P'" and a: "active ll parent blocks f P' s'"
    have "dom (cg_values s') = dom (cg_values s)" using k by (simp add: kept_def)
    thus "runs ll parent blocks f P' (set (stmtIds a)) s' (emit ll a s') (\<lambda>_. True)"
      using 6 by (intro 6(1) [OF _ _ _ _ bound_kept [OF _ k] a loopsOk_kept [OF _ k P]]) auto
  next
    fix P' s'
    assume k: "kept ll parent (set (stmtIds a)) s s'" and P: "P \<subseteq> P'" and act: "active ll parent blocks f P' s'"
    have d: "dom (cg_values s') = dom (cg_values s) \<union> set (stmtIds a)" using k by (simp add: kept_def)
    have b: "bound ll (afterStmt a scs) s'"
      by (rule bound_afterStmt [OF _ bound_kept [OF 6(7) k]]) (use 6 d in auto)
    show "runs ll parent blocks f P' (set (stmtIds b)) s' (emit ll b s') (\<lambda>_. True)"
      using 6 d by (intro 6(2) [OF _ _ _ _ b act loopsOk_kept [OF _ k P]]) auto
  qed
next
  case (7 ub ret loop scs c body l)
  have c: "does ll parent blocks f s (condition ll c) (\<lambda>_. True)" using condition_does 7 by auto
  show ?case
    unfolding emit.simps stmtIds.simps
  proof (rule runs_while [OF 7(7) c])
    fix P' cb eb and s' :: "('v, 'm) codegen"
    let ?s = "s'\<lparr>cg_loops := cg_loops s @ [(cb, eb)]\<rparr>"
    assume k: "kept ll parent {} s s'" and P: "P \<subseteq> P'" and cb: "parent (cg_module s') cb = Some f" "eb \<in> P'"
      and a: "active ll parent blocks f P' s'"
    have d: "dom (cg_values s') = dom (cg_values s)" and l: "cg_loops s' = cg_loops s" using k by (simp_all add: kept_def)
    have "loopsOk parent f P' s' loop" by (rule loopsOk_kept [OF 7(8) k P])
    hence "loopsOk parent f P' ?s True" using cb l by (auto simp: loopsOk_def)
    moreover have "bound ll scs ?s" using bound_kept [OF 7(6) k] by (simp add: bound_def)
    moreover have "active ll parent blocks f P' ?s" using a by (simp add: active_def)
    ultimately show "runs ll parent blocks f P' (set (stmtIds body)) ?s (emit ll body ?s) (\<lambda>_. True)"
      using 7 d by (intro 7(1)) auto
  qed
next
  case (8 ub ret loop scs l)
  thus ?case using jumpTo_runs by simp
next
  case (9 ub ret loop scs l)
  thus ?case using jumpTo_runs by simp
next
  case (10 ub ret loop scs v l)
  thus ?case using emitReturn_runs [of f P s scs ub ret v] by (cases v) auto
next
  case (11 ub ret loop scs)
  thus ?case by (simp add: runs_return)
next
  case (12 ub ret loop scs st sts)
  have "runs ll parent blocks f P (set (stmtIds st) \<union> set (concat (map stmtIds sts))) s
      (emit ll st s \<bind> (\<lambda>(_, s). emits ll sts s)) (\<lambda>_. True)"
  proof (rule runs_bind [OF 12(1)], unfold prod.case)
    fix s'
    assume k: "kept ll parent (set (stmtIds st)) s s'" and a: "active ll parent blocks f P s'"
    have d: "dom (cg_values s') = dom (cg_values s) \<union> set (stmtIds st)" using k by (simp add: kept_def)
    have b: "bound ll (afterStmt st scs) s'"
      by (rule bound_afterStmt [OF _ bound_kept [OF 12(7) k]]) (use 12 d in auto)
    show "runs ll parent blocks f P (set (concat (map stmtIds sts))) s' (emits ll sts s') (\<lambda>_. True)"
      using 12 d by (intro 12(2) [OF _ _ _ _ b a loopsOk_kept [OF _ k]]) auto
  qed (use 12 in auto)
  thus ?case by simp
qed

end

end
