(* ===== verification/CodeUnit.thy ===== *)
theory CodeUnit
  imports CodeStmt
begin

text \<open>
  Code generation of whole translation units: globals with constant initializers, functions, and
  the state between two declarations.
\<close>

section \<open>Between functions\<close>

text \<open>Every block that is in a function is complete, and branches stay in the function.\<close>

definition quiet :: "('v, 'm) llvm \<Rightarrow> ('m \<Rightarrow> 'v \<Rightarrow> 'v option) \<Rightarrow> 'm \<Rightarrow> bool" where
  "quiet ll parent m \<longleftrightarrow>
     (\<forall>c g. parent m c = Some g \<longrightarrow> complete (lv_instructions ll m c) \<and>
        (\<forall>r \<in> set (lv_instructions ll m c). \<forall>t \<in> targets r. parent m t = Some g))"

lemma quietD:
  assumes "quiet ll parent m" "parent m c = Some g"
  shows "complete (lv_instructions ll m c)" "r \<in> set (lv_instructions ll m c) \<Longrightarrow> t \<in> targets r \<Longrightarrow> parent m t = Some g"
  using assms unfolding quiet_def by blast+

lemma quiet_same:
  assumes "quiet ll parent m" "parent m' = parent m" "lv_instructions ll m' = lv_instructions ll m"
  shows "quiet ll parent m'"
  using assms(1) unfolding quiet_def assms(2,3) .

lemma quiet_sealed: "sealedAt ll parent blocks f {} m \<Longrightarrow> quiet ll parent m"
  unfolding quiet_def sealedAt_def placedOk_def by blast

definition calm :: "('v, 'm) llvm \<Rightarrow> ('m \<Rightarrow> 'v \<Rightarrow> 'v option) \<Rightarrow> ('v, 'm) codegen \<Rightarrow> bool" where
  "calm ll parent s \<longleftrightarrow> quiet ll parent (cg_module s) \<and> stringsOk ll s"

text \<open>A generator that only makes constants and globals.\<close>

definition makes :: "('v, 'm) llvm \<Rightarrow> ('m \<Rightarrow> 'v \<Rightarrow> 'v option) \<Rightarrow> ('v, 'm) codegen \<Rightarrow> ('a \<times> ('v, 'm) codegen) option \<Rightarrow> bool" where
  "makes ll parent s res \<longleftrightarrow> (\<exists>a s'. res = Some (a, s') \<and> kept ll parent {} s s' \<and> calm ll parent s')"

lemma makes_return: "calm ll parent s \<Longrightarrow> makes ll parent s (Some (a, s))"
  by (simp add: makes_def kept_refl)

lemma makes_bind:
  assumes "makes ll parent s g" "\<And>a s'. kept ll parent {} s s' \<Longrightarrow> calm ll parent s' \<Longrightarrow> makes ll parent s' (h (a, s'))"
  shows "makes ll parent s (g \<bind> h)"
proof -
  obtain a s1 where g: "g = Some (a, s1)" and k: "kept ll parent {} s s1" and c: "calm ll parent s1"
    using assms(1) by (auto simp: makes_def)
  obtain b s2 where h: "h (a, s1) = Some (b, s2)" and k2: "kept ll parent {} s1 s2" and c2: "calm ll parent s2"
    using assms(2) [OF k c] unfolding makes_def by blast
  show ?thesis using g h c2 kept_trans0 [OF k k2] by (simp add: makes_def)
qed

context llvm_laws
begin

lemma quiet_build:
  assumes "quiet ll parent m" "\<not> isInstruction r" "lv_build ll r m = (v, m')"
  shows "quiet ll parent m'"
proof -
  have r: "plain r" "\<not> isTerminator r" using assms(2) by (cases r; simp)+
  have "lv_instructions ll m' = lv_instructions ll m" using instruction_law [OF r assms(3)] assms(2) by blast
  thus ?thesis by (rule quiet_same [OF assms(1) plain_law(2) [OF r(1) assms(3)]])
qed

lemma makes_build:
  assumes "calm ll parent s" "\<not> isInstruction r"
  shows "makes ll parent s (build ll r s)"
proof -
  obtain v m' where b: "build ll r s = Some (v, s\<lparr>cg_module := m'\<rparr>)" and l: "lv_build ll r (cg_module s) = (v, m')"
    by (rule build_total)
  have "kept ll parent {} s (s\<lparr>cg_module := m'\<rparr>)" by (rule build_kept [OF l]) (use assms(2) in auto)
  thus ?thesis
    using b l assms quiet_build [OF _ assms(2) l] stringsOk_build [OF _ l] by (auto simp: makes_def calm_def)
qed

text \<open>The first block of a function.\<close>

lemma entry_opens:
  assumes "quiet ll parent m" "lv_build ll (NewBlock x (Some f)) m = (e, m1)" "lv_build ll (SetInsertPoint e) m1 = (v, m2)"
  shows "openAt ll parent blocks f {} m2" "parent m1 = (parent m)(e := Some f)" "parent m e = None"
proof -
  have l1: "e \<notin> blocks m" "lv_instructions ll m1 = (lv_instructions ll m)(e := [])" "parent m1 = (parent m)(e := Some f)"
    using blocks_law [of "NewBlock x (Some f)" m] assms(2) by (simp_all add: blockLaw_def Let_def)
  have l2: "lv_instructions ll m2 = lv_instructions ll m1" "parent m2 = parent m1" "lv_insertBlock ll m2 = e"
    using blocks_law [of "SetInsertPoint e" m1] assms(3) by (simp_all add: blockLaw_def Let_def)
  show "parent m1 = (parent m)(e := Some f)" by (rule l1(3))
  show new: "parent m e = None" using parent_exists [of m e] l1(1) by (cases "parent m e") auto
  have "placedOk ll parent blocks f {} m2"
  proof (rule placedOkI)
    fix c g r t
    assume c: "parent m2 c = Some g" "r \<in> set (lv_instructions ll m2 c)" "t \<in> targets r" "parent m2 t \<noteq> Some g"
    hence "c \<noteq> e" using l1 l2 by auto
    hence "parent m t = Some g" using c l1 l2 by (intro quietD(2) [OF assms(1), of c g r t]) auto
    thus "g = f \<and> t \<in> {}" using c(4) l1 l2 new by (auto split: if_splits)
  qed simp
  moreover have "complete (lv_instructions ll m2 c)" if c: "parent m2 c = Some g" "c \<noteq> e" for c g
  proof -
    have "parent m c = Some g" using c l1(3) l2(2) by simp
    thus ?thesis using quietD(1) [OF assms(1)] c(2) l1(2) l2(1) by simp
  qed
  moreover have "straight (lv_instructions ll m2 e)" "parent m2 e = Some f" using l1 l2 by simp_all
  ultimately show "openAt ll parent blocks f {} m2" unfolding openAt_def l2(3) by blast
qed

end

section \<open>Constants\<close>

text \<open>The globals known so far have constant addresses.\<close>

definition globalsOk :: "('v, 'm) llvm \<Rightarrow> symbol_id set \<Rightarrow> ('v, 'm) codegen \<Rightarrow> bool" where
  "globalsOk ll G s \<longleftrightarrow> (\<forall>i \<in> G. \<exists>v. cg_values s i = Some v \<and> lv_isConstant ll (cg_module s) v)"

lemma globalsOk_kept:
  assumes "globalsOk ll G s" "kept ll parent W s s'"
  shows "globalsOk ll G s'"
  unfolding globalsOk_def
proof
  fix i
  assume "i \<in> G"
  then obtain v where v: "cg_values s i = Some v" "lv_isConstant ll (cg_module s) v" using assms(1) unfolding globalsOk_def by blast
  have "lv_isConstant ll (cg_module s') v" using assms(2) v(2) unfolding kept_def by blast
  thus "\<exists>v. cg_values s' i = Some v \<and> lv_isConstant ll (cg_module s') v" using kept_value [OF assms(2) v(1)] by blast
qed

lemma globalRef_constant:
  assumes "isGlobalRef G e" "globalsOk ll G s"
  shows "\<exists>v. lvalue ll e s = Some (v, s) \<and> lv_isConstant ll (cg_module s) v"
proof -
  obtain x i where n: "node e = DeclRef x i" "i \<in> G" using assms(1) by (auto simp: isGlobalRef_def split: expr_node.splits)
  then obtain v where v: "cg_values s i = Some v" "lv_isConstant ll (cg_module s) v"
    using assms(2) unfolding globalsOk_def by blast
  thus ?thesis using n by (cases e) (simp add: valueOf_def)
qed

context llvm_laws
begin

lemma makes_address:
  assumes "isStringLiteral e \<or> isGlobalRef G e" "globalsOk ll G s" "calm ll parent s"
  shows "makes ll parent s (lvalue ll e s \<bind> asConstant ll)"
proof (cases "isStringLiteral e")
  case True
  then obtain b l t c where e: "e = Expr (StringLiteral b) l t c"
    by (cases e) (auto simp: isStringLiteral_def split: expr_node.splits)
  have "\<exists>v s'. stringLiteral ll b s = Some (v, s') \<and> kept ll parent {} s s' \<and> quiet ll parent (cg_module s') \<and> stringsOk ll s' \<and>
      lv_isConstant ll (cg_module s') v"
    by (rule stringLiteral_gives [where I = "\<lambda>s. quiet ll parent (cg_module s)"])
      (use assms(3) quiet_build in \<open>simp_all add: calm_def\<close>)
  thus ?thesis using e by (auto simp: makes_def calm_def asConstant_def)
next
  case False
  thus ?thesis using globalRef_constant [of G e ll s] assms by (auto simp: asConstant_def intro: makes_return)
qed

lemma constantExpr_makes:
  "isConstantInit ub G e \<Longrightarrow> wellTyped ub scs e \<Longrightarrow> globalsOk ll G s \<Longrightarrow> calm ll parent s \<Longrightarrow> makes ll parent s (constantExpr ll ub e s)"
proof (induction ub G e rule: isConstantInit.induct)
  case (1 ub G n l t c)
  obtain u where t: "t = Some u" using 1 by auto
  show ?case
  proof (cases "evaluateConstant ub (Expr n l t c)")
    case (Some v)
    have "\<not> isInstruction (constantNumber ub (lower u) v)" by (cases v) simp_all
    thus ?thesis using Some t makes_build [OF 1(5)] by simp
  next
    case None
    show ?thesis
    proof (cases n)
      case (Cast k imp x)
      have x: "wellTyped ub scs x" using 1(3) Cast by simp
      consider "k = CK_NullToPointer" | "k = CK_PointerCast" "isConstantInit ub G x"
        | "k = CK_ArrayToPointer" "isStringLiteral x \<or> isGlobalRef G x"
        using 1(2) None Cast by (auto split: cast_kind.splits)
      thus ?thesis
      proof cases
        case 1
        thus ?thesis using None Cast makes_build [OF \<open>calm ll parent s\<close>, of GetNullPointer] by simp
      next
        case 2
        have "makes ll parent s (constantExpr ll ub x s)"
          using "1.IH" [OF _ Cast 2(1,2) x] None \<open>globalsOk ll G s\<close> \<open>calm ll parent s\<close> by simp
        thus ?thesis using None Cast 2 by simp
      next
        case 3
        thus ?thesis using None Cast makes_address [OF 3(2) \<open>globalsOk ll G s\<close> \<open>calm ll parent s\<close>] by simp
      qed
    next
      case (Unary op x)
      hence "op = UO_AddrOf" "isGlobalRef G x" using 1(2) None by simp_all
      thus ?thesis using None Unary makes_address [of x G s] 1 by simp
    qed (use 1(2) None in auto)
  qed
qed

lemma zeros_makes: "calm ll parent s \<Longrightarrow> makes ll parent s (zeros ll t n s)"
proof (induction n arbitrary: s)
  case 0
  thus ?case by (simp add: makes_return)
next
  case (Suc n)
  show ?case
    unfolding zeros.simps
    by (rule makes_bind [OF makes_build [OF Suc.prems]], simp, unfold prod.case, rule makes_bind [OF Suc.IH], assumption)
      (simp add: makes_return)
qed

lemma constantElems_makes:
  assumes "\<And>i s. i \<in> set is \<Longrightarrow> globalsOk ll G s \<Longrightarrow> calm ll parent s \<Longrightarrow> makes ll parent s (constantInit ll ub t i s)"
    and "globalsOk ll G s" "calm ll parent s"
  shows "makes ll parent s (constantElems ll ub t n is s)"
  using assms
proof (induction "is" arbitrary: n s)
  case Nil
  thus ?case by (simp add: zeros_makes)
next
  case (Cons i xs)
  show ?case
  proof (cases "n = 0")
    case False
    have "makes ll parent s (constantInit ll ub t i s \<bind> (\<lambda>(v, s). constantElems ll ub t (n - 1) xs s \<bind> (\<lambda>(vs, s). Some (v # vs, s))))"
    proof (rule makes_bind [OF Cons.prems(1) [OF _ Cons.prems(2,3)]], simp, unfold prod.case)
      fix v s1
      assume k1: "kept ll parent {} s s1" and c1: "calm ll parent s1"
      show "makes ll parent s1 (constantElems ll ub t (n - 1) xs s1 \<bind> (\<lambda>(vs, s). Some (v # vs, s)))"
        by (rule makes_bind [OF Cons.IH [OF Cons.prems(1) globalsOk_kept [OF Cons.prems(2) k1] c1]])
          (simp_all add: makes_return)
    qed
    thus ?thesis using False by simp
  qed (simp add: makes_return Cons.prems)
qed

lemma constantInit_makes:
  "initOk ub scs (Some G) t i \<Longrightarrow> globalsOk ll G s \<Longrightarrow> calm ll parent s \<Longrightarrow> makes ll parent s (constantInit ll ub t i s)"
proof (induction i arbitrary: t s)
  case (InitExpr e l)
  show ?case
  proof (cases "isArray t")
    case True
    then obtain b where "charArray ll t e s = build ll (GetString b False) s"
      using InitExpr.prems(1) charArray_build [of e ll t s] by auto
    thus ?thesis using True makes_build [OF InitExpr.prems(3)] by simp
  next
    case False
    thus ?thesis using InitExpr.prems constantExpr_makes [of ub G e scs s] by (simp add: hasType_def)
  qed
next
  case (InitList xs l)
  show ?case
  proof (cases "isArray t")
    case True
    have "makes ll parent s (constantElems ll ub (element t) n xs s)" for n
      by (rule constantElems_makes [OF InitList.IH InitList.prems(2,3)]) (use InitList.prems(1) True in auto)
    hence "makes ll parent s (constantElems ll ub (element t) (unat (array_length t)) xs s \<bind>
        (\<lambda>(vs, s). build ll (GetConstantArray (lower t) vs) s))"
      by (rule makes_bind) (simp add: makes_build)
    thus ?thesis using True by simp
  next
    case False
    then obtain i where xs: "xs = [i]" using InitList.prems(1) by (auto simp: length_Suc_conv)
    thus ?thesis using InitList.IH [of i t s] InitList.prems False by simp
  qed
qed

end

section \<open>Declarations\<close>

text \<open>The symbols that an initializer refers to.\<close>

primrec exprIds :: "expr \<Rightarrow> symbol_id list" and nodeIds :: "expr_node \<Rightarrow> symbol_id list" where
  "exprIds (Expr n l t c) = nodeIds n"
| "nodeIds (IntLiteral v) = []"
| "nodeIds (FloatLiteral v) = []"
| "nodeIds (StringLiteral b) = []"
| "nodeIds (DeclRef x i) = [i]"
| "nodeIds (Unary op a) = exprIds a"
| "nodeIds (Binary op a b) = exprIds a @ exprIds b"
| "nodeIds (Assign a b) = exprIds a @ exprIds b"
| "nodeIds (Call f args) = exprIds f @ concat (map exprIds args)"
| "nodeIds (Index a i) = exprIds a @ exprIds i"
| "nodeIds (Cast k imp a) = exprIds a"
| "nodeIds (SizeOfType u) = []"
| "nodeIds (SizeOfExpr a) = exprIds a"

fun initIds :: "initializer \<Rightarrow> symbol_id list" where
  "initIds (InitExpr e l) = exprIds e"
| "initIds (InitList is l) = concat (map initIds is)"

lemma isConstantInit_less:
  "isConstantInit ub (insert i G) e \<Longrightarrow> i \<notin> set (exprIds e) \<Longrightarrow> isConstantInit ub G e"
proof (induction ub "insert i G" e rule: isConstantInit.induct)
  case (1 ub n l t c)
  have g: "isGlobalRef (insert i G) x \<Longrightarrow> i \<notin> set (exprIds x) \<Longrightarrow> isGlobalRef G x" for x
    by (cases x) (auto simp: isGlobalRef_def split: expr_node.splits)
  show ?case using 1 g by (cases n) (auto split: if_splits cast_kind.splits)
qed

lemma initOk_less:
  "initOk ub scs (Some (insert i G)) t x \<Longrightarrow> i \<notin> set (initIds x) \<Longrightarrow> initOk ub scs (Some G) t x"
  by (induction x arbitrary: t) (auto simp: isConstantInit_less split: if_splits)

text \<open>
  What the parser makes sure of: the type of a function is that of its parameters, and types are
  plain. Last, a global that does not refer to itself.
\<close>

definition plainFunction :: "function_decl \<Rightarrow> bool" where
  "plainFunction f \<longleftrightarrow>
     (case fd_type f of FunctionTy r ps v \<Rightarrow> ps = map pd_type (fd_params f) | _ \<Rightarrow> False) \<and> plainTy (fd_type f) \<and>
     (case fd_body f of None \<Rightarrow> True | Some body \<Rightarrow> \<forall>st \<in> set body. plainStmt st)"

lemma plainFunction_type:
  assumes "plainFunction f"
  obtains r v where "fd_type f = FunctionTy r (map pd_type (fd_params f)) v" "plainTy (fd_type f)"
  using assms by (auto simp: plainFunction_def split: ty.splits)

fun plainDecl :: "top_level_decl \<Rightarrow> bool" where
  "plainDecl (TopVar v) \<longleftrightarrow> plainVar v"
| "plainDecl (TopFunction f) \<longleftrightarrow> plainFunction f"

fun selfFree :: "top_level_decl \<Rightarrow> bool" where
  "selfFree (TopVar v) \<longleftrightarrow> (case vd_init v of None \<Rightarrow> True | Some i \<Rightarrow> vd_symbol v \<notin> set (initIds i))"
| "selfFree (TopFunction f) \<longleftrightarrow> True"

text \<open>The state between two declarations.\<close>

definition unitOk :: "('v, 'm) llvm \<Rightarrow> ('m \<Rightarrow> 'v \<Rightarrow> 'v option) \<Rightarrow> scope \<Rightarrow> symbol_id set \<Rightarrow> ('v, 'm) codegen \<Rightarrow> bool" where
  "unitOk ll parent gs G s \<longleftrightarrow>
     calm ll parent s \<and> cg_loops s = [] \<and> globalsOk ll G s \<and> bound ll [gs] s \<and>
     (\<forall>x y v. gs x = Some y \<longrightarrow> isFunction (sym_type y) \<longrightarrow> cg_values s (sym_id y) = Some v \<longrightarrow>
        length (lv_args ll (cg_module s) v) = length (params (sym_type y)))"

lemma kept_fn: "kept ll parent W s s' \<Longrightarrow> kept ll parent W (s\<lparr>cg_fn := g\<rparr>) (s'\<lparr>cg_fn := g\<rparr>)"
  by (simp add: kept_def)

lemma unitOk_kept:
  assumes "unitOk ll parent gs G s" "kept ll parent W (s\<lparr>cg_fn := g\<rparr>) s'" "calm ll parent s'"
  shows "unitOk ll parent gs G s'"
proof -
  have "globalsOk ll G (s\<lparr>cg_fn := g\<rparr>)" "bound ll [gs] (s\<lparr>cg_fn := g\<rparr>)"
    using assms(1) by (simp_all add: unitOk_def globalsOk_def bound_def)
  hence "globalsOk ll G s'" and b: "bound ll [gs] s'" using globalsOk_kept [OF _ assms(2)] bound_kept [OF _ assms(2)] by blast+
  moreover have "length (lv_args ll (cg_module s') v) = length (params (sym_type y))"
    if y: "gs x = Some y" "isFunction (sym_type y)" "cg_values s' (sym_id y) = Some v" for x y v
  proof -
    obtain w where w: "cg_values s (sym_id y) = Some w" "lv_isFunction ll (cg_module s) w"
      by (rule bound_function [of ll "[gs]" s x y]) (use assms(1) y(1,2) in \<open>simp_all add: unitOk_def\<close>)
    hence "cg_values s' (sym_id y) = Some w" using kept_value [OF assms(2)] by simp
    hence "v = w" using y(3) by simp
    moreover have "length (lv_args ll (cg_module s) w) = length (params (sym_type y))"
      using assms(1) y(1,2) w(1) unfolding unitOk_def by blast
    moreover have "length (lv_args ll (cg_module s') w) = length (lv_args ll (cg_module s) w)"
      using assms(2) w(2) unfolding kept_def by simp
    ultimately show ?thesis by simp
  qed
  ultimately show ?thesis using assms(1,2,3) unfolding unitOk_def by (simp add: kept_def)
qed

context llvm_laws
begin

lemma emitGlobal_ok:
  assumes u: "unitOk ll parent gs G s" and v: "varOk ub (Some G) [gs] v" and self: "selfFree (TopVar v)"
    and new: "vd_symbol v \<notin> dom (cg_values s)"
  shows "\<exists>s'. emitGlobal ll ub v s = Some ((), s') \<and> unitOk ll parent (hd (bindVar v [gs])) (insert (vd_symbol v) G) s' \<and>
    dom (cg_values s') = insert (vd_symbol v) (dom (cg_values s))"
proof -
  have c: "calm ll parent s" and g: "globalsOk ll G s" using u by (simp_all add: unitOk_def)
  have "makes ll parent s (case vd_init v of Some i \<Rightarrow> constantInit ll ub (vd_type v) i s
      | None \<Rightarrow> build ll (GetNullValue (lower (vd_type v))) s)"
  proof (cases "vd_init v")
    case None
    thus ?thesis using makes_build [OF c] by simp
  next
    case (Some i)
    have "initOk ub (bindVar v [gs]) (Some G) (vd_type v) i"
      by (rule initOk_less [of _ _ "vd_symbol v"]) (use v self Some in \<open>simp_all add: varOk_def\<close>)
    thus ?thesis using constantInit_makes [OF _ g c] Some by simp
  qed
  then obtain init s1 where i: "(case vd_init v of Some i \<Rightarrow> constantInit ll ub (vd_type v) i s
      | None \<Rightarrow> build ll (GetNullValue (lower (vd_type v))) s) = Some (init, s1)"
    and k1: "kept ll parent {} s s1" and c1: "calm ll parent s1" unfolding makes_def by blast
  let ?r = "NewGlobal (lower (vd_type v)) (vd_isConst v) ExternalLinkage init (vd_name v)"
  obtain w m2 where b2: "build ll ?r s1 = Some (w, s1\<lparr>cg_module := m2\<rparr>)" and l2: "lv_build ll ?r (cg_module s1) = (w, m2)"
    by (rule build_total)
  let ?s2 = "s1\<lparr>cg_module := m2\<rparr>" and ?i = "vd_symbol v"
  let ?s3 = "?s2\<lparr>cg_values := (cg_values ?s2)(?i \<mapsto> w)\<rparr>"
  have k2: "kept ll parent {} s1 ?s2" by (rule build_kept [OF l2]) simp
  have c2: "calm ll parent ?s2"
    using c1 quiet_build [OF _ _ l2] stringsOk_build [OF _ l2] by (simp add: calm_def)
  have const: "lv_isConstant ll (cg_module ?s2) w" using new_global [OF l2] by simp
  note k = kept_trans0 [OF k1 k2]
  have d: "dom (cg_values ?s2) = dom (cg_values s)" using k by (simp add: kept_def)
  have k3: "kept ll parent {?i} ?s2 ?s3" using new d by (auto simp: kept_def map_le_def)
  have k4: "kept ll parent {?i} s ?s3" by (rule kept_trans0 [OF k k3])
  have c3: "calm ll parent ?s3" using c2 by (simp add: calm_def)
  have u3: "unitOk ll parent gs G ?s3"
    using unitOk_kept [OF u, of "{?i}" "cg_fn s" ?s3] k4 c3 by simp
  have sized: "type_size (vd_type v) \<noteq> None" and undeclared: "gs (vd_name v) = None" using v by (simp_all add: varOk_def)
  let ?gs = "hd (bindVar v [gs])"
  have gs: "[?gs] = bindVar v [gs]" "?gs = gs(vd_name v \<mapsto> mkSymbol ?i (vd_type v) (vd_isConst v) False False)"
    using undeclared by (simp_all add: bindVar_def)
  have "bound ll [?gs] ?s3" unfolding gs(1)
    by (rule bound_bindVar [OF _ sized]) (use u3 in \<open>simp_all add: unitOk_def\<close>)
  moreover have "globalsOk ll (insert ?i G) ?s3" using u3 const by (simp add: unitOk_def globalsOk_def)
  moreover have "length (lv_args ll (cg_module ?s3) z) = length (params (sym_type y))"
    if "?gs x = Some y" "isFunction (sym_type y)" "cg_values ?s3 (sym_id y) = Some z" for x y z
  proof (cases "x = vd_name v")
    case True
    thus ?thesis using that gs(2) sized_value [OF sized] by auto
  next
    case False
    hence "gs x = Some y" using that(1) gs(2) by simp
    thus ?thesis using u3 that(2,3) unfolding unitOk_def by blast
  qed
  ultimately have "unitOk ll parent ?gs (insert ?i G) ?s3" using u3 unfolding unitOk_def by blast
  moreover have "emitGlobal ll ub v s = Some ((), ?s3)" using i b2 by (simp add: emitGlobal_def)
  moreover have "dom (cg_values ?s3) = insert ?i (dom (cg_values s))" using d by simp
  ultimately show ?thesis by blast
qed

lemma bindFunction_unit:
  assumes u: "unitOk ll parent gs G s" and f: "functionOk ub gs f" "plainFunction f"
    and v: "cg_values s (fd_symbol f) = Some v" "lv_isFunction ll (cg_module s) v"
      "length (lv_args ll (cg_module s) v) = length (fd_params f)"
  shows "unitOk ll parent (bindFunction f gs) G s"
proof -
  obtain r va where "fd_type f = FunctionTy r (map pd_type (fd_params f)) va" by (rule plainFunction_type [OF f(2)])
  hence t: "isFunction (fd_type f)" "fd_type f \<noteq> VoidTy" "length (params (fd_type f)) = length (fd_params f)" by simp_all
  have entry: "(gs x = Some y) \<or> (sym_id y = fd_symbol f \<and> sym_type y = fd_type f)" if "bindFunction f gs x = Some y" for x y
    using that f(1) by (auto simp: bindFunction_def functionOk_def split: option.splits if_splits)
  have b: "bound ll [gs] s" using u by (simp add: unitOk_def)
  have "bound ll [bindFunction f gs] s"
    unfolding bound_def
  proof (intro allI impI)
    fix x y
    assume "lookup [bindFunction f gs] x = Some y"
    hence "bindFunction f gs x = Some y" by (simp split: option.splits)
    thus "sym_type y \<noteq> VoidTy \<and> (\<exists>v. cg_values s (sym_id y) = Some v \<and> (isFunction (sym_type y) \<longrightarrow> lv_isFunction ll (cg_module s) v))"
      using entry [of x y] b v(1,2) t unfolding bound_def by (auto split: option.splits)
  qed
  moreover have "length (lv_args ll (cg_module s) w) = length (params (sym_type y))"
    if "bindFunction f gs x = Some y" "isFunction (sym_type y)" "cg_values s (sym_id y) = Some w" for x y w
    using entry [OF that(1)] that(2,3) u v(1,3) t(3) unfolding unitOk_def by auto
  ultimately show ?thesis using u unfolding unitOk_def by blast
qed

lemma functionFor_ok:
  assumes u: "unitOk ll parent gs G s" and f: "functionOk ub gs f" "plainFunction f"
    and new: "fd_name f \<notin> dom gs \<Longrightarrow> fd_symbol f \<notin> dom (cg_values s)"
  shows "\<exists>v s'. functionFor ll f s = Some (v, s') \<and> kept ll parent (if fd_name f \<in> dom gs then {} else {fd_symbol f}) s s' \<and>
    calm ll parent s' \<and> cg_values s' (fd_symbol f) = Some v \<and> lv_isFunction ll (cg_module s') v \<and>
    length (lv_args ll (cg_module s') v) = length (fd_params f)"
proof -
  obtain r va where t: "fd_type f = FunctionTy r (map pd_type (fd_params f)) va"
    by (rule plainFunction_type [OF f(2)])
  have c: "calm ll parent s" using u by (simp add: unitOk_def)
  show ?thesis
  proof (cases "fd_name f \<in> dom gs")
    case True
    then obtain y where y: "gs (fd_name f) = Some y" by blast
    hence p: "sym_type y = fd_type f" "sym_id y = fd_symbol f" using f(1) by (simp_all add: functionOk_def)
    have fn: "isFunction (sym_type y)" using p(1) t by simp
    obtain v where v: "cg_values s (sym_id y) = Some v" "lv_isFunction ll (cg_module s) v"
      by (rule bound_function [of ll "[gs]" s "fd_name f" y]) (use u y fn in \<open>simp_all add: unitOk_def\<close>)
    have "length (lv_args ll (cg_module s) v) = length (params (sym_type y))"
      using u y fn v(1) unfolding unitOk_def by blast
    thus ?thesis using v p c t True kept_refl [of ll parent s] by (simp add: functionFor_def)
  next
    case False
    hence n: "cg_values s (fd_symbol f) = None" using new by auto
    let ?r = "NewFunction (lower (fd_type f)) ExternalLinkage (fd_name f)"
    obtain v m where b: "build ll ?r s = Some (v, s\<lparr>cg_module := m\<rparr>)" and l: "lv_build ll ?r (cg_module s) = (v, m)"
      by (rule build_total)
    let ?s = "s\<lparr>cg_module := m\<rparr>" and ?i = "fd_symbol f"
    let ?s' = "?s\<lparr>cg_values := (cg_values ?s)(?i \<mapsto> v)\<rparr>"
    have k: "kept ll parent {} s ?s" by (rule build_kept [OF l]) simp
    have "kept ll parent {?i} ?s ?s'" using n by (auto simp: kept_def map_le_def)
    hence k': "kept ll parent {?i} s ?s'" by (rule kept_trans0 [OF k])
    have "calm ll parent ?s'" using c quiet_build [OF _ _ l] stringsOk_build [OF _ l] by (simp add: calm_def)
    moreover have "lv_isFunction ll m v \<and> length (lv_args ll m v) = length (fd_params f)"
      using new_function l t by fastforce
    moreover have "functionFor ll f s = Some (v, ?s')" using n b by (simp add: functionFor_def)
    ultimately show ?thesis using k' False by simp
  qed
qed

lemma emitParams_runs:
  assumes "active ll parent blocks f P s" "distinct (map (pd_symbol \<circ> snd) ps)"
    and "set (map (pd_symbol \<circ> snd) ps) \<inter> dom (cg_values s) = {}"
  shows "runs ll parent blocks f P (set (map (pd_symbol \<circ> snd) ps)) s (emitParams ll ps s) (\<lambda>_. True)"
  using assms
proof (induction ps arbitrary: s)
  case Nil
  thus ?case by (simp add: runs_return)
next
  case (Cons ap ps)
  obtain arg p where ap: "ap = (arg, p)" by (cases ap)
  have store: "runs ll parent blocks f P (insert (pd_symbol p) (set (map (pd_symbol \<circ> snd) ps))) s2
      (perform ll (Store arg slot) s2 \<bind> (\<lambda>(_, s). emitParams ll ps (s\<lparr>cg_values := (cg_values s)(pd_symbol p \<mapsto> slot)\<rparr>))) (\<lambda>_. True)"
    if k2: "kept ll parent {} s s2" and a2: "active ll parent blocks f P s2" for slot s2
  proof (rule runs_bind0 [OF runs_store [OF a2]], unfold prod.case)
    fix s3
    assume k3: "kept ll parent {} s2 s3" and a3: "active ll parent blocks f P s3"
    have d: "dom (cg_values s3) = dom (cg_values s)" using kept_trans0 [OF k2 k3] by (simp add: kept_def)
    show "runs ll parent blocks f P (insert (pd_symbol p) (set (map (pd_symbol \<circ> snd) ps))) s3
        (emitParams ll ps (s3\<lparr>cg_values := (cg_values s3)(pd_symbol p \<mapsto> slot)\<rparr>)) (\<lambda>_. True)"
    proof (rule runs_value [OF a3])
      show "pd_symbol p \<notin> dom (cg_values s3)" using Cons.prems(3) d ap by simp
      fix s4
      assume k4: "kept ll parent {pd_symbol p} s3 s4" and a4: "active ll parent blocks f P s4"
      show "runs ll parent blocks f P (set (map (pd_symbol \<circ> snd) ps)) s4 (emitParams ll ps s4) (\<lambda>_. True)"
        by (rule Cons.IH [OF a4]) (use Cons.prems(2,3) ap d k4 in \<open>auto simp: kept_def\<close>)
    qed
  qed
  show ?case
    unfolding ap emitParams.simps list.map list.set comp_def snd_conv
  proof (rule runs_perform_then [OF Cons.prems(1)], simp, simp, unfold prod.case)
    fix s1
    assume k1: "kept ll parent {} s s1" and a1: "active ll parent blocks f P s1"
    show "runs ll parent blocks f P (insert (pd_symbol p) (set (map (\<lambda>x. pd_symbol (snd x)) ps))) s1
        (stackSlot ll (pd_type p) (pd_name p) s1 \<bind> (\<lambda>(slot, s). perform ll (Store arg slot) s \<bind>
          (\<lambda>(_, s). emitParams ll ps (s\<lparr>cg_values := (cg_values s)(pd_symbol p \<mapsto> slot)\<rparr>)))) (\<lambda>_. True)"
      by (rule runs_bind0 [OF runs_stackSlot [OF a1]], unfold prod.case)
        (rule store [unfolded comp_def], rule kept_trans0 [OF k1], assumption+)
  qed
qed

lemma finishFunction_ok:
  assumes a: "active ll parent blocks f {} s"
  shows "\<exists>s'. finishFunction ll f s = Some ((), s') \<and> kept ll parent {} s s' \<and> calm ll parent s'"
proof -
  have open_end: "\<not> isTerminated ll (cg_module s) (lv_insertBlock ll (cg_module s))"
    using a by (auto simp: active_def openAt_def isTerminated_def straight_def)
  have ends: "\<exists>s'. perform ll r s = Some ((), s') \<and> kept ll parent {} s s' \<and> calm ll parent s'"
    if r: "isTerminator r" "targets r = {}" and s: "active ll parent blocks f {} s" for r s
  proof -
    obtain v m where b: "build ll r s = Some (v, s\<lparr>cg_module := m\<rparr>)" and l: "lv_build ll r (cg_module s) = (v, m)"
      by (rule build_total)
    have o: "openAt ll parent blocks f {} (cg_module s)" "stringsOk ll s" using s by (simp_all add: active_def)
    have "sealedAt ll parent blocks f {} m" by (rule terminator_seals [OF o(1) r(1) l]) (simp add: r(2))
    hence "calm ll parent (s\<lparr>cg_module := m\<rparr>)"
      using quiet_sealed stringsOk_build [OF o(2) l] by (auto simp: calm_def)
    moreover have "kept ll parent {} s (s\<lparr>cg_module := m\<rparr>)" by (rule build_kept [OF l]) (use r(1) in auto)
    ultimately show ?thesis using b by (simp add: perform_def)
  qed
  show ?thesis
  proof (cases "ll_return (lv_functionType ll (cg_module s) f) = LL_Void")
    case True
    thus ?thesis using open_end ends [of RetVoid s] a by (simp add: finishFunction_def)
  next
    case False
    let ?t = "ll_return (lv_functionType ll (cg_module s) f)"
    have "runs ll parent blocks f {} {} s (build ll (GetNullValue ?t) s) (\<lambda>_. True)" by (rule runs_build [OF a]) simp_all
    then obtain z s1 where b: "build ll (GetNullValue ?t) s = Some (z, s1)" and k: "kept ll parent {} s s1"
      and a1: "active ll parent blocks f {} s1" unfolding runs_def by blast
    obtain s2 where e: "perform ll (Ret z) s1 = Some ((), s2)" "kept ll parent {} s1 s2" "calm ll parent s2"
      using ends [of "Ret z" s1] a1 by auto
    thus ?thesis using False open_end b kept_trans0 [OF k e(2)] by (simp add: finishFunction_def Let_def)
  qed
qed

lemma bound_bindParams:
  assumes "bound ll scs s" "\<forall>p \<in> set ps. pd_type p \<noteq> VoidTy \<and> \<not> isFunction (pd_type p) \<and> pd_symbol p \<in> dom (cg_values s)"
  shows "bound ll (fold bindParam ps scs) s"
  using assms
proof (induction ps arbitrary: scs)
  case (Cons p ps)
  have "bound ll (bindParam p scs) s"
    unfolding bindParam_def by (rule bound_emplace [OF Cons.prems(1)]) (use Cons.prems(2) in auto)
  thus ?case using Cons.IH Cons.prems(2) by simp
qed simp

lemma emitFunction_ok:
  assumes u: "unitOk ll parent gs G s" and f: "functionOk ub gs d" "plainFunction d"
    and new: "distinct (functionIds (dom gs) d)" "set (functionIds (dom gs) d) \<inter> dom (cg_values s) = {}"
  shows "\<exists>s'. emitFunction ll d s = Some ((), s') \<and> unitOk ll parent (bindFunction d gs) G s' \<and>
    dom (cg_values s') = set (functionIds (dom gs) d) \<union> dom (cg_values s)"
proof -
  let ?V = "if fd_name d \<in> dom gs then {} else {fd_symbol d}"
  have "fd_symbol d \<in> set (functionIds (dom gs) d)" if "fd_name d \<notin> dom gs" using that by (simp add: functionIds_def)
  hence fresh: "fd_name d \<notin> dom gs \<Longrightarrow> fd_symbol d \<notin> dom (cg_values s)" using new(2) by blast
  obtain v s1 where ff: "functionFor ll d s = Some (v, s1)" and k1: "kept ll parent ?V s s1" and c1: "calm ll parent s1"
    and v: "cg_values s1 (fd_symbol d) = Some v" "lv_isFunction ll (cg_module s1) v"
      "length (lv_args ll (cg_module s1) v) = length (fd_params d)"
    using functionFor_ok [OF u f fresh] by blast
  have "unitOk ll parent gs G s1" using unitOk_kept [OF u, of ?V "cg_fn s" s1] k1 c1 by simp
  hence u1: "unitOk ll parent (bindFunction d gs) G s1" by (rule bindFunction_unit [OF _ f v])
  have d1: "dom (cg_values s1) = dom (cg_values s) \<union> ?V" using k1 by (simp add: kept_def)
  show ?thesis
  proof (cases "fd_body d")
    case None
    thus ?thesis using ff u1 d1 by (auto simp: emitFunction_def functionIds_def)
  next
    case (Some body)
    let ?s2 = "s1\<lparr>cg_fn := Some v\<rparr>" and ?PS = "set (map pd_symbol (fd_params d))"
    obtain e m3 where b3: "build ll (NewBlock ''entry'' (Some v)) ?s2 = Some (e, ?s2\<lparr>cg_module := m3\<rparr>)"
      and l3: "lv_build ll (NewBlock ''entry'' (Some v)) (cg_module ?s2) = (e, m3)" by (rule build_total)
    let ?s3 = "?s2\<lparr>cg_module := m3\<rparr>"
    obtain z m4 where b4: "build ll (SetInsertPoint e) ?s3 = Some (z, ?s3\<lparr>cg_module := m4\<rparr>)"
      and l4: "lv_build ll (SetInsertPoint e) (cg_module ?s3) = (z, m4)" by (rule build_total)
    let ?s4 = "?s3\<lparr>cg_module := m4\<rparr>"
    have q: "quiet ll parent (cg_module ?s2)" and str: "stringsOk ll ?s2" using c1 by (simp_all add: calm_def)
    have l3': "lv_build ll (NewBlock ''entry'' (Some v)) (cg_module s1) = (e, m3)"
      and l4': "lv_build ll (SetInsertPoint e) m3 = (z, m4)" using l3 l4 by simp_all
    have a4: "active ll parent blocks v {} ?s4"
      using entry_opens(1) [of "cg_module s1" "''entry''" v e m3 z m4] q l3' l4'
        stringsOk_build [OF stringsOk_build [OF str l3] l4] by (simp add: active_def)
    have k4: "kept ll parent {} ?s2 ?s4" by (rule kept_trans0 [OF build_kept [OF l3] build_kept [OF l4]]) simp_all
    have d4: "dom (cg_values ?s4) = dom (cg_values s1)" by simp
    let ?args = "lv_args ll (cg_module ?s4) v"
    have len: "length ?args = length (fd_params d)" using k4 v(2,3) by (simp add: kept_def)
    hence z: "map (pd_symbol \<circ> snd) (zip ?args (fd_params d)) = map pd_symbol (fd_params d)"
      by (metis map_map map_snd_zip)
    have ids: "distinct (map pd_symbol (fd_params d))" "?PS \<inter> dom (cg_values s1) = {}"
      "distinct (concat (map stmtIds body))" "set (concat (map stmtIds body)) \<inter> (dom (cg_values s1) \<union> ?PS) = {}"
      using new Some d1 by (auto simp: functionIds_def split: if_splits)
    have "runs ll parent blocks v {} ?PS ?s4 (emitParams ll (zip ?args (fd_params d)) ?s4) (\<lambda>_. True)"
      by (rule emitParams_runs [OF a4, of "zip ?args (fd_params d)", unfolded z, OF ids(1)]) (use ids(2) d4 in simp)
    then obtain s5 where p5: "emitParams ll (zip ?args (fd_params d)) ?s4 = Some ((), s5)" and k5: "kept ll parent ?PS ?s4 s5"
      and a5: "active ll parent blocks v {} s5" by (auto simp: runs_def)
    have k5': "kept ll parent ?PS ?s2 s5" by (rule kept_trans0 [OF k4 k5])
    have d5: "dom (cg_values s5) = dom (cg_values s1) \<union> ?PS" using k5' by (simp add: kept_def)
    let ?scs = "fold bindParam (fd_params d) (enterScope [bindFunction d gs])"
    have "bound ll (enterScope [bindFunction d gs]) s1" using u1 by (simp add: unitOk_def)
    hence "bound ll (enterScope [bindFunction d gs]) ?s2" by (simp add: bound_def)
    hence "bound ll (enterScope [bindFunction d gs]) s5" by (rule bound_kept [OF _ k5'])
    moreover have "\<forall>p \<in> set (fd_params d). pd_type p \<noteq> VoidTy \<and> \<not> isFunction (pd_type p)"
      by (rule plainFunction_type [OF f(2)]) (auto simp: isVoid_iff)
    ultimately have b5: "bound ll ?scs s5" using d5 by (intro bound_bindParams) auto
    have "cg_loops s5 = []" using k5' u1 by (simp add: kept_def unitOk_def)
    hence "loopsOk parent v {} s5 False" by (simp add: loopsOk_def)
    moreover have "stmtsOk ub (returnType (fd_type d)) False ?scs body" "\<forall>st \<in> set body. plainStmt st"
      using f Some by (simp_all add: functionOk_def plainFunction_def)
    ultimately have "runs ll parent blocks v {} (set (concat (map stmtIds body))) s5 (emits ll body s5) (\<lambda>_. True)"
      using ids(3,4) d5 by (intro stmt_generates(2) [OF _ _ _ _ b5 a5]) auto
    then obtain s6 where e6: "emits ll body s5 = Some ((), s6)" and k6: "kept ll parent (set (concat (map stmtIds body))) s5 s6"
      and a6: "active ll parent blocks v {} s6" by (auto simp: runs_def)
    obtain s7 where e7: "finishFunction ll v s6 = Some ((), s7)" and k7: "kept ll parent {} s6 s7" and c7: "calm ll parent s7"
      using finishFunction_ok [OF a6] by blast
    have k: "kept ll parent (?PS \<union> (set (concat (map stmtIds body)) \<union> {})) ?s2 s7"
      by (rule kept_trans [OF k5' kept_trans [OF k6 k7]])
    have "unitOk ll parent (bindFunction d gs) G s7" by (rule unitOk_kept [OF u1 k c7])
    moreover have "dom (cg_values s7) = set (functionIds (dom gs) d) \<union> dom (cg_values s)"
      using k d1 Some by (auto simp: kept_def functionIds_def)
    moreover have "emitFunction ll d s = Some ((), s7)"
      using ff Some b3 b4 p5 e6 e7 by (simp add: emitFunction_def perform_def)
    ultimately show ?thesis by blast
  qed
qed

theorem decls_generate:
  assumes "declsOk ub gs G ds" "\<forall>d \<in> set ds. plainDecl d \<and> selfFree d" "distinct (declIds (dom gs) ds)"
    "set (declIds (dom gs) ds) \<inter> dom (cg_values s) = {}" "unitOk ll parent gs G s"
  shows "\<exists>s'. emitDecls ll ub ds s = Some ((), s') \<and> calm ll parent s'"
  using assms
proof (induction ub gs G ds arbitrary: s rule: declsOk.induct)
  case (1 ub gs G)
  thus ?case by (simp add: unitOk_def)
next
  case (2 ub gs G v ds)
  have v: "varOk ub (Some G) [gs] v" and self: "selfFree (TopVar v)" and new: "vd_symbol v \<notin> dom (cg_values s)"
    using 2(2-5) by auto
  obtain s1 where e: "emitGlobal ll ub v s = Some ((), s1)"
    and u1: "unitOk ll parent (hd (bindVar v [gs])) (insert (vd_symbol v) G) s1"
    and d1: "dom (cg_values s1) = insert (vd_symbol v) (dom (cg_values s))"
    using emitGlobal_ok [OF 2(6) v self new] by blast
  have dom: "dom (hd (bindVar v [gs])) = insert (vd_name v) (dom gs)" using v by (simp add: bindVar_def varOk_def)
  have "\<exists>s'. emitDecls ll ub ds s1 = Some ((), s') \<and> calm ll parent s'"
    by (rule 2(1) [OF _ _ _ _ u1]) (use 2(2-5) d1 dom in auto)
  thus ?case using e by simp
next
  case (3 ub gs G f ds)
  have f: "functionOk ub gs f" "plainFunction f" using 3(2,3) by simp_all
  have ids: "declIds (dom gs) (TopFunction f # ds) = functionIds (dom gs) f @ declIds (insert (fd_name f) (dom gs)) ds" by simp
  have new: "distinct (functionIds (dom gs) f)" "set (functionIds (dom gs) f) \<inter> dom (cg_values s) = {}"
    using 3(4,5) unfolding ids by auto
  obtain s1 where e: "emitFunction ll f s = Some ((), s1)" and u1: "unitOk ll parent (bindFunction f gs) G s1"
    and d1: "dom (cg_values s1) = set (functionIds (dom gs) f) \<union> dom (cg_values s)"
    using emitFunction_ok [OF 3(6) f new] by blast
  have dom: "dom (bindFunction f gs) = insert (fd_name f) (dom gs)" by (auto simp: bindFunction_def split: option.splits)
  have "\<exists>s'. emitDecls ll ub ds s1 = Some ((), s') \<and> calm ll parent s'"
    by (rule 3(1) [OF _ _ _ _ u1]) (use 3(2-5) d1 dom in \<open>auto simp del: declIds.simps simp: ids\<close>)
  thus ?case using e by simp
qed

lemma new_unit: "unitOk ll parent Map.empty {} (newCodegen ll x)"
  by (auto simp: unitOk_def calm_def quiet_def stringsOk_def globalsOk_def bound_def newCodegen_def new_module)

end

end
