(* ===== verification/CodePlain.thy ===== *)
theory CodePlain
  imports CodeUnit ParseCorrect SemaCorrect
begin

text \<open>
  The trees that the code generator gets are plain: the grammar gives only plain types, and the
  analyzer keeps them so.
\<close>

section \<open>The grammar\<close>

text \<open>The type of a declarator, with the parameters if it declares a function.\<close>

definition plainShape :: "ty \<Rightarrow> (param_decl list \<times> bool) option \<Rightarrow> bool" where
  "plainShape t f \<longleftrightarrow> plainTy t \<and>
     (case f of None \<Rightarrow> \<not> isFunction t
      | Some (ps, v) \<Rightarrow> (case t of FunctionTy r qs v' \<Rightarrow> qs = map pd_type ps | _ \<Rightarrow> False))"

lemma plainShape_simps [simp]:
  "plainShape t None \<longleftrightarrow> plainTy t \<and> \<not> isFunction t"
  "plainShape (FunctionTy r qs v) (Some (ps, w)) \<longleftrightarrow> plainTy (FunctionTy r qs v) \<and> qs = map pd_type ps"
  by (auto simp: plainShape_def)

lemma gSpec_plain: "gSpec ss t c \<Longrightarrow> plainTy t \<and> \<not> isFunction t"
proof -
  assume "gSpec ss t c"
  hence "Some t \<in> set (map typeOfKind (filter (\<lambda>k. k \<noteq> TK_KwConst) (kindsOf ss)))" by (simp add: gSpec_def)
  then obtain k where "typeOfKind k = Some t" by auto
  thus ?thesis by (cases k) auto
qed

definition plainParam :: "param_decl \<Rightarrow> bool" where
  "plainParam p \<longleftrightarrow> plainTy (pd_type p) \<and> \<not> isVoid (pd_type p) \<and> \<not> isFunction (pd_type p)"

lemma paramType_plain: "plainTy t \<Longrightarrow> \<not> isFunction t \<Longrightarrow> \<not> isVoid t \<Longrightarrow>
    plainTy (paramType t) \<and> \<not> isVoid (paramType t) \<and> \<not> isFunction (paramType t)"
  by (cases t) (auto simp: paramType_def)

lemma plain_bare [simp]: "plainExpr (bareExpr n l) \<longleftrightarrow> plainNode n"
  by (simp add: bareExpr_def)

lemma grammar_plain:
  "gPrimary ub ts e \<Longrightarrow> plainExpr e" "gPostfix ub ts e \<Longrightarrow> plainExpr e" "gArgs ub ts es \<Longrightarrow> list_all plainExpr es"
  "gUnary ub ts e \<Longrightarrow> plainExpr e" "gBinary ub p ts e \<Longrightarrow> plainExpr e" "gAssign ub ts e \<Longrightarrow> plainExpr e"
  "gTypeName ub ts t \<Longrightarrow> plainTy t \<and> \<not> isFunction t"
  "gDeclarator ub ab t f ts d \<Longrightarrow> plainShape t f \<Longrightarrow> plainShape (dd_type d) (dd_function d)"
  "gDirect ub ab t f ts d \<Longrightarrow> plainShape t f \<Longrightarrow> plainShape (dd_type d) (dd_function d)"
  "gLength ub ts n \<Longrightarrow> True" "gParams ub ts fn \<Longrightarrow> list_all plainParam (fst fn)"
  "gParamList ub ts fn \<Longrightarrow> list_all plainParam (fst fn)" "gParam ub ts pd \<Longrightarrow> plainParam pd"
proof (induction rule: gPrimary_gPostfix_gArgs_gUnary_gBinary_gAssign_gTypeName_gDeclarator_gDirect_gLength_gParams_gParamList_gParam.inducts)
  case (g_type_name ss base c ts d)
  hence s: "plainShape (dd_type d) (dd_function d)" using gSpec_plain by simp
  show ?case using s g_type_name by (cases "dd_function d") (auto simp: plainShape_def split: ty.splits)
next
  case (g_param ss base c ts d)
  hence "plainShape (dd_type d) (dd_function d)" using gSpec_plain by simp
  hence "plainTy (dd_type d)" by (auto simp: plainShape_def)
  thus ?case using g_param paramType_plain by (simp add: plainParam_def)
next
  case (g_array t ab n ts d lb rb us)
  thus ?case by (simp add: elementOk_def)
next
  case (g_function t us ps v ab ts d lp rp)
  have "plainTy (FunctionTy t (map pd_type ps) v)"
    using g_function by (auto simp: plainParam_def list_all_iff)
  thus ?case using g_function by simp
qed (simp_all add: list.pred_map comp_def)

lemma gDeclarator_plain:
  "gSpec ss base c \<Longrightarrow> gDeclarator ub ab base None ts d \<Longrightarrow> plainShape (dd_type d) (dd_function d)"
  using grammar_plain(8) gSpec_plain by simp

lemma gInit_plain: "gInit ub ts i \<Longrightarrow> plainInit i" "gItems ub us is \<Longrightarrow> \<forall>i \<in> set is. plainInit i"
  by (induction rule: gInit_gItems.inducts) (simp_all add: grammar_plain)

lemma gVar_plain: "gVar ub base c ts v \<Longrightarrow> gSpec ss base c \<Longrightarrow> plainVar v"
  by (induction rule: gVar.induct) (drule (1) gDeclarator_plain, simp add: plainVar_def gInit_plain)+

lemma gVars_plain: "gVars ub base c ts vs \<Longrightarrow> gSpec ss base c \<Longrightarrow> \<forall>v \<in> set vs. plainVar v"
  by (induction rule: gVars.induct) (auto simp: gVar_plain)

lemma gStmt_plain: "gStmt ub ts st \<Longrightarrow> plainStmt st" "gBlock ub us sts \<Longrightarrow> \<forall>st \<in> set sts. plainStmt st"
  by (induction rule: gStmt_gBlock.inducts) (auto simp: grammar_plain dest: gVars_plain)

lemma functionDecl_plain:
  assumes "gSpec ss base c" "gDeclarator ub ab base None ts d" "dd_function d \<noteq> None"
    and "case body of None \<Rightarrow> True | Some sts \<Rightarrow> \<forall>st \<in> set sts. plainStmt st"
  shows "plainDecl (functionDecl d body)"
proof -
  obtain ps v where f: "dd_function d = Some (ps, v)" using assms(3) by auto
  thus ?thesis
    using gDeclarator_plain [OF assms(1,2)] assms(4)
    by (auto simp: functionDecl_def plainFunction_def plainShape_def split: ty.splits)
qed

lemma gTops_plain: "gTops ub base c ts ds \<Longrightarrow> gSpec ss base c \<Longrightarrow> list_all plainDecl ds"
  by (induction rule: gTops.induct) (auto elim!: gTop.cases simp: gVar_plain functionDecl_plain)

lemma gUnit_plain: "gUnit ub ts ds \<Longrightarrow> list_all plainDecl ds"
proof (induction rule: gUnit.induct)
  case (g_unit ts ds us es)
  from g_unit.hyps(1) have "list_all plainDecl ds"
    by cases (auto simp: gTops_plain functionDecl_plain gStmt_plain)
  thus ?case using g_unit.IH by simp
qed simp

section \<open>The analyzer\<close>

definition plainScopes :: "scope list \<Rightarrow> bool" where
  "plainScopes scs \<longleftrightarrow> (\<forall>sc \<in> set scs. \<forall>x y. sc x = Some y \<longrightarrow> plainTy (sym_type y) \<and> (isFunction (sym_type y) \<longrightarrow> sym_isFunction y))"

lemma lookup_member: "lookup scs x = Some y \<Longrightarrow> \<exists>sc \<in> set scs. sc x = Some y"
  by (induction scs) (auto split: option.splits)

lemma plainScopes_lookup:
  "plainScopes scs \<Longrightarrow> lookup scs x = Some y \<Longrightarrow> plainTy (sym_type y) \<and> (isFunction (sym_type y) \<longrightarrow> sym_isFunction y)"
  using lookup_member unfolding plainScopes_def by blast

text \<open>A tree with plain types, in which no lvalue is a function, and unchanged scopes.\<close>

definition plainOut :: "analyzer \<Rightarrow> expr \<times> analyzer \<Rightarrow> bool" where
  "plainOut s p \<longleftrightarrow> plainExpr (fst p) \<and> an_scopes (snd p) = an_scopes s \<and>
     (category (fst p) = LValue \<longrightarrow> (\<forall>t. expr_type (fst p) = Some t \<longrightarrow> \<not> isFunction t))"

lemma plainExpr_iff: "plainExpr e \<longleftrightarrow> (\<forall>t. expr_type e = Some t \<longrightarrow> plainTy t) \<and> plainNode (node e)"
  by (cases e) (auto split: option.split)

lemma plain_set_type [simp]: "plainExpr (set_type t e) \<longleftrightarrow> (\<forall>u. t = Some u \<longrightarrow> plainTy u) \<and> plainNode (node e)"
  by (simp add: plainExpr_iff)

lemma plain_fail [simp]: "plainExpr (fst (failExpr e m s)) \<longleftrightarrow> plainNode (node e)"
    "expr_type (fst (failExpr e m s)) = None" "an_scopes (snd (failExpr e m s)) = an_scopes s"
  by (simp_all add: failExpr_def an_error_def)

lemma plainOut_fail: "plainNode (node e) \<Longrightarrow> an_scopes s1 = an_scopes s \<Longrightarrow> plainOut s (failExpr e m s1)"
  by (simp add: plainOut_def)

lemma plain_wrap [simp]: "plainExpr (wrap e k t) \<longleftrightarrow> plainTy t \<and> plainExpr e"
  by (simp add: wrap_def)

lemma plain_arith [simp]: "isArithmetic t \<Longrightarrow> plainTy t"
  by (cases t) (simp_all add: isArithmetic_def)

lemma plain_toArithmetic: "plainExpr e \<Longrightarrow> isArithmetic t \<Longrightarrow> plainExpr (toArithmetic e t)"
  by (simp add: toArithmetic_def)

lemma plain_promote: "plainExpr e \<Longrightarrow> plainExpr (promote e)"
  by (simp add: promote_def plain_toArithmetic isArithmetic_def)

lemma plain_convert:
  assumes "convert ub e t m s = (ok, e', s')" "plainExpr e" "plainTy t"
  shows "plainExpr e'" "an_scopes s' = an_scopes s"
proof -
  have "plainNode (node e)" using assms(2) by (simp add: plainExpr_iff)
  thus "plainExpr e'" "an_scopes s' = an_scopes s"
    using assms by (auto simp: convert_def Let_def failExpr_def an_error_def plain_toArithmetic split: if_splits)
qed

lemma plainTy_element: "plainTy t \<Longrightarrow> isArray t \<Longrightarrow> plainTy (element t) \<and> \<not> isFunction (element t)"
  by (cases t) auto

lemma plainTy_pointee: "plainTy t \<Longrightarrow> isPointer t \<Longrightarrow> plainTy (pointee t) \<and> \<not> isFunction (pointee t)"
  by (cases t) auto

lemma plainTy_function:
  "plainTy t \<Longrightarrow> isFunction t \<Longrightarrow> plainTy (returnType t) \<and> (\<forall>p \<in> set (params t). plainTy p)"
  by (cases t) auto

lemma plain_decay:
  assumes "plainOut s p"
  shows "plainOut s (decay p)"
proof -
  obtain e s1 where p: "p = (e, s1)" by (cases p)
  have e: "plainExpr e" "an_scopes s1 = an_scopes s" using assms p by (simp_all add: plainOut_def)
  have "plainNode (node e)" using e(1) by (simp add: plainExpr_iff)
  moreover have "plainTy (element t) \<and> \<not> isFunction (element t)" if "expr_type e = Some t" "isArray t" for t
    using plainTy_element [of t] plainExpr_type [OF e(1)] that by simp
  ultimately show ?thesis
    using assms e by (auto simp: p decay_def plainOut_def split: option.split)
qed

lemma plain_arithmeticBinary:
  "plainExpr a \<Longrightarrow> plainExpr b \<Longrightarrow> plainExpr (arithmeticBinary op a b l c)"
  by (simp add: arithmeticBinary_def usualArithmetic_def Let_def plain_toArithmetic commonType_def isArithmetic_def)

lemma plain_addrOf:
  assumes "plainOut s (x, s1)"
  shows "plainOut s (addrOfRule (Expr (Unary UO_AddrOf x) l t RValue) x s1)"
proof -
  have "plainTy u" if "expr_type x = Some u" for u using assms plainExpr_type [of x] that by (simp add: plainOut_def)
  thus ?thesis using assms by (auto simp: addrOfRule_def plainOut_def isLValue_def failExpr_def an_error_def split: option.split)
qed

lemma plain_unary:
  assumes "plainOut s (x, s1)"
  shows "plainOut s (unaryRule op x l None RValue s1)"
proof -
  have x: "plainExpr x" "an_scopes s1 = an_scopes s" using assms by (simp_all add: plainOut_def)
  have p: "plainExpr (promote x)" by (rule plain_promote [OF x(1)])
  have t: "plainTy (pointee u) \<and> \<not> isFunction (pointee u)" if "expr_type x = Some u" "isPointer u" for u
    using plainTy_pointee plainExpr_type [OF x(1)] that by blast
  show ?thesis
    using x p t plainExpr_type [OF p]
    by (cases op) (auto simp: unaryRule_def Let_def plainOut_def failExpr_def an_error_def split: option.split)
qed

lemma plain_binary:
  assumes "plainOut s (a, s1)" "plainOut s (b, s1)"
  shows "plainOut s (binaryRule ub op a b l None RValue s1)"
proof -
  have e: "plainExpr a" "plainExpr b" "an_scopes s1 = an_scopes s" using assms by (simp_all add: plainOut_def)
  have p: "plainExpr (promote a)" "plainExpr (promote b)" using plain_promote e by blast+
  have ta: "plainTy t" if "expr_type a = Some t" for t using plainExpr_type [OF e(1) that] .
  have tb: "plainTy t" if "expr_type b = Some t" for t using plainExpr_type [OF e(2) that] .
  have ar: "plainExpr (arithmeticBinary op a b l RValue)" "category (arithmeticBinary op a b l RValue) = RValue" for op
    using plain_arithmeticBinary [OF e(1,2)] by (simp_all add: arithmeticBinary_def usualArithmetic_def Let_def)
  have ct: "isArithmetic (commonType a b)" by (simp add: commonType_def isArithmetic_def)
  have add: "plainOut s (addRule a b lt rt l None RValue s1)" if "expr_type a = Some lt" "expr_type b = Some rt" for lt rt
    using that e p ta tb ar
    by (auto simp: addRule_def Let_def incompletePointee_def invalidOperands_def plainOut_fail plainOut_def)
  have sub: "plainOut s (subRule a b lt rt l None RValue s1)" if "expr_type a = Some lt" "expr_type b = Some rt" for lt rt
    using that e p ta tb ar
    by (auto simp: subRule_def Let_def incompletePointee_def invalidOperands_def plainOut_fail plainOut_def)
  have cmp: "plainOut s (comparisonRule ub op a b lt rt l RValue s1)" if "expr_type a = Some lt" "expr_type b = Some rt" for lt rt
    using that e p ta tb plain_toArithmetic [OF e(1) ct] plain_toArithmetic [OF e(2) ct]
    by (auto simp: comparisonRule_def Let_def usualArithmetic_def invalidOperands_def plainOut_fail plainOut_def)
  show ?thesis
    using e ar add sub cmp
    by (auto simp: binaryRule_def Let_def invalidOperands_def plainOut_fail plainOut_def split: option.split)
qed

lemma plain_assign:
  assumes "plainOut s (a, s1)" "plainOut s (b, s1)"
  shows "plainOut s (assignRule ub a b l None RValue s1)"
proof -
  have e: "plainExpr a" "plainExpr b" "an_scopes s1 = an_scopes s" using assms by (simp_all add: plainOut_def)
  have c: "plainExpr v' \<and> an_scopes s' = an_scopes s" if "convert ub b t m s1 = (ok, v', s')" "expr_type a = Some t" for t m ok v' s'
    using plain_convert [OF that(1) e(2) plainExpr_type [OF e(1) that(2)]] e(3) by simp
  have t: "plainTy t" if "expr_type a = Some t" for t using plainExpr_type [OF e(1) that] .
  show ?thesis
    using e c t
    by (auto simp: assignRule_def Let_def plainOut_fail split: option.split prod.split) (auto simp: plainOut_def)
qed

lemma plain_args:
  assumes "list_all plainExpr args" "\<forall>p \<in> set ps. plainTy p" "convertArgs ub ps args ok s = (ok', args', s')"
  shows "list_all plainExpr args' \<and> an_scopes s' = an_scopes s"
  using assms
proof (induction ub ps args ok s arbitrary: ok' args' s' rule: convertArgs.induct)
  case (2 ub ps a args ok s)
  show ?case
  proof (cases "expr_type a")
    case None
    obtain o1 as1 s1 where r: "convertArgs ub (tl ps) args False s = (o1, as1, s1)" by (cases rule: prod_cases3)
    have "\<forall>p \<in> set (tl ps). plainTy p" using 2(6) by (cases ps) auto
    hence "list_all plainExpr as1 \<and> an_scopes s1 = an_scopes s" using 2(1) [OF None _ _ r] 2(5) by simp
    thus ?thesis using None r 2(5,7) by auto
  next
    case (Some t)
    show ?thesis
    proof (cases ps)
      case Nil
      obtain o1 as1 s1 where r: "convertArgs ub [] args ok s = (o1, as1, s1)" by (cases rule: prod_cases3)
      obtain a' s2 where f: "failExpr a (''argument may not have '' @ quoted_text ''void'' @ '' type'') s = (a', s2)" by (cases rule: prod.exhaust)
      obtain o3 as3 s3 where r3: "convertArgs ub [] args False s2 = (o3, as3, s3)" by (cases rule: prod_cases3)
      have fa: "plainExpr a' \<and> an_scopes s2 = an_scopes s" using f 2(5) by (auto simp: failExpr_def an_error_def plainExpr_iff [of a])
      show ?thesis
      proof (cases "isVoid t")
        case True
        hence "list_all plainExpr as3 \<and> an_scopes s3 = an_scopes s2" using 2(2) [OF Some Nil True f [symmetric] _ _ r3] 2(5) by simp
        thus ?thesis using fa True Some Nil f r3 2(7) by auto
      next
        case False
        hence "list_all plainExpr as1 \<and> an_scopes s1 = an_scopes s" using 2(3) [OF Some Nil False _ _ r] 2(5) by simp
        thus ?thesis using False Some Nil r 2(5,7) plain_promote by auto
      qed
    next
      case (Cons q qs)
      obtain o1 a' s1 where c: "convert ub a q ''passing'' s = (o1, a', s1)" by (cases rule: prod_cases3)
      obtain o2 as2 s2 where r: "convertArgs ub qs args (ok \<and> o1) s1 = (o2, as2, s2)" by (cases rule: prod_cases3)
      have a': "plainExpr a'" "an_scopes s1 = an_scopes s" using plain_convert [OF c] 2(5,6) Cons by auto
      have "list_all plainExpr as2 \<and> an_scopes s2 = an_scopes s1"
        using 2(4) [OF Some Cons c [symmetric] refl _ _ r] 2(5,6) Cons by simp
      thus ?thesis using a' Some Cons c r 2(7) by auto
    qed
  qed
qed simp

lemma plain_call:
  assumes "plainOut s (f, s1)" "list_all plainExpr args" "an_scopes s1 = an_scopes s"
  shows "plainOut s (callRule ub f args l None RValue s1)"
proof (cases "expr_type f")
  case None
  thus ?thesis using assms by (simp add: callRule_def Let_def plainOut_def list.pred_map comp_def)
next
  case (Some fn)
  have f: "plainExpr f" using assms(1) by (simp add: plainOut_def)
  obtain ok args' s' where c: "convertArgs ub (params fn) args True s1 = (ok, args', s')" by (cases rule: prod_cases3)
  have fn: "isFunction fn \<Longrightarrow> plainTy (returnType fn) \<and> (\<forall>p \<in> set (params fn). plainTy p)"
    using plainTy_function [OF plainExpr_type [OF f Some]] .
  have "isFunction fn \<Longrightarrow> list_all plainExpr args' \<and> an_scopes s' = an_scopes s1"
    using plain_args [OF assms(2) _ c] fn by blast
  thus ?thesis using Some c fn f assms(2,3)
    by (auto simp: callRule_def Let_def plainOut_fail list.pred_map comp_def) (auto simp: plainOut_def list.pred_map comp_def)
qed

lemma plain_cast:
  assumes "plainOut s (x, s1)" "\<forall>u. t = Some u \<longrightarrow> plainTy u"
  shows "plainOut s (castRule x imp l t RValue s1)"
  using assms by (auto simp: castRule_def Let_def plainOut_fail plainOut_def failExpr_def an_error_def split: option.split)

lemma plain_sizeOf:
  assumes "plainNode (node e)" "an_scopes s1 = an_scopes s"
  shows "plainOut s (sizeOfRule e u s1)"
  using assms by (auto simp: sizeOfRule_def plainOut_fail split: option.split) (simp add: plainOut_def)

lemma plain_check:
  "parsed e \<Longrightarrow> plainExpr e \<Longrightarrow> plainScopes (an_scopes s) \<Longrightarrow> plainOut s (check ub e s)"
  "\<forall>a \<in> set args. parsed a \<and> plainExpr a \<Longrightarrow> plainScopes (an_scopes s) \<Longrightarrow>
     list_all plainExpr (fst (checkArgs ub args s)) \<and> an_scopes (snd (checkArgs ub args s)) = an_scopes s"
proof (induction ub e s and ub args s rule: check_checkArgs.induct)
  case (4 ub n i l t c s)
  thus ?case using plainScopes_lookup [of "an_scopes s" n]
    by (auto simp: checkDeclRef_def plainOut_fail split: option.split) (auto simp: plainOut_def)
next
  case (5 ub op x l t c s)
  have x: "plainOut s (check ub x s)" using 5 by (cases "op = UO_AddrOf") auto
  have l: "c = RValue" "t = None" using 5(3) by simp_all
  show ?case
  proof (cases "op = UO_AddrOf")
    case True
    thus ?thesis using x l by (cases "check ub x s") (simp add: plain_addrOf)
  next
    case False
    thus ?thesis using plain_decay [OF x] l by (cases "decay (check ub x s)") (simp add: plain_unary)
  qed
next
  case (6 ub op a b l t c s)
  have l: "c = RValue" "t = None" using 6(3) by simp_all
  obtain a' s1 where a: "decay (check ub a s) = (a', s1)" by (cases "decay (check ub a s)")
  have pa: "plainOut s (a', s1)" using plain_decay 6 a by (metis parsed.simps parsedNode.simps(6) plainExpr.simps plainNode.simps(6))
  obtain b' s2 where b: "decay (check ub b s1) = (b', s2)" by (cases "decay (check ub b s1)")
  have sc: "an_scopes s1 = an_scopes s" using pa by (simp add: plainOut_def)
  have "plainOut s1 (check ub b s1)" using 6(2) [OF a [symmetric]] 6(3-) sc by simp
  hence "plainOut s1 (b', s2)" using plain_decay b by metis
  hence "plainOut s (a', s2)" "plainOut s (b', s2)" using pa sc by (simp_all add: plainOut_def)
  thus ?case using a b l by (simp add: plain_binary)
next
  case (7 ub a b l t c s)
  have l: "c = RValue" "t = None" using 7(3) by simp_all
  obtain a' s1 where a: "check ub a s = (a', s1)" by (cases "check ub a s")
  have pa: "plainOut s (a', s1)" using 7 a by simp
  obtain b' s2 where b: "decay (check ub b s1) = (b', s2)" by (cases "decay (check ub b s1)")
  have sc: "an_scopes s1 = an_scopes s" using pa by (simp add: plainOut_def)
  have "plainOut s1 (check ub b s1)" using 7(2) [OF a [symmetric]] 7(3-) sc by simp
  hence "plainOut s1 (b', s2)" using plain_decay b by metis
  hence "plainOut s (a', s2)" "plainOut s (b', s2)" using pa sc by (simp_all add: plainOut_def)
  thus ?case using a b l by (simp add: plain_assign)
next
  case (8 ub f args l t c s)
  have l: "c = RValue" "t = None" using 8(3) by simp_all
  obtain f' s1 where f: "check ub f s = (f', s1)" by (cases "check ub f s")
  have pf: "plainOut s (f', s1)" using 8 f by simp
  have sc: "an_scopes s1 = an_scopes s" using pf by (simp add: plainOut_def)
  obtain args' s2 where args: "checkArgs ub args s1 = (args', s2)" by (cases "checkArgs ub args s1")
  have "\<forall>a \<in> set args. parsed a \<and> plainExpr a" using 8(3,4) by (auto simp: list_all_iff)
  hence "list_all plainExpr args' \<and> an_scopes s2 = an_scopes s1" using 8(2) [OF f [symmetric]] 8(5) sc args by simp
  thus ?case using f args l pf sc plain_call [of s f' s2 args' ub l] by (simp add: plainOut_def)
next
  case (9 ub a i l t c s)
  thus ?case by (simp add: desugarIndex_def)
next
  case (10 ub k imp x l t c s)
  have "plainOut s (decay (check ub x s))" using 10 plain_decay by simp
  thus ?case using 10(2,3) plain_cast by (cases "decay (check ub x s)") (auto split: option.splits)
next
  case (11 ub ty l t c s)
  thus ?case by (auto intro: plain_sizeOf)
next
  case (12 ub x l t c s)
  obtain x' s1 where x: "check ub x s = (x', s1)" by (cases "check ub x s")
  have "plainOut s (x', s1)" using 12 x by simp
  thus ?case using x 12(2) by (auto simp: plainOut_def split: option.split intro!: plain_sizeOf [unfolded plainOut_def])
next
  case (14 ub a args s)
  obtain a' s1 where a: "decay (check ub a s) = (a', s1)" by (cases "decay (check ub a s)")
  have pa: "plainOut s (a', s1)" using plain_decay [of s "check ub a s"] 14 a by simp
  hence sc: "an_scopes s1 = an_scopes s" by (simp add: plainOut_def)
  thus ?case using 14(2) [OF a [symmetric]] 14(3,4) a pa by (cases "checkArgs ub args s1") (simp add: plainOut_def)
qed (auto simp: plainOut_def)

lemma plain_checkValue:
  "parsed e \<Longrightarrow> plainExpr e \<Longrightarrow> plainScopes (an_scopes s) \<Longrightarrow> plainOut s (checkValue ub e s)"
  unfolding checkValue_def by (intro plain_decay plain_check)

lemma plain_scalarInit:
  assumes "parsed e" "plainExpr e" "plainScopes (an_scopes s)" "plainTy t" "checkScalarInit ub e l t g s = (i, s')"
  shows "plainInit i \<and> an_scopes s' = an_scopes s"
proof -
  obtain e1 s1 where e1: "checkValue ub e s = (e1, s1)" by (cases "checkValue ub e s")
  have p1: "plainExpr e1" "an_scopes s1 = an_scopes s" using plain_checkValue [OF assms(1-3), of ub] e1 by (simp_all add: plainOut_def)
  obtain ok e2 s2 where c: "convert ub e1 t ''initializing'' s1 = (ok, e2, s2)" by (cases rule: prod_cases3)
  note p2 = plain_convert [OF c p1(1) assms(4)]
  show ?thesis using assms(5) e1 c p1 p2 by (auto simp: checkScalarInit_def an_error_def split: if_splits)
qed

lemma plain_checkInit:
  "parsedInit i \<Longrightarrow> plainInit i \<Longrightarrow> plainScopes (an_scopes s) \<Longrightarrow> plainTy t \<Longrightarrow>
     plainInit (fst (checkInit ub i t g s)) \<and> an_scopes (snd (checkInit ub i t g s)) = an_scopes s"
  "\<forall>i \<in> set is. parsedInit i \<and> plainInit i \<Longrightarrow> plainScopes (an_scopes s) \<Longrightarrow> plainTy t \<Longrightarrow>
     (\<forall>i \<in> set (fst (checkInits ub is t g s)). plainInit i) \<and> an_scopes (snd (checkInits ub is t g s)) = an_scopes s"
proof (induction ub i t g s and ub "is" t g s rule: checkInit_checkInits.induct)
  case (1 ub e l target glob s)
  show ?case
  proof (cases "isCharString (InitExpr e l) target \<or> isArray target")
    case True
    have "plainNode (node e)" using 1(2) by (simp add: plainExpr_iff)
    thus ?thesis using True 1(2) by (auto simp: checkStringInit_def an_error_def Let_def)
  next
    case False
    thus ?thesis using 1 plain_scalarInit [of e s target ub l glob] by (cases "checkScalarInit ub e l target glob s") auto
  qed
next
  case (2 ub xs l target glob s)
  have ex: "an_scopes (excessElements xs target s) = an_scopes s" by (simp add: excessElements_def an_error_def)
  show ?case
  proof (cases "isArray target")
    case True
    hence "plainTy (element target)" using plainTy_element 2(6) by blast
    thus ?thesis using 2(1) [OF True] 2(3-) True ex by (auto split: prod.split)
  next
    case False
    thus ?thesis using 2(2) [OF False] 2(3-) by (auto simp: an_error_def split: prod.split)
  qed
next
  case (4 ub i xs target glob s)
  obtain i' s1 where i: "checkInit ub i target glob s = (i', s1)" by (cases "checkInit ub i target glob s")
  have p: "plainInit i' \<and> an_scopes s1 = an_scopes s" using 4(1) 4(3-) i by simp
  show ?case using 4(2) [OF i [symmetric]] 4(3-) i p by (cases "checkInits ub xs target glob s1") simp
qed simp

text \<open>Declarations keep the scopes plain.\<close>

lemma plainScopes_emplace:
  "plainScopes scs \<Longrightarrow> plainTy (sym_type y) \<Longrightarrow> isFunction (sym_type y) \<longrightarrow> sym_isFunction y \<Longrightarrow> plainScopes (emplaceHere x y scs)"
  by (cases scs) (auto simp: plainScopes_def split: if_splits)

lemma length_emplace [simp]: "length (emplaceHere x y scs) = length scs"
  by (cases scs) simp_all

lemma plain_declaredType:
  assumes "plainTy (vd_type v)" "\<not> isFunction (vd_type v)"
  shows "plainTy (declaredType v) \<and> \<not> isFunction (declaredType v)"
  using assms by (cases "vd_type v") (auto simp: declaredType_def completeArrayType_def Let_def split: option.split)

lemma plain_checkInitD:
  assumes "checkInit ub i t g s = (i', s')" "parsedInit i" "plainInit i" "plainScopes (an_scopes s)" "plainTy t"
  shows "plainInit i' \<and> an_scopes s' = an_scopes s"
  using plain_checkInit(1) [OF assms(2-5), of ub g] assms(1) by simp

lemma plain_declareVar:
  assumes "parsedVar v" "plainVar v" "plainScopes (an_scopes s)" "declareVar ub v glob s = (v', s')"
  shows "plainVar v' \<and> plainScopes (an_scopes s')"
proof -
  have t: "plainTy (declaredType v)" "\<not> isFunction (declaredType v)"
    using plain_declaredType assms(2) by (simp_all add: plainVar_def)
  have "plainScopes (emplaceHere (vd_name v) (mkSymbol i (declaredType v) c False False) (an_scopes s))" for i c
    using plainScopes_emplace [OF assms(3)] t by simp
  thus ?thesis
    using assms t
    by (auto simp: declareVar_def declaredType_def [symmetric] Let_def newId_def plainVar_def parsedVar_def an_error_def
        split: option.splits prod.splits if_splits dest!: plain_checkInitD)
qed

lemma plain_declareVars:
  "\<forall>v \<in> set vs. parsedVar v \<and> plainVar v \<Longrightarrow> plainScopes (an_scopes s) \<Longrightarrow> declareVars ub vs s = (vs', s') \<Longrightarrow>
     (\<forall>v \<in> set vs'. plainVar v) \<and> plainScopes (an_scopes s')"
proof (induction vs arbitrary: s vs' s')
  case (Cons v vs)
  obtain v1 s1 where v: "declareVar ub v False s = (v1, s1)" by (cases "declareVar ub v False s")
  obtain vs1 s2 where vs: "declareVars ub vs s1 = (vs1, s2)" by (cases "declareVars ub vs s1")
  show ?case using plain_declareVar [OF _ _ Cons.prems(2) v] Cons.IH [OF _ _ vs] Cons.prems v vs by auto
qed simp

lemma plain_checkCondition:
  assumes "parsed e" "plainExpr e" "plainScopes (an_scopes s)" "checkCondition ub e s = (e', s')"
  shows "plainExpr e' \<and> an_scopes s' = an_scopes s"
  using plain_checkValue [OF assms(1-3), of ub] assms(4)
  by (auto simp: checkCondition_def plainOut_def failExpr_def an_error_def plainExpr_iff split: prod.splits option.splits if_splits)

lemma plain_checkReturn:
  assumes "case v of None \<Rightarrow> True | Some e \<Rightarrow> parsed e \<and> plainExpr e" "plainScopes (an_scopes s)"
    and "plainTy (the (an_returnType s))" "checkReturn ub v l s = (v', s')"
  shows "(case v' of None \<Rightarrow> True | Some e \<Rightarrow> plainExpr e) \<and> an_scopes s' = an_scopes s"
proof (cases v)
  case None
  thus ?thesis using assms by (auto simp: checkReturn_def an_error_def)
next
  case (Some e)
  obtain e1 s1 where e: "checkValue ub e s = (e1, s1)" by (cases "checkValue ub e s")
  have p: "plainExpr e1" "an_scopes s1 = an_scopes s"
    using plain_checkValue [of e s ub] assms(1,2) Some e by (simp_all add: plainOut_def)
  obtain ok e2 s2 where c: "convert ub e1 (the (an_returnType s)) ''returning'' s1 = (ok, e2, s2)" by (cases rule: prod_cases3)
  show ?thesis
    using assms(4) Some e p c plain_convert [OF c p(1) assms(3)]
    by (auto simp: checkReturn_def Let_def an_error_def split: option.splits if_splits)
qed

text \<open>The claim of a statement: the frame that the steps keep is that of \<open>keeps\<close>.\<close>

lemma plainScopes_tl: "plainScopes scs \<Longrightarrow> plainScopes (tl scs)"
  by (cases scs) (auto simp: plainScopes_def)

lemma plainScopes_enter [simp]: "plainScopes (enterScope scs) \<longleftrightarrow> plainScopes scs"
  by (auto simp: enterScope_def plainScopes_def)

definition plainState :: "analyzer \<Rightarrow> bool" where
  "plainState s \<longleftrightarrow> inFunction s \<and> plainScopes (an_scopes s) \<and> plainTy (the (an_returnType s))"

lemma plainState_keeps: "plainState s \<Longrightarrow> keeps s s' \<Longrightarrow> plainScopes (an_scopes s') \<Longrightarrow> plainState s'"
  using inFunction_keeps by (auto simp: plainState_def keeps_def)

lemma checkStmt_keeps:
  "parsedStmt st \<Longrightarrow> inFunction s \<Longrightarrow> checkStmt ub st s = (st', s') \<Longrightarrow> keeps s s'"
  using checkStmt_step(1) [of st s ub st' s'] by (auto simp: stmtStep_def dest: step_keeps)

lemma plainState_same: "plainState s \<Longrightarrow> keeps s s' \<Longrightarrow> an_scopes s' = an_scopes s \<Longrightarrow> plainState s'"
  by (rule plainState_keeps) (auto simp: plainState_def)

lemma plainState_pushScope: "plainState s \<Longrightarrow> plainState (pushScope s)"
  by (auto simp: plainState_def inFunction_def pushScope_def enterScope_def plainScopes_def)

lemma plainState_loop: "plainState s \<Longrightarrow> plainState (loopBy 1 s)"
  by (simp add: plainState_def inFunction_def loopBy_def)

lemma plain_checkStmt:
  "parsedStmt st \<Longrightarrow> plainStmt st \<Longrightarrow> plainState s \<Longrightarrow> checkStmt ub st s = (st', s') \<Longrightarrow>
     plainStmt st' \<and> plainScopes (an_scopes s')"
  "\<forall>st \<in> set sts. parsedStmt st \<and> plainStmt st \<Longrightarrow> plainState s \<Longrightarrow> checkStmts ub sts s = (sts', s') \<Longrightarrow>
     (\<forall>st \<in> set sts'. plainStmt st) \<and> plainScopes (an_scopes s')"
proof (induction ub st s and ub sts s arbitrary: st' s' and sts' s' rule: checkStmt_checkStmts.induct)
  case (2 ub e l s)
  thus ?case using plain_checkValue [of e s ub] by (auto simp: plainOut_def plainState_def split: prod.splits)
next
  case (3 ub vars l s)
  thus ?case using plain_declareVars [of vars s ub] by (auto simp: plainState_def split: prod.splits)
next
  case (4 ub body l s)
  obtain body' s1 where b: "checkStmts ub body (pushScope s) = (body', s1)" by (cases "checkStmts ub body (pushScope s)")
  thus ?case using 4(1) [OF _ _ b] 4(2-) plainState_pushScope plainScopes_tl by (auto simp: popScope_def)
next
  case (5 ub cond a l s)
  obtain c' s1 where c: "checkCondition ub cond s = (c', s1)" by (cases "checkCondition ub cond s")
  obtain a' s2 where a: "checkStmt ub a s1 = (a', s2)" by (cases "checkStmt ub a s1")
  have pc: "plainExpr c' \<and> an_scopes s1 = an_scopes s" using plain_checkCondition [OF _ _ _ c] 5(2-4) by (simp add: plainState_def)
  have "plainState s1" using plainState_same [OF 5(4)] step_keeps [OF checkCondition_step [OF _ c]] pc 5(2) by simp
  thus ?case using 5(1) [OF c [symmetric] _ _ _ a] 5(2,3,5) c a pc by auto
next
  case (6 ub cond a b l s)
  obtain c' s1 where c: "checkCondition ub cond s = (c', s1)" by (cases "checkCondition ub cond s")
  obtain a' s2 where a: "checkStmt ub a s1 = (a', s2)" by (cases "checkStmt ub a s1")
  obtain b' s3 where b: "checkStmt ub b s2 = (b', s3)" by (cases "checkStmt ub b s2")
  have pc: "plainExpr c' \<and> an_scopes s1 = an_scopes s" using plain_checkCondition [OF _ _ _ c] 6(3-5) by (simp add: plainState_def)
  have s1: "plainState s1" using plainState_same [OF 6(5)] step_keeps [OF checkCondition_step [OF _ c]] pc 6(3) by simp
  have pa: "plainStmt a' \<and> plainScopes (an_scopes s2)" using 6(1) [OF c [symmetric] _ _ s1 a] 6(3,4) by simp
  have "keeps s1 s2" using checkStmt_keeps [OF _ _ a] s1 6(3) by (simp add: plainState_def)
  hence "plainState s2" using plainState_keeps [OF s1] pa by simp
  thus ?case using 6(2) [OF c [symmetric] a [symmetric] _ _ _ b] 6(3,4,6) c a b pc pa by auto
next
  case (7 ub cond body l s)
  obtain c' s1 where c: "checkCondition ub cond s = (c', s1)" by (cases "checkCondition ub cond s")
  obtain b' s2 where b: "checkStmt ub body (loopBy 1 s1) = (b', s2)" by (cases "checkStmt ub body (loopBy 1 s1)")
  have pc: "plainExpr c' \<and> an_scopes s1 = an_scopes s" using plain_checkCondition [OF _ _ _ c] 7(2-4) by (simp add: plainState_def)
  have "plainState s1" using plainState_same [OF 7(4)] step_keeps [OF checkCondition_step [OF _ c]] pc 7(2) by simp
  hence "plainState (loopBy 1 s1)" by (rule plainState_loop)
  thus ?case using 7(1) [OF c [symmetric] _ _ _ b] 7(2,3,5) c b pc by (auto simp: loopBy_def)
next
  case (10 ub v l s)
  obtain v' s1 where v: "checkReturn ub v l s = (v', s1)" by (cases "checkReturn ub v l s")
  have "case v of None \<Rightarrow> True | Some e \<Rightarrow> parsed e \<and> plainExpr e" using 10(1,2) by (cases v) simp_all
  thus ?case using plain_checkReturn [OF _ _ _ v] 10(3,4) v by (auto simp: plainState_def)
next
  case (12 ub st sts s)
  obtain st1 s1 where a: "checkStmt ub st s = (st1, s1)" by (cases "checkStmt ub st s")
  obtain sts1 s2 where b: "checkStmts ub sts s1 = (sts1, s2)" by (cases "checkStmts ub sts s1")
  have pa: "plainStmt st1 \<and> plainScopes (an_scopes s1)" using 12(1) [OF _ _ _ a] 12(3,4) by simp
  have "keeps s s1" using checkStmt_keeps [OF _ _ a] 12(3,4) by (simp add: plainState_def)
  hence "plainState s1" using plainState_keeps [OF 12(4)] pa by simp
  thus ?case using 12(2) [OF a [symmetric] _ _ b] 12(3,5) a b pa by auto
qed (auto simp: plainState_def notInLoop_def an_error_def)

lemma plain_declareParams:
  "\<forall>p \<in> set ps. plainParam p \<Longrightarrow> plainScopes (an_scopes s) \<Longrightarrow> declareParams ps s = (ps', s') \<Longrightarrow>
     map pd_type ps' = map pd_type ps \<and> plainScopes (an_scopes s')"
proof (induction ps arbitrary: s ps' s')
  case (Cons p ps)
  define r where "r = (if pd_name p = [] then
         (p, an_error (pd_loc p) ''parameter name omitted in function definition'' s)
       else if declaredHere (an_scopes s) (pd_name p) then
         (p, an_error (pd_loc p) (''redefinition of parameter '' @ quoted_text (pd_name p)) s)
       else case newId s of (i, s1) \<Rightarrow>
         (p\<lparr>pd_symbol := i\<rparr>,
          s1\<lparr>an_scopes := emplaceHere (pd_name p) (mkSymbol i (pd_type p) (pd_isConst p) False False) (an_scopes s1)\<rparr>))"
  obtain p1 s1 where p: "r = (p1, s1)" by (cases r)
  have "plainScopes (emplaceHere (pd_name p) (mkSymbol i (pd_type p) c False False) (an_scopes s))" for i c
    using plainScopes_emplace [OF Cons.prems(2)] Cons.prems(1) by (simp add: plainParam_def)
  hence p1: "pd_type p1 = pd_type p" "plainScopes (an_scopes s1)"
    using p Cons.prems(2) by (auto simp: r_def an_error_def newId_def split: if_splits)
  obtain ps1 s2 where ps: "declareParams ps s1 = (ps1, s2)" by (cases "declareParams ps s1")
  have "declareParams (p # ps) s = (p1 # ps1, s2)" using p ps unfolding declareParams.simps r_def [symmetric] by simp
  hence "ps' = p1 # ps1" "s' = s2" using Cons.prems(3) by simp_all
  thus ?case using Cons.IH [OF _ p1(2) ps] p1 Cons.prems(1) by simp
qed simp

lemma plain_checkBody:
  assumes f: "parsedDecl (TopFunction f)" "plainFunction f" and top: "atTop s" and sc: "plainScopes (an_scopes s)"
    and c: "checkBody ub f s = (f', s')"
  shows "plainFunction f' \<and> plainScopes (an_scopes s')"
proof (cases "fd_body f")
  case None
  thus ?thesis using f sc c by (auto simp: checkBody_def)
next
  case (Some body)
  obtain ps s1 where ps: "declareParams (fd_params f) (pushScope s) = (ps, s1)" by (cases "declareParams (fd_params f) (pushScope s)")
  define s2 where "s2 = s1\<lparr>an_returnType := Some (returnType (fd_type f))\<rparr>"
  obtain body' s3 where b: "checkStmts ub body s2 = (body', s3)" by (cases "checkStmts ub body s2")
  have r: "f' = f\<lparr>fd_params := ps, fd_body := Some body'\<rparr>" "s' = popScope s3"
    using c Some ps b by (auto simp: checkBody_def s2_def)
  obtain rt va where t: "fd_type f = FunctionTy rt (map pd_type (fd_params f)) va" "plainTy (fd_type f)"
    by (rule plainFunction_type [OF f(2)])
  have "\<forall>p \<in> set (fd_params f). plainParam p" using t by (auto simp: plainParam_def)
  hence P: "map pd_type ps = map pd_type (fd_params f)" "plainScopes (an_scopes s1)"
    using plain_declareParams [OF _ _ ps] sc by (simp_all add: pushScope_def)
  have "keeps (pushScope s) s1"
    using declareParams_step [OF _ ps] by (auto simp: pushScope_def enterScope_def dest: step_keeps)
  hence "plainState s2"
    using top P t by (auto simp: plainState_def inFunction_def s2_def keeps_def pushScope_def enterScope_def atTop_def)
  hence "(\<forall>st \<in> set body'. plainStmt st) \<and> plainScopes (an_scopes s3)"
    using plain_checkStmt(2) [OF _ _ b] f Some by (simp add: plainFunction_def)
  thus ?thesis using r P t plainScopes_tl by (simp add: plainFunction_def popScope_def)
qed

lemma plain_declareFunction:
  assumes f: "parsedDecl (TopFunction f)" "plainFunction f" and top: "atTop s" and sc: "plainScopes (an_scopes s)"
    and d: "declareFunction ub f s = (f', s')"
  shows "plainFunction f' \<and> plainScopes (an_scopes s')"
proof -
  have go: "plainFunction f' \<and> plainScopes (an_scopes s')"
    if "checkBody ub (f\<lparr>fd_symbol := i\<rparr>) (t\<lparr>an_scopes := updateGlobal (fd_name f) e (an_scopes s)\<rparr>) = (f', s')"
      "an_loopDepth t = 0" "plainTy (sym_type e)" "sym_isFunction e" for i t e
  proof -
    obtain gs where gs: "an_scopes s = [gs]" using top by (auto simp: atTop_def)
    have "plainScopes (updateGlobal (fd_name f) e (an_scopes s))"
      using sc that(3,4) by (auto simp: gs plainScopes_def updateGlobal_def)
    moreover have "parsedDecl (TopFunction (f\<lparr>fd_symbol := i\<rparr>))" "plainFunction (f\<lparr>fd_symbol := i\<rparr>)"
      using f by (simp_all add: plainFunction_def split: ty.splits)
    ultimately show ?thesis using plain_checkBody [OF _ _ _ _ that(1)] that(2) by (simp add: gs updateGlobal_def atTop_def)
  qed
  have t: "plainTy (fd_type f)" by (rule plainFunction_type [OF f(2)])
  have dep: "an_loopDepth s = 0" using top by (simp add: atTop_def)
  show ?thesis
  proof (cases "last (an_scopes s) (fd_name f)")
    case None
    thus ?thesis using d go [where t = "s\<lparr>an_nextId := an_nextId s + 1\<rparr>"] t dep by (simp add: declareFunction_def newId_def)
  next
    case (Some prior)
    thus ?thesis using d go [where t = s] t dep f sc by (auto simp: declareFunction_def an_error_def split: if_splits)
  qed
qed

text \<open>The trees of an accepted program are plain, as those of the parser are.\<close>

lemma plain_runDecls:
  "list_all parsedDecl ds \<Longrightarrow> list_all plainDecl ds \<Longrightarrow> atTop s \<Longrightarrow> plainScopes (an_scopes s) \<Longrightarrow> runDecls ub ds s = (ds', s') \<Longrightarrow>
     list_all plainDecl ds'"
proof (induction ds arbitrary: s ds')
  case (Cons d ds)
  show ?case
  proof (cases d)
    case (TopVar v)
    obtain v1 s1 where v: "declareVar ub v True s = (v1, s1)" by (cases "declareVar ub v True s")
    obtain ds1 where r: "runDecls ub ds s1 = (ds1, s')" and ds': "ds' = TopVar v1 # ds1"
      using Cons.prems v TopVar by (auto split: prod.splits)
    have "keeps s s1" using declareVar_step [OF _ v] Cons.prems TopVar by (auto dest: step_keeps)
    thus ?thesis using Cons.IH [OF _ _ _ _ r] plain_declareVar [OF _ _ _ v] Cons.prems TopVar atTop_keeps ds' by simp
  next
    case (TopFunction f)
    obtain f1 s1 where f: "declareFunction ub f s = (f1, s1)" by (cases "declareFunction ub f s")
    obtain ds1 where r: "runDecls ub ds s1 = (ds1, s')" and ds': "ds' = TopFunction f1 # ds1"
      using Cons.prems f TopFunction by (auto split: prod.splits)
    obtain gs where gs: "an_scopes s = [gs]" "an_loopDepth s = 0" using Cons.prems(3) by (auto simp: atTop_def)
    have "atTop s1" using declareFunction_step [OF gs _ f] Cons.prems TopFunction by (simp add: topStep_def)
    thus ?thesis using Cons.IH [OF _ _ _ _ r] plain_declareFunction [OF _ _ _ _ f] Cons.prems TopFunction ds' by simp
  qed
qed simp

lemma analyze_plain:
  assumes "list_all parsedDecl (tu_decls tu)" "list_all plainDecl (tu_decls tu)" "analyze ub tu = Inr tu'"
  shows "list_all plainDecl (tu_decls tu')"
proof -
  obtain ds s where r: "runDecls ub (tu_decls tu) newAnalyzer = (ds, s)" by (cases "runDecls ub (tu_decls tu) newAnalyzer")
  hence "tu_decls tu' = ds" using assms(3) by (auto simp: analyze_def split: if_splits)
  moreover have "atTop newAnalyzer" "plainScopes (an_scopes newAnalyzer)" by (simp_all add: newAnalyzer_def atTop_def plainScopes_def)
  ultimately show ?thesis using plain_runDecls [OF assms(1,2) _ _ r] by simp
qed

end
