(* ===== verification/Recorder.thy ===== *)
theory Recorder
  imports CodeUnit
begin

text \<open>
  An implementation of what the code generator uses of LLVM that only records: the module is the
  list of the requests made so far, newest first, and all the queries are answered from it. It
  satisfies the laws of \<open>llvm_laws\<close>, so the results proved there are about something, and examples
  can be computed on it.
\<close>

section \<open>The record\<close>

text \<open>The answer to a request is its number; a function also has its arguments.\<close>

datatype handle = Made nat | Arg nat nat

type_synonym log = "handle request list"

primrec requestOf :: "log \<Rightarrow> nat \<Rightarrow> handle request option" where
  "requestOf [] k = None"
| "requestOf (r # m) k = (if k = length m then Some r else requestOf m k)"

definition isBlockOf :: "log \<Rightarrow> handle \<Rightarrow> bool" where
  "isBlockOf m b = (case b of Made k \<Rightarrow> (case requestOf m k of Some (NewBlock x p) \<Rightarrow> True | _ \<Rightarrow> False) | Arg k i \<Rightarrow> False)"

definition logBlocks :: "log \<Rightarrow> handle set" where
  "logBlocks m = {b. isBlockOf m b}"

primrec logParent :: "log \<Rightarrow> handle \<Rightarrow> handle option" where
  "logParent [] c = None"
| "logParent (r # m) c =
     (case r of
        NewBlock x p \<Rightarrow> if c = Made (length m) then p else logParent m c
      | InsertInto d f \<Rightarrow> if c = d \<and> isBlockOf m d then Some f else logParent m c
      | _ \<Rightarrow> logParent m c)"

primrec logPoint :: "log \<Rightarrow> handle" where
  "logPoint [] = Made 0"
| "logPoint (r # m) = (case r of SetInsertPoint c \<Rightarrow> c | _ \<Rightarrow> logPoint m)"

primrec logCode :: "log \<Rightarrow> handle \<Rightarrow> handle request list" where
  "logCode [] c = []"
| "logCode (r # m) c =
     (case r of
        NewBlock x p \<Rightarrow> if c = Made (length m) then [] else logCode m c
      | InsertInto d f \<Rightarrow> logCode m c
      | SetInsertPoint d \<Rightarrow> logCode m c
      | Alloca d t x \<Rightarrow> if c = d then r # logCode m c else logCode m c
      | _ \<Rightarrow> if isInstruction r \<and> c = logPoint m then logCode m c @ [r] else logCode m c)"

definition logEntry :: "log \<Rightarrow> handle \<Rightarrow> handle" where
  "logEntry m f = (case List.find (\<lambda>k. logParent m (Made k) = Some f) [0..<length m] of Some k \<Rightarrow> Made k | None \<Rightarrow> Made 0)"

fun logFunctionType :: "log \<Rightarrow> handle \<Rightarrow> ll_type" where
  "logFunctionType m (Made k) = (case requestOf m k of Some (NewFunction t l x) \<Rightarrow> t | _ \<Rightarrow> LL_Function LL_Void [] False)"
| "logFunctionType m (Arg k i) = LL_Function LL_Void [] False"

fun logArgs :: "log \<Rightarrow> handle \<Rightarrow> handle list" where
  "logArgs m (Made k) =
     (case requestOf m k of Some (NewFunction (LL_Function t ps va) l x) \<Rightarrow> map (Arg k) [0..<length ps] | _ \<Rightarrow> [])"
| "logArgs m (Arg k i) = []"

fun logIsFunction :: "log \<Rightarrow> handle \<Rightarrow> bool" where
  "logIsFunction m (Made k) = (case requestOf m k of Some (NewFunction t l x) \<Rightarrow> True | _ \<Rightarrow> False)"
| "logIsFunction m (Arg k i) = False"

fun logIsConstant :: "log \<Rightarrow> handle \<Rightarrow> bool" where
  "logIsConstant m (Made k) = (case requestOf m k of
       Some (GetNullValue t) \<Rightarrow> True | Some (GetSigned t i) \<Rightarrow> True | Some (GetFP t d) \<Rightarrow> True
     | Some GetNullPointer \<Rightarrow> True | Some (GetString b z) \<Rightarrow> True | Some (GetConstantArray t vs) \<Rightarrow> True
     | Some (GetInt1 b) \<Rightarrow> True | Some (NewGlobal t c l i x) \<Rightarrow> True | Some (NewFunction t l x) \<Rightarrow> True
     | _ \<Rightarrow> False)"
| "logIsConstant m (Arg k i) = False"

primrec logTypeAt :: "log \<Rightarrow> handle \<Rightarrow> ll_type" where
  "logTypeAt [] v = LL_Void"
| "logTypeAt (r # m) v =
     (if v \<noteq> Made (length m) then logTypeAt m v
      else case r of
        GetNullValue t \<Rightarrow> t | GetSigned t i \<Rightarrow> t | GetFP t d \<Rightarrow> t | GetConstantArray t vs \<Rightarrow> t
      | GetString b z \<Rightarrow> LL_Array (LL_Int 8) (word_of_nat (length b + of_bool z))
      | GetInt1 b \<Rightarrow> LL_Int 1 | Cmp p x y \<Rightarrow> LL_Int 1 | PtrDiff t x y \<Rightarrow> LL_Int 64
      | Load t p \<Rightarrow> t | Convert c x t \<Rightarrow> t | PHI t n \<Rightarrow> t | CallFunction t f vs \<Rightarrow> ll_return t
      | Arith a x y \<Rightarrow> logTypeAt m x
      | Unop u x \<Rightarrow> if u = U_IsNotNull then LL_Int 1 else logTypeAt m x
      | GetNullPointer \<Rightarrow> LL_Ptr | NewGlobal t c l i x \<Rightarrow> LL_Ptr | NewFunction t l x \<Rightarrow> LL_Ptr | Alloca b t x \<Rightarrow> LL_Ptr
      | InBoundsGEP t x y \<Rightarrow> LL_Ptr | ConstInBoundsGEP2 t x i j \<Rightarrow> LL_Ptr
      | _ \<Rightarrow> LL_Void)"

fun logType :: "log \<Rightarrow> handle \<Rightarrow> ll_type" where
  "logType m (Made k) = logTypeAt m (Made k)"
| "logType m (Arg k i) = (case logFunctionType m (Made k) of LL_Function t ps va \<Rightarrow> ps ! i | t \<Rightarrow> t)"

definition recorder :: "(handle, log) llvm" where
  "recorder =
     \<lparr>lv_newModule = (\<lambda>x. []), lv_build = (\<lambda>r m. (Made (length m), r # m)), lv_insertBlock = logPoint,
      lv_instructions = logCode, lv_entryBlock = logEntry, lv_args = logArgs, lv_type = logType,
      lv_functionType = logFunctionType, lv_isFunction = logIsFunction, lv_isConstant = logIsConstant,
      lv_verify = (\<lambda>m. None)\<rparr>"

lemma recorder_simps [simp]:
  "lv_newModule recorder x = []" "lv_build recorder r m = (Made (length m), r # m)" "lv_insertBlock recorder = logPoint"
  "lv_instructions recorder = logCode" "lv_entryBlock recorder = logEntry" "lv_args recorder = logArgs"
  "lv_isFunction recorder = logIsFunction" "lv_isConstant recorder = logIsConstant" "lv_verify recorder m = None"
  by (simp_all add: recorder_def)

section \<open>The laws\<close>

lemma requestOf_bound: "requestOf m k = Some r \<Longrightarrow> k < length m"
  by (induction m) (auto split: if_splits)

lemma isBlockOf_bound: "isBlockOf m b \<Longrightarrow> \<exists>k. b = Made k \<and> k < length m"
  by (auto simp: isBlockOf_def dest: requestOf_bound split: handle.splits option.splits)

lemma isBlockOf_Cons: "isBlockOf (r # m) b \<longleftrightarrow> (case r of NewBlock x p \<Rightarrow> b = Made (length m) \<or> isBlockOf m b | _ \<Rightarrow> isBlockOf m b)"
  using isBlockOf_bound [of m b]
  by (cases r) (auto simp: isBlockOf_def dest: requestOf_bound split: handle.splits option.splits)

lemma logBlocks_Cons: "logBlocks (r # m) = (case r of NewBlock x p \<Rightarrow> insert (Made (length m)) (logBlocks m) | _ \<Rightarrow> logBlocks m)"
  by (cases r) (auto simp: logBlocks_def isBlockOf_Cons)

lemma logParent_block: "logParent m c = Some f \<Longrightarrow> isBlockOf m c"
  by (induction m) (auto simp: isBlockOf_Cons split: request.splits if_splits)

lemma logEntry_law:
  assumes "logParent m c = Some f"
  shows "logParent m (logEntry m f) = Some f"
proof -
  obtain k where k: "c = Made k" "k < length m" using isBlockOf_bound [OF logParent_block [OF assms]] by blast
  obtain j where "List.find (\<lambda>k. logParent m (Made k) = Some f) [0..<length m] = Some j"
    using k assms by (cases "List.find (\<lambda>k. logParent m (Made k) = Some f) [0..<length m]") (auto simp: find_None_iff)
  moreover from this have "logParent m (Made j) = Some f" by (auto simp: find_Some_iff)
  ultimately show ?thesis by (simp add: logEntry_def)
qed

lemma recorder_blocks: "blockLaw recorder logParent logBlocks r m"
proof -
  have new: "Made (length m) \<notin> logBlocks m" using isBlockOf_bound by (auto simp: logBlocks_def)
  have mem: "c \<in> logBlocks m \<longleftrightarrow> isBlockOf m c" for c by (simp add: logBlocks_def)
  show ?thesis
  proof (cases r)
    case (Alloca b t x)
    have "logCode (r # m) = (logCode m)(b := [r] @ logCode m b)" by (rule ext) (simp add: Alloca)
    moreover have "straight [r]" by (simp add: Alloca straight_def)
    moreover have "logParent (r # m) = logParent m" by (rule ext) (simp add: Alloca)
    ultimately have "logParent (r # m) = logParent m \<and> (\<exists>rs. straight rs \<and> logCode (r # m) = (logCode m)(b := rs @ logCode m b))"
      by blast
    thus ?thesis by (simp add: Alloca blockLaw_def Let_def logBlocks_Cons del: logCode.simps logParent.simps)
  qed (use new mem in \<open>auto simp: blockLaw_def logBlocks_Cons straight_def fun_eq_iff intro!: exI [of _ "[r]"]\<close>)
qed

lemma logFunction_stays: "logIsFunction m f \<Longrightarrow> logIsFunction (r # m) f \<and> logArgs (r # m) f = logArgs m f"
  by (cases f) (auto dest: requestOf_bound split: option.splits)

lemma logConstant_stays: "logIsConstant m v \<Longrightarrow> logIsConstant (r # m) v"
  by (cases v) (auto dest: requestOf_bound split: option.splits)

interpretation log: llvm_laws recorder logParent logBlocks
  by unfold_locales
    (auto simp: recorder_blocks logEntry_law logBlocks_def logParent_block logFunction_stays logConstant_stays)

end
