(* ===== verification/CodeProps.thy ===== *)
theory CodeProps
  imports CodePlain Recorder SemaProps
begin

text \<open>
  The properties of the code generator: for which programs it ends without undefined behaviour, and
  what it makes. They hold for every implementation of LLVM with the laws of \<open>llvm_laws\<close>; their
  witnesses are computed on the \<open>recorder\<close>.
\<close>

section \<open>A global whose initializer names it\<close>

text \<open>
  The name of the global is in scope in its own initializer, but the generator enters it in
  \<open>values_\<close> only after the initializer was built.
\<close>

lemma literalBuilt_ids: "literalBuilt e \<Longrightarrow> exprIds e = []"
  by (induction e rule: literalBuilt.induct) auto

lemma constant_ids: "evaluateConstant ub e = Some v \<Longrightarrow> exprIds e = []"
  using evaluate_literalBuilt literalBuilt_ids by blast

lemma globalRef_ids: "isGlobalRef G x \<Longrightarrow> i \<in> set (exprIds x) \<Longrightarrow> \<exists>y l t c. x = Expr (DeclRef y i) l t c"
  by (cases x) (auto simp: isGlobalRef_def split: expr_node.splits)

lemma string_ids: "isStringLiteral x \<Longrightarrow> exprIds x = []"
  by (cases x) (auto simp: isStringLiteral_def split: expr_node.splits)

lemma constantExpr_self:
  "isConstantInit ub G e \<Longrightarrow> wellTyped ub scs e \<Longrightarrow> i \<in> set (exprIds e) \<Longrightarrow> cg_values s i = None \<Longrightarrow>
     constantExpr ll ub e s = None"
proof (induction ub G e rule: isConstantInit.induct)
  case (1 ub G n l t c)
  have e: "evaluateConstant ub (Expr n l t c) = None"
    using 1(4) constant_ids [of ub "Expr n l t c"] by (cases "evaluateConstant ub (Expr n l t c)") auto
  have ref: "lvalue ll x s = None" if "isGlobalRef G x" "i \<in> set (exprIds x)" for x
    using globalRef_ids [OF that] 1(5) by (auto simp: valueOf_def)
  show ?case
  proof (cases n)
    case (Unary op x)
    thus ?thesis using 1(2,4) e ref [of x] by (simp del: evaluateConstant.simps)
  next
    case (Cast k imp x)
    have "k \<noteq> CK_NullToPointer"
      using 1(3,4) Cast constant_ids [of ub x] by (auto simp: castOk_def isNullConstant_def evaluateInteger_def split: option.splits)
    moreover have "k = CK_PointerCast \<Longrightarrow> constantExpr ll ub x s = None" using 1 Cast e by (auto simp del: evaluateConstant.simps)
    moreover have "k = CK_ArrayToPointer \<Longrightarrow> lvalue ll x s = None"
      using 1(2,4) Cast e ref [of x] string_ids [of x] by (auto simp del: evaluateConstant.simps)
    ultimately show ?thesis using Cast e by (simp del: evaluateConstant.simps)
  qed (use e in \<open>simp_all del: evaluateConstant.simps\<close>)
qed

context llvm_laws
begin

lemma constantElems_self:
  assumes "\<And>x s. x \<in> set xs \<Longrightarrow> i \<in> set (initIds x) \<Longrightarrow> calm ll parent s \<Longrightarrow> globalsOk ll G s \<Longrightarrow> cg_values s i = None \<Longrightarrow>
      constantInit ll ub t x s = None"
    and "\<forall>x \<in> set xs. initOk ub scs (Some (insert i G)) t x"
  shows "\<exists>x \<in> set xs. i \<in> set (initIds x) \<Longrightarrow> length xs \<le> n \<Longrightarrow> calm ll parent s \<Longrightarrow> globalsOk ll G s \<Longrightarrow> cg_values s i = None \<Longrightarrow>
     constantElems ll ub t n xs s = None"
  using assms
proof (induction xs arbitrary: n s)
  case (Cons x xs)
  show ?case
  proof (cases "i \<in> set (initIds x)")
    case True
    thus ?thesis using Cons.prems by simp
  next
    case False
    have "initOk ub scs (Some G) t x" using initOk_less [OF _ False] Cons.prems(7) by simp
    then obtain v s1 where x: "constantInit ll ub t x s = Some (v, s1)" and k: "kept ll parent {} s s1" and c: "calm ll parent s1"
      using constantInit_makes [of ub scs G t x s] Cons.prems(3,4) unfolding makes_def by blast
    have "dom (cg_values s1) = dom (cg_values s)" using k by (simp add: kept_def)
    hence n: "cg_values s1 i = None" using Cons.prems(5) by (metis domIff)
    have "constantElems ll ub t (n - 1) xs s1 = None"
      by (rule Cons.IH [OF _ _ c globalsOk_kept [OF Cons.prems(4) k] n])
        (use Cons.prems False in auto)
    thus ?thesis using x Cons.prems(2) by simp
  qed
qed simp

lemma constantInit_self:
  "initOk ub scs (Some (insert i G)) t x \<Longrightarrow> i \<in> set (initIds x) \<Longrightarrow> calm ll parent s \<Longrightarrow> globalsOk ll G s \<Longrightarrow>
     cg_values s i = None \<Longrightarrow> constantInit ll ub t x s = None"
proof (induction x arbitrary: t s)
  case (InitExpr e l)
  show ?case
  proof (cases "isArray t")
    case True
    thus ?thesis using InitExpr.prems(1,2) string_ids by simp
  next
    case False
    thus ?thesis using InitExpr.prems constantExpr_self [of ub "insert i G" e scs i s ll] by (simp add: hasType_def)
  qed
next
  case (InitList xs l)
  show ?case
  proof (cases "isArray t")
    case True
    have "constantElems ll ub (element t) (unat (array_length t)) xs s = None"
      by (rule constantElems_self [where scs = scs and i = i and G = G])
        (use InitList True in \<open>auto intro: InitList.IH\<close>)
    thus ?thesis using True by simp
  next
    case False
    then obtain y where "xs = [y]" using InitList.prems(1) by (auto simp: length_Suc_conv)
    thus ?thesis using InitList.IH [of y t s] InitList.prems False by simp
  qed
qed

lemma emitGlobal_self:
  assumes u: "unitOk ll parent gs G s" and v: "varOk ub (Some G) [gs] v" and self: "\<not> selfFree (TopVar v)"
    and new: "vd_symbol v \<notin> dom (cg_values s)"
  shows "emitGlobal ll ub v s = None"
proof -
  obtain i where i: "vd_init v = Some i" "vd_symbol v \<in> set (initIds i)" using self by (auto split: option.splits)
  have "constantInit ll ub (vd_type v) i s = None"
    by (rule constantInit_self [where scs = "bindVar v [gs]" and i = "vd_symbol v" and G = G])
      (use u v i new in \<open>auto simp: unitOk_def varOk_def\<close>)
  thus ?thesis using i by (simp add: emitGlobal_def)
qed

text \<open>The declarations of an accepted program.\<close>

lemma decls_stuck:
  assumes "declsOk ub gs G ds" "list_all plainDecl ds" "distinct (declIds (dom gs) ds)"
    "set (declIds (dom gs) ds) \<inter> dom (cg_values s) = {}" "unitOk ll parent gs G s" "\<not> list_all selfFree ds"
  shows "emitDecls ll ub ds s = None"
  using assms
proof (induction ub gs G ds arbitrary: s rule: declsOk.induct)
  case (2 ub gs G v ds)
  have v: "varOk ub (Some G) [gs] v" and new: "vd_symbol v \<notin> dom (cg_values s)" using 2(2-5) by auto
  show ?case
  proof (cases "selfFree (TopVar v)")
    case False
    thus ?thesis using emitGlobal_self [OF 2(6) v False new] by simp
  next
    case True
    obtain s1 where e: "emitGlobal ll ub v s = Some ((), s1)"
      and u1: "unitOk ll parent (hd (bindVar v [gs])) (insert (vd_symbol v) G) s1"
      and d1: "dom (cg_values s1) = insert (vd_symbol v) (dom (cg_values s))"
      using emitGlobal_ok [OF 2(6) v True new] by blast
    have dom: "dom (hd (bindVar v [gs])) = insert (vd_name v) (dom gs)" using v by (simp add: bindVar_def varOk_def)
    have "emitDecls ll ub ds s1 = None"
      by (rule 2(1) [OF _ _ _ _ u1]) (use 2(2-5,7) True d1 dom in auto)
    thus ?thesis using e by simp
  qed
next
  case (3 ub gs G f ds)
  have f: "functionOk ub gs f" "plainFunction f" using 3(2,3) by simp_all
  have ids: "declIds (dom gs) (TopFunction f # ds) = functionIds (dom gs) f @ declIds (insert (fd_name f) (dom gs)) ds" by simp
  have new: "distinct (functionIds (dom gs) f)" "set (functionIds (dom gs) f) \<inter> dom (cg_values s) = {}"
    using 3(4,5) unfolding ids by auto
  obtain s1 where e: "emitFunction ll f s = Some ((), s1)" and u1: "unitOk ll parent (bindFunction f gs) G s1"
    and d1: "dom (cg_values s1) = set (functionIds (dom gs) f) \<union> dom (cg_values s)"
    using emitFunction_ok [OF 3(6) f new] by blast
  have dom: "dom (bindFunction f gs) = insert (fd_name f) (dom gs)" by (auto simp: bindFunction_def split: option.splits)
  have "emitDecls ll ub ds s1 = None"
    by (rule 3(1) [OF _ _ _ _ u1]) (use 3(2-5,7) d1 dom in \<open>auto simp del: declIds.simps simp: ids\<close>)
  thus ?case using e by simp
qed simp

lemma unit_generates:
  assumes "list_all parsedDecl (tu_decls tu)" "list_all plainDecl (tu_decls tu)" "analyze ub tu = Inr tu'"
    and "length (declIds {} (tu_decls tu')) \<le> 2 ^ 32"
  shows "if list_all selfFree (tu_decls tu')
    then \<exists>s'. emitDecls ll ub (tu_decls tu') (newCodegen ll x) = Some ((), s') \<and> calm ll parent s'
    else emitDecls ll ub (tu_decls tu') (newCodegen ll x) = None"
proof -
  have r: "declsOk ub Map.empty {} (tu_decls tu')" "numbered 1 (declIds {} (tu_decls tu'))"
    using analyze_result [OF assms(1,3)] by simp_all
  have d: "distinct (declIds (dom Map.empty) (tu_decls tu'))" using numbered_distinct [OF r(2) assms(4)] by simp
  have p: "list_all plainDecl (tu_decls tu')" by (rule analyze_plain [OF assms(1-3)])
  have n: "set (declIds (dom Map.empty) (tu_decls tu')) \<inter> dom (cg_values (newCodegen ll x)) = {}" by (simp add: newCodegen_def)
  show ?thesis
  proof (cases "list_all selfFree (tu_decls tu')")
    case True
    hence "\<forall>d \<in> set (tu_decls tu'). plainDecl d \<and> selfFree d" using p by (simp add: list_all_iff)
    thus ?thesis using decls_generate [OF r(1) _ d n new_unit] True by simp
  next
    case False
    thus ?thesis using decls_stuck [OF r(1) p d n new_unit False] by simp
  qed
qed

end

section \<open>The properties\<close>

lemma example_generates:
  "list_all parsedDecl (tu_decls example)" "list_all plainDecl (tu_decls example)"
  "case analyze no_ub example of Inl ds \<Rightarrow> False
     | Inr tu' \<Rightarrow> length (declIds {} (tu_decls tu')) = 3 \<and> list_all selfFree (tu_decls tu')"
  by code_simp+

text \<open>
  C2: An accepted program gives a module, in the sense that the code generator neither fails an
  assertion nor uses a null pointer nor misses a name, exactly when no global is named in its own
  initializer. The hypotheses on the tree are those that \<open>parse\<close> establishes.
\<close>

theorem code_generation_defined:
  assumes "llvm_laws ll parent blocks"
    and "list_all parsedDecl (tu_decls tu)" "list_all plainDecl (tu_decls tu)"
    and "analyze ub tu = Inr tu'" "length (declIds {} (tu_decls tu')) \<le> 2 ^ 32"
  shows "generateModule ll ub tu' x \<noteq> None \<longleftrightarrow> list_all selfFree (tu_decls tu')"
  using llvm_laws.unit_generates [OF assms, of x]
  by (cases "list_all selfFree (tu_decls tu')") (auto simp: generateModule_def)

lemma code_generation_defined_witness:
  "\<exists>tu'. analyze no_ub example = Inr tu' \<and> generateModule recorder no_ub tu' ''example.jia'' \<noteq> None"
proof -
  obtain tu' where t: "analyze no_ub example = Inr tu'" "length (declIds {} (tu_decls tu')) = 3" "list_all selfFree (tu_decls tu')"
    using example_generates(3) by (auto split: sum.splits)
  have "generateModule recorder no_ub tu' ''example.jia'' \<noteq> None \<longleftrightarrow> list_all selfFree (tu_decls tu')"
    by (rule code_generation_defined [OF log.llvm_laws_axioms example_generates(1,2) t(1)]) (simp add: t(2))
  thus ?thesis using t by blast
qed

text \<open>
  C3: In the module of an accepted program, every block of a function consists of instructions
  without a terminator and then one terminator, and the terminator goes to blocks of the same
  function. That holds for the blocks after \<open>return\<close>, \<open>break\<close> and \<open>continue\<close>, too.
\<close>

theorem blocks_are_complete:
  assumes "llvm_laws ll parent blocks"
    and "list_all parsedDecl (tu_decls tu)" "list_all plainDecl (tu_decls tu)"
    and "analyze ub tu = Inr tu'" "length (declIds {} (tu_decls tu')) \<le> 2 ^ 32"
    and "generateModule ll ub tu' x = Some (Inr m)" "parent m c = Some f"
  shows "complete (lv_instructions ll m c) \<and> (\<forall>r \<in> set (lv_instructions ll m c). \<forall>t \<in> targets r. parent m t = Some f)"
proof -
  obtain s where "emitDecls ll ub (tu_decls tu') (newCodegen ll x) = Some ((), s)" "cg_module s = m"
    using assms(6) by (auto simp: generateModule_def fail_def bind_eq_Some_conv split: option.splits)
  hence "quiet ll parent m"
    using llvm_laws.unit_generates [OF assms(1-5), of x] by (auto simp: calm_def split: if_splits)
  thus ?thesis using quietD assms(7) by metis
qed

lemma example_module:
  "case analyze no_ub example of Inl ds \<Rightarrow> False
     | Inr tu' \<Rightarrow> (case generateModule recorder no_ub tu' ''example.jia'' of
         Some (Inr m) \<Rightarrow> logParent m (Made 9) \<noteq> None | _ \<Rightarrow> False)"
  by code_simp

lemma blocks_are_complete_witness:
  "\<exists>tu' m f. analyze no_ub example = Inr tu' \<and> generateModule recorder no_ub tu' ''example.jia'' = Some (Inr m) \<and>
     logParent m (Made 9) = Some f \<and> complete (logCode m (Made 9))"
proof -
  obtain tu' where t: "analyze no_ub example = Inr tu'" "length (declIds {} (tu_decls tu')) = 3"
    using example_generates(3) by (auto split: sum.splits)
  obtain m f where m: "generateModule recorder no_ub tu' ''example.jia'' = Some (Inr m)" "logParent m (Made 9) = Some f"
    using example_module t(1) by (auto split: option.splits sum.splits)
  have "complete (lv_instructions recorder m (Made 9))"
    using blocks_are_complete [OF log.llvm_laws_axioms example_generates(1,2) t(1) _ m] t(2) by simp
  thus ?thesis using t(1) m by auto
qed

text \<open>
  The program \<open>void *p = &p;\<close> is accepted, and the code generator looks up \<open>p\<close> before it is there.
\<close>

definition self_pointer :: translation_unit where
  "self_pointer = \<lparr>tu_decls =
     [TopVar (mkVar ''p'' (PointerTy VoidTy) False (Some (InitExpr (bare 11 (Unary UO_AddrOf (name_ref 12 ''p''))) (col 11))))]\<rparr>"

lemma self_pointer_undefined:
  "case analyze no_ub self_pointer of Inl ds \<Rightarrow> False | Inr tu' \<Rightarrow> generateModule recorder no_ub tu' ''p.jia'' = None"
  by code_simp

end
