(* ===== verification/Backend.thy ===== *)
theory Backend
  imports Options "HOL-Library.Monad_Syntax"
begin

text \<open>
  \<open>lib/Driver/Backend.cpp\<close>: target machines, optimization and output of a module. Targets, machines,
  passes and files are LLVM's and the operating system's: they are the parameter \<open>ho\<close> of the
  definitions, a record of the functions that the driver calls, over any types of the state of the
  world, of streams, targets, machines and modules.

  A function that writes is \<open>None\<close> where LLVM ends the process (\<open>report_fatal_error\<close>).
\<close>

section \<open>Levels\<close>

datatype pass_level = PL_O0 | PL_O1 | PL_O2 | PL_O3

datatype codegen_level = CL_None | CL_Less | CL_Default | CL_Aggressive

definition passLevel :: "u32 \<Rightarrow> pass_level" where
  "passLevel level = (if level = 0 then PL_O0 else if level = 1 then PL_O1 else if level = 2 then PL_O2 else PL_O3)"

definition codegenLevel :: "u32 \<Rightarrow> codegen_level" where
  "codegenLevel level =
     (if level = 0 then CL_None else if level = 1 then CL_Less else if level = 2 then CL_Default else CL_Aggressive)"

section \<open>What the driver uses of LLVM and of the operating system\<close>

datatype target_part = TargetInfos | Targets | TargetMCs | AsmParsers | AsmPrinters

datatype pipeline = O0Default pass_level | PerModuleDefault pass_level

datatype file_type = ObjectFile | AssemblyFile

datatype output_kind = OutObject | OutAssembly | OutLLVMText | OutBitcode

datatype ('m, 't) contents = PrintModule 'm | WriteBitcode 'm | RunEmitter 't file_type 'm

record ('w, 'h, 'g, 't, 'm) host =
  ho_initialize :: "target_part \<Rightarrow> 'w \<Rightarrow> 'w"
  ho_defaultTriple :: string
  ho_lookupTarget :: "string \<Rightarrow> 'w \<Rightarrow> string + 'g"
  ho_createMachine :: "'g \<Rightarrow> string \<Rightarrow> codegen_level \<Rightarrow> 'w \<Rightarrow> 't option"
  ho_machineTriple :: "'t \<Rightarrow> string"
  ho_dataLayout :: "'t \<Rightarrow> string"
  ho_setTriple :: "string \<Rightarrow> 'm \<Rightarrow> 'm"
  ho_setDataLayout :: "string \<Rightarrow> 'm \<Rightarrow> 'm"
  ho_passes :: "'t \<Rightarrow> pipeline \<Rightarrow> 'm \<Rightarrow> 'm"
  ho_cannotEmit :: "'t \<Rightarrow> file_type \<Rightarrow> bool"
  ho_open :: "string \<Rightarrow> bool \<Rightarrow> 'w \<Rightarrow> (string + 'h) \<times> 'w"
  ho_write :: "'h \<Rightarrow> ('m, 't) contents \<Rightarrow> 'w \<Rightarrow> 'w"
  ho_flush :: "'h \<Rightarrow> 'w \<Rightarrow> 'w"
  ho_hasError :: "'h \<Rightarrow> 'w \<Rightarrow> bool"
  ho_close :: "'h \<Rightarrow> 'w \<Rightarrow> 'w"
  ho_read :: "string \<Rightarrow> 'w \<Rightarrow> (string + string) \<times> 'w"
  ho_temporary :: "string \<Rightarrow> string \<Rightarrow> 'w \<Rightarrow> (string + string) \<times> 'w"
  ho_remove :: "string \<Rightarrow> 'w \<Rightarrow> 'w"
  ho_filename :: "string \<Rightarrow> string"
  ho_replaceExtension :: "string \<Rightarrow> string \<Rightarrow> string"
  ho_getenv :: "string \<Rightarrow> 'w \<Rightarrow> string option"
  ho_findProgram :: "string \<Rightarrow> 'w \<Rightarrow> string option"
  ho_execute :: "string \<Rightarrow> string list \<Rightarrow> 'w \<Rightarrow> (int \<times> string) \<times> 'w"

section \<open>Machines\<close>

definition initializeTargets :: "('w, 'h, 'g, 't, 'm) host \<Rightarrow> 'w \<Rightarrow> 'w" where
  "initializeTargets ho w = fold (ho_initialize ho) [TargetInfos, Targets, TargetMCs, AsmParsers, AsmPrinters] w"

definition createTargetMachine :: "('w, 'h, 'g, 't, 'm) host \<Rightarrow> string \<Rightarrow> u32 \<Rightarrow> 'w \<Rightarrow> string + 't" where
  "createTargetMachine ho tripleName optLevel w =
     (let triple = (if tripleName = [] then ho_defaultTriple ho else tripleName) in
      case ho_lookupTarget ho triple w of
        Inl error \<Rightarrow> Inl error
      | Inr target \<Rightarrow>
          (case ho_createMachine ho target triple (codegenLevel optLevel) w of
             None \<Rightarrow> Inl (''cannot create a target machine for '' @ quoted_text triple)
           | Some machine \<Rightarrow> Inr machine))"

definition configureModule :: "('w, 'h, 'g, 't, 'm) host \<Rightarrow> 'm \<Rightarrow> 't \<Rightarrow> 'm" where
  "configureModule ho m machine = ho_setDataLayout ho (ho_dataLayout ho machine) (ho_setTriple ho (ho_machineTriple ho machine) m)"

definition optimize :: "('w, 'h, 'g, 't, 'm) host \<Rightarrow> 'm \<Rightarrow> 't \<Rightarrow> u32 \<Rightarrow> 'm" where
  "optimize ho m machine optLevel =
     ho_passes ho machine (if optLevel = 0 then O0Default PL_O0 else PerModuleDefault (passLevel optLevel)) m"

section \<open>Output\<close>

text \<open>
  The end of the scope of the stream \<open>out\<close>: its destructor closes it, and ends the process when an
  error is pending.
\<close>

definition closing :: "('w, 'h, 'g, 't, 'm) host \<Rightarrow> 'h \<Rightarrow> (string + unit) \<times> 'w \<Rightarrow> ((string + unit) \<times> 'w) option" where
  "closing ho out p = (case p of (r, w) \<Rightarrow> (let w = ho_close ho out w in if ho_hasError ho out w then None else Some (r, w)))"

definition emitModule :: "('w, 'h, 'g, 't, 'm) host \<Rightarrow> 'm \<Rightarrow> 't \<Rightarrow> output_kind \<Rightarrow> string \<Rightarrow> 'w \<Rightarrow>
    ((string + unit) \<times> 'w) option" where
  "emitModule ho m machine kind path w =
     (case ho_open ho path (kind = OutLLVMText \<or> kind = OutAssembly) w of
        (Inl ec, w) \<Rightarrow> Some (Inl (''cannot open '' @ quoted_text path @ '': '' @ ec), w)
      | (Inr out, w) \<Rightarrow>
          (let fileType = (if kind = OutObject then ObjectFile else AssemblyFile);
               written = (case kind of
                   OutLLVMText \<Rightarrow> Some (ho_write ho out (PrintModule m) w)
                 | OutBitcode \<Rightarrow> Some (ho_write ho out (WriteBitcode m) w)
                 | _ \<Rightarrow> if ho_cannotEmit ho machine fileType then None
                        else Some (ho_write ho out (RunEmitter machine fileType m) w))
           in case written of
                None \<Rightarrow> closing ho out (Inl ''the target cannot emit this kind of file'', w)
              | Some w \<Rightarrow>
                  (let w = ho_flush ho out w in
                   closing ho out (if ho_hasError ho out w then Inl (''error writing '' @ quoted_text path) else Inr (), w))))"

text \<open>
  A pending error of a stream stays until it is cleared, and the code does not clear it: so the
  report \<open>error writing\<close> never gets to the caller.
\<close>

lemma error_writing_is_fatal:
  assumes "\<And>out w. ho_hasError ho out w \<Longrightarrow> ho_hasError ho out (ho_close ho out w)"
  shows "emitModule ho m machine kind path w \<noteq> Some (Inl (''error writing '' @ quoted_text path), w')"
  using assms
  by (auto simp: emitModule_def closing_def Let_def split: prod.splits sum.splits option.splits output_kind.splits if_splits)

end
