(* ===== verification/Driver.thy ===== *)
theory Driver
  imports Backend SemaStmt ParserStmt Dump CodeGen Lexer
begin

text \<open>
  \<open>lib/Driver/Driver.cpp\<close> and \<open>tools/jiac/jiac.cpp\<close>: the pipeline, from the command line to the exit
  status. The front end is a function of the source text; the rest threads the state of a
  \<open>Compilation\<close> with the world and the text on the two output streams.
\<close>

section \<open>The front end\<close>

definition frontEnd :: "(fp \<Rightarrow> i64) \<Rightarrow> string \<Rightarrow> translation_unit result" where
  "frontEnd ub source = (case (case lex source of Inl ds \<Rightarrow> Inl ds | Inr tokens \<Rightarrow> parse ub tokens) of
     Inl ds \<Rightarrow> Inl ds | Inr tu \<Rightarrow> analyze ub tu)"

section \<open>State\<close>

record ('w, 't) compilation =
  cp_world :: 'w
  cp_out :: string
  cp_err :: string
  cp_machine :: "'t option"
  cp_objects :: "string list"
  cp_temporaries :: "string list"

definition versionText :: string where
  "versionText = ''jiac 0.2.0 (jiaLang)''"

definition print :: "string \<Rightarrow> ('w, 't) compilation \<Rightarrow> ('w, 't) compilation" where
  "print t s = s\<lparr>cp_out := cp_out s @ t\<rparr>"

definition reportError :: "string \<Rightarrow> ('w, 't) compilation \<Rightarrow> ('w, 't) compilation" where
  "reportError message s = s\<lparr>cp_err := cp_err s @ ''jiac: error: '' @ message @ [newline]\<rparr>"

definition report :: "diagnostic list \<Rightarrow> string \<Rightarrow> string \<Rightarrow> ('w, 't) compilation \<Rightarrow> ('w, 't) compilation" where
  "report diags file source s = s\<lparr>cp_err := cp_err s @ concat (map (\<lambda>d. render d file source) diags)\<rparr>"

definition replaceExtension :: "('w, 'h, 'g, 't, 'm) host \<Rightarrow> string \<Rightarrow> string \<Rightarrow> string" where
  "replaceExtension ho path ext = ho_replaceExtension ho (ho_filename ho path) ext"

section \<open>Linking\<close>

definition ccName :: "('w, 'h, 'g, 't, 'm) host \<Rightarrow> ('w, 't) compilation \<Rightarrow> string" where
  "ccName ho s = (case ho_getenv ho ''CC'' (cp_world s) of None \<Rightarrow> ''cc'' | Some cc \<Rightarrow> if cc = [] then ''cc'' else cc)"

definition linkOutput :: "options \<Rightarrow> string" where
  "linkOutput opts = (case op_output opts of None \<Rightarrow> ''a.out'' | Some out \<Rightarrow> out)"

definition linkObjects :: "('w, 'h, 'g, 't, 'm) host \<Rightarrow> string list \<Rightarrow> options \<Rightarrow> ('w, 't) compilation \<Rightarrow>
    int \<times> ('w, 't) compilation" where
  "linkObjects ho objects opts s =
     (case ho_findProgram ho (ccName ho s) (cp_world s) of
        None \<Rightarrow> (1, reportError (''cannot find the linker driver '' @ quoted_text (ccName ho s)) s)
      | Some cc \<Rightarrow>
          (let argv = ([ccName ho s] @ objects @ op_linkerInputs opts @ [''-o'']) @ [linkOutput opts]
           in case ho_execute ho cc argv (cp_world s) of
                ((status, error), w) \<Rightarrow>
                  (let s = s\<lparr>cp_world := w\<rparr> in
                   if status \<noteq> 0 then (1, reportError (if error = [] then ''linker command failed'' else error) s)
                   else (0, s))))"

section \<open>One source\<close>

definition needsBackend :: "options \<Rightarrow> bool" where
  "needsBackend opts \<longleftrightarrow> op_action opts = A_Link \<or> op_action opts = A_Compile \<or> op_action opts = A_Assemble"

definition outputFor :: "('w, 'h, 'g, 't, 'm) host \<Rightarrow> options \<Rightarrow> string \<Rightarrow> ('w, 't) compilation \<Rightarrow>
    (output_kind \<times> string option) \<times> ('w, 't) compilation" where
  "outputFor ho opts path s =
     (case op_action opts of
        A_Compile \<Rightarrow>
          ((if op_emitLLVM opts then OutBitcode else OutObject,
            Some (case op_output opts of Some out \<Rightarrow> out
              | None \<Rightarrow> replaceExtension ho path (if op_emitLLVM opts then ''bc'' else ''o''))), s)
      | A_Assemble \<Rightarrow>
          ((if op_emitLLVM opts then OutLLVMText else OutAssembly,
            Some (case op_output opts of Some out \<Rightarrow> out
              | None \<Rightarrow> replaceExtension ho path (if op_emitLLVM opts then ''ll'' else ''s''))), s)
      | _ \<Rightarrow>
          (case ho_temporary ho ''jiac'' ''o'' (cp_world s) of
             (Inl ec, w) \<Rightarrow> ((OutObject, None), reportError (''cannot create a temporary file: '' @ ec) (s\<lparr>cp_world := w\<rparr>))
           | (Inr temp, w) \<Rightarrow>
               ((OutObject, Some temp),
                s\<lparr>cp_world := w, cp_temporaries := cp_temporaries s @ [temp], cp_objects := cp_objects s @ [temp]\<rparr>)))"

definition tokenLine :: "token \<Rightarrow> string" where
  "tokenLine t = kindName (tok_kind t) @ '' '' @ quoted_text (tok_text t) @ '' '' @
     dec (unat (Diagnostics.line (tok_loc t))) @ '':'' @ dec (unat (column (tok_loc t))) @ [newline]"

definition dumpTokens :: "string \<Rightarrow> string \<Rightarrow> ('w, 't) compilation \<Rightarrow> bool \<times> ('w, 't) compilation" where
  "dumpTokens path source s =
     (case lex source of
        Inl ds \<Rightarrow> (False, report ds path source s)
      | Inr tokens \<Rightarrow> (True, print (concat (map tokenLine tokens)) s))"

text \<open>The end of \<open>compile\<close>: a module is configured, optimized and written.\<close>

definition writeModule :: "('w, 'h, 'g, 't, 'm) host \<Rightarrow> options \<Rightarrow> string \<Rightarrow> 'm \<Rightarrow> ('w, 't) compilation \<Rightarrow>
    (bool \<times> ('w, 't) compilation) option" where
  "writeModule ho opts path m s = do {
     machine \<leftarrow> cp_machine s;
     let m = optimize ho (configureModule ho m machine) machine (op_optLevel opts);
     (case outputFor ho opts path s of
        ((kind, None), s) \<Rightarrow> Some (False, s)
      | ((kind, Some out), s) \<Rightarrow> do {
          (written, w) \<leftarrow> emitModule ho m machine kind out (cp_world s);
          let s = s\<lparr>cp_world := w\<rparr>;
          Some (case written of Inl error \<Rightarrow> (False, reportError error s) | Inr _ \<Rightarrow> (True, s)) }) }"

text \<open>\<open>compile\<close>, after the file was read.\<close>

definition compileText :: "('w, 'h, 'g, 't, 'm) host \<Rightarrow> ('v, 'm) llvm \<Rightarrow> (fp \<Rightarrow> i64) \<Rightarrow> options \<Rightarrow> string \<Rightarrow> string \<Rightarrow>
    ('w, 't) compilation \<Rightarrow> (bool \<times> ('w, 't) compilation) option" where
  "compileText ho ll ub opts path source s =
     (if op_action opts = A_DumpTokens then Some (dumpTokens path source s)
      else case frontEnd ub source of
        Inl ds \<Rightarrow> Some (False, report ds path source s)
      | Inr tu \<Rightarrow>
          if op_action opts = A_SyntaxOnly then Some (True, s)
          else if op_action opts = A_DumpAst then Some (True, print (dumpAST tu) s)
          else do {
            result \<leftarrow> generateModule ll ub tu path;
            case result of
              Inl ds \<Rightarrow> Some (False, report ds path source s)
            | Inr m \<Rightarrow> writeModule ho opts path m s })"

definition compile :: "('w, 'h, 'g, 't, 'm) host \<Rightarrow> ('v, 'm) llvm \<Rightarrow> (fp \<Rightarrow> i64) \<Rightarrow> options \<Rightarrow> string \<Rightarrow>
    ('w, 't) compilation \<Rightarrow> (bool \<times> ('w, 't) compilation) option" where
  "compile ho ll ub opts path s =
     (case ho_read ho path (cp_world s) of
        (Inl ec, w) \<Rightarrow> Some (False, reportError (''cannot open '' @ quoted_text path @ '': '' @ ec) (s\<lparr>cp_world := w\<rparr>))
      | (Inr source, w) \<Rightarrow> compileText ho ll ub opts path source (s\<lparr>cp_world := w\<rparr>))"

section \<open>The run\<close>

fun compileAll :: "('w, 'h, 'g, 't, 'm) host \<Rightarrow> ('v, 'm) llvm \<Rightarrow> (fp \<Rightarrow> i64) \<Rightarrow> options \<Rightarrow> string list \<Rightarrow>
    ('w, 't) compilation \<Rightarrow> (bool \<times> ('w, 't) compilation) option" where
  "compileAll ho ll ub opts [] s = Some (True, s)"
| "compileAll ho ll ub opts (source # sources) s = do {
     (ok, s) \<leftarrow> compile ho ll ub opts source s;
     (rest, s) \<leftarrow> compileAll ho ll ub opts sources s;
     Some (ok \<and> rest, s) }"

text \<open>The sources, the link, the temporary files.\<close>

definition buildAll :: "('w, 'h, 'g, 't, 'm) host \<Rightarrow> ('v, 'm) llvm \<Rightarrow> (fp \<Rightarrow> i64) \<Rightarrow> options \<Rightarrow> ('w, 't) compilation \<Rightarrow>
    (int \<times> ('w, 't) compilation) option" where
  "buildAll ho ll ub opts s = do {
     (ok, s) \<leftarrow> compileAll ho ll ub opts (op_sources opts) s;
     let (status, s) = (if ok \<and> op_action opts = A_Link then linkObjects ho (cp_objects s) opts s
                        else (if ok then 0 else 1, s));
     Some (status, s\<lparr>cp_world := fold (ho_remove ho) (cp_temporaries s) (cp_world s)\<rparr>) }"

definition runCompilation :: "('w, 'h, 'g, 't, 'm) host \<Rightarrow> ('v, 'm) llvm \<Rightarrow> (fp \<Rightarrow> i64) \<Rightarrow> options \<Rightarrow> ('w, 't) compilation \<Rightarrow>
    (int \<times> ('w, 't) compilation) option" where
  "runCompilation ho ll ub opts s =
     (if op_sources opts = [] \<and> op_linkerInputs opts = [] then Some (1, reportError ''no input files'' s)
      else if needsBackend opts then
        (let s = s\<lparr>cp_world := initializeTargets ho (cp_world s)\<rparr> in
         case createTargetMachine ho (op_targetTriple opts) (op_optLevel opts) (cp_world s) of
           Inl error \<Rightarrow> Some (1, reportError error s)
         | Inr machine \<Rightarrow> buildAll ho ll ub opts (s\<lparr>cp_machine := Some machine\<rparr>))
      else buildAll ho ll ub opts s)"

definition newCompilation :: "'w \<Rightarrow> ('w, 't) compilation" where
  "newCompilation w = \<lparr>cp_world = w, cp_out = [], cp_err = [], cp_machine = None, cp_objects = [], cp_temporaries = []\<rparr>"

definition run :: "('w, 'h, 'g, 't, 'm) host \<Rightarrow> ('v, 'm) llvm \<Rightarrow> (fp \<Rightarrow> i64) \<Rightarrow> options \<Rightarrow> 'w \<Rightarrow>
    (int \<times> ('w, 't) compilation) option" where
  "run ho ll ub opts w =
     (let s = newCompilation w in
      case op_action opts of
        A_Help \<Rightarrow> Some (0, print helpText s)
      | A_Version \<Rightarrow> Some (0, print (versionText @ [newline]) s)
      | _ \<Rightarrow> runCompilation ho ll ub opts s)"

text \<open>\<open>main\<close>, for the arguments after the name of the program.\<close>

definition mainProgram :: "('w, 'h, 'g, 't, 'm) host \<Rightarrow> ('v, 'm) llvm \<Rightarrow> (fp \<Rightarrow> i64) \<Rightarrow> string list \<Rightarrow> 'w \<Rightarrow>
    (int \<times> ('w, 't) compilation) option" where
  "mainProgram ho ll ub args w =
     (case parseArguments args of
        Inl message \<Rightarrow> Some (1, reportError message (newCompilation w))
      | Inr opts \<Rightarrow> run ho ll ub opts w)"

end
