(* ===== verification/DriverCorrect.thy ===== *)
theory DriverCorrect
  imports Driver CodeProps LexCorrect ParseProps
begin

text \<open>
  The lemmas of the pipeline: what the front end accepts, when a run ends and with which status,
  what it reports and which files it leaves behind.
\<close>

section \<open>The front end\<close>

lemma lex_stream: "lex source = Inr toks \<Longrightarrow> stream toks"
  using lex_tokenizes tokenizes_Eof by (fastforce simp: stream_def kindsOf_def map_butlast [symmetric])

lemma analyze_error: "analyze ub tu = Inl ds \<Longrightarrow> ds \<noteq> []"
  by (auto simp: analyze_def split: prod.splits if_splits)

lemma parse_result:
  assumes "lex source = Inr toks"
  obtains ds where "parse ub toks = Inl ds" "ds \<noteq> []"
    | tu where "parse ub toks = Inr tu" "gUnit ub (butlast toks) (tu_decls tu)"
  using parse_cases [OF lex_stream [OF assms], of ub] by blast

lemma frontEnd_error: "frontEnd ub source = Inl ds \<Longrightarrow> ds \<noteq> []"
proof -
  assume f: "frontEnd ub source = Inl ds"
  show "ds \<noteq> []"
  proof (cases "lex source")
    case (Inl es)
    thus ?thesis using f by (auto simp: frontEnd_def lex_def split: prod.splits if_splits)
  next
    case (Inr toks)
    thus ?thesis
    proof (cases rule: parse_result [of source toks ub])
      case (1 es)
      thus ?thesis using f Inr by (simp add: frontEnd_def)
    next
      case (2 tu)
      thus ?thesis using f Inr analyze_error [of ub tu] by (simp add: frontEnd_def)
    qed
  qed
qed

lemma frontEnd_accepted:
  assumes "frontEnd ub source = Inr tu'"
  obtains toks tu where "tokenizes [] source toks" "gUnit ub (butlast toks) (tu_decls tu)" "analyze ub tu = Inr tu'"
proof (cases "lex source")
  case (Inl es)
  thus thesis using assms by (simp add: frontEnd_def)
next
  case (Inr toks)
  hence t: "tokenizes [] source toks" by (simp add: lex_tokenizes)
  show thesis using Inr
  proof (cases rule: parse_result [of source toks ub])
    case (1 ds)
    thus thesis using assms Inr by (simp add: frontEnd_def)
  next
    case (2 tu)
    thus thesis using that [OF t] assms Inr by (simp add: frontEnd_def)
  qed
qed

section \<open>Reports and the exit status\<close>

lemma render_text: "render d file source \<noteq> []"
  by (simp add: render_def Let_def)

text \<open>Something was reported exactly when the result is not fine.\<close>

definition honest :: "('w, 't) compilation \<Rightarrow> bool \<times> ('w, 't) compilation \<Rightarrow> bool" where
  "honest s p \<longleftrightarrow> (\<exists>t. cp_err (snd p) = cp_err s @ t \<and> (fst p \<longleftrightarrow> t = []))"

lemma honest_ok: "cp_err s' = cp_err s \<Longrightarrow> honest s (True, s')"
  by (simp add: honest_def)

lemma honest_error: "cp_err s' = cp_err s \<Longrightarrow> honest s (False, reportError m s')"
  by (simp add: honest_def reportError_def)

lemma honest_report: "ds \<noteq> [] \<Longrightarrow> honest s (False, report ds file source s)"
  using render_text by (cases ds) (auto simp: honest_def report_def)

lemma honest_start: "cp_err t = cp_err s \<Longrightarrow> honest t p \<Longrightarrow> honest s p"
  by (simp add: honest_def)

lemma honest_both: "honest s (a, s1) \<Longrightarrow> honest s1 (b, s2) \<Longrightarrow> honest s (a \<and> b, s2)"
  by (auto simp: honest_def)

lemma generate_error: "generateModule ll ub tu x = Some (Inl ds) \<Longrightarrow> ds \<noteq> []"
  by (auto simp: generateModule_def fail_def bind_eq_Some_conv split: option.splits)

lemma outputFor_cases:
  obtains (path) kind out s' where "outputFor ho opts path s = ((kind, Some out), s')" "cp_err s' = cp_err s"
      "cp_machine s' = cp_machine s"
  | (none) kind m s' where "outputFor ho opts path s = ((kind, None), reportError m s')" "cp_err s' = cp_err s"
      "cp_machine s' = cp_machine s"
proof -
  have temp: thesis if "outputFor ho opts path s =
      (case ho_temporary ho ''jiac'' ''o'' (cp_world s) of
         (Inl ec, w) \<Rightarrow> ((OutObject, None), reportError (''cannot create a temporary file: '' @ ec) (s\<lparr>cp_world := w\<rparr>))
       | (Inr temp, w) \<Rightarrow>
           ((OutObject, Some temp),
            s\<lparr>cp_world := w, cp_temporaries := cp_temporaries s @ [temp], cp_objects := cp_objects s @ [temp]\<rparr>))"
  proof (cases "ho_temporary ho ''jiac'' ''o'' (cp_world s)")
    case (Pair r w)
    thus thesis using that path none by (cases r) simp_all
  qed
  show thesis
    by (cases "op_action opts") (use temp path in \<open>simp_all add: outputFor_def\<close>)
qed

lemma writeModule_cases:
  assumes "writeModule ho opts path m s = Some (ok, s')"
  obtains (none) kind where "outputFor ho opts path s = ((kind, None), s')" "\<not> ok"
  | (error) kind out s1 m' machine e w where "outputFor ho opts path s = ((kind, Some out), s1)"
      "emitModule ho m' machine kind out (cp_world s1) = Some (Inl e, w)" "\<not> ok" "s' = reportError e (s1\<lparr>cp_world := w\<rparr>)"
  | (written) kind out s1 m' machine u w where "outputFor ho opts path s = ((kind, Some out), s1)"
      "emitModule ho m' machine kind out (cp_world s1) = Some (Inr u, w)" "ok" "s' = s1\<lparr>cp_world := w\<rparr>"
proof -
  obtain machine where machine: "cp_machine s = Some machine" using assms by (auto simp: writeModule_def bind_eq_Some_conv)
  let ?m = "optimize ho (configureModule ho m machine) machine (op_optLevel opts)"
  obtain kind out s1 where o: "outputFor ho opts path s = ((kind, out), s1)" by (metis surj_pair)
  show thesis
  proof (cases out)
    case None
    thus thesis using none assms machine o by (simp add: writeModule_def)
  next
    case (Some out')
    then obtain r w where e: "emitModule ho ?m machine kind out' (cp_world s1) = Some (r, w)"
      using assms machine o by (auto simp: writeModule_def bind_eq_Some_conv Let_def)
    show thesis
      by (cases r) (use error written o e Some assms machine in \<open>auto simp: writeModule_def Let_def\<close>)
  qed
qed

lemma writeModule_honest:
  assumes "writeModule ho opts path m s = Some (ok, s')"
  shows "honest s (ok, s')"
  using assms
proof (cases rule: writeModule_cases)
  case (none kind)
  show ?thesis by (cases rule: outputFor_cases [of ho opts path s]) (use none honest_error in auto)
next
  case (error kind out s1 m' machine e w)
  hence "cp_err s1 = cp_err s" by (cases rule: outputFor_cases [of ho opts path s]) auto
  thus ?thesis using honest_error [of "s1\<lparr>cp_world := w\<rparr>" s e] error by simp
next
  case (written kind out s1 m' machine u w)
  hence "cp_err s1 = cp_err s" by (cases rule: outputFor_cases [of ho opts path s]) auto
  thus ?thesis using honest_ok [of s' s] written by simp
qed

lemma compileText_honest:
  assumes "compileText ho ll ub opts path source s = Some (ok, s')"
  shows "honest s (ok, s')"
proof (cases "op_action opts = A_DumpTokens")
  case True
  thus ?thesis using assms
    by (auto simp: compileText_def dumpTokens_def print_def lex_def split: sum.splits prod.splits if_splits
        intro: honest_ok honest_report)
next
  case False
  show ?thesis
  proof (cases "frontEnd ub source")
    case (Inl ds)
    hence "ok = False" "s' = report ds path source s" using assms False by (auto simp: compileText_def)
    thus ?thesis using honest_report [OF frontEnd_error [OF Inl], of s path source] by simp
  next
    case (Inr tu)
    consider "op_action opts = A_SyntaxOnly \<or> op_action opts = A_DumpAst"
      | r where "op_action opts \<noteq> A_SyntaxOnly" "op_action opts \<noteq> A_DumpAst" "generateModule ll ub tu path = Some r"
          "(case r of Inl ds \<Rightarrow> Some (False, report ds path source s) | Inr m \<Rightarrow> writeModule ho opts path m s) = Some (ok, s')"
      using assms False Inr by (auto simp: compileText_def bind_eq_Some_conv split: if_splits)
    thus ?thesis
    proof cases
      case 1
      thus ?thesis using assms Inr by (auto simp: compileText_def print_def honest_def)
    next
      case (2 r)
      show ?thesis
      proof (cases r)
        case (Inl ds)
        hence "ds \<noteq> []" using 2(3) generate_error by blast
        thus ?thesis using honest_report [of ds s path source] 2(4) Inl by simp
      next
        case (Inr m)
        thus ?thesis using writeModule_honest 2(4) by simp
      qed
    qed
  qed
qed

lemma compile_honest:
  assumes "compile ho ll ub opts path s = Some (ok, s')"
  shows "honest s (ok, s')"
proof (cases "ho_read ho path (cp_world s)")
  case (Pair r w)
  have start: "honest (s\<lparr>cp_world := w\<rparr>) p \<Longrightarrow> honest s p" for p by (simp add: honest_def)
  show ?thesis
  proof (cases r)
    case (Inl ec)
    thus ?thesis using assms Pair by (auto simp: compile_def intro!: honest_error)
  next
    case (Inr source)
    hence "compileText ho ll ub opts path source (s\<lparr>cp_world := w\<rparr>) = Some (ok, s')" using assms Pair by (simp add: compile_def)
    thus ?thesis by (intro start compileText_honest)
  qed
qed

lemma compileAll_honest:
  "compileAll ho ll ub opts sources s = Some (ok, s') \<Longrightarrow> honest s (ok, s')"
proof (induction sources arbitrary: s ok)
  case (Cons source sources)
  then obtain a s1 b where "compile ho ll ub opts source s = Some (a, s1)" "compileAll ho ll ub opts sources s1 = Some (b, s')"
    "ok = (a \<and> b)" by (auto simp: bind_eq_Some_conv)
  thus ?case using honest_both [OF compile_honest Cons.IH] by simp
qed (simp add: honest_def)

lemma linkObjects_honest:
  assumes "linkObjects ho objects opts s = (status, s')"
  shows "honest s (status = 0, s') \<and> status \<in> {0, 1}"
proof -
  have fine: "honest s (True, t)" "honest s (False, reportError m t)" if "cp_err t = cp_err s" for t m
    using that honest_ok honest_error by blast+
  show ?thesis using assms fine by (auto simp: linkObjects_def Let_def split: option.splits prod.splits if_splits)
qed

lemma buildAll_honest:
  assumes "buildAll ho ll ub opts s = Some (status, s')"
  shows "honest s (status = 0, s') \<and> status \<in> {0, 1}"
proof -
  obtain ok s1 where c: "compileAll ho ll ub opts (op_sources opts) s = Some (ok, s1)"
    using assms by (auto simp: buildAll_def bind_eq_Some_conv)
  note h = compileAll_honest [OF c]
  show ?thesis
  proof (cases "ok \<and> op_action opts = A_Link")
    case True
    obtain st s2 where l: "linkObjects ho (cp_objects s1) opts s1 = (st, s2)" by (cases "linkObjects ho (cp_objects s1) opts s1")
    hence "status = st" "cp_err s' = cp_err s2" using assms c True by (auto simp: buildAll_def Let_def)
    thus ?thesis using linkObjects_honest [OF l] h True by (auto simp: honest_def)
  next
    case False
    hence "status = (if ok then 0 else 1)" "cp_err s' = cp_err s1" using assms c by (auto simp: buildAll_def Let_def)
    thus ?thesis using h by (auto simp: honest_def)
  qed
qed

lemma run_honest:
  assumes "run ho ll ub opts w = Some (status, s')"
  shows "status \<in> {0, 1} \<and> (status = 0 \<longleftrightarrow> cp_err s' = [])"
proof -
  have r: "honest s (status = 0, s') \<and> status \<in> {0, 1}" if "runCompilation ho ll ub opts s = Some (status, s')" for s
    using that
    by (auto simp: runCompilation_def Let_def split: if_splits sum.splits dest!: buildAll_honest)
      (auto simp: honest_def reportError_def)
  show ?thesis using assms r [of "newCompilation w"]
    by (cases "op_action opts") (auto simp: run_def Let_def print_def newCompilation_def honest_def)
qed

section \<open>Files\<close>

text \<open>
  What the driver needs of the operating system for its files: \<open>files\<close> are the names in use.
  Opening a file for output and a temporary file may add its name; the linker adds its last
  argument, which follows \<open>-o\<close>.
\<close>

locale file_system =
  fixes ho :: "('w, 'h, 'g, 't, 'm) host" and files :: "'w \<Rightarrow> string set"
  assumes init_law: "files (ho_initialize ho p w) \<subseteq> files w"
    and read_law: "files (snd (ho_read ho x w)) \<subseteq> files w"
    and temporary_law: "ho_temporary ho x e w = (r, w') \<Longrightarrow> files w' \<subseteq> (case r of Inl ec \<Rightarrow> files w | Inr t \<Rightarrow> insert t (files w))"
    and open_law: "files (snd (ho_open ho x b w)) \<subseteq> insert x (files w)"
    and write_law: "files (ho_write ho h c w) \<subseteq> files w"
    and flush_law: "files (ho_flush ho h w) \<subseteq> files w"
    and close_law: "files (ho_close ho h w) \<subseteq> files w"
    and remove_law: "files (ho_remove ho x w) \<subseteq> files w - {x}"
    and linker_law: "files (snd (ho_execute ho cc args w)) \<subseteq> insert (last args) (files w)"

text \<open>All new files are temporary ones that the state knows of.\<close>

definition tidy :: "('w \<Rightarrow> string set) \<Rightarrow> string set \<Rightarrow> ('w, 't) compilation \<Rightarrow> bool" where
  "tidy files F s \<longleftrightarrow> files (cp_world s) \<subseteq> F \<union> set (cp_temporaries s)"

context file_system
begin

lemma closing_files: "closing ho h (r, w) = Some (r', w') \<Longrightarrow> files w' \<subseteq> files w"
  using close_law by (auto simp: closing_def Let_def split: if_splits)

lemma emit_files:
  assumes "emitModule ho m machine kind path w = Some (r, w')"
  shows "files w' \<subseteq> insert path (files w)"
proof -
  obtain q w1 where o: "ho_open ho path (kind = OutLLVMText \<or> kind = OutAssembly) w = (q, w1)"
    by (cases "ho_open ho path (kind = OutLLVMText \<or> kind = OutAssembly) w")
  hence f1: "files w1 \<subseteq> insert path (files w)" using open_law by (metis snd_conv)
  have "files w' \<subseteq> files w1"
  proof (cases q)
    case (Inl ec)
    thus ?thesis using assms o by (simp add: emitModule_def)
  next
    case (Inr out)
    have "files (ho_flush ho out (ho_write ho out c w1)) \<subseteq> files w1" for c using flush_law write_law by blast
    thus ?thesis using assms o Inr
      by (auto simp: emitModule_def Let_def split: output_kind.splits if_splits dest!: closing_files)
  qed
  thus ?thesis using f1 by blast
qed

lemma outputFor_files:
  assumes "op_action opts = A_Link" "outputFor ho opts path s = ((kind, out), s')" "tidy files F s"
  shows "tidy files F s' \<and> (\<forall>x. out = Some x \<longrightarrow> x \<in> set (cp_temporaries s'))"
proof (cases "ho_temporary ho ''jiac'' ''o'' (cp_world s)")
  case (Pair r w)
  have l: "files w \<subseteq> (case r of Inl ec \<Rightarrow> files (cp_world s) | Inr t \<Rightarrow> insert t (files (cp_world s)))" by (rule temporary_law [OF Pair])
  show ?thesis
  proof (cases r)
    case (Inl ec)
    hence "cp_world s' = w" "cp_temporaries s' = cp_temporaries s" "out = None"
      using assms(1,2) Pair by (auto simp: outputFor_def reportError_def)
    thus ?thesis using l Inl assms(3) by (auto simp: tidy_def)
  next
    case (Inr t)
    hence "cp_world s' = w" "cp_temporaries s' = cp_temporaries s @ [t]" "out = Some t"
      using assms(1,2) Pair by (auto simp: outputFor_def)
    thus ?thesis using l Inr assms(3) by (auto simp: tidy_def)
  qed
qed

lemma tidy_world: "tidy files F s \<Longrightarrow> files w \<subseteq> insert x (files (cp_world s)) \<Longrightarrow> x \<in> set (cp_temporaries s) \<or> x \<in> F \<Longrightarrow>
    tidy files F (s\<lparr>cp_world := w\<rparr>)"
  by (auto simp: tidy_def)

lemma writeModule_files:
  assumes "op_action opts = A_Link" "writeModule ho opts path m s = Some (ok, s')" "tidy files F s"
  shows "tidy files F s'"
  using assms(2)
proof (cases rule: writeModule_cases)
  case (none kind)
  thus ?thesis using outputFor_files assms(1,3) by blast
next
  case (error kind out s1 m' machine e w)
  have "tidy files F s1" "out \<in> set (cp_temporaries s1)" using outputFor_files [OF assms(1) error(1) assms(3)] by simp_all
  hence "tidy files F (s1\<lparr>cp_world := w\<rparr>)" using tidy_world emit_files [OF error(2)] by blast
  thus ?thesis using error(4) by (simp add: tidy_def reportError_def)
next
  case (written kind out s1 m' machine u w)
  have "tidy files F s1" "out \<in> set (cp_temporaries s1)" using outputFor_files [OF assms(1) written(1) assms(3)] by simp_all
  thus ?thesis using tidy_world emit_files [OF written(2)] written(4) by blast
qed

lemma compile_files:
  assumes "op_action opts = A_Link" "compile ho ll ub opts path s = Some (ok, s')" "tidy files F s"
  shows "tidy files F s'"
proof (cases "ho_read ho path (cp_world s)")
  case (Pair r w)
  have "files w \<subseteq> files (cp_world s)" using read_law [of path "cp_world s"] Pair by simp
  hence t: "tidy files F (s\<lparr>cp_world := w\<rparr>)" using assms(3) by (auto simp: tidy_def)
  show ?thesis
  proof (cases r)
    case (Inl ec)
    thus ?thesis using assms(2) Pair t by (auto simp: compile_def reportError_def tidy_def)
  next
    case (Inr source)
    hence c: "compileText ho ll ub opts path source (s\<lparr>cp_world := w\<rparr>) = Some (ok, s')"
      using assms(2) Pair by (simp add: compile_def)
    show ?thesis
    proof (cases "frontEnd ub source")
      case (Inl ds)
      thus ?thesis using c t assms(1) by (auto simp: compileText_def report_def tidy_def)
    next
      case (Inr tu)
      then obtain res where "generateModule ll ub tu path = Some res"
        "(case res of Inl ds \<Rightarrow> Some (False, report ds path source (s\<lparr>cp_world := w\<rparr>))
          | Inr m \<Rightarrow> writeModule ho opts path m (s\<lparr>cp_world := w\<rparr>)) = Some (ok, s')"
        using c assms(1) by (auto simp: compileText_def bind_eq_Some_conv)
      thus ?thesis using t writeModule_files [OF assms(1) _ t] by (cases res) (auto simp: report_def tidy_def)
    qed
  qed
qed

lemma compileAll_files:
  "op_action opts = A_Link \<Longrightarrow> compileAll ho ll ub opts sources s = Some (ok, s') \<Longrightarrow> tidy files F s \<Longrightarrow> tidy files F s'"
proof (induction sources arbitrary: s ok)
  case (Cons source sources)
  then obtain a s1 b where "compile ho ll ub opts source s = Some (a, s1)" "compileAll ho ll ub opts sources s1 = Some (b, s')"
    by (auto simp: bind_eq_Some_conv)
  thus ?case using compile_files Cons.IH Cons.prems by blast
qed simp

lemma removed_files: "files (fold (ho_remove ho) ts w) \<subseteq> files w - set ts"
proof (induction ts arbitrary: w)
  case (Cons t ts)
  show ?case using Cons [of "ho_remove ho t w"] remove_law [of t w] by auto
qed simp

lemma initialized_files: "files (fold (ho_initialize ho) ps w) \<subseteq> files w"
proof (induction ps arbitrary: w)
  case (Cons p ps)
  show ?case using Cons [of "ho_initialize ho p w"] init_law [of p w] by auto
qed simp

lemma linkObjects_files:
  assumes "linkObjects ho objects opts s = (status, s')"
  shows "files (cp_world s') \<subseteq> insert (linkOutput opts) (files (cp_world s)) \<and> cp_temporaries s' = cp_temporaries s"
proof -
  have x: "files w \<subseteq> insert (last args) (files (cp_world s))" if "ho_execute ho cc args (cp_world s) = (q, w)" for cc args q w
    using linker_law [of cc args "cp_world s"] that by simp
  consider "cp_world s' = cp_world s" "cp_temporaries s' = cp_temporaries s"
    | cc args q w where "ho_execute ho cc (args @ [linkOutput opts]) (cp_world s) = (q, w)" "cp_world s' = w"
        "cp_temporaries s' = cp_temporaries s"
  proof (cases "ho_findProgram ho (ccName ho s) (cp_world s)")
    case None
    thus thesis using that(1) assms by (auto simp: linkObjects_def Let_def reportError_def)
  next
    case (Some cc)
    let ?args = "[ccName ho s] @ objects @ op_linkerInputs opts @ [''-o'']"
    obtain q w where e: "ho_execute ho cc (?args @ [linkOutput opts]) (cp_world s) = (q, w)"
      by (cases "ho_execute ho cc (?args @ [linkOutput opts]) (cp_world s)")
    have "cp_world s' = w" "cp_temporaries s' = cp_temporaries s"
      using assms Some e by (cases q; auto simp: linkObjects_def Let_def reportError_def split: if_splits)+
    thus thesis using that(2) e by blast
  qed
  thus ?thesis
  proof cases
    case (2 cc args q w)
    thus ?thesis using x [OF 2(1)] by simp
  qed auto
qed

lemma buildAll_files:
  assumes "op_action opts = A_Link" "buildAll ho ll ub opts s = Some (status, s')" "tidy files F s"
  shows "files (cp_world s') \<subseteq> insert (linkOutput opts) F"
proof -
  obtain ok s1 where c: "compileAll ho ll ub opts (op_sources opts) s = Some (ok, s1)"
    using assms(2) by (auto simp: buildAll_def bind_eq_Some_conv)
  have t: "files (cp_world s1) \<subseteq> F \<union> set (cp_temporaries s1)" using compileAll_files [OF assms(1) c assms(3)] by (simp add: tidy_def)
  obtain st s2 where l: "linkObjects ho (cp_objects s1) opts s1 = (st, s2)" by (cases "linkObjects ho (cp_objects s1) opts s1")
  define s3 where "s3 = (if ok then s2 else s1)"
  have w: "cp_world s' = fold (ho_remove ho) (cp_temporaries s3) (cp_world s3)"
    using assms(1,2) c l by (auto simp: buildAll_def Let_def s3_def)
  have s3: "files (cp_world s3) \<subseteq> insert (linkOutput opts) (files (cp_world s1))"
    "cp_temporaries s3 = cp_temporaries s1"
    using linkObjects_files [OF l] subset_insertI [of "files (cp_world s1)" "linkOutput opts"] by (cases ok; simp add: s3_def)+
  have "files (cp_world s') \<subseteq> files (cp_world s3) - set (cp_temporaries s1)"
    using removed_files [of "cp_temporaries s3" "cp_world s3"] s3(2) by (simp add: w)
  thus ?thesis using t s3(1) by auto
qed

lemma run_files:
  assumes "op_action opts = A_Link" "run ho ll ub opts w = Some (status, s')"
  shows "files (cp_world s') \<subseteq> insert (linkOutput opts) (files w)"
proof -
  let ?s = "(newCompilation w)\<lparr>cp_world := initializeTargets ho w\<rparr>"
  have i: "files (initializeTargets ho w) \<subseteq> files w" using initialized_files unfolding initializeTargets_def .
  hence t: "tidy files (files w) (?s\<lparr>cp_machine := m\<rparr>)" for m by (simp add: tidy_def newCompilation_def)
  have "runCompilation ho ll ub opts (newCompilation w) = Some (status, s')" using assms by (simp add: run_def)
  hence "s' = reportError ''no input files'' (newCompilation w) \<or> (\<exists>e. s' = reportError e ?s) \<or>
      (\<exists>m. buildAll ho ll ub opts (?s\<lparr>cp_machine := m\<rparr>) = Some (status, s'))"
    using assms(1) by (auto simp: runCompilation_def needsBackend_def Let_def newCompilation_def split: if_splits sum.splits)
  thus ?thesis
  proof (elim disjE exE)
    fix m assume "buildAll ho ll ub opts (?s\<lparr>cp_machine := m\<rparr>) = Some (status, s')"
    thus ?thesis by (rule buildAll_files [OF assms(1) _ t])
  qed (use i in \<open>auto simp: reportError_def newCompilation_def\<close>)
qed

end

section \<open>The run ends\<close>

text \<open>
  Texts that the code generator can translate: those the front end rejects and those in which no
  global is named in its own initializer; and texts in which the symbols do not run out.
\<close>

definition fineText :: "(fp \<Rightarrow> i64) \<Rightarrow> string \<Rightarrow> bool" where
  "fineText ub source \<longleftrightarrow> (case frontEnd ub source of Inl ds \<Rightarrow> True | Inr tu \<Rightarrow> list_all selfFree (tu_decls tu))"

definition fewSymbols :: "(fp \<Rightarrow> i64) \<Rightarrow> string \<Rightarrow> bool" where
  "fewSymbols ub source \<longleftrightarrow>
     (case frontEnd ub source of Inl ds \<Rightarrow> True | Inr tu \<Rightarrow> length (declIds {} (tu_decls tu)) \<le> 2 ^ 32)"

lemma fine_generates:
  assumes "llvm_laws ll parent blocks" "fewSymbols ub source" "frontEnd ub source = Inr tu"
  shows "generateModule ll ub tu x \<noteq> None \<longleftrightarrow> fineText ub source"
proof -
  obtain toks tu0 where g: "gUnit ub (butlast toks) (tu_decls tu0)" and a: "analyze ub tu0 = Inr tu"
    by (rule frontEnd_accepted [OF assms(3)])
  have "length (declIds {} (tu_decls tu)) \<le> 2 ^ 32" using assms(2,3) by (simp add: fewSymbols_def)
  thus ?thesis using llvm_laws.unit_generates [OF assms(1) gUnit_parsed [OF g] gUnit_plain [OF g] a, of x] assms(3)
    by (cases "list_all selfFree (tu_decls tu)") (auto simp: generateModule_def fineText_def)
qed

text \<open>The state has a target machine when it needs one.\<close>

definition ready :: "options \<Rightarrow> ('w, 't) compilation \<Rightarrow> bool" where
  "ready opts s \<longleftrightarrow> (needsBackend opts \<longrightarrow> cp_machine s \<noteq> None)"

lemma ready_simps [simp]:
  "ready opts (s\<lparr>cp_world := w\<rparr>) = ready opts s" "ready opts (reportError m s) = ready opts s"
  "ready opts (report ds path source s) = ready opts s" "ready opts (print t s) = ready opts s"
  by (simp_all add: ready_def reportError_def report_def print_def)

text \<open>
  What a run meets that can keep it from ending, in the worlds it goes through: the text of each source
  that it reads, and of each output stream whether an error is pending when it is closed.
\<close>

datatype incident = ReadText string | ClosedStream bool

fun harmless :: "(fp \<Rightarrow> i64) \<Rightarrow> incident \<Rightarrow> bool" where
  "harmless ub (ReadText source) \<longleftrightarrow> fineText ub source"
| "harmless ub (ClosedStream error) \<longleftrightarrow> \<not> error"

definition emitIncidents :: "('w, 'h, 'g, 't, 'm) host \<Rightarrow> 'm \<Rightarrow> 't \<Rightarrow> output_kind \<Rightarrow> string \<Rightarrow> 'w \<Rightarrow> incident list" where
  "emitIncidents ho m machine kind path w =
     (case ho_open ho path (kind = OutLLVMText \<or> kind = OutAssembly) w of
        (Inl ec, w) \<Rightarrow> []
      | (Inr out, w) \<Rightarrow>
          (let fileType = (if kind = OutObject then ObjectFile else AssemblyFile);
               write = (\<lambda>c. ho_flush ho out (ho_write ho out c w));
               w' = (case kind of
                  OutLLVMText \<Rightarrow> write (PrintModule m)
                | OutBitcode \<Rightarrow> write (WriteBitcode m)
                | _ \<Rightarrow> if ho_cannotEmit ho machine fileType then w else write (RunEmitter machine fileType m))
           in [ClosedStream (ho_hasError ho out (ho_close ho out w'))]))"

definition writeIncidents :: "('w, 'h, 'g, 't, 'm) host \<Rightarrow> options \<Rightarrow> string \<Rightarrow> 'm \<Rightarrow> ('w, 't) compilation \<Rightarrow> incident list" where
  "writeIncidents ho opts path m s =
     (case (cp_machine s, outputFor ho opts path s) of
        (Some machine, (kind, Some out), s) \<Rightarrow>
          emitIncidents ho (optimize ho (configureModule ho m machine) machine (op_optLevel opts)) machine kind out (cp_world s)
      | _ \<Rightarrow> [])"

definition compileIncidents :: "('w, 'h, 'g, 't, 'm) host \<Rightarrow> ('v, 'm) llvm \<Rightarrow> (fp \<Rightarrow> i64) \<Rightarrow> options \<Rightarrow> string \<Rightarrow>
    ('w, 't) compilation \<Rightarrow> incident list" where
  "compileIncidents ho ll ub opts path s =
     (case ho_read ho path (cp_world s) of
        (Inl ec, w) \<Rightarrow> []
      | (Inr source, w) \<Rightarrow> ReadText source #
          (case frontEnd ub source of
             Inl ds \<Rightarrow> []
           | Inr tu \<Rightarrow> (case generateModule ll ub tu path of
               Some (Inr m) \<Rightarrow> writeIncidents ho opts path m (s\<lparr>cp_world := w\<rparr>)
             | _ \<Rightarrow> [])))"

fun incidents :: "('w, 'h, 'g, 't, 'm) host \<Rightarrow> ('v, 'm) llvm \<Rightarrow> (fp \<Rightarrow> i64) \<Rightarrow> options \<Rightarrow> string list \<Rightarrow>
    ('w, 't) compilation \<Rightarrow> incident list" where
  "incidents ho ll ub opts [] s = []"
| "incidents ho ll ub opts (path # paths) s = compileIncidents ho ll ub opts path s @
     (case compile ho ll ub opts path s of None \<Rightarrow> [] | Some (ok, s) \<Rightarrow> incidents ho ll ub opts paths s)"

lemma newCompilation_world [simp]: "cp_world (newCompilation w) = w"
  by (simp add: newCompilation_def)

text \<open>The incidents of a run that compiles, from the state in which its first source is compiled.\<close>

definition runIncidents :: "('w, 'h, 'g, 't, 'm) host \<Rightarrow> ('v, 'm) llvm \<Rightarrow> (fp \<Rightarrow> i64) \<Rightarrow> options \<Rightarrow> 'w \<Rightarrow> incident list" where
  "runIncidents ho ll ub opts w =
     (if needsBackend opts then
        (let s = (newCompilation w)\<lparr>cp_world := initializeTargets ho w\<rparr> in
         case createTargetMachine ho (op_targetTriple opts) (op_optLevel opts) (cp_world s) of
           Inl error \<Rightarrow> []
         | Inr machine \<Rightarrow> incidents ho ll ub opts (op_sources opts) (s\<lparr>cp_machine := Some machine\<rparr>))
      else [])"

definition readsFew :: "(fp \<Rightarrow> i64) \<Rightarrow> incident list \<Rightarrow> bool" where
  "readsFew ub is \<longleftrightarrow> list_all (\<lambda>i. case i of ReadText source \<Rightarrow> fewSymbols ub source | ClosedStream error \<Rightarrow> True) is"

lemma readsFew_simps [simp]:
  "readsFew ub []" "readsFew ub (is @ js) \<longleftrightarrow> readsFew ub is \<and> readsFew ub js"
  "readsFew ub (ReadText source # is) \<longleftrightarrow> fewSymbols ub source \<and> readsFew ub is"
  by (auto simp: readsFew_def)

lemma emit_returns:
  "emitModule ho m machine kind path w \<noteq> None \<longleftrightarrow> list_all (harmless ub) (emitIncidents ho m machine kind path w)"
proof -
  have c: "closing ho h p = None \<longleftrightarrow> ho_hasError ho h (ho_close ho h (snd p))" for h p
    by (simp add: closing_def Let_def split: prod.split)
  obtain r v where o: "ho_open ho path (kind = OutLLVMText \<or> kind = OutAssembly) w = (r, v)"
    by (cases "ho_open ho path (kind = OutLLVMText \<or> kind = OutAssembly) w")
  show ?thesis
    using o by (cases r; cases kind) (simp_all add: emitModule_def emitIncidents_def Let_def c del: not_None_eq)
qed

lemma writeModule_returns:
  assumes "needsBackend opts" "ready opts s"
  shows "writeModule ho opts path m s \<noteq> None \<longleftrightarrow> list_all (harmless ub) (writeIncidents ho opts path m s)"
proof -
  obtain machine where machine: "cp_machine s = Some machine" using assms(1,2) by (auto simp: ready_def)
  let ?m = "optimize ho (configureModule ho m machine) machine (op_optLevel opts)"
  show ?thesis
  proof (cases rule: outputFor_cases [of ho opts path s])
    case (path kind out s1)
    show ?thesis using machine path emit_returns [of ho ?m machine kind out "cp_world s1" ub]
      by (cases "emitModule ho ?m machine kind out (cp_world s1)")
        (simp_all add: writeModule_def writeIncidents_def Let_def split: prod.split)
  next
    case (none kind e s1)
    thus ?thesis using machine by (simp add: writeModule_def writeIncidents_def)
  qed
qed

lemma writeModule_ready:
  assumes "writeModule ho opts path m s = Some (ok, s')" "ready opts s"
  shows "ready opts s'"
proof (cases rule: outputFor_cases [of ho opts path s])
  case (path kind out s1)
  hence "ready opts s1" using assms(2) by (simp add: ready_def)
  moreover obtain r :: "string + unit" and v where "(case r of Inl e \<Rightarrow> (False, reportError e (s1\<lparr>cp_world := v\<rparr>)) | Inr u \<Rightarrow> (True, s1\<lparr>cp_world := v\<rparr>)) = (ok, s')"
    using assms(1) path by (auto simp: writeModule_def Let_def bind_eq_Some_conv)
  ultimately show ?thesis by (cases r) auto
next
  case (none kind e s1)
  thus ?thesis using assms by (auto simp: writeModule_def ready_def reportError_def Let_def bind_eq_Some_conv)
qed

lemma compileText_ready:
  assumes "compileText ho ll ub opts path source s = Some (ok, s')" "ready opts s"
  shows "ready opts s'"
proof (cases "frontEnd ub source")
  case (Inl ds)
  thus ?thesis using assms by (auto simp: compileText_def dumpTokens_def split: if_split_asm sum.split_asm)
next
  case (Inr tu)
  show ?thesis
  proof (cases "needsBackend opts")
    case True
    then obtain res where g: "(case res of Inl ds \<Rightarrow> Some (False, report ds path source s) | Inr m \<Rightarrow> writeModule ho opts path m s) = Some (ok, s')"
      using assms(1) Inr by (auto simp: compileText_def needsBackend_def bind_eq_Some_conv)
    thus ?thesis using assms(2) writeModule_ready by (cases res) auto
  qed (simp add: ready_def)
qed

lemma compile_ready:
  assumes "compile ho ll ub opts path s = Some (ok, s')" "ready opts s"
  shows "ready opts s'"
  using assms by (auto simp: compile_def dest!: compileText_ready split: prod.split_asm sum.split_asm)

lemma compile_returns:
  assumes "llvm_laws ll parent blocks" "needsBackend opts" "ready opts s" "readsFew ub (compileIncidents ho ll ub opts path s)"
  shows "compile ho ll ub opts path s \<noteq> None \<longleftrightarrow>
    list_all (harmless ub) (compileIncidents ho ll ub opts path s)"
proof (cases "ho_read ho path (cp_world s)")
  case (Pair r w)
  show ?thesis
  proof (cases r)
    case (Inl ec)
    thus ?thesis using Pair by (simp add: compile_def compileIncidents_def)
  next
    case source: (Inr source)
    let ?s = "s\<lparr>cp_world := w\<rparr>"
    have few: "fewSymbols ub source" using assms(4) Pair source by (simp add: compileIncidents_def)
    have a: "op_action opts \<noteq> A_DumpTokens" "op_action opts \<noteq> A_SyntaxOnly" "op_action opts \<noteq> A_DumpAst"
      using assms(2) by (auto simp: needsBackend_def)
    show ?thesis
    proof (cases "frontEnd ub source")
      case (Inl ds)
      thus ?thesis using Pair source a by (simp add: compile_def compileText_def compileIncidents_def fineText_def)
    next
      case (Inr tu)
      note g = fine_generates [OF assms(1) few Inr, of path]
      show ?thesis
      proof (cases "generateModule ll ub tu path")
        case None
        thus ?thesis using g Pair source a Inr by (simp add: compile_def compileText_def compileIncidents_def)
      next
        case (Some res)
        have "writeModule ho opts path m ?s \<noteq> None \<longleftrightarrow> list_all (harmless ub) (writeIncidents ho opts path m ?s)" for m
          using writeModule_returns [OF assms(2), of ?s] assms(3) by simp
        thus ?thesis using Some g Pair source a Inr
          by (cases res) (simp_all add: compile_def compileText_def compileIncidents_def)
      qed
    qed
  qed
qed

lemma compileAll_returns:
  assumes "llvm_laws ll parent blocks" "needsBackend opts"
  shows "ready opts s \<Longrightarrow> readsFew ub (incidents ho ll ub opts sources s) \<Longrightarrow>
    compileAll ho ll ub opts sources s \<noteq> None \<longleftrightarrow>
    list_all (harmless ub) (incidents ho ll ub opts sources s)"
proof (induction sources arbitrary: s)
  case (Cons path sources)
  have c: "compile ho ll ub opts path s \<noteq> None \<longleftrightarrow>
      list_all (harmless ub) (compileIncidents ho ll ub opts path s)"
    by (rule compile_returns [OF assms Cons.prems(1)]) (use Cons.prems(2) in simp)
  show ?case
  proof (cases "compile ho ll ub opts path s")
    case None
    thus ?thesis using c by auto
  next
    case (Some p)
    obtain a s1 where p: "p = (a, s1)" by (cases p)
    have "compileAll ho ll ub opts sources s1 \<noteq> None \<longleftrightarrow>
        list_all (harmless ub) (incidents ho ll ub opts sources s1)"
      by (rule Cons.IH [OF compile_ready [OF _ Cons.prems(1)]]) (use Some p Cons.prems(2) in simp_all)
    thus ?thesis using c Some p by (cases "compileAll ho ll ub opts sources s1") (simp_all split: prod.split)
  qed
qed simp

text \<open>Without the back end nothing can keep a compilation from ending.\<close>

lemma compileAll_front:
  assumes "\<not> needsBackend opts" "op_action opts \<noteq> A_Help" "op_action opts \<noteq> A_Version"
  shows "compileAll ho ll ub opts sources s \<noteq> None"
proof (induction sources arbitrary: s)
  case (Cons path sources)
  have a: "op_action opts = A_DumpTokens \<or> op_action opts = A_SyntaxOnly \<or> op_action opts = A_DumpAst"
    using assms by (cases "op_action opts") (simp_all add: needsBackend_def)
  have t: "compileText ho ll ub opts path source t \<noteq> None" for source t
    using a by (auto simp: compileText_def dumpTokens_def split: sum.split)
  obtain r where "compile ho ll ub opts path s = Some r"
    using t by (cases "compile ho ll ub opts path s") (auto simp: compile_def simp del: not_None_eq split: prod.splits sum.splits)
  thus ?case using Cons.IH by (cases r; cases "compileAll ho ll ub opts sources (snd r)") (auto simp del: not_None_eq)
qed simp

lemma run_ends:
  assumes "llvm_laws ll parent blocks" "readsFew ub (runIncidents ho ll ub opts w)"
  shows "run ho ll ub opts w \<noteq> None \<longleftrightarrow> list_all (harmless ub) (runIncidents ho ll ub opts w)"
proof (cases "op_action opts = A_Help \<or> op_action opts = A_Version")
  case True
  thus ?thesis by (auto simp: run_def Let_def runIncidents_def needsBackend_def)
next
  case False
  hence r: "run ho ll ub opts w = runCompilation ho ll ub opts (newCompilation w)"
    by (cases "op_action opts") (simp_all add: run_def Let_def)
  have b: "buildAll ho ll ub opts s \<noteq> None \<longleftrightarrow> compileAll ho ll ub opts (op_sources opts) s \<noteq> None" for s
    by (cases "compileAll ho ll ub opts (op_sources opts) s") (auto simp: buildAll_def split: prod.split)
  show ?thesis
  proof (cases "needsBackend opts")
    case no_back: False
    hence "buildAll ho ll ub opts s \<noteq> None" for s using b compileAll_front [OF no_back] False by blast
    thus ?thesis using r no_back by (simp add: runCompilation_def runIncidents_def)
  next
    case True
    let ?s = "(newCompilation w)\<lparr>cp_world := initializeTargets ho w\<rparr>"
    show ?thesis
    proof (cases "createTargetMachine ho (op_targetTriple opts) (op_optLevel opts) (initializeTargets ho w)")
      case (Inl error)
      thus ?thesis using r True by (simp add: runCompilation_def runIncidents_def Let_def)
    next
      case (Inr machine)
      let ?m = "?s\<lparr>cp_machine := Some machine\<rparr>"
      have i: "runIncidents ho ll ub opts w = incidents ho ll ub opts (op_sources opts) ?m"
        using True Inr by (simp add: runIncidents_def Let_def)
      have "ready opts ?m" by (simp add: ready_def)
      hence c: "buildAll ho ll ub opts ?m \<noteq> None \<longleftrightarrow> list_all (harmless ub) (incidents ho ll ub opts (op_sources opts) ?m)"
        using b compileAll_returns [OF assms(1) True] assms(2) i by simp
      show ?thesis
      proof (cases "op_sources opts = [] \<and> op_linkerInputs opts = []")
        case True
        thus ?thesis using r i by (simp add: runCompilation_def)
      next
        case False
        thus ?thesis using c r i True Inr by (simp add: runCompilation_def Let_def)
      qed
    qed
  qed
qed

section \<open>Checking only\<close>

text \<open>
  The report on a source, when it is read in the world \<open>w\<close>: that it cannot be opened, or the
  diagnostics of the front end, and whether it is accepted.
\<close>

definition reportsOn :: "('w, 'h, 'g, 't, 'm) host \<Rightarrow> (fp \<Rightarrow> i64) \<Rightarrow> 'w \<Rightarrow> string \<Rightarrow> string" where
  "reportsOn ho ub w path =
     (case fst (ho_read ho path w) of
        Inl ec \<Rightarrow> ''jiac: error: cannot open '' @ quoted_text path @ '': '' @ ec @ [newline]
      | Inr source \<Rightarrow> (case frontEnd ub source of Inl ds \<Rightarrow> concat (map (\<lambda>d. render d path source) ds) | Inr tu \<Rightarrow> []))"

definition acceptedIn :: "('w, 'h, 'g, 't, 'm) host \<Rightarrow> (fp \<Rightarrow> i64) \<Rightarrow> 'w \<Rightarrow> string \<Rightarrow> bool" where
  "acceptedIn ho ub w path \<longleftrightarrow>
     (case fst (ho_read ho path w) of
        Inl ec \<Rightarrow> False
      | Inr source \<Rightarrow> (case frontEnd ub source of Inl ds \<Rightarrow> False | Inr tu \<Rightarrow> True))"

lemma compileAll_syntax:
  assumes "op_action opts = A_SyntaxOnly"
  shows "(\<And>path. path \<in> set sources \<Longrightarrow> snd (ho_read ho path w) = w) \<Longrightarrow> cp_world s = w \<Longrightarrow>
    compileAll ho ll ub opts sources s =
     Some (\<forall>path \<in> set sources. acceptedIn ho ub w path,
           s\<lparr>cp_err := cp_err s @ concat (map (reportsOn ho ub w) sources)\<rparr>)"
proof (induction sources arbitrary: s)
  case (Cons path sources)
  have "compile ho ll ub opts path s = Some (acceptedIn ho ub w path, s\<lparr>cp_err := cp_err s @ reportsOn ho ub w path\<rparr>)"
    using assms Cons.prems(1) [of path] Cons.prems(2)
    by (cases "ho_read ho path w")
      (auto simp: compile_def compileText_def reportsOn_def acceptedIn_def report_def reportError_def split: sum.split)
  thus ?case using Cons.IH [of "s\<lparr>cp_err := cp_err s @ reportsOn ho ub w path\<rparr>"] Cons.prems by simp
qed simp

end
