(* ===== verification/Spec2Isabelle.thy ===== *)
theory Spec2Isabelle
  imports LexCorrect LiteralSpec Types ConstEval SemaProps ParseProps DumpProps Options CodeProps DriverCorrect
begin

text \<open>
  A verification of the jiaLANG compiler \<open>jiac\<close>, a compiler for a small subset of C written in C++23
  with LLVM as its back end. All of the compiler under \<open>lib/\<close>, \<open>include/\<close> and \<open>tools/\<close> is modelled.

  The parts of the program. \<open>main\<close> (\<open>tools/jiac/jiac.cpp\<close>) parses the command line and runs the
  driver. For each source the driver reads the file and calls the front end, which is the composition
  of three pure functions: \<open>lex\<close> turns the text into tokens, \<open>parse\<close> the tokens into a tree, and
  \<open>analyze\<close> checks and annotates the tree. Each returns its result or a list of diagnostics, which the
  driver renders. The annotated tree then goes to \<open>generateModule\<close>, and the module to the back end,
  which optimizes and writes it; at the end the objects are linked.

  The theories, in that order, with what they model. All line references are in the manifest.

  \<^item> \<open>Prelude\<close>: machine words, bytes, and lemmas on lists and words that the other theories share.
  \<^item> \<open>Diagnostics\<close> (\<open>lib/Basic\<close>): locations, diagnostics, \<open>Result\<close> as the sum of the diagnostics and
    the value, \<open>render\<close>.
  \<^item> \<open>Tokens\<close> (\<open>include/jia/Lex\<close>) and \<open>Lexer\<close> (\<open>lib/Lex/Lexer.cpp\<close>): the token table; the lexer as a
    record of its members, with one function for each member function. \<open>LexSpec\<close> states the lexical
    grammar without the lexer, \<open>LexCorrect\<close> relates the two.
  \<^item> \<open>Literal\<close> (\<open>lib/Lex/Literal.cpp\<close>) and \<open>ASTDumper\<close> (\<open>quote\<close>); \<open>LiteralSpec\<close> has the grammars of
    the literals and what they mean. \<open>Floats\<close> has IEEE 754 numbers with correctly rounded operations,
    and \<open>FloatText\<close> the shortest text that \<open>std::format\<close> prints for one.
  \<^item> \<open>Types\<close> (\<open>lib/AST/Type.cpp\<close>), \<open>AST\<close> (\<open>AST.h\<close>), \<open>ConstEval\<close> (\<open>lib/AST/ConstEval.cpp\<close>), \<open>Dump\<close>
    and \<open>DumpProps\<close> (\<open>lib/AST/ASTDumper.cpp\<close>). Types are unique pointers in the code; \<open>Types\<close> proves
    that, so all other theories use their structure, on which equality is that of the pointers.
  \<^item> \<open>Parser\<close> and \<open>ParserStmt\<close> (\<open>lib/Parse/Parser.cpp\<close>): every member function, on the state of the
    tokens, the position and the diagnostics. \<open>ParseSpec\<close> is the grammar, with the tree that each
    phrase stands for; \<open>ParseRun\<close>, \<open>ParseExpr\<close>, \<open>ParseInit\<close>, \<open>ParseBlock\<close> and \<open>ParseCorrect\<close> prove that
    the parser ends and that what it returns derives from what it consumed; \<open>ParseFirst\<close>,
    \<open>ParseAccepts\<close>, \<open>ParseDeclares\<close> and \<open>ParseUnits\<close> prove that it accepts every sentence;
    \<open>ParseProps\<close> has the properties. Where the grammar of the manual leaves a choice (an \<open>else\<close> after
    two \<open>if\<close>s, \<open>sizeof (\<close> before a type, parentheses in a parameter) \<open>ParseSpec\<close> has the parser's.
  \<^item> \<open>Sema\<close> and \<open>SemaStmt\<close> (\<open>lib/Sema/Sema.cpp\<close>): every member function; where the code changes a node
    in place, the function returns the new node. \<open>SemaTypes\<close> has the typing judgement of annotated
    trees, \<open>SemaElab\<close> what may change in a tree, \<open>SemaWf\<close> what a whole unit promises, \<open>SemaCorrect\<close> the
    proof that \<open>analyze\<close> keeps these, and \<open>SemaProps\<close> the properties.
  \<^item> \<open>CodeGen\<close> (\<open>lib/CodeGen/CodeGen.cpp\<close>): every member function of \<open>ModuleBuilder\<close>. \<open>CodeRun\<close> has the
    laws of LLVM that the code relies on (the locale \<open>llvm_laws\<close>) and a calculus for generators;
    \<open>CodeExpr\<close>, \<open>CodeStmt\<close> and \<open>CodeUnit\<close> prove that what \<open>analyze\<close> accepts is generated;
    \<open>CodePlain\<close> proves what they need of the types in a tree, through the grammar and the analyzer;
    \<open>Recorder\<close> is an implementation of the laws; \<open>CodeProps\<close> has the properties.
  \<^item> \<open>Options\<close> (\<open>lib/Driver/Options.cpp\<close>), \<open>Backend\<close> (\<open>lib/Driver/Backend.cpp\<close>) and \<open>Driver\<close>
    (\<open>lib/Driver/Driver.cpp\<close>, \<open>tools/jiac/jiac.cpp\<close>): the command line, the output of a module and
    the pipeline. \<open>DriverCorrect\<close> proves how runs end; the locale \<open>file_system\<close> has what the driver
    relies on for its files. The properties of the whole pipeline are in this theory.

  What is a parameter. \<open>ub\<close> is what the conversion of a \<open>double\<close> outside the range of \<open>std::int64_t\<close>
  gives, which is undefined in C++ and which constant folding can reach. \<open>ll\<close> is LLVM as the code
  generator uses it: a record of a function that answers each request for a value, block, function or
  instruction, and of the queries the code makes; its laws say how requests change blocks, that handles
  of functions and constants stay such, and nothing about the meaning of instructions. \<open>ho\<close> is the
  operating system and the target part of LLVM: reading and writing files, temporary files, programs,
  the environment, targets, passes. Both have an instance, \<open>recorder\<close> and \<open>disk_host\<close>, on which the
  witnesses are computed.

  Errors and undefined behaviour. A failure the code reports is the left part of a sum, or a diagnostic
  in the state. \<open>None\<close> is an outcome that C++ does not define or that ends the process: in the code
  generator a failed assertion, a null pointer that is used or a missing name; in the back end the
  \<open>report_fatal_error\<close> of LLVM. That these do not happen is a claim that is proved where it holds, and
  the exact condition where it does not.

  Fuel. The recursive-descent functions of the parser, which call each other without a smaller
  argument, take fuel. A call needs at most ten units for each token left and its level in the
  hierarchy of the functions, which is at most ten, because every cycle of calls consumes a token; and
  \<open>parse\<close> starts with twenty for each token and twenty more (\<open>enoughFuel\<close>). \<open>parse_terminates\<close> proves that fuel never runs
  out, on correct and on broken token lists, so the bound is not visible in any other statement. All
  other functions are structurally recursive or have a proof of termination.

  What the groups of lemmas show. Lexing and parsing accept exactly the language of the two grammars.
  The front end accepts a text only if it is in the language, returns the elaboration of its tree, numbers its symbols, and reports a place and a reason otherwise; literals
  have the values of their texts; constants are folded as on 32-bit machines, and have no value only where
  an integer is divided by zero or a floating value is out of an integer's range; types are unique and have
  the sizes of C; a dump can be read back. The code generator is defined on every accepted program but
  those with a global that is named in its own initializer, and all its blocks are complete. A run of the
  driver ends exactly when none of its \<open>incidents\<close>, the texts it reads and the streams it closes, keeps
  it from ending; its exit status says whether anything was reported, and it leaves no temporary files.

  Not modelled. The meaning of the generated instructions: there is no semantics of LLVM IR and of Jia
  programs here, so that the module behaves as the program is not stated. Warnings that LLVM prints, and
  errors of the two standard streams. The benchmarks (\<open>bench/jia-bench.cpp\<close>) run and time compilers, and
  the test programs test this one. The analyzer is shown to accept only well-formed units and to reject
  what its properties name, not to accept every well-formed unit.
\<close>

section \<open>An example of a host\<close>

text \<open>
  A disk is the list of its files with their texts, newest first. The target machine does nothing
  and the linker leaves an empty file.
\<close>

type_synonym disk = "(string \<times> string) list"

definition diskFiles :: "disk \<Rightarrow> string set" where
  "diskFiles w = fst ` set w"

definition disk_host :: "(disk, string, unit, unit, log) host" where
  "disk_host =
     \<lparr>ho_initialize = (\<lambda>p w. w), ho_defaultTriple = ''none'', ho_lookupTarget = (\<lambda>t w. Inr ()),
      ho_createMachine = (\<lambda>g t l w. Some ()), ho_machineTriple = (\<lambda>t. []), ho_dataLayout = (\<lambda>t. []),
      ho_setTriple = (\<lambda>t m. m), ho_setDataLayout = (\<lambda>t m. m), ho_passes = (\<lambda>t p m. m), ho_cannotEmit = (\<lambda>t f. False),
      ho_open = (\<lambda>x b w. (Inr x, (x, []) # w)), ho_write = (\<lambda>h c w. w), ho_flush = (\<lambda>h w. w), ho_hasError = (\<lambda>h w. False),
      ho_close = (\<lambda>h w. w),
      ho_read = (\<lambda>x w. (case map_of w x of None \<Rightarrow> Inl ''No such file or directory'' | Some t \<Rightarrow> Inr t, w)),
      ho_temporary = (\<lambda>x e w. let t = x @ dec (length w) @ ''.'' @ e in (Inr t, (t, []) # w)),
      ho_remove = (\<lambda>x w. filter (\<lambda>f. fst f \<noteq> x) w), ho_filename = (\<lambda>x. x), ho_replaceExtension = (\<lambda>x e. x @ ''.'' @ e),
      ho_getenv = (\<lambda>x w. None), ho_findProgram = (\<lambda>x w. Some x),
      ho_execute = (\<lambda>cc args w. ((0, []), (last args, []) # w))\<rparr>"

interpretation disk: file_system disk_host diskFiles
  by unfold_locales (auto simp: disk_host_def diskFiles_def Let_def)

text \<open>A disk with the program \<open>int x;\<close> and one with the text \<open>y;\<close>, and the options of a build.\<close>

definition oneFile :: disk where
  "oneFile = [(''x.jia'', ''int x;'')]"

definition badFile :: disk where
  "badFile = [(''x.jia'', ''y;'')]"

definition linkOne :: options where
  "linkOne = defaultOptions\<lparr>op_sources := [''x.jia'']\<rparr>"

lemma one_accepted: "\<exists>tu. frontEnd no_ub ''int x;'' = Inr tu \<and> list_all selfFree (tu_decls tu) \<and> length (declIds {} (tu_decls tu)) = 1"
proof -
  have "case frontEnd no_ub ''int x;'' of Inl ds \<Rightarrow> False
      | Inr tu \<Rightarrow> list_all selfFree (tu_decls tu) \<and> length (declIds {} (tu_decls tu)) = 1"
    by code_simp
  thus ?thesis by (auto split: sum.splits)
qed

lemma one_linked:
  "\<exists>s. run disk_host recorder no_ub linkOne oneFile = Some (0, s) \<and> cp_temporaries s = [''jiac1.o'']"
proof -
  have "case run disk_host recorder no_ub linkOne oneFile of None \<Rightarrow> False
      | Some (status, s) \<Rightarrow> status = 0 \<and> cp_temporaries s = [''jiac1.o'']"
    by code_simp
  thus ?thesis by (auto split: option.splits)
qed

lemma bad_arguments:
  "\<exists>s. mainProgram disk_host recorder no_ub [''-fsyntax-only'', ''x.jia''] badFile = Some (1, s)"
proof -
  have "case mainProgram disk_host recorder no_ub [''-fsyntax-only'', ''x.jia''] badFile of None \<Rightarrow> False
      | Some (status, s) \<Rightarrow> status = 1"
    by code_simp
  thus ?thesis by (auto split: option.splits)
qed

section \<open>The properties of the pipeline\<close>

text \<open>
  C1: The front end as a whole: a text that it accepts is the tokenization of a sentence of the
  grammar, and the result is the tree of that sentence elaborated, with every declaration in order.
\<close>

theorem front_end_meaning:
  assumes "frontEnd ub source = Inr tu"
  shows "\<exists>toks ds. tokenizes [] source toks \<and> gUnit ub (butlast toks) ds \<and> list_all2 elabDecl ds (tu_decls tu) \<and>
    declsOk ub Map.empty {} (tu_decls tu)"
proof (cases rule: frontEnd_accepted [OF assms])
  case (1 toks tu0)
  thus ?thesis using analyze_result [OF gUnit_parsed [OF 1(2)] 1(3)] by blast
qed

lemma front_end_meaning_witness:
  "\<exists>tu toks ds. frontEnd no_ub ''int x;'' = Inr tu \<and> tokenizes [] ''int x;'' toks \<and> gUnit no_ub (butlast toks) ds \<and>
     list_all2 elabDecl ds (tu_decls tu) \<and> length (declIds {} (tu_decls tu)) = 1"
proof -
  obtain tu where t: "frontEnd no_ub ''int x;'' = Inr tu" "length (declIds {} (tu_decls tu)) = 1" using one_accepted by blast
  show ?thesis using front_end_meaning [OF t(1)] t by blast
qed

text \<open>
  C10: The exit status is 0 or 1, and it is 0 exactly when nothing was printed on the error stream:
  no failure of any part is silent, and nothing is reported by a run that succeeds.
\<close>

theorem exit_status_is_honest:
  assumes "mainProgram ho ll ub args w = Some (status, s)"
  shows "status \<in> {0, 1} \<and> (status = 0 \<longleftrightarrow> cp_err s = [])"
proof (cases "parseArguments args")
  case (Inl message)
  thus ?thesis using assms by (auto simp: mainProgram_def reportError_def newCompilation_def)
next
  case (Inr opts)
  thus ?thesis using assms run_honest [of ho ll ub opts w status s] by (auto simp: mainProgram_def)
qed

lemma exit_status_is_honest_witness:
  "\<exists>s. mainProgram disk_host recorder no_ub [''-fsyntax-only'', ''x.jia''] badFile = Some (1, s) \<and> cp_err s \<noteq> []"
proof -
  obtain s where s: "mainProgram disk_host recorder no_ub [''-fsyntax-only'', ''x.jia''] badFile = Some (1, s)"
    using bad_arguments by blast
  show ?thesis using exit_status_is_honest [OF s] s by auto
qed

text \<open>
  C11: A build leaves nothing behind but its output: after a run that links, successful or not, the
  only file that was not there before is the executable. All temporary object files are removed.
\<close>

theorem build_leaves_only_its_output:
  assumes "file_system ho files" "op_action opts = A_Link" "run ho ll ub opts w = Some (status, s)"
  shows "files (cp_world s) \<subseteq> insert (linkOutput opts) (files w)"
  by (rule file_system.run_files [OF assms])

lemma build_leaves_only_its_output_witness:
  "\<exists>s. run disk_host recorder no_ub linkOne oneFile = Some (0, s) \<and> cp_temporaries s = [''jiac1.o''] \<and>
     diskFiles (cp_world s) \<subseteq> {''a.out'', ''x.jia''}"
proof -
  obtain s where s: "run disk_host recorder no_ub linkOne oneFile = Some (0, s)" "cp_temporaries s = [''jiac1.o'']"
    using one_linked by blast
  have "op_action linkOne = A_Link" by (simp add: linkOne_def defaultOptions_def)
  from build_leaves_only_its_output [OF disk.file_system_axioms this s(1)] show ?thesis
    using s by (simp add: linkOutput_def linkOne_def defaultOptions_def diskFiles_def oneFile_def)
qed

text \<open>
  C9: A run ends with an exit status exactly when nothing keeps it from ending: every text that it reads
  is rejected or names no global in its own initializer, and no output stream has an error pending when
  it is closed. Only the worlds that the run itself goes through count, and a run that does not come to
  the back end (for \<open>-fsyntax-only\<close>, a dump, help, no target) always ends. The symbols of
  the texts that the run reads do not run out.
\<close>

theorem run_returns:
  assumes "llvm_laws ll parent blocks" "readsFew ub (runIncidents ho ll ub opts w)"
  shows "(\<exists>status s. run ho ll ub opts w = Some (status, s)) \<longleftrightarrow> list_all (harmless ub) (runIncidents ho ll ub opts w)"
  using run_ends [OF assms] by auto

text \<open>The program \<open>void *p = &p;\<close> does not get through the code generator.\<close>

definition selfFile :: disk where
  "selfFile = [(''x.jia'', ''void *p = &p;'')]"

lemma self_accepted:
  "\<exists>tu. frontEnd no_ub ''void *p = &p;'' = Inr tu \<and> \<not> list_all selfFree (tu_decls tu) \<and> length (declIds {} (tu_decls tu)) = 1"
proof -
  have "case frontEnd no_ub ''void *p = &p;'' of Inl ds \<Rightarrow> False
      | Inr tu \<Rightarrow> \<not> list_all selfFree (tu_decls tu) \<and> length (declIds {} (tu_decls tu)) = 1"
    by code_simp
  thus ?thesis by (auto split: sum.splits)
qed

lemma run_returns_incidents:
  "runIncidents disk_host recorder no_ub linkOne oneFile = [ReadText ''int x;'', ClosedStream False]"
  "runIncidents disk_host recorder no_ub linkOne selfFile = [ReadText ''void *p = &p;'']"
  by code_simp+

lemma run_returns_witness:
  "(\<exists>status s. run disk_host recorder no_ub linkOne oneFile = Some (status, s)) \<and>
   \<not> (\<exists>status s. run disk_host recorder no_ub linkOne selfFile = Some (status, s))"
proof -
  have "readsFew no_ub (runIncidents disk_host recorder no_ub linkOne oneFile)"
    "readsFew no_ub (runIncidents disk_host recorder no_ub linkOne selfFile)"
    unfolding run_returns_incidents using one_accepted self_accepted by (auto simp: fewSymbols_def readsFew_def)
  note r = this [THEN run_returns [OF log.llvm_laws_axioms]]
  show ?thesis unfolding r unfolding run_returns_incidents using one_accepted self_accepted by (auto simp: fineText_def)
qed

text \<open>
  C12: With \<open>-fsyntax-only\<close> every source is checked, also after one that cannot be opened or is
  rejected; the status says whether all were read and accepted, and the error stream has the reports on
  all of them, in the order of the command line, and nothing else changes. The only thing asked of the
  operating system is that reading one of these sources does not change the world.
\<close>

theorem syntax_only_checks_all:
  assumes "op_action opts = A_SyntaxOnly" "op_sources opts \<noteq> []"
    and "\<And>path. path \<in> set (op_sources opts) \<Longrightarrow> snd (ho_read ho path w) = w"
  shows "run ho ll ub opts w =
    Some (if \<forall>path \<in> set (op_sources opts). acceptedIn ho ub w path then 0 else 1,
          (newCompilation w)\<lparr>cp_err := concat (map (reportsOn ho ub w) (op_sources opts))\<rparr>)"
proof -
  have "compileAll ho ll ub opts (op_sources opts) (newCompilation w) =
      Some (\<forall>path \<in> set (op_sources opts). acceptedIn ho ub w path,
            (newCompilation w)\<lparr>cp_err := concat (map (reportsOn ho ub w) (op_sources opts))\<rparr>)"
    by (subst compileAll_syntax [OF assms(1,3)]) (simp_all add: newCompilation_def)
  thus ?thesis using assms(1,2) by (simp add: run_def runCompilation_def needsBackend_def buildAll_def newCompilation_def Let_def)
qed

text \<open>A disk with a good and a bad program, and a command line that names a missing one between them.\<close>

definition mixedDisk :: disk where
  "mixedDisk = [(''a.jia'', ''y;''), (''c.jia'', ''int x;'')]"

definition checkThree :: options where
  "checkThree = defaultOptions\<lparr>op_sources := [''a.jia'', ''b.jia'', ''c.jia''], op_action := A_SyntaxOnly\<rparr>"

lemma mixed_reports:
  "\<not> acceptedIn disk_host no_ub mixedDisk ''b.jia''"
  "reportsOn disk_host no_ub mixedDisk ''b.jia'' = ''jiac: error: cannot open '' @ quoted_text ''b.jia'' @ '': No such file or directory'' @ [newline]"
  "reportsOn disk_host no_ub mixedDisk ''a.jia'' \<noteq> []"
  "reportsOn disk_host no_ub mixedDisk ''c.jia'' = []"
  by code_simp+

lemma syntax_only_checks_all_witness:
  "run disk_host recorder no_ub checkThree mixedDisk =
     Some (1, (newCompilation mixedDisk)\<lparr>cp_err := reportsOn disk_host no_ub mixedDisk ''a.jia'' @
       ''jiac: error: cannot open '' @ quoted_text ''b.jia'' @ '': No such file or directory'' @ [newline]\<rparr>)"
proof -
  have "run disk_host recorder no_ub checkThree mixedDisk =
      Some (if \<forall>path \<in> set (op_sources checkThree). acceptedIn disk_host no_ub mixedDisk path then 0 else 1,
            (newCompilation mixedDisk)\<lparr>cp_err := concat (map (reportsOn disk_host no_ub mixedDisk) (op_sources checkThree))\<rparr>)"
    by (rule syntax_only_checks_all) (simp_all add: checkThree_def disk_host_def)
  thus ?thesis using mixed_reports by (simp add: checkThree_def)
qed

end
